(* ===== verification/Prelude.thy ===== *)
theory Prelude
  imports Main "HOL-Library.Word" "HOL-Library.Monad_Syntax"
begin

text \<open>
  Shared vocabulary of the development: the machine integers of the driver, the outcome of a
  C function, bounds-checked array accesses, the kernel's error codes, and the generic facts
  on lists that the component theories use.

  An operation that the kernel could abort has a result of type \<open>'a option\<close>: \<open>None\<close> is a
  fired \<open>BUG_ON\<close>, a null dereference or an access outside an array, \<open>Some\<close> is a normal
  return. An error return of the code (\<open>-ENOENT\<close> and so on) is a value of the sum type
  \<open>errno + 'a\<close> inside a normal return.
\<close>

unbundle bit_operations_syntax

type_synonym u8 = "8 word"
type_synonym u16 = "16 word"
type_synonym u32 = "32 word"
type_synonym u64 = "64 word"

datatype errno = ENOENT | EINVAL | ENOMEM | EPERM | EBUSY

section \<open>Collections of facts\<close>

named_theorems array_simps \<open>bounds-checked array accesses\<close>
named_theorems count_simps \<open>counting entries of index lists\<close>

section \<open>Array accesses\<close>

text \<open>
  \<open>rd a i\<close> reads \<open>a[i]\<close>, \<open>wr a i v\<close> stores into it, \<open>upd a i f\<close> reads, applies \<open>f\<close> and
  stores; an index outside the array is \<open>None\<close>.
\<close>

definition ensure :: "bool \<Rightarrow> unit option" where
  "ensure b = (if b then Some () else None)"

definition rd :: "'a list \<Rightarrow> nat \<Rightarrow> 'a option" where
  "rd a i = (if i < length a then Some (a ! i) else None)"

definition wr :: "'a list \<Rightarrow> nat \<Rightarrow> 'a \<Rightarrow> 'a list option" where
  "wr a i v = (if i < length a then Some (a[i := v]) else None)"

definition upd :: "'a list \<Rightarrow> nat \<Rightarrow> ('a \<Rightarrow> 'a) \<Rightarrow> 'a list option" where
  "upd a i f = (if i < length a then Some (a[i := f (a ! i)]) else None)"

text \<open>The same on an array of arrays: \<open>a[i][j]\<close>.\<close>

definition rd2 :: "'a list list \<Rightarrow> nat \<Rightarrow> nat \<Rightarrow> 'a option" where
  "rd2 a i j = do { r \<leftarrow> rd a i; rd r j }"

definition upd2 :: "'a list list \<Rightarrow> nat \<Rightarrow> nat \<Rightarrow> ('a \<Rightarrow> 'a) \<Rightarrow> 'a list list option" where
  "upd2 a i j f = do { r \<leftarrow> rd a i; r' \<leftarrow> upd r j f; wr a i r' }"

lemma ensure_eq_Some [simp]: "ensure b = Some u \<longleftrightarrow> b"
  by (simp add: ensure_def)

lemma ensure_True [simp]: "ensure True = Some ()"
  by (simp add: ensure_def)

lemma ensure_False [simp]: "ensure False = None"
  by (simp add: ensure_def)

lemma rd_Some [array_simps]: "rd a i = Some x \<longleftrightarrow> i < length a \<and> x = a ! i"
  by (auto simp: rd_def)

lemma wr_Some [array_simps]: "wr a i v = Some b \<longleftrightarrow> i < length a \<and> b = a[i := v]"
  by (auto simp: wr_def)

lemma upd_Some [array_simps]: "upd a i f = Some b \<longleftrightarrow> i < length a \<and> b = a[i := f (a ! i)]"
  by (auto simp: upd_def)

lemma rd2_Some [array_simps]:
  "rd2 a i j = Some x \<longleftrightarrow> i < length a \<and> j < length (a ! i) \<and> x = a ! i ! j"
  by (auto simp: rd2_def bind_eq_Some_conv rd_Some)

lemma upd2_Some [array_simps]:
  "upd2 a i j f = Some b \<longleftrightarrow>
     i < length a \<and> j < length (a ! i) \<and> b = a[i := (a ! i)[j := f (a ! i ! j)]]"
  by (auto simp: upd2_def bind_eq_Some_conv rd_Some wr_Some upd_Some)

lemma rd_in [simp]: "i < length a \<Longrightarrow> rd a i = Some (a ! i)"
  by (simp add: rd_def)

lemma wr_in [simp]: "i < length a \<Longrightarrow> wr a i v = Some (a[i := v])"
  by (simp add: wr_def)

lemma upd_in [simp]: "i < length a \<Longrightarrow> upd a i f = Some (a[i := f (a ! i)])"
  by (simp add: upd_def)

lemma rd2_in [simp]: "i < length a \<Longrightarrow> j < length (a ! i) \<Longrightarrow> rd2 a i j = Some (a ! i ! j)"
  by (simp add: rd2_def)

lemma upd2_in [simp]:
  "i < length a \<Longrightarrow> j < length (a ! i) \<Longrightarrow>
     upd2 a i j f = Some (a[i := (a ! i)[j := f (a ! i ! j)]])"
  by (simp add: upd2_def)

section \<open>Counting slots\<close>

text \<open>
  \<open>icount P pool xs\<close> is the number of slot numbers in \<open>xs\<close> whose pool entry satisfies \<open>P\<close>.
\<close>

definition icount :: "('a \<Rightarrow> bool) \<Rightarrow> 'a list \<Rightarrow> nat list \<Rightarrow> nat" where
  "icount P pool xs = length (filter (\<lambda>i. P (pool ! i)) xs)"

lemma icount_Nil [count_simps, simp]: "icount P pool [] = 0"
  by (simp add: icount_def)

lemma icount_Cons [count_simps]:
  "icount P pool (i # xs) = (if P (pool ! i) then 1 else 0) + icount P pool xs"
  by (simp add: icount_def)

lemma icount_append [count_simps]:
  "icount P pool (xs @ ys) = icount P pool xs + icount P pool ys"
  by (simp add: icount_def)

lemma icount_remove1:
  "i \<in> set xs \<Longrightarrow> icount P pool xs = (if P (pool ! i) then 1 else 0) + icount P pool (remove1 i xs)"
  by (induction xs) (auto simp: icount_Cons)

lemma nth_update: "xs[i := x] ! j = (if i = j \<and> i < length xs then x else xs ! j)"
  by (cases "i < length xs") (auto simp: list_update_beyond)

lemma icount_update_other [count_simps]:
  "i \<notin> set xs \<Longrightarrow> icount P (pool[i := x]) xs = icount P pool xs"
  unfolding icount_def by (rule arg_cong [where f = length], rule filter_cong)
     (auto simp: nth_update)

lemma icount_update_same:
  "(i < length pool \<Longrightarrow> P x = P (pool ! i)) \<Longrightarrow> icount P (pool[i := x]) xs = icount P pool xs"
  unfolding icount_def
  by (rule arg_cong [where f = length], rule filter_cong) (auto simp: nth_update)

lemma icount_le_length: "icount P pool xs \<le> length xs"
  by (simp add: icount_def)

lemma icount_pos: "i \<in> set xs \<Longrightarrow> P (pool ! i) \<Longrightarrow> 0 < icount P pool xs"
  by (simp add: icount_remove1)

lemma icount_zero: "(\<And>i. i \<in> set xs \<Longrightarrow> \<not> P (pool ! i)) \<Longrightarrow> icount P pool xs = 0"
  by (simp add: icount_def filter_False)

lemma icount_cong:
  "(\<And>i. i \<in> set xs \<Longrightarrow> P (pool ! i) = Q (pool' ! i)) \<Longrightarrow> icount P pool xs = icount Q pool' xs"
  unfolding icount_def by (rule arg_cong [where f = length], rule filter_cong) auto

lemma length_remove1_in: "i \<in> set xs \<Longrightarrow> Suc (length (remove1 i xs)) = length xs"
  by (simp add: length_remove1) (metis Suc_pred length_pos_if_in_set)

section \<open>Counters kept in words\<close>

text \<open>A counter that equals \<open>of_nat\<close> of a count follows the count up and down.\<close>

lemma of_nat_dec: "0 < n \<Longrightarrow> (of_nat n :: 'a :: len word) - 1 = of_nat (n - 1)"
  by (simp add: of_nat_diff)

lemma word_set_of_nat_inject:
  "m < 2 ^ LENGTH('a) \<Longrightarrow> n < 2 ^ LENGTH('a) \<Longrightarrow>
     (of_nat m = (of_nat n :: 'a :: len word)) \<longleftrightarrow> m = n"
  by (metis of_nat_inverse)

section \<open>Runs of a transition function that may abort\<close>

fun run_ops :: "('op \<Rightarrow> 's \<Rightarrow> 's option) \<Rightarrow> 'op list \<Rightarrow> 's \<Rightarrow> 's option" where
  "run_ops step [] s = Some s"
| "run_ops step (x # xs) s = do { s \<leftarrow> step x s; run_ops step xs s }"

text \<open>Every operation of a run is called where it may be called.\<close>

fun run_ok :: "('op \<Rightarrow> 's \<Rightarrow> bool) \<Rightarrow> ('op \<Rightarrow> 's \<Rightarrow> 's option) \<Rightarrow> 'op list \<Rightarrow> 's \<Rightarrow> bool" where
  "run_ok ok step [] s = True"
| "run_ok ok step (x # xs) s \<longleftrightarrow>
     ok x s \<and> (case step x s of None \<Rightarrow> True | Some s' \<Rightarrow> run_ok ok step xs s')"

end
