(* ===== verification/Mac_Queues.thy ===== *)
theory Mac_Queues
  imports Prelude
begin

text \<open>
  The software queues of mac80211 and the reasons that stop them
  (\<open>hal_apollo/mac80211/util.c\<close>, \<open>__ieee80211_stop_queue\<close> to \<open>ieee80211_wake_queues\<close>).

  \<open>queue_stop_reasons[q]\<close> is a bit set of \<open>queue_stop_reason\<close>s; each interface maps its four
  access categories to queues (\<open>hw_queue\<close>) and has a queue for buffered multicast
  (\<open>cab_queue\<close>). \<open>xoff\<close> is the state of the network stack's subqueue of an access category:
  \<open>netif_stop_subqueue\<close> sets it, \<open>netif_wake_subqueue\<close> clears it. A C name that starts with
  two underscores has the suffix \<open>_u\<close> here.
\<close>

section \<open>State\<close>

datatype queue_stop_reason =
    STOP_DRIVER | STOP_PS | STOP_CSA | STOP_AGGREGATION | STOP_SUSPEND | STOP_SKB_ADD
  | STOP_CHTYPE_CHANGE

fun reason_bit :: "queue_stop_reason \<Rightarrow> nat" where
  "reason_bit STOP_DRIVER = 0"
| "reason_bit STOP_PS = 1"
| "reason_bit STOP_CSA = 2"
| "reason_bit STOP_AGGREGATION = 3"
| "reason_bit STOP_SUSPEND = 4"
| "reason_bit STOP_SKB_ADD = 5"
| "reason_bit STOP_CHTYPE_CHANGE = 6"

record sdata =
  hw_queue :: "nat list"
  cab_queue :: nat
  offchannel :: bool
  queues_locked :: bool
  xoff :: "bool list"

record mac_hw =
  hw_queues :: nat
  queue_stop_reasons :: "u32 list"
  mac_pending :: "nat list list"
  interfaces :: "sdata list"
  tx_pending_tasklet :: bool

definition IEEE80211_INVAL_HW_QUEUE :: nat where
  "IEEE80211_INVAL_HW_QUEUE = 255"

definition IEEE80211_MAX_QUEUES :: nat where
  "IEEE80211_MAX_QUEUES = 16"

section \<open>Operations\<close>

text \<open>The inner loops over the access categories, for one interface.\<close>

definition stop_subqueues :: "nat \<Rightarrow> sdata \<Rightarrow> sdata" where
  "stop_subqueues queue sd =
     sd\<lparr>xoff := map (\<lambda>ac. if hw_queue sd ! ac = queue \<or> cab_queue sd = queue
                          then True else xoff sd ! ac) [0..<4]\<rparr>"

definition wake_subqueues :: "mac_hw \<Rightarrow> nat \<Rightarrow> sdata \<Rightarrow> sdata" where
  "wake_subqueues m queue sd =
     (if offchannel sd \<or> queues_locked sd then sd
      else if cab_queue sd \<noteq> IEEE80211_INVAL_HW_QUEUE \<and> queue_stop_reasons m ! cab_queue sd \<noteq> 0
      then sd
      else sd\<lparr>xoff := map (\<lambda>ac.
             let ac_queue = hw_queue sd ! ac in
             if ac_queue = queue \<or>
                (cab_queue sd = queue \<and> queue_stop_reasons m ! ac_queue = 0 \<and>
                 mac_pending m ! ac_queue = [])
             then False else xoff sd ! ac) [0..<4]\<rparr>)"

definition ieee80211_propagate_queue_wake :: "nat \<Rightarrow> mac_hw \<Rightarrow> mac_hw" where
  "ieee80211_propagate_queue_wake queue m =
     m\<lparr>interfaces := map (wake_subqueues m queue) (interfaces m)\<rparr>"

definition ieee80211_wake_queue_u :: "nat \<Rightarrow> queue_stop_reason \<Rightarrow> mac_hw \<Rightarrow> mac_hw" where
  "ieee80211_wake_queue_u queue reason m =
     (if hw_queues m \<le> queue then m
      else if \<not> bit (queue_stop_reasons m ! queue) (reason_bit reason) then m
      else let m = m\<lparr>queue_stop_reasons := (queue_stop_reasons m)
                       [queue := unset_bit (reason_bit reason) (queue_stop_reasons m ! queue)]\<rparr>
           in if queue_stop_reasons m ! queue \<noteq> 0 then m
              else if mac_pending m ! queue = [] then ieee80211_propagate_queue_wake queue m
              else m\<lparr>tx_pending_tasklet := True\<rparr>)"

definition ieee80211_stop_queue_u :: "nat \<Rightarrow> queue_stop_reason \<Rightarrow> mac_hw \<Rightarrow> mac_hw" where
  "ieee80211_stop_queue_u queue reason m =
     (if hw_queues m \<le> queue then m
      else if bit (queue_stop_reasons m ! queue) (reason_bit reason) then m
      else m\<lparr>queue_stop_reasons := (queue_stop_reasons m)
               [queue := set_bit (reason_bit reason) (queue_stop_reasons m ! queue)],
             interfaces := map (stop_subqueues queue) (interfaces m)\<rparr>)"

definition ieee80211_wake_queue :: "nat \<Rightarrow> mac_hw \<Rightarrow> mac_hw" where
  "ieee80211_wake_queue queue m = ieee80211_wake_queue_u queue STOP_DRIVER m"

definition ieee80211_stop_queue :: "nat \<Rightarrow> mac_hw \<Rightarrow> mac_hw" where
  "ieee80211_stop_queue queue m = ieee80211_stop_queue_u queue STOP_DRIVER m"

definition ieee80211_stop_queues_by_reason :: "queue_stop_reason \<Rightarrow> mac_hw \<Rightarrow> mac_hw" where
  "ieee80211_stop_queues_by_reason reason m =
     foldl (\<lambda>m i. ieee80211_stop_queue_u i reason m) m [0..<hw_queues m]"

definition ieee80211_wake_queues_by_reason :: "queue_stop_reason \<Rightarrow> mac_hw \<Rightarrow> mac_hw" where
  "ieee80211_wake_queues_by_reason reason m =
     foldl (\<lambda>m i. ieee80211_wake_queue_u i reason m) m [0..<hw_queues m]"

definition ieee80211_queue_stopped :: "nat \<Rightarrow> mac_hw \<Rightarrow> bool" where
  "ieee80211_queue_stopped queue m =
     (if hw_queues m \<le> queue then True else queue_stop_reasons m ! queue \<noteq> 0)"

text \<open>
  A frame handed back to mac80211: its buffer, whether \<open>control.vif\<close> is set, and its
  \<open>hw_queue\<close>.
\<close>

record tx_skb =
  skb_id :: nat
  skb_vif :: bool
  skb_hw_queue :: nat

definition pend_skb :: "nat \<Rightarrow> nat \<Rightarrow> mac_hw \<Rightarrow> mac_hw option" where
  "pend_skb queue skb m = do {
     p \<leftarrow> upd (mac_pending m) queue (\<lambda>l. l @ [skb]);
     Some (m\<lparr>mac_pending := p\<rparr>) }"

definition ieee80211_add_pending_skb :: "tx_skb \<Rightarrow> mac_hw \<Rightarrow> mac_hw option" where
  "ieee80211_add_pending_skb skb m =
     (if \<not> skb_vif skb then Some m
      else let queue = skb_hw_queue skb;
               m = ieee80211_stop_queue_u queue STOP_SKB_ADD m
           in do { m \<leftarrow> pend_skb queue (skb_id skb) m;
                   Some (ieee80211_wake_queue_u queue STOP_SKB_ADD m) })"

fun add_pending_loop :: "tx_skb list \<Rightarrow> mac_hw \<Rightarrow> mac_hw option" where
  "add_pending_loop [] m = Some m"
| "add_pending_loop (skb # skbs) m =
     (if \<not> skb_vif skb then add_pending_loop skbs m
      else let queue = skb_hw_queue skb;
               m = ieee80211_stop_queue_u queue STOP_SKB_ADD m
           in do { m \<leftarrow> pend_skb queue (skb_id skb) m; add_pending_loop skbs m })"

definition ieee80211_add_pending_skbs_fn ::
    "tx_skb list \<Rightarrow> (mac_hw \<Rightarrow> mac_hw) option \<Rightarrow> mac_hw \<Rightarrow> mac_hw option" where
  "ieee80211_add_pending_skbs_fn skbs fn m = do {
     m \<leftarrow> add_pending_loop skbs m;
     let m = (case fn of None \<Rightarrow> m | Some f \<Rightarrow> f m);
     Some (foldl (\<lambda>m i. ieee80211_wake_queue_u i STOP_SKB_ADD m) m [0..<hw_queues m]) }"

section \<open>Well-formed states\<close>

text \<open>
  The arrays have their declared sizes and every queue number an interface holds is an index
  into them (\<open>cab_queue\<close> may be \<open>IEEE80211_INVAL_HW_QUEUE\<close>).
\<close>

definition sdata_wf :: "sdata \<Rightarrow> bool" where
  "sdata_wf sd \<longleftrightarrow> length (hw_queue sd) = 4 \<and> length (xoff sd) = 4 \<and>
     list_all (\<lambda>q. q < 16) (hw_queue sd) \<and> (cab_queue sd = 255 \<or> cab_queue sd < 16)"

definition mac_wf :: "mac_hw \<Rightarrow> bool" where
  "mac_wf m \<longleftrightarrow> length (queue_stop_reasons m) = 16 \<and> length (mac_pending m) = 16 \<and>
     hw_queues m \<le> 16 \<and> list_all sdata_wf (interfaces m)"

text \<open>
  The safety property: a subqueue is off as long as its own queue, or the multicast queue of
  its interface, is stopped for any reason.
\<close>

definition must_stop :: "mac_hw \<Rightarrow> sdata \<Rightarrow> nat \<Rightarrow> bool" where
  "must_stop m sd ac \<longleftrightarrow> queue_stop_reasons m ! (hw_queue sd ! ac) \<noteq> 0 \<or>
     (cab_queue sd \<noteq> 255 \<and> queue_stop_reasons m ! cab_queue sd \<noteq> 0)"

definition mac_safe :: "mac_hw \<Rightarrow> bool" where
  "mac_safe m \<longleftrightarrow>
     list_all (\<lambda>sd. list_all (\<lambda>ac. must_stop m sd ac \<longrightarrow> xoff sd ! ac) [0..<4]) (interfaces m)"

datatype mac_op = Mac_stop nat queue_stop_reason | Mac_wake nat queue_stop_reason

fun mac_step :: "mac_op \<Rightarrow> mac_hw \<Rightarrow> mac_hw" where
  "mac_step (Mac_stop q r) m = ieee80211_stop_queue_u q r m"
| "mac_step (Mac_wake q r) m = ieee80211_wake_queue_u q r m"

section \<open>Facts about single operations\<close>

lemma set_bit_nonzero [simp]:
  assumes "n < 32"
  shows "set_bit n (w :: u32) \<noteq> 0"
proof
  assume "set_bit n w = 0"
  moreover have "bit (set_bit n w) n" using assms by (simp add: bit_set_bit_iff)
  ultimately show False by simp
qed

lemma reason_bit_less [simp]: "reason_bit r < 32"
  by (cases r) simp_all

lemma set_bit_same: "bit (w :: u32) n \<Longrightarrow> set_bit n w = w"
  by (rule bit_word_eqI) (auto simp: bit_set_bit_iff)

lemma unset_bit_same: "\<not> bit (w :: u32) n \<Longrightarrow> unset_bit n w = w"
  by (rule bit_word_eqI) (auto simp: bit_unset_bit_iff)

lemma unset_set_bit:
  "n < 32 \<Longrightarrow> \<not> bit (w :: u32) n \<Longrightarrow> unset_bit n (set_bit n w) = w"
  by (rule bit_word_eqI) (auto simp: bit_set_bit_iff bit_unset_bit_iff)

lemma stop_queue_frame [simp]:
  "hw_queues (ieee80211_stop_queue_u q r m) = hw_queues m"
  "mac_pending (ieee80211_stop_queue_u q r m) = mac_pending m"
  by (auto simp: ieee80211_stop_queue_u_def)

lemma wake_queue_frame [simp]:
  "hw_queues (ieee80211_wake_queue_u q r m) = hw_queues m"
  "mac_pending (ieee80211_wake_queue_u q r m) = mac_pending m"
  by (auto simp: ieee80211_wake_queue_u_def ieee80211_propagate_queue_wake_def Let_def)

lemma stop_reasons_after_stop:
  "mac_wf m \<Longrightarrow> queue_stop_reasons (ieee80211_stop_queue_u q r m) =
     (if q < hw_queues m
      then (queue_stop_reasons m)[q := set_bit (reason_bit r) (queue_stop_reasons m ! q)]
      else queue_stop_reasons m)"
  by (auto simp: ieee80211_stop_queue_u_def set_bit_same)

lemma stop_reasons_after_wake:
  "mac_wf m \<Longrightarrow> queue_stop_reasons (ieee80211_wake_queue_u q r m) =
     (if q < hw_queues m
      then (queue_stop_reasons m)[q := unset_bit (reason_bit r) (queue_stop_reasons m ! q)]
      else queue_stop_reasons m)"
  by (auto simp: ieee80211_wake_queue_u_def ieee80211_propagate_queue_wake_def Let_def
      unset_bit_same)

lemma sdata_wf_stop [simp]: "sdata_wf sd \<Longrightarrow> sdata_wf (stop_subqueues q sd)"
  by (simp add: sdata_wf_def stop_subqueues_def)

lemma sdata_wf_wake [simp]: "sdata_wf sd \<Longrightarrow> sdata_wf (wake_subqueues m q sd)"
  by (simp add: sdata_wf_def wake_subqueues_def)

lemma mac_wf_stop [simp]: "mac_wf m \<Longrightarrow> mac_wf (ieee80211_stop_queue_u q r m)"
  by (auto simp: mac_wf_def ieee80211_stop_queue_u_def list_all_iff)

lemma mac_wf_wake [simp]: "mac_wf m \<Longrightarrow> mac_wf (ieee80211_wake_queue_u q r m)"
  by (auto simp: mac_wf_def ieee80211_wake_queue_u_def ieee80211_propagate_queue_wake_def Let_def
      list_all_iff)

section \<open>Safety of stop and wake\<close>

lemma mac_safe_stop:
  assumes wf: "mac_wf m" and safe: "mac_safe m"
  shows "mac_safe (ieee80211_stop_queue_u q r m)"
proof (cases "q < hw_queues m \<and> \<not> bit (queue_stop_reasons m ! q) (reason_bit r)")
  case False
  then show ?thesis using safe by (auto simp: ieee80211_stop_queue_u_def)
next
  case True
  have "xoff (stop_subqueues q sd) ! ac"
    if sd: "sd \<in> set (interfaces m)" and ac: "ac < 4"
      and ms: "must_stop (ieee80211_stop_queue_u q r m) (stop_subqueues q sd) ac" for sd ac
  proof (cases "hw_queue sd ! ac = q \<or> cab_queue sd = q")
    case True
    with ac show ?thesis by (simp add: stop_subqueues_def)
  next
    case other: False
    with ms wf True have "must_stop m sd ac"
      by (auto simp: must_stop_def stop_subqueues_def ieee80211_stop_queue_u_def)
    with safe sd ac have "xoff sd ! ac" by (auto simp: mac_safe_def list_all_iff)
    with ac show ?thesis by (simp add: stop_subqueues_def)
  qed
  with True show ?thesis
    by (auto simp: mac_safe_def list_all_iff ieee80211_stop_queue_u_def)
qed

lemma wake_subqueues_frame [simp]:
  "hw_queue (wake_subqueues m q sd) = hw_queue sd"
  "cab_queue (wake_subqueues m q sd) = cab_queue sd"
  by (simp_all add: wake_subqueues_def)

lemma must_stop_wake_subqueues [simp]:
  "must_stop m (wake_subqueues m' q sd) ac = must_stop m sd ac"
  by (simp add: must_stop_def wake_subqueues_def)

lemma wake_subqueues_keeps_off:
  assumes "must_stop m sd ac" and "xoff sd ! ac" and "ac < 4"
    and "queue_stop_reasons m ! q = 0"
  shows "xoff (wake_subqueues m q sd) ! ac"
  using assms by (auto simp: wake_subqueues_def must_stop_def Let_def IEEE80211_INVAL_HW_QUEUE_def)

lemma must_stop_antimono:
  assumes "must_stop (m\<lparr>queue_stop_reasons := (queue_stop_reasons m)
              [q := unset_bit n (queue_stop_reasons m ! q)]\<rparr>) sd ac"
  shows "must_stop m sd ac"
proof -
  have z: "(queue_stop_reasons m)[q := unset_bit n (queue_stop_reasons m ! q)] ! i \<noteq> 0
        \<Longrightarrow> queue_stop_reasons m ! i \<noteq> 0" for i
    by (cases "i = q"; cases "q < length (queue_stop_reasons m)")
       (auto simp: list_update_beyond unset_bit_same)
  show ?thesis using assms z by (auto simp: must_stop_def)
qed

lemma mac_safe_wake:
  assumes wf: "mac_wf m" and safe: "mac_safe m"
  shows "mac_safe (ieee80211_wake_queue_u q r m)"
proof -
  define m' where "m' = m\<lparr>queue_stop_reasons := (queue_stop_reasons m)
                       [q := unset_bit (reason_bit r) (queue_stop_reasons m ! q)]\<rparr>"
  have safe': "mac_safe m'"
    using safe unfolding mac_safe_def list_all_iff m'_def
    by (auto dest: must_stop_antimono)
  have awake: "mac_safe (ieee80211_propagate_queue_wake q m')"
    if "queue_stop_reasons m' ! q = 0"
    using safe' that wake_subqueues_keeps_off [of m' _ _ q]
    by (auto simp: mac_safe_def list_all_iff ieee80211_propagate_queue_wake_def must_stop_def)
  have "mac_safe (m'\<lparr>tx_pending_tasklet := True\<rparr>)"
    using safe' by (simp add: mac_safe_def must_stop_def)
  with safe safe' awake show ?thesis
    unfolding ieee80211_wake_queue_u_def m'_def [symmetric] Let_def by auto
qed

lemma mac_step_safe: "mac_wf m \<and> mac_safe m \<Longrightarrow> mac_wf (mac_step e m) \<and> mac_safe (mac_step e m)"
  by (cases e) (simp_all add: mac_safe_stop mac_safe_wake)

lemma mac_run_safe:
  "mac_wf m \<and> mac_safe m \<Longrightarrow> mac_wf (fold mac_step es m) \<and> mac_safe (fold mac_step es m)"
proof (induction es arbitrary: m)
  case (Cons e es)
  from mac_step_safe [OF Cons.prems, of e] show ?case by (simp add: Cons.IH)
qed simp

end
