(* ===== verification/Queue.thy ===== *)
theory Queue
  imports Mac_Queues
begin

text \<open>
  The transmit queue with built-in allocator (\<open>hal_apollo/queue.c\<close>, \<open>hal_apollo/queue.h\<close>), in
  the configuration of \<open>hal_apollo/Makefile\<close>: \<open>ATBM_WIFI_QUEUE_LOCK_BUG\<close> defined,
  \<open>CONFIG_ATBM_APOLLO_TESTMODE\<close> not.

  The driver has four queues, one per access category, which share one \<open>atbm_queue_stats\<close>.
  Frames live in the slots of \<open>pool\<close>. The intrusive lists \<open>queue\<close>, \<open>pending\<close> and
  \<open>free_pool\<close> are lists of slot numbers, the first element being \<open>head->next\<close>; unlinking a
  slot takes it out of whichever list holds it. Counters that are \<open>int\<close> or \<open>u32\<close> in the code
  are 32-bit words, so a decrement below zero wraps; \<open>unsigned long\<close> is 32 bits wide. A buffer
  is a number, \<open>None\<close> the null pointer.
\<close>

section \<open>State\<close>

record atbm_txpriv =
  tp_link_id :: u8
  tp_raw_link_id :: u8
  tp_tid :: u8
  tp_rate_id :: u8
  tp_offset :: u8
  tp_if_id :: u8
  tp_offchannel_if_id :: u8

record atbm_queue_item =
  i_skb :: "nat option"
  i_packetID :: u32
  i_queue_timestamp :: u32
  i_xmit_timestamp :: u32
  i_txpriv :: atbm_txpriv
  i_generation :: u8

record atbm_queue =
  q_capacity :: u32
  q_num_queued :: u32
  q_num_queued_vif :: "u32 list"
  q_num_pending :: u32
  q_num_pending_vif :: "u32 list"
  q_num_sent :: u32
  q_num_put :: u32
  q_pool :: "atbm_queue_item list"
  q_queue :: "nat list"
  q_free_pool :: "nat list"
  q_pending :: "nat list"
  q_tx_locked_cnt :: "u32 list"
  q_link_map_cache :: "u32 list list"
  q_overfull :: "bool list"
  q_queue_id :: u8
  q_generation :: u8
  q_gc :: "u32 option list"
  q_ttl :: u32
  q_skb_last :: "nat option"

record atbm_queue_stats =
  st_link_map_cache :: "u32 list list"
  st_num_queued :: "u32 list"
  st_map_capacity :: nat

text \<open>
  What the operations see of the rest of the driver: the clock, the number of CPUs, the
  \<open>queue_cap\<close> of each attached interface (\<open>None\<close> for an empty \<open>vif_list\<close> slot), whether an
  atomic allocation succeeds, mac80211's queues, and a log of the calls that leave the model.
\<close>

datatype tx_event =
    Skb_dtor "nat option" atbm_txpriv
  | Wake_link_id_empty
  | Stay_awake u32

record tx_env =
  jiffies :: u32
  num_present_cpus :: u32
  vif_queue_cap :: "u16 option list"
  atomic_alloc :: bool
  mac :: mac_hw
  tx_log :: "tx_event list"

definition log_ev :: "tx_event \<Rightarrow> tx_env \<Rightarrow> tx_env" where
  "log_ev x e = e\<lparr>tx_log := tx_log e @ [x]\<rparr>"

definition ATBM_WIFI_MAX_VIFS :: nat where
  "ATBM_WIFI_MAX_VIFS = 2"

definition WLAN_LINK_ID_MAX :: nat where
  "WLAN_LINK_ID_MAX = 17"

definition ATBM_WIFI_ALL_IFS :: int where
  "ATBM_WIFI_ALL_IFS = -1"

definition ATBM_WIFI_GENERIC_IF_ID :: nat where
  "ATBM_WIFI_GENERIC_IF_ID = 2"

section \<open>Packet identifiers\<close>

record packet_id =
  p_queue_generation :: u8
  p_queue_id :: u8
  p_item_generation :: u8
  p_item_id :: u8
  p_if_id :: u8
  p_link_id :: u8

definition atbm_queue_parse_id :: "u32 \<Rightarrow> packet_id" where
  "atbm_queue_parse_id packetID =
     \<lparr>p_queue_generation = ucast (drop_bit 28 packetID AND 0xF),
      p_queue_id = ucast (drop_bit 16 packetID AND 0xF),
      p_item_generation = ucast (drop_bit 8 packetID AND 0xFF),
      p_item_id = ucast (drop_bit 0 packetID AND 0xFF),
      p_if_id = ucast (drop_bit 20 packetID AND 0xF),
      p_link_id = ucast (drop_bit 24 packetID AND 0xF)\<rparr>"

definition atbm_queue_make_packet_id ::
    "u8 \<Rightarrow> u8 \<Rightarrow> u8 \<Rightarrow> u8 \<Rightarrow> u8 \<Rightarrow> u8 \<Rightarrow> u32" where
  "atbm_queue_make_packet_id queue_generation queue_id item_generation item_id if_id link_id =
     push_bit 0 (ucast item_id) OR push_bit 8 (ucast item_generation) OR
     push_bit 16 (ucast queue_id) OR push_bit 20 (ucast if_id) OR
     push_bit 24 (ucast link_id) OR push_bit 28 (ucast queue_generation)"

definition atbm_queue_get_queue_id :: "u32 \<Rightarrow> u8" where
  "atbm_queue_get_queue_id packetID = ucast (drop_bit 16 packetID AND 0xF)"

definition atbm_queue_get_if_id :: "u32 \<Rightarrow> u8" where
  "atbm_queue_get_if_id packetID = ucast (drop_bit 20 packetID AND 0xF)"

definition atbm_queue_get_link_id :: "u32 \<Rightarrow> u8" where
  "atbm_queue_get_link_id packetID = ucast (drop_bit 24 packetID AND 0xF)"

definition atbm_queue_get_generation :: "u32 \<Rightarrow> u8" where
  "atbm_queue_get_generation packetID = ucast (drop_bit 8 packetID AND 0xFF)"

section \<open>Moving slots between the lists\<close>

definition list_del :: "nat \<Rightarrow> atbm_queue \<Rightarrow> atbm_queue" where
  "list_del i q = q\<lparr>q_queue := remove1 i (q_queue q),
                    q_free_pool := remove1 i (q_free_pool q),
                    q_pending := remove1 i (q_pending q)\<rparr>"

definition move_tail_free :: "nat \<Rightarrow> atbm_queue \<Rightarrow> atbm_queue" where
  "move_tail_free i q = (let q = list_del i q in q\<lparr>q_free_pool := q_free_pool q @ [i]\<rparr>)"

definition move_free :: "nat \<Rightarrow> atbm_queue \<Rightarrow> atbm_queue" where
  "move_free i q = (let q = list_del i q in q\<lparr>q_free_pool := i # q_free_pool q\<rparr>)"

definition move_tail_queue :: "nat \<Rightarrow> atbm_queue \<Rightarrow> atbm_queue" where
  "move_tail_queue i q = (let q = list_del i q in q\<lparr>q_queue := q_queue q @ [i]\<rparr>)"

definition move_queue :: "nat \<Rightarrow> atbm_queue \<Rightarrow> atbm_queue" where
  "move_queue i q = (let q = list_del i q in q\<lparr>q_queue := i # q_queue q\<rparr>)"

definition move_tail_pending :: "nat \<Rightarrow> atbm_queue \<Rightarrow> atbm_queue" where
  "move_tail_pending i q = (let q = list_del i q in q\<lparr>q_pending := q_pending q @ [i]\<rparr>)"

section \<open>Stopping and waking the network stack\<close>

definition atbm_queue_lock_u :: "atbm_queue \<Rightarrow> nat \<Rightarrow> tx_env \<Rightarrow> (atbm_queue \<times> tx_env) option" where
  "atbm_queue_lock_u q if_id e = do {
     c \<leftarrow> rd (q_tx_locked_cnt q) if_id;
     cnt \<leftarrow> wr (q_tx_locked_cnt q) if_id (c + 1);
     let q = q\<lparr>q_tx_locked_cnt := cnt\<rparr>;
     let hwq = unat (q_queue_id q) + 4 * if_id;
     if c = 0 then Some (q, e\<lparr>mac := ieee80211_stop_queue hwq (mac e)\<rparr>)
     else do { ensure (ieee80211_queue_stopped hwq (mac e)); Some (q, e) } }"

definition atbm_queue_unlock_u :: "atbm_queue \<Rightarrow> nat \<Rightarrow> tx_env \<Rightarrow> (atbm_queue \<times> tx_env) option" where
  "atbm_queue_unlock_u q if_id e = do {
     c \<leftarrow> rd (q_tx_locked_cnt q) if_id;
     ensure (c \<noteq> 0);
     cnt \<leftarrow> wr (q_tx_locked_cnt q) if_id (c - 1);
     let q = q\<lparr>q_tx_locked_cnt := cnt\<rparr>;
     let hwq = unat (q_queue_id q) + 4 * if_id;
     Some (q, if c - 1 = 0 then e\<lparr>mac := ieee80211_wake_queue hwq (mac e)\<rparr> else e) }"

definition atbm_queue_lock :: "atbm_queue \<Rightarrow> nat \<Rightarrow> tx_env \<Rightarrow> (atbm_queue \<times> tx_env) option" where
  "atbm_queue_lock q if_id e = atbm_queue_lock_u q if_id e"

definition atbm_queue_unlock :: "atbm_queue \<Rightarrow> nat \<Rightarrow> tx_env \<Rightarrow> (atbm_queue \<times> tx_env) option" where
  "atbm_queue_unlock q if_id e = atbm_queue_unlock_u q if_id e"

section \<open>Garbage collection of expired frames\<close>

text \<open>
  \<open>atbm_queue_register_post_gc\<close> copies an item to a list that is freed once the lock is
  dropped; only the buffer and the transmit data of the copy are used.
\<close>

type_synonym gc_list = "(nat option \<times> atbm_txpriv) list"

definition atbm_queue_register_post_gc :: "tx_env \<Rightarrow> gc_list \<Rightarrow> atbm_queue_item \<Rightarrow> gc_list option" where
  "atbm_queue_register_post_gc e gc item = do {
     ensure (atomic_alloc e);
     Some (gc @ [(i_skb item, i_txpriv item)]) }"

definition atbm_queue_post_gc :: "gc_list \<Rightarrow> tx_env \<Rightarrow> tx_env" where
  "atbm_queue_post_gc gc e = foldl (\<lambda>e (skb, tp). log_ev (Skb_dtor skb tp) e) e gc"

text \<open>
  One expired frame: the counters of the queue and the shared counters go down, the slot
  returns to the free pool. The last component says whether its link has no frame left.
\<close>

definition gc_expire :: "nat \<Rightarrow> atbm_queue_item \<Rightarrow> atbm_queue \<Rightarrow> atbm_queue_stats \<Rightarrow>
    (atbm_queue \<times> atbm_queue_stats \<times> bool) option" where
  "gc_expire pos item q s = do {
     let if_id = unat (tp_if_id (i_txpriv item));
     let link_id = unat (tp_link_id (i_txpriv item));
     nqv \<leftarrow> upd (q_num_queued_vif q) if_id (\<lambda>c. c - 1);
     lm \<leftarrow> upd2 (q_link_map_cache q) if_id link_id (\<lambda>c. c - 1);
     snq \<leftarrow> upd (st_num_queued s) if_id (\<lambda>c. c - 1);
     slm \<leftarrow> upd2 (st_link_map_cache s) if_id link_id (\<lambda>c. c - 1);
     left \<leftarrow> rd2 slm if_id link_id;
     pool \<leftarrow> wr (q_pool q) pos (item\<lparr>i_skb := None\<rparr>);
     Some (move_tail_free pos
             (q\<lparr>q_num_queued := q_num_queued q - 1, q_num_queued_vif := nqv,
                q_link_map_cache := lm, q_pool := pool\<rparr>),
           s\<lparr>st_num_queued := snq, st_link_map_cache := slm\<rparr>, left = 0) }"

text \<open>
  The loop of \<open>__atbm_queue_gc\<close> over \<open>queue\<close>; it stops at the first frame of the interface
  that has not expired and hands that slot on.
\<close>

fun gc_loop :: "tx_env \<Rightarrow> u8 \<Rightarrow> nat \<Rightarrow> nat list \<Rightarrow> atbm_queue \<Rightarrow> atbm_queue_stats \<Rightarrow> gc_list \<Rightarrow>
    bool \<Rightarrow> (atbm_queue \<times> atbm_queue_stats \<times> gc_list \<times> bool \<times> nat option) option" where
  "gc_loop e clr loop [] q s gc wakeup = Some (q, s, gc, wakeup, None)"
| "gc_loop e clr loop (pos # nx) q s gc wakeup = do {
     item \<leftarrow> rd (q_pool q) pos;
     ensure (loop + 1 \<le> 300);
     if tp_if_id (i_txpriv item) \<noteq> clr then gc_loop e clr (loop + 1) nx q s gc wakeup
     else if jiffies e - i_queue_timestamp item < q_ttl q then Some (q, s, gc, wakeup, Some pos)
     else do {
       gc \<leftarrow> atbm_queue_register_post_gc e gc item;
       (q, s, empty) \<leftarrow> gc_expire pos item q s;
       gc_loop e clr (loop + 1) nx q s gc (wakeup \<or> empty) } }"

definition wake_capacity :: "tx_env \<Rightarrow> nat \<Rightarrow> atbm_queue \<Rightarrow> u32 option" where
  "wake_capacity e if_id q = do {
     cap \<leftarrow> rd (vif_queue_cap e) if_id;
     Some (case cap of Some c \<Rightarrow> ucast c * 2 div 3 | None \<Rightarrow> q_capacity q div 4) }"

definition atbm_queue_gc_u :: "atbm_queue \<Rightarrow> atbm_queue_stats \<Rightarrow> tx_env \<Rightarrow> bool \<Rightarrow> u8 \<Rightarrow>
    (atbm_queue \<times> atbm_queue_stats \<times> tx_env \<times> gc_list) option" where
  "atbm_queue_gc_u q s e unlock clr = do {
     (q, s, gc, wakeup, item) \<leftarrow> gc_loop e clr 0 (q_queue q) q s [] False;
     let if_id = unat clr;
     let e = (if wakeup then log_ev Wake_link_id_empty e else e);
     over \<leftarrow> rd (q_overfull q) if_id;
     if \<not> over then Some (q, s, e, gc)
     else do {
       capacity \<leftarrow> wake_capacity e if_id q;
       queued \<leftarrow> rd (q_num_queued_vif q) if_id;
       if queued \<le> capacity then do {
         ov \<leftarrow> wr (q_overfull q) if_id False;
         let q = q\<lparr>q_overfull := ov\<rparr>;
         if unlock then do { (q, e) \<leftarrow> atbm_queue_unlock_u q if_id e; Some (q, s, e, gc) }
         else Some (q, s, e, gc) }
       else (case item of
               None \<Rightarrow> Some (q, s, e, gc)
             | Some pos \<Rightarrow> do {
                 it \<leftarrow> rd (q_pool q) pos;
                 if tp_if_id (i_txpriv it) = clr then do {
                   let tmo = i_queue_timestamp it + q_ttl q;
                   gct \<leftarrow> wr (q_gc q) if_id (Some tmo);
                   Some (q\<lparr>q_gc := gct\<rparr>, s, log_ev (Stay_awake (tmo - jiffies e)) e, gc) }
                 else Some (q, s, e, gc) }) } }"

text \<open>The timer callback; a timer that runs is no longer pending.\<close>

definition atbm_queue_gc :: "atbm_queue \<Rightarrow> atbm_queue_stats \<Rightarrow> tx_env \<Rightarrow> u8 \<Rightarrow>
    (atbm_queue \<times> atbm_queue_stats \<times> tx_env) option" where
  "atbm_queue_gc q s e if_id = do {
     gct \<leftarrow> wr (q_gc q) (unat if_id) None;
     (q, s, e, gc) \<leftarrow> atbm_queue_gc_u (q\<lparr>q_gc := gct\<rparr>) s e True if_id;
     Some (q, s, atbm_queue_post_gc gc e) }"

end
