(* ===== verification/Queue_Ops.thy ===== *)
theory Queue_Ops
  imports Queue
begin

text \<open>
  The operations of the transmit queue (\<open>hal_apollo/queue.c\<close>): set-up and tear-down, \<open>put\<close>,
  \<open>get\<close>, \<open>requeue\<close>, \<open>remove\<close> and the queries. Each takes the queue, the shared statistics and
  the environment and returns them updated, with the code's return value first.
\<close>

section \<open>Set-up and tear-down\<close>

text \<open>
  Allocation outcomes are an argument: \<open>allocs ! i\<close> says whether the \<open>i\<close>-th \<open>atbm_kzalloc\<close> of
  the function succeeds. Zeroed memory is the all-zero value of the type.
\<close>

definition zero_txpriv :: atbm_txpriv where
  "zero_txpriv = \<lparr>tp_link_id = 0, tp_raw_link_id = 0, tp_tid = 0, tp_rate_id = 0, tp_offset = 0,
     tp_if_id = 0, tp_offchannel_if_id = 0\<rparr>"

definition zero_item :: atbm_queue_item where
  "zero_item = \<lparr>i_skb = None, i_packetID = 0, i_queue_timestamp = 0, i_xmit_timestamp = 0,
     i_txpriv = zero_txpriv, i_generation = 0\<rparr>"

definition atbm_queue_stats_init :: "nat \<Rightarrow> bool list \<Rightarrow> errno + atbm_queue_stats" where
  "atbm_queue_stats_init map_capacity allocs =
     (if list_all id (take ATBM_WIFI_MAX_VIFS allocs)
      then Inr \<lparr>st_link_map_cache = replicate ATBM_WIFI_MAX_VIFS (replicate 50 0),
                st_num_queued = replicate ATBM_WIFI_MAX_VIFS 0,
                st_map_capacity = map_capacity\<rparr>
      else Inl ENOMEM)"

definition atbm_queue_init :: "u8 \<Rightarrow> u32 \<Rightarrow> u32 \<Rightarrow> bool list \<Rightarrow> errno + atbm_queue" where
  "atbm_queue_init queue_id capacity ttl allocs =
     (if list_all id (take (ATBM_WIFI_MAX_VIFS + 1) allocs)
      then Inr \<lparr>q_capacity = capacity, q_num_queued = 0,
                q_num_queued_vif = replicate ATBM_WIFI_MAX_VIFS 0, q_num_pending = 0,
                q_num_pending_vif = replicate ATBM_WIFI_MAX_VIFS 0, q_num_sent = 0, q_num_put = 0,
                q_pool = replicate (unat capacity) zero_item,
                q_queue = [], q_free_pool = [0..<unat capacity], q_pending = [],
                q_tx_locked_cnt = replicate ATBM_WIFI_MAX_VIFS 0,
                q_link_map_cache = replicate ATBM_WIFI_MAX_VIFS (replicate 50 0),
                q_overfull = replicate ATBM_WIFI_MAX_VIFS False,
                q_queue_id = queue_id, q_generation = 0,
                q_gc = replicate ATBM_WIFI_MAX_VIFS None, q_ttl = ttl, q_skb_last = None\<rparr>
      else Inl ENOMEM)"

text \<open>\<open>atbm_queue_clear\<close>: the frames of one interface, or of all of them, are dropped.\<close>

definition of_iface :: "int \<Rightarrow> atbm_queue_item \<Rightarrow> bool" where
  "of_iface if_id item \<longleftrightarrow>
     ATBM_WIFI_ALL_IFS = if_id \<or> int (unat (tp_if_id (i_txpriv item))) = if_id"

fun clear_loop :: "tx_env \<Rightarrow> int \<Rightarrow> nat list \<Rightarrow> atbm_queue \<Rightarrow> gc_list \<Rightarrow> nat \<Rightarrow>
    (atbm_queue \<times> gc_list \<times> nat) option" where
  "clear_loop e if_id [] q gc cnt = Some (q, gc, cnt)"
| "clear_loop e if_id (pos # nx) q gc cnt = do {
     item \<leftarrow> rd (q_pool q) pos;
     if of_iface if_id item then do {
       gc \<leftarrow> atbm_queue_register_post_gc e gc item;
       pool \<leftarrow> wr (q_pool q) pos (item\<lparr>i_skb := None\<rparr>);
       clear_loop e if_id nx (move_tail_free pos (q\<lparr>q_pool := pool\<rparr>)) gc (cnt + 1) }
     else clear_loop e if_id nx q gc cnt }"

fun clear_link_maps :: "nat \<Rightarrow> nat list \<Rightarrow> atbm_queue \<Rightarrow> atbm_queue_stats \<Rightarrow>
    (atbm_queue \<times> atbm_queue_stats) option" where
  "clear_link_maps if_id [] q s = Some (q, s)"
| "clear_link_maps if_id (i # is) q s = do {
     c \<leftarrow> rd2 (q_link_map_cache q) if_id i;
     snq \<leftarrow> upd (st_num_queued s) if_id (\<lambda>n. n - c);
     slm \<leftarrow> upd2 (st_link_map_cache s) if_id i (\<lambda>n. n - c);
     lm \<leftarrow> upd2 (q_link_map_cache q) if_id i (\<lambda>_. 0);
     clear_link_maps if_id is (q\<lparr>q_link_map_cache := lm\<rparr>)
       (s\<lparr>st_num_queued := snq, st_link_map_cache := slm\<rparr>) }"

definition clear_counts :: "nat \<Rightarrow> atbm_queue \<Rightarrow> atbm_queue option" where
  "clear_counts if_id q = do {
     nqv \<leftarrow> wr (q_num_queued_vif q) if_id 0;
     npv \<leftarrow> wr (q_num_pending_vif q) if_id 0;
     Some (q\<lparr>q_num_queued_vif := nqv, q_num_pending_vif := npv\<rparr>) }"

definition clear_overfull :: "nat \<Rightarrow> atbm_queue \<Rightarrow> tx_env \<Rightarrow> (atbm_queue \<times> tx_env) option" where
  "clear_overfull if_id q e = do {
     over \<leftarrow> rd (q_overfull q) if_id;
     if over then do {
       ov \<leftarrow> wr (q_overfull q) if_id False;
       atbm_queue_unlock_u (q\<lparr>q_overfull := ov\<rparr>) if_id e }
     else Some (q, e) }"

text \<open>The interfaces a call is about: the loops over \<open>ATBM_WIFI_MAX_VIFS\<close> for \<open>ATBM_WIFI_ALL_IFS\<close>.\<close>

definition ifaces_of :: "int \<Rightarrow> nat list option" where
  "ifaces_of if_id =
     (if if_id = ATBM_WIFI_ALL_IFS then Some [0..<ATBM_WIFI_MAX_VIFS]
      else do { ensure (0 \<le> if_id); Some [nat if_id] })"

fun each_count :: "nat list \<Rightarrow> atbm_queue \<Rightarrow> atbm_queue option" where
  "each_count [] q = Some q"
| "each_count (i # is) q = do { q \<leftarrow> clear_counts i q; each_count is q }"

fun each_link_map :: "nat list \<Rightarrow> atbm_queue \<Rightarrow> atbm_queue_stats \<Rightarrow>
    (atbm_queue \<times> atbm_queue_stats) option" where
  "each_link_map [] q s = Some (q, s)"
| "each_link_map (i # is) q s = do {
     (q, s) \<leftarrow> clear_link_maps i [0..<st_map_capacity s] q s; each_link_map is q s }"

fun each_overfull :: "nat list \<Rightarrow> atbm_queue \<Rightarrow> tx_env \<Rightarrow> (atbm_queue \<times> tx_env) option" where
  "each_overfull [] q e = Some (q, e)"
| "each_overfull (i # is) q e = do { (q, e) \<leftarrow> clear_overfull i q e; each_overfull is q e }"

definition atbm_queue_clear :: "atbm_queue \<Rightarrow> atbm_queue_stats \<Rightarrow> tx_env \<Rightarrow> int \<Rightarrow>
    (atbm_queue \<times> atbm_queue_stats \<times> tx_env) option" where
  "atbm_queue_clear q s e if_id = do {
     let q = q\<lparr>q_generation := (q_generation q + 1) AND 0xf\<rparr>;
     (q, gc, cnt) \<leftarrow> clear_loop e if_id (q_pending q) q [] 0;
     let q = q\<lparr>q_num_pending := q_num_pending q - of_nat cnt\<rparr>;
     (q, gc, cnt) \<leftarrow> clear_loop e if_id (q_queue q) q gc cnt;
     ensure (of_nat cnt \<le> q_num_queued q);
     let q = q\<lparr>q_num_queued := q_num_queued q - of_nat cnt\<rparr>;
     is \<leftarrow> ifaces_of if_id;
     q \<leftarrow> each_count is q;
     (q, s) \<leftarrow> each_link_map is q s;
     (q, e) \<leftarrow> each_overfull is q e;
     Some (q, s, atbm_queue_post_gc gc (log_ev Wake_link_id_empty e)) }"

definition atbm_queue_deinit :: "atbm_queue \<Rightarrow> atbm_queue_stats \<Rightarrow> tx_env \<Rightarrow>
    (atbm_queue \<times> atbm_queue_stats \<times> tx_env) option" where
  "atbm_queue_deinit q s e = do {
     (q, s, e) \<leftarrow> atbm_queue_clear q s e ATBM_WIFI_ALL_IFS;
     Some (q\<lparr>q_gc := replicate ATBM_WIFI_MAX_VIFS None, q_free_pool := [], q_pool := [],
             q_link_map_cache := [], q_capacity := 0\<rparr>, s, e) }"

section \<open>Queueing a frame\<close>

text \<open>The test that stops an interface: \<open>xIF_QUEUE_OVERFLOW\<close> or \<open>ALLIF_QUEUE_OVERFLOW\<close>.\<close>

definition put_overflow :: "tx_env \<Rightarrow> nat \<Rightarrow> atbm_queue \<Rightarrow> bool option" where
  "put_overflow e if_id q = do {
     cap \<leftarrow> rd (vif_queue_cap e) if_id;
     let capacity = (case cap of Some c \<Rightarrow> ucast c | None \<Rightarrow> q_capacity q div 2);
     nqv \<leftarrow> rd (q_num_queued_vif q) if_id;
     Some (capacity - num_present_cpus e \<le> nqv \<or>
           q_capacity q - num_present_cpus e \<le> q_num_queued q) }"

definition put_throttle :: "nat \<Rightarrow> atbm_queue \<Rightarrow> tx_env \<Rightarrow> (atbm_queue \<times> tx_env) option" where
  "put_throttle if_id q e = do {
     over \<leftarrow> rd (q_overfull q) if_id;
     if over then Some (q, e)
     else do {
       overflow \<leftarrow> put_overflow e if_id q;
       if overflow then do {
         ov \<leftarrow> wr (q_overfull q) if_id True;
         (q, e) \<leftarrow> atbm_queue_lock_u (q\<lparr>q_overfull := ov\<rparr>) if_id e;
         gct \<leftarrow> wr (q_gc q) if_id (Some (jiffies e));
         Some (q\<lparr>q_gc := gct\<rparr>, e) }
       else Some (q, e) } }"

definition put_item :: "nat \<Rightarrow> nat option \<Rightarrow> atbm_txpriv \<Rightarrow> atbm_queue \<Rightarrow> tx_env \<Rightarrow> atbm_queue_item \<Rightarrow>
    atbm_queue_item" where
  "put_item pos skb txpriv q e item =
     item\<lparr>i_skb := skb, i_txpriv := txpriv, i_generation := 0,
          i_packetID := atbm_queue_make_packet_id (q_generation q) (q_queue_id q) 0 (of_nat pos)
                          (tp_if_id txpriv) (tp_raw_link_id txpriv),
          i_queue_timestamp := jiffies e\<rparr>"

definition atbm_queue_put :: "atbm_queue \<Rightarrow> atbm_queue_stats \<Rightarrow> tx_env \<Rightarrow> nat option \<Rightarrow> atbm_txpriv \<Rightarrow>
    ((errno + unit) \<times> atbm_queue \<times> atbm_queue_stats \<times> tx_env) option" where
  "atbm_queue_put q s e skb txpriv =
     (if st_map_capacity s \<le> unat (tp_link_id txpriv) then Some (Inl EINVAL, q, s, e)
      else (case q_free_pool q of
        [] \<Rightarrow> Some (Inl ENOENT, q, s, e)
      | pos # _ \<Rightarrow> do {
          let if_id = unat (tp_if_id txpriv);
          let link_id = unat (tp_link_id txpriv);
          item \<leftarrow> rd (q_pool q) pos;
          ensure (i_skb item = None);
          pool \<leftarrow> wr (q_pool q) pos (put_item pos skb txpriv q e item);
          nqv \<leftarrow> upd (q_num_queued_vif q) if_id (\<lambda>c. c + 1);
          lm \<leftarrow> upd2 (q_link_map_cache q) if_id link_id (\<lambda>c. c + 1);
          snq \<leftarrow> upd (st_num_queued s) if_id (\<lambda>c. c + 1);
          slm \<leftarrow> upd2 (st_link_map_cache s) if_id link_id (\<lambda>c. c + 1);
          let q = move_tail_queue pos q;
          (q, e) \<leftarrow> put_throttle if_id
            (q\<lparr>q_skb_last := skb, q_pool := pool, q_num_queued := q_num_queued q + 1,
               q_num_queued_vif := nqv, q_link_map_cache := lm\<rparr>) e;
          Some (Inr (), q, s\<lparr>st_num_queued := snq, st_link_map_cache := slm\<rparr>, e) }))"

section \<open>Handing a frame to the firmware\<close>

definition get_matches :: "atbm_queue \<Rightarrow> int \<Rightarrow> u32 \<Rightarrow> nat \<Rightarrow> bool" where
  "get_matches q if_id link_id_map pos \<longleftrightarrow>
     int (unat (tp_if_id (i_txpriv (q_pool q ! pos)))) = if_id \<and>
     link_id_map AND push_bit (unat (tp_link_id (i_txpriv (q_pool q ! pos)))) 1 \<noteq> 0"

text \<open>A frame queued before a \<open>clear\<close> gets the current generation of the queue.\<close>

definition refresh_generation :: "u8 \<Rightarrow> u32 \<Rightarrow> u32" where
  "refresh_generation gen packetID =
     (if ucast (drop_bit 28 packetID AND 0xF) \<noteq> gen AND 0xF
      then (packetID AND 0x0fffffff) OR push_bit 28 (ucast (gen AND 0xF))
      else packetID)"

definition atbm_queue_get :: "atbm_queue \<Rightarrow> atbm_queue_stats \<Rightarrow> tx_env \<Rightarrow> int \<Rightarrow> u32 \<Rightarrow>
    ((errno + nat \<times> u32 \<times> atbm_txpriv) \<times> atbm_queue \<times> atbm_queue_stats \<times> tx_env) option" where
  "atbm_queue_get q s e if_id link_id_map =
     (case List.find (get_matches q if_id link_id_map) (q_queue q) of
        None \<Rightarrow> Some (Inl ENOENT, q, s, e)
      | Some pos \<Rightarrow> do {
          item \<leftarrow> rd (q_pool q) pos;
          skb \<leftarrow> i_skb item;
          let vif = unat (tp_if_id (i_txpriv item));
          let link_id = unat (tp_link_id (i_txpriv item));
          let packetID = refresh_generation (q_generation q) (i_packetID item);
          ensure (ucast (drop_bit 28 (i_packetID item) AND 0xF) = q_generation q AND 0xF \<or>
                  ucast (drop_bit 28 packetID AND 0xF) = q_generation q);
          pool \<leftarrow> wr (q_pool q) pos (item\<lparr>i_packetID := packetID, i_xmit_timestamp := jiffies e\<rparr>);
          npv \<leftarrow> upd (q_num_pending_vif q) vif (\<lambda>c. c + 1);
          lm \<leftarrow> upd2 (q_link_map_cache q) vif link_id (\<lambda>c. c - 1);
          snq \<leftarrow> upd (st_num_queued s) vif (\<lambda>c. c - 1);
          slm \<leftarrow> upd2 (st_link_map_cache s) vif link_id (\<lambda>c. c - 1);
          left \<leftarrow> rd2 slm vif link_id;
          let last = (if q_skb_last q = Some skb then None else q_skb_last q);
          let q = move_tail_pending pos q;
          Some (Inr (skb, packetID, i_txpriv item),
                q\<lparr>q_skb_last := last, q_pool := pool, q_num_pending := q_num_pending q + 1,
                  q_num_pending_vif := npv, q_link_map_cache := lm, q_num_put := q_num_put q + 1\<rparr>,
                s\<lparr>st_num_queued := snq, st_link_map_cache := slm\<rparr>,
                if left = 0 then log_ev Wake_link_id_empty e else e) })"

section \<open>Confirmation and retransmission\<close>

text \<open>
  The checks that \<open>requeue\<close>, \<open>remove\<close> and \<open>get_skb\<close> share: \<open>None\<close> is a fired \<open>BUG_ON\<close>,
  an error is what the caller gets back, and success hands on the item.
\<close>

definition check_packet :: "atbm_queue \<Rightarrow> packet_id \<Rightarrow> (errno + atbm_queue_item) option" where
  "check_packet q p = do {
     ensure (p_queue_id p = q_queue_id q);
     if p_queue_generation p \<noteq> q_generation q then Some (Inl ENOENT)
     else if unat (q_capacity q) \<le> unat (p_item_id p) then Some (Inl EINVAL)
     else do {
       item \<leftarrow> rd (q_pool q) (unat (p_item_id p));
       if i_generation item \<noteq> p_item_generation p then Some (Inl ENOENT)
       else Some (Inr item) } }"

definition remove_unthrottle :: "nat \<Rightarrow> atbm_queue \<Rightarrow> tx_env \<Rightarrow> (atbm_queue \<times> tx_env) option" where
  "remove_unthrottle if_id q e = do {
     over \<leftarrow> rd (q_overfull q) if_id;
     if \<not> over then Some (q, e)
     else do {
       capacity \<leftarrow> wake_capacity e if_id q;
       queued \<leftarrow> rd (q_num_queued_vif q) if_id;
       if queued \<le> capacity then do {
         ov \<leftarrow> wr (q_overfull q) if_id False;
         atbm_queue_unlock_u (q\<lparr>q_overfull := ov\<rparr>) if_id e }
       else Some (q, e) } }"

definition atbm_queue_remove :: "atbm_queue \<Rightarrow> tx_env \<Rightarrow> u32 \<Rightarrow>
    ((errno + unit) \<times> atbm_queue \<times> tx_env) option" where
  "atbm_queue_remove q e packetID = do {
     let p = atbm_queue_parse_id packetID;
     r \<leftarrow> check_packet q p;
     (case r of
        Inl err \<Rightarrow> Some (Inl err, q, e)
      | Inr item \<Rightarrow> do {
          let pos = unat (p_item_id p);
          let if_id = unat (p_if_id p);
          npv \<leftarrow> upd (q_num_pending_vif q) if_id (\<lambda>c. c - 1);
          nqv \<leftarrow> upd (q_num_queued_vif q) if_id (\<lambda>c. c - 1);
          pool \<leftarrow> wr (q_pool q) pos (item\<lparr>i_skb := None, i_generation := i_generation item + 1\<rparr>);
          let q = move_free pos q;
          (q, e) \<leftarrow> remove_unthrottle if_id
            (q\<lparr>q_pool := pool, q_num_pending := q_num_pending q - 1, q_num_pending_vif := npv,
               q_num_queued := q_num_queued q - 1, q_num_queued_vif := nqv,
               q_num_sent := q_num_sent q + 1\<rparr>) e;
          Some (Inr (), q,
                if i_skb item = None then e else log_ev (Skb_dtor (i_skb item) (i_txpriv item)) e) }) }"

definition atbm_queue_requeue :: "atbm_queue \<Rightarrow> atbm_queue_stats \<Rightarrow> tx_env \<Rightarrow> u32 \<Rightarrow> bool \<Rightarrow>
    ((errno + unit) \<times> atbm_queue \<times> atbm_queue_stats \<times> tx_env) option" where
  "atbm_queue_requeue q s e packetID check = do {
     let p = atbm_queue_parse_id packetID;
     let pos = unat (p_item_id p);
     let if_id = unat (p_if_id p);
     item0 \<leftarrow> rd (q_pool q) pos;
     if check \<and> unat (tp_offchannel_if_id (i_txpriv item0)) = ATBM_WIFI_GENERIC_IF_ID then do {
       (r, q, e) \<leftarrow> atbm_queue_remove q e packetID;
       Some (Inr (), q, s, e) }
     else do {
       let item1 = (if check then item0
                    else item0\<lparr>i_txpriv := (i_txpriv item0)
                                 \<lparr>tp_offchannel_if_id := of_nat ATBM_WIFI_GENERIC_IF_ID\<rparr>\<rparr>);
       pool1 \<leftarrow> wr (q_pool q) pos item1;
       let q = q\<lparr>q_pool := pool1\<rparr>;
       r \<leftarrow> check_packet q p;
       (case r of
          Inl err \<Rightarrow> Some (Inl err, q, s, e)
        | Inr item \<Rightarrow> do {
            let link_id = unat (tp_link_id (i_txpriv item));
            npv \<leftarrow> upd (q_num_pending_vif q) if_id (\<lambda>c. c - 1);
            lm \<leftarrow> upd2 (q_link_map_cache q) if_id link_id (\<lambda>c. c + 1);
            snq \<leftarrow> upd (st_num_queued s) (unat (tp_if_id (i_txpriv item))) (\<lambda>c. c + 1);
            slm \<leftarrow> upd2 (st_link_map_cache s) if_id link_id (\<lambda>c. c + 1);
            let gen = p_item_generation p + 1;
            pool \<leftarrow> wr (q_pool q) pos
              (item\<lparr>i_generation := gen,
                    i_packetID := atbm_queue_make_packet_id (p_queue_generation p) (p_queue_id p)
                                    gen (p_item_id p) (p_if_id p) (p_link_id p)\<rparr>);
            let q = move_queue pos q;
            Some (Inr (),
                  q\<lparr>q_pool := pool, q_num_pending := q_num_pending q - 1,
                    q_num_pending_vif := npv, q_link_map_cache := lm\<rparr>,
                  s\<lparr>st_num_queued := snq, st_link_map_cache := slm\<rparr>, e) }) } }"

definition atbm_queue_get_skb :: "atbm_queue \<Rightarrow> u32 \<Rightarrow> (errno + nat option \<times> atbm_txpriv) option" where
  "atbm_queue_get_skb q packetID = do {
     r \<leftarrow> check_packet q (atbm_queue_parse_id packetID);
     Some (case r of Inl err \<Rightarrow> Inl err | Inr item \<Rightarrow> Inr (i_skb item, i_txpriv item)) }"

section \<open>Queries\<close>

definition link_map_sum :: "u32 \<Rightarrow> u32 list \<Rightarrow> nat list \<Rightarrow> u32" where
  "link_map_sum link_id_map row is =
     sum_list (map (\<lambda>i. if link_id_map AND push_bit i 1 \<noteq> 0 then row ! i else 0) is)"

definition atbm_queue_get_num_queued ::
    "atbm_queue \<Rightarrow> atbm_queue_stats \<Rightarrow> nat \<Rightarrow> u32 \<Rightarrow> u32 option" where
  "atbm_queue_get_num_queued q s if_id link_id_map =
     (if link_id_map = 0 then Some 0
      else if link_id_map = -1 then do {
        nq \<leftarrow> rd (q_num_queued_vif q) if_id;
        np \<leftarrow> rd (q_num_pending_vif q) if_id;
        Some (nq - np) }
      else do {
        row \<leftarrow> rd (q_link_map_cache q) if_id;
        ensure (st_map_capacity s \<le> length row);
        Some (link_map_sum link_id_map row [0..<st_map_capacity s]) })"

definition time_before :: "u32 \<Rightarrow> u32 \<Rightarrow> bool" where
  "time_before a b \<longleftrightarrow> sint (a - b) < 0"

fun oldest_xmit :: "atbm_queue \<Rightarrow> int \<Rightarrow> u32 \<Rightarrow> nat list \<Rightarrow> u32 \<Rightarrow> u32" where
  "oldest_xmit q if_id pending_frameID [] timestamp = timestamp"
| "oldest_xmit q if_id pending_frameID (pos # nx) timestamp =
     (let item = q_pool q ! pos in
      oldest_xmit q if_id pending_frameID nx
        (if (if_id = int ATBM_WIFI_GENERIC_IF_ID \<or> if_id = ATBM_WIFI_ALL_IFS \<or>
             int (unat (tp_if_id (i_txpriv item))) = if_id) \<and>
            i_packetID item \<noteq> pending_frameID \<and>
            time_before (i_xmit_timestamp item) timestamp
         then i_xmit_timestamp item else timestamp))"

definition atbm_queue_get_xmit_timestamp ::
    "atbm_queue \<Rightarrow> u32 \<Rightarrow> int \<Rightarrow> u32 \<Rightarrow> bool \<times> u32" where
  "atbm_queue_get_xmit_timestamp q timestamp if_id pending_frameID =
     (if q_pending q \<noteq> [] then (True, oldest_xmit q if_id pending_frameID (q_pending q) timestamp)
      else (False, timestamp))"

text \<open>
  With a link map other than all ones, the loop's own \<open>if_id\<close> shadows the parameter and runs
  over every interface.
\<close>

definition link_map_empty :: "u32 \<Rightarrow> atbm_queue_stats \<Rightarrow> nat \<Rightarrow> bool" where
  "link_map_empty link_id_map s if_id =
     list_all (\<lambda>i. link_id_map AND push_bit i 1 \<noteq> 0 \<longrightarrow> st_link_map_cache s ! if_id ! i = 0)
       [0..<st_map_capacity s]"

definition atbm_queue_stats_is_empty :: "atbm_queue_stats \<Rightarrow> u32 \<Rightarrow> nat \<Rightarrow> bool option" where
  "atbm_queue_stats_is_empty s link_id_map if_id =
     (if link_id_map = -1 then do { n \<leftarrow> rd (st_num_queued s) if_id; Some (n = 0) }
      else Some (list_all (link_map_empty link_id_map s) [0..<ATBM_WIFI_MAX_VIFS]))"

end
