(* ===== verification/Packet_Id.thy ===== *)
theory Packet_Id
  imports Queue_Ops
begin

text \<open>
  The 32-bit packet identifier that \<open>queue.c\<close> hands to the firmware and parses when the
  confirmation comes back: packing and unpacking its six fields are inverse to each other, and
  replacing the queue generation keeps the other fields.
\<close>

section \<open>Bits of the packed word\<close>

lemma mask_nibble: "(0xF :: u32) = mask 4" "(0xFF :: u32) = mask 8" "(0x0fffffff :: u32) = mask 28"
   "(0xF :: u8) = mask 4"
  by (simp_all add: mask_eq_exp_minus_1)

lemma low_nibble:
  assumes w: "unat (w :: u8) < 16" and n: "bit w n"
  shows "n < 4"
proof (rule ccontr)
  assume "\<not> n < 4"
  have "take_bit 4 (unat w) = unat w" using w by (simp add: take_bit_nat_eq_self)
  moreover have "bit (unat w) n" using n by (simp add: bit_unsigned_iff bit_imp_le_length)
  ultimately have "bit (take_bit 4 (unat w)) n" by simp
  with \<open>\<not> n < 4\<close> show False by (simp add: bit_take_bit_iff)
qed

lemma bit_u8_less: "bit (w :: u8) n \<Longrightarrow> n < 8"
  using bit_imp_le_length by fastforce

lemma bit_byte_at:
  "n < 32 \<Longrightarrow> bit (push_bit k (ucast (w :: u8)) :: u32) n = (k \<le> n \<and> bit w (n - k))"
  by (auto simp: bit_push_bit_iff bit_unsigned_iff)

lemma bit_make_packet_id:
  "n < 32 \<Longrightarrow> bit (atbm_queue_make_packet_id gen qid igen iid ifid link) n =
    (bit iid n \<or> (8 \<le> n \<and> bit igen (n - 8)) \<or> (16 \<le> n \<and> bit qid (n - 16)) \<or>
     (20 \<le> n \<and> bit ifid (n - 20)) \<or> (24 \<le> n \<and> bit link (n - 24)) \<or>
     (28 \<le> n \<and> bit gen (n - 28)))"
  by (simp add: atbm_queue_make_packet_id_def bit_or_iff bit_byte_at bit_byte_at [where k = 0, simplified])

lemma high_nibble: "unat (w :: u8) < 16 \<Longrightarrow> 4 \<le> n \<Longrightarrow> \<not> bit w n"
  using low_nibble by fastforce

lemma high_u8: "8 \<le> n \<Longrightarrow> \<not> bit (w :: u8) n"
  using bit_u8_less by fastforce

lemma parse_make_packet_id:
  assumes "unat gen < 16" "unat qid < 16" "unat ifid < 16" "unat link < 16"
  shows "atbm_queue_parse_id (atbm_queue_make_packet_id gen qid igen iid ifid link) =
    \<lparr>p_queue_generation = gen, p_queue_id = qid, p_item_generation = igen, p_item_id = iid,
     p_if_id = ifid, p_link_id = link\<rparr>"
proof -
  note hi = high_nibble [OF assms(1)] high_nibble [OF assms(2)] high_nibble [OF assms(3)]
    high_nibble [OF assms(4)] high_u8
  have nib: "(ucast (drop_bit k w AND mask 4) :: u8) = x"
    if "unat x < 16" "\<And>n. n < 4 \<Longrightarrow> bit w (k + n) = bit x n" "k \<le> 28" for k x and w :: u32
    using that(2,3) by (intro bit_word_eqI) (auto simp: bit_simps dest: low_nibble [OF that(1)])
  have byt: "(ucast (drop_bit k w AND mask 8) :: u8) = x"
    if "\<And>n. n < 8 \<Longrightarrow> bit w (k + n) = bit x n" "k \<le> 24" for k x and w :: u32
    using that by (intro bit_word_eqI) (auto simp: bit_simps)
  show ?thesis
    unfolding atbm_queue_parse_id_def mask_nibble
    by (simp add: nib byt assms bit_make_packet_id hi byt [where k = 0, simplified])
qed

lemma bit_parse_field:
  "m \<le> 8 \<Longrightarrow> bit (ucast (drop_bit k (w :: u32) AND mask m) :: u8) n = (n < m \<and> bit w (k + n))"
  by (auto simp: bit_simps)

lemma make_parse_packet_id:
  "(let p = atbm_queue_parse_id w in
    atbm_queue_make_packet_id (p_queue_generation p) (p_queue_id p) (p_item_generation p)
      (p_item_id p) (p_if_id p) (p_link_id p)) = w"
proof (rule bit_word_eqI)
  fix n assume "n < LENGTH(32)"
  then have "n < 8 \<or> (\<exists>j < 8. n = 8 + j) \<or> (\<exists>j < 4. n = 16 + j) \<or> (\<exists>j < 4. n = 20 + j) \<or>
      (\<exists>j < 4. n = 24 + j) \<or> (\<exists>j < 4. n = 28 + j)"
    by simp presburger
  then show "bit (let p = atbm_queue_parse_id w in
    atbm_queue_make_packet_id (p_queue_generation p) (p_queue_id p) (p_item_generation p)
      (p_item_id p) (p_if_id p) (p_link_id p)) n = bit w n"
    by (elim disjE exE conjE)
       (simp_all add: Let_def bit_make_packet_id atbm_queue_parse_id_def mask_nibble
          bit_parse_field bit_drop_bit_eq bit_parse_field [where k = 0, simplified])
qed

lemma unat_nibble: "unat (ucast (drop_bit k (w::u32) AND 0xF) :: u8) < 16"
proof -
  have "(ucast (drop_bit k w AND 0xF) :: u8) = take_bit 4 (ucast (drop_bit k w))"
    unfolding mask_nibble by (rule bit_word_eqI) (auto simp: bit_simps)
  also have "unat (take_bit 4 (ucast (drop_bit k w) :: u8)) < 16"
    by (simp add: unsigned_take_bit_eq) (rule less_le_trans [OF take_bit_nat_less_exp], simp)
  finally show ?thesis .
qed

lemma generation_make:
  assumes "unat gen < 16" "unat qid < 16" "unat ifid < 16" "unat link < 16"
  shows "ucast (drop_bit 28 (atbm_queue_make_packet_id gen qid igen iid ifid link) AND 0xF) = gen"
  using arg_cong [OF parse_make_packet_id [OF assms, of igen iid], of p_queue_generation]
  by (simp add: atbm_queue_parse_id_def)

lemma and_nibble: "unat (g :: u8) < 16 \<Longrightarrow> g AND 0xF = g"
  unfolding mask_nibble by (rule bit_word_eqI) (auto simp: bit_simps dest: low_nibble)

lemma refresh_generation_make:
  assumes "unat gen < 16" "unat qid < 16" "unat ifid < 16" "unat link < 16" "unat g < 16"
  shows "refresh_generation g (atbm_queue_make_packet_id gen qid igen iid ifid link) =
     atbm_queue_make_packet_id g qid igen iid ifid link"
proof -
  note lo = low_nibble [OF assms(1)] low_nibble [OF assms(2)] low_nibble [OF assms(3)]
    low_nibble [OF assms(4)] low_nibble [OF assms(5)]
  have "(atbm_queue_make_packet_id gen qid igen iid ifid link AND 0x0fffffff) OR push_bit 28 (ucast g) =
     atbm_queue_make_packet_id g qid igen iid ifid link"
    unfolding mask_nibble
    by (rule bit_word_eqI) (auto simp: bit_simps bit_make_packet_id dest: lo bit_u8_less)
  then show ?thesis
    by (auto simp: refresh_generation_def generation_make assms and_nibble)
qed

end
