(* ===== verification/Queue_Inv.thy ===== *)
theory Queue_Inv
  imports Packet_Id
begin

text \<open>
  The invariant of the transmit queue and the proof that every operation keeps it and never
  aborts. The three lists partition the slots of the pool, every counter is the count it stands
  for, every frame in a queue carries a packet identifier that names its own slot, and mac80211's
  queue is stopped by the driver exactly while the queue holds a lock on it.
\<close>

section \<open>The invariant\<close>

abbreviation vif_of :: "atbm_queue_item \<Rightarrow> nat" where
  "vif_of it \<equiv> unat (tp_if_id (i_txpriv it))"

abbreviation link_of :: "atbm_queue_item \<Rightarrow> nat" where
  "link_of it \<equiv> unat (tp_link_id (i_txpriv it))"

definition in_vif :: "nat \<Rightarrow> atbm_queue_item \<Rightarrow> bool" where
  "in_vif v it \<longleftrightarrow> vif_of it = v"

definition in_link :: "nat \<Rightarrow> nat \<Rightarrow> atbm_queue_item \<Rightarrow> bool" where
  "in_link v l it \<longleftrightarrow> vif_of it = v \<and> link_of it = l"

definition slots_ok :: "atbm_queue \<Rightarrow> bool" where
  "slots_ok q \<longleftrightarrow> distinct (q_queue q @ q_pending q @ q_free_pool q) \<and>
     set (q_queue q @ q_pending q @ q_free_pool q) = {..<length (q_pool q)} \<and>
     length (q_pool q) = unat (q_capacity q) \<and> unat (q_capacity q) \<le> 256"

definition totals_ok :: "atbm_queue \<Rightarrow> bool" where
  "totals_ok q \<longleftrightarrow>
     q_num_queued q = of_nat (length (q_queue q) + length (q_pending q)) \<and>
     q_num_pending q = of_nat (length (q_pending q))"

definition vif_counts :: "u32 list \<Rightarrow> atbm_queue_item list \<Rightarrow> nat list \<Rightarrow> bool" where
  "vif_counts c pool xs \<longleftrightarrow> length c = 2 \<and> (\<forall>v < 2. c ! v = of_nat (icount (in_vif v) pool xs))"

definition link_counts :: "u32 list list \<Rightarrow> atbm_queue_item list \<Rightarrow> nat list \<Rightarrow> bool" where
  "link_counts c pool xs \<longleftrightarrow> length c = 2 \<and>
     (\<forall>v < 2. length (c ! v) = 50 \<and>
        (\<forall>l < 50. c ! v ! l = of_nat (icount (in_link v l) pool xs)))"

definition txpriv_ok :: "atbm_txpriv \<Rightarrow> bool" where
  "txpriv_ok tp \<longleftrightarrow> unat (tp_if_id tp) < 2 \<and> unat (tp_link_id tp) < WLAN_LINK_ID_MAX \<and>
     unat (tp_raw_link_id tp) < 16"

lemma txpriv_ok_bounds:
  "txpriv_ok tp \<Longrightarrow> unat (tp_if_id tp) < 2"
  "txpriv_ok tp \<Longrightarrow> unat (tp_link_id tp) < 50"
  by (simp_all add: txpriv_ok_def WLAN_LINK_ID_MAX_def)

definition item_ok :: "u8 \<Rightarrow> nat \<Rightarrow> atbm_queue_item \<Rightarrow> bool" where
  "item_ok qid i it \<longleftrightarrow> i_skb it \<noteq> None \<and> txpriv_ok (i_txpriv it) \<and>
     (\<exists>gen. unat gen < 16 \<and>
        i_packetID it = atbm_queue_make_packet_id gen qid (i_generation it) (of_nat i)
                          (tp_if_id (i_txpriv it)) (tp_raw_link_id (i_txpriv it)))"

definition items_ok :: "atbm_queue \<Rightarrow> bool" where
  "items_ok q \<longleftrightarrow>
     (\<forall>i \<in> set (q_queue q) \<union> set (q_pending q). item_ok (q_queue_id q) i (q_pool q ! i)) \<and>
     (\<forall>i \<in> set (q_free_pool q). i_skb (q_pool q ! i) = None)"

definition shape_ok :: "atbm_queue \<Rightarrow> bool" where
  "shape_ok q \<longleftrightarrow> length (q_overfull q) = 2 \<and> length (q_gc q) = 2 \<and> length (q_tx_locked_cnt q) = 2 \<and>
     unat (q_queue_id q) < 16 \<and> unat (q_generation q) < 16 \<and>
     (\<forall>v < 2. q_overfull q ! v \<longrightarrow> q_tx_locked_cnt q ! v \<noteq> 0)"

definition core_inv :: "atbm_queue \<Rightarrow> bool" where
  "core_inv q \<longleftrightarrow> slots_ok q \<and> totals_ok q \<and>
     vif_counts (q_num_queued_vif q) (q_pool q) (q_queue q @ q_pending q) \<and>
     vif_counts (q_num_pending_vif q) (q_pool q) (q_pending q) \<and>
     link_counts (q_link_map_cache q) (q_pool q) (q_queue q) \<and> items_ok q"

definition queue_inv :: "atbm_queue \<Rightarrow> bool" where
  "queue_inv q \<longleftrightarrow> core_inv q \<and> shape_ok q"

definition stats_ok :: "atbm_queue_stats \<Rightarrow> bool" where
  "stats_ok s \<longleftrightarrow> length (st_num_queued s) = 2 \<and> length (st_link_map_cache s) = 2 \<and>
     (\<forall>v < 2. length (st_link_map_cache s ! v) = 50) \<and> st_map_capacity s = WLAN_LINK_ID_MAX"

text \<open>The driver's stop bit of every queue of mac80211 that this queue stands for.\<close>

definition gate_ok :: "atbm_queue \<Rightarrow> tx_env \<Rightarrow> bool" where
  "gate_ok q e \<longleftrightarrow> length (vif_queue_cap e) = 3 \<and> mac_wf (mac e) \<and>
     (\<forall>v < 2. unat (q_queue_id q) + 4 * v < hw_queues (mac e) \<longrightarrow>
        bit (queue_stop_reasons (mac e) ! (unat (q_queue_id q) + 4 * v)) 0 =
        (q_tx_locked_cnt q ! v \<noteq> 0))"

lemmas core_inv_defs = core_inv_def slots_ok_def totals_ok_def items_ok_def

section \<open>Stopping and waking\<close>

lemma log_ev_frame [simp]:
  "mac (log_ev x e) = mac e" "vif_queue_cap (log_ev x e) = vif_queue_cap e"
  "jiffies (log_ev x e) = jiffies e" "atomic_alloc (log_ev x e) = atomic_alloc e"
  "num_present_cpus (log_ev x e) = num_present_cpus e"
  "tx_log (log_ev x e) = tx_log e @ [x]"
  by (simp_all add: log_ev_def)

lemma gate_log_ev [simp]: "gate_ok q (log_ev x e) = gate_ok q e"
  by (simp add: gate_ok_def)

lemma atbm_queue_lock_gate:
  assumes g: "gate_ok q e" and l: "length (q_tx_locked_cnt q) = 2" and v: "v < 2"
    and c: "q_tx_locked_cnt q ! v + 1 \<noteq> 0"
  shows "\<exists>m. atbm_queue_lock_u q v e =
           Some (q\<lparr>q_tx_locked_cnt := (q_tx_locked_cnt q)[v := q_tx_locked_cnt q ! v + 1]\<rparr>, e\<lparr>mac := m\<rparr>)
         \<and> gate_ok (q\<lparr>q_tx_locked_cnt := (q_tx_locked_cnt q)[v := q_tx_locked_cnt q ! v + 1]\<rparr>)
             (e\<lparr>mac := m\<rparr>)"
proof (cases "q_tx_locked_cnt q ! v = 0")
  case True
  have "gate_ok (q\<lparr>q_tx_locked_cnt := (q_tx_locked_cnt q)[v := q_tx_locked_cnt q ! v + 1]\<rparr>)
      (e\<lparr>mac := ieee80211_stop_queue (unat (q_queue_id q) + 4 * v) (mac e)\<rparr>)"
    using g l v c
    by (auto simp: gate_ok_def ieee80211_stop_queue_def stop_reasons_after_stop nth_update
        bit_set_bit_iff mac_wf_def [of "mac e"])
  with True show ?thesis
    using l v by (auto simp: atbm_queue_lock_u_def Let_def)
next
  case False
  have st: "ieee80211_queue_stopped (unat (q_queue_id q) + 4 * v) (mac e)"
    using g v False by (fastforce simp: gate_ok_def ieee80211_queue_stopped_def)
  have "gate_ok (q\<lparr>q_tx_locked_cnt := (q_tx_locked_cnt q)[v := q_tx_locked_cnt q ! v + 1]\<rparr>)
      (e\<lparr>mac := mac e\<rparr>)"
    using g l v c False by (auto simp: gate_ok_def nth_update)
  with False st show ?thesis
    using l v by (intro exI [of _ "mac e"]) (auto simp: atbm_queue_lock_u_def Let_def)
qed

lemma atbm_queue_unlock_gate:
  assumes g: "gate_ok q e" and l: "length (q_tx_locked_cnt q) = 2" and v: "v < 2"
    and c: "q_tx_locked_cnt q ! v \<noteq> 0"
  shows "\<exists>m. atbm_queue_unlock_u q v e =
           Some (q\<lparr>q_tx_locked_cnt := (q_tx_locked_cnt q)[v := q_tx_locked_cnt q ! v - 1]\<rparr>, e\<lparr>mac := m\<rparr>)
         \<and> gate_ok (q\<lparr>q_tx_locked_cnt := (q_tx_locked_cnt q)[v := q_tx_locked_cnt q ! v - 1]\<rparr>)
             (e\<lparr>mac := m\<rparr>)"
proof (cases "q_tx_locked_cnt q ! v = 1")
  case True
  have "gate_ok (q\<lparr>q_tx_locked_cnt := (q_tx_locked_cnt q)[v := q_tx_locked_cnt q ! v - 1]\<rparr>)
      (e\<lparr>mac := ieee80211_wake_queue (unat (q_queue_id q) + 4 * v) (mac e)\<rparr>)"
    using g l v True
    by (auto simp: gate_ok_def ieee80211_wake_queue_def stop_reasons_after_wake nth_update
        bit_unset_bit_iff mac_wf_def [of "mac e"])
  with True show ?thesis
    using l v by (auto simp: atbm_queue_unlock_u_def Let_def)
next
  case False
  then have n: "q_tx_locked_cnt q ! v - 1 \<noteq> 0" by simp
  have "gate_ok (q\<lparr>q_tx_locked_cnt := (q_tx_locked_cnt q)[v := q_tx_locked_cnt q ! v - 1]\<rparr>)
      (e\<lparr>mac := mac e\<rparr>)"
    using g l v c n by (auto simp: gate_ok_def nth_update)
  with n c show ?thesis
    using l v by (intro exI [of _ "mac e"]) (auto simp: atbm_queue_unlock_u_def Let_def)
qed

section \<open>Moving one slot\<close>

lemma slots_queue:
  "slots_ok q \<Longrightarrow> i \<in> set (q_queue q) \<Longrightarrow>
     i < length (q_pool q) \<and> i \<notin> set (q_pending q) \<and> i \<notin> set (q_free_pool q)"
  by (auto simp: slots_ok_def)

lemma slots_pending:
  "slots_ok q \<Longrightarrow> i \<in> set (q_pending q) \<Longrightarrow>
     i < length (q_pool q) \<and> i \<notin> set (q_queue q) \<and> i \<notin> set (q_free_pool q)"
  by (auto simp: slots_ok_def)

lemma slots_free:
  "slots_ok q \<Longrightarrow> i \<in> set (q_free_pool q) \<Longrightarrow>
     i < length (q_pool q) \<and> i \<notin> set (q_pending q) \<and> i \<notin> set (q_queue q)"
  by (auto simp: slots_ok_def)

lemma slots_bound: "slots_ok q \<Longrightarrow> i < length (q_pool q) \<Longrightarrow> i < 256"
  by (simp add: slots_ok_def)

lemma slots_distinct:
  "slots_ok q \<Longrightarrow> distinct (q_queue q) \<and> distinct (q_pending q) \<and> distinct (q_free_pool q)"
  by (simp add: slots_ok_def)

lemma slots_lengths:
  "slots_ok q \<Longrightarrow> length (q_queue q) + length (q_pending q) + length (q_free_pool q) = length (q_pool q)"
proof -
  assume a: "slots_ok q"
  then have "card (set (q_queue q @ q_pending q @ q_free_pool q)) = length (q_pool q)"
    unfolding slots_ok_def by (metis card_lessThan)
  moreover have "card (set (q_queue q @ q_pending q @ q_free_pool q)) =
      length (q_queue q @ q_pending q @ q_free_pool q)"
    using a unfolding slots_ok_def by (metis distinct_card)
  ultimately show ?thesis by simp
qed

lemma move_from_free:
  assumes "slots_ok q" "i \<in> set (q_free_pool q)"
  shows "move_tail_queue i q = q\<lparr>q_queue := q_queue q @ [i], q_free_pool := remove1 i (q_free_pool q)\<rparr>"
  using slots_free [OF assms] by (simp add: move_tail_queue_def list_del_def remove1_idem Let_def)

lemma move_from_queue:
  assumes "slots_ok q" "i \<in> set (q_queue q)"
  shows "move_tail_pending i q = q\<lparr>q_queue := remove1 i (q_queue q), q_pending := q_pending q @ [i]\<rparr>"
    and "move_tail_free i q = q\<lparr>q_queue := remove1 i (q_queue q), q_free_pool := q_free_pool q @ [i]\<rparr>"
  using slots_queue [OF assms]
  by (simp_all add: move_tail_pending_def move_tail_free_def list_del_def remove1_idem Let_def)

lemma move_from_pending:
  assumes "slots_ok q" "i \<in> set (q_pending q)"
  shows "move_queue i q = q\<lparr>q_pending := remove1 i (q_pending q), q_queue := i # q_queue q\<rparr>"
    and "move_free i q = q\<lparr>q_pending := remove1 i (q_pending q), q_free_pool := i # q_free_pool q\<rparr>"
    and "move_tail_free i q = q\<lparr>q_pending := remove1 i (q_pending q), q_free_pool := q_free_pool q @ [i]\<rparr>"
  using slots_pending [OF assms]
  by (simp_all add: move_queue_def move_free_def move_tail_free_def list_del_def remove1_idem Let_def)

section \<open>Counters after a move\<close>

lemma vif_counts_same:
  "vif_counts c pool xs \<Longrightarrow> (\<And>w. icount (in_vif w) pool' ys = icount (in_vif w) pool xs) \<Longrightarrow>
     vif_counts c pool' ys"
  by (simp add: vif_counts_def)

lemma vif_counts_inc:
  "vif_counts c pool xs \<Longrightarrow> v < 2 \<Longrightarrow>
     (\<And>w. icount (in_vif w) pool' ys = icount (in_vif w) pool xs + (if w = v then 1 else 0)) \<Longrightarrow>
     vif_counts (c[v := c ! v + 1]) pool' ys"
  by (auto simp: vif_counts_def nth_update)

lemma vif_counts_dec:
  assumes "vif_counts c pool xs" and "v < 2"
    and "\<And>w. icount (in_vif w) pool xs = icount (in_vif w) pool' ys + (if w = v then 1 else 0)"
  shows "vif_counts (c[v := c ! v - 1]) pool' ys"
  using assms by (auto simp: vif_counts_def nth_update)

lemma link_counts_same:
  "link_counts c pool xs \<Longrightarrow> (\<And>w k. icount (in_link w k) pool' ys = icount (in_link w k) pool xs) \<Longrightarrow>
     link_counts c pool' ys"
  by (simp add: link_counts_def)

lemma link_counts_inc:
  assumes "link_counts c pool xs" and "v < 2" and "l < 50"
    and "\<And>w k. icount (in_link w k) pool' ys =
               icount (in_link w k) pool xs + (if w = v \<and> k = l then 1 else 0)"
  shows "link_counts (c[v := (c ! v)[l := c ! v ! l + 1]]) pool' ys"
  using assms by (auto simp: link_counts_def nth_update)

lemma link_counts_dec:
  assumes "link_counts c pool xs" and "v < 2" and "l < 50"
    and "\<And>w k. icount (in_link w k) pool xs =
               icount (in_link w k) pool' ys + (if w = v \<and> k = l then 1 else 0)"
  shows "link_counts (c[v := (c ! v)[l := c ! v ! l - 1]]) pool' ys"
  using assms by (auto simp: link_counts_def nth_update)

lemma link_counts_bounds:
  "link_counts c pool xs \<Longrightarrow> v < 2 \<Longrightarrow> l < 50 \<Longrightarrow> v < length c \<and> l < length (c ! v)"
  by (simp add: link_counts_def)

lemma vif_counts_bounds: "vif_counts c pool xs \<Longrightarrow> v < 2 \<Longrightarrow> v < length c"
  by (simp add: vif_counts_def)

end
