(* ===== verification/Queue_Safe.thy ===== *)
theory Queue_Safe
  imports Queue_Inv
begin

text \<open>
  Every operation of the transmit queue keeps the invariant and never aborts.
\<close>

section \<open>Flags that do not touch the frames\<close>

lemma core_inv_frame [simp]:
  "core_inv (q\<lparr>q_overfull := x1\<rparr>) = core_inv q"
  "core_inv (q\<lparr>q_tx_locked_cnt := x2\<rparr>) = core_inv q"
  "core_inv (q\<lparr>q_gc := x3\<rparr>) = core_inv q"
  "core_inv (q\<lparr>q_generation := x4\<rparr>) = core_inv q"
  "core_inv (q\<lparr>q_skb_last := x5\<rparr>) = core_inv q"
  "core_inv (q\<lparr>q_num_put := x6\<rparr>) = core_inv q"
  "core_inv (q\<lparr>q_num_sent := x7\<rparr>) = core_inv q"
  by (simp_all add: core_inv_defs)

lemma core_invD:
  assumes "core_inv q"
  shows "slots_ok q" "totals_ok q"
    "vif_counts (q_num_queued_vif q) (q_pool q) (q_queue q @ q_pending q)"
    "vif_counts (q_num_pending_vif q) (q_pool q) (q_pending q)"
    "link_counts (q_link_map_cache q) (q_pool q) (q_queue q)" "items_ok q"
  using assms by (simp_all add: core_inv_def)

lemma gate_frame [simp]:
  "gate_ok (q\<lparr>q_overfull := x1\<rparr>) e = gate_ok q e"
  "gate_ok (q\<lparr>q_gc := x3\<rparr>) e = gate_ok q e"
  "gate_ok (q\<lparr>q_pool := x4\<rparr>) e = gate_ok q e"
  "gate_ok (q\<lparr>q_generation := x5\<rparr>) e = gate_ok q e"
  by (simp_all add: gate_ok_def)

lemma gate_cong:
  "q_queue_id q = q_queue_id q' \<Longrightarrow> q_tx_locked_cnt q = q_tx_locked_cnt q' \<Longrightarrow>
     gate_ok q e = gate_ok q' e"
  by (simp add: gate_ok_def)

lemma put_throttle_ok:
  assumes sh: "shape_ok q" and g: "gate_ok q e" and nq: "v < length (q_num_queued_vif q)"
    and v: "v < 2" and c: "q_tx_locked_cnt q ! v + 1 \<noteq> 0"
  shows "\<exists>ov lc gc m. put_throttle v q e =
           Some (q\<lparr>q_overfull := ov, q_tx_locked_cnt := lc, q_gc := gc\<rparr>, e\<lparr>mac := m\<rparr>) \<and>
         shape_ok (q\<lparr>q_overfull := ov, q_tx_locked_cnt := lc, q_gc := gc\<rparr>) \<and>
         gate_ok (q\<lparr>q_overfull := ov, q_tx_locked_cnt := lc, q_gc := gc\<rparr>) (e\<lparr>mac := m\<rparr>) \<and>
         (put_overflow e v q = Some True \<longrightarrow> ov ! v)"
proof -
  obtain ofl where ofl: "put_overflow e v q = Some ofl"
    using g nq v by (auto simp: put_overflow_def gate_ok_def Let_def)
  show ?thesis
  proof (cases "q_overfull q ! v \<or> \<not> ofl")
    case True
    have "put_throttle v q e = Some (q\<lparr>q_overfull := q_overfull q,
        q_tx_locked_cnt := q_tx_locked_cnt q, q_gc := q_gc q\<rparr>, e\<lparr>mac := mac e\<rparr>)"
      using True ofl sh v by (auto simp: put_throttle_def shape_ok_def)
    with sh g True ofl show ?thesis
      by (intro exI [of _ "q_overfull q"] exI [of _ "q_tx_locked_cnt q"] exI [of _ "q_gc q"]
          exI [of _ "mac e"]) auto
  next
    case False
    let ?q = "q\<lparr>q_overfull := (q_overfull q)[v := True]\<rparr>"
    let ?lc = "(q_tx_locked_cnt q)[v := q_tx_locked_cnt q ! v + 1]"
    obtain m where l: "atbm_queue_lock_u ?q v e = Some (?q\<lparr>q_tx_locked_cnt := ?lc\<rparr>, e\<lparr>mac := m\<rparr>)"
      and g': "gate_ok (?q\<lparr>q_tx_locked_cnt := ?lc\<rparr>) (e\<lparr>mac := m\<rparr>)"
      using atbm_queue_lock_gate [of ?q e v] g sh v c by (auto simp: shape_ok_def)
    have "put_throttle v q e = Some (?q\<lparr>q_tx_locked_cnt := ?lc, q_gc := (q_gc q)[v := Some (jiffies e)]\<rparr>,
        e\<lparr>mac := m\<rparr>)"
      using False ofl l sh v by (auto simp: put_throttle_def shape_ok_def)
    moreover have "shape_ok (?q\<lparr>q_tx_locked_cnt := ?lc, q_gc := (q_gc q)[v := Some (jiffies e)]\<rparr>)"
      using sh v c by (auto simp: shape_ok_def nth_update)
    moreover have "gate_ok (?q\<lparr>q_tx_locked_cnt := ?lc, q_gc := (q_gc q)[v := Some (jiffies e)]\<rparr>)
        (e\<lparr>mac := m\<rparr>)"
      using g' by simp
    moreover have "(q_overfull q)[v := True] ! v" using sh v by (simp add: shape_ok_def)
    ultimately show ?thesis by blast
  qed
qed

lemma put_item_sel [simp]:
  "i_skb (put_item i skb tp q e it) = skb" "i_txpriv (put_item i skb tp q e it) = tp"
  "i_generation (put_item i skb tp q e it) = 0"
  "i_packetID (put_item i skb tp q e it) =
     atbm_queue_make_packet_id (q_generation q) (q_queue_id q) 0 (of_nat i) (tp_if_id tp)
       (tp_raw_link_id tp)"
  by (simp_all add: put_item_def)

section \<open>put\<close>

definition put_queue :: "atbm_queue \<Rightarrow> tx_env \<Rightarrow> nat option \<Rightarrow> atbm_txpriv \<Rightarrow> nat \<Rightarrow> nat list \<Rightarrow> atbm_queue" where
  "put_queue q e skb tp pos free =
     (let v = unat (tp_if_id tp); l = unat (tp_link_id tp) in
      q\<lparr>q_skb_last := skb, q_pool := (q_pool q)[pos := put_item pos skb tp q e (q_pool q ! pos)],
        q_num_queued := q_num_queued q + 1,
        q_num_queued_vif := (q_num_queued_vif q)[v := q_num_queued_vif q ! v + 1],
        q_link_map_cache := (q_link_map_cache q)
          [v := (q_link_map_cache q ! v)[l := q_link_map_cache q ! v ! l + 1]],
        q_queue := q_queue q @ [pos], q_free_pool := free\<rparr>)"

lemma core_inv_put:
  assumes inv: "core_inv q" and sh: "shape_ok q" and f: "q_free_pool q = pos # free"
    and tp: "txpriv_ok tp" and skb: "skb \<noteq> None"
  shows "core_inv (put_queue q e skb tp pos free)"
proof -
  let ?p = "(q_pool q)[pos := put_item pos skb tp q e (q_pool q ! pos)]"
  have so: "slots_ok q" using inv by (simp add: core_inv_def)
  have pos: "pos < length (q_pool q)" "pos \<notin> set (q_pending q)" "pos \<notin> set (q_queue q)" "pos \<notin> set free"
    using slots_free [OF so, of pos] slots_distinct [OF so] f by auto
  have new: "icount P ?p (q_queue q @ [pos]) =
      icount P (q_pool q) (q_queue q) + (if P (put_item pos skb tp q e (q_pool q ! pos)) then 1 else 0)"
    and old: "icount P ?p (q_pending q) = icount P (q_pool q) (q_pending q)" for P
    using pos by (simp_all add: count_simps)
  have nqv: "vif_counts ((q_num_queued_vif q)[unat (tp_if_id tp) := q_num_queued_vif q ! unat (tp_if_id tp) + 1])
      ?p (q_queue q @ pos # q_pending q)"
    by (rule vif_counts_inc [OF core_invD(3) [OF inv]])
       (use txpriv_ok_bounds [OF tp] pos in \<open>simp_all add: count_simps in_vif_def\<close>)
  have npv: "vif_counts (q_num_pending_vif q) ?p (q_pending q)"
    by (rule vif_counts_same [OF core_invD(4) [OF inv]]) (rule old)
  have lm: "link_counts ((q_link_map_cache q)[unat (tp_if_id tp) := (q_link_map_cache q ! unat (tp_if_id tp))
      [unat (tp_link_id tp) := q_link_map_cache q ! unat (tp_if_id tp) ! unat (tp_link_id tp) + 1]])
      ?p (q_queue q @ [pos])"
    by (rule link_counts_inc [OF core_invD(5) [OF inv]])
       (use txpriv_ok_bounds [OF tp] new in \<open>auto simp: in_link_def\<close>)
  have sl: "slots_ok (put_queue q e skb tp pos free)"
    using so f by (auto simp: slots_ok_def put_queue_def Let_def)
  have it: "items_ok (put_queue q e skb tp pos free)"
    using inv sh tp skb pos f
    by (auto simp: items_ok_def core_inv_def put_queue_def Let_def nth_update item_ok_def shape_ok_def)
  have tot: "totals_ok (put_queue q e skb tp pos free)"
    using inv by (auto simp: core_inv_def totals_ok_def put_queue_def Let_def)
  show ?thesis
    unfolding core_inv_def using sl it tot nqv npv lm by (simp add: put_queue_def Let_def)
qed

definition stats_inc :: "nat \<Rightarrow> nat \<Rightarrow> atbm_queue_stats \<Rightarrow> atbm_queue_stats" where
  "stats_inc v l s = s\<lparr>st_num_queued := (st_num_queued s)[v := st_num_queued s ! v + 1],
     st_link_map_cache := (st_link_map_cache s)
       [v := (st_link_map_cache s ! v)[l := st_link_map_cache s ! v ! l + 1]]\<rparr>"

definition stats_dec :: "nat \<Rightarrow> nat \<Rightarrow> atbm_queue_stats \<Rightarrow> atbm_queue_stats" where
  "stats_dec v l s = s\<lparr>st_num_queued := (st_num_queued s)[v := st_num_queued s ! v - 1],
     st_link_map_cache := (st_link_map_cache s)
       [v := (st_link_map_cache s ! v)[l := st_link_map_cache s ! v ! l - 1]]\<rparr>"

lemma stats_ok_inc [simp]: "stats_ok s \<Longrightarrow> stats_ok (stats_inc v l s)"
  by (auto simp: stats_ok_def stats_inc_def nth_update)

lemma stats_ok_dec [simp]: "stats_ok s \<Longrightarrow> stats_ok (stats_dec v l s)"
  by (auto simp: stats_ok_def stats_dec_def nth_update)

text \<open>What the caller of \<open>put\<close> owes: a buffer, an interface that exists, a link in the packet id.\<close>

definition put_pre :: "nat option \<Rightarrow> atbm_txpriv \<Rightarrow> atbm_queue \<Rightarrow> bool" where
  "put_pre skb tp q \<longleftrightarrow> skb \<noteq> None \<and> unat (tp_if_id tp) < 2 \<and> unat (tp_raw_link_id tp) < 16 \<and>
     q_tx_locked_cnt q ! unat (tp_if_id tp) + 1 \<noteq> 0"

lemma put_queue_shape:
  "shape_ok (put_queue q e skb tp pos free) = shape_ok q"
  "gate_ok (put_queue q e skb tp pos free) e' = gate_ok q e'"
  "q_tx_locked_cnt (put_queue q e skb tp pos free) = q_tx_locked_cnt q"
  by (simp_all add: put_queue_def Let_def shape_ok_def gate_ok_def)

lemma atbm_queue_put_full:
  "unat (tp_link_id tp) < st_map_capacity s \<Longrightarrow> q_free_pool q = [] \<Longrightarrow>
     atbm_queue_put q s e skb tp = Some (Inl ENOENT, q, s, e)"
  by (simp add: atbm_queue_put_def)

lemma atbm_queue_put_bad_link:
  "st_map_capacity s \<le> unat (tp_link_id tp) \<Longrightarrow>
     atbm_queue_put q s e skb tp = Some (Inl EINVAL, q, s, e)"
  by (simp add: atbm_queue_put_def)

lemma atbm_queue_put_free:
  assumes inv: "queue_inv q" and st: "stats_ok s" and g: "gate_ok q e" and pre: "put_pre skb tp q"
    and l: "unat (tp_link_id tp) < st_map_capacity s" and f: "q_free_pool q = pos # free"
  shows "\<exists>ov lc gc m.
     atbm_queue_put q s e skb tp = Some (Inr (),
       (put_queue q e skb tp pos free)\<lparr>q_overfull := ov, q_tx_locked_cnt := lc, q_gc := gc\<rparr>,
       stats_inc (unat (tp_if_id tp)) (unat (tp_link_id tp)) s, e\<lparr>mac := m\<rparr>) \<and>
     queue_inv ((put_queue q e skb tp pos free)\<lparr>q_overfull := ov, q_tx_locked_cnt := lc, q_gc := gc\<rparr>) \<and>
     gate_ok ((put_queue q e skb tp pos free)\<lparr>q_overfull := ov, q_tx_locked_cnt := lc, q_gc := gc\<rparr>)
       (e\<lparr>mac := m\<rparr>) \<and>
     (put_overflow e (unat (tp_if_id tp)) (put_queue q e skb tp pos free) = Some True \<longrightarrow>
        ov ! unat (tp_if_id tp))"
proof -
  let ?v = "unat (tp_if_id tp)" and ?l = "unat (tp_link_id tp)" and ?p = "put_queue q e skb tp pos free"
  have ci: "core_inv q" and sh: "shape_ok q" using inv by (simp_all add: queue_inv_def)
  have tp: "txpriv_ok tp" using pre l st by (simp add: put_pre_def txpriv_ok_def stats_ok_def)
  have v: "?v < 2" "?l < 50" using tp by (simp_all add: txpriv_ok_bounds)
  have pos: "pos < length (q_pool q)"
    using slots_free [OF core_invD(1) [OF ci]] f by simp
  have none: "i_skb (q_pool q ! pos) = None" using ci f by (simp add: core_inv_def items_ok_def)
  have ci': "core_inv ?p" using core_inv_put [OF ci sh f tp] pre by (simp add: put_pre_def)
  have nq: "?v < length (q_num_queued_vif ?p)" using vif_counts_bounds [OF core_invD(3) [OF ci']] v by simp
  obtain ov lc gc m where t: "put_throttle ?v ?p e =
        Some (?p\<lparr>q_overfull := ov, q_tx_locked_cnt := lc, q_gc := gc\<rparr>, e\<lparr>mac := m\<rparr>)"
      and sh': "shape_ok (?p\<lparr>q_overfull := ov, q_tx_locked_cnt := lc, q_gc := gc\<rparr>)"
      and g': "gate_ok (?p\<lparr>q_overfull := ov, q_tx_locked_cnt := lc, q_gc := gc\<rparr>) (e\<lparr>mac := m\<rparr>)"
      and ofl: "put_overflow e ?v ?p = Some True \<longrightarrow> ov ! ?v"
    using put_throttle_ok [of ?p e ?v] sh g nq v pre by (auto simp: put_queue_shape put_pre_def)
  have mv: "move_tail_queue pos q = q\<lparr>q_queue := q_queue q @ [pos], q_free_pool := free\<rparr>"
    using move_from_free [OF core_invD(1) [OF ci], of pos] f by simp
  have p: "q\<lparr>q_queue := q_queue q @ [pos], q_free_pool := free, q_skb_last := skb,
        q_pool := (q_pool q)[pos := put_item pos skb tp q e (q_pool q ! pos)],
        q_num_queued := q_num_queued q + 1,
        q_num_queued_vif := (q_num_queued_vif q)[?v := q_num_queued_vif q ! ?v + 1],
        q_link_map_cache := (q_link_map_cache q)
          [?v := (q_link_map_cache q ! ?v)[?l := q_link_map_cache q ! ?v ! ?l + 1]]\<rparr> = ?p"
    by (simp add: put_queue_def Let_def)
  have b: "?v < length (q_num_queued_vif q)" "?v < length (q_link_map_cache q)"
      "?l < length (q_link_map_cache q ! ?v)" "?v < length (st_num_queued s)"
      "?v < length (st_link_map_cache s)" "?l < length (st_link_map_cache s ! ?v)"
    using vif_counts_bounds [OF core_invD(3) [OF ci] v(1)] link_counts_bounds [OF core_invD(5) [OF ci] v]
      st v by (simp_all add: stats_ok_def)
  have "atbm_queue_put q s e skb tp = Some (Inr (),
       ?p\<lparr>q_overfull := ov, q_tx_locked_cnt := lc, q_gc := gc\<rparr>, stats_inc ?v ?l s, e\<lparr>mac := m\<rparr>)"
    using l f pos none b
    by (simp add: atbm_queue_put_def Let_def mv p t stats_inc_def)
  with ci' sh' g' ofl show ?thesis by (auto simp: queue_inv_def)
qed

lemma atbm_queue_put_inv:
  assumes "queue_inv q" "stats_ok s" "gate_ok q e" "put_pre skb tp q"
  shows "\<exists>r q' s' e'. atbm_queue_put q s e skb tp = Some (r, q', s', e') \<and>
     queue_inv q' \<and> stats_ok s' \<and> gate_ok q' e'"
proof (cases "st_map_capacity s \<le> unat (tp_link_id tp)")
  case True
  with assms show ?thesis by (simp add: atbm_queue_put_bad_link)
next
  case l: False
  show ?thesis
  proof (cases "q_free_pool q")
    case Nil
    with l assms show ?thesis by (simp add: atbm_queue_put_full)
  next
    case (Cons pos free)
    with l atbm_queue_put_free [OF assms _ Cons] assms(2) show ?thesis
      by (fastforce simp: not_le)
  qed
qed

section \<open>get\<close>

definition get_item :: "atbm_queue \<Rightarrow> tx_env \<Rightarrow> atbm_queue_item \<Rightarrow> atbm_queue_item" where
  "get_item q e it = it\<lparr>i_packetID := refresh_generation (q_generation q) (i_packetID it),
                        i_xmit_timestamp := jiffies e\<rparr>"

definition get_queue :: "atbm_queue \<Rightarrow> tx_env \<Rightarrow> nat \<Rightarrow> atbm_queue" where
  "get_queue q e pos =
     (let it = q_pool q ! pos; v = vif_of it; l = link_of it in
      q\<lparr>q_skb_last := (if q_skb_last q = i_skb it then None else q_skb_last q),
        q_pool := (q_pool q)[pos := get_item q e it],
        q_num_pending := q_num_pending q + 1,
        q_num_pending_vif := (q_num_pending_vif q)[v := q_num_pending_vif q ! v + 1],
        q_link_map_cache := (q_link_map_cache q)
          [v := (q_link_map_cache q ! v)[l := q_link_map_cache q ! v ! l - 1]],
        q_num_put := q_num_put q + 1,
        q_queue := remove1 pos (q_queue q), q_pending := q_pending q @ [pos]\<rparr>)"

lemma get_item_sel [simp]:
  "i_skb (get_item q e it) = i_skb it" "i_txpriv (get_item q e it) = i_txpriv it"
  "i_generation (get_item q e it) = i_generation it"
  by (simp_all add: get_item_def)

lemma in_vif_cong: "i_txpriv it' = i_txpriv it \<Longrightarrow> in_vif w it' = in_vif w it"
  by (simp add: in_vif_def)

lemma in_link_cong: "i_txpriv it' = i_txpriv it \<Longrightarrow> in_link w l it' = in_link w l it"
  by (simp add: in_link_def)

lemma item_okD:
  assumes "item_ok qid i it" and "i < 256" and "unat qid < 16"
  shows "i_skb it \<noteq> None" "txpriv_ok (i_txpriv it)"
    "\<exists>gen. unat gen < 16 \<and> atbm_queue_parse_id (i_packetID it) =
       \<lparr>p_queue_generation = gen, p_queue_id = qid, p_item_generation = i_generation it,
        p_item_id = of_nat i, p_if_id = tp_if_id (i_txpriv it),
        p_link_id = tp_raw_link_id (i_txpriv it)\<rparr>"
  using assms by (auto simp: item_ok_def txpriv_ok_def parse_make_packet_id)

lemma get_packet:
  assumes it: "item_ok qid i it" and qid: "unat qid < 16" and g: "unat (q_generation q) < 16"
  shows "i_packetID (get_item q e it) = atbm_queue_make_packet_id (q_generation q) qid (i_generation it)
           (of_nat i) (tp_if_id (i_txpriv it)) (tp_raw_link_id (i_txpriv it))"
  using it qid g by (auto simp: get_item_def item_ok_def txpriv_ok_def refresh_generation_make)

lemma items_okD:
  "items_ok q \<Longrightarrow> i \<in> set (q_queue q) \<Longrightarrow> item_ok (q_queue_id q) i (q_pool q ! i)"
  "items_ok q \<Longrightarrow> i \<in> set (q_pending q) \<Longrightarrow> item_ok (q_queue_id q) i (q_pool q ! i)"
  "items_ok q \<Longrightarrow> i \<in> set (q_free_pool q) \<Longrightarrow> i_skb (q_pool q ! i) = None"
  by (auto simp: items_ok_def)

lemma core_inv_get:
  assumes inv: "core_inv q" and sh: "shape_ok q" and i: "pos \<in> set (q_queue q)"
  shows "core_inv (get_queue q e pos)"
proof -
  let ?it = "q_pool q ! pos" and ?p = "(q_pool q)[pos := get_item q e (q_pool q ! pos)]"
  note so = core_invD(1) [OF inv]
  note it = items_okD(1) [OF core_invD(6) [OF inv] i]
  have tp: "txpriv_ok (i_txpriv ?it)" using it by (simp add: item_ok_def)
  have pos: "pos < length (q_pool q)" "pos \<notin> set (q_pending q)" "pos \<notin> set (q_free_pool q)"
    using slots_queue [OF so i] by auto
  have v: "icount (in_vif w) ?p xs = icount (in_vif w) (q_pool q) xs" for w xs
    by (rule icount_update_same) (simp add: in_vif_def)
  have l: "icount (in_link w k) ?p xs = icount (in_link w k) (q_pool q) xs" for w k xs
    by (rule icount_update_same) (simp add: in_link_def)
  have nqv: "vif_counts (q_num_queued_vif q) ?p (remove1 pos (q_queue q) @ q_pending q @ [pos])"
    by (rule vif_counts_same [OF core_invD(3) [OF inv]])
       (simp add: v count_simps icount_remove1 [OF i] pos in_vif_def)
  have npv: "vif_counts ((q_num_pending_vif q)[vif_of ?it := q_num_pending_vif q ! vif_of ?it + 1])
      ?p (q_pending q @ [pos])"
    by (rule vif_counts_inc [OF core_invD(4) [OF inv]])
       (use txpriv_ok_bounds [OF tp] in \<open>auto simp: v count_simps pos in_vif_def\<close>)
  have lm: "link_counts ((q_link_map_cache q)[vif_of ?it := (q_link_map_cache q ! vif_of ?it)
      [link_of ?it := q_link_map_cache q ! vif_of ?it ! link_of ?it - 1]]) ?p (remove1 pos (q_queue q))"
    by (rule link_counts_dec [OF core_invD(5) [OF inv]])
       (use txpriv_ok_bounds [OF tp] in \<open>auto simp: l icount_remove1 [OF i] in_link_def\<close>)
  have sl: "slots_ok (get_queue q e pos)"
    using so i by (auto simp: slots_ok_def get_queue_def Let_def)
  have new: "item_ok (q_queue_id q) pos (get_item q e ?it)"
    using it get_packet [OF it, of q e] sh by (auto simp: shape_ok_def item_ok_def)
  have ios: "items_ok (get_queue q e pos)"
    using core_invD(6) [OF inv] new pos slots_distinct [OF so]
    by (auto simp: items_ok_def get_queue_def Let_def nth_update)
  have tot: "totals_ok (get_queue q e pos)"
    using core_invD(2) [OF inv]
    by (simp add: totals_ok_def get_queue_def Let_def flip: length_remove1_in [OF i])
  show ?thesis
    unfolding core_inv_def using sl ios tot nqv npv lm by (simp add: get_queue_def Let_def)
qed

lemma get_queue_shape:
  "shape_ok (get_queue q e pos) = shape_ok q"
  "gate_ok (get_queue q e pos) e' = gate_ok q e'"
  by (simp_all add: get_queue_def Let_def shape_ok_def gate_ok_def)

text \<open>Whether the last frame of a link has left the waiting frames of all queues.\<close>

definition link_drained :: "atbm_queue_stats \<Rightarrow> nat \<Rightarrow> nat \<Rightarrow> bool" where
  "link_drained s v l \<longleftrightarrow> st_link_map_cache s ! v ! l = 1"

lemma atbm_queue_get_found:
  assumes inv: "queue_inv q" and st: "stats_ok s"
    and f: "List.find (get_matches q if_id link_id_map) (q_queue q) = Some pos"
  shows "atbm_queue_get q s e if_id link_id_map =
     Some (Inr (the (i_skb (q_pool q ! pos)), i_packetID (get_item q e (q_pool q ! pos)),
                i_txpriv (q_pool q ! pos)),
           get_queue q e pos, stats_dec (vif_of (q_pool q ! pos)) (link_of (q_pool q ! pos)) s,
           if link_drained s (vif_of (q_pool q ! pos)) (link_of (q_pool q ! pos))
           then log_ev Wake_link_id_empty e else e)"
    and "pos \<in> set (q_queue q)"
proof -
  let ?it = "q_pool q ! pos"
  have ci: "core_inv q" and sh: "shape_ok q" using inv by (simp_all add: queue_inv_def)
  show i: "pos \<in> set (q_queue q)" using f by (auto simp: find_Some_iff)
  note so = core_invD(1) [OF ci]
  note it = items_okD(1) [OF core_invD(6) [OF ci] i]
  have tp: "txpriv_ok (i_txpriv ?it)" using it by (simp add: item_ok_def)
  note v = txpriv_ok_bounds [OF tp]
  obtain skb where skb: "i_skb ?it = Some skb" using it by (auto simp: item_ok_def)
  have pos: "pos < length (q_pool q)" using slots_queue [OF so i] by auto
  have b: "vif_of ?it < length (q_num_pending_vif q)" "vif_of ?it < length (q_link_map_cache q)"
      "link_of ?it < length (q_link_map_cache q ! vif_of ?it)" "vif_of ?it < length (st_num_queued s)"
      "vif_of ?it < length (st_link_map_cache s)" "link_of ?it < length (st_link_map_cache s ! vif_of ?it)"
    using vif_counts_bounds [OF core_invD(4) [OF ci] v(1)] link_counts_bounds [OF core_invD(5) [OF ci] v]
      st v by (simp_all add: stats_ok_def)
  have gen: "ucast (drop_bit 28 (i_packetID (get_item q e ?it)) AND 0xF) = q_generation q"
    using get_packet [OF it, of q e] sh tp
    by (auto simp: shape_ok_def txpriv_ok_def generation_make)
  then have gen': "ucast (drop_bit 28 (refresh_generation (q_generation q) (i_packetID ?it)) AND 0xF) =
      q_generation q" by (simp add: get_item_def)
  show "atbm_queue_get q s e if_id link_id_map =
     Some (Inr (the (i_skb ?it), i_packetID (get_item q e ?it), i_txpriv ?it),
           get_queue q e pos, stats_dec (vif_of ?it) (link_of ?it) s,
           if link_drained s (vif_of ?it) (link_of ?it) then log_ev Wake_link_id_empty e else e)"
    using f pos skb b gen'
    by (simp add: atbm_queue_get_def Let_def move_from_queue [OF so i] stats_dec_def get_queue_def
        get_item_def link_drained_def)
qed

lemma atbm_queue_get_none:
  "List.find (get_matches q if_id link_id_map) (q_queue q) = None \<Longrightarrow>
     atbm_queue_get q s e if_id link_id_map = Some (Inl ENOENT, q, s, e)"
  by (simp add: atbm_queue_get_def)

lemma atbm_queue_get_inv:
  assumes "queue_inv q" "stats_ok s" "gate_ok q e"
  shows "\<exists>r q' s' e'. atbm_queue_get q s e if_id link_id_map = Some (r, q', s', e') \<and>
     queue_inv q' \<and> stats_ok s' \<and> gate_ok q' e'"
proof (cases "List.find (get_matches q if_id link_id_map) (q_queue q)")
  case None
  with assms show ?thesis by (simp add: atbm_queue_get_none)
next
  case (Some pos)
  from atbm_queue_get_found [OF assms(1,2) Some] assms show ?thesis
    by (auto simp: queue_inv_def core_inv_get get_queue_shape)
qed

end
