(* ===== verification/Queue_Confirm.thy ===== *)
theory Queue_Confirm
  imports Queue_Safe
begin

text \<open>
  Confirmation (\<open>atbm_queue_remove\<close>) and retransmission (\<open>atbm_queue_requeue\<close>) of a pending frame
  keep the invariant; what they do with a packet identifier that is stale.
\<close>

section \<open>Looking a packet up\<close>

text \<open>The packet identifier of a frame was issued since the queue was last cleared.\<close>

definition current :: "atbm_queue \<Rightarrow> u32 \<Rightarrow> bool" where
  "current q pid \<longleftrightarrow> p_queue_generation (atbm_queue_parse_id pid) = q_generation q"

lemma live_item:
  assumes inv: "queue_inv q" and i: "i \<in> set (q_queue q) \<union> set (q_pending q)"
  shows "i < length (q_pool q)" "i < 256" "item_ok (q_queue_id q) i (q_pool q ! i)"
    "txpriv_ok (i_txpriv (q_pool q ! i))" "unat (q_queue_id q) < 16"
proof -
  have ci: "core_inv q" and sh: "shape_ok q" using inv by (simp_all add: queue_inv_def)
  note so = core_invD(1) [OF ci]
  show l: "i < length (q_pool q)" using slots_queue [OF so] slots_pending [OF so] i by auto
  show "i < 256" using slots_bound [OF so l] .
  show it: "item_ok (q_queue_id q) i (q_pool q ! i)" using items_okD [OF core_invD(6) [OF ci]] i by blast
  then show "txpriv_ok (i_txpriv (q_pool q ! i))" by (simp add: item_ok_def)
  show "unat (q_queue_id q) < 16" using sh by (simp add: shape_ok_def)
qed

lemma live_parse:
  assumes inv: "queue_inv q" and i: "i \<in> set (q_queue q) \<union> set (q_pending q)"
  shows "p_queue_id (atbm_queue_parse_id (i_packetID (q_pool q ! i))) = q_queue_id q"
    "unat (p_item_id (atbm_queue_parse_id (i_packetID (q_pool q ! i)))) = i"
    "p_item_generation (atbm_queue_parse_id (i_packetID (q_pool q ! i))) = i_generation (q_pool q ! i)"
    "p_if_id (atbm_queue_parse_id (i_packetID (q_pool q ! i))) = tp_if_id (i_txpriv (q_pool q ! i))"
    "p_link_id (atbm_queue_parse_id (i_packetID (q_pool q ! i))) = tp_raw_link_id (i_txpriv (q_pool q ! i))"
    "unat (p_queue_generation (atbm_queue_parse_id (i_packetID (q_pool q ! i)))) < 16"
  using item_okD(3) [OF live_item(3) [OF inv i] live_item(2,5) [OF inv i]] live_item(2) [OF inv i]
  by (auto simp: unat_of_nat)

lemma check_packet_live:
  assumes inv: "queue_inv q" and i: "i \<in> set (q_queue q) \<union> set (q_pending q)"
  shows "check_packet q (atbm_queue_parse_id (i_packetID (q_pool q ! i))) =
     Some (if current q (i_packetID (q_pool q ! i)) then Inr (q_pool q ! i) else Inl ENOENT)"
  using live_item(1) [OF inv i] inv
  by (simp add: check_packet_def live_parse [OF inv i] current_def queue_inv_def core_inv_def slots_ok_def)

lemma core_inv_update:
  assumes inv: "core_inv q"
    and s: "i_skb it' = i_skb (q_pool q ! i)" "i_generation it' = i_generation (q_pool q ! i)"
      "i_packetID it' = i_packetID (q_pool q ! i)"
      "tp_if_id (i_txpriv it') = tp_if_id (i_txpriv (q_pool q ! i))"
      "tp_link_id (i_txpriv it') = tp_link_id (i_txpriv (q_pool q ! i))"
      "tp_raw_link_id (i_txpriv it') = tp_raw_link_id (i_txpriv (q_pool q ! i))"
  shows "core_inv (q\<lparr>q_pool := (q_pool q)[i := it']\<rparr>)"
proof -
  have v: "icount (in_vif w) ((q_pool q)[i := it']) xs = icount (in_vif w) (q_pool q) xs" for w xs
    by (rule icount_update_same) (simp add: in_vif_def s)
  have l: "icount (in_link w k) ((q_pool q)[i := it']) xs = icount (in_link w k) (q_pool q) xs" for w k xs
    by (rule icount_update_same) (simp add: in_link_def s)
  have "item_ok (q_queue_id q) j ((q_pool q)[i := it'] ! j) = item_ok (q_queue_id q) j (q_pool q ! j)" for j
    using s by (auto simp: nth_update item_ok_def txpriv_ok_def)
  moreover have "i_skb ((q_pool q)[i := it'] ! j) = i_skb (q_pool q ! j)" for j
    using s by (simp add: nth_update)
  ultimately show ?thesis
    using inv by (simp add: core_inv_def slots_ok_def totals_ok_def items_ok_def vif_counts_def
        link_counts_def v l)
qed

section \<open>remove\<close>

definition remove_item :: "atbm_queue_item \<Rightarrow> atbm_queue_item" where
  "remove_item it = it\<lparr>i_skb := None, i_generation := i_generation it + 1\<rparr>"

definition remove_queue :: "atbm_queue \<Rightarrow> nat \<Rightarrow> atbm_queue" where
  "remove_queue q pos =
     (let v = vif_of (q_pool q ! pos) in
      q\<lparr>q_pool := (q_pool q)[pos := remove_item (q_pool q ! pos)],
        q_num_pending := q_num_pending q - 1,
        q_num_pending_vif := (q_num_pending_vif q)[v := q_num_pending_vif q ! v - 1],
        q_num_queued := q_num_queued q - 1,
        q_num_queued_vif := (q_num_queued_vif q)[v := q_num_queued_vif q ! v - 1],
        q_num_sent := q_num_sent q + 1,
        q_pending := remove1 pos (q_pending q), q_free_pool := pos # q_free_pool q\<rparr>)"

lemma core_inv_remove:
  assumes inv: "core_inv q" and i: "pos \<in> set (q_pending q)"
  shows "core_inv (remove_queue q pos)"
proof -
  let ?it = "q_pool q ! pos" and ?p = "(q_pool q)[pos := remove_item (q_pool q ! pos)]"
  note so = core_invD(1) [OF inv]
  note it = items_okD(2) [OF core_invD(6) [OF inv] i]
  have tp: "txpriv_ok (i_txpriv ?it)" using it by (simp add: item_ok_def)
  have pos: "pos < length (q_pool q)" "pos \<notin> set (q_queue q)" "pos \<notin> set (q_free_pool q)"
      "pos \<notin> set (remove1 pos (q_pending q))"
    using slots_pending [OF so i] slots_distinct [OF so] by auto
  have nqv: "vif_counts ((q_num_queued_vif q)[vif_of ?it := q_num_queued_vif q ! vif_of ?it - 1])
      ?p (q_queue q @ remove1 pos (q_pending q))"
    by (rule vif_counts_dec [OF core_invD(3) [OF inv]])
       (use txpriv_ok_bounds [OF tp] pos in \<open>auto simp: count_simps icount_remove1 [OF i] in_vif_def\<close>)
  have npv: "vif_counts ((q_num_pending_vif q)[vif_of ?it := q_num_pending_vif q ! vif_of ?it - 1])
      ?p (remove1 pos (q_pending q))"
    by (rule vif_counts_dec [OF core_invD(4) [OF inv]])
       (use txpriv_ok_bounds [OF tp] pos in \<open>auto simp: count_simps icount_remove1 [OF i] in_vif_def\<close>)
  have lm: "link_counts (q_link_map_cache q) ?p (q_queue q)"
    by (rule link_counts_same [OF core_invD(5) [OF inv]]) (use pos in \<open>simp add: count_simps\<close>)
  have sl: "slots_ok (remove_queue q pos)"
    using so i by (auto simp: slots_ok_def remove_queue_def Let_def)
  have ios: "items_ok (remove_queue q pos)"
    using core_invD(6) [OF inv] pos slots_distinct [OF so]
    by (auto simp: items_ok_def remove_queue_def Let_def nth_update remove_item_def)
  have tot: "totals_ok (remove_queue q pos)"
    using core_invD(2) [OF inv]
    by (simp add: totals_ok_def remove_queue_def Let_def flip: length_remove1_in [OF i])
  show ?thesis
    unfolding core_inv_def using sl ios tot nqv npv lm by (simp add: remove_queue_def Let_def)
qed

lemma remove_unthrottle_ok:
  assumes sh: "shape_ok q" and g: "gate_ok q e" and nq: "v < length (q_num_queued_vif q)"
    and v: "v < 2"
  shows "\<exists>ov lc m. remove_unthrottle v q e =
           Some (q\<lparr>q_overfull := ov, q_tx_locked_cnt := lc\<rparr>, e\<lparr>mac := m\<rparr>) \<and>
         shape_ok (q\<lparr>q_overfull := ov, q_tx_locked_cnt := lc\<rparr>) \<and>
         gate_ok (q\<lparr>q_overfull := ov, q_tx_locked_cnt := lc\<rparr>) (e\<lparr>mac := m\<rparr>) \<and>
         (\<forall>cap. wake_capacity e v q = Some cap \<and> q_overfull q ! v \<and> q_num_queued_vif q ! v \<le> cap \<longrightarrow>
            \<not> ov ! v \<and> lc ! v = q_tx_locked_cnt q ! v - 1)"
proof -
  obtain cap where cap: "wake_capacity e v q = Some cap"
    using g v by (auto simp: wake_capacity_def gate_ok_def)
  show ?thesis
  proof (cases "q_overfull q ! v \<and> q_num_queued_vif q ! v \<le> cap")
    case False
    have "remove_unthrottle v q e =
        Some (q\<lparr>q_overfull := q_overfull q, q_tx_locked_cnt := q_tx_locked_cnt q\<rparr>, e\<lparr>mac := mac e\<rparr>)"
      using False cap nq sh v by (auto simp: remove_unthrottle_def shape_ok_def)
    with sh g False cap show ?thesis
      by (intro exI [of _ "q_overfull q"] exI [of _ "q_tx_locked_cnt q"] exI [of _ "mac e"]) auto
  next
    case True
    let ?q = "q\<lparr>q_overfull := (q_overfull q)[v := False]\<rparr>"
    let ?lc = "(q_tx_locked_cnt q)[v := q_tx_locked_cnt q ! v - 1]"
    obtain m where l: "atbm_queue_unlock_u ?q v e = Some (?q\<lparr>q_tx_locked_cnt := ?lc\<rparr>, e\<lparr>mac := m\<rparr>)"
      and g': "gate_ok (?q\<lparr>q_tx_locked_cnt := ?lc\<rparr>) (e\<lparr>mac := m\<rparr>)"
      using atbm_queue_unlock_gate [of ?q e v] g sh v True by (auto simp: shape_ok_def)
    have "remove_unthrottle v q e = Some (?q\<lparr>q_tx_locked_cnt := ?lc\<rparr>, e\<lparr>mac := m\<rparr>)"
      using True cap l nq sh v by (auto simp: remove_unthrottle_def shape_ok_def)
    moreover have "shape_ok (?q\<lparr>q_tx_locked_cnt := ?lc\<rparr>)"
      using sh v by (auto simp: shape_ok_def nth_update)
    moreover have "\<not> (q_overfull q)[v := False] ! v" "?lc ! v = q_tx_locked_cnt q ! v - 1"
      using sh v by (simp_all add: shape_ok_def)
    ultimately show ?thesis using g' by blast
  qed
qed

lemma remove_queue_shape:
  "shape_ok (remove_queue q pos) = shape_ok q"
  "gate_ok (remove_queue q pos) e' = gate_ok q e'"
  by (simp_all add: remove_queue_def Let_def shape_ok_def gate_ok_def)

lemma atbm_queue_remove_stale:
  assumes "queue_inv q" and "i \<in> set (q_queue q) \<union> set (q_pending q)"
    and "\<not> current q (i_packetID (q_pool q ! i))"
  shows "atbm_queue_remove q e (i_packetID (q_pool q ! i)) = Some (Inl ENOENT, q, e)"
  using assms check_packet_live [OF assms(1,2)] by (simp add: atbm_queue_remove_def)

text \<open>The confirmation of a pending frame: its slot is free again and the frame is destroyed.\<close>

lemma atbm_queue_remove_pending:
  assumes inv: "queue_inv q" and g: "gate_ok q e" and i: "pos \<in> set (q_pending q)"
    and cur: "current q (i_packetID (q_pool q ! pos))"
  shows "\<exists>ov lc m.
     atbm_queue_remove q e (i_packetID (q_pool q ! pos)) = Some (Inr (),
       (remove_queue q pos)\<lparr>q_overfull := ov, q_tx_locked_cnt := lc\<rparr>,
       log_ev (Skb_dtor (i_skb (q_pool q ! pos)) (i_txpriv (q_pool q ! pos))) (e\<lparr>mac := m\<rparr>)) \<and>
     queue_inv ((remove_queue q pos)\<lparr>q_overfull := ov, q_tx_locked_cnt := lc\<rparr>) \<and>
     gate_ok ((remove_queue q pos)\<lparr>q_overfull := ov, q_tx_locked_cnt := lc\<rparr>)
       (log_ev (Skb_dtor (i_skb (q_pool q ! pos)) (i_txpriv (q_pool q ! pos))) (e\<lparr>mac := m\<rparr>)) \<and>
     (\<forall>cap. wake_capacity e (vif_of (q_pool q ! pos)) q = Some cap \<and> q_overfull q ! vif_of (q_pool q ! pos) \<and>
        q_num_queued_vif q ! vif_of (q_pool q ! pos) - 1 \<le> cap \<longrightarrow>
        \<not> ov ! vif_of (q_pool q ! pos) \<and>
        lc ! vif_of (q_pool q ! pos) = q_tx_locked_cnt q ! vif_of (q_pool q ! pos) - 1)"
proof -
  let ?it = "q_pool q ! pos" and ?q = "remove_queue q pos"
  let ?v = "vif_of ?it"
  have ci: "core_inv q" and sh: "shape_ok q" using inv by (simp_all add: queue_inv_def)
  have i': "pos \<in> set (q_queue q) \<union> set (q_pending q)" using i by simp
  note live = live_item [OF inv i'] and parse = live_parse [OF inv i']
  note v = txpriv_ok_bounds [OF live(4)]
  have ci': "core_inv ?q" by (rule core_inv_remove [OF ci i])
  have skb: "i_skb ?it \<noteq> None" using live(3) by (simp add: item_ok_def)
  have b: "?v < length (q_num_pending_vif q)" "?v < length (q_num_queued_vif q)"
    using vif_counts_bounds [OF core_invD(4) [OF ci] v(1)] vif_counts_bounds [OF core_invD(3) [OF ci] v(1)]
    by simp_all
  obtain ov lc m where u: "remove_unthrottle ?v ?q e =
        Some (?q\<lparr>q_overfull := ov, q_tx_locked_cnt := lc\<rparr>, e\<lparr>mac := m\<rparr>)"
      and sh': "shape_ok (?q\<lparr>q_overfull := ov, q_tx_locked_cnt := lc\<rparr>)"
      and g': "gate_ok (?q\<lparr>q_overfull := ov, q_tx_locked_cnt := lc\<rparr>) (e\<lparr>mac := m\<rparr>)"
      and wk: "\<forall>cap. wake_capacity e ?v ?q = Some cap \<and> q_overfull ?q ! ?v \<and>
          q_num_queued_vif ?q ! ?v \<le> cap \<longrightarrow> \<not> ov ! ?v \<and> lc ! ?v = q_tx_locked_cnt ?q ! ?v - 1"
    using remove_unthrottle_ok [of ?q e ?v] sh g v b by (auto simp: remove_queue_shape)
      (auto simp: remove_queue_def Let_def)
  have mv: "(move_free pos q)
      \<lparr>q_pool := (q_pool q)[pos := ?it\<lparr>i_skb := None, i_generation := i_generation ?it + 1\<rparr>],
       q_num_pending := q_num_pending q - 1,
       q_num_pending_vif := (q_num_pending_vif q)[?v := q_num_pending_vif q ! ?v - 1],
       q_num_queued := q_num_queued q - 1,
       q_num_queued_vif := (q_num_queued_vif q)[?v := q_num_queued_vif q ! ?v - 1],
       q_num_sent := q_num_sent q + 1\<rparr> = ?q"
    by (simp add: move_from_pending [OF core_invD(1) [OF ci] i] remove_queue_def remove_item_def Let_def)
  have fr: "q_num_pending (move_free pos q) = q_num_pending q" "q_num_queued (move_free pos q) = q_num_queued q"
    "q_num_sent (move_free pos q) = q_num_sent q"
    by (simp_all add: move_from_pending [OF core_invD(1) [OF ci] i])
  have "atbm_queue_remove q e (i_packetID ?it) = Some (Inr (),
       ?q\<lparr>q_overfull := ov, q_tx_locked_cnt := lc\<rparr>,
       log_ev (Skb_dtor (i_skb ?it) (i_txpriv ?it)) (e\<lparr>mac := m\<rparr>))"
    using skb b live(1) cur u
    by (simp add: atbm_queue_remove_def check_packet_live [OF inv i'] parse Let_def mv fr)
  moreover have "q_capacity ?q = q_capacity q" by (simp add: remove_queue_def Let_def)
  then have "wake_capacity e ?v ?q = wake_capacity e ?v q" unfolding wake_capacity_def by (simp only:)
  moreover have "q_overfull ?q = q_overfull q" "q_num_queued_vif ?q ! ?v = q_num_queued_vif q ! ?v - 1"
      "q_tx_locked_cnt ?q = q_tx_locked_cnt q"
    using b by (simp_all add: remove_queue_def Let_def)
  ultimately show ?thesis using ci' sh' g' wk by (auto simp: queue_inv_def)
qed

lemma atbm_queue_remove_inv:
  assumes "queue_inv q" "gate_ok q e" "pos \<in> set (q_pending q)"
  shows "\<exists>r q' e'. atbm_queue_remove q e (i_packetID (q_pool q ! pos)) = Some (r, q', e') \<and>
     queue_inv q' \<and> gate_ok q' e'"
proof (cases "current q (i_packetID (q_pool q ! pos))")
  case True
  with atbm_queue_remove_pending [OF assms] show ?thesis by blast
next
  case False
  with assms atbm_queue_remove_stale [of q pos e] show ?thesis by auto
qed

section \<open>requeue\<close>

definition requeue_item :: "atbm_queue_item \<Rightarrow> atbm_queue_item" where
  "requeue_item it =
     (let p = atbm_queue_parse_id (i_packetID it); gen = p_item_generation p + 1 in
      it\<lparr>i_generation := gen,
         i_packetID := atbm_queue_make_packet_id (p_queue_generation p) (p_queue_id p) gen
                         (p_item_id p) (p_if_id p) (p_link_id p)\<rparr>)"

definition requeue_queue :: "atbm_queue \<Rightarrow> nat \<Rightarrow> atbm_queue" where
  "requeue_queue q pos =
     (let it = q_pool q ! pos; v = vif_of it; l = link_of it in
      q\<lparr>q_pool := (q_pool q)[pos := requeue_item it],
        q_num_pending := q_num_pending q - 1,
        q_num_pending_vif := (q_num_pending_vif q)[v := q_num_pending_vif q ! v - 1],
        q_link_map_cache := (q_link_map_cache q)
          [v := (q_link_map_cache q ! v)[l := q_link_map_cache q ! v ! l + 1]],
        q_pending := remove1 pos (q_pending q), q_queue := pos # q_queue q\<rparr>)"

lemma requeue_item_sel [simp]:
  "i_skb (requeue_item it) = i_skb it" "i_txpriv (requeue_item it) = i_txpriv it"
  by (simp_all add: requeue_item_def Let_def)

lemma item_ok_requeue:
  assumes "item_ok qid i it" and "i < 256" and "unat qid < 16"
  shows "item_ok qid i (requeue_item it)"
  using item_okD [OF assms]
  by (auto simp: item_ok_def requeue_item_def Let_def)

lemma core_inv_requeue:
  assumes inv: "core_inv q" and sh: "shape_ok q" and i: "pos \<in> set (q_pending q)"
  shows "core_inv (requeue_queue q pos)"
proof -
  let ?it = "q_pool q ! pos" and ?p = "(q_pool q)[pos := requeue_item (q_pool q ! pos)]"
  note so = core_invD(1) [OF inv]
  note it = items_okD(2) [OF core_invD(6) [OF inv] i]
  have tp: "txpriv_ok (i_txpriv ?it)" using it by (simp add: item_ok_def)
  have pos: "pos < length (q_pool q)" "pos \<notin> set (q_queue q)" "pos \<notin> set (q_free_pool q)"
    using slots_pending [OF so i] by auto
  have v: "icount (in_vif w) ?p xs = icount (in_vif w) (q_pool q) xs" for w xs
    by (rule icount_update_same) (simp add: in_vif_def)
  have l: "icount (in_link w k) ?p xs = icount (in_link w k) (q_pool q) xs" for w k xs
    by (rule icount_update_same) (simp add: in_link_def)
  have nqv: "vif_counts (q_num_queued_vif q) ?p ((pos # q_queue q) @ remove1 pos (q_pending q))"
    by (rule vif_counts_same [OF core_invD(3) [OF inv]])
       (simp add: v count_simps icount_remove1 [OF i] pos in_vif_def)
  have npv: "vif_counts ((q_num_pending_vif q)[vif_of ?it := q_num_pending_vif q ! vif_of ?it - 1])
      ?p (remove1 pos (q_pending q))"
    by (rule vif_counts_dec [OF core_invD(4) [OF inv]])
       (use txpriv_ok_bounds [OF tp] in \<open>auto simp: v icount_remove1 [OF i] in_vif_def\<close>)
  have lm: "link_counts ((q_link_map_cache q)[vif_of ?it := (q_link_map_cache q ! vif_of ?it)
      [link_of ?it := q_link_map_cache q ! vif_of ?it ! link_of ?it + 1]]) ?p (pos # q_queue q)"
    by (rule link_counts_inc [OF core_invD(5) [OF inv]])
       (use txpriv_ok_bounds [OF tp] in \<open>auto simp: l count_simps pos in_link_def\<close>)
  have sl: "slots_ok (requeue_queue q pos)"
    using so i by (auto simp: slots_ok_def requeue_queue_def Let_def)
  have new: "item_ok (q_queue_id q) pos (requeue_item ?it)"
    using item_ok_requeue [OF it slots_bound [OF so pos(1)]] sh by (simp add: shape_ok_def)
  have ios: "items_ok (requeue_queue q pos)"
    using core_invD(6) [OF inv] new pos slots_distinct [OF so]
    by (auto simp: items_ok_def requeue_queue_def Let_def nth_update)
  have tot: "totals_ok (requeue_queue q pos)"
    using core_invD(2) [OF inv]
    by (simp add: totals_ok_def requeue_queue_def Let_def flip: length_remove1_in [OF i])
  show ?thesis
    unfolding core_inv_def using sl ios tot nqv npv lm by (simp add: requeue_queue_def Let_def)
qed

text \<open>Without \<open>check\<close>, the frame is also bound to the interface it was queued for.\<close>

definition mark_offchannel :: "bool \<Rightarrow> atbm_queue \<Rightarrow> nat \<Rightarrow> atbm_queue" where
  "mark_offchannel check q pos =
     (if check then q
      else q\<lparr>q_pool := (q_pool q)[pos := (q_pool q ! pos)
        \<lparr>i_txpriv := (i_txpriv (q_pool q ! pos))\<lparr>tp_offchannel_if_id := of_nat ATBM_WIFI_GENERIC_IF_ID\<rparr>\<rparr>]\<rparr>)"

lemma mark_offchannel_inv [simp]:
  "queue_inv q \<Longrightarrow> queue_inv (mark_offchannel check q pos)"
  by (auto simp: queue_inv_def mark_offchannel_def shape_ok_def intro!: core_inv_update)

lemma mark_offchannel_frame [simp]:
  "gate_ok (mark_offchannel check q pos) e = gate_ok q e"
  "q_pending (mark_offchannel check q pos) = q_pending q"
  "q_queue (mark_offchannel check q pos) = q_queue q"
  "q_generation (mark_offchannel check q pos) = q_generation q"
  "q_num_pending (mark_offchannel check q pos) = q_num_pending q"
  "q_num_pending_vif (mark_offchannel check q pos) = q_num_pending_vif q"
  "q_link_map_cache (mark_offchannel check q pos) = q_link_map_cache q"
  "(q_pool (mark_offchannel check q pos))[pos := x] = (q_pool q)[pos := x]"
  "i_packetID (q_pool (mark_offchannel check q pos) ! i) = i_packetID (q_pool q ! i)"
  "i_skb (q_pool (mark_offchannel check q pos) ! i) = i_skb (q_pool q ! i)"
  "tp_if_id (i_txpriv (q_pool (mark_offchannel check q pos) ! i)) = tp_if_id (i_txpriv (q_pool q ! i))"
  "tp_link_id (i_txpriv (q_pool (mark_offchannel check q pos) ! i)) = tp_link_id (i_txpriv (q_pool q ! i))"
  by (auto simp: mark_offchannel_def nth_update)

lemma current_mark [simp]: "current (mark_offchannel check q pos) pid = current q pid"
  by (simp add: current_def)

lemma requeue_queue_shape:
  "shape_ok (requeue_queue q pos) = shape_ok q"
  "gate_ok (requeue_queue q pos) e = gate_ok q e"
  by (simp_all add: requeue_queue_def Let_def shape_ok_def gate_ok_def)

lemma atbm_queue_requeue_offchannel:
  assumes inv: "queue_inv q" and i: "pos \<in> set (q_pending q)"
    and off: "check \<and> unat (tp_offchannel_if_id (i_txpriv (q_pool q ! pos))) = ATBM_WIFI_GENERIC_IF_ID"
    and r: "atbm_queue_remove q e (i_packetID (q_pool q ! pos)) = Some (r, q', e')"
  shows "atbm_queue_requeue q s e (i_packetID (q_pool q ! pos)) check = Some (Inr (), q', s, e')"
  using assms live_item(1) [OF inv, of pos] live_parse [OF inv, of pos]
  by (simp add: atbm_queue_requeue_def Let_def)

lemma atbm_queue_requeue_pending:
  assumes inv: "queue_inv q" and st: "stats_ok s" and i: "pos \<in> set (q_pending q)"
    and off: "\<not> (check \<and> unat (tp_offchannel_if_id (i_txpriv (q_pool q ! pos))) = ATBM_WIFI_GENERIC_IF_ID)"
  shows "atbm_queue_requeue q s e (i_packetID (q_pool q ! pos)) check =
     (if current q (i_packetID (q_pool q ! pos))
      then Some (Inr (), requeue_queue (mark_offchannel check q pos) pos,
                 stats_inc (vif_of (q_pool q ! pos)) (link_of (q_pool q ! pos)) s, e)
      else Some (Inl ENOENT, mark_offchannel check q pos, s, e))"
proof -
  let ?q = "mark_offchannel check q pos" and ?pid = "i_packetID (q_pool q ! pos)"
  have inv': "queue_inv ?q" using inv by simp
  have i': "pos \<in> set (q_queue q) \<union> set (q_pending q)" "pos \<in> set (q_queue ?q) \<union> set (q_pending ?q)"
    using i by simp_all
  note parse = live_parse [OF inv i'(1)] and live = live_item [OF inv i'(1)]
  note v = txpriv_ok_bounds [OF live(4)]
  have ci: "core_inv ?q" using inv' by (simp add: queue_inv_def)
  have ch: "check_packet ?q (atbm_queue_parse_id ?pid) =
      Some (if current q ?pid then Inr (q_pool ?q ! pos) else Inl ENOENT)"
    using check_packet_live [OF inv' i'(2)] by simp
  have b: "vif_of (q_pool q ! pos) < length (q_num_pending_vif ?q)"
      "vif_of (q_pool q ! pos) < length (q_link_map_cache ?q)"
      "link_of (q_pool q ! pos) < length (q_link_map_cache ?q ! vif_of (q_pool q ! pos))"
      "vif_of (q_pool q ! pos) < length (st_num_queued s)"
      "vif_of (q_pool q ! pos) < length (st_link_map_cache s)"
      "link_of (q_pool q ! pos) < length (st_link_map_cache s ! vif_of (q_pool q ! pos))"
    using vif_counts_bounds [OF core_invD(4) [OF ci] v(1)] link_counts_bounds [OF core_invD(5) [OF ci] v]
      st v by (simp_all add: stats_ok_def)
  have q: "q\<lparr>q_pool := (q_pool q)[pos := (if check then q_pool q ! pos
            else (q_pool q ! pos)\<lparr>i_txpriv := (i_txpriv (q_pool q ! pos))
               \<lparr>tp_offchannel_if_id := of_nat ATBM_WIFI_GENERIC_IF_ID\<rparr>\<rparr>)]\<rparr> = ?q"
    by (simp add: mark_offchannel_def)
  have len: "length (q_pool ?q) = length (q_pool q)" by (simp add: mark_offchannel_def)
  have mv: "move_queue pos ?q = ?q\<lparr>q_pending := remove1 pos (q_pending ?q), q_queue := pos # q_queue ?q\<rparr>"
    using move_from_pending(1) [OF core_invD(1) [OF ci]] i by simp
  have "unat (p_item_id (atbm_queue_parse_id ?pid)) = pos" by (rule parse)
  have head: "atbm_queue_requeue q s e ?pid check = do {
       r \<leftarrow> check_packet ?q (atbm_queue_parse_id ?pid);
       (case r of Inl err \<Rightarrow> Some (Inl err, ?q, s, e)
        | Inr item \<Rightarrow> Some (Inr (), requeue_queue ?q pos,
            stats_inc (vif_of (q_pool q ! pos)) (link_of (q_pool q ! pos)) s, e)) }"
    using off live(1) b len
    by (cases "current q ?pid")
       (auto simp: atbm_queue_requeue_def Let_def parse q ch mv requeue_queue_def stats_inc_def requeue_item_def)
  show ?thesis using head ch by simp
qed

lemma atbm_queue_requeue_inv:
  assumes "queue_inv q" "stats_ok s" "gate_ok q e" "pos \<in> set (q_pending q)"
  shows "\<exists>r q' s' e'. atbm_queue_requeue q s e (i_packetID (q_pool q ! pos)) check = Some (r, q', s', e') \<and>
     queue_inv q' \<and> stats_ok s' \<and> gate_ok q' e'"
proof (cases "check \<and> unat (tp_offchannel_if_id (i_txpriv (q_pool q ! pos))) = ATBM_WIFI_GENERIC_IF_ID")
  case True
  with atbm_queue_remove_inv [OF assms(1,3,4)] atbm_queue_requeue_offchannel [OF assms(1,4) True] assms(2)
  show ?thesis by blast
next
  case False
  let ?q = "mark_offchannel check q pos"
  have "core_inv (requeue_queue ?q pos)"
    using mark_offchannel_inv [OF assms(1)] assms(4) core_inv_requeue [of ?q pos]
    by (simp add: queue_inv_def)
  then have "queue_inv (requeue_queue ?q pos)"
    using mark_offchannel_inv [OF assms(1), of check pos] by (simp add: queue_inv_def requeue_queue_shape)
  with atbm_queue_requeue_pending [OF assms(1,2,4) False, of e] assms show ?thesis
    by (cases "current q (i_packetID (q_pool q ! pos))") (auto simp: requeue_queue_shape)
qed

end
