(* ===== verification/Queue_Gc.thy ===== *)
theory Queue_Gc
  imports Queue_Confirm
begin

text \<open>
  Garbage collection (\<open>__atbm_queue_gc\<close>): which frames it drops, and that it keeps the invariant.
\<close>

section \<open>One expired frame\<close>

definition expire_queue :: "atbm_queue \<Rightarrow> nat \<Rightarrow> atbm_queue" where
  "expire_queue q pos =
     (let it = q_pool q ! pos; v = vif_of it; l = link_of it in
      q\<lparr>q_num_queued := q_num_queued q - 1,
        q_num_queued_vif := (q_num_queued_vif q)[v := q_num_queued_vif q ! v - 1],
        q_link_map_cache := (q_link_map_cache q)
          [v := (q_link_map_cache q ! v)[l := q_link_map_cache q ! v ! l - 1]],
        q_pool := (q_pool q)[pos := it\<lparr>i_skb := None\<rparr>],
        q_queue := remove1 pos (q_queue q), q_free_pool := q_free_pool q @ [pos]\<rparr>)"

lemma core_inv_expire:
  assumes inv: "core_inv q" and i: "pos \<in> set (q_queue q)"
  shows "core_inv (expire_queue q pos)"
proof -
  let ?it = "q_pool q ! pos" and ?p = "(q_pool q)[pos := (q_pool q ! pos)\<lparr>i_skb := None\<rparr>]"
  note so = core_invD(1) [OF inv]
  note it = items_okD(1) [OF core_invD(6) [OF inv] i]
  have tp: "txpriv_ok (i_txpriv ?it)" using it by (simp add: item_ok_def)
  have pos: "pos < length (q_pool q)" "pos \<notin> set (q_pending q)" "pos \<notin> set (q_free_pool q)"
      "pos \<notin> set (remove1 pos (q_queue q))"
    using slots_queue [OF so i] slots_distinct [OF so] by auto
  have nqv: "vif_counts ((q_num_queued_vif q)[vif_of ?it := q_num_queued_vif q ! vif_of ?it - 1])
      ?p (remove1 pos (q_queue q) @ q_pending q)"
    by (rule vif_counts_dec [OF core_invD(3) [OF inv]])
       (use txpriv_ok_bounds [OF tp] pos in \<open>auto simp: count_simps icount_remove1 [OF i] in_vif_def\<close>)
  have npv: "vif_counts (q_num_pending_vif q) ?p (q_pending q)"
    by (rule vif_counts_same [OF core_invD(4) [OF inv]]) (use pos in \<open>simp add: count_simps\<close>)
  have lm: "link_counts ((q_link_map_cache q)[vif_of ?it := (q_link_map_cache q ! vif_of ?it)
      [link_of ?it := q_link_map_cache q ! vif_of ?it ! link_of ?it - 1]]) ?p (remove1 pos (q_queue q))"
    by (rule link_counts_dec [OF core_invD(5) [OF inv]])
       (use txpriv_ok_bounds [OF tp] pos in \<open>auto simp: count_simps icount_remove1 [OF i] in_link_def\<close>)
  have sl: "slots_ok (expire_queue q pos)"
    using so i by (auto simp: slots_ok_def expire_queue_def Let_def)
  have ios: "items_ok (expire_queue q pos)"
    using core_invD(6) [OF inv] pos slots_distinct [OF so]
    by (auto simp: items_ok_def expire_queue_def Let_def nth_update)
  have tot: "totals_ok (expire_queue q pos)"
    using core_invD(2) [OF inv]
    by (simp add: totals_ok_def expire_queue_def Let_def flip: length_remove1_in [OF i])
  show ?thesis
    unfolding core_inv_def using sl ios tot nqv npv lm by (simp add: expire_queue_def Let_def)
qed

lemma gc_expire_eq:
  assumes inv: "core_inv q" and st: "stats_ok s" and i: "pos \<in> set (q_queue q)"
  shows "gc_expire pos (q_pool q ! pos) q s =
     Some (expire_queue q pos, stats_dec (vif_of (q_pool q ! pos)) (link_of (q_pool q ! pos)) s,
           link_drained s (vif_of (q_pool q ! pos)) (link_of (q_pool q ! pos)))"
proof -
  let ?it = "q_pool q ! pos"
  note so = core_invD(1) [OF inv]
  have tp: "txpriv_ok (i_txpriv ?it)"
    using items_okD(1) [OF core_invD(6) [OF inv] i] by (simp add: item_ok_def)
  note v = txpriv_ok_bounds [OF tp]
  have b: "pos < length (q_pool q)" "vif_of ?it < length (q_num_queued_vif q)"
      "vif_of ?it < length (q_link_map_cache q)"
      "link_of ?it < length (q_link_map_cache q ! vif_of ?it)" "vif_of ?it < length (st_num_queued s)"
      "vif_of ?it < length (st_link_map_cache s)" "link_of ?it < length (st_link_map_cache s ! vif_of ?it)"
    using slots_queue [OF so i] vif_counts_bounds [OF core_invD(3) [OF inv] v(1)]
      link_counts_bounds [OF core_invD(5) [OF inv] v] st v by (simp_all add: stats_ok_def)
  have mv: "move_tail_free pos (q\<lparr>q_num_queued := a, q_num_queued_vif := b, q_link_map_cache := c, q_pool := d\<rparr>) =
      q\<lparr>q_num_queued := a, q_num_queued_vif := b, q_link_map_cache := c, q_pool := d,
        q_queue := remove1 pos (q_queue q), q_free_pool := q_free_pool q @ [pos]\<rparr>" for a b c d
    using slots_queue [OF so i] by (simp add: move_tail_free_def list_del_def remove1_idem Let_def)
  show ?thesis
    using b by (simp add: gc_expire_def Let_def mv expire_queue_def stats_dec_def link_drained_def)
qed

section \<open>The loop\<close>

definition expired :: "tx_env \<Rightarrow> atbm_queue \<Rightarrow> nat \<Rightarrow> bool" where
  "expired e q pos \<longleftrightarrow> q_ttl q \<le> jiffies e - i_queue_timestamp (q_pool q ! pos)"

text \<open>
  The frames a collection drops: those of the interface ahead of its first frame that has not
  expired; and the slot on which the loop stops.
\<close>

fun gc_victims :: "tx_env \<Rightarrow> u8 \<Rightarrow> atbm_queue \<Rightarrow> nat list \<Rightarrow> nat list" where
  "gc_victims e clr q [] = []"
| "gc_victims e clr q (pos # nx) =
     (if tp_if_id (i_txpriv (q_pool q ! pos)) \<noteq> clr then gc_victims e clr q nx
      else if expired e q pos then pos # gc_victims e clr q nx else [])"

fun gc_stop :: "tx_env \<Rightarrow> u8 \<Rightarrow> atbm_queue \<Rightarrow> nat list \<Rightarrow> nat option" where
  "gc_stop e clr q [] = None"
| "gc_stop e clr q (pos # nx) =
     (if tp_if_id (i_txpriv (q_pool q ! pos)) \<noteq> clr \<or> expired e q pos then gc_stop e clr q nx
      else Some pos)"

definition expire_all :: "atbm_queue \<Rightarrow> nat list \<Rightarrow> atbm_queue" where
  "expire_all q xs = foldl expire_queue q xs"

lemma expire_pool_other:
  "i \<noteq> pos \<Longrightarrow> q_pool (expire_queue q pos) ! i = q_pool q ! i"
  by (simp add: expire_queue_def Let_def)

lemma expire_frame [simp]:
  "q_ttl (expire_queue q pos) = q_ttl q" "q_overfull (expire_queue q pos) = q_overfull q"
  "q_tx_locked_cnt (expire_queue q pos) = q_tx_locked_cnt q"
  "q_queue_id (expire_queue q pos) = q_queue_id q" "q_generation (expire_queue q pos) = q_generation q"
  "q_gc (expire_queue q pos) = q_gc q" "q_capacity (expire_queue q pos) = q_capacity q"
  "q_pending (expire_queue q pos) = q_pending q"
  "q_queue (expire_queue q pos) = remove1 pos (q_queue q)"
  "q_free_pool (expire_queue q pos) = q_free_pool q @ [pos]"
  "shape_ok (expire_queue q pos) = shape_ok q" "gate_ok (expire_queue q pos) e = gate_ok q e"
  "length (q_pool (expire_queue q pos)) = length (q_pool q)"
  by (simp_all add: expire_queue_def Let_def shape_ok_def gate_ok_def)

lemma gc_victims_cong:
  "(\<And>i. i \<in> set xs \<Longrightarrow> q_pool q' ! i = q_pool q ! i) \<Longrightarrow> q_ttl q' = q_ttl q \<Longrightarrow>
     gc_victims e clr q' xs = gc_victims e clr q xs \<and> gc_stop e clr q' xs = gc_stop e clr q xs"
  by (induction xs) (auto simp: expired_def)

lemma gc_victims_subset: "set (gc_victims e clr q xs) \<subseteq> set xs"
  by (induction xs) auto

lemma gc_victims_distinct: "distinct xs \<Longrightarrow> distinct (gc_victims e clr q xs)"
  using gc_victims_subset by (induction xs) fastforce+

lemma gc_stop_in: "gc_stop e clr q xs = Some pos \<Longrightarrow> pos \<in> set xs \<and> tp_if_id (i_txpriv (q_pool q ! pos)) = clr"
  by (induction xs) (auto split: if_splits)

lemma gc_victims_expired: "i \<in> set (gc_victims e clr q xs) \<Longrightarrow> expired e q i"
  by (induction xs) (auto split: if_splits)

lemma gc_stop_not_expired: "gc_stop e clr q xs = Some pos \<Longrightarrow> \<not> expired e q pos"
  by (induction xs) (auto split: if_splits)

lemma gc_stop_not_victim: "gc_stop e clr q xs = Some pos \<Longrightarrow> pos \<notin> set (gc_victims e clr q ys)"
  using gc_victims_expired gc_stop_not_expired by blast

definition gc_entry :: "atbm_queue \<Rightarrow> nat \<Rightarrow> nat option \<times> atbm_txpriv" where
  "gc_entry q pos = (i_skb (q_pool q ! pos), i_txpriv (q_pool q ! pos))"

lemma gc_loop_eq:
  assumes "core_inv q" "stats_ok s" "atomic_alloc e" "distinct xs" "set xs \<subseteq> set (q_queue q)"
    "loop + length xs \<le> 300"
  shows "\<exists>s' w. gc_loop e clr loop xs q s gc wk =
     Some (expire_all q (gc_victims e clr q xs), s',
           gc @ map (gc_entry q) (gc_victims e clr q xs), w, gc_stop e clr q xs) \<and>
     stats_ok s' \<and> core_inv (expire_all q (gc_victims e clr q xs))"
  using assms
proof (induction xs arbitrary: loop q s gc wk)
  case Nil
  then show ?case by (simp add: expire_all_def)
next
  case (Cons pos nx)
  have len: "pos < length (q_pool q)"
    using slots_queue [OF core_invD(1) [OF Cons.prems(1)]] Cons.prems(5) by auto
  show ?case
  proof (cases "tp_if_id (i_txpriv (q_pool q ! pos)) = clr \<and> expired e q pos")
    case False
    with Cons.prems len Cons.IH [of q s "loop + 1" gc wk] show ?thesis
      by (auto simp: expired_def not_le expire_all_def)
  next
    case True
    let ?it = "q_pool q ! pos" and ?q = "expire_queue q pos"
    have in_q: "pos \<in> set (q_queue q)" using Cons.prems by simp
    have nx: "set nx \<subseteq> set (q_queue ?q)"
    proof
      fix x assume "x \<in> set nx"
      moreover then have "x \<noteq> pos" using Cons.prems(4) by auto
      ultimately show "x \<in> set (q_queue ?q)" using Cons.prems(5) by auto
    qed
    have oth: "q_pool ?q ! i = q_pool q ! i" if "i \<in> set nx" for i
      using that Cons.prems(4) by (intro expire_pool_other) auto
    have same: "gc_victims e clr ?q nx = gc_victims e clr q nx" "gc_stop e clr ?q nx = gc_stop e clr q nx"
      using gc_victims_cong [of nx ?q q e clr, OF oth] by simp_all
    have ents: "map (gc_entry ?q) (gc_victims e clr q nx) = map (gc_entry q) (gc_victims e clr q nx)"
      using gc_victims_subset [of e clr q nx] oth by (auto simp: gc_entry_def)
    have dis: "distinct nx" and lp: "(loop + 1) + length nx \<le> 300" using Cons.prems by simp_all
    obtain s' w where ih: "gc_loop e clr (loop + 1) nx ?q (stats_dec (vif_of ?it) (link_of ?it) s)
         (gc @ [gc_entry q pos]) (wk \<or> link_drained s (vif_of ?it) (link_of ?it)) =
        Some (expire_all ?q (gc_victims e clr q nx), s',
              (gc @ [gc_entry q pos]) @ map (gc_entry q) (gc_victims e clr q nx), w, gc_stop e clr q nx)"
        "stats_ok s'" "core_inv (expire_all ?q (gc_victims e clr q nx))"
      using Cons.IH [where gc = "gc @ [gc_entry q pos]" and loop = "loop + 1", OF core_inv_expire [OF Cons.prems(1) in_q]
          stats_ok_dec [OF Cons.prems(2)] Cons.prems(3) dis nx lp, unfolded same ents] by blast
    have "gc_loop e clr loop (pos # nx) q s gc wk =
      Some (expire_all ?q (gc_victims e clr q nx), s',
              (gc @ [gc_entry q pos]) @ map (gc_entry q) (gc_victims e clr q nx), w, gc_stop e clr q nx)"
      using True len Cons.prems ih(1)
      by (simp add: expired_def not_less atbm_queue_register_post_gc_def gc_entry_def
          gc_expire_eq [OF Cons.prems(1,2) in_q])
    with ih True show ?thesis by (simp add: expire_all_def)
  qed
qed

lemma expire_all_frame [simp]:
  "q_ttl (expire_all q xs) = q_ttl q" "q_overfull (expire_all q xs) = q_overfull q"
  "q_tx_locked_cnt (expire_all q xs) = q_tx_locked_cnt q"
  "q_queue_id (expire_all q xs) = q_queue_id q" "q_generation (expire_all q xs) = q_generation q"
  "q_gc (expire_all q xs) = q_gc q" "q_pending (expire_all q xs) = q_pending q"
  "shape_ok (expire_all q xs) = shape_ok q" "gate_ok (expire_all q xs) e = gate_ok q e"
  "length (q_pool (expire_all q xs)) = length (q_pool q)"
  by (induction xs arbitrary: q; simp add: expire_all_def)+

lemma expire_all_lists:
  "distinct (q_queue q) \<Longrightarrow> q_queue (expire_all q xs) = filter (\<lambda>i. i \<notin> set xs) (q_queue q)"
  "q_free_pool (expire_all q xs) = q_free_pool q @ xs"
  by (induction xs arbitrary: q)
     (auto simp: expire_all_def distinct_remove1_removeAll removeAll_filter_not_eq intro!: filter_cong)

lemma expire_all_pool:
  "i \<notin> set xs \<Longrightarrow> q_pool (expire_all q xs) ! i = q_pool q ! i"
  by (induction xs arbitrary: q) (auto simp: expire_all_def expire_pool_other)

section \<open>The whole collection\<close>

lemma slots_queue_short:
  assumes "slots_ok q" shows "length (q_queue q) \<le> 256"
proof -
  have "length (q_queue q) \<le> length (q_pool q)" using slots_lengths [OF assms] by simp
  then show ?thesis using assms by (simp add: slots_ok_def)
qed

text \<open>Queues that hold the same frames and differ at most in flags and timers.\<close>

definition same_frames :: "atbm_queue \<Rightarrow> atbm_queue \<Rightarrow> bool" where
  "same_frames q q' \<longleftrightarrow> q_queue q' = q_queue q \<and> q_pending q' = q_pending q \<and>
     q_free_pool q' = q_free_pool q \<and> q_pool q' = q_pool q \<and> q_generation q' = q_generation q \<and>
     q_queue_id q' = q_queue_id q \<and> q_capacity q' = q_capacity q"

lemma same_frames_flags [simp]:
  "same_frames q q"
  "same_frames q (q\<lparr>q_overfull := ov\<rparr>)"
  "same_frames q (q\<lparr>q_gc := gct\<rparr>)"
  "same_frames q (q\<lparr>q_overfull := ov, q_tx_locked_cnt := lc\<rparr>)"
  by (simp_all add: same_frames_def)

text \<open>The environments differ at most in mac80211's queues and in new log entries.\<close>

definition env_step :: "tx_event set \<Rightarrow> tx_env \<Rightarrow> tx_env \<Rightarrow> bool" where
  "env_step evs e e' \<longleftrightarrow> jiffies e' = jiffies e \<and> num_present_cpus e' = num_present_cpus e \<and>
     vif_queue_cap e' = vif_queue_cap e \<and> atomic_alloc e' = atomic_alloc e \<and>
     (\<exists>l. tx_log e' = tx_log e @ l \<and> set l \<subseteq> evs)"

lemma env_step_refl [simp]: "env_step evs e e"
  by (simp add: env_step_def)

lemma env_step_mac [simp]: "env_step evs e (e\<lparr>mac := m\<rparr>)"
  by (simp add: env_step_def)

lemma env_step_log [simp]: "env_step evs e (log_ev x e) = (x \<in> evs)"
  by (simp add: env_step_def)

lemma env_step_trans: "env_step evs e e' \<Longrightarrow> env_step evs e' e'' \<Longrightarrow> env_step evs e e''"
  by (auto simp: env_step_def)

lemma atbm_queue_gc_u_eq:
  assumes inv: "queue_inv q" and st: "stats_ok s" and g: "gate_ok q e" and at: "atomic_alloc e"
    and clr: "unat clr < 2"
  shows "\<exists>q' s' e'. atbm_queue_gc_u q s e True clr =
      Some (q', s', e', map (gc_entry q) (gc_victims e clr q (q_queue q))) \<and>
     same_frames (expire_all q (gc_victims e clr q (q_queue q))) q' \<and>
     queue_inv q' \<and> stats_ok s' \<and> gate_ok q' e' \<and> env_step (- range (case_prod Skb_dtor)) e e'"
proof -
  let ?v = "unat clr" and ?vs = "gc_victims e clr q (q_queue q)"
  let ?q = "expire_all q ?vs"
  let ?E = "- range (case_prod Skb_dtor)"
  have ci: "core_inv q" and sh: "shape_ok q" using inv by (simp_all add: queue_inv_def)
  note so = core_invD(1) [OF ci]
  obtain s' w where loop: "gc_loop e clr 0 (q_queue q) q s [] False =
       Some (?q, s', map (gc_entry q) ?vs, w, gc_stop e clr q (q_queue q))"
      and st': "stats_ok s'" and ci': "core_inv ?q"
    using gc_loop_eq [OF ci st at, of "q_queue q" 0 clr "[]" False] slots_distinct [OF so]
      slots_queue_short [OF so] by auto
  define e1 where "e1 = (if w then log_ev Wake_link_id_empty e else e)"
  have g1: "gate_ok ?q e1" and step: "env_step ?E e e1" and j: "jiffies e1 = jiffies e"
    using g by (auto simp: e1_def)
  have sh': "shape_ok ?q" and inv': "queue_inv ?q" using sh ci' by (simp_all add: queue_inv_def)
  have ovl: "?v < length (q_overfull q)" "?v < length (q_gc q)" using sh clr by (simp_all add: shape_ok_def)
  obtain cap where cap: "wake_capacity e1 ?v ?q = Some cap"
    using g1 clr by (auto simp: wake_capacity_def gate_ok_def)
  have nq: "?v < length (q_num_queued_vif ?q)" by (rule vif_counts_bounds [OF core_invD(3) [OF ci'] clr])
  consider (no) "\<not> q_overfull q ! ?v" | (wake) "q_overfull q ! ?v" "q_num_queued_vif ?q ! ?v \<le> cap"
    | (last) "q_overfull q ! ?v" "\<not> q_num_queued_vif ?q ! ?v \<le> cap" "gc_stop e clr q (q_queue q) = None"
    | (tmr) pos where "q_overfull q ! ?v" "\<not> q_num_queued_vif ?q ! ?v \<le> cap"
        "gc_stop e clr q (q_queue q) = Some pos"
    by (cases "gc_stop e clr q (q_queue q)") auto
  then show ?thesis
  proof cases
    case no
    with ovl have "atbm_queue_gc_u q s e True clr = Some (?q, s', e1, map (gc_entry q) ?vs)"
      by (simp add: atbm_queue_gc_u_def loop Let_def e1_def)
    with inv' st' g1 step show ?thesis using same_frames_flags(1) by blast
  next
    case last
    with ovl nq cap have "atbm_queue_gc_u q s e True clr = Some (?q, s', e1, map (gc_entry q) ?vs)"
      by (simp add: atbm_queue_gc_u_def loop Let_def e1_def)
    with inv' st' g1 step show ?thesis using same_frames_flags(1) by blast
  next
    case wake
    let ?q1 = "?q\<lparr>q_overfull := (q_overfull q)[?v := False]\<rparr>"
    let ?q2 = "?q1\<lparr>q_tx_locked_cnt := (q_tx_locked_cnt q)[?v := q_tx_locked_cnt q ! ?v - 1]\<rparr>"
    obtain m where u: "atbm_queue_unlock_u ?q1 ?v e1 = Some (?q2, e1\<lparr>mac := m\<rparr>)"
      and g2: "gate_ok ?q2 (e1\<lparr>mac := m\<rparr>)"
      using atbm_queue_unlock_gate [of ?q1 e1 ?v] g1 sh clr wake by (auto simp: shape_ok_def)
    have "atbm_queue_gc_u q s e True clr = Some (?q2, s', e1\<lparr>mac := m\<rparr>, map (gc_entry q) ?vs)"
      using wake ovl nq cap u by (simp add: atbm_queue_gc_u_def loop Let_def flip: e1_def)
    moreover have "queue_inv ?q2"
      using ci' sh clr by (auto simp: queue_inv_def shape_ok_def nth_update)
    moreover have "same_frames ?q ?q2" by (simp add: same_frames_def)
    moreover have "env_step ?E e (e1\<lparr>mac := m\<rparr>)" using env_step_trans [OF step] by simp
    ultimately show ?thesis using st' g2 by blast
  next
    case tmr
    note stop = gc_stop_in [OF tmr(3)]
    have nv: "pos \<notin> set ?vs" using gc_stop_not_victim [OF tmr(3)] .
    have pos: "pos < length (q_pool q)" using stop slots_queue [OF so] by blast
    let ?t = "i_queue_timestamp (q_pool q ! pos) + q_ttl q"
    let ?q1 = "?q\<lparr>q_gc := (q_gc q)[?v := Some ?t]\<rparr>"
    have "atbm_queue_gc_u q s e True clr =
        Some (?q1, s', log_ev (Stay_awake (?t - jiffies e1)) e1, map (gc_entry q) ?vs)"
      using tmr ovl nq cap stop pos
      by (simp add: atbm_queue_gc_u_def loop Let_def expire_all_pool [OF nv] flip: e1_def)
    moreover have "queue_inv ?q1"
      using ci' sh clr by (auto simp: queue_inv_def shape_ok_def nth_update)
    moreover have "env_step ?E e (log_ev (Stay_awake (?t - jiffies e1)) e1)"
      by (rule env_step_trans [OF step]) auto
    moreover have "same_frames ?q ?q1" by simp
    moreover have "gate_ok ?q1 (log_ev (Stay_awake (?t - jiffies e1)) e1)" using g1 by simp
    ultimately show ?thesis using st' by blast
  qed
qed

lemma atbm_queue_post_gc_log:
  "atbm_queue_post_gc gc e = e\<lparr>tx_log := tx_log e @ map (\<lambda>(skb, tp). Skb_dtor skb tp) gc\<rparr>"
  unfolding atbm_queue_post_gc_def
  by (induction gc arbitrary: e) (auto simp: log_ev_def)

lemma gate_post_gc [simp]: "gate_ok q (atbm_queue_post_gc gc e) = gate_ok q e"
  by (simp add: atbm_queue_post_gc_log gate_ok_def)

lemma gc_timer_frame:
  "gc_victims e clr (q\<lparr>q_gc := x\<rparr>) xs = gc_victims e clr q xs"
  "gc_entry (q\<lparr>q_gc := x\<rparr>) i = gc_entry q i"
  "queue_inv (q\<lparr>q_gc := (q_gc q)[v := y]\<rparr>) = queue_inv q"
  by (induction xs) (auto simp: expired_def gc_entry_def queue_inv_def shape_ok_def)

lemma expire_queue_timer: "expire_queue (q\<lparr>q_gc := x\<rparr>) pos = (expire_queue q pos)\<lparr>q_gc := x\<rparr>"
  by (simp add: expire_queue_def Let_def)

lemma expire_all_timer:
  "expire_all (q\<lparr>q_gc := x\<rparr>) xs = (expire_all q xs)\<lparr>q_gc := x\<rparr>"
  by (induction xs arbitrary: q) (auto simp: expire_all_def expire_queue_timer)

lemma atbm_queue_gc_eq:
  assumes inv: "queue_inv q" and st: "stats_ok s" and g: "gate_ok q e" and at: "atomic_alloc e"
    and clr: "unat clr < 2"
  shows "\<exists>q' s' e'. atbm_queue_gc q s e clr = Some (q', s', atbm_queue_post_gc
         (map (gc_entry q) (gc_victims e clr q (q_queue q))) e') \<and>
     same_frames (expire_all q (gc_victims e clr q (q_queue q))) q' \<and>
     queue_inv q' \<and> stats_ok s' \<and> gate_ok q' e' \<and> env_step (- range (case_prod Skb_dtor)) e e'"
proof -
  let ?q = "q\<lparr>q_gc := (q_gc q)[unat clr := None]\<rparr>"
  have l: "unat clr < length (q_gc q)" using inv clr by (simp add: queue_inv_def shape_ok_def)
  have sf: "same_frames (expire_all q xs) q'" if "same_frames (expire_all ?q xs) q'" for xs q'
    using that by (simp add: same_frames_def expire_all_timer)
  have en: "gc_entry ?q = gc_entry q" by (rule ext) (simp add: gc_timer_frame)
  have "queue_inv ?q" "gate_ok ?q e" using inv g by (simp_all add: gc_timer_frame)
  from atbm_queue_gc_u_eq [OF this(1) st this(2) at clr] obtain q' s' e' where
    "atbm_queue_gc_u ?q s e True clr = Some (q', s', e', map (gc_entry q) (gc_victims e clr q (q_queue q)))"
    "same_frames (expire_all ?q (gc_victims e clr q (q_queue q))) q'" "queue_inv q'" "stats_ok s'"
    "gate_ok q' e'" "env_step (- range (case_prod Skb_dtor)) e e'"
    by (auto simp: gc_timer_frame en)
  with sf l show ?thesis
    by (auto simp: atbm_queue_gc_def)
qed

lemma atbm_queue_gc_inv:
  assumes "queue_inv q" "stats_ok s" "gate_ok q e" "atomic_alloc e" "unat clr < 2"
  shows "\<exists>q' s' e'. atbm_queue_gc q s e clr = Some (q', s', e') \<and>
     queue_inv q' \<and> stats_ok s' \<and> gate_ok q' e'"
  using atbm_queue_gc_eq [OF assms] gate_post_gc by blast

end
