(* ===== verification/Queue_Clear.thy ===== *)
theory Queue_Clear
  imports Queue_Gc
begin

text \<open>
  Clearing a queue (\<open>atbm_queue_clear\<close>): the frames of one interface or of all interfaces go
  back to the free pool, the counters follow, and the invariant holds again at the end although
  the loops break it in between.
\<close>

section \<open>Dropping slots\<close>

definition drop_slot :: "atbm_queue \<Rightarrow> nat \<Rightarrow> atbm_queue" where
  "drop_slot q pos = move_tail_free pos
     (q\<lparr>q_pool := (q_pool q)[pos := (q_pool q ! pos)\<lparr>i_skb := None\<rparr>]\<rparr>)"

definition drop_all :: "atbm_queue \<Rightarrow> nat list \<Rightarrow> atbm_queue" where
  "drop_all q xs = foldl drop_slot q xs"

lemma drop_slot_pool:
  "q_pool (drop_slot q pos) = (q_pool q)[pos := (q_pool q ! pos)\<lparr>i_skb := None\<rparr>]"
  by (simp add: drop_slot_def move_tail_free_def list_del_def Let_def)

lemma drop_slot_pool_other: "i \<noteq> pos \<Longrightarrow> q_pool (drop_slot q pos) ! i = q_pool q ! i"
  by (simp add: drop_slot_pool)

lemma clear_loop_eq:
  assumes "atomic_alloc e" and "distinct xs" and "\<And>i. i \<in> set xs \<Longrightarrow> i < length (q_pool q)"
  shows "clear_loop e if_id xs q gc cnt =
     Some (drop_all q (filter (\<lambda>i. of_iface if_id (q_pool q ! i)) xs),
           gc @ map (gc_entry q) (filter (\<lambda>i. of_iface if_id (q_pool q ! i)) xs),
           cnt + length (filter (\<lambda>i. of_iface if_id (q_pool q ! i)) xs))"
  using assms
proof (induction xs arbitrary: q gc cnt)
  case (Cons pos nx)
  show ?case
  proof (cases "of_iface if_id (q_pool q ! pos)")
    case False
    with Cons show ?thesis by (auto simp: drop_all_def)
  next
    case True
    have o: "q_pool (drop_slot q pos) ! i = q_pool q ! i" if "i \<in> set nx" for i
      using that Cons.prems(2) by (intro drop_slot_pool_other) auto
    have f: "filter (\<lambda>i. of_iface if_id (q_pool (drop_slot q pos) ! i)) nx =
        filter (\<lambda>i. of_iface if_id (q_pool q ! i)) nx"
      using o by (intro filter_cong) auto
    have e: "map (gc_entry (drop_slot q pos)) (filter (\<lambda>i. of_iface if_id (q_pool q ! i)) nx) =
        map (gc_entry q) (filter (\<lambda>i. of_iface if_id (q_pool q ! i)) nx)"
      using o by (auto simp: gc_entry_def)
    have d: "distinct nx" and l: "\<And>i. i \<in> set nx \<Longrightarrow> i < length (q_pool (drop_slot q pos))"
      using Cons.prems by (auto simp: drop_slot_pool)
    show ?thesis
      using True Cons.prems(1,3) Cons.IH [OF Cons.prems(1) d l, unfolded f e]
      by (simp add: atbm_queue_register_post_gc_def drop_all_def gc_entry_def flip: drop_slot_def)
  qed
qed (simp add: drop_all_def)

lemma drop_slot_frame:
  "drop_slot q pos = q\<lparr>q_queue := remove1 pos (q_queue q), q_pending := remove1 pos (q_pending q),
     q_free_pool := remove1 pos (q_free_pool q) @ [pos],
     q_pool := (q_pool q)[pos := (q_pool q ! pos)\<lparr>i_skb := None\<rparr>]\<rparr>"
  by (simp add: drop_slot_def move_tail_free_def list_del_def Let_def)

lemma drop_all_append: "drop_all q (xs @ ys) = drop_all (drop_all q xs) ys"
  by (simp add: drop_all_def)

lemma filter_not_in_Cons:
  "distinct xs \<Longrightarrow> filter (\<lambda>i. i \<notin> set vs) (remove1 v xs) = filter (\<lambda>i. i \<notin> set (v # vs)) xs"
  by (auto simp: distinct_remove1_removeAll removeAll_filter_not_eq intro!: filter_cong)

lemma drop_all_eq:
  assumes "distinct (q_queue q)" "distinct (q_pending q)" "distinct vs" "set vs \<inter> set (q_free_pool q) = {}"
  shows "\<exists>pool. drop_all q vs = q\<lparr>q_queue := filter (\<lambda>i. i \<notin> set vs) (q_queue q),
       q_pending := filter (\<lambda>i. i \<notin> set vs) (q_pending q), q_free_pool := q_free_pool q @ vs,
       q_pool := pool\<rparr> \<and> length pool = length (q_pool q) \<and>
     (\<forall>i < length pool. pool ! i = (if i \<in> set vs then (q_pool q ! i)\<lparr>i_skb := None\<rparr> else q_pool q ! i))"
  using assms
proof (induction vs arbitrary: q)
  case Nil
  then show ?case by (intro exI [of _ "q_pool q"]) (simp add: drop_all_def)
next
  case (Cons v vs)
  let ?q = "drop_slot q v"
  have "distinct (q_queue ?q)" "distinct (q_pending ?q)" "distinct vs" "set vs \<inter> set (q_free_pool ?q) = {}"
    using Cons.prems by (auto simp: drop_slot_frame remove1_idem)
  from Cons.IH [OF this] obtain pool where p:
    "drop_all ?q vs = ?q\<lparr>q_queue := filter (\<lambda>i. i \<notin> set vs) (q_queue ?q),
       q_pending := filter (\<lambda>i. i \<notin> set vs) (q_pending ?q), q_free_pool := q_free_pool ?q @ vs,
       q_pool := pool\<rparr>" "length pool = length (q_pool ?q)"
    "\<forall>i < length pool. pool ! i = (if i \<in> set vs then (q_pool ?q ! i)\<lparr>i_skb := None\<rparr> else q_pool ?q ! i)"
    by blast
  have q: "q_queue ?q = remove1 v (q_queue q)" "q_pending ?q = remove1 v (q_pending q)"
    "q_free_pool ?q = q_free_pool q @ [v]"
    using Cons.prems(4) by (simp_all add: drop_slot_frame remove1_idem)
  have "drop_all q (v # vs) = q\<lparr>q_queue := filter (\<lambda>i. i \<notin> set (v # vs)) (q_queue q),
       q_pending := filter (\<lambda>i. i \<notin> set (v # vs)) (q_pending q), q_free_pool := q_free_pool q @ v # vs,
       q_pool := pool\<rparr>"
    using p(1) Cons.prems(1,2)
    by (simp add: drop_all_def q filter_not_in_Cons del: set_simps) (simp add: drop_slot_frame)
  moreover have "length pool = length (q_pool q)" using p(2) by (simp add: drop_slot_pool)
  moreover have "\<forall>i < length pool. pool ! i =
      (if i \<in> set (v # vs) then (q_pool q ! i)\<lparr>i_skb := None\<rparr> else q_pool q ! i)"
    using p(2,3) by (auto simp: drop_slot_pool nth_update)
  ultimately show ?case by blast
qed

section \<open>Resetting the counters\<close>

lemma each_count_eq:
  "length (q_num_queued_vif q) = 2 \<Longrightarrow> length (q_num_pending_vif q) = 2 \<Longrightarrow> \<forall>v \<in> set is. v < 2 \<Longrightarrow>
     \<exists>a b. each_count is q = Some (q\<lparr>q_num_queued_vif := a, q_num_pending_vif := b\<rparr>) \<and>
       length a = 2 \<and> length b = 2 \<and>
       (\<forall>v < 2. a ! v = (if v \<in> set is then 0 else q_num_queued_vif q ! v)) \<and>
       (\<forall>v < 2. b ! v = (if v \<in> set is then 0 else q_num_pending_vif q ! v))"
proof (induction "is" arbitrary: q)
  case Nil
  show ?case using Nil.prems
    by (intro exI [of _ "q_num_queued_vif q"] exI [of _ "q_num_pending_vif q"]) simp
next
  case (Cons v vs)
  let ?q = "q\<lparr>q_num_queued_vif := (q_num_queued_vif q)[v := 0], q_num_pending_vif := (q_num_pending_vif q)[v := 0]\<rparr>"
  have "each_count (v # vs) q = each_count vs ?q" using Cons.prems by (simp add: clear_counts_def)
  moreover from Cons.IH [of ?q] Cons.prems obtain a b where
    "each_count vs ?q = Some (?q\<lparr>q_num_queued_vif := a, q_num_pending_vif := b\<rparr>)"
    "length a = 2 \<and> length b = 2 \<and>
       (\<forall>w < 2. a ! w = (if w \<in> set vs then 0 else (q_num_queued_vif q)[v := 0] ! w)) \<and>
       (\<forall>w < 2. b ! w = (if w \<in> set vs then 0 else (q_num_pending_vif q)[v := 0] ! w))"
    by auto
  ultimately show ?case using Cons.prems
    by (intro exI [of _ a] exI [of _ b]) (auto simp: nth_update)
qed

definition link_rows :: "u32 list list \<Rightarrow> bool" where
  "link_rows lm \<longleftrightarrow> length lm = 2 \<and> (\<forall>v < 2. length (lm ! v) = 50)"

lemma clear_link_maps_eq:
  "link_rows (q_link_map_cache q) \<Longrightarrow> stats_ok s \<Longrightarrow> v < 2 \<Longrightarrow> \<forall>l \<in> set ls. l < 50 \<Longrightarrow>
     \<exists>lm s'. clear_link_maps v ls q s = Some (q\<lparr>q_link_map_cache := lm\<rparr>, s') \<and> link_rows lm \<and> stats_ok s' \<and>
       (\<forall>w < 2. \<forall>k < 50. lm ! w ! k = (if w = v \<and> k \<in> set ls then 0 else q_link_map_cache q ! w ! k))"
proof (induction ls arbitrary: q s)
  case Nil
  then show ?case by (intro exI [of _ "q_link_map_cache q"] exI [of _ s]) simp
next
  case (Cons l ls)
  let ?lm = "(q_link_map_cache q)[v := (q_link_map_cache q ! v)[l := 0]]"
  let ?q = "q\<lparr>q_link_map_cache := ?lm\<rparr>"
  let ?s = "s\<lparr>st_num_queued := (st_num_queued s)[v := st_num_queued s ! v - q_link_map_cache q ! v ! l],
     st_link_map_cache := (st_link_map_cache s)[v := (st_link_map_cache s ! v)
        [l := st_link_map_cache s ! v ! l - q_link_map_cache q ! v ! l]]\<rparr>"
  have r: "link_rows ?lm" "stats_ok ?s" using Cons.prems
    by (auto simp: link_rows_def stats_ok_def nth_update)
  have "clear_link_maps v (l # ls) q s = clear_link_maps v ls ?q ?s"
    using Cons.prems by (simp add: link_rows_def stats_ok_def)
  moreover have "link_rows (q_link_map_cache ?q)" "\<forall>k \<in> set ls. k < 50" using r Cons.prems(4) by simp_all
  from Cons.IH [OF this(1) r(2) Cons.prems(3) this(2)] obtain lm s' where
    "clear_link_maps v ls ?q ?s = Some (?q\<lparr>q_link_map_cache := lm\<rparr>, s')" "link_rows lm" "stats_ok s'"
    "\<forall>w < 2. \<forall>k < 50. lm ! w ! k = (if w = v \<and> k \<in> set ls then 0 else q_link_map_cache ?q ! w ! k)"
    by blast
  ultimately show ?case using Cons.prems
    by (intro exI [of _ lm] exI [of _ s']) (auto simp: nth_update link_rows_def)
qed

lemma each_link_map_eq:
  "link_rows (q_link_map_cache q) \<Longrightarrow> stats_ok s \<Longrightarrow> \<forall>v \<in> set is. v < 2 \<Longrightarrow>
     \<exists>lm s'. each_link_map is q s = Some (q\<lparr>q_link_map_cache := lm\<rparr>, s') \<and> link_rows lm \<and> stats_ok s' \<and>
       (\<forall>w < 2. \<forall>k < 50. lm ! w ! k =
          (if w \<in> set is \<and> k < WLAN_LINK_ID_MAX then 0 else q_link_map_cache q ! w ! k))"
proof (induction "is" arbitrary: q s)
  case Nil
  then show ?case by (intro exI [of _ "q_link_map_cache q"] exI [of _ s]) simp
next
  case (Cons v vs)
  have "st_map_capacity s = WLAN_LINK_ID_MAX" using Cons.prems by (simp add: stats_ok_def)
  moreover have "v < 2" "\<forall>l \<in> set [0..<WLAN_LINK_ID_MAX]. l < 50" "\<forall>w \<in> set vs. w < 2"
    using Cons.prems(3) by (simp_all add: WLAN_LINK_ID_MAX_def)
  note bounds = this
  from clear_link_maps_eq [OF Cons.prems(1,2) this(1,2)] obtain lm s' where
    "clear_link_maps v [0..<WLAN_LINK_ID_MAX] q s = Some (q\<lparr>q_link_map_cache := lm\<rparr>, s')"
    "link_rows lm" "stats_ok s'"
    "\<forall>w < 2. \<forall>k < 50. lm ! w ! k =
       (if w = v \<and> k \<in> set [0..<WLAN_LINK_ID_MAX] then 0 else q_link_map_cache q ! w ! k)"
    by blast
  ultimately have a: "clear_link_maps v [0..<st_map_capacity s] q s = Some (q\<lparr>q_link_map_cache := lm\<rparr>, s')"
    "link_rows lm" "stats_ok s'"
    "\<forall>w < 2. \<forall>k < 50. lm ! w ! k = (if w = v \<and> k < WLAN_LINK_ID_MAX then 0 else q_link_map_cache q ! w ! k)"
    by simp_all
  let ?q = "q\<lparr>q_link_map_cache := lm\<rparr>"
  have lmq: "link_rows (q_link_map_cache ?q)" using a(2) by simp
  from Cons.IH [OF lmq a(3) bounds(3)] obtain lm' s'' where
    "each_link_map vs ?q s' = Some (?q\<lparr>q_link_map_cache := lm'\<rparr>, s'')"
    "link_rows lm'" "stats_ok s''"
    "\<forall>w < 2. \<forall>k < 50. lm' ! w ! k =
       (if w \<in> set vs \<and> k < WLAN_LINK_ID_MAX then 0 else q_link_map_cache ?q ! w ! k)"
    by blast
  then have b: "each_link_map vs ?q s' = Some (q\<lparr>q_link_map_cache := lm'\<rparr>, s'')"
    "link_rows lm'" "stats_ok s''"
    "\<forall>w < 2. \<forall>k < 50. lm' ! w ! k = (if w \<in> set vs \<and> k < WLAN_LINK_ID_MAX then 0 else lm ! w ! k)"
    by simp_all
  show ?case using a b by (intro exI [of _ lm'] exI [of _ s'']) auto
qed

lemma clear_overfull_ok:
  assumes sh: "shape_ok q" and g: "gate_ok q e" and v: "v < 2"
  shows "\<exists>ov lc m. clear_overfull v q e =
           Some (q\<lparr>q_overfull := ov, q_tx_locked_cnt := lc\<rparr>, e\<lparr>mac := m\<rparr>) \<and>
         shape_ok (q\<lparr>q_overfull := ov, q_tx_locked_cnt := lc\<rparr>) \<and>
         gate_ok (q\<lparr>q_overfull := ov, q_tx_locked_cnt := lc\<rparr>) (e\<lparr>mac := m\<rparr>) \<and> \<not> ov ! v"
proof (cases "q_overfull q ! v")
  case False
  have "clear_overfull v q e =
      Some (q\<lparr>q_overfull := q_overfull q, q_tx_locked_cnt := q_tx_locked_cnt q\<rparr>, e\<lparr>mac := mac e\<rparr>)"
    using False sh v by (auto simp: clear_overfull_def shape_ok_def)
  with sh g False show ?thesis
    by (intro exI [of _ "q_overfull q"] exI [of _ "q_tx_locked_cnt q"] exI [of _ "mac e"]) simp
next
  case True
  let ?q = "q\<lparr>q_overfull := (q_overfull q)[v := False]\<rparr>"
  let ?lc = "(q_tx_locked_cnt q)[v := q_tx_locked_cnt q ! v - 1]"
  obtain m where l: "atbm_queue_unlock_u ?q v e = Some (?q\<lparr>q_tx_locked_cnt := ?lc\<rparr>, e\<lparr>mac := m\<rparr>)"
    and g': "gate_ok (?q\<lparr>q_tx_locked_cnt := ?lc\<rparr>) (e\<lparr>mac := m\<rparr>)"
    using atbm_queue_unlock_gate [of ?q e v] g sh v True by (auto simp: shape_ok_def)
  have "clear_overfull v q e = Some (?q\<lparr>q_tx_locked_cnt := ?lc\<rparr>, e\<lparr>mac := m\<rparr>)"
    using True l sh v by (auto simp: clear_overfull_def shape_ok_def)
  moreover have "shape_ok (?q\<lparr>q_tx_locked_cnt := ?lc\<rparr>)"
    using sh v by (auto simp: shape_ok_def nth_update)
  moreover have "\<not> (q_overfull q)[v := False] ! v" using sh v by (simp add: shape_ok_def)
  ultimately show ?thesis using g' by blast
qed

lemma each_overfull_ok:
  "shape_ok q \<Longrightarrow> gate_ok q e \<Longrightarrow> \<forall>v \<in> set is. v < 2 \<Longrightarrow>
     \<exists>ov lc m. each_overfull is q e =
           Some (q\<lparr>q_overfull := ov, q_tx_locked_cnt := lc\<rparr>, e\<lparr>mac := m\<rparr>) \<and>
         shape_ok (q\<lparr>q_overfull := ov, q_tx_locked_cnt := lc\<rparr>) \<and>
         gate_ok (q\<lparr>q_overfull := ov, q_tx_locked_cnt := lc\<rparr>) (e\<lparr>mac := m\<rparr>)"
proof (induction "is" arbitrary: q e)
  case Nil
  then show ?case
    by (intro exI [of _ "q_overfull q"] exI [of _ "q_tx_locked_cnt q"] exI [of _ "mac e"]) simp
next
  case (Cons v vs)
  then obtain ov lc m where a:
    "clear_overfull v q e = Some (q\<lparr>q_overfull := ov, q_tx_locked_cnt := lc\<rparr>, e\<lparr>mac := m\<rparr>)"
    "shape_ok (q\<lparr>q_overfull := ov, q_tx_locked_cnt := lc\<rparr>)"
    "gate_ok (q\<lparr>q_overfull := ov, q_tx_locked_cnt := lc\<rparr>) (e\<lparr>mac := m\<rparr>)"
    using clear_overfull_ok [of q e v] by auto
  from Cons.IH [OF a(2,3)] Cons.prems(3) a(1) show ?case by auto
qed

section \<open>The whole operation\<close>

abbreviation hit :: "int \<Rightarrow> atbm_queue \<Rightarrow> nat \<Rightarrow> bool" where
  "hit if_id q i \<equiv> of_iface if_id (q_pool q ! i)"

definition valid_iface :: "int \<Rightarrow> bool" where
  "valid_iface if_id \<longleftrightarrow> if_id = ATBM_WIFI_ALL_IFS \<or> if_id = 0 \<or> if_id = 1"

lemma ifaces_of_valid:
  assumes "valid_iface if_id"
  obtains vs where "ifaces_of if_id = Some vs" "\<forall>v \<in> set vs. v < 2"
    "\<And>it. vif_of it < 2 \<Longrightarrow> of_iface if_id it = (vif_of it \<in> set vs)"
proof (cases "if_id = ATBM_WIFI_ALL_IFS")
  case True
  then show ?thesis
    by (intro that [of "[0..<2]"]) (simp_all add: ifaces_of_def ATBM_WIFI_MAX_VIFS_def of_iface_def)
next
  case False
  then have i: "0 \<le> if_id" "nat if_id < 2" using assms by (auto simp: valid_iface_def)
  have n: "(int n = if_id) = (n = nat if_id)" for n using i by auto
  show ?thesis
    using False i
    by (intro that [of "[nat if_id]"])
       (simp_all only: ifaces_of_def of_iface_def ATBM_WIFI_ALL_IFS_def n,
        simp_all)
qed

lemma and_nibble_less: "unat ((w :: u8) AND 0xf) < 16"
proof -
  have "w AND 0xf \<le> 0xf" by (rule word_and_le1)
  then have "unat (w AND 0xf) \<le> unat (0xf :: u8)" by (rule word_le_nat_alt [THEN iffD1])
  then show ?thesis by simp
qed

lemma icount_filter_out:
  "(\<And>i. i \<in> set xs \<Longrightarrow> P (pool ! i) \<Longrightarrow> \<not> D i) \<Longrightarrow>
     icount P pool (filter (\<lambda>i. \<not> D i) xs) = icount P pool xs"
  unfolding icount_def filter_filter
  by (rule arg_cong [where f = length], rule filter_cong) auto

text \<open>The slots of a queue in which the frames \<open>vs\<close> of the interfaces \<open>vs\<close> were dropped.\<close>

lemma core_inv_cleared:
  assumes inv: "core_inv q"
    and D: "\<And>i. i \<in> set (q_queue q) \<union> set (q_pending q) \<Longrightarrow> D i = (vif_of (q_pool q ! i) \<in> set vs)"
    and pool: "length pool = length (q_pool q)"
      "\<And>i. i \<in> set (q_queue q) \<union> set (q_pending q) \<Longrightarrow> \<not> D i \<Longrightarrow> pool ! i = q_pool q ! i"
      "\<And>i. i \<in> set (q_queue q) \<union> set (q_pending q) \<Longrightarrow> D i \<Longrightarrow> i_skb (pool ! i) = None"
      "\<And>i. i \<in> set (q_free_pool q) \<Longrightarrow> pool ! i = q_pool q ! i"
    and a: "length a = 2" "\<forall>v < 2. a ! v = (if v \<in> set vs then 0 else q_num_queued_vif q ! v)"
    and b: "length b = 2" "\<forall>v < 2. b ! v = (if v \<in> set vs then 0 else q_num_pending_vif q ! v)"
    and lm: "link_rows lm" "\<forall>w < 2. \<forall>k < 50. lm ! w ! k =
      (if w \<in> set vs \<and> k < WLAN_LINK_ID_MAX then 0 else q_link_map_cache q ! w ! k)"
  shows "core_inv (q\<lparr>q_queue := filter (\<lambda>i. \<not> D i) (q_queue q),
     q_pending := filter (\<lambda>i. \<not> D i) (q_pending q),
     q_free_pool := q_free_pool q @ filter D (q_pending q) @ filter D (q_queue q), q_pool := pool,
     q_num_pending := q_num_pending q - of_nat (length (filter D (q_pending q))),
     q_num_queued := q_num_queued q -
        of_nat (length (filter D (q_pending q)) + length (filter D (q_queue q))),
     q_num_queued_vif := a, q_num_pending_vif := b, q_link_map_cache := lm\<rparr>)" (is "core_inv ?q")
proof -
  let ?A = "filter (\<lambda>i. \<not> D i) (q_queue q)" and ?B = "filter (\<lambda>i. \<not> D i) (q_pending q)"
  note so = core_invD(1) [OF inv]
  have keep: "icount P pool (filter (\<lambda>i. \<not> D i) xs) = icount P (q_pool q) xs"
    if "set xs \<subseteq> set (q_queue q) \<union> set (q_pending q)"
      "\<And>i. i \<in> set xs \<Longrightarrow> P (q_pool q ! i) \<Longrightarrow> \<not> D i" for P xs
  proof -
    have "icount P pool (filter (\<lambda>i. \<not> D i) xs) = icount P (q_pool q) (filter (\<lambda>i. \<not> D i) xs)"
      using that(1) pool(2) by (intro icount_cong) auto
    also have "\<dots> = icount P (q_pool q) xs" using that(2) by (intro icount_filter_out)
    finally show ?thesis .
  qed
  have gone: "icount P pool (filter (\<lambda>i. \<not> D i) xs) = 0"
    if "set xs \<subseteq> set (q_queue q) \<union> set (q_pending q)"
      "\<And>i. i \<in> set xs \<Longrightarrow> P (q_pool q ! i) \<Longrightarrow> D i" for P xs
    using that pool(2) by (intro icount_zero) (auto simp: subset_iff)
  have cnt: "icount (in_vif v) pool (filter (\<lambda>i. \<not> D i) xs) =
      (if v \<in> set vs then 0 else icount (in_vif v) (q_pool q) xs)"
    if "set xs \<subseteq> set (q_queue q) \<union> set (q_pending q)" for v xs
  proof (cases "v \<in> set vs")
    case True
    have "D i" if "i \<in> set xs" "in_vif v (q_pool q ! i)" for i
      using D [of i] that \<open>set xs \<subseteq> _\<close> True by (auto simp: in_vif_def)
    from gone [OF that this] True show ?thesis by simp
  next
    case False
    have "\<not> D i" if "i \<in> set xs" "in_vif v (q_pool q ! i)" for i
      using D [of i] that \<open>set xs \<subseteq> _\<close> False by (auto simp: in_vif_def)
    from keep [OF that this] False show ?thesis by simp
  qed
  have lcnt: "icount (in_link v k) pool ?A =
      (if v \<in> set vs then 0 else icount (in_link v k) (q_pool q) (q_queue q))" for v k
  proof (cases "v \<in> set vs")
    case True
    then show ?thesis using D by (intro trans [OF gone]) (auto simp: in_link_def)
  next
    case False
    then show ?thesis using D by (intro trans [OF keep]) (auto simp: in_link_def)
  qed
  have far: "icount (in_link v k) (q_pool q) (q_queue q) = 0" if "\<not> k < WLAN_LINK_ID_MAX" for v k
    using items_okD(1) [OF core_invD(6) [OF inv]] that
    by (intro icount_zero) (auto simp: in_link_def item_ok_def txpriv_ok_def)
  have "vif_counts a pool (?A @ ?B)"
    using core_invD(3) [OF inv] a cnt [of "q_queue q @ q_pending q"] by (auto simp: vif_counts_def)
  moreover have "vif_counts b pool ?B"
    using core_invD(4) [OF inv] b cnt [of "q_pending q"] by (auto simp: vif_counts_def)
  moreover have "link_counts lm pool ?A"
    using core_invD(5) [OF inv] lm far by (auto simp: link_counts_def link_rows_def lcnt)
  moreover have "slots_ok ?q"
    using so pool(1) by (auto simp: slots_ok_def)
  moreover have "items_ok ?q"
    using core_invD(6) [OF inv] pool by (auto simp: items_ok_def)
  moreover have "totals_ok ?q"
  proof -
    have p: "length (q_pending q) = length (filter D (q_pending q)) + length ?B"
      and r: "length (q_queue q) = length (filter D (q_queue q)) + length ?A"
      by (simp_all add: sum_length_filter_compl)
    show ?thesis
      using core_invD(2) [OF inv] unfolding totals_ok_def p r by simp
  qed
  ultimately show ?thesis by (simp add: core_inv_def)
qed

lemma drop_slot_pending_count:
  "drop_slot (q\<lparr>q_num_pending := x\<rparr>) i = (drop_slot q i)\<lparr>q_num_pending := x\<rparr>"
  by (simp add: drop_slot_frame)

lemma drop_all_pending_count:
  "drop_all (q\<lparr>q_num_pending := x\<rparr>) xs = (drop_all q xs)\<lparr>q_num_pending := x\<rparr>"
  by (induction xs arbitrary: q) (auto simp: drop_all_def drop_slot_pending_count)

lemma atbm_queue_clear_eq:
  assumes inv: "queue_inv q" and st: "stats_ok s" and g: "gate_ok q e" and at: "atomic_alloc e"
    and v: "valid_iface if_id"
  shows "\<exists>q' s' e'. atbm_queue_clear q s e if_id = Some (q', s', atbm_queue_post_gc
       (map (gc_entry q) (filter (hit if_id q) (q_pending q) @ filter (hit if_id q) (q_queue q))) e') \<and>
     queue_inv q' \<and> stats_ok s' \<and> gate_ok q' e' \<and>
     q_queue q' = filter (\<lambda>i. \<not> hit if_id q i) (q_queue q) \<and>
     q_pending q' = filter (\<lambda>i. \<not> hit if_id q i) (q_pending q) \<and>
     q_generation q' = (q_generation q + 1) AND 0xf \<and> q_queue_id q' = q_queue_id q \<and>
     (\<forall>i \<in> set (q_queue q') \<union> set (q_pending q'). q_pool q' ! i = q_pool q ! i) \<and>
     env_step {Wake_link_id_empty} e e'"
proof -
  have ci: "core_inv q" and sh: "shape_ok q" using inv by (simp_all add: queue_inv_def)
  note so = core_invD(1) [OF ci]
  let ?D = "hit if_id q"
  let ?vp = "filter ?D (q_pending q)" and ?vq = "filter ?D (q_queue q)"
  obtain vs where vs: "ifaces_of if_id = Some vs" "\<forall>v \<in> set vs. v < 2"
    "\<And>it. vif_of it < 2 \<Longrightarrow> of_iface if_id it = (vif_of it \<in> set vs)"
    using ifaces_of_valid [OF v] by blast
  define q0 where "q0 = q\<lparr>q_generation := (q_generation q + 1) AND 0xf\<rparr>"
  have dl: "distinct (q_queue q0)" "distinct (q_pending q0)" "distinct (?vp @ ?vq)"
    "set (?vp @ ?vq) \<inter> set (q_free_pool q0) = {}"
    using so by (auto simp: slots_ok_def q0_def)
  obtain pool where dr: "drop_all q0 (?vp @ ?vq) = q0\<lparr>q_queue := filter (\<lambda>i. i \<notin> set (?vp @ ?vq)) (q_queue q0),
       q_pending := filter (\<lambda>i. i \<notin> set (?vp @ ?vq)) (q_pending q0),
       q_free_pool := q_free_pool q0 @ ?vp @ ?vq, q_pool := pool\<rparr>" "length pool = length (q_pool q0)"
     "\<forall>i < length pool. pool ! i =
        (if i \<in> set (?vp @ ?vq) then (q_pool q0 ! i)\<lparr>i_skb := None\<rparr> else q_pool q0 ! i)"
    using drop_all_eq [OF dl] by blast
  have dv: "distinct ?vp" "set ?vp \<inter> set (q_free_pool q0) = {}" using dl(3,4) by auto
  obtain pool1 where d1: "drop_all q0 ?vp = q0\<lparr>q_queue := filter (\<lambda>i. i \<notin> set ?vp) (q_queue q0),
       q_pending := filter (\<lambda>i. i \<notin> set ?vp) (q_pending q0),
       q_free_pool := q_free_pool q0 @ ?vp, q_pool := pool1\<rparr>" "length pool1 = length (q_pool q0)"
     "\<forall>i < length pool1. pool1 ! i =
        (if i \<in> set ?vp then (q_pool q0 ! i)\<lparr>i_skb := None\<rparr> else q_pool q0 ! i)"
    using drop_all_eq [OF dl(1,2) dv] by blast
  have fA: "filter (\<lambda>i. i \<notin> set (?vp @ ?vq)) (q_queue q) = filter (\<lambda>i. \<not> ?D i) (q_queue q)"
    using so by (intro filter_cong) (auto simp: slots_ok_def)
  have fB: "filter (\<lambda>i. i \<notin> set (?vp @ ?vq)) (q_pending q) = filter (\<lambda>i. \<not> ?D i) (q_pending q)"
    using so by (intro filter_cong) (auto simp: slots_ok_def)
  define n where "n = length ?vp"
  let ?np = "q_num_pending q - of_nat n"
  have f0: "q_pool q0 = q_pool q" "q_pending q0 = q_pending q" "q_queue q0 = q_queue q"
    "q_free_pool q0 = q_free_pool q" "q_num_pending q0 = q_num_pending q"
    by (simp_all add: q0_def)
  have e0: "gc_entry q0 = gc_entry q" by (rule ext) (simp add: gc_entry_def f0)
  have loop1: "clear_loop e if_id (q_pending q) q0 [] 0 =
      Some (drop_all q0 ?vp, map (gc_entry q) ?vp, n)"
    using clear_loop_eq [OF at, of "q_pending q" q0 if_id "[]" 0] slots_distinct [OF so] slots_pending [OF so]
    by (simp add: f0 e0 n_def)
  define q1 where "q1 = (drop_all q0 ?vp)\<lparr>q_num_pending := ?np\<rparr>"
  have q1_queue: "q_queue q1 = q_queue q"
    using slots_queue [OF so] by (auto simp: q1_def d1(1) f0 intro!: filter_True)
  have q1_pool: "q_pool q1 ! i = q_pool q ! i" if "i \<in> set (q_queue q)" for i
    using d1 that slots_queue [OF so that] by (auto simp: q1_def f0)
  have vq: "filter (\<lambda>i. of_iface if_id (q_pool q1 ! i)) (q_queue q) = ?vq"
    by (intro filter_cong) (auto simp: q1_pool)
  have ents: "map (gc_entry q1) ?vq = map (gc_entry q) ?vq"
    by (auto simp: gc_entry_def q1_pool)
  have loop2: "clear_loop e if_id (q_queue q) q1 (map (gc_entry q) ?vp) n =
      Some (drop_all q1 ?vq, map (gc_entry q) (?vp @ ?vq), n + length ?vq)"
    using clear_loop_eq [OF at, of "q_queue q" q1 if_id "map (gc_entry q) ?vp" n]
      slots_distinct [OF so] slots_queue [OF so] d1(2)
    by (simp add: vq ents) (simp add: q1_def d1 f0)
  define q2 where "q2 = q0\<lparr>q_queue := filter (\<lambda>i. \<not> ?D i) (q_queue q),
       q_pending := filter (\<lambda>i. \<not> ?D i) (q_pending q),
       q_free_pool := q_free_pool q @ ?vp @ ?vq, q_pool := pool, q_num_pending := ?np\<rparr>"
  have q2: "drop_all q1 ?vq = q2"
    using dr(1) unfolding q1_def drop_all_pending_count drop_all_append [symmetric] q2_def
    by (simp only: f0 fA fB)
  have pos: "of_nat (n + length ?vq) \<le> q_num_queued q"
  proof -
    have "n + length ?vq \<le> length (q_queue q) + length (q_pending q)"
      using length_filter_le [of ?D "q_queue q"] length_filter_le [of ?D "q_pending q"]
      unfolding n_def by linarith
    moreover have "length (q_queue q) + length (q_pending q) < 2 ^ 32"
      using slots_lengths [OF so] so by (simp add: slots_ok_def)
    ultimately show ?thesis
      using core_invD(2) [OF ci] unfolding totals_ok_def
      by (simp add: word_le_nat_alt unat_of_nat take_bit_nat_eq_self del: of_nat_add)
  qed
  define q3 where "q3 = q2\<lparr>q_num_queued := q_num_queued q - of_nat (n + length ?vq)\<rparr>"
  have len: "length (q_num_queued_vif q3) = 2" "length (q_num_pending_vif q3) = 2"
    and rows: "link_rows (q_link_map_cache q3)"
    using core_invD [OF ci]
    by (simp_all add: q3_def q2_def q0_def vif_counts_def link_counts_def link_rows_def)
  obtain a b where ab: "each_count vs q3 = Some (q3\<lparr>q_num_queued_vif := a, q_num_pending_vif := b\<rparr>)"
      "length a = 2" "length b = 2"
      "\<forall>v < 2. a ! v = (if v \<in> set vs then 0 else q_num_queued_vif q3 ! v)"
      "\<forall>v < 2. b ! v = (if v \<in> set vs then 0 else q_num_pending_vif q3 ! v)"
    using each_count_eq [OF len vs(2)] by blast
  let ?q4 = "q3\<lparr>q_num_queued_vif := a, q_num_pending_vif := b\<rparr>"
  have sel4: "q_link_map_cache ?q4 = q_link_map_cache q3" by simp
  have rows4: "link_rows (q_link_map_cache ?q4)" using rows unfolding sel4 .
  obtain lm s' where lm: "each_link_map vs ?q4 s = Some (?q4\<lparr>q_link_map_cache := lm\<rparr>, s')"
      "link_rows lm" "stats_ok s'"
      "\<forall>w < 2. \<forall>k < 50. lm ! w ! k =
          (if w \<in> set vs \<and> k < WLAN_LINK_ID_MAX then 0 else q_link_map_cache q3 ! w ! k)"
    using each_link_map_eq [OF rows4 st vs(2)] unfolding sel4 by blast
  let ?q5 = "?q4\<lparr>q_link_map_cache := lm\<rparr>"
  have sh5: "shape_ok ?q5" and g5: "gate_ok ?q5 e"
    using sh g by (simp_all add: q3_def q2_def q0_def shape_ok_def gate_ok_def and_nibble_less)
  have c5: "core_inv ?q5"
  proof -
    have "core_inv (q\<lparr>q_queue := filter (\<lambda>i. \<not> ?D i) (q_queue q),
       q_pending := filter (\<lambda>i. \<not> ?D i) (q_pending q),
       q_free_pool := q_free_pool q @ ?vp @ ?vq, q_pool := pool,
       q_num_pending := q_num_pending q - of_nat (length ?vp),
       q_num_queued := q_num_queued q - of_nat (length ?vp + length ?vq),
       q_num_queued_vif := a, q_num_pending_vif := b, q_link_map_cache := lm\<rparr>)"
    proof (rule core_inv_cleared [OF ci, where D = ?D and vs = vs])
      show "?D i = (vif_of (q_pool q ! i) \<in> set vs)" if "i \<in> set (q_queue q) \<union> set (q_pending q)" for i
        using live_item(4) [OF inv that] by (intro vs(3)) (simp add: txpriv_ok_def)
      show "length pool = length (q_pool q)" using dr(2) by (simp add: f0)
      show "pool ! i = q_pool q ! i" if "i \<in> set (q_queue q) \<union> set (q_pending q)" "\<not> ?D i" for i
        using dr(2,3) that live_item(1) [OF inv that(1)] by (simp add: f0)
      show "i_skb (pool ! i) = None" if "i \<in> set (q_queue q) \<union> set (q_pending q)" "?D i" for i
        using dr(2,3) that live_item(1) [OF inv that(1)] by (auto simp: f0)
      show "pool ! i = q_pool q ! i" if "i \<in> set (q_free_pool q)" for i
        using dr(2,3) that slots_free [OF so that] by (auto simp: f0)
    qed (use ab lm in \<open>simp_all add: q3_def q2_def q0_def\<close>)
    moreover have "?q5 = (q\<lparr>q_queue := filter (\<lambda>i. \<not> ?D i) (q_queue q),
       q_pending := filter (\<lambda>i. \<not> ?D i) (q_pending q),
       q_free_pool := q_free_pool q @ ?vp @ ?vq, q_pool := pool,
       q_num_pending := q_num_pending q - of_nat (length ?vp),
       q_num_queued := q_num_queued q - of_nat (length ?vp + length ?vq),
       q_num_queued_vif := a, q_num_pending_vif := b, q_link_map_cache := lm\<rparr>)
         \<lparr>q_generation := (q_generation q + 1) AND 0xf\<rparr>"
      by (simp add: q3_def q2_def q0_def n_def)
    ultimately show ?thesis by (simp only: core_inv_frame)
  qed
  obtain ov lc m where ov: "each_overfull vs ?q5 e =
        Some (?q5\<lparr>q_overfull := ov, q_tx_locked_cnt := lc\<rparr>, e\<lparr>mac := m\<rparr>)"
      "shape_ok (?q5\<lparr>q_overfull := ov, q_tx_locked_cnt := lc\<rparr>)"
      "gate_ok (?q5\<lparr>q_overfull := ov, q_tx_locked_cnt := lc\<rparr>) (e\<lparr>mac := m\<rparr>)"
    using each_overfull_ok [OF sh5 g5 vs(2)] by blast
  let ?q6 = "?q5\<lparr>q_overfull := ov, q_tx_locked_cnt := lc\<rparr>"
  have run: "atbm_queue_clear q s e if_id = Some (?q6, s', atbm_queue_post_gc
       (map (gc_entry q) (?vp @ ?vq)) (log_ev Wake_link_id_empty (e\<lparr>mac := m\<rparr>)))"
  proof -
    have b1: "q_num_pending (drop_all q0 ?vp) = q_num_pending q"
      "q_pending q0 = q_pending q" using d1(1) by (simp_all add: f0)
    have b2: "q_num_queued q2 = q_num_queued q" by (simp add: q2_def q0_def)
    show ?thesis
      unfolding atbm_queue_clear_def Let_def q0_def [symmetric] b1(2) loop1 bind.bind_lunit
        prod.case b1(1) q1_def [symmetric] q1_queue loop2 q2 b2 q3_def [symmetric] vs(1)
      using pos by (simp add: vs(1) ab(1) lm(1) ov(1) flip: q3_def)
  qed
  have "queue_inv ?q6" using c5 ov(2) by (simp add: queue_inv_def)
  moreover have "gate_ok ?q6 (log_ev Wake_link_id_empty (e\<lparr>mac := m\<rparr>))" using ov(3) by simp
  moreover have "env_step {Wake_link_id_empty} e (log_ev Wake_link_id_empty (e\<lparr>mac := m\<rparr>))"
    by (rule env_step_trans [OF env_step_mac [where m = m]]) simp
  moreover have "q_pool ?q6 ! i = q_pool q ! i" if "i \<in> set (q_queue ?q6) \<union> set (q_pending ?q6)" for i
    using that dr(2,3) live_item(1) [OF inv, of i] by (auto simp: q3_def q2_def f0)
  moreover have "q_queue ?q6 = filter (\<lambda>i. \<not> ?D i) (q_queue q)"
      "q_pending ?q6 = filter (\<lambda>i. \<not> ?D i) (q_pending q)"
      "q_generation ?q6 = (q_generation q + 1) AND 0xf" "q_queue_id ?q6 = q_queue_id q"
    by (simp_all add: q3_def q2_def q0_def)
  ultimately show ?thesis using run lm(3) by blast
qed

lemma atbm_queue_clear_inv:
  assumes "queue_inv q" "stats_ok s" "gate_ok q e" "atomic_alloc e" "valid_iface if_id"
  shows "\<exists>q' s' e'. atbm_queue_clear q s e if_id = Some (q', s', e') \<and>
     queue_inv q' \<and> stats_ok s' \<and> gate_ok q' e'"
  using atbm_queue_clear_eq [OF assms] gate_post_gc by blast

end
