(* ===== verification/Queue_Spec.thy ===== *)
theory Queue_Spec
  imports Queue_Clear
begin

text \<open>
  What the transmit queue promises, without slots, counters and generations: a list of waiting
  frames and a finite map from packet identifiers to the frames the firmware holds. Each operation
  of the model does on this abstract state what its specification does.
\<close>

section \<open>The abstract queue\<close>

type_synonym tx_frame = "nat option \<times> atbm_txpriv"

record abs_queue =
  waiting :: "tx_frame list"
  in_flight :: "u32 \<rightharpoonup> tx_frame"

definition find_packet :: "atbm_queue \<Rightarrow> u32 \<Rightarrow> nat option" where
  "find_packet q pid =
     List.find (\<lambda>i. i_packetID (q_pool q ! i) = pid \<and> current q pid) (q_pending q)"

definition abs_of :: "atbm_queue \<Rightarrow> abs_queue" where
  "abs_of q = \<lparr>waiting = map (gc_entry q) (q_queue q),
               in_flight = (\<lambda>pid. map_option (gc_entry q) (find_packet q pid))\<rparr>"

definition abs_put :: "tx_frame \<Rightarrow> abs_queue \<Rightarrow> abs_queue" where
  "abs_put f a = a\<lparr>waiting := waiting a @ [f]\<rparr>"

text \<open>The first waiting frame that matches leaves the list under a fresh identifier.\<close>

definition frame_matches :: "int \<Rightarrow> u32 \<Rightarrow> tx_frame \<Rightarrow> bool" where
  "frame_matches if_id link_id_map f \<longleftrightarrow> int (unat (tp_if_id (snd f))) = if_id \<and>
     link_id_map AND push_bit (unat (tp_link_id (snd f))) 1 \<noteq> 0"

fun remove_first :: "('a \<Rightarrow> bool) \<Rightarrow> 'a list \<Rightarrow> 'a list" where
  "remove_first P [] = []"
| "remove_first P (x # xs) = (if P x then xs else x # remove_first P xs)"

definition abs_get :: "int \<Rightarrow> u32 \<Rightarrow> u32 \<Rightarrow> tx_frame \<Rightarrow> abs_queue \<Rightarrow> abs_queue" where
  "abs_get if_id link_id_map pid f a =
     a\<lparr>waiting := remove_first (frame_matches if_id link_id_map) (waiting a),
       in_flight := (in_flight a)(pid \<mapsto> f)\<rparr>"

definition abs_remove :: "u32 \<Rightarrow> abs_queue \<Rightarrow> abs_queue" where
  "abs_remove pid a = a\<lparr>in_flight := (in_flight a)(pid := None)\<rparr>"

definition abs_requeue :: "u32 \<Rightarrow> tx_frame \<Rightarrow> abs_queue \<Rightarrow> abs_queue" where
  "abs_requeue pid f a = a\<lparr>waiting := f # waiting a, in_flight := (in_flight a)(pid := None)\<rparr>"

section \<open>Packet identifiers of live frames\<close>

lemma live_packet_inject:
  assumes "queue_inv q" and "i \<in> set (q_queue q) \<union> set (q_pending q)"
    and "j \<in> set (q_queue q) \<union> set (q_pending q)"
    and "i_packetID (q_pool q ! i) = i_packetID (q_pool q ! j)"
  shows "i = j"
  using live_parse(2) [OF assms(1,2)] unfolding assms(4) live_parse(2) [OF assms(1,3)] by (rule sym)

lemma find_packet_Some:
  assumes "queue_inv q"
  shows "find_packet q pid = Some i \<longleftrightarrow>
     i \<in> set (q_pending q) \<and> i_packetID (q_pool q ! i) = pid \<and> current q pid"
proof
  assume "find_packet q pid = Some i"
  then show "i \<in> set (q_pending q) \<and> i_packetID (q_pool q ! i) = pid \<and> current q pid"
    by (auto simp: find_packet_def find_Some_iff)
next
  assume a: "i \<in> set (q_pending q) \<and> i_packetID (q_pool q ! i) = pid \<and> current q pid"
  then have "find_packet q pid \<noteq> None" by (auto simp: find_packet_def find_None_iff)
  then obtain j where j: "find_packet q pid = Some j" by blast
  then have "j \<in> set (q_pending q)" "i_packetID (q_pool q ! j) = pid"
    by (auto simp: find_packet_def find_Some_iff)
  with a j live_packet_inject [OF assms, of i j] show "find_packet q pid = Some i" by simp
qed

lemma in_flight_Some:
  assumes "queue_inv q"
  shows "in_flight (abs_of q) pid = Some f \<longleftrightarrow>
     (\<exists>i. i \<in> set (q_pending q) \<and> i_packetID (q_pool q ! i) = pid \<and> current q pid \<and> f = gc_entry q i)"
  using find_packet_Some [OF assms] by (auto simp: abs_of_def)

lemma in_flight_eqI:
  assumes "\<And>pid f. (m pid = Some f) = (m' pid = Some f)"
  shows "m = (m' :: 'a \<rightharpoonup> 'b)"
proof
  fix pid show "m pid = m' pid"
  proof (cases "m' pid")
    case None
    then have "m pid \<noteq> Some f" for f using assms [of pid f] by simp
    with None show ?thesis by (metis option.exhaust)
  next
    case (Some f)
    then show ?thesis using assms [of pid f] by simp
  qed
qed

lemma map_entry_cong:
  "(\<And>i. i \<in> set xs \<Longrightarrow> gc_entry q' i = gc_entry q i) \<Longrightarrow> map (gc_entry q') xs = map (gc_entry q) xs"
  by simp

lemma current_cong: "q_generation q' = q_generation q \<Longrightarrow> current q' pid = current q pid"
  by (simp add: current_def)

lemma gc_entry_flags [simp]:
  "gc_entry (q\<lparr>q_overfull := ov\<rparr>) = gc_entry q" "gc_entry (q\<lparr>q_tx_locked_cnt := lc\<rparr>) = gc_entry q"
  "gc_entry (q\<lparr>q_gc := gct\<rparr>) = gc_entry q"
  by (simp_all add: gc_entry_def fun_eq_iff)

lemma abs_of_flags [simp]:
  "abs_of (q\<lparr>q_overfull := ov\<rparr>) = abs_of q" "abs_of (q\<lparr>q_tx_locked_cnt := lc\<rparr>) = abs_of q"
  "abs_of (q\<lparr>q_gc := gct\<rparr>) = abs_of q"
  by (simp_all add: abs_of_def find_packet_def current_def)

lemma find_remove_first:
  "List.find P xs = Some x \<Longrightarrow> distinct xs \<Longrightarrow> remove1 x xs = remove_first P xs"
  by (induction xs) (auto split: if_splits dest: find_Some_iff [THEN iffD1])

lemma remove_first_map: "remove_first P (map f xs) = map f (remove_first (P \<circ> f) xs)"
  by (induction xs) auto

section \<open>Simulation\<close>

text \<open>Two abstract queues agree when their waiting frames and in-flight entries do.\<close>

lemma abs_of_eqI:
  assumes "queue_inv q'" and "map (gc_entry q') (q_queue q') = waiting a"
    and "\<And>pid f. in_flight a pid = Some f \<longleftrightarrow>
       (\<exists>i. i \<in> set (q_pending q') \<and> i_packetID (q_pool q' ! i) = pid \<and> current q' pid \<and> f = gc_entry q' i)"
  shows "abs_of q' = a"
proof -
  have "in_flight (abs_of q') = in_flight a"
    by (rule in_flight_eqI) (simp add: in_flight_Some [OF assms(1)] assms(3))
  moreover have "waiting (abs_of q') = waiting a" using assms(2) by (simp add: abs_of_def)
  ultimately show ?thesis by simp
qed

lemma abs_put_queue:
  assumes inv: "queue_inv q" and f: "q_free_pool q = pos # free"
    and inv': "queue_inv (put_queue q e skb tp pos free)"
  shows "abs_of (put_queue q e skb tp pos free) = abs_put (skb, tp) (abs_of q)"
proof (rule abs_of_eqI [OF inv'])
  let ?q = "put_queue q e skb tp pos free"
  have so: "slots_ok q" using inv by (simp add: queue_inv_def core_inv_def)
  have pos: "pos < length (q_pool q)" "pos \<notin> set (q_queue q)" "pos \<notin> set (q_pending q)"
    using slots_free [OF so, of pos] f by auto
  have old: "q_pool ?q ! i = q_pool q ! i" if "i \<noteq> pos" for i
    using that by (simp add: put_queue_def Let_def)
  have ent: "gc_entry ?q i = gc_entry q i" if "i \<noteq> pos" for i
    using old [OF that] by (simp add: gc_entry_def)
  have new: "gc_entry ?q pos = (skb, tp)" using pos by (simp add: gc_entry_def put_queue_def Let_def)
  have l: "q_queue ?q = q_queue q @ [pos]" "q_pending ?q = q_pending q" "q_generation ?q = q_generation q"
    by (simp_all add: put_queue_def Let_def)
  show "map (gc_entry ?q) (q_queue ?q) = waiting (abs_put (skb, tp) (abs_of q))"
    using pos new by (auto simp: l abs_put_def abs_of_def intro!: ent)
  show "in_flight (abs_put (skb, tp) (abs_of q)) pid = Some f \<longleftrightarrow>
     (\<exists>i. i \<in> set (q_pending ?q) \<and> i_packetID (q_pool ?q ! i) = pid \<and> current ?q pid \<and> f = gc_entry ?q i)"
    for pid f
    using pos by (auto simp: abs_put_def in_flight_Some [OF inv] l current_cong [OF l(3)])
      (metis old ent)+
qed

lemma abs_get_queue:
  assumes inv: "queue_inv q" and inv': "queue_inv (get_queue q e pos)"
    and f: "List.find (get_matches q if_id link_id_map) (q_queue q) = Some pos"
  shows "abs_of (get_queue q e pos) =
     abs_get if_id link_id_map (i_packetID (get_item q e (q_pool q ! pos))) (gc_entry q pos) (abs_of q)"
proof (rule abs_of_eqI [OF inv'])
  let ?q = "get_queue q e pos" and ?pid = "i_packetID (get_item q e (q_pool q ! pos))"
  have so: "slots_ok q" and g: "unat (q_generation q) < 16" "unat (q_queue_id q) < 16"
    using inv by (simp_all add: queue_inv_def core_inv_def shape_ok_def)
  have i: "pos \<in> set (q_queue q)" using f by (auto simp: find_Some_iff)
  have pos: "pos < length (q_pool q)" "pos \<notin> set (q_pending q)" "distinct (q_queue q)"
    using slots_queue [OF so i] slots_distinct [OF so] by auto
  note it = live_item(3) [OF inv, of pos]
  have cur: "current ?q ?pid"
    using get_packet [OF it g(2,1), of e] i it g
    by (auto simp: current_def parse_make_packet_id item_ok_def txpriv_ok_def get_queue_def Let_def)
  have l: "q_queue ?q = remove1 pos (q_queue q)" "q_pending ?q = q_pending q @ [pos]"
    "q_generation ?q = q_generation q" "q_pool ?q ! pos = get_item q e (q_pool q ! pos)"
    using pos by (simp_all add: get_queue_def Let_def)
  have old: "q_pool ?q ! i = q_pool q ! i" if "i \<noteq> pos" for i
    using that by (simp add: get_queue_def Let_def)
  have ent: "gc_entry ?q i = gc_entry q i" for i
    using old [of i] l(4) by (cases "i = pos") (auto simp: gc_entry_def)
  have m: "frame_matches if_id link_id_map \<circ> gc_entry q = get_matches q if_id link_id_map"
    by (rule ext) (simp add: frame_matches_def get_matches_def gc_entry_def)
  show "map (gc_entry ?q) (q_queue ?q) =
      waiting (abs_get if_id link_id_map ?pid (gc_entry q pos) (abs_of q))"
    using find_remove_first [OF f pos(3)]
    by (simp add: l abs_get_def abs_of_def remove_first_map m ent cong: map_cong)
  have fresh: "i_packetID (q_pool q ! j) \<noteq> ?pid" if "j \<in> set (q_pending q)" for j
    using live_packet_inject [OF inv', of j pos] that pos(2) old [of j] by (cases "j = pos") (auto simp: l)
  show "in_flight (abs_get if_id link_id_map ?pid (gc_entry q pos) (abs_of q)) pid = Some f \<longleftrightarrow>
     (\<exists>i. i \<in> set (q_pending ?q) \<and> i_packetID (q_pool ?q ! i) = pid \<and> current ?q pid \<and> f = gc_entry ?q i)"
    for pid f
  proof -
    have "(\<exists>i. i \<in> set (q_pending ?q) \<and> i_packetID (q_pool ?q ! i) = pid \<and> current ?q pid \<and> f = gc_entry ?q i)
        \<longleftrightarrow> (pid = ?pid \<and> f = gc_entry q pos) \<or>
            (\<exists>i. i \<in> set (q_pending q) \<and> i_packetID (q_pool q ! i) = pid \<and> current q pid \<and> f = gc_entry q i)"
      (is "?L \<longleftrightarrow> ?R")
    proof
      assume ?L
      then obtain i where "i \<in> set (q_pending ?q)" "i_packetID (q_pool ?q ! i) = pid" "current ?q pid"
        "f = gc_entry ?q i" by blast
      then show ?R
        using pos(2) old [of i] by (cases "i = pos") (auto simp: l ent current_cong [OF l(3)])
    next
      assume ?R
      then show ?L
      proof (elim disjE exE conjE)
        fix i assume i: "i \<in> set (q_pending q)" "i_packetID (q_pool q ! i) = pid" "current q pid"
          "f = gc_entry q i"
        with pos(2) old [of i] show ?L
          by (intro exI [of _ i]) (cases "i = pos", auto simp: l ent current_cong [OF l(3)])
      qed (use cur in \<open>intro exI [of _ pos], simp add: l ent\<close>)
    qed
    with fresh show ?thesis by (auto simp: abs_get_def in_flight_Some [OF inv])
  qed
qed

lemma abs_remove_queue:
  assumes inv: "queue_inv q" and inv': "queue_inv (remove_queue q pos)" and i: "pos \<in> set (q_pending q)"
  shows "abs_of (remove_queue q pos) = abs_remove (i_packetID (q_pool q ! pos)) (abs_of q)"
proof (rule abs_of_eqI [OF inv'])
  let ?q = "remove_queue q pos" and ?pid = "i_packetID (q_pool q ! pos)"
  have so: "slots_ok q" using inv by (simp add: queue_inv_def core_inv_def)
  have pos: "pos < length (q_pool q)" "pos \<notin> set (q_queue q)" "distinct (q_pending q)"
    using slots_pending [OF so i] slots_distinct [OF so] by auto
  have l: "q_queue ?q = q_queue q" "q_pending ?q = remove1 pos (q_pending q)"
    "q_generation ?q = q_generation q"
    by (simp_all add: remove_queue_def Let_def)
  have old: "q_pool ?q ! i = q_pool q ! i" if "i \<noteq> pos" for i
    using that by (simp add: remove_queue_def Let_def)
  have ent: "gc_entry ?q i = gc_entry q i" if "i \<noteq> pos" for i
    using old [OF that] by (simp add: gc_entry_def)
  have mem: "j \<in> set (q_pending ?q) \<longleftrightarrow> j \<in> set (q_pending q) \<and> j \<noteq> pos" for j
    using pos(3) by (auto simp: l)
  show "map (gc_entry ?q) (q_queue ?q) = waiting (abs_remove ?pid (abs_of q))"
    using pos by (auto simp: l abs_remove_def abs_of_def intro!: ent)
  show "in_flight (abs_remove ?pid (abs_of q)) pid = Some f \<longleftrightarrow>
     (\<exists>i. i \<in> set (q_pending ?q) \<and> i_packetID (q_pool ?q ! i) = pid \<and> current ?q pid \<and> f = gc_entry ?q i)"
    for pid f
  proof -
    have "(\<exists>i. i \<in> set (q_pending ?q) \<and> i_packetID (q_pool ?q ! i) = pid \<and> current ?q pid \<and> f = gc_entry ?q i)
        \<longleftrightarrow> (\<exists>i. (i \<in> set (q_pending q) \<and> i \<noteq> pos) \<and> i_packetID (q_pool q ! i) = pid \<and> current q pid \<and>
               f = gc_entry q i)"
      by (rule ex_cong1) (use mem old ent in \<open>auto simp: current_cong [OF l(3)]\<close>)
    also have "\<dots> \<longleftrightarrow> pid \<noteq> ?pid \<and>
        (\<exists>i. i \<in> set (q_pending q) \<and> i_packetID (q_pool q ! i) = pid \<and> current q pid \<and> f = gc_entry q i)"
      using live_packet_inject [OF inv, of pos] i by (metis UnI2)
    finally show ?thesis by (auto simp: abs_remove_def in_flight_Some [OF inv])
  qed
qed

lemma abs_requeue_queue:
  assumes inv: "queue_inv q" and inv': "queue_inv (requeue_queue q pos)" and i: "pos \<in> set (q_pending q)"
  shows "abs_of (requeue_queue q pos) =
     abs_requeue (i_packetID (q_pool q ! pos)) (gc_entry q pos) (abs_of q)"
proof (rule abs_of_eqI [OF inv'])
  let ?q = "requeue_queue q pos" and ?pid = "i_packetID (q_pool q ! pos)"
  have so: "slots_ok q" using inv by (simp add: queue_inv_def core_inv_def)
  have pos: "pos < length (q_pool q)" "pos \<notin> set (q_queue q)" "distinct (q_pending q)"
    using slots_pending [OF so i] slots_distinct [OF so] by auto
  have l: "q_queue ?q = pos # q_queue q" "q_pending ?q = remove1 pos (q_pending q)"
    "q_generation ?q = q_generation q"
    by (simp_all add: requeue_queue_def Let_def)
  have old: "q_pool ?q ! i = q_pool q ! i" if "i \<noteq> pos" for i
    using that by (simp add: requeue_queue_def Let_def)
  have ent: "gc_entry ?q i = gc_entry q i" for i
    using old [of i] pos by (cases "i = pos") (auto simp: gc_entry_def requeue_queue_def Let_def)
  have mem: "j \<in> set (q_pending ?q) \<longleftrightarrow> j \<in> set (q_pending q) \<and> j \<noteq> pos" for j
    using pos(3) by (auto simp: l)
  show "map (gc_entry ?q) (q_queue ?q) = waiting (abs_requeue ?pid (gc_entry q pos) (abs_of q))"
    by (simp add: l abs_requeue_def abs_of_def ent)
  show "in_flight (abs_requeue ?pid (gc_entry q pos) (abs_of q)) pid = Some f \<longleftrightarrow>
     (\<exists>i. i \<in> set (q_pending ?q) \<and> i_packetID (q_pool ?q ! i) = pid \<and> current ?q pid \<and> f = gc_entry ?q i)"
    for pid f
  proof -
    have "(\<exists>i. i \<in> set (q_pending ?q) \<and> i_packetID (q_pool ?q ! i) = pid \<and> current ?q pid \<and> f = gc_entry ?q i)
        \<longleftrightarrow> (\<exists>i. (i \<in> set (q_pending q) \<and> i \<noteq> pos) \<and> i_packetID (q_pool q ! i) = pid \<and> current q pid \<and>
               f = gc_entry q i)"
      by (rule ex_cong1) (use mem old ent in \<open>auto simp: current_cong [OF l(3)]\<close>)
    also have "\<dots> \<longleftrightarrow> pid \<noteq> ?pid \<and>
        (\<exists>i. i \<in> set (q_pending q) \<and> i_packetID (q_pool q ! i) = pid \<and> current q pid \<and> f = gc_entry q i)"
      using live_packet_inject [OF inv, of pos] i by (metis UnI2)
    finally show ?thesis by (auto simp: abs_requeue_def in_flight_Some [OF inv])
  qed
qed

end
