(* ===== verification/Custody.thy ===== *)
theory Custody
  imports Prelude "HOL-Library.Multiset"
begin

text \<open>
  The contract of a component that takes frames into its keeping and gives each of them up once:
  it never aborts where it may be called, it keeps its invariant, and no frame is lost or
  duplicated. The transmit queue and the receive reorder buffer are its models.
\<close>

text \<open>What a run hands to the component.\<close>

fun accepted_run :: "('op \<Rightarrow> 's \<Rightarrow> 'i multiset) \<Rightarrow> ('op \<Rightarrow> 's \<Rightarrow> 's option) \<Rightarrow> 'op list \<Rightarrow> 's \<Rightarrow> 'i multiset" where
  "accepted_run acc step [] s = {#}"
| "accepted_run acc step (x # xs) s =
     acc x s + (case step x s of None \<Rightarrow> {#} | Some s' \<Rightarrow> accepted_run acc step xs s')"

locale safe_steps =
  fixes inv :: "'s \<Rightarrow> bool"
    and ok :: "'op \<Rightarrow> 's \<Rightarrow> bool"
    and step :: "'op \<Rightarrow> 's \<Rightarrow> 's option"
  assumes step_ok: "inv s \<Longrightarrow> ok x s \<Longrightarrow> \<exists>s'. step x s = Some s' \<and> inv s'"
begin

lemma run_total:
  "inv s \<Longrightarrow> run_ok ok step xs s \<Longrightarrow> \<exists>s'. run_ops step xs s = Some s' \<and> inv s'"
proof (induction xs arbitrary: s)
  case (Cons x xs)
  then obtain s' where "step x s = Some s'" "inv s'" using step_ok [of s x] by auto
  with Cons show ?case by simp
qed simp

lemma run_inv: "inv s \<Longrightarrow> run_ok ok step xs s \<Longrightarrow> run_ops step xs s = Some s' \<Longrightarrow> inv s'"
  using run_total by fastforce

end

locale custody = safe_steps inv ok step
  for inv :: "'s \<Rightarrow> bool" and ok :: "'op \<Rightarrow> 's \<Rightarrow> bool" and step :: "'op \<Rightarrow> 's \<Rightarrow> 's option" +
  fixes held :: "'s \<Rightarrow> 'i multiset"
    and released :: "'s \<Rightarrow> 'i multiset"
    and accepted :: "'op \<Rightarrow> 's \<Rightarrow> 'i multiset"
  assumes conserve: "inv s \<Longrightarrow> ok x s \<Longrightarrow> step x s = Some s' \<Longrightarrow>
      held s' + released s' = held s + released s + accepted x s"
begin

lemma run_conserve:
  "inv s \<Longrightarrow> run_ok ok step xs s \<Longrightarrow> run_ops step xs s = Some s' \<Longrightarrow>
     held s' + released s' = held s + released s + accepted_run accepted step xs s"
proof (induction xs arbitrary: s)
  case (Cons x xs)
  then obtain t where t: "step x s = Some t" "inv t" using step_ok [of s x] by auto
  with Cons have "held s' + released s' = held t + released t + accepted_run accepted step xs t" by simp
  also have "held t + released t = held s + released s + accepted x s"
    using conserve [of s x t] Cons.prems t by simp
  finally show ?case using t by (simp add: add_ac)
qed simp

text \<open>Started empty, the component gives nothing up that it was not handed, and not more often.\<close>

lemma run_never_invents:
  assumes "inv s" "run_ok ok step xs s" "run_ops step xs s = Some s'" "held s = {#}" "released s = {#}"
  shows "released s' \<subseteq># accepted_run accepted step xs s"
proof -
  have "held s' + released s' = accepted_run accepted step xs s"
    using run_conserve [OF assms(1-3)] assms(4,5) by simp
  then show ?thesis by (metis mset_subset_eq_add_right)
qed

end

end
