(* ===== verification/Queue_Runs.thy ===== *)
theory Queue_Runs
  imports Queue_Spec Custody
begin

text \<open>
  Runs of the transmit queue: any sequence of its operations, each called as the driver calls it,
  with the clock moving in between. The queue is a custodian of frames.
\<close>

section \<open>Operations as steps\<close>

datatype queue_op =
    Q_put "nat option" atbm_txpriv
  | Q_get int u32
  | Q_remove u32
  | Q_requeue u32 bool
  | Q_clear int
  | Q_gc u8
  | Q_lock nat
  | Q_unlock nat
  | Q_tick u32

type_synonym queue_sys = "atbm_queue \<times> atbm_queue_stats \<times> tx_env"

fun queue_step :: "queue_op \<Rightarrow> queue_sys \<Rightarrow> queue_sys option" where
  "queue_step (Q_put skb tp) (q, s, e) = map_option snd (atbm_queue_put q s e skb tp)"
| "queue_step (Q_get if_id link_id_map) (q, s, e) = map_option snd (atbm_queue_get q s e if_id link_id_map)"
| "queue_step (Q_remove pid) (q, s, e) =
     map_option (\<lambda>(r, q, e). (q, s, e)) (atbm_queue_remove q e pid)"
| "queue_step (Q_requeue pid check) (q, s, e) = map_option snd (atbm_queue_requeue q s e pid check)"
| "queue_step (Q_clear if_id) (q, s, e) = atbm_queue_clear q s e if_id"
| "queue_step (Q_gc v) (q, s, e) = atbm_queue_gc q s e v"
| "queue_step (Q_lock v) (q, s, e) = map_option (\<lambda>(q, e). (q, s, e)) (atbm_queue_lock q v e)"
| "queue_step (Q_unlock v) (q, s, e) = map_option (\<lambda>(q, e). (q, s, e)) (atbm_queue_unlock q v e)"
| "queue_step (Q_tick t) (q, s, e) = Some (q, s, e\<lparr>jiffies := t\<rparr>)"

text \<open>
  Where an operation may be called: a confirmation or a retransmission names a frame that the
  firmware holds, and the driver releases only locks it took itself.
\<close>

definition pending_pid :: "atbm_queue \<Rightarrow> u32 \<Rightarrow> bool" where
  "pending_pid q pid \<longleftrightarrow> list_ex (\<lambda>i. i_packetID (q_pool q ! i) = pid) (q_pending q)"

fun queue_op_ok :: "queue_op \<Rightarrow> queue_sys \<Rightarrow> bool" where
  "queue_op_ok (Q_put skb tp) (q, s, e) = put_pre skb tp q"
| "queue_op_ok (Q_get if_id link_id_map) (q, s, e) = True"
| "queue_op_ok (Q_remove pid) (q, s, e) = pending_pid q pid"
| "queue_op_ok (Q_requeue pid check) (q, s, e) = pending_pid q pid"
| "queue_op_ok (Q_clear if_id) (q, s, e) = valid_iface if_id"
| "queue_op_ok (Q_gc v) (q, s, e) = (unat v < 2)"
| "queue_op_ok (Q_lock v) (q, s, e) \<longleftrightarrow> v < 2 \<and> q_tx_locked_cnt q ! v + 1 \<noteq> 0"
| "queue_op_ok (Q_unlock v) (q, s, e) \<longleftrightarrow> v < 2 \<and> q_tx_locked_cnt q ! v \<noteq> 0 \<and>
     (q_overfull q ! v \<longrightarrow> q_tx_locked_cnt q ! v \<noteq> 1)"
| "queue_op_ok (Q_tick t) (q, s, e) = True"

fun queue_sys_inv :: "queue_sys \<Rightarrow> bool" where
  "queue_sys_inv (q, s, e) \<longleftrightarrow> queue_inv q \<and> stats_ok s \<and> gate_ok q e \<and> atomic_alloc e"

section \<open>Frames in custody\<close>

fun dtor_skbs :: "tx_event list \<Rightarrow> nat option list" where
  "dtor_skbs [] = []"
| "dtor_skbs (Skb_dtor skb tp # l) = skb # dtor_skbs l"
| "dtor_skbs (Wake_link_id_empty # l) = dtor_skbs l"
| "dtor_skbs (Stay_awake t # l) = dtor_skbs l"

definition queue_frames :: "atbm_queue \<Rightarrow> nat option multiset" where
  "queue_frames q = image_mset (\<lambda>i. i_skb (q_pool q ! i)) (mset (q_queue q @ q_pending q))"

fun queue_held :: "queue_sys \<Rightarrow> nat option multiset" where
  "queue_held (q, s, e) = queue_frames q"

fun queue_released :: "queue_sys \<Rightarrow> nat option multiset" where
  "queue_released (q, s, e) = mset (dtor_skbs (tx_log e))"

fun queue_accepted :: "queue_op \<Rightarrow> queue_sys \<Rightarrow> nat option multiset" where
  "queue_accepted (Q_put skb tp) (q, s, e) =
     (if unat (tp_link_id tp) < st_map_capacity s \<and> q_free_pool q \<noteq> [] then {#skb#} else {#})"
| "queue_accepted op s = {#}"

lemma dtor_skbs_append [simp]: "dtor_skbs (l @ l') = dtor_skbs l @ dtor_skbs l'"
proof (induction l)
  case (Cons x l)
  then show ?case by (cases x) simp_all
qed simp

lemma dtor_skbs_none:
  "set l \<subseteq> - range (case_prod Skb_dtor) \<Longrightarrow> dtor_skbs l = []"
proof (induction l)
  case (Cons x l)
  then show ?case by (cases x) (auto simp: image_iff)
qed simp

lemma env_step_dtor:
  assumes "env_step E e e'" and "E \<subseteq> - range (case_prod Skb_dtor)"
  shows "dtor_skbs (tx_log e') = dtor_skbs (tx_log e)" "atomic_alloc e' = atomic_alloc e"
  using assms dtor_skbs_none by (auto simp: env_step_def)

lemma dtor_skbs_post_gc:
  "dtor_skbs (tx_log (atbm_queue_post_gc gc e)) = dtor_skbs (tx_log e) @ map fst gc"
  "atomic_alloc (atbm_queue_post_gc gc e) = atomic_alloc e"
proof -
  have "dtor_skbs (map (\<lambda>(skb, tp). Skb_dtor skb tp) gc) = map fst gc"
    by (induction gc) auto
  then show "dtor_skbs (tx_log (atbm_queue_post_gc gc e)) = dtor_skbs (tx_log e) @ map fst gc"
    by (simp add: atbm_queue_post_gc_log)
qed (simp add: atbm_queue_post_gc_log)

lemma queue_frames_flags [simp]:
  "queue_frames (q\<lparr>q_overfull := ov\<rparr>) = queue_frames q"
  "queue_frames (q\<lparr>q_tx_locked_cnt := lc\<rparr>) = queue_frames q"
  "queue_frames (q\<lparr>q_gc := gct\<rparr>) = queue_frames q"
  by (simp_all add: queue_frames_def)

lemma queue_frames_same: "same_frames q q' \<Longrightarrow> queue_frames q' = queue_frames q"
  by (simp add: queue_frames_def same_frames_def)

lemma image_mset_update:
  "i \<notin> set xs \<Longrightarrow> image_mset (\<lambda>j. f (pool[i := x] ! j)) (mset xs) = image_mset (\<lambda>j. f (pool ! j)) (mset xs)"
  by (rule image_mset_cong) (auto simp: nth_update)

lemma image_mset_remove1:
  "i \<in> set xs \<Longrightarrow> image_mset f (mset xs) = add_mset (f i) (image_mset f (mset (remove1 i xs)))"
  by (simp add: image_mset_Diff)

section \<open>Each step\<close>

lemma put_frames:
  assumes "queue_inv q" "q_free_pool q = pos # free"
  shows "queue_frames (put_queue q e skb tp pos free) = add_mset skb (queue_frames q)"
proof -
  have so: "slots_ok q" using assms by (simp add: queue_inv_def core_inv_def)
  have pos: "pos < length (q_pool q)" "pos \<notin> set (q_queue q)" "pos \<notin> set (q_pending q)"
    using slots_free [OF so, of pos] assms(2) by auto
  then show ?thesis
    by (simp add: queue_frames_def put_queue_def Let_def image_mset_update)
qed

lemma get_frames:
  assumes "queue_inv q" "pos \<in> set (q_queue q)"
  shows "queue_frames (get_queue q e pos) = queue_frames q"
proof -
  have so: "slots_ok q" using assms by (simp add: queue_inv_def core_inv_def)
  have pos: "pos < length (q_pool q)" using slots_queue [OF so] assms(2) by auto
  have "i_skb (q_pool (get_queue q e pos) ! i) = i_skb (q_pool q ! i)" for i
    using pos by (simp add: get_queue_def Let_def nth_update)
  then show ?thesis
    using assms(2) by (simp add: queue_frames_def) (simp add: get_queue_def Let_def image_mset_remove1)
qed

lemma remove_frames:
  assumes "queue_inv q" "pos \<in> set (q_pending q)"
  shows "queue_frames q = add_mset (i_skb (q_pool q ! pos)) (queue_frames (remove_queue q pos))"
proof -
  have so: "slots_ok q" using assms by (simp add: queue_inv_def core_inv_def)
  have pos: "pos < length (q_pool q)" "pos \<notin> set (q_queue q)" "pos \<notin> set (remove1 pos (q_pending q))"
    using slots_pending [OF so assms(2)] slots_distinct [OF so] by auto
  then show ?thesis
    using assms(2)
    by (simp add: queue_frames_def remove_queue_def Let_def image_mset_update image_mset_remove1 [OF assms(2)]
        del: mset_remove1)
qed

lemma mark_frames [simp]: "queue_frames (mark_offchannel check q pos) = queue_frames q"
  by (simp add: queue_frames_def)

lemma requeue_frames:
  assumes "queue_inv q" "pos \<in> set (q_pending q)"
  shows "queue_frames (requeue_queue q pos) = queue_frames q"
proof -
  have "i_skb (q_pool (requeue_queue q pos) ! i) = i_skb (q_pool q ! i)" for i
    by (cases "pos < length (q_pool q)") (simp_all add: requeue_queue_def Let_def nth_update list_update_beyond)
  then show ?thesis
    using assms(2) by (simp add: queue_frames_def) (simp add: requeue_queue_def Let_def image_mset_remove1)
qed

lemma dropped_frames:
  assumes "q_queue q' = filter (\<lambda>i. \<not> D i) (q_queue q)" "q_pending q' = filter (\<lambda>i. \<not> E i) (q_pending q)"
    and "\<And>i. i \<in> set (q_queue q') \<union> set (q_pending q') \<Longrightarrow> q_pool q' ! i = q_pool q ! i"
  shows "queue_frames q = queue_frames q' +
     mset (map fst (map (gc_entry q) (filter E (q_pending q) @ filter D (q_queue q))))"
proof -
  have s: "mset xs = mset (filter (\<lambda>i. \<not> P i) xs) + mset (filter P xs)" for P and xs :: "nat list"
    using multiset_partition [of "mset xs" P] by (simp add: add.commute)
  have m: "image_mset f (mset xs) =
      image_mset f (mset (filter (\<lambda>i. \<not> P i) xs)) + image_mset f (mset (filter P xs))"
    for f :: "nat \<Rightarrow> nat option" and P xs
    unfolding s [of xs P] by (simp only: image_mset_union)
  have fr: "queue_frames q' = image_mset (\<lambda>i. i_skb (q_pool q ! i)) (mset (q_queue q' @ q_pending q'))"
    unfolding queue_frames_def using assms(3) by (intro image_mset_cong) auto
  have e: "mset (map fst (map (gc_entry q) xs)) = image_mset (\<lambda>i. i_skb (q_pool q ! i)) (mset xs)" for xs
    by (simp add: gc_entry_def comp_def)
  show ?thesis
    unfolding fr e assms(1,2) unfolding queue_frames_def mset_append image_mset_union
    by (subst m [of _ "q_queue q" D], subst m [of _ "q_pending q" E]) (simp add: ac_simps)
qed

lemma pending_pidE:
  assumes "pending_pid q pid"
  obtains pos where "pos \<in> set (q_pending q)" "pid = i_packetID (q_pool q ! pos)"
  using assms by (auto simp: pending_pid_def list_ex_iff)

abbreviation good_step :: "queue_op \<Rightarrow> queue_sys \<Rightarrow> queue_sys \<Rightarrow> bool" where
  "good_step x c c' \<equiv> queue_step x c = Some c' \<and> queue_sys_inv c' \<and>
     queue_held c' + queue_released c' = queue_held c + queue_released c + queue_accepted x c"

lemma good_stepI:
  assumes "queue_step x (q, s, e) = Some (q', s', e')" "queue_inv q'" "stats_ok s'" "gate_ok q' e'"
    "atomic_alloc e'" "queue_frames q' + mset (dtor_skbs (tx_log e')) =
        queue_frames q + mset (dtor_skbs (tx_log e)) + queue_accepted x (q, s, e)"
  shows "\<exists>c'. good_step x (q, s, e) c'"
  using assms by auto

lemma step_put:
  assumes "queue_sys_inv (q, s, e)" "put_pre skb tp q"
  shows "\<exists>c'. good_step (Q_put skb tp) (q, s, e) c'"
proof (cases "st_map_capacity s \<le> unat (tp_link_id tp) \<or> q_free_pool q = []")
  case True
  then consider "st_map_capacity s \<le> unat (tp_link_id tp)"
    | "unat (tp_link_id tp) < st_map_capacity s" "q_free_pool q = []" by linarith
  then show ?thesis
    using assms by cases (auto simp: atbm_queue_put_bad_link atbm_queue_put_full)
next
  case False
  then obtain pos free where f: "q_free_pool q = pos # free" by (cases "q_free_pool q") auto
  have l: "unat (tp_link_id tp) < st_map_capacity s" using False by simp
  have i: "queue_inv q" "stats_ok s" "gate_ok q e" "atomic_alloc e" using assms(1) by simp_all
  from atbm_queue_put_free [OF i(1-3) assms(2) l f] show ?thesis
    using i(2,4) l f by (auto simp: put_frames [OF i(1) f])
qed

lemma step_get:
  assumes "queue_sys_inv (q, s, e)"
  shows "\<exists>c'. good_step (Q_get if_id link_id_map) (q, s, e) c'"
proof (cases "List.find (get_matches q if_id link_id_map) (q_queue q)")
  case None
  with assms show ?thesis by (auto simp: atbm_queue_get_none)
next
  case (Some pos)
  have i: "queue_inv q" "stats_ok s" "gate_ok q e" "atomic_alloc e" using assms(1) by simp_all
  note g = atbm_queue_get_found [OF i(1,2) Some]
  have "core_inv (get_queue q e pos)" using i(1) g(2) by (intro core_inv_get) (simp_all add: queue_inv_def)
  then have "queue_inv (get_queue q e pos)" using i(1) by (simp add: queue_inv_def get_queue_shape)
  with i g show ?thesis by (auto simp: get_queue_shape get_frames)
qed

lemma step_remove:
  assumes "queue_sys_inv (q, s, e)" "pending_pid q pid"
  shows "\<exists>c'. good_step (Q_remove pid) (q, s, e) c'"
proof -
  have i: "queue_inv q" "stats_ok s" "gate_ok q e" "atomic_alloc e" using assms(1) by simp_all
  obtain pos where pos: "pos \<in> set (q_pending q)" "pid = i_packetID (q_pool q ! pos)"
    using pending_pidE [OF assms(2)] by blast
  show ?thesis
  proof (cases "current q pid")
    case False
    with atbm_queue_remove_stale [of q pos e] i pos assms show ?thesis by auto
  next
    case True
    from atbm_queue_remove_pending [OF i(1,3) pos(1)] True pos(2) show ?thesis
      using i remove_frames [OF i(1) pos(1)] by fastforce
  qed
qed

lemma step_requeue:
  assumes "queue_sys_inv (q, s, e)" "pending_pid q pid"
  shows "\<exists>c'. good_step (Q_requeue pid check) (q, s, e) c'"
proof -
  have i: "queue_inv q" "stats_ok s" "gate_ok q e" "atomic_alloc e" using assms(1) by simp_all
  obtain pos where pos: "pos \<in> set (q_pending q)" "pid = i_packetID (q_pool q ! pos)"
    using pending_pidE [OF assms(2)] by blast
  show ?thesis
  proof (cases "check \<and> unat (tp_offchannel_if_id (i_txpriv (q_pool q ! pos))) = ATBM_WIFI_GENERIC_IF_ID")
    case True
    obtain c' where c': "good_step (Q_remove pid) (q, s, e) c'" using step_remove [OF assms] by blast
    then obtain r q' e' where r: "atbm_queue_remove q e pid = Some (r, q', e')" "c' = (q', s, e')" by auto
    from atbm_queue_requeue_offchannel [OF i(1) pos(1) True r(1) [unfolded pos(2)], of s] c' r pos(2)
    show ?thesis by (intro exI [of _ c']) auto
  next
    case False
    have m: "queue_inv (mark_offchannel check q pos)" using i(1) by simp
    have "core_inv (requeue_queue (mark_offchannel check q pos) pos)"
      using m pos(1) by (intro core_inv_requeue) (simp_all add: queue_inv_def)
    then have "queue_inv (requeue_queue (mark_offchannel check q pos) pos)"
      using m by (simp add: queue_inv_def requeue_queue_shape)
    moreover have "queue_frames (requeue_queue (mark_offchannel check q pos) pos) = queue_frames q"
      using requeue_frames [OF m] pos(1) by simp
    ultimately show ?thesis
      using atbm_queue_requeue_pending [OF i(1,2) pos(1) False, of e] i m pos(2)
      by (cases "current q pid") (auto simp: requeue_queue_shape)
  qed
qed

lemma step_clear:
  assumes "queue_sys_inv (q, s, e)" "valid_iface if_id"
  shows "\<exists>c'. good_step (Q_clear if_id) (q, s, e) c'"
proof -
  have i: "queue_inv q" "stats_ok s" "gate_ok q e" "atomic_alloc e" using assms(1) by simp_all
  from atbm_queue_clear_eq [OF i assms(2)] obtain q' s' e' where c:
    "atbm_queue_clear q s e if_id = Some (q', s', atbm_queue_post_gc
       (map (gc_entry q) (filter (hit if_id q) (q_pending q) @ filter (hit if_id q) (q_queue q))) e')"
    "queue_inv q'" "stats_ok s'" "gate_ok q' e'" "q_queue q' = filter (\<lambda>i. \<not> hit if_id q i) (q_queue q)"
    "q_pending q' = filter (\<lambda>i. \<not> hit if_id q i) (q_pending q)"
    "\<forall>i \<in> set (q_queue q') \<union> set (q_pending q'). q_pool q' ! i = q_pool q ! i"
    "env_step {Wake_link_id_empty} e e'" by blast
  have d: "dtor_skbs (tx_log e') = dtor_skbs (tx_log e)" "atomic_alloc e' = atomic_alloc e"
    using env_step_dtor [OF c(8)] by (simp_all add: image_iff)
  have fr: "queue_frames q = queue_frames q' +
     mset (map fst (map (gc_entry q) (filter (hit if_id q) (q_pending q) @ filter (hit if_id q) (q_queue q))))"
    by (rule dropped_frames) (use c(5-7) in blast)+
  show ?thesis
    by (rule good_stepI [where q' = q' and s' = s' and e' = "atbm_queue_post_gc (map (gc_entry q)
          (filter (hit if_id q) (q_pending q) @ filter (hit if_id q) (q_queue q))) e'"])
       (use c(1-4) d i(4) fr in \<open>simp_all only: queue_step.simps dtor_skbs_post_gc gate_post_gc, simp_all\<close>)
qed

lemma step_gc:
  assumes "queue_sys_inv (q, s, e)" "unat v < 2"
  shows "\<exists>c'. good_step (Q_gc v) (q, s, e) c'"
proof -
  have i: "queue_inv q" "stats_ok s" "gate_ok q e" "atomic_alloc e" using assms(1) by simp_all
  let ?vs = "gc_victims e v q (q_queue q)"
  have so: "slots_ok q" using i(1) by (simp add: queue_inv_def core_inv_def)
  from atbm_queue_gc_eq [OF i assms(2)] obtain q' s' e' where c:
    "atbm_queue_gc q s e v = Some (q', s', atbm_queue_post_gc (map (gc_entry q) ?vs) e')"
    "same_frames (expire_all q ?vs) q'"
    "queue_inv q'" "stats_ok s'" "gate_ok q' e'" "env_step (- range (case_prod Skb_dtor)) e e'" by blast
  have d: "dtor_skbs (tx_log e') = dtor_skbs (tx_log e)" "atomic_alloc e' = atomic_alloc e"
    using env_step_dtor [OF c(6)] by auto
  have l: "q_queue (expire_all q ?vs) = filter (\<lambda>i. i \<notin> set ?vs) (q_queue q)"
    "q_pending (expire_all q ?vs) = filter (\<lambda>i. \<not> False) (q_pending q)"
    using slots_distinct [OF so] by (simp_all add: expire_all_lists)
  have p: "q_pool (expire_all q ?vs) ! i = q_pool q ! i"
    if "i \<in> set (q_queue (expire_all q ?vs)) \<union> set (q_pending (expire_all q ?vs))" for i
    using that gc_victims_subset [of e v q "q_queue q"] slots_pending [OF so, of i]
    by (intro expire_all_pool) (auto simp: l)
  have vs: "mset (filter (\<lambda>i. i \<in> set ?vs) (q_queue q)) = mset ?vs"
    using gc_victims_subset [of e v q "q_queue q"] gc_victims_distinct [of "q_queue q" e v q]
      slots_distinct [OF so]
    by (intro set_eq_iff_mset_eq_distinct [THEN iffD1]) (auto simp: set_eq_iff)
  have "queue_frames q = queue_frames (expire_all q ?vs) +
     mset (map fst (map (gc_entry q) (filter (\<lambda>i. False) (q_pending q) @
        filter (\<lambda>i. i \<in> set ?vs) (q_queue q))))"
    by (rule dropped_frames [OF l p])
  also have "\<dots> = queue_frames q' + mset (map fst (map (gc_entry q) ?vs))"
    using vs queue_frames_same [OF c(2)] by simp
  finally have fr: "queue_frames q = queue_frames q' + mset (map fst (map (gc_entry q) ?vs))" .
  show ?thesis
    by (rule good_stepI [where q' = q' and s' = s' and e' = "atbm_queue_post_gc (map (gc_entry q) ?vs) e'"])
       (use c(1,3-5) d i(4) fr in \<open>simp_all only: queue_step.simps dtor_skbs_post_gc gate_post_gc, simp_all\<close>)
qed

lemma step_locks:
  assumes "queue_sys_inv (q, s, e)" "x = Q_lock v \<or> x = Q_unlock v" "queue_op_ok x (q, s, e)"
  shows "\<exists>c'. good_step x (q, s, e) c'"
proof -
  have i: "queue_inv q" "stats_ok s" "gate_ok q e" "atomic_alloc e" using assms(1) by simp_all
  have sh: "shape_ok q" and l: "length (q_tx_locked_cnt q) = 2"
    using i(1) by (simp_all add: queue_inv_def shape_ok_def)
  from assms(2) show ?thesis
  proof
    assume x: "x = Q_lock v"
    with assms(3) have v: "v < 2" "q_tx_locked_cnt q ! v + 1 \<noteq> 0" by auto
    have "queue_inv (q\<lparr>q_tx_locked_cnt := (q_tx_locked_cnt q)[v := q_tx_locked_cnt q ! v + 1]\<rparr>)"
      using i(1) v by (auto simp: queue_inv_def shape_ok_def nth_update)
    with atbm_queue_lock_gate [OF i(3) l v] i show ?thesis by (auto simp: x atbm_queue_lock_def)
  next
    assume x: "x = Q_unlock v"
    with assms(3) have v: "v < 2" "q_tx_locked_cnt q ! v \<noteq> 0" "q_overfull q ! v \<longrightarrow> q_tx_locked_cnt q ! v \<noteq> 1"
      by auto
    have "queue_inv (q\<lparr>q_tx_locked_cnt := (q_tx_locked_cnt q)[v := q_tx_locked_cnt q ! v - 1]\<rparr>)"
      using i(1) v by (auto simp: queue_inv_def shape_ok_def nth_update)
    with atbm_queue_unlock_gate [OF i(3) l v(1,2)] i show ?thesis by (auto simp: x atbm_queue_unlock_def)
  qed
qed

lemma queue_good_step:
  assumes "queue_sys_inv c" "queue_op_ok x c"
  shows "\<exists>c'. good_step x c c'"
proof -
  obtain q s e where c: "c = (q, s, e)" by (cases c) auto
  show ?thesis
  proof (cases x)
    case (Q_tick t)
    with assms show ?thesis by (auto simp: c gate_ok_def)
  qed (use assms in \<open>auto simp only: c queue_op_ok.simps
        intro: step_put step_get step_remove step_requeue step_clear step_gc step_locks\<close>)
qed

interpretation txq: custody queue_sys_inv queue_op_ok queue_step queue_held queue_released queue_accepted
  by unfold_locales (use queue_good_step in fastforce)+

end
