(* ===== verification/Queue_Props.thy ===== *)
theory Queue_Props
  imports Queue_Runs
begin

text \<open>
  The properties of the transmit queue and of mac80211's software queues, each with a run of a
  small queue that meets its hypotheses.
\<close>

section \<open>A small queue\<close>

definition ex_mac :: mac_hw where
  "ex_mac = \<lparr>hw_queues = 8, queue_stop_reasons = replicate 16 0, mac_pending = replicate 16 [],
     interfaces = [\<lparr>hw_queue = [0, 1, 2, 3], cab_queue = 255, offchannel = False,
                    queues_locked = False, xoff = replicate 4 False\<rparr>],
     tx_pending_tasklet = False\<rparr>"

definition ex_env :: tx_env where
  "ex_env = \<lparr>jiffies = 100, num_present_cpus = 1, vif_queue_cap = [Some 3, None, None],
     atomic_alloc = True, mac = ex_mac, tx_log = []\<rparr>"

definition ex_tp :: "u8 \<Rightarrow> atbm_txpriv" where
  "ex_tp v = \<lparr>tp_link_id = 1, tp_raw_link_id = 1, tp_tid = 0, tp_rate_id = 0, tp_offset = 0,
     tp_if_id = v, tp_offchannel_if_id = 0\<rparr>"

definition ex_queue :: atbm_queue where
  "ex_queue = projr (atbm_queue_init 0 4 50 [True, True, True])"

definition ex_stats :: atbm_queue_stats where
  "ex_stats = projr (atbm_queue_stats_init WLAN_LINK_ID_MAX [True, True])"

definition ex_start :: queue_sys where
  "ex_start = (ex_queue, ex_stats, ex_env)"

lemma ex_init:
  "atbm_queue_init 0 4 50 [True, True, True] = Inr ex_queue"
  "atbm_queue_stats_init WLAN_LINK_ID_MAX [True, True] = Inr ex_stats"
  by (simp_all add: ex_queue_def atbm_queue_init_def ex_stats_def atbm_queue_stats_init_def ATBM_WIFI_MAX_VIFS_def)

text \<open>Two frames are queued for the first interface, one for the second; one is handed out.\<close>

definition ex_ops :: "queue_op list" where
  "ex_ops = [Q_put (Some 7) (ex_tp 0), Q_put (Some 8) (ex_tp 1), Q_put (Some 9) (ex_tp 0), Q_get 0 2]"

definition ex_run :: queue_sys where
  "ex_run = the (run_ops queue_step ex_ops ex_start)"

definition ex_pid :: u32 where
  "ex_pid = atbm_queue_make_packet_id 0 0 0 0 0 1"

section \<open>The initial state\<close>

text \<open>The driver's stop bit is clear in mac80211's queues of this access category.\<close>

definition fresh_env :: "u8 \<Rightarrow> tx_env \<Rightarrow> bool" where
  "fresh_env qid e \<longleftrightarrow> length (vif_queue_cap e) = 3 \<and> atomic_alloc e \<and> mac_wf (mac e) \<and>
     \<not> bit (queue_stop_reasons (mac e) ! unat qid) 0 \<and>
     \<not> bit (queue_stop_reasons (mac e) ! (unat qid + 4)) 0"

lemma queue_init_inv:
  assumes "atbm_queue_init qid cap ttl qa = Inr q" and "unat qid < 16" and "unat cap \<le> 256"
  shows "queue_inv q"
proof -
  have "0 < length xs \<Longrightarrow> True" for xs :: "nat list" by simp
  have n: "\<forall>i < 2. P (replicate 2 x ! i)" if "P x" for P :: "'b \<Rightarrow> bool" and x using that by simp
  show ?thesis
    using assms
    by (auto simp: atbm_queue_init_def queue_inv_def core_inv_def slots_ok_def totals_ok_def vif_counts_def
        link_counts_def items_ok_def shape_ok_def ATBM_WIFI_MAX_VIFS_def zero_item_def split: if_splits)
qed

lemma queue_start_inv:
  assumes "atbm_queue_stats_init WLAN_LINK_ID_MAX sa = Inr s" "atbm_queue_init qid cap ttl qa = Inr q"
    "unat qid < 16" "unat cap \<le> 256" "fresh_env qid e"
  shows "queue_sys_inv (q, s, e)"
proof -
  have st: "stats_ok s"
    using assms(1) by (auto simp: atbm_queue_stats_init_def stats_ok_def ATBM_WIFI_MAX_VIFS_def split: if_splits)
  have q: "q_queue_id q = qid" "q_tx_locked_cnt q = replicate 2 0"
    using assms(2) by (auto simp: atbm_queue_init_def ATBM_WIFI_MAX_VIFS_def split: if_splits)
  have v: "v = 0 \<or> v = 1" if "v < 2" for v :: nat using that by auto
  have "gate_ok q e"
    using assms(5) v by (fastforce simp: gate_ok_def fresh_env_def q)
  with queue_init_inv [OF assms(2-4)] st assms(5) show ?thesis by (simp add: fresh_env_def)
qed

lemma ex_start_inv: "queue_sys_inv ex_start"
proof -
  have "fresh_env 0 ex_env" by code_simp
  then show ?thesis unfolding ex_start_def by (intro queue_start_inv [OF ex_init(2,1)]) simp_all
qed

lemma ex_run_inv: "queue_sys_inv ex_run"
proof -
  have "run_ok queue_op_ok queue_step ex_ops ex_start" by code_simp
  from txq.run_total [OF ex_start_inv this] show ?thesis by (auto simp: ex_run_def)
qed

section \<open>Runs\<close>

text \<open>
  C1: From a freshly initialised queue and statistics, no sequence of operations, each called
  where the driver may call it, ever aborts (a \<open>BUG_ON\<close>, a null buffer, an access outside an
  array); and afterwards the lists partition the pool, every counter is the count it stands for,
  every queued frame names its slot, and the driver's stop bit is set exactly while a lock is held.
\<close>

theorem queue_run_safe:
  assumes "atbm_queue_stats_init WLAN_LINK_ID_MAX sa = Inr s" and "atbm_queue_init qid cap ttl qa = Inr q"
    and "unat qid < 16" and "unat cap \<le> 256" and "fresh_env qid e"
    and "run_ok queue_op_ok queue_step xs (q, s, e)"
  shows "\<exists>q' s' e'. run_ops queue_step xs (q, s, e) = Some (q', s', e') \<and>
     queue_inv q' \<and> stats_ok s' \<and> gate_ok q' e'"
  using txq.run_total [OF queue_start_inv [OF assms(1-5)] assms(6)] by auto

lemma queue_run_safe_witness:
  "\<exists>q' s' e'. run_ops queue_step ex_ops (ex_queue, ex_stats, ex_env) = Some (q', s', e') \<and>
     queue_inv q' \<and> stats_ok s' \<and> gate_ok q' e'"
proof (rule queue_run_safe)
  show "atbm_queue_init 0 4 50 [True, True, True] = Inr ex_queue"
    "atbm_queue_stats_init WLAN_LINK_ID_MAX [True, True] = Inr ex_stats" by (rule ex_init)+
  show "fresh_env 0 ex_env" "run_ok queue_op_ok queue_step ex_ops (ex_queue, ex_stats, ex_env)"
    by code_simp+
qed simp_all

text \<open>
  C2: No frame is lost and none is duplicated: over any run, the frames the queue holds together
  with the frames it destroyed are those it held or had destroyed before and those it accepted.
\<close>

theorem queue_conserves_frames:
  assumes "queue_sys_inv (q, s, e)" and "run_ok queue_op_ok queue_step xs (q, s, e)"
    and "run_ops queue_step xs (q, s, e) = Some (q', s', e')"
  shows "queue_frames q' + mset (dtor_skbs (tx_log e')) =
     queue_frames q + mset (dtor_skbs (tx_log e)) + accepted_run queue_accepted queue_step xs (q, s, e)"
  using txq.run_conserve [OF assms] by simp

lemma queue_conserves_frames_witness:
  "\<exists>q' s' e'. run_ops queue_step ex_ops ex_start = Some (q', s', e') \<and>
     queue_frames q' + mset (dtor_skbs (tx_log e')) = {#Some 7, Some 8, Some 9#}"
proof -
  have ok: "run_ok queue_op_ok queue_step ex_ops ex_start" by code_simp
  obtain q' s' e' where r: "run_ops queue_step ex_ops ex_start = Some (q', s', e')"
    using txq.run_total [OF ex_start_inv ok] by auto
  have "queue_frames q' + mset (dtor_skbs (tx_log e')) = queue_frames ex_queue +
      mset (dtor_skbs (tx_log ex_env)) + accepted_run queue_accepted queue_step ex_ops (ex_queue, ex_stats, ex_env)"
    using ex_start_inv ok r unfolding ex_start_def by (rule queue_conserves_frames)
  also have "queue_frames ex_queue = {#}"
    by (simp add: queue_frames_def ex_queue_def atbm_queue_init_def ATBM_WIFI_MAX_VIFS_def)
  also have "tx_log ex_env = []" by (simp add: ex_env_def)
  also have "accepted_run queue_accepted queue_step ex_ops (ex_queue, ex_stats, ex_env) =
      {#Some 7, Some 8, Some 9#}" by code_simp
  finally show ?thesis using r by auto
qed

section \<open>The abstract queue\<close>

lemma ex_run_parts:
  obtains q s e where "ex_run = (q, s, e)" "queue_inv q" "stats_ok s" "gate_ok q e"
  using ex_run_inv by (metis prod_cases3 queue_sys_inv.simps)

text \<open>
  C3: \<open>atbm_queue_put\<close> implements the abstract queue: while the link exists and a slot is free the
  frame is appended to the waiting frames and nothing else changes; a full pool is answered with
  \<open>ENOENT\<close>, a bad link with \<open>EINVAL\<close>, and then nothing changes at all.
\<close>

theorem queue_put_refines:
  assumes "queue_inv q" "stats_ok s" "gate_ok q e" "put_pre skb tp q"
  shows "\<exists>r q' s' e'. atbm_queue_put q s e skb tp = Some (r, q', s', e') \<and>
     (if st_map_capacity s \<le> unat (tp_link_id tp) then r = Inl EINVAL \<and> (q', s', e') = (q, s, e)
      else if q_free_pool q = [] then r = Inl ENOENT \<and> (q', s', e') = (q, s, e)
      else r = Inr () \<and> abs_of q' = abs_put (skb, tp) (abs_of q) \<and> tx_log e' = tx_log e)"
proof (cases "st_map_capacity s \<le> unat (tp_link_id tp) \<or> q_free_pool q = []")
  case True
  then show ?thesis
    by (cases "st_map_capacity s \<le> unat (tp_link_id tp)")
       (simp_all add: atbm_queue_put_bad_link atbm_queue_put_full)
next
  case False
  then obtain pos free where f: "q_free_pool q = pos # free" by (cases "q_free_pool q") auto
  have l: "unat (tp_link_id tp) < st_map_capacity s" using False by simp
  from atbm_queue_put_free [OF assms l f] obtain ov lc gc m where p:
    "atbm_queue_put q s e skb tp = Some (Inr (),
       (put_queue q e skb tp pos free)\<lparr>q_overfull := ov, q_tx_locked_cnt := lc, q_gc := gc\<rparr>,
       stats_inc (unat (tp_if_id tp)) (unat (tp_link_id tp)) s, e\<lparr>mac := m\<rparr>)" by blast
  have "queue_inv (put_queue q e skb tp pos free)"
    using assms(1,2,4) f l core_inv_put [of q pos free tp skb e]
    by (auto simp: queue_inv_def put_queue_shape put_pre_def txpriv_ok_def stats_ok_def)
  with p f l show ?thesis by (simp add: abs_put_queue [OF assms(1) f])
qed

lemma queue_put_refines_witness:
  "\<exists>q s e r q' s' e'. ex_run = (q, s, e) \<and> atbm_queue_put q s e (Some 5) (ex_tp 1) = Some (r, q', s', e') \<and>
     abs_of q' = abs_put (Some 5, ex_tp 1) (abs_of q)"
proof -
  obtain q s e where c: "ex_run = (q, s, e)" "queue_inv q" "stats_ok s" "gate_ok q e"
    by (rule ex_run_parts)
  have "put_pre (Some 5) (ex_tp 1) (fst ex_run) \<and>
     \<not> st_map_capacity (fst (snd ex_run)) \<le> unat (tp_link_id (ex_tp 1)) \<and> q_free_pool (fst ex_run) \<noteq> []"
    by code_simp
  then have "put_pre (Some 5) (ex_tp 1) q" "\<not> st_map_capacity s \<le> unat (tp_link_id (ex_tp 1))"
    "q_free_pool q \<noteq> []" by (simp_all add: c(1))
  with queue_put_refines [OF c(2-4) this(1)] c(1) show ?thesis by (metis (no_types, lifting))
qed

text \<open>
  C4: \<open>atbm_queue_get\<close> hands out the first waiting frame of the interface on one of the wanted
  links, under an identifier that no frame in flight has, and records the frame under it; it
  answers \<open>ENOENT\<close> exactly when no such frame waits. The frame handed out is the one queued.
\<close>

theorem queue_get_refines:
  assumes inv: "queue_inv q" "stats_ok s" "gate_ok q e"
  shows "\<exists>r q' s' e'. atbm_queue_get q s e if_id link_id_map = Some (r, q', s', e') \<and>
     (case List.find (frame_matches if_id link_id_map) (waiting (abs_of q)) of
        None \<Rightarrow> r = Inl ENOENT \<and> q' = q
      | Some (skb, tp) \<Rightarrow> \<exists>pid. r = Inr (the skb, pid, tp) \<and> skb \<noteq> None \<and>
          in_flight (abs_of q) pid = None \<and>
          abs_of q' = abs_get if_id link_id_map pid (skb, tp) (abs_of q))"
proof -
  have m: "frame_matches if_id link_id_map \<circ> gc_entry q = get_matches q if_id link_id_map"
    by (rule ext) (simp add: frame_matches_def get_matches_def gc_entry_def)
  have find_map: "List.find P (map f xs) = map_option f (List.find (P \<circ> f) xs)" for P and f :: "nat \<Rightarrow> tx_frame" and xs
    by (induction xs) auto
  have fd: "List.find (frame_matches if_id link_id_map) (waiting (abs_of q)) =
      map_option (gc_entry q) (List.find (get_matches q if_id link_id_map) (q_queue q))"
    by (simp add: abs_of_def find_map m)
  show ?thesis
  proof (cases "List.find (get_matches q if_id link_id_map) (q_queue q)")
    case None
    then show ?thesis unfolding fd by (simp add: atbm_queue_get_none)
  next
    case (Some pos)
    note g = atbm_queue_get_found [OF inv(1,2) Some]
    let ?pid = "i_packetID (get_item q e (q_pool q ! pos))"
    have "core_inv (get_queue q e pos)" using inv(1) g(2) by (intro core_inv_get) (simp_all add: queue_inv_def)
    then have inv': "queue_inv (get_queue q e pos)" using inv(1) by (simp add: queue_inv_def get_queue_shape)
    have skb: "i_skb (q_pool q ! pos) \<noteq> None"
      using live_item(3) [OF inv(1), of pos] g(2) by (simp add: item_ok_def)
    have "in_flight (abs_of q) ?pid = None"
    proof (rule ccontr)
      assume "in_flight (abs_of q) ?pid \<noteq> None"
      then obtain i where i: "i \<in> set (q_pending q)" "i_packetID (q_pool q ! i) = ?pid"
        using in_flight_Some [OF inv(1)] by fastforce
      have so: "slots_ok q" using inv(1) by (simp add: queue_inv_def core_inv_def)
      have pos: "pos < length (q_pool q)" "i \<noteq> pos" using slots_queue [OF so g(2)] i(1) by auto
      have "i = pos"
        by (rule live_packet_inject [OF inv'])
           (use i pos in \<open>simp_all add: get_queue_def Let_def\<close>)
      with pos show False by simp
    qed
    with g(1) Some skb abs_get_queue [OF inv(1) inv' Some] show ?thesis
      unfolding fd by (simp add: gc_entry_def)
  qed
qed

lemma queue_get_refines_witness:
  "\<exists>q s e r q' s' e'. ex_run = (q, s, e) \<and> atbm_queue_get q s e 0 2 = Some (r, q', s', e') \<and> r \<noteq> Inl ENOENT"
proof -
  obtain q s e where c: "ex_run = (q, s, e)" "queue_inv q" "stats_ok s" "gate_ok q e"
    by (rule ex_run_parts)
  have "List.find (frame_matches 0 2) (waiting (abs_of (fst ex_run))) = Some (Some 9, ex_tp 0)" by code_simp
  then have "List.find (frame_matches 0 2) (waiting (abs_of q)) = Some (Some 9, ex_tp 0)" by (simp add: c(1))
  with queue_get_refines [OF c(2-4), of 0 2] c(1) show ?thesis by fastforce
qed

text \<open>An identifier whose item generation is not the slot's is refused.\<close>

lemma remove_old_item_generation:
  assumes "queue_inv q" and "p_queue_id (atbm_queue_parse_id pid) = q_queue_id q"
    and "unat (p_item_id (atbm_queue_parse_id pid)) < length (q_pool q)" and "current q pid"
    and "i_generation (q_pool q ! unat (p_item_id (atbm_queue_parse_id pid))) \<noteq>
         p_item_generation (atbm_queue_parse_id pid)"
  shows "atbm_queue_remove q e pid = Some (Inl ENOENT, q, e)"
  using assms
  by (simp add: atbm_queue_remove_def check_packet_def current_def queue_inv_def core_inv_def slots_ok_def)

lemma in_flightE:
  assumes "queue_inv q" "in_flight (abs_of q) pid = Some f"
  obtains pos where "pos \<in> set (q_pending q)" "pid = i_packetID (q_pool q ! pos)" "current q pid"
    "f = gc_entry q pos"
  using assms(2) unfolding in_flight_Some [OF assms(1)] by blast

lemma queue_remove_flight:
  assumes inv: "queue_inv q" "gate_ok q e" and f: "in_flight (abs_of q) pid = Some (skb, tp)"
  shows "\<exists>q' e'. atbm_queue_remove q e pid = Some (Inr (), q', e') \<and>
     abs_of q' = abs_remove pid (abs_of q) \<and> tx_log e' = tx_log e @ [Skb_dtor skb tp] \<and>
     (\<forall>e2. atbm_queue_remove q' e2 pid = Some (Inl ENOENT, q', e2))"
proof -
  obtain pos where pos: "pos \<in> set (q_pending q)" "pid = i_packetID (q_pool q ! pos)" "current q pid"
    "(skb, tp) = gc_entry q pos"
    by (rule in_flightE [OF inv(1) f])
  have ent: "i_skb (q_pool q ! pos) = skb" "i_txpriv (q_pool q ! pos) = tp"
    using pos(4) by (simp_all add: gc_entry_def)
  have i: "pos \<in> set (q_queue q) \<union> set (q_pending q)" using pos(1) by simp
  from atbm_queue_remove_pending [OF inv pos(1)] pos(2,3) obtain ov lc m where r:
    "atbm_queue_remove q e pid = Some (Inr (), (remove_queue q pos)\<lparr>q_overfull := ov, q_tx_locked_cnt := lc\<rparr>,
       log_ev (Skb_dtor skb tp) (e\<lparr>mac := m\<rparr>))"
    "queue_inv ((remove_queue q pos)\<lparr>q_overfull := ov, q_tx_locked_cnt := lc\<rparr>)"
    unfolding ent by auto
  let ?q = "(remove_queue q pos)\<lparr>q_overfull := ov, q_tx_locked_cnt := lc\<rparr>"
  have "core_inv (remove_queue q pos)" using inv(1) pos(1) by (intro core_inv_remove) (simp_all add: queue_inv_def)
  then have inv': "queue_inv (remove_queue q pos)" using inv(1) by (simp add: queue_inv_def remove_queue_shape)
  have "atbm_queue_remove ?q e2 pid = Some (Inl ENOENT, ?q, e2)" for e2
  proof (rule remove_old_item_generation [OF r(2)])
    have l: "pos < length (q_pool q)" by (rule live_item(1) [OF inv(1) i])
    note p = live_parse [OF inv(1) i, folded pos(2)]
    show "p_queue_id (atbm_queue_parse_id pid) = q_queue_id ?q"
      using p by (simp add: remove_queue_def Let_def)
    show "unat (p_item_id (atbm_queue_parse_id pid)) < length (q_pool ?q)"
      using p l by (simp add: remove_queue_def Let_def)
    show "current ?q pid" using pos(3) by (simp add: current_def remove_queue_def Let_def)
    show "i_generation (q_pool ?q ! unat (p_item_id (atbm_queue_parse_id pid))) \<noteq>
        p_item_generation (atbm_queue_parse_id pid)"
      using p l by (simp add: remove_queue_def Let_def remove_item_def)
  qed
  with r abs_remove_queue [OF inv(1) inv' pos(1)] pos(2) show ?thesis by auto
qed

text \<open>
  C5: The confirmation of a frame in flight succeeds, takes the frame out of the map, destroys
  exactly that frame, and a second confirmation with the same identifier is refused with
  \<open>ENOENT\<close> and changes nothing: no frame is completed twice.
\<close>

theorem queue_remove_refines:
  assumes "queue_inv q" "gate_ok q e" and "in_flight (abs_of q) pid = Some (skb, tp)"
  shows "\<exists>q' e'. atbm_queue_remove q e pid = Some (Inr (), q', e') \<and>
     abs_of q' = abs_remove pid (abs_of q) \<and> tx_log e' = tx_log e @ [Skb_dtor skb tp] \<and>
     (\<forall>e2. atbm_queue_remove q' e2 pid = Some (Inl ENOENT, q', e2))"
  using assms by (rule queue_remove_flight)

lemma ex_run_flight:
  obtains q s e where "ex_run = (q, s, e)" "queue_inv q" "stats_ok s" "gate_ok q e" "atomic_alloc e"
    "in_flight (abs_of q) ex_pid = Some (Some 7, ex_tp 0)"
proof -
  obtain q s e where c: "ex_run = (q, s, e)" "queue_inv q" "stats_ok s" "gate_ok q e"
    by (rule ex_run_parts)
  have "in_flight (abs_of (fst ex_run)) ex_pid = Some (Some 7, ex_tp 0)" by code_simp
  then have "in_flight (abs_of q) ex_pid = Some (Some 7, ex_tp 0)" by (simp only: c(1) fst_conv)
  moreover have "atomic_alloc e" using ex_run_inv by (simp add: c(1))
  ultimately show ?thesis using that [of q s e] c by blast
qed

lemma queue_remove_refines_witness:
  "\<exists>q s e q' e'. ex_run = (q, s, e) \<and> atbm_queue_remove q e ex_pid = Some (Inr (), q', e') \<and>
     atbm_queue_remove q' e' ex_pid = Some (Inl ENOENT, q', e')"
proof -
  obtain q s e where c: "ex_run = (q, s, e)" "queue_inv q" "stats_ok s" "gate_ok q e" "atomic_alloc e"
    "in_flight (abs_of q) ex_pid = Some (Some 7, ex_tp 0)" by (rule ex_run_flight)
  from queue_remove_refines [OF c(2,4,6)] c(1) show ?thesis by blast
qed

text \<open>
  C6: A retransmission puts the frame back at the head of the waiting frames and makes its old
  identifier stale, so that a late confirmation is refused; a frame that is already bound to the
  generic interface is completed instead, when the caller asks for the check.
\<close>

theorem queue_requeue_refines:
  assumes inv: "queue_inv q" "stats_ok s" "gate_ok q e"
    and f: "in_flight (abs_of q) pid = Some (skb, tp)"
  shows "\<exists>q' s' e'. atbm_queue_requeue q s e pid check = Some (Inr (), q', s', e') \<and>
     (if check \<and> unat (tp_offchannel_if_id tp) = ATBM_WIFI_GENERIC_IF_ID
      then abs_of q' = abs_remove pid (abs_of q) \<and> tx_log e' = tx_log e @ [Skb_dtor skb tp]
      else abs_of q' = abs_requeue pid (skb, if check then tp
             else tp\<lparr>tp_offchannel_if_id := of_nat ATBM_WIFI_GENERIC_IF_ID\<rparr>) (abs_of q) \<and> e' = e) \<and>
     (\<forall>e2. atbm_queue_remove q' e2 pid = Some (Inl ENOENT, q', e2))"
proof -
  obtain pos where pos: "pos \<in> set (q_pending q)" "pid = i_packetID (q_pool q ! pos)" "current q pid"
    "(skb, tp) = gc_entry q pos"
    by (rule in_flightE [OF inv(1) f])
  have ent: "i_skb (q_pool q ! pos) = skb" "i_txpriv (q_pool q ! pos) = tp"
    using pos(4) by (simp_all add: gc_entry_def)
  have i: "pos \<in> set (q_queue q) \<union> set (q_pending q)" using pos(1) by simp
  show ?thesis
  proof (cases "check \<and> unat (tp_offchannel_if_id tp) = ATBM_WIFI_GENERIC_IF_ID")
    case True
    from queue_remove_flight [OF inv(1,3) f] obtain q' e' where
      r: "atbm_queue_remove q e pid = Some (Inr (), q', e')" "abs_of q' = abs_remove pid (abs_of q)"
        "tx_log e' = tx_log e @ [Skb_dtor skb tp]"
        "\<forall>e2. atbm_queue_remove q' e2 pid = Some (Inl ENOENT, q', e2)" by blast
    have "atbm_queue_requeue q s e pid check = Some (Inr (), q', s, e')"
      unfolding pos(2) by (rule atbm_queue_requeue_offchannel [OF inv(1) pos(1)])
        (use True ent r(1) pos(2) in simp_all)
    with True r show ?thesis by auto
  next
    case False
    let ?m = "mark_offchannel check q pos"
    have m: "queue_inv ?m" using inv(1) by simp
    have "core_inv (requeue_queue ?m pos)"
      using m pos(1) by (intro core_inv_requeue) (simp_all add: queue_inv_def)
    then have inv': "queue_inv (requeue_queue ?m pos)"
      using m by (simp add: queue_inv_def requeue_queue_shape)
    have l: "pos < length (q_pool q)" by (rule live_item(1) [OF inv(1) i])
    have r: "atbm_queue_requeue q s e pid check = Some (Inr (), requeue_queue ?m pos,
        stats_inc (vif_of (q_pool q ! pos)) (link_of (q_pool q ! pos)) s, e)"
      using atbm_queue_requeue_pending [OF inv(1,2) pos(1), of check e] False ent pos(2,3) by simp
    have new: "gc_entry ?m pos = (skb, if check then tp
        else tp\<lparr>tp_offchannel_if_id := of_nat ATBM_WIFI_GENERIC_IF_ID\<rparr>)"
      using l by (auto simp: gc_entry_def mark_offchannel_def ent)
    have oth: "gc_entry ?m j = gc_entry q j" if "j \<noteq> pos" for j
      using that by (simp add: gc_entry_def mark_offchannel_def)
    have so: "slots_ok q" using inv(1) by (simp add: queue_inv_def core_inv_def)
    have same: "abs_requeue pid g (abs_of ?m) = abs_requeue pid g (abs_of q)" for g
    proof -
      have "map (gc_entry ?m) (q_queue q) = map (gc_entry q) (q_queue q)"
        using slots_pending [OF so pos(1)] by (intro map_entry_cong oth) auto
      moreover have "((in_flight (abs_of ?m))(pid := None)) p = ((in_flight (abs_of q))(pid := None)) p" for p
      proof (cases "p = pid")
        case False
        then have "find_packet q p \<noteq> Some pos" using find_packet_Some [OF inv(1)] pos(2) by auto
        moreover have "find_packet ?m p = find_packet q p" by (simp add: find_packet_def)
        ultimately show ?thesis
          using False by (cases "find_packet q p") (auto simp: abs_of_def oth)
      qed simp
      ultimately show ?thesis by (simp add: abs_requeue_def abs_of_def fun_eq_iff)
    qed
    have a: "abs_of (requeue_queue ?m pos) = abs_requeue pid (skb, if check then tp
        else tp\<lparr>tp_offchannel_if_id := of_nat ATBM_WIFI_GENERIC_IF_ID\<rparr>) (abs_of q)"
      using abs_requeue_queue [OF m inv'] pos(1,2) same new by simp
    have "atbm_queue_remove (requeue_queue ?m pos) e2 pid = Some (Inl ENOENT, requeue_queue ?m pos, e2)" for e2
    proof (rule remove_old_item_generation [OF inv'])
      note p = live_parse [OF inv(1) i, folded pos(2)]
      have fr: "q_queue_id ?m = q_queue_id q" "length (q_pool ?m) = length (q_pool q)"
        by (simp_all add: mark_offchannel_def)
      show "p_queue_id (atbm_queue_parse_id pid) = q_queue_id (requeue_queue ?m pos)"
        using p fr by (simp add: requeue_queue_def Let_def)
      show "unat (p_item_id (atbm_queue_parse_id pid)) < length (q_pool (requeue_queue ?m pos))"
        using p l by (simp add: requeue_queue_def Let_def)
      show "current (requeue_queue ?m pos) pid" using pos(3) by (simp add: current_def requeue_queue_def Let_def)
      show "i_generation (q_pool (requeue_queue ?m pos) ! unat (p_item_id (atbm_queue_parse_id pid))) \<noteq>
          p_item_generation (atbm_queue_parse_id pid)"
        using p l pos(2) by (simp add: requeue_queue_def requeue_item_def Let_def)
    qed
    with r a False show ?thesis by auto
  qed
qed

lemma queue_requeue_refines_witness:
  "\<exists>q s e q' s' e'. ex_run = (q, s, e) \<and> atbm_queue_requeue q s e ex_pid True = Some (Inr (), q', s', e') \<and>
     abs_of q' = abs_requeue ex_pid (Some 7, ex_tp 0) (abs_of q) \<and>
     atbm_queue_remove q' e' ex_pid = Some (Inl ENOENT, q', e')"
proof -
  obtain q s e where c: "ex_run = (q, s, e)" "queue_inv q" "stats_ok s" "gate_ok q e" "atomic_alloc e"
    "in_flight (abs_of q) ex_pid = Some (Some 7, ex_tp 0)" by (rule ex_run_flight)
  have "unat (tp_offchannel_if_id (ex_tp 0)) \<noteq> ATBM_WIFI_GENERIC_IF_ID" by code_simp
  with queue_requeue_refines [OF c(2-4,6), of True] obtain q' s' e' where
    "atbm_queue_requeue q s e ex_pid True = Some (Inr (), q', s', e')"
    "abs_of q' = abs_requeue ex_pid (Some 7, ex_tp 0) (abs_of q)"
    "atbm_queue_remove q' e' ex_pid = Some (Inl ENOENT, q', e')" by auto
  with c(1) show ?thesis by blast
qed

section \<open>Collection and clearing\<close>

lemma next_generation: "(g :: u8) \<noteq> (g + 1) AND 0xf"
proof
  assume "g = (g + 1) AND 0xf"
  then have "bit g 0 = bit ((g + 1) AND 0xf) 0" by (rule arg_cong [where f = "\<lambda>w. bit w 0"])
  then show False by (simp only: bit_and_iff) (simp add: bit_0)
qed

text \<open>
  A garbage collection for one interface drops exactly the frames of that interface that stand
  ahead of its first frame within its time to live, destroys each of them once, and leaves the
  other waiting frames in order and the frames in flight untouched.
\<close>

theorem queue_gc_drops_expired:
  assumes "queue_inv q" "stats_ok s" "gate_ok q e" "atomic_alloc e" "unat clr < 2"
  shows "\<exists>q' s' e'. atbm_queue_gc q s e clr = Some (q', s', e') \<and>
     q_queue q' = filter (\<lambda>i. i \<notin> set (gc_victims e clr q (q_queue q))) (q_queue q) \<and>
     q_pending q' = q_pending q \<and>
     dtor_skbs (tx_log e') = dtor_skbs (tx_log e) @
       map (\<lambda>i. i_skb (q_pool q ! i)) (gc_victims e clr q (q_queue q))"
proof -
  have so: "slots_ok q" using assms(1) by (simp add: queue_inv_def core_inv_def)
  from atbm_queue_gc_eq [OF assms] obtain q' s' e' where c:
    "atbm_queue_gc q s e clr = Some (q', s', atbm_queue_post_gc
       (map (gc_entry q) (gc_victims e clr q (q_queue q))) e')"
    "same_frames (expire_all q (gc_victims e clr q (q_queue q))) q'"
    "env_step (- range (case_prod Skb_dtor)) e e'" by blast
  have d: "dtor_skbs (tx_log e') = dtor_skbs (tx_log e)" using env_step_dtor [OF c(3)] by auto
  show ?thesis
    using c(1,2) d slots_distinct [OF so]
    by (simp add: same_frames_def expire_all_lists dtor_skbs_post_gc comp_def gc_entry_def)
qed

lemma queue_gc_drops_expired_witness:
  "\<exists>q s e q' s' e'. ex_run = (q, s, e) \<and> atbm_queue_gc q s (e\<lparr>jiffies := 200\<rparr>) 0 = Some (q', s', e') \<and>
     dtor_skbs (tx_log e') = [Some 9]"
proof -
  obtain q s e where c: "ex_run = (q, s, e)" "queue_inv q" "stats_ok s" "gate_ok q e" "atomic_alloc e"
    "in_flight (abs_of q) ex_pid = Some (Some 7, ex_tp 0)" by (rule ex_run_flight)
  let ?e = "e\<lparr>jiffies := 200\<rparr>"
  have g: "gate_ok q ?e" "atomic_alloc ?e" using c(4,5) by (simp_all add: gate_ok_def)
  have "dtor_skbs (tx_log (snd (snd ex_run))) = [] \<and> map (\<lambda>i. i_skb (q_pool (fst ex_run) ! i))
      (gc_victims ((snd (snd ex_run))\<lparr>jiffies := 200\<rparr>) 0 (fst ex_run) (q_queue (fst ex_run))) = [Some 9]"
    by code_simp
  then have "dtor_skbs (tx_log ?e) = []"
    "map (\<lambda>i. i_skb (q_pool q ! i)) (gc_victims ?e 0 q (q_queue q)) = [Some 9]" by (simp_all add: c(1))
  with queue_gc_drops_expired [OF c(2,3) g, of 0] obtain q' s' e' where
    "atbm_queue_gc q s ?e 0 = Some (q', s', e')" "dtor_skbs (tx_log e') = [Some 9]" by auto
  with c(1) show ?thesis by blast
qed

text \<open>
  C8: Clearing one interface, or all of them, destroys exactly the waiting and pending frames of
  those interfaces, each once, and keeps the order of the others; afterwards the invariant of C1
  holds again, although the loops break it in between.
\<close>

theorem queue_clear_drops_iface:
  assumes "queue_inv q" "stats_ok s" "gate_ok q e" "atomic_alloc e" "valid_iface if_id"
  shows "\<exists>q' s' e'. atbm_queue_clear q s e if_id = Some (q', s', e') \<and> queue_inv q' \<and>
     q_queue q' = filter (\<lambda>i. \<not> of_iface if_id (q_pool q ! i)) (q_queue q) \<and>
     q_pending q' = filter (\<lambda>i. \<not> of_iface if_id (q_pool q ! i)) (q_pending q) \<and>
     dtor_skbs (tx_log e') = dtor_skbs (tx_log e) @
       map (\<lambda>i. i_skb (q_pool q ! i)) (filter (\<lambda>i. of_iface if_id (q_pool q ! i)) (q_pending q @ q_queue q))"
proof -
  from atbm_queue_clear_eq [OF assms] obtain q' s' e' where c:
    "atbm_queue_clear q s e if_id = Some (q', s', atbm_queue_post_gc
       (map (gc_entry q) (filter (hit if_id q) (q_pending q) @ filter (hit if_id q) (q_queue q))) e')"
    "queue_inv q'" "q_queue q' = filter (\<lambda>i. \<not> hit if_id q i) (q_queue q)"
    "q_pending q' = filter (\<lambda>i. \<not> hit if_id q i) (q_pending q)" "env_step {Wake_link_id_empty} e e'" by blast
  have d: "dtor_skbs (tx_log e') = dtor_skbs (tx_log e)"
    using env_step_dtor(1) [OF c(5)] by (simp add: image_iff)
  show ?thesis
    using c(1-4) d by (simp add: dtor_skbs_post_gc comp_def gc_entry_def)
qed

lemma queue_clear_drops_iface_witness:
  "\<exists>q s e q' s' e'. ex_run = (q, s, e) \<and> atbm_queue_clear q s e 0 = Some (q', s', e') \<and>
     queue_inv q' \<and> dtor_skbs (tx_log e') = [Some 7, Some 9]"
proof -
  obtain q s e where c: "ex_run = (q, s, e)" "queue_inv q" "stats_ok s" "gate_ok q e" "atomic_alloc e"
    "in_flight (abs_of q) ex_pid = Some (Some 7, ex_tp 0)" by (rule ex_run_flight)
  have "dtor_skbs (tx_log (snd (snd ex_run))) @ map (\<lambda>i. i_skb (q_pool (fst ex_run) ! i))
      (filter (\<lambda>i. of_iface 0 (q_pool (fst ex_run) ! i)) (q_pending (fst ex_run) @ q_queue (fst ex_run))) =
      [Some 7, Some 9]" by code_simp
  then have "dtor_skbs (tx_log e) @ map (\<lambda>i. i_skb (q_pool q ! i))
      (filter (\<lambda>i. of_iface 0 (q_pool q ! i)) (q_pending q @ q_queue q)) = [Some 7, Some 9]"
    by (simp only: c(1) fst_conv snd_conv)
  with queue_clear_drops_iface [OF c(2-5), of 0] obtain q' s' e' where
    "atbm_queue_clear q s e 0 = Some (q', s', e')" "queue_inv q'" "dtor_skbs (tx_log e') = [Some 7, Some 9]"
    by (auto simp: valid_iface_def)
  with c(1) show ?thesis by blast
qed

text \<open>
  C9: Clearing one interface makes the identifiers of the frames that the firmware still holds for
  the other interface stale: their confirmation is refused with \<open>ENOENT\<close>, and the frame stays
  pending with its buffer.
\<close>

theorem queue_clear_strands_other_iface:
  assumes "queue_inv q" "stats_ok s" "gate_ok q e" "atomic_alloc e" "valid_iface if_id"
    and "i \<in> set (q_pending q)" and "\<not> of_iface if_id (q_pool q ! i)"
    and "current q (i_packetID (q_pool q ! i))"
  shows "\<exists>q' s' e'. atbm_queue_clear q s e if_id = Some (q', s', e') \<and> i \<in> set (q_pending q') \<and>
     q_pool q' ! i = q_pool q ! i \<and>
     (\<forall>e2. atbm_queue_remove q' e2 (i_packetID (q_pool q ! i)) = Some (Inl ENOENT, q', e2))"
proof -
  from atbm_queue_clear_eq [OF assms(1-5)] obtain q' s' e' where c:
    "atbm_queue_clear q s e if_id = Some (q', s', e')"
    "queue_inv q'" "q_pending q' = filter (\<lambda>i. \<not> hit if_id q i) (q_pending q)"
    "q_generation q' = (q_generation q + 1) AND 0xf"
    "\<forall>i \<in> set (q_queue q') \<union> set (q_pending q'). q_pool q' ! i = q_pool q ! i" by blast
  have i: "i \<in> set (q_pending q')" "q_pool q' ! i = q_pool q ! i" using assms(6,7) c(3,5) by auto
  have "\<not> current q' (i_packetID (q_pool q' ! i))"
    using assms(8) c(4) unfolding i(2) current_def by (simp add: next_generation)
  with atbm_queue_remove_stale [OF c(2), of i] i c(1) show ?thesis by auto
qed

lemma queue_clear_strands_other_iface_witness:
  "\<exists>q s e q' s' e'. ex_run = (q, s, e) \<and> atbm_queue_clear q s e 1 = Some (q', s', e') \<and>
     0 \<in> set (q_pending q') \<and> atbm_queue_remove q' e' ex_pid = Some (Inl ENOENT, q', e')"
proof -
  obtain q s e where c: "ex_run = (q, s, e)" "queue_inv q" "stats_ok s" "gate_ok q e" "atomic_alloc e"
    "in_flight (abs_of q) ex_pid = Some (Some 7, ex_tp 0)" by (rule ex_run_flight)
  have "0 \<in> set (q_pending (fst ex_run)) \<and> \<not> of_iface 1 (q_pool (fst ex_run) ! 0) \<and>
      i_packetID (q_pool (fst ex_run) ! 0) = ex_pid \<and> current (fst ex_run) ex_pid" by code_simp
  then have "0 \<in> set (q_pending q)" "\<not> of_iface 1 (q_pool q ! 0)" "i_packetID (q_pool q ! 0) = ex_pid"
    "current q ex_pid" unfolding c(1) fst_conv by blast+
  with queue_clear_strands_other_iface [OF c(2-5), of 1 0] obtain q' s' e' where
    "atbm_queue_clear q s e 1 = Some (q', s', e')" "0 \<in> set (q_pending q')"
    "atbm_queue_remove q' e' ex_pid = Some (Inl ENOENT, q', e')"
    by (auto simp: valid_iface_def)
  with c(1) show ?thesis by blast
qed

section \<open>Throttling the network stack\<close>

lemma locked_stopped:
  assumes "queue_inv q" "gate_ok q e" "v < 2" "q_tx_locked_cnt q ! v \<noteq> 0"
  shows "ieee80211_queue_stopped (unat (q_queue_id q) + 4 * v) (mac e)"
proof (cases "unat (q_queue_id q) + 4 * v < hw_queues (mac e)")
  case True
  with assms have "bit (queue_stop_reasons (mac e) ! (unat (q_queue_id q) + 4 * v)) 0"
    by (simp add: gate_ok_def)
  then show ?thesis by (auto simp: ieee80211_queue_stopped_def)
qed (simp add: ieee80211_queue_stopped_def)

text \<open>
  Back-pressure: when the frame that \<open>put\<close> accepts brings an attached interface within one
  frame per CPU of its share (\<open>queue_cap\<close>), the interface is marked overfull and mac80211's queue
  for it is stopped when \<open>put\<close> returns.
\<close>

theorem queue_put_throttles:
  assumes "queue_inv q" "stats_ok s" "gate_ok q e" "put_pre skb tp q"
    and "unat (tp_link_id tp) < st_map_capacity s" "q_free_pool q \<noteq> []"
    and "vif_queue_cap e ! unat (tp_if_id tp) = Some cap"
    and "ucast cap - num_present_cpus e \<le> q_num_queued_vif q ! unat (tp_if_id tp) + 1"
  shows "\<exists>q' s' e'. atbm_queue_put q s e skb tp = Some (Inr (), q', s', e') \<and>
     q_overfull q' ! unat (tp_if_id tp) \<and>
     ieee80211_queue_stopped (unat (q_queue_id q) + 4 * unat (tp_if_id tp)) (mac e')"
proof -
  let ?v = "unat (tp_if_id tp)"
  obtain pos free where f: "q_free_pool q = pos # free" using assms(6) by (cases "q_free_pool q") auto
  let ?p = "put_queue q e skb tp pos free"
  from atbm_queue_put_free [OF assms(1-5) f] obtain ov lc gc m where p:
    "atbm_queue_put q s e skb tp = Some (Inr (), ?p\<lparr>q_overfull := ov, q_tx_locked_cnt := lc, q_gc := gc\<rparr>,
       stats_inc ?v (unat (tp_link_id tp)) s, e\<lparr>mac := m\<rparr>)"
    "queue_inv (?p\<lparr>q_overfull := ov, q_tx_locked_cnt := lc, q_gc := gc\<rparr>)"
    "gate_ok (?p\<lparr>q_overfull := ov, q_tx_locked_cnt := lc, q_gc := gc\<rparr>) (e\<lparr>mac := m\<rparr>)"
    "put_overflow e ?v ?p = Some True \<longrightarrow> ov ! ?v" by blast
  have v: "?v < 2" using assms(4) by (simp add: put_pre_def)
  have len: "?v < length (q_num_queued_vif q)" "?v < length (vif_queue_cap e)"
    using assms(1,3) v by (simp_all add: queue_inv_def core_inv_def vif_counts_def gate_ok_def)
  have n: "q_num_queued_vif ?p = (q_num_queued_vif q)[?v := q_num_queued_vif q ! ?v + 1]"
    by (simp add: put_queue_def Let_def)
  have "put_overflow e ?v ?p = Some True"
    using len assms(7,8) by (simp add: put_overflow_def n)
  with p(4) have ov: "ov ! ?v" by simp
  with p(2) v have "lc ! ?v \<noteq> 0" by (simp add: queue_inv_def shape_ok_def)
  with locked_stopped [OF p(2,3) v] have
    "ieee80211_queue_stopped (unat (q_queue_id q) + 4 * ?v) (mac (e\<lparr>mac := m\<rparr>))"
    by (simp add: put_queue_def Let_def)
  with p(1) ov show ?thesis by simp
qed

lemma queue_put_throttles_witness:
  "\<exists>q s e q' s' e'. ex_run = (q, s, e) \<and> atbm_queue_put q s e (Some 5) (ex_tp 0) = Some (Inr (), q', s', e') \<and>
     q_overfull q' ! 0"
proof -
  obtain q s e where c: "ex_run = (q, s, e)" "queue_inv q" "stats_ok s" "gate_ok q e"
    by (rule ex_run_parts)
  have "put_pre (Some 5) (ex_tp 0) (fst ex_run) \<and>
     unat (tp_link_id (ex_tp 0)) < st_map_capacity (fst (snd ex_run)) \<and> q_free_pool (fst ex_run) \<noteq> [] \<and>
     vif_queue_cap (snd (snd ex_run)) ! unat (tp_if_id (ex_tp 0)) = Some 3 \<and>
     (ucast (3 :: u16) :: u32) - num_present_cpus (snd (snd ex_run)) \<le>
        q_num_queued_vif (fst ex_run) ! unat (tp_if_id (ex_tp 0)) + 1" by code_simp
  then have "put_pre (Some 5) (ex_tp 0) q" "unat (tp_link_id (ex_tp 0)) < st_map_capacity s"
    "q_free_pool q \<noteq> []" "vif_queue_cap e ! unat (tp_if_id (ex_tp 0)) = Some 3"
    "(ucast (3 :: u16) :: u32) - num_present_cpus e \<le> q_num_queued_vif q ! unat (tp_if_id (ex_tp 0)) + 1"
    unfolding c(1) fst_conv snd_conv by blast+
  from queue_put_throttles [OF c(2-4) this] obtain q' s' e' where
    "atbm_queue_put q s e (Some 5) (ex_tp 0) = Some (Inr (), q', s', e')"
    "q_overfull q' ! unat (tp_if_id (ex_tp 0))" by blast
  moreover have "unat (tp_if_id (ex_tp 0)) = 0" by (simp add: ex_tp_def)
  ultimately show ?thesis using c(1) by (metis (no_types, lifting))
qed

text \<open>
  Release: when a confirmation brings an overfull interface down to two thirds of its share
  and the throttle was the only lock, the mark is cleared, the lock count returns to zero and
  the driver's stop bit in mac80211's queue is clear again.
\<close>

theorem queue_remove_unthrottles:
  assumes "queue_inv q" "gate_ok q e" "pos \<in> set (q_pending q)" "current q (i_packetID (q_pool q ! pos))"
    and "vif_queue_cap e ! vif_of (q_pool q ! pos) = Some cap" "q_overfull q ! vif_of (q_pool q ! pos)"
    and "q_tx_locked_cnt q ! vif_of (q_pool q ! pos) = 1"
    and "q_num_queued_vif q ! vif_of (q_pool q ! pos) - 1 \<le> ucast cap * 2 div 3"
  shows "\<exists>q' e'. atbm_queue_remove q e (i_packetID (q_pool q ! pos)) = Some (Inr (), q', e') \<and>
     \<not> q_overfull q' ! vif_of (q_pool q ! pos) \<and> q_tx_locked_cnt q' ! vif_of (q_pool q ! pos) = 0 \<and>
     (unat (q_queue_id q) + 4 * vif_of (q_pool q ! pos) < hw_queues (mac e') \<longrightarrow>
       \<not> bit (queue_stop_reasons (mac e') ! (unat (q_queue_id q) + 4 * vif_of (q_pool q ! pos))) 0)"
proof -
  let ?v = "vif_of (q_pool q ! pos)"
  have v: "?v < 2" using live_item(4) [OF assms(1), of pos] assms(3) by (simp add: txpriv_ok_def)
  from atbm_queue_remove_pending [OF assms(1-4)] obtain ov lc m where r:
    "atbm_queue_remove q e (i_packetID (q_pool q ! pos)) = Some (Inr (),
       (remove_queue q pos)\<lparr>q_overfull := ov, q_tx_locked_cnt := lc\<rparr>,
       log_ev (Skb_dtor (i_skb (q_pool q ! pos)) (i_txpriv (q_pool q ! pos))) (e\<lparr>mac := m\<rparr>))"
    "gate_ok ((remove_queue q pos)\<lparr>q_overfull := ov, q_tx_locked_cnt := lc\<rparr>)
       (log_ev (Skb_dtor (i_skb (q_pool q ! pos)) (i_txpriv (q_pool q ! pos))) (e\<lparr>mac := m\<rparr>))"
    "\<forall>cap. wake_capacity e ?v q = Some cap \<and> q_overfull q ! ?v \<and> q_num_queued_vif q ! ?v - 1 \<le> cap \<longrightarrow>
        \<not> ov ! ?v \<and> lc ! ?v = q_tx_locked_cnt q ! ?v - 1" by blast
  have "wake_capacity e ?v q = Some (ucast cap * 2 div 3)"
    using assms(2,5) v by (simp add: wake_capacity_def gate_ok_def)
  with r(3) assms(6-8) have w: "\<not> ov ! ?v" "lc ! ?v = 0" by auto
  have "q_queue_id (remove_queue q pos) = q_queue_id q" by (simp add: remove_queue_def Let_def)
  with r(2) v w(2) have "unat (q_queue_id q) + 4 * ?v < hw_queues m \<longrightarrow>
      \<not> bit (queue_stop_reasons m ! (unat (q_queue_id q) + 4 * ?v)) 0"
    by (simp add: gate_ok_def)
  with r(1) w show ?thesis by simp
qed

lemma queue_remove_unthrottles_witness:
  "\<exists>q s e q' e'. ex_run = (q, s, e) \<and> q_overfull q ! 0 \<and>
     atbm_queue_remove q e ex_pid = Some (Inr (), q', e') \<and> \<not> q_overfull q' ! 0"
proof -
  obtain q s e where c: "ex_run = (q, s, e)" "queue_inv q" "stats_ok s" "gate_ok q e"
    by (rule ex_run_parts)
  have "0 \<in> set (q_pending (fst ex_run)) \<and> current (fst ex_run) (i_packetID (q_pool (fst ex_run) ! 0)) \<and>
     i_packetID (q_pool (fst ex_run) ! 0) = ex_pid \<and> vif_of (q_pool (fst ex_run) ! 0) = 0 \<and>
     vif_queue_cap (snd (snd ex_run)) ! 0 = Some 3 \<and> q_overfull (fst ex_run) ! 0 \<and>
     q_tx_locked_cnt (fst ex_run) ! 0 = 1 \<and>
     q_num_queued_vif (fst ex_run) ! 0 - 1 \<le> ucast (3 :: u16) * 2 div 3" by code_simp
  then have p: "0 \<in> set (q_pending q)" "current q (i_packetID (q_pool q ! 0))"
     "i_packetID (q_pool q ! 0) = ex_pid" "vif_of (q_pool q ! 0) = 0"
     "vif_queue_cap e ! 0 = Some 3" "q_overfull q ! 0" "q_tx_locked_cnt q ! 0 = 1"
     "q_num_queued_vif q ! 0 - 1 \<le> ucast (3 :: u16) * 2 div 3"
    unfolding c(1) fst_conv snd_conv by blast+
  from queue_remove_unthrottles [OF c(2,4) p(1,2), of 3] p obtain q' e' where
    "atbm_queue_remove q e ex_pid = Some (Inr (), q', e')" "\<not> q_overfull q' ! 0" by auto
  with c(1) p(6) show ?thesis by blast
qed

text \<open>
  C12: However stops and wakes of mac80211's queues follow each other, a subqueue of the network
  stack is off as long as its own queue, or the multicast queue of its interface, is stopped for
  any reason: a wake for one reason never lets frames into a queue another reason still stops.
\<close>

theorem mac_queues_stay_off:
  assumes "mac_wf m" and "mac_safe m"
    and "sd \<in> set (interfaces (fold mac_step es m))" and "ac < 4"
    and "must_stop (fold mac_step es m) sd ac"
  shows "xoff sd ! ac"
  using mac_run_safe [of m es] assms by (auto simp: mac_safe_def list_all_iff)

lemma mac_queues_stay_off_witness:
  "\<exists>sd. sd \<in> set (interfaces (fold mac_step [Mac_stop 1 STOP_PS, Mac_stop 1 STOP_CSA, Mac_wake 1 STOP_PS] ex_mac))
     \<and> xoff sd ! 1"
proof -
  let ?es = "[Mac_stop 1 STOP_PS, Mac_stop 1 STOP_CSA, Mac_wake 1 STOP_PS]"
  let ?sd = "hd (interfaces (fold mac_step ?es ex_mac))"
  have a: "mac_wf ex_mac" "mac_safe ex_mac" by code_simp+
  have b: "?sd \<in> set (interfaces (fold mac_step ?es ex_mac))" by code_simp
  have c: "must_stop (fold mac_step ?es ex_mac) ?sd 1" by code_simp
  from mac_queues_stay_off [OF a b _ c] b show ?thesis by auto
qed

section \<open>Packet identifiers\<close>

text \<open>
  C13: The packet identifier is a lossless code: unpacking what was packed from fields of four
  bits (eight for the item's generation and number) returns the fields, and every 32-bit word is
  the packing of its own fields.
\<close>

theorem packet_id_roundtrip:
  assumes "unat gen < 16" "unat qid < 16" "unat ifid < 16" "unat link < 16"
  shows "atbm_queue_parse_id (atbm_queue_make_packet_id gen qid igen iid ifid link) =
      \<lparr>p_queue_generation = gen, p_queue_id = qid, p_item_generation = igen, p_item_id = iid,
       p_if_id = ifid, p_link_id = link\<rparr> \<and>
    (let p = atbm_queue_parse_id w in
      atbm_queue_make_packet_id (p_queue_generation p) (p_queue_id p) (p_item_generation p)
        (p_item_id p) (p_if_id p) (p_link_id p)) = w"
  using parse_make_packet_id [OF assms] make_parse_packet_id by blast

lemma packet_id_roundtrip_witness:
  "p_item_id (atbm_queue_parse_id (atbm_queue_make_packet_id 15 3 200 255 1 7)) = 255"
  using packet_id_roundtrip [of 15 3 1 7 200 255 0] by simp

end
