(* ===== verification/Tx_Policy.thy ===== *)
theory Tx_Policy
  imports Queue_Runs
begin

text \<open>
  The transmit retry policy cache (\<open>hal_apollo/txrx.c\<close>, \<open>hal_apollo/txrx.h\<close>), in the
  configuration of the Makefile: \<open>CONFIG_RATE_HW_CONTROL\<close> off, \<open>OLD_RATE_POLICY\<close> on.

  The device knows eight retry policies by number; the driver translates the rate series of each
  frame into a policy, looks it up in a cache of eight entries and counts its users. The intrusive
  lists \<open>used\<close> and \<open>free\<close> are lists of entry numbers, the first element being \<open>head->next\<close>.
\<close>

section \<open>Rates\<close>

record tx_rate =
  r_idx :: "8 word"
  r_count :: u8
  r_flags :: u8

record tx_policy =
  pl_tbl :: "u32 list"
  pl_defined :: u8
  pl_usage :: u8
  pl_retry :: u8
  pl_uploaded :: u8

datatype band = Band_2G | Band_5G

text \<open>The \<open>hw_value\<close>s of \<open>atbm_rates\<close> (all of them, or from the fifth on) and \<open>atbm_mcs_rates\<close>.\<close>

definition bitrates :: "band \<Rightarrow> u8 list" where
  "bitrates b = (case b of
     Band_2G \<Rightarrow> [0, 1, 2, 3, 6, 7, 8, 9, 10, 11, 12, 13]
   | Band_5G \<Rightarrow> [6, 7, 8, 9, 10, 11, 12, 13])"

definition mcs_rates :: "u8 list" where
  "mcs_rates = [14, 15, 16, 17, 18, 19, 20, 21, 22]"

definition IEEE80211_TX_RC_MCS :: u8 where
  "IEEE80211_TX_RC_MCS = 8"

definition is_mcs :: "tx_rate \<Rightarrow> bool" where
  "is_mcs r \<longleftrightarrow> r_flags r AND IEEE80211_TX_RC_MCS \<noteq> 0"

text \<open>The \<open>hw_value\<close> of the rate; \<open>None\<close> is the null pointer or an index outside the table.\<close>

definition atbm_get_tx_rate :: "band \<Rightarrow> tx_rate \<Rightarrow> u8 option" where
  "atbm_get_tx_rate b r =
     (if sint (r_idx r) < 0 then None
      else if is_mcs r then rd mcs_rates (unat (r_idx r))
      else rd (bitrates b) (unat (r_idx r)))"

section \<open>Building a policy\<close>

text \<open>One pass over the array that swaps neighbours; a negative index ends the series.\<close>

function sort_loop :: "nat \<Rightarrow> nat \<Rightarrow> tx_rate list \<Rightarrow> (tx_rate list \<times> nat) option" where
  "sort_loop i cnt rates =
     (if i < cnt then do {
        ri \<leftarrow> rd rates i;
        rp \<leftarrow> rd rates (i - 1);
        if sint (r_idx ri) < 0 then Some (rates, i)
        else if sint (r_idx ri) > sint (r_idx rp)
        then sort_loop (i + 1) cnt (rates[i := rp, i - 1 := ri])
        else sort_loop (i + 1) cnt rates }
      else Some (rates, cnt))"
  by pat_completeness auto
termination by (relation "measure (\<lambda>(i, cnt, rates). cnt - i)") auto

text \<open>Entries with the same index are merged; the counts are bytes and wrap.\<close>

function dedupe_loop :: "nat \<Rightarrow> nat \<Rightarrow> nat \<Rightarrow> tx_rate list \<Rightarrow> u32 \<Rightarrow> (tx_rate list \<times> nat \<times> u32) option" where
  "dedupe_loop i j cnt rates tot =
     (if j < cnt then do {
        ri \<leftarrow> rd rates i;
        rj \<leftarrow> rd rates j;
        if r_idx rj = r_idx ri
        then dedupe_loop i (j + 1) cnt
               (rates[i := ri\<lparr>r_count := r_count ri + r_count rj\<rparr>]) (tot + ucast (r_count rj))
        else if sint (r_idx rj) > sint (r_idx ri) then Some (rates, i + 1, tot)
        else dedupe_loop (i + 1) (j + 1) cnt
               (if i + 1 \<noteq> j then rates[i + 1 := rj] else rates) (tot + ucast (r_count rj)) }
      else Some (rates, i + 1, tot))"
  by pat_completeness auto
termination by (relation "measure (\<lambda>(i, j, cnt, rates, tot). cnt - j)") auto

function refill_loop :: "nat \<Rightarrow> nat \<Rightarrow> u32 \<Rightarrow> tx_rate list \<Rightarrow> tx_rate list option" where
  "refill_loop i cnt limit rates =
     (if i < cnt then do {
        ri \<leftarrow> rd rates i;
        let left = (of_nat (cnt - i - 1) :: u32);
        let ri = (if ucast (r_count ri) > limit - left then ri\<lparr>r_count := ucast (limit - left)\<rparr> else ri);
        refill_loop (i + 1) cnt (limit - ucast (r_count ri)) (rates[i := ri]) }
      else Some rates)"
  by pat_completeness auto
termination by (relation "measure (\<lambda>(i, cnt, limit, rates). cnt - i)") (auto simp: Let_def)

text \<open>The work-around for falling back from a high g-rate to 1 or 2 Mbit/s.\<close>

definition inject_applies :: "nat \<Rightarrow> tx_rate list \<Rightarrow> bool" where
  "inject_applies cnt rates \<longleftrightarrow> cnt = 2 \<and> \<not> is_mcs (rates ! 0) \<and> 4 < sint (r_idx (rates ! 0)) \<and>
     2 < r_count (rates ! 0) \<and> sint (r_idx (rates ! 1)) < 2"

definition inject_g_rates :: "tx_rate list \<Rightarrow> (tx_rate list \<times> nat) option" where
  "inject_g_rates rates = do {
     r0 \<leftarrow> rd rates 0;
     r1 \<leftarrow> rd rates 1;
     let mid_rate = (r_idx r0 + 4) div 2;
     let r0 = r0\<lparr>r_count := r_count r0 - 2\<rparr>;
     if mid_rate \<noteq> 4 then do {
       rates \<leftarrow> wr rates 3 r1;
       let r2 = \<lparr>r_idx = 4, r_count = 1, r_flags = r_flags r1\<rparr>;
       let r1 = r1\<lparr>r_idx := mid_rate, r_count := 1\<rparr>;
       let bump = 3 \<le> r_count r0;
       let r0 = (if bump then r0\<lparr>r_count := r_count r0 - 1\<rparr> else r0);
       let r2 = (if bump then r2\<lparr>r_count := r_count r2 + 1\<rparr> else r2);
       Some (rates[0 := r0, 1 := r1, 2 := r2], 4) }
     else do {
       rates \<leftarrow> wr rates 2 r1;
       Some (rates[0 := r0, 1 := r1\<lparr>r_idx := 4, r_count := 2\<rparr>], 3) } }"

text \<open>The four-bit retry counts of the policy, rate by rate.\<close>

definition fill_rate :: "band \<Rightarrow> tx_rate \<Rightarrow> tx_policy \<Rightarrow> tx_policy option" where
  "fill_rate b r p = do {
     rateid \<leftarrow> atbm_get_tx_rate b r;
     let off = unat (drop_bit 3 rateid);
     let shift = unat (push_bit 2 (rateid AND 7));
     let retries = (if 0x0F < r_count r then 0x0F else r_count r);
     tbl \<leftarrow> upd (pl_tbl p) off (\<lambda>w. w OR push_bit shift (ucast retries));
     Some (p\<lparr>pl_tbl := tbl, pl_retry := pl_retry p + retries\<rparr>) }"

fun fill_rates :: "band \<Rightarrow> tx_rate list \<Rightarrow> tx_policy \<Rightarrow> tx_policy option" where
  "fill_rates b [] p = Some p"
| "fill_rates b (r # rs) p = do { p \<leftarrow> fill_rate b r p; fill_rates b rs p }"

definition zero_policy :: tx_policy where
  "zero_policy = \<lparr>pl_tbl = [0, 0, 0], pl_defined = 0, pl_usage = 0, pl_retry = 0, pl_uploaded = 0\<rparr>"

text \<open>The rate series after sorting, merging, limiting and the work-around.\<close>

definition policy_rates :: "u8 \<Rightarrow> tx_rate list \<Rightarrow> nat \<Rightarrow> tx_rate list option" where
  "policy_rates max_tx rates cnt = do {
     r0 \<leftarrow> rd rates 0;
     ensure (0 \<le> sint (r_idx r0));
     (rates, cnt) \<leftarrow> sort_loop 1 cnt rates;
     r0 \<leftarrow> rd rates 0;
     (rates, cnt, tot) \<leftarrow> dedupe_loop 0 1 cnt rates (ucast (r_count r0));
     let limit = (if unat max_tx < cnt then of_nat cnt else ucast max_tx);
     rates \<leftarrow> (if limit < tot then refill_loop 0 cnt limit rates else Some rates);
     (rates, cnt) \<leftarrow> (if inject_applies cnt rates then inject_g_rates rates else Some (rates, cnt));
     Some (take cnt rates) }"

definition tx_policy_build :: "band \<Rightarrow> u8 \<Rightarrow> tx_rate list \<Rightarrow> nat \<Rightarrow> tx_policy option" where
  "tx_policy_build b max_tx rates cnt = do {
     rs \<leftarrow> policy_rates max_tx rates cnt;
     r0 \<leftarrow> rd rs 0;
     hw \<leftarrow> atbm_get_tx_rate b r0;
     fill_rates b rs (zero_policy\<lparr>pl_defined := hw + 1\<rparr>) }"

section \<open>The cache\<close>

definition TX_POLICY_CACHE_SIZE :: nat where
  "TX_POLICY_CACHE_SIZE = 8"

definition ATBM_APOLLO_INVALID_RATE_ID :: nat where
  "ATBM_APOLLO_INVALID_RATE_ID = 255"

record tx_policy_cache =
  pc_cache :: "tx_policy list"
  pc_used :: "nat list"
  pc_free :: "nat list"

text \<open>\<open>raw\<close> is the little-endian view of \<open>tbl\<close>.\<close>

definition pl_raw :: "tx_policy \<Rightarrow> nat \<Rightarrow> u8" where
  "pl_raw p k = ucast (drop_bit (8 * (k mod 4)) (pl_tbl p ! (k div 4)))"

definition tx_policy_is_equal :: "tx_policy \<Rightarrow> tx_policy \<Rightarrow> bool" where
  "tx_policy_is_equal wanted cached =
     (let cnt = unat (pl_defined wanted) div 2 in
      if pl_defined cached < pl_defined wanted then False
      else if \<not> list_all (\<lambda>k. pl_raw wanted k = pl_raw cached k) [0..<cnt] then False
      else if pl_defined wanted AND 1 \<noteq> 0 then pl_raw wanted cnt AND 0x0F = pl_raw cached cnt AND 0x0F
      else True)"

definition tx_policy_find :: "tx_policy_cache \<Rightarrow> tx_policy \<Rightarrow> nat option" where
  "tx_policy_find c wanted =
     (case List.find (\<lambda>i. tx_policy_is_equal wanted (pc_cache c ! i)) (pc_used c) of
        Some i \<Rightarrow> Some i
      | None \<Rightarrow> List.find (\<lambda>i. tx_policy_is_equal wanted (pc_cache c ! i)) (pc_free c))"

definition unlink_entry :: "nat \<Rightarrow> tx_policy_cache \<Rightarrow> tx_policy_cache" where
  "unlink_entry i c = c\<lparr>pc_used := remove1 i (pc_used c), pc_free := remove1 i (pc_free c)\<rparr>"

definition tx_policy_use :: "tx_policy_cache \<Rightarrow> nat \<Rightarrow> tx_policy_cache option" where
  "tx_policy_use c i = do {
     cache \<leftarrow> upd (pc_cache c) i (\<lambda>p. p\<lparr>pl_usage := pl_usage p + 1\<rparr>);
     let c = unlink_entry i (c\<lparr>pc_cache := cache\<rparr>);
     Some (c\<lparr>pc_used := i # pc_used c\<rparr>) }"

text \<open>\<open>usage_count\<close> is a byte; the value returned is the byte after the decrement.\<close>

definition tx_policy_release :: "tx_policy_cache \<Rightarrow> nat \<Rightarrow> (u8 \<times> tx_policy_cache) option" where
  "tx_policy_release c i = do {
     p \<leftarrow> rd (pc_cache c) i;
     let usage = pl_usage p - 1;
     cache \<leftarrow> wr (pc_cache c) i (p\<lparr>pl_usage := usage\<rparr>);
     let c = c\<lparr>pc_cache := cache\<rparr>;
     Some (usage, if usage = 0 then (let c = unlink_entry i c in c\<lparr>pc_free := i # pc_free c\<rparr>) else c) }"

definition tx_policy_init :: tx_policy_cache where
  "tx_policy_init = \<lparr>pc_cache = replicate TX_POLICY_CACHE_SIZE (zero_policy\<lparr>pl_tbl := [0, 0, 0]\<rparr>),
     pc_used = [], pc_free = foldl (\<lambda>l i. i # l) [] [0..<TX_POLICY_CACHE_SIZE]\<rparr>"

section \<open>Locking the transmit queues\<close>

fun lock_each :: "(nat \<times> nat) list \<Rightarrow> atbm_queue list \<Rightarrow> tx_env \<Rightarrow> (atbm_queue list \<times> tx_env) option" where
  "lock_each [] qs e = Some (qs, e)"
| "lock_each ((v, i) # ps) qs e = do {
     q \<leftarrow> rd qs i;
     (q, e) \<leftarrow> atbm_queue_lock q v e;
     lock_each ps (qs[i := q]) e }"

fun unlock_each :: "(nat \<times> nat) list \<Rightarrow> atbm_queue list \<Rightarrow> tx_env \<Rightarrow> (atbm_queue list \<times> tx_env) option" where
  "unlock_each [] qs e = Some (qs, e)"
| "unlock_each ((v, i) # ps) qs e = do {
     q \<leftarrow> rd qs i;
     (q, e) \<leftarrow> atbm_queue_unlock q v e;
     unlock_each ps (qs[i := q]) e }"

text \<open>For each interface, each of the four queues.\<close>

definition all_queues :: "(nat \<times> nat) list" where
  "all_queues = List.product [0..<ATBM_WIFI_MAX_VIFS] [0..<4]"

definition atbm_tx_queues_lock :: "atbm_queue list \<Rightarrow> tx_env \<Rightarrow> (atbm_queue list \<times> tx_env) option" where
  "atbm_tx_queues_lock qs e = lock_each all_queues qs e"

definition atbm_tx_queues_unlock :: "atbm_queue list \<Rightarrow> tx_env \<Rightarrow> (atbm_queue list \<times> tx_env) option" where
  "atbm_tx_queues_unlock qs e = unlock_each all_queues qs e"

section \<open>The cache's interface\<close>

text \<open>
  The state a caller sees: the cache, the four transmit queues, their environment, and the count of
  the firmware transmit lock (\<open>wsm_lock_tx_async\<close>, \<open>wsm_unlock_tx\<close>) with the pending upload work.
\<close>

record tx_ctl =
  tc_cache :: tx_policy_cache
  tc_queues :: "atbm_queue list"
  tc_env :: tx_env
  tc_wsm_lock :: nat
  tc_work :: bool

definition ctl_lock :: "tx_ctl \<Rightarrow> tx_ctl option" where
  "ctl_lock t = do {
     (qs, e) \<leftarrow> atbm_tx_queues_lock (tc_queues t) (tc_env t);
     Some (t\<lparr>tc_queues := qs, tc_env := e\<rparr>) }"

definition ctl_unlock :: "tx_ctl \<Rightarrow> tx_ctl option" where
  "ctl_unlock t = do {
     (qs, e) \<leftarrow> atbm_tx_queues_unlock (tc_queues t) (tc_env t);
     Some (t\<lparr>tc_queues := qs, tc_env := e\<rparr>) }"

text \<open>The entry a miss claims: the oldest free one takes over the wanted policy.\<close>

definition tx_policy_claim :: "tx_policy_cache \<Rightarrow> tx_policy \<Rightarrow> (nat \<times> tx_policy_cache) option" where
  "tx_policy_claim c wanted = do {
     let i = last (pc_free c);
     cache \<leftarrow> wr (pc_cache c) i wanted;
     Some (i, c\<lparr>pc_cache := cache\<rparr>) }"

text \<open>\<open>tx_policy_get\<close> returns the entry, or \<open>ATBM_APOLLO_INVALID_RATE_ID\<close>, and \<open>renew\<close>.\<close>

definition tx_policy_get :: "band \<Rightarrow> u8 \<Rightarrow> tx_rate list \<Rightarrow> nat \<Rightarrow> tx_ctl \<Rightarrow> (nat \<times> bool \<times> tx_ctl) option" where
  "tx_policy_get b max_tx rates cnt t = do {
     wanted \<leftarrow> tx_policy_build b max_tx rates cnt;
     let c = tc_cache t;
     (case tx_policy_find c wanted of
        None \<Rightarrow>
          if pc_free c = [] then Some (ATBM_APOLLO_INVALID_RATE_ID, False, t)
          else do {
            (i, c) \<leftarrow> tx_policy_claim c wanted;
            c \<leftarrow> tx_policy_use c i;
            let t = t\<lparr>tc_cache := c\<rparr>;
            t \<leftarrow> (if pc_free c = [] then ctl_lock t else Some t);
            Some (i, True, t) }
      | Some i \<Rightarrow> do {
            c \<leftarrow> tx_policy_use c i;
            let t = t\<lparr>tc_cache := c\<rparr>;
            t \<leftarrow> (if pc_free c = [] then ctl_lock t else Some t);
            Some (i, False, t) }) }"

definition tx_policy_put :: "nat \<Rightarrow> tx_ctl \<Rightarrow> tx_ctl option" where
  "tx_policy_put idx t = do {
     let locked = (pc_free (tc_cache t) = []);
     (usage, c) \<leftarrow> tx_policy_release (tc_cache t) idx;
     let t = t\<lparr>tc_cache := c\<rparr>;
     if locked \<and> usage = 0 then ctl_unlock t else Some t }"

text \<open>
  \<open>tx_policy_upload\<close>: the policies that go to the device, with their numbers; those entries are
  marked. \<open>tx_policy_upload_work\<close> sends them and releases the locks of the frame that queued it.
\<close>

definition needs_upload :: "tx_policy \<Rightarrow> bool" where
  "needs_upload p \<longleftrightarrow> pl_retry p \<noteq> 0 \<and> pl_uploaded p = 0"

definition tx_policy_upload :: "tx_policy_cache \<Rightarrow> (nat \<times> u32 list) list \<times> tx_policy_cache" where
  "tx_policy_upload c =
     (map (\<lambda>i. (i, pl_tbl (pc_cache c ! i))) (filter (\<lambda>i. needs_upload (pc_cache c ! i)) [0..<length (pc_cache c)]),
      c\<lparr>pc_cache := map (\<lambda>p. if needs_upload p then p\<lparr>pl_uploaded := 1\<rparr> else p) (pc_cache c)\<rparr>)"

definition tx_policy_upload_work :: "bool \<Rightarrow> tx_ctl \<Rightarrow> ((nat \<times> u32 list) list \<times> tx_ctl) option" where
  "tx_policy_upload_work bh_term t = do {
     let (sent, t) = (if bh_term then ([], t)
        else (let (s, c) = tx_policy_upload (tc_cache t) in (s, t\<lparr>tc_cache := c\<rparr>)));
     ensure (0 < tc_wsm_lock t);
     t \<leftarrow> ctl_unlock (t\<lparr>tc_wsm_lock := tc_wsm_lock t - 1, tc_work := False\<rparr>);
     Some (sent, t) }"

text \<open>
  The end of \<open>atbm_tx_h_rate_policy\<close>: after a miss the firmware and the queues are locked until
  the upload work has run; if that work is already queued the locks are released at once.
\<close>

definition atbm_tx_policy_renew :: "tx_ctl \<Rightarrow> tx_ctl option" where
  "atbm_tx_policy_renew t = do {
     t \<leftarrow> ctl_lock (t\<lparr>tc_wsm_lock := tc_wsm_lock t + 1\<rparr>);
     if tc_work t then do {
       t \<leftarrow> ctl_unlock t;
       Some (t\<lparr>tc_wsm_lock := tc_wsm_lock t - 1\<rparr>) }
     else Some (t\<lparr>tc_work := True\<rparr>) }"

end
