(* ===== verification/Tx_Policy_Build.thy ===== *)
theory Tx_Policy_Build
  imports Tx_Policy
begin

text \<open>
  What a built policy is: how often it lets a frame be sent, which four-bit count it gives each
  rate, and what the comparison of two policies decides.
\<close>

section \<open>Transmissions a rate series allows\<close>

definition tries :: "tx_rate list \<Rightarrow> nat" where
  "tries rs = sum_list (map (\<lambda>r. unat (r_count r)) rs)"

lemma tries_simps [simp]:
  "tries [] = 0" "tries (r # rs) = unat (r_count r) + tries rs" "tries (rs @ rs') = tries rs + tries rs'"
  by (simp_all add: tries_def)

lemma tries_update:
  "i < length rs \<Longrightarrow> tries (rs[i := r]) + unat (r_count (rs ! i)) = tries rs + unat (r_count r)"
proof (induction rs arbitrary: i)
  case (Cons a rs)
  then show ?case by (cases i) auto
qed simp

lemma u8_le: "unat (w :: u8) \<le> 255"
  using unsigned_less [of w, where 'a = nat] by simp

lemma unat_add_le: "unat (a + b) \<le> unat (a :: 'a :: len word) + unat b"
  by (simp add: unat_word_ariths)

lemma unat_u8_u32 [simp]: "unat (ucast (w :: u8) :: u32) = unat w"
  using u8_le [of w] by (simp add: unsigned_ucast_eq take_bit_nat_eq_self)

declare sort_loop.simps [simp del] dedupe_loop.simps [simp del] refill_loop.simps [simp del]

lemma sort_loop_shape:
  "sort_loop i n rs = Some (rs', n') \<Longrightarrow> i \<le> n \<Longrightarrow> n' \<le> n \<and> i \<le> n' \<and> length rs' = length rs"
proof (induction i n rs rule: sort_loop.induct)
  case (1 i n rs)
  show ?case
  proof (cases "i < n")
    case False
    with "1.prems" show ?thesis by (subst (asm) sort_loop.simps) simp
  next
    case True
    with "1.prems" have "i < length rs" "i - 1 < length rs"
      by (subst (asm) sort_loop.simps, auto simp: bind_eq_Some_conv array_simps)+
    then show ?thesis
      using True "1.prems" "1.IH" [OF True, of "rs ! i" "rs ! (i - 1)"]
      by (subst (asm) sort_loop.simps) (auto split: if_splits)
  qed
qed

lemma take_update_ge: "n \<le> i \<Longrightarrow> take n (xs[i := x]) = take n xs"
  by simp

lemma dedupe_loop_tries:
  "dedupe_loop i j n rs tot = Some (rs', n', tot') \<Longrightarrow> i < j \<Longrightarrow> j \<le> n \<Longrightarrow> n \<le> 5 \<Longrightarrow>
     tries (take (i + 1) rs) \<le> unat tot \<Longrightarrow> unat tot \<le> 255 * j \<Longrightarrow>
     n' \<le> n \<and> 1 \<le> n' \<and> tries (take n' rs') \<le> unat tot' \<and> length rs' = length rs"
proof (induction i j n rs tot rule: dedupe_loop.induct)
  case (1 i j n rs tot)
  show ?case
  proof (cases "j < n")
    case False
    with "1.prems" show ?thesis by (subst (asm) dedupe_loop.simps) auto
  next
    case True
    with "1.prems"(1) have l: "i < length rs" "j < length rs"
      by (subst (asm) dedupe_loop.simps, auto simp: bind_eq_Some_conv array_simps)+
    let ?ri = "rs ! i" and ?rj = "rs ! j"
    have t: "unat (tot + ucast (r_count ?rj)) = unat tot + unat (r_count ?rj)"
    proof -
      have "unat tot + unat (r_count ?rj) < 2 ^ 32"
        using "1.prems"(3,4,6) u8_le [of "r_count ?rj"] by simp
      then show ?thesis by (simp add: unat_word_ariths)
    qed
    have c: "unat (r_count ?rj) \<le> 255" by (rule u8_le)
    consider (eq) "r_idx ?rj = r_idx ?ri" | (gt) "r_idx ?rj \<noteq> r_idx ?ri" "sint (r_idx ?rj) > sint (r_idx ?ri)"
      | (lt) "r_idx ?rj \<noteq> r_idx ?ri" "\<not> sint (r_idx ?rj) > sint (r_idx ?ri)" by blast
    then show ?thesis
    proof cases
      case eq
      let ?rs = "rs[i := ?ri\<lparr>r_count := r_count ?ri + r_count ?rj\<rparr>]"
      have s: "dedupe_loop i (j + 1) n ?rs (tot + ucast (r_count ?rj)) = Some (rs', n', tot')"
        using "1.prems"(1) True l eq by (subst (asm) dedupe_loop.simps) simp
      have tk: "take (i + 1) ?rs = (take (i + 1) rs)[i := ?ri\<lparr>r_count := r_count ?ri + r_count ?rj\<rparr>]"
        by (simp add: take_update_swap)
      have "tries (take (i + 1) ?rs) + unat (r_count ?ri) =
          tries (take (i + 1) rs) + unat (r_count ?ri + r_count ?rj)"
        using tries_update [of i "take (i + 1) rs" "?ri\<lparr>r_count := r_count ?ri + r_count ?rj\<rparr>"] l
        unfolding tk by simp
      then have "tries (take (i + 1) ?rs) \<le> tries (take (i + 1) rs) + unat (r_count ?rj)"
        using unat_add_le [of "r_count ?ri" "r_count ?rj"] by simp
      with "1.IH"(1) [OF True _ _ eq s] "1.prems"(2-6) True t c l show ?thesis by simp
    next
      case gt
      then show ?thesis using "1.prems" True l by (subst (asm) dedupe_loop.simps) auto
    next
      case lt
      let ?rs = "if i + 1 \<noteq> j then rs[i + 1 := ?rj] else rs"
      have s: "dedupe_loop (i + 1) (j + 1) n ?rs (tot + ucast (r_count ?rj)) = Some (rs', n', tot')"
        using "1.prems"(1) True l lt by (subst (asm) dedupe_loop.simps) simp
      have "i + 1 < length rs" using l "1.prems"(2) by simp
      moreover have "?rs ! (i + 1) = ?rj" using calculation by simp
      ultimately have "take (i + 1 + 1) ?rs = take (i + 1) ?rs @ [?rj]"
        by (simp only: Suc_eq_plus1 [symmetric]) (simp add: take_Suc_conv_app_nth)
      moreover have "take (i + 1) ?rs = take (i + 1) rs" by simp
      ultimately have "tries (take (i + 1 + 1) ?rs) = tries (take (i + 1) rs) + unat (r_count ?rj)" by simp
      with "1.IH"(2) [OF True _ _ lt s] "1.prems"(2-6) True t c l show ?thesis by (simp split: if_splits)
    qed
  qed
qed

lemma unat_ucast_le: "unat (ucast (w :: u32) :: u8) \<le> unat w"
  by (simp add: unsigned_ucast_eq take_bit_nat_less_eq_self)

lemma refill_loop_tries:
  "refill_loop i n limit rs = Some rs' \<Longrightarrow> n \<le> 5 \<Longrightarrow> n - i \<le> unat limit \<Longrightarrow> i \<le> n \<Longrightarrow>
     length rs' = length rs \<and> take i rs' = take i rs \<and>
     tries (take n rs') \<le> tries (take i rs) + unat limit"
proof (induction i n limit rs rule: refill_loop.induct)
  case (1 i n limit rs)
  show ?case
  proof (cases "i < n")
    case False
    with "1.prems" show ?thesis by (subst (asm) refill_loop.simps) auto
  next
    case True
    with "1.prems"(1) have l: "i < length rs"
      by (subst (asm) refill_loop.simps, auto simp: bind_eq_Some_conv array_simps)+
    let ?left = "of_nat (n - i - 1) :: u32" and ?r0 = "rs ! i"
    let ?ri = "if ucast (r_count ?r0) > limit - ?left then ?r0\<lparr>r_count := ucast (limit - ?left)\<rparr> else ?r0"
    have s: "refill_loop (i + 1) n (limit - ucast (r_count ?ri)) (rs[i := ?ri]) = Some rs'"
      using "1.prems"(1) True l by (subst (asm) refill_loop.simps) (simp add: Let_def split del: if_split cong: if_cong)
    have lft: "unat ?left = n - i - 1"
      using "1.prems"(2) by (simp add: unat_of_nat take_bit_nat_eq_self)
    have sub: "unat (limit - ?left) = unat limit - (n - i - 1)"
      using lft "1.prems"(3) by (subst unat_sub) (simp_all add: word_le_nat_alt)
    have le: "unat (r_count ?ri) \<le> unat limit - (n - i - 1)"
      using sub unat_ucast_le [of "limit - ?left"] by (auto simp: word_less_nat_alt)
    have nl: "unat (limit - ucast (r_count ?ri)) = unat limit - unat (r_count ?ri)"
      using le by (subst unat_sub) (simp_all add: word_le_nat_alt)
    have rem: "n - (i + 1) \<le> unat (limit - ucast (r_count ?ri))"
      using le "1.prems"(3) True unfolding nl by linarith
    have ih: "length rs' = length rs" "take (i + 1) rs' = take (i + 1) (rs[i := ?ri])"
      "tries (take n rs') \<le> tries (take (i + 1) (rs[i := ?ri])) + (unat limit - unat (r_count ?ri))"
      using "1.IH" [OF True _ refl refl _, of ?r0] s rem True "1.prems"(2) l unfolding nl by simp_all
    have tk: "take (i + 1) (rs[i := ?ri]) = take i rs @ [?ri]"
      using l by (simp add: take_Suc_conv_app_nth)
    have "take i rs' = take i (take (i + 1) rs')" by (simp add: min_def)
    also have "\<dots> = take i rs" unfolding ih(2) tk using l by simp
    finally have "take i rs' = take i rs" .
    moreover have "tries (take n rs') \<le> tries (take i rs) + unat limit"
      using ih(3) le unfolding tk by simp
    ultimately show ?thesis using ih(1) by simp
  qed
qed

lemma small_lists:
  "(a # b # l)[Suc 0 := x] = a # x # l" "(a # b # c # l)[2 := x] = a # b # x # l"
  "(a # b # c # d # l)[3 := x] = a # b # c # x # l"
  by (simp_all add: numeral_2_eq_2 numeral_3_eq_3)

lemma inject_g_rates_tries:
  assumes a: "inject_applies n rs" and i: "inject_g_rates rs = Some (rs', n')"
  shows "tries (take n' rs') \<le> tries (take n rs)"
proof -
  have n: "n = 2" and c0: "2 < r_count (rs ! 0)" using a by (simp_all add: inject_applies_def)
  have len: "1 < length rs" using i by (auto simp: inject_g_rates_def bind_eq_Some_conv array_simps)
  then obtain r0 r1 rest where rs: "rs = r0 # r1 # rest" by (cases rs; cases "tl rs") auto
  have c: "2 < unat (r_count r0)" using c0 by (simp add: rs word_less_nat_alt)
  have m2: "unat (r_count r0 - 2) = unat (r_count r0) - 2"
    using c by (subst unat_sub) (simp_all add: word_le_nat_alt)
  have m3: "unat (r_count r0 - 2 - 1) = unat (r_count r0) - 3" if "3 \<le> r_count r0 - 2"
    using that m2 c by (subst unat_sub) (simp_all add: word_le_nat_alt)
  show ?thesis
  proof (cases "(r_idx r0 + 4) div 2 = 4")
    case True
    then obtain r2 rest2 where "rest = r2 # rest2"
      using i by (cases rest) (auto simp: inject_g_rates_def rs Let_def wr_def)
    with True i n m2 c show ?thesis
      by (auto simp: inject_g_rates_def rs Let_def wr_def small_lists)
  next
    case False
    then obtain r2 r3 rest2 where "rest = r2 # r3 # rest2"
      using i by (cases rest; cases "tl rest") (auto simp: inject_g_rates_def rs Let_def wr_def)
    with False i n m2 m3 c show ?thesis
      by (auto simp: inject_g_rates_def rs Let_def wr_def small_lists split: if_splits)
  qed
qed

lemma policy_rates_tries:
  assumes p: "policy_rates max_tx rates n = Some rs" and n: "0 < n" "n \<le> 5"
  shows "tries rs \<le> max (unat max_tx) n"
proof -
  from p obtain r1 n1 where s: "sort_loop 1 n rates = Some (r1, n1)"
    and "0 < length r1"
    and p2: "do { (rates, cnt, tot) \<leftarrow> dedupe_loop 0 1 n1 r1 (ucast (r_count (r1 ! 0)));
     let limit = (if unat max_tx < cnt then of_nat cnt else ucast max_tx);
     rates \<leftarrow> (if limit < tot then refill_loop 0 cnt limit rates else Some rates);
     (rates, cnt) \<leftarrow> (if inject_applies cnt rates then inject_g_rates rates else Some (rates, cnt));
     Some (take cnt rates) } = Some rs"
    by (auto simp: policy_rates_def bind_eq_Some_conv array_simps)
  have n1: "n1 \<le> n" "1 \<le> n1" using sort_loop_shape [OF s] n by simp_all
  obtain x where x: "dedupe_loop 0 1 n1 r1 (ucast (r_count (r1 ! 0))) = Some x"
    and px: "(case x of (rates, cnt, tot) \<Rightarrow> do {
     let limit = (if unat max_tx < cnt then of_nat cnt else ucast max_tx);
     rates \<leftarrow> (if limit < tot then refill_loop 0 cnt limit rates else Some rates);
     (rates, cnt) \<leftarrow> (if inject_applies cnt rates then inject_g_rates rates else Some (rates, cnt));
     Some (take cnt rates) }) = Some rs"
    using bind_eq_Some_conv [THEN iffD1, OF p2] by blast
  obtain r2 n2 tot where x3: "x = (r2, n2, tot)" by (rule prod_cases3)
  note d = x [unfolded x3] and p3 = px [unfolded x3 prod.case Let_def]
  have r1: "take 1 r1 = [r1 ! 0]" using \<open>0 < length r1\<close> by (cases r1) simp_all
  have dd: "n2 \<le> n1" "1 \<le> n2" "tries (take n2 r2) \<le> unat tot"
    using dedupe_loop_tries [OF d] n1 n r1 u8_le [of "r_count (r1 ! 0)"] by simp_all
  let ?limit = "if unat max_tx < n2 then of_nat n2 else (ucast max_tx :: u32)"
  have lim: "unat ?limit = max (unat max_tx) n2"
    using dd(1) n1 n by (auto simp: unat_of_nat take_bit_nat_eq_self)
  from p3 obtain r3 where r3: "(if ?limit < tot then refill_loop 0 n2 ?limit r2 else Some r2) = Some r3"
    and p4: "do { (rates, cnt) \<leftarrow> (if inject_applies n2 r3 then inject_g_rates r3 else Some (r3, n2));
     Some (take cnt rates) } = Some rs"
    using bind_eq_Some_conv [THEN iffD1, OF p3] by blast
  have t3: "tries (take n2 r3) \<le> max (unat max_tx) n2"
  proof (cases "?limit < tot")
    case True
    with r3 have "refill_loop 0 n2 ?limit r2 = Some r3" by simp
    from refill_loop_tries [OF this] dd n1 n lim show ?thesis by simp
  next
    case False
    then have "unat tot \<le> unat ?limit" by (simp add: not_less word_le_nat_alt)
    with dd(3) lim r3 False show ?thesis by simp
  qed
  have "tries rs \<le> tries (take n2 r3)"
  proof (cases "inject_applies n2 r3")
    case True
    with p4 obtain r4 n4 where "inject_g_rates r3 = Some (r4, n4)" "rs = take n4 r4"
      by (auto simp: bind_eq_Some_conv)
    with inject_g_rates_tries [OF True] show ?thesis by blast
  next
    case False
    with p4 show ?thesis by simp
  qed
  with t3 dd(1) n1 show ?thesis by linarith
qed

lemma fill_rates_retry:
  "fill_rates b rs p = Some p' \<Longrightarrow> unat (pl_retry p') \<le> unat (pl_retry p) + tries rs"
proof (induction rs arbitrary: p)
  case (Cons r rs)
  then obtain p1 where p1: "fill_rate b r p = Some p1" "fill_rates b rs p1 = Some p'"
    by (auto simp: bind_eq_Some_conv)
  have "unat (pl_retry p1) \<le> unat (pl_retry p) + unat (r_count r)"
  proof -
    let ?c = "if 0x0F < r_count r then 0x0F else r_count r"
    have "pl_retry p1 = pl_retry p + ?c"
      using p1(1) by (auto simp: fill_rate_def Let_def bind_eq_Some_conv)
    moreover have "unat ?c \<le> unat (r_count r)" by (simp add: word_less_nat_alt)
    ultimately show ?thesis using unat_add_le [of "pl_retry p" ?c] by simp
  qed
  with Cons.IH [OF p1(2)] show ?case by simp
qed simp

section \<open>The four-bit counts\<close>

definition nibble :: "tx_policy \<Rightarrow> nat \<Rightarrow> u32" where
  "nibble p r = drop_bit (4 * (r mod 8)) (pl_tbl p ! (r div 8)) AND 0xF"

lemma nibble_bit: "bit (nibble p r) n \<longleftrightarrow> n < 4 \<and> bit (pl_tbl p ! (r div 8)) (4 * (r mod 8) + n)"
  unfolding nibble_def mask_nibble by (auto simp: bit_simps)

lemma raw_bit: "bit (pl_raw p k) m \<longleftrightarrow> m < 8 \<and> bit (pl_tbl p ! (k div 4)) (8 * (k mod 4) + m)"
  by (auto simp: pl_raw_def bit_simps)

lemma raw_nibbles:
  "bit (pl_raw p k) m \<longleftrightarrow>
     (if m < 4 then bit (nibble p (2 * k)) m else m < 8 \<and> bit (nibble p (2 * k + 1)) (m - 4))"
proof -
  have d: "2 * k div 8 = k div 4" "(2 * k + 1) div 8 = k div 4"
    "2 * k mod 8 = 2 * (k mod 4)" "(2 * k + 1) mod 8 = 2 * (k mod 4) + 1" by presburger+
  show ?thesis
    unfolding raw_bit nibble_bit d by (auto simp: algebra_simps)
qed

lemma nibble_cong: "(\<And>n. n < 4 \<Longrightarrow> bit (nibble p r) n = bit (nibble p' r) n) \<Longrightarrow> nibble p r = nibble p' r"
  by (rule bit_word_eqI) (auto simp: nibble_bit)

lemma raw_eq_iff:
  "pl_raw p k = pl_raw p' k \<longleftrightarrow> nibble p (2 * k) = nibble p' (2 * k) \<and> nibble p (2 * k + 1) = nibble p' (2 * k + 1)"
proof
  assume e: "pl_raw p k = pl_raw p' k"
  have "bit (nibble p (2 * k)) n = bit (nibble p' (2 * k)) n" if "n < 4" for n
    using raw_nibbles [of p k n] raw_nibbles [of p' k n] that e by simp
  moreover have "bit (nibble p (2 * k + 1)) n = bit (nibble p' (2 * k + 1)) n" if "n < 4" for n
    using raw_nibbles [of p k "n + 4"] raw_nibbles [of p' k "n + 4"] that e by simp
  ultimately show "nibble p (2 * k) = nibble p' (2 * k) \<and> nibble p (2 * k + 1) = nibble p' (2 * k + 1)"
    by (blast intro: nibble_cong)
next
  assume "nibble p (2 * k) = nibble p' (2 * k) \<and> nibble p (2 * k + 1) = nibble p' (2 * k + 1)"
  then show "pl_raw p k = pl_raw p' k"
    by (intro bit_word_eqI) (simp add: raw_nibbles)
qed

lemma raw_low_eq_iff:
  "pl_raw p k AND 0x0F = pl_raw p' k AND 0x0F \<longleftrightarrow> nibble p (2 * k) = nibble p' (2 * k)"
proof -
  have b: "bit (pl_raw p k AND 0x0F) n \<longleftrightarrow> n < 4 \<and> bit (nibble p (2 * k)) n" for p n
    unfolding mask_nibble by (auto simp: bit_simps raw_nibbles)
  show ?thesis
  proof
    assume e: "pl_raw p k AND 0x0F = pl_raw p' k AND 0x0F"
    show "nibble p (2 * k) = nibble p' (2 * k)"
    proof (rule nibble_cong)
      fix n :: nat assume "n < 4"
      then show "bit (nibble p (2 * k)) n = bit (nibble p' (2 * k)) n"
        using b [of p n] b [of p' n] e by simp
    qed
  next
    assume "nibble p (2 * k) = nibble p' (2 * k)"
    then show "pl_raw p k AND 0x0F = pl_raw p' k AND 0x0F"
      by (intro bit_word_eqI) (simp add: b)
  qed
qed

text \<open>The byte-wise comparison decides equality of the counts of all rates up to the first.\<close>

lemma tx_policy_is_equal_iff:
  "tx_policy_is_equal w c \<longleftrightarrow>
     pl_defined w \<le> pl_defined c \<and> (\<forall>r < unat (pl_defined w). nibble w r = nibble c r)"
proof -
  let ?d = "unat (pl_defined w)"
  have even_case: "(\<forall>r < 2 * n. P r) \<longleftrightarrow> (\<forall>k < n. P (2 * k) \<and> P (2 * k + 1))" for n and P :: "nat \<Rightarrow> bool"
  proof
    assume a: "\<forall>k < n. P (2 * k) \<and> P (2 * k + 1)"
    show "\<forall>r < 2 * n. P r"
    proof (intro allI impI)
      fix r assume "r < 2 * n"
      then have "r div 2 < n" by simp
      with a have "P (2 * (r div 2))" "P (2 * (r div 2) + 1)" by blast+
      then show "P r" by (cases "even r") (auto elim!: evenE oddE)
    qed
  qed auto
  have bytes: "list_all (\<lambda>k. pl_raw w k = pl_raw c k) [0..<n] \<longleftrightarrow> (\<forall>r < 2 * n. nibble w r = nibble c r)" for n
    unfolding even_case by (auto simp: list_all_iff raw_eq_iff)
  have odd: "(pl_defined w AND 1 \<noteq> 0) = odd ?d"
    using bit_unsigned_iff [of "pl_defined w" 0, where 'a = nat]
    by (simp add: bit_0 and_one_eq odd_iff_mod_2_eq_one)
  show ?thesis
  proof (cases "odd ?d")
    case True
    then have "?d = 2 * (?d div 2) + 1" by simp
    then have "(\<forall>r < ?d. nibble w r = nibble c r) \<longleftrightarrow>
        (\<forall>r < 2 * (?d div 2). nibble w r = nibble c r) \<and> nibble w (2 * (?d div 2)) = nibble c (2 * (?d div 2))"
      by (metis less_Suc_eq Suc_eq_plus1)
    with True odd show ?thesis
      unfolding tx_policy_is_equal_def Let_def bytes raw_low_eq_iff by auto
  next
    case False
    then have "?d = 2 * (?d div 2)" by simp
    then have "(\<forall>r < ?d. nibble w r = nibble c r) \<longleftrightarrow> (\<forall>r < 2 * (?d div 2). nibble w r = nibble c r)"
      by simp
    with False odd show ?thesis
      unfolding tx_policy_is_equal_def Let_def bytes by auto
  qed
qed

text \<open>The four-bit count of one rate is its count, cut off at fifteen.\<close>

definition retries_of :: "tx_rate \<Rightarrow> u8" where
  "retries_of r = (if 0x0F < r_count r then 0x0F else r_count r)"

lemma retries_of_less: "unat (retries_of r) < 16"
  by (simp add: retries_of_def word_less_nat_alt)

lemma nibble_insert:
  assumes ret: "unat (ret :: u8) < 16" and l: "k div 8 < length (pl_tbl p)"
    and t: "pl_tbl p' = (pl_tbl p)[k div 8 := pl_tbl p ! (k div 8) OR push_bit (4 * (k mod 8)) (ucast ret)]"
  shows "nibble p' r = (if r = k then nibble p r OR ucast ret else nibble p r)"
proof -
  have rb: "bit (ucast ret :: u32) m \<longleftrightarrow> m < 4 \<and> bit ret m" for m
    using low_nibble [OF ret, of m] by (auto simp: bit_unsigned_iff)
  show ?thesis
  proof (cases "r div 8 = k div 8")
    case False
    then have "r \<noteq> k" by blast
    with False show ?thesis by (simp add: nibble_def t)
  next
    case True
    have pb: "bit (push_bit (4 * (k mod 8)) (ucast ret) :: u32) (4 * (r mod 8) + n) \<longleftrightarrow> r = k \<and> bit ret n"
      if n: "n < 4" for n
    proof (cases "r mod 8 = k mod 8")
      case eq: True
      then have "r = k" using True by (metis div_mult_mod_eq)
      moreover have "4 * (k mod 8) + n < 32" using n mod_less_divisor [of 8 k] by linarith
      ultimately show ?thesis using n by (auto simp: bit_push_bit_iff rb)
    next
      case ne: False
      then have "r \<noteq> k" by blast
      moreover have "\<not> (4 * (k mod 8) \<le> 4 * (r mod 8) + n \<and> 4 * (r mod 8) + n - 4 * (k mod 8) < 4)"
        using ne n by linarith
      ultimately show ?thesis by (auto simp: bit_push_bit_iff rb)
    qed
    have tb: "pl_tbl p' ! (k div 8) = pl_tbl p ! (k div 8) OR push_bit (4 * (k mod 8)) (ucast ret)"
      using True l by (simp add: t)
    show ?thesis
      by (rule bit_word_eqI)
         (use True pb in \<open>auto simp: nibble_bit tb bit_or_iff rb\<close>)
  qed
qed

lemma shift_value: "unat (push_bit 2 (w AND 7) :: u8) = 4 * (unat w mod 8)"
proof -
  have "(7 :: u8) = mask 3" by (simp add: mask_eq_exp_minus_1)
  then have "w AND 7 = take_bit 3 w" by (simp only: take_bit_eq_mask)
  then have "w AND 7 = w mod 8" by (simp add: take_bit_eq_mod)
  then have "unat (w AND 7) = unat w mod 8" by (simp add: unat_mod_distrib)
  moreover have "unat w mod 8 < 8" by simp
  ultimately show ?thesis
    by (simp add: push_bit_eq_mult unat_word_ariths)
qed

lemma fill_rate_nibble:
  assumes "fill_rate b r p = Some p'"
  obtains hw where "atbm_get_tx_rate b r = Some hw" "length (pl_tbl p') = length (pl_tbl p)"
    "pl_defined p' = pl_defined p" "pl_usage p' = pl_usage p" "pl_uploaded p' = pl_uploaded p"
    "\<And>k. nibble p' k = (if k = unat hw then nibble p k OR ucast (retries_of r) else nibble p k)"
proof -
  from assms obtain hw where hw: "atbm_get_tx_rate b r = Some hw" by (auto simp: fill_rate_def bind_eq_Some_conv)
  have off: "unat (drop_bit 3 hw) = unat hw div 8" by (simp add: drop_bit_eq_div unat_div_distrib)
  from assms hw have l: "unat hw div 8 < length (pl_tbl p)"
    and p': "p' = p\<lparr>pl_tbl := (pl_tbl p)[unat hw div 8 := pl_tbl p ! (unat hw div 8) OR
       push_bit (4 * (unat hw mod 8)) (ucast (retries_of r))], pl_retry := pl_retry p + retries_of r\<rparr>"
    by (auto simp: fill_rate_def Let_def bind_eq_Some_conv array_simps off shift_value shift_value [simplified]
        retries_of_def)
  show ?thesis
    by (rule that [OF hw]) (use nibble_insert [OF retries_of_less l] p' in simp_all)
qed

lemma fill_rates_nibble:
  "fill_rates b rs p = Some p' \<Longrightarrow> distinct (map (atbm_get_tx_rate b) rs) \<Longrightarrow>
     (\<forall>r \<in> set rs. \<exists>hw. atbm_get_tx_rate b r = Some hw) \<and> pl_defined p' = pl_defined p \<and>
     (\<forall>k. (\<forall>r \<in> set rs. atbm_get_tx_rate b r \<noteq> Some (of_nat k) \<or> 256 \<le> k) \<longrightarrow> nibble p' k = nibble p k) \<and>
     (\<forall>r \<in> set rs. \<forall>hw. atbm_get_tx_rate b r = Some hw \<longrightarrow>
        nibble p' (unat hw) = nibble p (unat hw) OR ucast (retries_of r))"
proof (induction rs arbitrary: p)
  case (Cons r rs)
  then obtain p1 where p1: "fill_rate b r p = Some p1" "fill_rates b rs p1 = Some p'"
    by (auto simp: bind_eq_Some_conv)
  obtain hw where hw: "atbm_get_tx_rate b r = Some hw"
    "pl_defined p1 = pl_defined p"
    "\<And>k. nibble p1 k = (if k = unat hw then nibble p k OR ucast (retries_of r) else nibble p k)"
    by (rule fill_rate_nibble [OF p1(1)]) blast
  have "Some hw \<notin> atbm_get_tx_rate b ` set rs" using Cons.prems(2) hw(1) by simp
  then have d: "distinct (map (atbm_get_tx_rate b) rs)" "\<And>r'. r' \<in> set rs \<Longrightarrow> atbm_get_tx_rate b r' \<noteq> Some hw"
    using Cons.prems(2) by (simp, metis imageI)
  note ih = Cons.IH [OF p1(2) d(1)]
  have keep: "nibble p' (unat hw) = nibble p1 (unat hw)" using ih d(2) by auto
  have "nibble p' (unat h) = nibble p (unat h) OR ucast (retries_of r')"
    if "r' \<in> set rs" "atbm_get_tx_rate b r' = Some h" for r' h
  proof -
    have "h \<noteq> hw" using d(2) that by auto
    then have "unat h \<noteq> unat hw" by (simp add: word_unat_eq_iff)
    then show ?thesis using ih that hw(3) by auto
  qed
  moreover have "nibble p' k = nibble p k"
    if "\<forall>r' \<in> set (r # rs). atbm_get_tx_rate b r' \<noteq> Some (of_nat k) \<or> 256 \<le> k" for k
  proof -
    have "k \<noteq> unat hw" using that hw(1) u8_le [of hw] by auto
    then show ?thesis using ih that hw(3) by auto
  qed
  ultimately show ?case using ih hw keep by auto
qed simp

end
