(* ===== verification/Queue_Bank.thy ===== *)
theory Queue_Bank
  imports Queue_Confirm
begin

text \<open>
  The four transmit queues of the driver together. They share the statistics and mac80211's queues:
  an operation on one of them leaves the stop bits of the others as they are.
\<close>

definition queues_ok :: "atbm_queue list \<Rightarrow> tx_env \<Rightarrow> bool" where
  "queues_ok qs e \<longleftrightarrow> length qs = 4 \<and>
     (\<forall>i < 4. queue_inv (qs ! i) \<and> unat (q_queue_id (qs ! i)) = i \<and> gate_ok (qs ! i) e)"

lemma gate_other:
  assumes "gate_ok p e" "unat (q_queue_id p) < 4" "unat (q_queue_id q) < 4"
    "unat (q_queue_id p) \<noteq> unat (q_queue_id q)"
  shows "gate_ok p (e\<lparr>mac := ieee80211_stop_queue (unat (q_queue_id q) + 4 * v) (mac e)\<rparr>)"
    "gate_ok p (e\<lparr>mac := ieee80211_wake_queue (unat (q_queue_id q) + 4 * v) (mac e)\<rparr>)"
proof -
  have ne: "unat (q_queue_id q) + 4 * v \<noteq> unat (q_queue_id p) + 4 * w" for w
    using assms(2-4) by presburger
  show "gate_ok p (e\<lparr>mac := ieee80211_stop_queue (unat (q_queue_id q) + 4 * v) (mac e)\<rparr>)"
    using assms(1) ne by (auto simp: gate_ok_def ieee80211_stop_queue_def stop_reasons_after_stop nth_update)
  show "gate_ok p (e\<lparr>mac := ieee80211_wake_queue (unat (q_queue_id q) + 4 * v) (mac e)\<rparr>)"
    using assms(1) ne by (auto simp: gate_ok_def ieee80211_wake_queue_def stop_reasons_after_wake nth_update)
qed

lemma lock_keeps_others:
  assumes "atbm_queue_lock_u q v e = Some (q', e')" "gate_ok p e" "unat (q_queue_id p) < 4"
    "unat (q_queue_id q) < 4" "unat (q_queue_id p) \<noteq> unat (q_queue_id q)"
  shows "gate_ok p e'"
  using assms(1,2) gate_other(1) [OF assms(2-5), of v]
  by (auto simp: atbm_queue_lock_u_def bind_eq_Some_conv Let_def split: if_splits)

lemma unlock_keeps_others:
  assumes "atbm_queue_unlock_u q v e = Some (q', e')" "gate_ok p e" "unat (q_queue_id p) < 4"
    "unat (q_queue_id q) < 4" "unat (q_queue_id p) \<noteq> unat (q_queue_id q)"
  shows "gate_ok p e'"
  using assms(1,2) gate_other(2) [OF assms(2-5), of v]
  by (auto simp: atbm_queue_unlock_u_def bind_eq_Some_conv Let_def split: if_splits)

end
