(* ===== verification/Tx_Policy_Cache.thy ===== *)
theory Tx_Policy_Cache
  imports Tx_Policy_Build Queue_Bank
begin

text \<open>
  The policy cache over runs: the transmit queues are locked as often as the cache and a pending
  upload ask for, an entry is free exactly when no frame uses it, and a frame's policy does not
  change while the frame is under way.
\<close>

section \<open>Locking all queues\<close>

text \<open>Two lists of queues that differ only in their lock counts, by \<open>d\<close> at the pairs in \<open>ps\<close>.\<close>

definition relocked :: "u32 \<Rightarrow> (nat \<times> nat) set \<Rightarrow> atbm_queue list \<Rightarrow> atbm_queue list \<Rightarrow> bool" where
  "relocked d ps qs qs' \<longleftrightarrow>
     (\<forall>i < 4. q_overfull (qs' ! i) = q_overfull (qs ! i) \<and>
        (\<forall>v < 2. q_tx_locked_cnt (qs' ! i) ! v =
           q_tx_locked_cnt (qs ! i) ! v + (if (v, i) \<in> ps then d else 0)))"

lemma relocked_refl [simp]: "relocked d {} qs qs"
  by (simp add: relocked_def)

lemma locked_queue_inv:
  assumes "queue_inv q" "v < 2" "q_overfull q ! v \<longrightarrow> c \<noteq> 0"
  shows "queue_inv (q\<lparr>q_tx_locked_cnt := (q_tx_locked_cnt q)[v := c]\<rparr>)"
  using assms by (auto simp: queue_inv_def shape_ok_def nth_update)

lemma lock_one:
  assumes ok: "queues_ok qs e" and v: "v < 2" and i: "i < 4"
    and c: "q_tx_locked_cnt (qs ! i) ! v + 1 \<noteq> 0"
  shows "\<exists>q m. atbm_queue_lock (qs ! i) v e = Some (q, e\<lparr>mac := m\<rparr>) \<and> queues_ok (qs[i := q]) (e\<lparr>mac := m\<rparr>) \<and>
     relocked 1 {(v, i)} qs (qs[i := q])"
proof -
  let ?q = "(qs ! i)\<lparr>q_tx_locked_cnt := (q_tx_locked_cnt (qs ! i))[v := q_tx_locked_cnt (qs ! i) ! v + 1]\<rparr>"
  have q: "queue_inv (qs ! i)" "gate_ok (qs ! i) e" "length qs = 4" "unat (q_queue_id (qs ! i)) = i"
    using ok i by (simp_all add: queues_ok_def)
  have l: "length (q_tx_locked_cnt (qs ! i)) = 2" using q(1) by (simp add: queue_inv_def shape_ok_def)
  obtain m where m: "atbm_queue_lock_u (qs ! i) v e = Some (?q, e\<lparr>mac := m\<rparr>)" "gate_ok ?q (e\<lparr>mac := m\<rparr>)"
    using atbm_queue_lock_gate [OF q(2) l v c] by blast
  have "queue_inv ?q" by (rule locked_queue_inv [OF q(1) v]) (use c in simp)
  moreover have "gate_ok (qs ! j) (e\<lparr>mac := m\<rparr>)" if "j < 4" "j \<noteq> i" for j
    by (rule lock_keeps_others [OF m(1)]) (use ok that i q(4) in \<open>simp_all add: queues_ok_def\<close>)
  ultimately have "queues_ok (qs[i := ?q]) (e\<lparr>mac := m\<rparr>)"
    using ok m(2) i q(3,4) by (auto simp: queues_ok_def nth_update)
  moreover have "relocked 1 {(v, i)} qs (qs[i := ?q])"
    using q(3) i v l by (auto simp: relocked_def nth_update)
  ultimately show ?thesis using m(1) by (auto simp: atbm_queue_lock_def)
qed

lemma unlock_one:
  assumes ok: "queues_ok qs e" and v: "v < 2" and i: "i < 4"
    and c: "q_tx_locked_cnt (qs ! i) ! v \<noteq> 0"
      "q_overfull (qs ! i) ! v \<longrightarrow> q_tx_locked_cnt (qs ! i) ! v \<noteq> 1"
  shows "\<exists>q m. atbm_queue_unlock (qs ! i) v e = Some (q, e\<lparr>mac := m\<rparr>) \<and> queues_ok (qs[i := q]) (e\<lparr>mac := m\<rparr>) \<and>
     relocked (- 1) {(v, i)} qs (qs[i := q])"
proof -
  let ?q = "(qs ! i)\<lparr>q_tx_locked_cnt := (q_tx_locked_cnt (qs ! i))[v := q_tx_locked_cnt (qs ! i) ! v - 1]\<rparr>"
  have q: "queue_inv (qs ! i)" "gate_ok (qs ! i) e" "length qs = 4" "unat (q_queue_id (qs ! i)) = i"
    using ok i by (simp_all add: queues_ok_def)
  have l: "length (q_tx_locked_cnt (qs ! i)) = 2" using q(1) by (simp add: queue_inv_def shape_ok_def)
  obtain m where m: "atbm_queue_unlock_u (qs ! i) v e = Some (?q, e\<lparr>mac := m\<rparr>)" "gate_ok ?q (e\<lparr>mac := m\<rparr>)"
    using atbm_queue_unlock_gate [OF q(2) l v c(1)] by blast
  have "queue_inv ?q" by (rule locked_queue_inv [OF q(1) v]) (use c in simp)
  moreover have "gate_ok (qs ! j) (e\<lparr>mac := m\<rparr>)" if "j < 4" "j \<noteq> i" for j
    by (rule unlock_keeps_others [OF m(1)]) (use ok that i q(4) in \<open>simp_all add: queues_ok_def\<close>)
  ultimately have "queues_ok (qs[i := ?q]) (e\<lparr>mac := m\<rparr>)"
    using ok m(2) i q(3,4) by (auto simp: queues_ok_def nth_update)
  moreover have "relocked (- 1) {(v, i)} qs (qs[i := ?q])"
    using q(3) i v l by (auto simp: relocked_def nth_update)
  ultimately show ?thesis using m(1) by (auto simp: atbm_queue_unlock_def)
qed

lemma relocked_step:
  assumes "relocked d {(v, i)} qs qs1" "relocked d ps qs1 qs2" "(v, i) \<notin> ps"
  shows "relocked d (insert (v, i) ps) qs qs2"
  using assms by (auto simp: relocked_def)

lemma lock_each_ok:
  "queues_ok qs e \<Longrightarrow> distinct ps \<Longrightarrow> set ps \<subseteq> {..<2} \<times> {..<4} \<Longrightarrow>
     (\<And>v i. (v, i) \<in> set ps \<Longrightarrow> q_tx_locked_cnt (qs ! i) ! v + 1 \<noteq> 0) \<Longrightarrow>
     \<exists>qs' m. lock_each ps qs e = Some (qs', e\<lparr>mac := m\<rparr>) \<and> queues_ok qs' (e\<lparr>mac := m\<rparr>) \<and>
       relocked 1 (set ps) qs qs'"
proof (induction ps arbitrary: qs e)
  case Nil
  then show ?case by (intro exI [of _ qs] exI [of _ "mac e"]) simp
next
  case (Cons a ps)
  obtain v i where a: "a = (v, i)" by (cases a) auto
  have vi: "v < 2" "i < 4" using Cons.prems(3) a by auto
  from lock_one [OF Cons.prems(1) vi] Cons.prems(4) [of v i] a obtain q m where
    q: "atbm_queue_lock (qs ! i) v e = Some (q, e\<lparr>mac := m\<rparr>)" "queues_ok (qs[i := q]) (e\<lparr>mac := m\<rparr>)"
      "relocked 1 {(v, i)} qs (qs[i := q])" by auto
  have "q_tx_locked_cnt (qs[i := q] ! j) ! w + 1 \<noteq> 0" if "(w, j) \<in> set ps" for w j
  proof -
    have "w < 2" "j < 4" "(w, j) \<noteq> (v, i)" using that Cons.prems(2,3) a by auto
    then have "q_tx_locked_cnt (qs[i := q] ! j) ! w = q_tx_locked_cnt (qs ! j) ! w"
      using q(3) by (auto simp: relocked_def)
    then show ?thesis using Cons.prems(4) [of w j] that by simp
  qed
  with Cons.IH [OF q(2)] Cons.prems(2,3) obtain qs' m' where
    r: "lock_each ps (qs[i := q]) (e\<lparr>mac := m\<rparr>) = Some (qs', e\<lparr>mac := m'\<rparr>)" "queues_ok qs' (e\<lparr>mac := m'\<rparr>)"
      "relocked 1 (set ps) (qs[i := q]) qs'" by auto
  have "relocked 1 (set (a # ps)) qs qs'"
    using relocked_step [OF q(3) r(3)] Cons.prems(2) a by simp
  moreover have "i < length qs" using Cons.prems(1) vi by (simp add: queues_ok_def)
  ultimately show ?case using q(1) r a by auto
qed

lemma unlock_each_ok:
  "queues_ok qs e \<Longrightarrow> distinct ps \<Longrightarrow> set ps \<subseteq> {..<2} \<times> {..<4} \<Longrightarrow>
     (\<And>v i. (v, i) \<in> set ps \<Longrightarrow> q_tx_locked_cnt (qs ! i) ! v \<noteq> 0 \<and>
        (q_overfull (qs ! i) ! v \<longrightarrow> q_tx_locked_cnt (qs ! i) ! v \<noteq> 1)) \<Longrightarrow>
     \<exists>qs' m. unlock_each ps qs e = Some (qs', e\<lparr>mac := m\<rparr>) \<and> queues_ok qs' (e\<lparr>mac := m\<rparr>) \<and>
       relocked (- 1) (set ps) qs qs'"
proof (induction ps arbitrary: qs e)
  case Nil
  then show ?case by (intro exI [of _ qs] exI [of _ "mac e"]) simp
next
  case (Cons a ps)
  obtain v i where a: "a = (v, i)" by (cases a) auto
  have vi: "v < 2" "i < 4" using Cons.prems(3) a by auto
  from unlock_one [OF Cons.prems(1) vi] Cons.prems(4) [of v i] a obtain q m where
    q: "atbm_queue_unlock (qs ! i) v e = Some (q, e\<lparr>mac := m\<rparr>)" "queues_ok (qs[i := q]) (e\<lparr>mac := m\<rparr>)"
      "relocked (- 1) {(v, i)} qs (qs[i := q])" by auto
  have "q_tx_locked_cnt (qs[i := q] ! j) ! w \<noteq> 0 \<and>
      (q_overfull (qs[i := q] ! j) ! w \<longrightarrow> q_tx_locked_cnt (qs[i := q] ! j) ! w \<noteq> 1)" if "(w, j) \<in> set ps" for w j
  proof -
    have "w < 2" "j < 4" "(w, j) \<noteq> (v, i)" using that Cons.prems(2,3) a by auto
    then have "q_tx_locked_cnt (qs[i := q] ! j) ! w = q_tx_locked_cnt (qs ! j) ! w"
      "q_overfull (qs[i := q] ! j) = q_overfull (qs ! j)"
      using q(3) by (auto simp: relocked_def)
    then show ?thesis using Cons.prems(4) [of w j] that by simp
  qed
  with Cons.IH [OF q(2)] Cons.prems(2,3) obtain qs' m' where
    r: "unlock_each ps (qs[i := q]) (e\<lparr>mac := m\<rparr>) = Some (qs', e\<lparr>mac := m'\<rparr>)" "queues_ok qs' (e\<lparr>mac := m'\<rparr>)"
      "relocked (- 1) (set ps) (qs[i := q]) qs'" by auto
  have "relocked (- 1) (set (a # ps)) qs qs'"
    using relocked_step [OF q(3) r(3)] Cons.prems(2) a by simp
  moreover have "i < length qs" using Cons.prems(1) vi by (simp add: queues_ok_def)
  ultimately show ?case using q(1) r a by auto
qed

lemma all_queues_set: "set all_queues = {..<2} \<times> {..<4}" "distinct all_queues"
  by (auto simp: all_queues_def ATBM_WIFI_MAX_VIFS_def distinct_product)

section \<open>Lock depth\<close>

text \<open>Every lock count is \<open>d\<close>, plus one where the queue itself throttles the interface.\<close>

definition depth_is :: "nat \<Rightarrow> atbm_queue list \<Rightarrow> bool" where
  "depth_is d qs \<longleftrightarrow> (\<forall>i < 4. \<forall>v < 2. q_tx_locked_cnt (qs ! i) ! v =
     of_nat d + (if q_overfull (qs ! i) ! v then 1 else 0))"

lemma ctl_lock_ok:
  assumes "queues_ok (tc_queues t) (tc_env t)" "depth_is d (tc_queues t)" "d < 1000"
  shows "\<exists>qs e. ctl_lock t = Some (t\<lparr>tc_queues := qs, tc_env := e\<rparr>) \<and> queues_ok qs e \<and> depth_is (d + 1) qs"
proof -
  have nz: "(of_nat d + x :: u32) + 1 \<noteq> 0" if "x = 0 \<or> x = 1" for x :: u32
  proof -
    have "unat (of_nat d + x + 1 :: u32) = d + unat x + 1"
      using that assms(3) by (auto simp: unat_word_ariths unat_of_nat take_bit_eq_mod)
    then show ?thesis by (metis Suc_eq_plus1 nat.distinct(1) unsigned_0)
  qed
  have "q_tx_locked_cnt (tc_queues t ! i) ! v + 1 \<noteq> 0" if "(v, i) \<in> set all_queues" for v i
    using that assms(2) nz unfolding all_queues_set depth_is_def by auto
  from lock_each_ok [OF assms(1) all_queues_set(2) _ this] obtain qs m where
    "lock_each all_queues (tc_queues t) (tc_env t) = Some (qs, (tc_env t)\<lparr>mac := m\<rparr>)"
    "queues_ok qs ((tc_env t)\<lparr>mac := m\<rparr>)" "relocked 1 ({..<2} \<times> {..<4}) (tc_queues t) qs"
    unfolding all_queues_set by blast
  moreover from this(3) assms(2) have "depth_is (d + 1) qs"
    by (auto simp: depth_is_def relocked_def)
  ultimately show ?thesis by (auto simp: ctl_lock_def atbm_tx_queues_lock_def)
qed

lemma ctl_unlock_ok:
  assumes "queues_ok (tc_queues t) (tc_env t)" "depth_is (d + 1) (tc_queues t)" "d < 1000"
  shows "\<exists>qs e. ctl_unlock t = Some (t\<lparr>tc_queues := qs, tc_env := e\<rparr>) \<and> queues_ok qs e \<and> depth_is d qs"
proof -
  have un: "unat (of_nat (d + 1) + x :: u32) = d + 1 + unat x" if "x = 0 \<or> x = 1" for x :: u32
    using that assms(3) by (auto simp: unat_word_ariths unat_of_nat take_bit_eq_mod)
  have nz: "(of_nat (d + 1) + x :: u32) \<noteq> 0" if "x = 0 \<or> x = 1" for x :: u32
    using un [OF that] by (metis add_eq_0_iff_both_eq_0 unsigned_0 zero_neq_one)
  have no: "(of_nat (d + 1) + 1 :: u32) \<noteq> 1"
  proof
    assume "(of_nat (d + 1) + 1 :: u32) = 1"
    with un [of 1] have "unat (1 :: u32) = d + 1 + unat (1 :: u32)" by (simp only:) simp
    then show False by simp
  qed
  have "q_tx_locked_cnt (tc_queues t ! i) ! v \<noteq> 0 \<and> (q_overfull (tc_queues t ! i) ! v \<longrightarrow>
      q_tx_locked_cnt (tc_queues t ! i) ! v \<noteq> 1)" if "(v, i) \<in> set all_queues" for v i
    using that assms(2) nz [of 0] nz [of 1] no unfolding all_queues_set depth_is_def by auto
  from unlock_each_ok [OF assms(1) all_queues_set(2) _ this] obtain qs m where
    "unlock_each all_queues (tc_queues t) (tc_env t) = Some (qs, (tc_env t)\<lparr>mac := m\<rparr>)"
    "queues_ok qs ((tc_env t)\<lparr>mac := m\<rparr>)" "relocked (- 1) ({..<2} \<times> {..<4}) (tc_queues t) qs"
    unfolding all_queues_set by blast
  moreover from this(3) assms(2) have "depth_is d qs"
    by (auto simp: depth_is_def relocked_def)
  ultimately show ?thesis by (auto simp: ctl_unlock_def atbm_tx_queues_unlock_def)
qed

section \<open>The cache\<close>

text \<open>\<open>hs\<close> lists the entry of every frame under way; \<open>usage_count\<close> has eight bits.\<close>

definition cache_ok :: "nat list \<Rightarrow> tx_policy_cache \<Rightarrow> bool" where
  "cache_ok hs c \<longleftrightarrow> length (pc_cache c) = 8 \<and> distinct (pc_used c @ pc_free c) \<and>
     set (pc_used c @ pc_free c) = {..<8} \<and> length hs < 256 \<and> set hs \<subseteq> {..<8} \<and>
     (\<forall>i < 8. pl_usage (pc_cache c ! i) = of_nat (count_list hs i) \<and> (i \<in> set (pc_free c) \<longleftrightarrow> i \<notin> set hs))"

lemma count_list_le: "count_list hs i \<le> length hs"
  by (induction hs) auto

lemma cache_ok_init: "cache_ok [] tx_policy_init"
  by (auto simp: cache_ok_def tx_policy_init_def TX_POLICY_CACHE_SIZE_def zero_policy_def less_Suc_eq
      eval_nat_numeral upt_rec lessThan_Suc)

lemma set_unlink:
  "distinct (pc_used c @ pc_free c) \<Longrightarrow> set (pc_used (unlink_entry i c)) = set (pc_used c) - {i} \<and>
     set (pc_free (unlink_entry i c)) = set (pc_free c) - {i} \<and>
     distinct (pc_used (unlink_entry i c) @ pc_free (unlink_entry i c))"
  by (auto simp: unlink_entry_def dest: notin_set_remove1)

lemma tx_policy_use_ok:
  assumes ok: "cache_ok hs c" and i: "i < 8" and l: "length hs < 255"
  shows "\<exists>c'. tx_policy_use c i = Some c' \<and> cache_ok (i # hs) c' \<and> pc_free c' = remove1 i (pc_free c) \<and>
     pc_cache c' = (pc_cache c)[i := (pc_cache c ! i)\<lparr>pl_usage := pl_usage (pc_cache c ! i) + 1\<rparr>]"
proof -
  note o = ok [unfolded cache_ok_def]
  have d: "distinct (pc_used c @ pc_free c)" using o by blast
  let ?c1 = "c\<lparr>pc_cache := (pc_cache c)[i := (pc_cache c ! i)\<lparr>pl_usage := pl_usage (pc_cache c ! i) + 1\<rparr>]\<rparr>"
  let ?c2 = "unlink_entry i ?c1"
  let ?c3 = "?c2\<lparr>pc_used := i # pc_used ?c2\<rparr>"
  have "distinct (pc_used ?c1 @ pc_free ?c1)" using d by simp
  from set_unlink [OF this, of i] have u: "set (pc_used ?c2) = set (pc_used ?c1) - {i}"
    "set (pc_free ?c2) = set (pc_free ?c1) - {i}" "distinct (pc_used ?c2 @ pc_free ?c2)" by blast+
  have "tx_policy_use c i = Some ?c3" using o i by (simp add: tx_policy_use_def Let_def)
  moreover have "cache_ok (i # hs) ?c3"
    unfolding cache_ok_def
  proof (intro conjI allI impI)
    show "length (pc_cache ?c3) = 8" "length (i # hs) < 256" "set (i # hs) \<subseteq> {..<8}"
      using o l i by (simp_all add: unlink_entry_def)
    show "distinct (pc_used ?c3 @ pc_free ?c3)" using u by simp
    show "set (pc_used ?c3 @ pc_free ?c3) = {..<8}" using o u i by auto
    fix j :: nat assume j: "j < 8"
    show "pl_usage (pc_cache ?c3 ! j) = of_nat (count_list (i # hs) j)"
      using o i j by (simp add: unlink_entry_def nth_update)
    show "(j \<in> set (pc_free ?c3)) = (j \<notin> set (i # hs))" using o u j by auto
  qed
  ultimately show ?thesis by (auto simp: unlink_entry_def)
qed

lemma tx_policy_release_ok:
  assumes ok: "cache_ok hs c" and i: "i \<in> set hs" "i < 8"
  shows "\<exists>c'. tx_policy_release c i = Some (of_nat (count_list (remove1 i hs) i), c') \<and> cache_ok (remove1 i hs) c' \<and>
     pc_free c' = (if i \<in> set (remove1 i hs) then pc_free c else i # remove1 i (pc_free c)) \<and>
     pc_cache c' = (pc_cache c)[i := (pc_cache c ! i)\<lparr>pl_usage := pl_usage (pc_cache c ! i) - 1\<rparr>]"
proof -
  note o = ok [unfolded cache_ok_def]
  have d: "distinct (pc_used c @ pc_free c)" using o by blast
  let ?hs = "remove1 i hs"
  have cnt: "count_list hs i = Suc (count_list ?hs i)" "j \<noteq> i \<Longrightarrow> count_list ?hs j = count_list hs j" for j
    using i(1) by (induction hs) auto
  have mem1: "i \<in> set ?hs \<longleftrightarrow> count_list ?hs i \<noteq> 0" by (simp only: count_list_0_iff) blast
  have mem2: "j \<noteq> i \<Longrightarrow> j \<in> set ?hs \<longleftrightarrow> j \<in> set hs" for j by (simp add: in_set_remove1)
  have sm: "count_list ?hs i < 256"
    using o cnt(1) count_list_le [of hs i] by linarith
  define k where "k = count_list ?hs i"
  have us: "pl_usage (pc_cache c ! i) - 1 = of_nat k"
    using o i(2) cnt(1) by (simp add: k_def)
  have z: "(of_nat k :: u8) = 0 \<longleftrightarrow> i \<notin> set ?hs"
    using word_set_of_nat_inject [of k 0, where 'a = 8] sm mem1 by (simp add: k_def del: count_list_remove1)
  have len: "i < length (pc_cache c)" using o i(2) by simp
  let ?c1 = "c\<lparr>pc_cache := (pc_cache c)[i := (pc_cache c ! i)\<lparr>pl_usage := pl_usage (pc_cache c ! i) - 1\<rparr>]\<rparr>"
  let ?c2 = "unlink_entry i ?c1"
  let ?c3 = "if i \<notin> set ?hs then ?c2\<lparr>pc_free := i # pc_free ?c2\<rparr> else ?c1"
  have "distinct (pc_used ?c1 @ pc_free ?c1)" using d by simp
  from set_unlink [OF this, of i] have u: "set (pc_used ?c2) = set (pc_used ?c1) - {i}"
    "set (pc_free ?c2) = set (pc_free ?c1) - {i}" "distinct (pc_used ?c2 @ pc_free ?c2)" by blast+
  have "tx_policy_release c i = Some (of_nat k, ?c3)"
    by (simp add: tx_policy_release_def Let_def len us z del: right_minus_eq)
  moreover have "cache_ok ?hs ?c3"
    unfolding cache_ok_def
  proof (intro conjI allI impI)
    have "length ?hs \<le> length hs" by (simp add: length_remove1)
    then show "length ?hs < 256" using o by linarith
    show "length (pc_cache ?c3) = 8" using o by (simp add: unlink_entry_def)
    show "set ?hs \<subseteq> {..<8}" using o set_remove1_subset [of i hs] by blast
    show "distinct (pc_used ?c3 @ pc_free ?c3)" using u d by auto
    show "set (pc_used ?c3 @ pc_free ?c3) = {..<8}" using o u i(2) by auto
    fix j :: nat assume j: "j < 8"
    show "pl_usage (pc_cache ?c3 ! j) = of_nat (count_list ?hs j)"
      using o i(2) j us cnt(2) [of j] by (auto simp: unlink_entry_def nth_update k_def)
    show "(j \<in> set (pc_free ?c3)) = (j \<notin> set ?hs)" 
    proof -
      have "(j \<in> set (pc_free c)) = (j \<notin> set hs)" "i \<notin> set (pc_free c)" using o j i by blast+
      with u(2) mem2 [of j] show ?thesis by (cases "i \<in> set ?hs"; cases "j = i") simp_all
    qed
  qed
  moreover have "pc_free ?c3 = (if i \<in> set ?hs then pc_free c else i # remove1 i (pc_free c))"
    by (simp add: unlink_entry_def)
  moreover have "pc_cache ?c3 = (pc_cache c)[i := (pc_cache c ! i)\<lparr>pl_usage := pl_usage (pc_cache c ! i) - 1\<rparr>]"
    by (simp add: unlink_entry_def)
  ultimately show ?thesis unfolding k_def by (intro exI [of _ ?c3] conjI)
qed

section \<open>Runs\<close>

text \<open>
  A frame asks for its policy (and, after a miss, for an upload), a confirmed frame gives its policy
  back, and the upload work runs. The state pairs the entries in use, one per frame under way, with
  the control block.
\<close>

datatype policy_op =
    Pc_frame band u8 "tx_rate list" nat
  | Pc_done nat
  | Pc_upload

type_synonym policy_sys = "nat list \<times> tx_ctl"

fun policy_step :: "policy_op \<Rightarrow> policy_sys \<Rightarrow> policy_sys option" where
  "policy_step (Pc_frame b m rates n) (hs, t) = do {
     (i, renew, t) \<leftarrow> tx_policy_get b m rates n t;
     t \<leftarrow> (if renew then atbm_tx_policy_renew t else Some t);
     Some (i # hs, t) }"
| "policy_step (Pc_done i) (hs, t) = do { t \<leftarrow> tx_policy_put i t; Some (remove1 i hs, t) }"
| "policy_step Pc_upload (hs, t) = do { (_, t) \<leftarrow> tx_policy_upload_work False t; Some (hs, t) }"

fun policy_op_ok :: "policy_op \<Rightarrow> policy_sys \<Rightarrow> bool" where
  "policy_op_ok (Pc_frame b m rates n) (hs, t) \<longleftrightarrow>
     tx_policy_build b m rates n \<noteq> None \<and> pc_free (tc_cache t) \<noteq> [] \<and> length hs < 255"
| "policy_op_ok (Pc_done i) (hs, t) \<longleftrightarrow> i \<in> set hs"
| "policy_op_ok Pc_upload (hs, t) \<longleftrightarrow> tc_work t"

definition lock_depth :: "tx_ctl \<Rightarrow> nat" where
  "lock_depth t = (if pc_free (tc_cache t) = [] then 1 else 0) + (if tc_work t then 1 else 0)"

fun policy_sys_inv :: "policy_sys \<Rightarrow> bool" where
  "policy_sys_inv (hs, t) \<longleftrightarrow> cache_ok hs (tc_cache t) \<and> queues_ok (tc_queues t) (tc_env t) \<and>
     depth_is (lock_depth t) (tc_queues t) \<and> tc_wsm_lock t = (if tc_work t then 1 else 0) \<and>
     (\<forall>i < 8. needs_upload (pc_cache (tc_cache t) ! i) \<longrightarrow> tc_work t)"

lemma fill_rate_fresh: "fill_rate b r p = Some p' \<Longrightarrow> pl_usage p' = pl_usage p \<and> pl_uploaded p' = pl_uploaded p"
  by (rule fill_rate_nibble) auto

lemma fill_rates_fresh:
  "fill_rates b rs p = Some p' \<Longrightarrow> pl_usage p' = pl_usage p \<and> pl_uploaded p' = pl_uploaded p"
  by (induction rs arbitrary: p) (auto simp: bind_eq_Some_conv dest: fill_rate_fresh)

lemma build_fresh: "tx_policy_build b m rates n = Some p \<Longrightarrow> pl_usage p = 0 \<and> pl_uploaded p = 0"
  by (auto simp: tx_policy_build_def zero_policy_def bind_eq_Some_conv dest!: fill_rates_fresh)

lemma policy_equal_simps:
  "tx_policy_is_equal w (p\<lparr>pl_usage := u\<rparr>) = tx_policy_is_equal w p" "tx_policy_is_equal w w"
  by (simp_all add: tx_policy_is_equal_iff nibble_def)

lemma find_in:
  assumes "tx_policy_find c w = Some i"
  shows "i \<in> set (pc_used c @ pc_free c) \<and> tx_policy_is_equal w (pc_cache c ! i)"
  using assms by (auto simp: tx_policy_find_def find_Some_iff split: option.splits)

text \<open>The free entry a miss takes over is used by no frame, so its new policy breaks nothing.\<close>

lemma tx_policy_claim_ok:
  assumes ok: "cache_ok hs c" and f: "pc_free c \<noteq> []" and w: "pl_usage w = 0"
  shows "\<exists>i c'. tx_policy_claim c w = Some (i, c') \<and> i < 8 \<and> i \<notin> set hs \<and> cache_ok hs c' \<and>
     pc_free c' = pc_free c \<and> pc_cache c' = (pc_cache c)[i := w]"
proof -
  note o = ok [unfolded cache_ok_def]
  let ?i = "last (pc_free c)"
  have m: "?i \<in> set (pc_free c)" using f by simp
  then have l: "?i < 8" using o by auto
  then have nh: "?i \<notin> set hs" using o m by blast
  then have "count_list hs ?i = 0" by (simp only: count_list_0_iff not_False_eq_True)
  then have "cache_ok hs (c\<lparr>pc_cache := (pc_cache c)[?i := w]\<rparr>)"
    using o l w by (auto simp: cache_ok_def nth_update)
  then show ?thesis using o l nh by (auto simp: tx_policy_claim_def Let_def)
qed

lemma maybe_lock_ok:
  assumes "queues_ok (tc_queues t) (tc_env t)" "depth_is d (tc_queues t)" "d < 1000"
  shows "\<exists>qs e. (if full then ctl_lock t else Some t) = Some (t\<lparr>tc_queues := qs, tc_env := e\<rparr>) \<and> queues_ok qs e \<and>
     depth_is (d + (if full then 1 else 0)) qs"
proof (cases full)
  case True
  then show ?thesis using ctl_lock_ok [OF assms] by simp
next
  case False
  have "Some t = Some (t\<lparr>tc_queues := tc_queues t, tc_env := tc_env t\<rparr>)" by simp
  with False assms(1,2) show ?thesis by (metis add.right_neutral)
qed

lemma atbm_tx_policy_renew_ok:
  assumes q: "queues_ok (tc_queues t) (tc_env t)" "depth_is d (tc_queues t)" "d < 900"
    and w: "tc_wsm_lock t = (if tc_work t then 1 else 0)"
  shows "\<exists>qs e. atbm_tx_policy_renew t = Some (t\<lparr>tc_queues := qs, tc_env := e, tc_wsm_lock := 1, tc_work := True\<rparr>) \<and>
     queues_ok qs e \<and> depth_is (d + (if tc_work t then 0 else 1)) qs"
proof -
  let ?t = "t\<lparr>tc_wsm_lock := tc_wsm_lock t + 1\<rparr>"
  obtain qs e where l: "ctl_lock ?t = Some (?t\<lparr>tc_queues := qs, tc_env := e\<rparr>)" "queues_ok qs e" "depth_is (d + 1) qs"
    using ctl_lock_ok [of ?t d] q by auto
  show ?thesis
  proof (cases "tc_work t")
    case False
    then have "atbm_tx_policy_renew t = Some (t\<lparr>tc_queues := qs, tc_env := e, tc_wsm_lock := 1, tc_work := True\<rparr>)"
      using l(1) w by (simp add: atbm_tx_policy_renew_def)
    with l False show ?thesis by auto
  next
    case True
    let ?u = "?t\<lparr>tc_queues := qs, tc_env := e\<rparr>"
    obtain qs' e' where u: "ctl_unlock ?u = Some (?u\<lparr>tc_queues := qs', tc_env := e'\<rparr>)" "queues_ok qs' e'" "depth_is d qs'"
      using ctl_unlock_ok [of ?u d] l q(3) by auto
    have "atbm_tx_policy_renew t =
        Some (t\<lparr>tc_queues := qs', tc_env := e', tc_wsm_lock := 1, tc_work := True\<rparr>)"
      using l(1) u(1) w True by (simp add: atbm_tx_policy_renew_def)
    with u True show ?thesis by auto
  qed
qed

text \<open>What a frame gets: an entry whose policy is the wanted one as far as the wanted one reaches.\<close>

lemma tx_policy_get_ok:
  assumes inv: "policy_sys_inv (hs, t)" and b: "tx_policy_build b m rates n = Some w"
    and f: "pc_free (tc_cache t) \<noteq> []" and l: "length hs < 255"
  shows "\<exists>i renew t'. tx_policy_get b m rates n t = Some (i, renew, t') \<and> i < 8 \<and>
     cache_ok (i # hs) (tc_cache t') \<and> queues_ok (tc_queues t') (tc_env t') \<and>
     depth_is (lock_depth t') (tc_queues t') \<and> tc_work t' = tc_work t \<and> tc_wsm_lock t' = tc_wsm_lock t \<and>
     (\<forall>j < 8. needs_upload (pc_cache (tc_cache t') ! j) \<longrightarrow> renew \<or> tc_work t) \<and>
     tx_policy_is_equal w (pc_cache (tc_cache t') ! i) \<and>
     (\<forall>j \<in> set hs. pl_tbl (pc_cache (tc_cache t') ! j) = pl_tbl (pc_cache (tc_cache t) ! j))"
proof -
  let ?c = "tc_cache t"
  note iv = inv [unfolded policy_sys_inv.simps]
  have c8: "length (pc_cache ?c) = 8" using iv by (simp add: cache_ok_def)
  have fresh: "pl_usage w = 0" "pl_uploaded w = 0" using build_fresh [OF b] by simp_all
  have step: "\<exists>t'. (do { c \<leftarrow> tx_policy_use c i; let t = t\<lparr>tc_cache := c\<rparr>;
        t \<leftarrow> (if pc_free c = [] then ctl_lock t else Some t); Some (i, renew, t) }) = Some (i, renew, t') \<and>
     cache_ok (i # hs) (tc_cache t') \<and> queues_ok (tc_queues t') (tc_env t') \<and>
     depth_is (lock_depth t') (tc_queues t') \<and> tc_work t' = tc_work t \<and> tc_wsm_lock t' = tc_wsm_lock t \<and>
     pc_cache (tc_cache t') = (pc_cache c)[i := (pc_cache c ! i)\<lparr>pl_usage := pl_usage (pc_cache c ! i) + 1\<rparr>]"
    if c: "cache_ok hs c" and i: "i < 8" for c i renew
  proof -
    obtain c' where u: "tx_policy_use c i = Some c'" "cache_ok (i # hs) c'"
      "pc_cache c' = (pc_cache c)[i := (pc_cache c ! i)\<lparr>pl_usage := pl_usage (pc_cache c ! i) + 1\<rparr>]"
      using tx_policy_use_ok [OF c i l] by blast
    let ?t = "t\<lparr>tc_cache := c'\<rparr>" and ?w = "(if tc_work t then 1 else 0) :: nat"
    obtain qs e where q: "(if pc_free c' = [] then ctl_lock ?t else Some ?t) = Some (?t\<lparr>tc_queues := qs, tc_env := e\<rparr>)"
      "queues_ok qs e" "depth_is (?w + (if pc_free c' = [] then 1 else 0)) qs"
      using maybe_lock_ok [of ?t ?w "pc_free c' = []"] iv f by (cases "tc_work t") (auto simp: lock_depth_def)
    show ?thesis
      by (rule exI [of _ "?t\<lparr>tc_queues := qs, tc_env := e\<rparr>"])
         (use u q in \<open>simp add: lock_depth_def add.commute\<close>)
  qed
  show ?thesis
  proof (cases "tx_policy_find ?c w")
    case (Some i)
    have i: "i < 8" "tx_policy_is_equal w (pc_cache ?c ! i)"
      using find_in [OF Some] iv by (auto simp: cache_ok_def)
    obtain t' where t': "tx_policy_get b m rates n t = Some (i, False, t')" "cache_ok (i # hs) (tc_cache t')"
      "queues_ok (tc_queues t') (tc_env t')" "depth_is (lock_depth t') (tc_queues t')" "tc_work t' = tc_work t"
      "tc_wsm_lock t' = tc_wsm_lock t"
      "pc_cache (tc_cache t') = (pc_cache ?c)[i := (pc_cache ?c ! i)\<lparr>pl_usage := pl_usage (pc_cache ?c ! i) + 1\<rparr>]"
      using step [of ?c i False] iv i(1) b Some by (auto simp: tx_policy_get_def)
    have "tx_policy_is_equal w (pc_cache (tc_cache t') ! i)"
      using i c8 t'(7) by (simp add: policy_equal_simps)
    moreover have "needs_upload (pc_cache (tc_cache t') ! j) = needs_upload (pc_cache ?c ! j)"
        "pl_tbl (pc_cache (tc_cache t') ! j) = pl_tbl (pc_cache ?c ! j)" for j
      using t'(7) c8 i(1) by (auto simp: nth_update needs_upload_def)
    ultimately show ?thesis using t' i iv by auto
  next
    case None
    obtain i c' where k: "tx_policy_claim ?c w = Some (i, c')" "i < 8" "i \<notin> set hs" "cache_ok hs c'"
      "pc_cache c' = (pc_cache ?c)[i := w]"
      using tx_policy_claim_ok [of hs ?c w] iv f fresh by blast
    obtain t' where t': "tx_policy_get b m rates n t = Some (i, True, t')" "cache_ok (i # hs) (tc_cache t')"
      "queues_ok (tc_queues t') (tc_env t')" "depth_is (lock_depth t') (tc_queues t')" "tc_work t' = tc_work t"
      "tc_wsm_lock t' = tc_wsm_lock t"
      "pc_cache (tc_cache t') = (pc_cache c')[i := (pc_cache c' ! i)\<lparr>pl_usage := pl_usage (pc_cache c' ! i) + 1\<rparr>]"
      using step [of c' i True] k b None f by (auto simp: tx_policy_get_def)
    have "tx_policy_is_equal w (pc_cache (tc_cache t') ! i)"
      using k(2,5) c8 t'(7) by (simp add: policy_equal_simps)
    moreover have "pl_tbl (pc_cache (tc_cache t') ! j) = pl_tbl (pc_cache ?c ! j)" if "j \<in> set hs" for j
      using t'(7) k that by (auto simp: nth_update)
    ultimately show ?thesis using t' k(2) by auto
  qed
qed

lemma frame_step:
  assumes "policy_sys_inv (hs, t)" "policy_op_ok (Pc_frame b m rates n) (hs, t)"
  shows "\<exists>i t'. policy_step (Pc_frame b m rates n) (hs, t) = Some (i # hs, t') \<and> policy_sys_inv (i # hs, t') \<and> i < 8 \<and>
     tx_policy_is_equal (the (tx_policy_build b m rates n)) (pc_cache (tc_cache t') ! i) \<and>
     (\<forall>j \<in> set hs. pl_tbl (pc_cache (tc_cache t') ! j) = pl_tbl (pc_cache (tc_cache t) ! j))"
proof -
  obtain w where w: "tx_policy_build b m rates n = Some w" using assms(2) by auto
  obtain i renew t' where g: "tx_policy_get b m rates n t = Some (i, renew, t')" "i < 8"
    "cache_ok (i # hs) (tc_cache t')" "queues_ok (tc_queues t') (tc_env t')"
    "depth_is (lock_depth t') (tc_queues t')" "tc_work t' = tc_work t" "tc_wsm_lock t' = tc_wsm_lock t"
    "\<forall>j < 8. needs_upload (pc_cache (tc_cache t') ! j) \<longrightarrow> renew \<or> tc_work t"
    "tx_policy_is_equal w (pc_cache (tc_cache t') ! i)"
    "\<forall>j \<in> set hs. pl_tbl (pc_cache (tc_cache t') ! j) = pl_tbl (pc_cache (tc_cache t) ! j)"
    using tx_policy_get_ok [OF assms(1) w] assms(2) by auto
  have ws: "tc_wsm_lock t' = (if tc_work t' then 1 else 0)" using assms(1) g(6,7) by simp
  show ?thesis
  proof (cases renew)
    case False
    then show ?thesis using g w ws by (intro exI [of _ i] exI [of _ t']) auto
  next
    case True
    have ld: "lock_depth t' < 900" by (simp add: lock_depth_def)
    obtain qs e where r: "atbm_tx_policy_renew t' =
        Some (t'\<lparr>tc_queues := qs, tc_env := e, tc_wsm_lock := 1, tc_work := True\<rparr>)"
      "queues_ok qs e" "depth_is (lock_depth t' + (if tc_work t' then 0 else 1)) qs"
      using atbm_tx_policy_renew_ok [OF g(4,5) ld ws] by blast
    let ?t = "t'\<lparr>tc_queues := qs, tc_env := e, tc_wsm_lock := 1, tc_work := True\<rparr>"
    have "lock_depth ?t = lock_depth t' + (if tc_work t' then 0 else 1)" by (simp add: lock_depth_def)
    then have "policy_sys_inv (i # hs, ?t)" using r(2,3) g(3) by simp
    then show ?thesis
      using True g(1,2,9,10) w r(1) by (intro exI [of _ i] exI [of _ ?t]) simp
  qed
qed

lemma done_step:
  assumes inv: "policy_sys_inv (hs, t)" and i: "i \<in> set hs"
  shows "\<exists>t'. policy_step (Pc_done i) (hs, t) = Some (remove1 i hs, t') \<and> policy_sys_inv (remove1 i hs, t') \<and>
     (\<forall>j < 8. pl_tbl (pc_cache (tc_cache t') ! j) = pl_tbl (pc_cache (tc_cache t) ! j))"
proof -
  let ?hs = "remove1 i hs" and ?c = "tc_cache t"
  note iv = inv [unfolded policy_sys_inv.simps]
  have c8: "length (pc_cache ?c) = 8" using iv by (simp add: cache_ok_def)
  have i8: "i < 8" using iv i by (auto simp: cache_ok_def)
  then have nf: "i \<notin> set (pc_free ?c)" using iv i by (simp add: cache_ok_def)
  obtain c' where r: "tx_policy_release ?c i = Some (of_nat (count_list ?hs i), c')" "cache_ok ?hs c'"
    "pc_free c' = (if i \<in> set ?hs then pc_free ?c else i # remove1 i (pc_free ?c))"
    "pc_cache c' = (pc_cache ?c)[i := (pc_cache ?c ! i)\<lparr>pl_usage := pl_usage (pc_cache ?c ! i) - 1\<rparr>]"
    using tx_policy_release_ok [OF _ i i8] iv by blast
  have "count_list ?hs i < 256" using r(2) count_list_le [of ?hs i] by (simp add: cache_ok_def)
  then have z: "(of_nat (count_list ?hs i) :: u8) = 0 \<longleftrightarrow> i \<notin> set ?hs"
    using word_set_of_nat_inject [of "count_list ?hs i" 0, where 'a = 8] count_list_0_iff [of ?hs i]
    by (simp del: count_list_remove1)
  let ?t = "t\<lparr>tc_cache := c'\<rparr>"
  have up: "\<forall>j < 8. needs_upload (pc_cache c' ! j) \<longrightarrow> tc_work t"
    using r(4) iv c8 by (auto simp: nth_update needs_upload_def)
  have same: "\<forall>j < 8. pl_tbl (pc_cache c' ! j) = pl_tbl (pc_cache ?c ! j)"
    using r(4) by (simp add: nth_update)
  show ?thesis
  proof (cases "pc_free ?c = [] \<and> i \<notin> set ?hs")
    case False
    then have "tx_policy_put i t = Some ?t" using r(1) z by (auto simp: tx_policy_put_def simp del: count_list_remove1)
    moreover have "(pc_free c' = []) = (pc_free ?c = [])" using False r(3) nf by auto
    ultimately show ?thesis using iv r(2) up same by (intro exI [of _ ?t]) (simp add: lock_depth_def)
  next
    case True
    then have "depth_is ((if tc_work t then 1 else 0) + 1) (tc_queues ?t)" using iv by (simp add: lock_depth_def)
    then obtain qs e where u: "ctl_unlock ?t = Some (?t\<lparr>tc_queues := qs, tc_env := e\<rparr>)" "queues_ok qs e"
      "depth_is (if tc_work t then 1 else 0) qs"
      using ctl_unlock_ok [of ?t "if tc_work t then 1 else 0"] iv by (cases "tc_work t") auto
    have "tx_policy_put i t = Some (?t\<lparr>tc_queues := qs, tc_env := e\<rparr>)"
      using True r(1) z u(1) by (simp add: tx_policy_put_def del: count_list_remove1)
    moreover have "pc_free c' \<noteq> []" using True r(3) by simp
    ultimately show ?thesis using iv r(2) up same u(2,3)
      by (intro exI [of _ "?t\<lparr>tc_queues := qs, tc_env := e\<rparr>"]) (simp add: lock_depth_def)
  qed
qed

text \<open>The upload: what goes to the device is exactly what it does not have yet.\<close>

lemma upload_step:
  assumes inv: "policy_sys_inv (hs, t)" and w: "tc_work t"
  shows "\<exists>sent t'. tx_policy_upload_work False t = Some (sent, t') \<and> policy_sys_inv (hs, t') \<and>
     sent = fst (tx_policy_upload (tc_cache t)) \<and> (\<forall>j < 8. \<not> needs_upload (pc_cache (tc_cache t') ! j)) \<and>
     (\<forall>j < 8. pl_tbl (pc_cache (tc_cache t') ! j) = pl_tbl (pc_cache (tc_cache t) ! j))"
proof -
  note iv = inv [unfolded policy_sys_inv.simps]
  let ?c = "snd (tx_policy_upload (tc_cache t))"
  have c8: "length (pc_cache (tc_cache t)) = 8" using iv by (simp add: cache_ok_def)
  have nth: "pc_cache ?c ! j = (let p = pc_cache (tc_cache t) ! j in if needs_upload p then p\<lparr>pl_uploaded := 1\<rparr> else p)"
    if "j < 8" for j using that c8 by (simp add: tx_policy_upload_def Let_def)
  have lists: "pc_used ?c = pc_used (tc_cache t)" "pc_free ?c = pc_free (tc_cache t)" "length (pc_cache ?c) = 8"
    using c8 by (simp_all add: tx_policy_upload_def)
  have ok: "cache_ok hs ?c"
    using iv lists nth by (simp add: cache_ok_def Let_def)
  let ?t = "t\<lparr>tc_cache := ?c, tc_wsm_lock := 0, tc_work := False\<rparr>"
  have "depth_is (lock_depth ?t + 1) (tc_queues ?t)" using iv w lists by (simp add: lock_depth_def)
  then obtain qs e where u: "ctl_unlock ?t = Some (?t\<lparr>tc_queues := qs, tc_env := e\<rparr>)" "queues_ok qs e"
    "depth_is (lock_depth ?t) qs"
  proof -
    have "queues_ok (tc_queues ?t) (tc_env ?t)" "lock_depth ?t < 1000" using iv by (simp_all add: lock_depth_def)
    with \<open>depth_is (lock_depth ?t + 1) (tc_queues ?t)\<close> show ?thesis
      using ctl_unlock_ok [of ?t "lock_depth ?t"] that by blast
  qed
  let ?u = "?t\<lparr>tc_queues := qs, tc_env := e\<rparr>"
  have "tx_policy_upload_work False t = Some (fst (tx_policy_upload (tc_cache t)), ?u)"
    using u(1) iv w by (simp add: tx_policy_upload_work_def case_prod_beta Let_def)
  moreover have "\<not> needs_upload (pc_cache ?c ! j)" "pl_tbl (pc_cache ?c ! j) = pl_tbl (pc_cache (tc_cache t) ! j)"
    if "j < 8" for j using nth [OF that] by (auto simp: Let_def needs_upload_def)
  moreover have "lock_depth ?u = lock_depth ?t" by (simp add: lock_depth_def)
  ultimately show ?thesis using u(2,3) ok by (intro exI [of _ "fst (tx_policy_upload (tc_cache t))"] exI [of _ ?u]) simp
qed

lemma policy_step_ok:
  assumes "policy_sys_inv s" "policy_op_ok x s"
  shows "\<exists>s'. policy_step x s = Some s' \<and> policy_sys_inv s'"
proof -
  obtain hs t where s: "s = (hs, t)" by (cases s)
  show ?thesis
  proof (cases x)
    case (Pc_frame b m rates n)
    then show ?thesis using frame_step [of hs t b m rates n] assms s by blast
  next
    case (Pc_done i)
    then show ?thesis using done_step [of hs t i] assms s by (auto simp del: policy_sys_inv.simps policy_step.simps)
  next
    case Pc_upload
    with assms s obtain sent t' where "tx_policy_upload_work False t = Some (sent, t')" "policy_sys_inv (hs, t')"
      using upload_step [of hs t] by auto
    then show ?thesis using s Pc_upload by (simp del: policy_sys_inv.simps)
  qed
qed

interpretation policies: safe_steps policy_sys_inv policy_op_ok policy_step
  by unfold_locales (rule policy_step_ok)

end
