(* ===== verification/Tx_Policy_Props.thy ===== *)
theory Tx_Policy_Props
  imports Queue_Props Tx_Policy_Cache
begin

text \<open>The properties of the retry policy cache, each with a witness at a concrete state.\<close>

section \<open>Building and comparing\<close>

text \<open>
  Claim C14. A policy built from at most five rates never lets a frame be sent more often than the
  limit the driver was given, or once per rate where the limit is smaller than the series.
\<close>

theorem policy_build_within_limit:
  assumes "tx_policy_build b max_tx rates n = Some p" "0 < n" "n \<le> 5"
  shows "unat (pl_retry p) \<le> max (unat max_tx) n"
proof -
  obtain rs hw where rs: "policy_rates max_tx rates n = Some rs"
    "fill_rates b rs (zero_policy\<lparr>pl_defined := hw + 1\<rparr>) = Some p"
    using assms(1) by (auto simp: tx_policy_build_def bind_eq_Some_conv)
  have "unat (pl_retry p) \<le> tries rs" using fill_rates_retry [OF rs(2)] by (simp add: zero_policy_def)
  with policy_rates_tries [OF rs(1) assms(2,3)] show ?thesis by simp
qed

definition ex_rates :: "tx_rate list" where
  "ex_rates = [\<lparr>r_idx = 11, r_count = 4, r_flags = 0\<rparr>, \<lparr>r_idx = 7, r_count = 4, r_flags = 0\<rparr>,
     \<lparr>r_idx = 0, r_count = 6, r_flags = 0\<rparr>, \<lparr>r_idx = -1, r_count = 0, r_flags = 0\<rparr>,
     \<lparr>r_idx = -1, r_count = 0, r_flags = 0\<rparr>]"

definition ex_policy :: tx_policy where
  "ex_policy = the (tx_policy_build Band_2G 8 ex_rates 5)"

lemma ex_policy_build: "tx_policy_build Band_2G 8 ex_rates 5 = Some ex_policy"
proof -
  have "tx_policy_build Band_2G 8 ex_rates 5 \<noteq> None" by code_simp
  then show ?thesis by (auto simp: ex_policy_def)
qed

theorem policy_build_within_limit_witness:
  "tx_policy_build Band_2G 8 ex_rates 5 = Some ex_policy \<and> unat (pl_retry ex_policy) \<le> max (unat (8 :: u8)) 5"
  using policy_build_within_limit [OF ex_policy_build] ex_policy_build by simp

text \<open>
  Claim C15. The policy holds, for each rate of the final series, that rate's count cut off at
  fifteen in the four bits of the rate, and nothing for any other rate; \<open>defined\<close> is one more than
  the first rate.
\<close>

theorem policy_build_counts:
  assumes "tx_policy_build b max_tx rates n = Some p" "policy_rates max_tx rates n = Some rs"
    "distinct (map (atbm_get_tx_rate b) rs)"
  shows "(\<forall>r \<in> set rs. \<exists>hw. atbm_get_tx_rate b r = Some hw \<and> nibble p (unat hw) = ucast (retries_of r)) \<and>
     (\<forall>k < 24. (\<forall>r \<in> set rs. atbm_get_tx_rate b r \<noteq> Some (of_nat k)) \<longrightarrow> nibble p k = 0) \<and>
     (\<exists>hw. atbm_get_tx_rate b (hd rs) = Some hw \<and> pl_defined p = hw + 1)"
proof -
  obtain hw where hw: "rs \<noteq> []" "atbm_get_tx_rate b (rs ! 0) = Some hw"
    "fill_rates b rs (zero_policy\<lparr>pl_defined := hw + 1\<rparr>) = Some p"
    using assms(1,2) by (auto simp: tx_policy_build_def bind_eq_Some_conv array_simps)
  have z: "nibble (zero_policy\<lparr>pl_defined := d\<rparr>) k = 0" if "k < 24" for k d
  proof -
    have "k div 8 < 3" using that by simp
    then have "[0, 0, 0 :: u32] ! (k div 8) = 0" by (simp add: less_Suc_eq numeral_3_eq_3) auto
    then show ?thesis by (simp add: nibble_def zero_policy_def)
  qed
  have hwb: "unat h < 24" if "atbm_get_tx_rate b r = Some h" for r h
  proof -
    have "h \<in> set mcs_rates \<union> set (bitrates b)"
      using that by (auto simp: atbm_get_tx_rate_def array_simps split: if_splits)
    then show ?thesis by (auto simp: mcs_rates_def bitrates_def split: band.splits)
  qed
  note f = fill_rates_nibble [OF hw(3) assms(3)]
  have "\<exists>h. atbm_get_tx_rate b r = Some h \<and> nibble p (unat h) = ucast (retries_of r)" if r: "r \<in> set rs" for r
  proof -
    obtain h where h: "atbm_get_tx_rate b r = Some h" using f r by blast
    then have "nibble p (unat h) = nibble (zero_policy\<lparr>pl_defined := hw + 1\<rparr>) (unat h) OR ucast (retries_of r)"
      using f r by blast
    with h z [OF hwb [OF h]] show ?thesis by simp
  qed
  moreover have "nibble p k = 0" if "k < 24" "\<forall>r \<in> set rs. atbm_get_tx_rate b r \<noteq> Some (of_nat k)" for k
    using f that z [OF that(1)] by metis
  moreover have "pl_defined p = hw + 1" using f by (simp add: zero_policy_def)
  ultimately show ?thesis using hw by (auto simp: hd_conv_nth)
qed

definition ex_series :: "tx_rate list" where
  "ex_series = the (policy_rates 8 ex_rates 5)"

lemma ex_series: "policy_rates 8 ex_rates 5 = Some ex_series" "distinct (map (atbm_get_tx_rate Band_2G) ex_series)"
proof -
  have "policy_rates 8 ex_rates 5 \<noteq> None" by code_simp
  then show "policy_rates 8 ex_rates 5 = Some ex_series" by (auto simp: ex_series_def)
  show "distinct (map (atbm_get_tx_rate Band_2G) ex_series)" by code_simp
qed

theorem policy_build_counts_witness:
  "\<exists>hw. atbm_get_tx_rate Band_2G (hd ex_series) = Some hw \<and> pl_defined ex_policy = hw + 1"
  using policy_build_counts [OF ex_policy_build ex_series] by blast

text \<open>
  The comparison of the raw bytes accepts a cached policy exactly when it reaches as far
  as the wanted one and gives every rate up to there the same count.
\<close>

theorem policy_equal_decides:
  "tx_policy_is_equal w c =
     (pl_defined w \<le> pl_defined c \<and> (\<forall>r < unat (pl_defined w). nibble w r = nibble c r))"
  by (rule tx_policy_is_equal_iff)

theorem policy_equal_decides_witness:
  "\<not> tx_policy_is_equal ex_policy zero_policy"
proof -
  have "\<not> pl_defined ex_policy \<le> pl_defined zero_policy" by code_simp
  then show ?thesis using policy_equal_decides [of ex_policy zero_policy] by blast
qed

text \<open>
  The series is not sorted as the comment says: one pass over three rising rates leaves
  the middle one first, and merging then drops the other two.
\<close>

theorem policy_drops_rising_rates:
  assumes "0 \<le> sint (r_idx x)" "sint (r_idx x) < sint (r_idx y)" "sint (r_idx y) < sint (r_idx z)"
  shows "\<exists>r. policy_rates max_tx [x, y, z] 3 = Some [r] \<and> r_idx r = r_idx y"
proof -
  have ne: "r_idx z \<noteq> r_idx y" using assms(3) by auto
  have s: "sort_loop 1 3 [x, y, z] = Some ([y, z, x], 3)"
    using assms by (simp add: sort_loop.simps)
  have d: "dedupe_loop 0 1 3 [y, z, x] tot = Some ([y, z, x], 1, tot)" for tot
    using assms ne by (subst dedupe_loop.simps) simp
  have r: "\<exists>r. refill_loop 0 1 l [y, z, x] = Some [r, z, x] \<and> r_idx r = r_idx y" for l
    by (simp add: refill_loop.simps)
  let ?l = "if unat max_tx < 1 then of_nat 1 else (ucast max_tx :: u32)"
  have "policy_rates max_tx [x, y, z] 3 = do {
      rates \<leftarrow> (if ?l < ucast (r_count y) then refill_loop 0 1 ?l [y, z, x] else Some [y, z, x]);
      Some (take 1 rates) }"
    unfolding policy_rates_def using assms(1) by (simp add: s [simplified] d [simplified] inject_applies_def Let_def)
  then show ?thesis using r [of ?l] by (cases "?l < ucast (r_count y)") auto
qed

theorem policy_drops_rising_rates_witness:
  "\<exists>r. policy_rates 8 [\<lparr>r_idx = 1, r_count = 2, r_flags = 0\<rparr>, \<lparr>r_idx = 2, r_count = 2, r_flags = 0\<rparr>,
       \<lparr>r_idx = 3, r_count = 2, r_flags = 0\<rparr>] 3 = Some [r] \<and> r_idx r = 2"
  using policy_drops_rising_rates [of "\<lparr>r_idx = 1, r_count = 2, r_flags = 0\<rparr>"
     "\<lparr>r_idx = 2, r_count = 2, r_flags = 0\<rparr>" "\<lparr>r_idx = 3, r_count = 2, r_flags = 0\<rparr>" 8] by simp

section \<open>The cache in use\<close>

definition policy_start :: "atbm_queue list \<Rightarrow> tx_env \<Rightarrow> policy_sys" where
  "policy_start qs e = ([], \<lparr>tc_cache = tx_policy_init, tc_queues = qs, tc_env = e, tc_wsm_lock = 0, tc_work = False\<rparr>)"

definition fresh_queues :: "u32 \<Rightarrow> atbm_queue list \<Rightarrow> tx_env \<Rightarrow> bool" where
  "fresh_queues cap qs e \<longleftrightarrow> unat cap \<le> 256 \<and> length qs = 4 \<and> list_all (\<lambda>i. fresh_env (of_nat i) e \<and>
     atbm_queue_init (of_nat i) cap 50 [True, True, True] = Inr (qs ! i)) [0..<4]"

lemma queue_init_fields:
  assumes "atbm_queue_init qid cap ttl qa = Inr q"
  shows "q_queue_id q = qid" "q_tx_locked_cnt q = replicate 2 0" "q_overfull q = replicate 2 False"
  using assms by (auto simp: atbm_queue_init_def ATBM_WIFI_MAX_VIFS_def split: if_splits)

lemma fresh_queues_ok:
  assumes "fresh_queues cap qs e"
  shows "queues_ok qs e" "\<And>i. i < 4 \<Longrightarrow> q_tx_locked_cnt (qs ! i) = replicate 2 0"
    "\<And>i. i < 4 \<Longrightarrow> q_overfull (qs ! i) = replicate 2 False"
proof -
  have q: "fresh_env (of_nat i) e" "atbm_queue_init (of_nat i) cap 50 [True, True, True] = Inr (qs ! i)" if "i < 4" for i
    using assms that by (auto simp: fresh_queues_def list_all_iff)
  have id: "unat (of_nat i :: u8) = i" if "i < 4" for i
    using that by (simp add: unat_of_nat take_bit_nat_eq_self)
  have st: "atbm_queue_stats_init WLAN_LINK_ID_MAX [True, True] = Inr ex_stats" by (rule ex_init)
  have g: "queue_inv (qs ! i)" "gate_ok (qs ! i) e" if "i < 4" for i
    using queue_start_inv [OF st q(2) _ _ q(1), OF that _ _ that] id [OF that] that assms by (simp_all add: fresh_queues_def)
  show u: "q_tx_locked_cnt (qs ! i) = replicate 2 0" "q_overfull (qs ! i) = replicate 2 False" if "i < 4" for i
    using queue_init_fields [OF q(2) [OF that]] by simp_all
  have "unat (q_queue_id (qs ! i)) = i" if "i < 4" for i
    using queue_init_fields [OF q(2) [OF that]] id [OF that] by simp
  then show "queues_ok qs e" using assms g by (simp add: queues_ok_def fresh_queues_def)
qed

lemma policy_start_inv:
  assumes "fresh_queues cap qs e"
  shows "policy_sys_inv (policy_start qs e)"
proof -
  note q = fresh_queues_ok [OF assms]
  have "depth_is 0 qs" using q(2,3) by (simp add: depth_is_def)
  moreover have "pc_free tx_policy_init = [7, 6, 5, 4, 3, 2, 1, 0]" by code_simp
  moreover have "\<forall>i < 8. \<not> needs_upload (pc_cache tx_policy_init ! i)"
    by (simp add: tx_policy_init_def TX_POLICY_CACHE_SIZE_def needs_upload_def zero_policy_def)
  ultimately show ?thesis using q(1) cache_ok_init by (simp add: policy_start_def lock_depth_def)
qed

definition ex_qs :: "atbm_queue list" where
  "ex_qs = map (\<lambda>i. projr (atbm_queue_init (of_nat i) 2 50 [True, True, True])) [0..<4]"

lemma ex_qs_fresh: "fresh_queues 2 ex_qs ex_env"
  by code_simp

definition one_rate :: "nat \<Rightarrow> tx_rate list" where
  "one_rate k = [\<lparr>r_idx = of_nat k, r_count = 4, r_flags = 0\<rparr>, \<lparr>r_idx = -1, r_count = 0, r_flags = 0\<rparr>]"









text \<open>
  Claim C21. While every entry is in use, a further frame that finds its policy in the cache locks
  the transmit queues once more, and its confirmation does not unlock them: afterwards every queue
  holds one lock more than the cache and the upload account for.
\<close>

theorem policy_full_hit_leaks_lock:
  assumes "policy_sys_inv (hs, t)" "tx_policy_build b m rates n = Some w"
    "pc_free (tc_cache t) = []" "tx_policy_find (tc_cache t) w = Some i" "length hs < 255"
  shows "\<exists>t1 t2. tx_policy_get b m rates n t = Some (i, False, t1) \<and> tx_policy_put i t1 = Some t2 \<and>
     pc_free (tc_cache t2) = [] \<and> tc_work t2 = tc_work t \<and> depth_is (lock_depth t2 + 1) (tc_queues t2)"
proof -
  let ?c = "tc_cache t"
  note iv = assms(1) [unfolded policy_sys_inv.simps]
  have i: "i < 8" using find_in [OF assms(4)] iv by (auto simp: cache_ok_def)
  then have held: "i \<in> set hs" using iv assms(3) by (simp add: cache_ok_def)
  obtain c1 where u: "tx_policy_use ?c i = Some c1" "cache_ok (i # hs) c1" "pc_free c1 = []"
    using tx_policy_use_ok [OF _ i assms(5)] iv assms(3) by fastforce
  obtain qs e where l: "ctl_lock (t\<lparr>tc_cache := c1\<rparr>) = Some (t\<lparr>tc_cache := c1, tc_queues := qs, tc_env := e\<rparr>)"
    "depth_is (lock_depth t + 1) qs"
  proof -
    have "lock_depth t < 1000" by (simp add: lock_depth_def)
    with ctl_lock_ok [of "t\<lparr>tc_cache := c1\<rparr>" "lock_depth t"] iv that show ?thesis by auto
  qed
  let ?t1 = "t\<lparr>tc_cache := c1, tc_queues := qs, tc_env := e\<rparr>"
  have g: "tx_policy_get b m rates n t = Some (i, False, ?t1)"
    using assms(2,4) u l(1) by (simp add: tx_policy_get_def)
  obtain c2 where r: "tx_policy_release c1 i = Some (of_nat (count_list hs i), c2)" "cache_ok hs c2" "pc_free c2 = []"
    using tx_policy_release_ok [OF u(2) _ i] u(3) held by fastforce
  have "count_list hs i < 256" using iv count_list_le [of hs i] by (simp add: cache_ok_def)
  then have "(of_nat (count_list hs i) :: u8) \<noteq> 0"
    using word_set_of_nat_inject [of "count_list hs i" 0, where 'a = 8] held by (simp add: count_list_0_iff)
  then have "tx_policy_put i ?t1 = Some (?t1\<lparr>tc_cache := c2\<rparr>)"
    using r(1) by (simp add: tx_policy_put_def)
  with g r(3) l(2) assms(3) show ?thesis
    by (intro exI [of _ ?t1] exI [of _ "?t1\<lparr>tc_cache := c2\<rparr>"]) (simp add: lock_depth_def)
qed

text \<open>Eight frames of one rate each fill the cache.\<close>

definition ex_full_ops :: "policy_op list" where
  "ex_full_ops = map (\<lambda>k. Pc_frame Band_2G 8 (one_rate k) 2) [0..<8]"

definition ex_full :: policy_sys where
  "ex_full = the (run_ops policy_step ex_full_ops (policy_start ex_qs ex_env))"

lemma ex_full_inv: "policy_sys_inv (fst ex_full, snd ex_full)"
proof -
  have "run_ok policy_op_ok policy_step ex_full_ops (policy_start ex_qs ex_env)" by code_simp
  from policies.run_total [OF policy_start_inv [OF ex_qs_fresh] this]
  have "policy_sys_inv ex_full" by (auto simp: ex_full_def simp del: policy_sys_inv.simps)
  then show ?thesis by (metis prod.collapse)
qed

theorem policy_full_hit_leaks_lock_witness:
  "\<exists>t1 t2. tx_policy_get Band_2G 8 (one_rate 3) 2 (snd ex_full) = Some (3, False, t1) \<and> tx_policy_put 3 t1 = Some t2 \<and>
     depth_is (lock_depth t2 + 1) (tc_queues t2)"
proof -
  have p: "(\<lambda>s. pc_free (tc_cache (snd s)) = [] \<and> length (fst s) < 255 \<and>
      (case tx_policy_build Band_2G 8 (one_rate 3) 2 of None \<Rightarrow> False
       | Some w \<Rightarrow> tx_policy_find (tc_cache (snd s)) w = Some 3)) ex_full" by code_simp
  then obtain w where w: "tx_policy_build Band_2G 8 (one_rate 3) 2 = Some w"
    "tx_policy_find (tc_cache (snd ex_full)) w = Some 3" by (auto split: option.splits)
  show ?thesis
    using policy_full_hit_leaks_lock [OF ex_full_inv w(1) _ w(2)] p by blast
qed

end
