(* ===== verification/Frame.thy ===== *)
theory Frame
  imports Prelude
begin

text \<open>
  An 802.11 frame as the bytes of its buffer: little-endian reads, the tests of the frame control
  field and the addresses, as the kernel's \<open>linux/ieee80211.h\<close> defines them. A read outside the
  frame is \<open>None\<close>.
\<close>

section \<open>Little-endian words\<close>

definition le16 :: "u8 \<Rightarrow> u8 \<Rightarrow> u16" where
  "le16 a b = ucast a OR push_bit 8 (ucast b)"

definition le32 :: "u8 \<Rightarrow> u8 \<Rightarrow> u8 \<Rightarrow> u8 \<Rightarrow> u32" where
  "le32 a b c d = ucast a OR push_bit 8 (ucast b) OR push_bit 16 (ucast c) OR push_bit 24 (ucast d)"

definition le16_at :: "u8 list \<Rightarrow> nat \<Rightarrow> u16 option" where
  "le16_at d i = do { a \<leftarrow> rd d i; b \<leftarrow> rd d (i + 1); Some (le16 a b) }"

definition le32_at :: "u8 list \<Rightarrow> nat \<Rightarrow> u32 option" where
  "le32_at d i = do { a \<leftarrow> rd d i; b \<leftarrow> rd d (i + 1); c \<leftarrow> rd d (i + 2); e \<leftarrow> rd d (i + 3); Some (le32 a b c e) }"

definition put_le32 :: "u32 \<Rightarrow> u8 list" where
  "put_le32 w = [ucast w, ucast (drop_bit 8 w), ucast (drop_bit 16 w), ucast (drop_bit 24 w)]"

lemma le32_put_le32:
  "le32 (ucast w) (ucast (drop_bit 8 w)) (ucast (drop_bit 16 w)) (ucast (drop_bit 24 w)) = w"
proof (rule bit_word_eqI)
  fix n assume "n < LENGTH(32)"
  then consider "n < 8" | "8 \<le> n" "n < 16" | "16 \<le> n" "n < 24" | "24 \<le> n" "n < 32" by fastforce
  then show "bit (le32 (ucast w) (ucast (drop_bit 8 w)) (ucast (drop_bit 16 w)) (ucast (drop_bit 24 w))) n = bit w n"
    by cases (auto simp: le32_def bit_simps)
qed

lemma bit_u8: "8 \<le> n \<Longrightarrow> bit (w :: u8) n = False"
  using bit_imp_le_length [of w n] by auto

lemma put_le32_le32: "put_le32 (le32 a b c d) = [a, b, c, d]"
  by (auto simp: put_le32_def le32_def bit_simps bit_u8 intro!: bit_word_eqI)

definition put_le16 :: "u16 \<Rightarrow> u8 list" where
  "put_le16 w = [ucast w, ucast (drop_bit 8 w)]"

lemma le16_put_le16: "le16_at (xs @ put_le16 w @ ys) (length xs) = Some w"
proof -
  have "le16 (ucast w) (ucast (drop_bit 8 w)) = w"
    by (rule bit_word_eqI) (auto simp: le16_def bit_simps)
  then show ?thesis by (simp add: le16_at_def put_le16_def rd_def nth_append)
qed

lemma length_put_le16 [simp]: "length (put_le16 w) = 2"
  by (simp add: put_le16_def)

section \<open>The frame control field\<close>

definition ieee80211_is_data :: "u16 \<Rightarrow> bool" where
  "ieee80211_is_data fc \<longleftrightarrow> fc AND 0x000c = 0x0008"

definition ieee80211_is_data_qos :: "u16 \<Rightarrow> bool" where
  "ieee80211_is_data_qos fc \<longleftrightarrow> fc AND 0x008c = 0x0088"

definition ieee80211_has_tods :: "u16 \<Rightarrow> bool" where
  "ieee80211_has_tods fc \<longleftrightarrow> fc AND 0x0100 \<noteq> 0"

definition ieee80211_has_fromds :: "u16 \<Rightarrow> bool" where
  "ieee80211_has_fromds fc \<longleftrightarrow> fc AND 0x0200 \<noteq> 0"

definition ieee80211_has_a4 :: "u16 \<Rightarrow> bool" where
  "ieee80211_has_a4 fc \<longleftrightarrow> fc AND 0x0300 = 0x0300"

definition IEEE80211_STYPE_NULLFUNC :: u16 where
  "IEEE80211_STYPE_NULLFUNC = 0x0040"

definition qos_ctl_offset :: "u16 \<Rightarrow> nat" where
  "qos_ctl_offset fc = (if ieee80211_has_a4 fc then 30 else 24)"

definition da_offset :: "u16 \<Rightarrow> nat" where
  "da_offset fc = (if ieee80211_has_tods fc then 16 else 4)"

definition sa_offset :: "u16 \<Rightarrow> nat" where
  "sa_offset fc = (if ieee80211_has_a4 fc then 24 else if ieee80211_has_fromds fc then 16 else 10)"

text \<open>The sequence control field: twelve bits of sequence number, four of fragment number.\<close>

definition seq_ctrl :: "u8 list \<Rightarrow> u16" where
  "seq_ctrl d = le16 (d ! 22) (d ! 23)"

definition ctrl_seq :: "u16 \<Rightarrow> u16" where
  "ctrl_seq sc = drop_bit 4 (sc AND 0xFFF0)"

lemma ctrl_seq_less: "unat (ctrl_seq sc) < 4096"
proof -
  have "unat (sc AND 0xFFF0) < 65536" using unsigned_less [of "sc AND 0xFFF0", where 'a = nat] by simp
  then show ?thesis by (simp add: ctrl_seq_def drop_bit_eq_div unat_div_distrib)
qed

lemma seq_ctrl_at: "24 \<le> length d \<Longrightarrow> le16_at d 22 = Some (seq_ctrl d)"
  by (simp add: le16_at_def seq_ctrl_def)

end
