(* ===== verification/Reorder.thy ===== *)
theory Reorder
  imports Frame
begin

text \<open>
  The receive reorder buffer of a block-ack session (\<open>hal_apollo/mac80211/rx.c\<close>,
  \<open>struct tid_ampdu_rx\<close> of \<open>sta_info.h\<close>). Sequence numbers count modulo 4096; the slot of a frame
  is its distance from the session's first number modulo the size of the buffer.

  \<open>sk_id\<close> names a frame; \<open>sk_qos_dup\<close> is the flag \<open>RX_FLAG_QOS_DUP\<close>, \<open>sk_deferred\<close> the flag
  \<open>IEEE80211_RX_DEFERRED_RELEASE\<close>. A timer is the value it expires at, \<open>None\<close> when it is not
  armed; the session timer keeps the time it was armed at and its length in TUs. \<open>HZ\<close> is the field
  \<open>rx_hz\<close> of the environment, which also holds the two static variables of the file and the frames
  that were freed.
\<close>

section \<open>State\<close>

record rx_skb =
  sk_id :: nat
  sk_data :: "u8 list"
  sk_qos_dup :: bool
  sk_deferred :: bool

record tid_ampdu_rx =
  reorder_buf :: "rx_skb option list"
  reorder_time :: "u64 list"
  session_timer :: "(u64 \<times> u16) option"
  reorder_timer :: "u64 option"
  head_seq_num :: u16
  stored_mpdu_num :: u16
  ba_ssn :: u16
  buf_size :: u16
  ba_timeout :: u16
  dialog_token :: u8
  hw_token :: u8

record rx_env =
  rx_jiffies :: u64
  rx_hz :: u64
  reorder_buf_timeout :: u64
  short_rx_cnt :: int
  rx_freed :: "nat list"

section \<open>Sequence numbers\<close>

definition SEQ_MODULO :: u16 where "SEQ_MODULO = 0x1000"
definition SEQ_MASK :: u16 where "SEQ_MASK = 0xfff"

definition seq_less :: "u16 \<Rightarrow> u16 \<Rightarrow> bool" where
  "seq_less a b \<longleftrightarrow> (a - b) AND SEQ_MASK > drop_bit 1 SEQ_MODULO"

definition seq_inc :: "u16 \<Rightarrow> u16" where
  "seq_inc a = (a + 1) AND SEQ_MASK"

definition seq_sub :: "u16 \<Rightarrow> u16 \<Rightarrow> u16" where
  "seq_sub a b = (a - b) AND SEQ_MASK"

text \<open>\<open>seq_sub(s, ssn) % buf_size\<close>; a division by zero is \<open>None\<close>.\<close>

definition slot_of :: "tid_ampdu_rx \<Rightarrow> u16 \<Rightarrow> nat option" where
  "slot_of t s = (if buf_size t = 0 then None else Some (unat (seq_sub s (ba_ssn t) mod buf_size t)))"

definition time_after :: "u64 \<Rightarrow> u64 \<Rightarrow> bool" where
  "time_after a b \<longleftrightarrow> sint (b - a) < 0"

section \<open>Releasing frames\<close>

definition ieee80211_release_reorder_frame ::
  "tid_ampdu_rx \<Rightarrow> nat \<Rightarrow> rx_skb list \<Rightarrow> (tid_ampdu_rx \<times> rx_skb list) option" where
  "ieee80211_release_reorder_frame t index frames = do {
     skb \<leftarrow> rd (reorder_buf t) index;
     let (t, frames) = (case skb of
         None \<Rightarrow> (t, frames)
       | Some k \<Rightarrow> (t\<lparr>stored_mpdu_num := stored_mpdu_num t - 1, reorder_buf := (reorder_buf t)[index := None]\<rparr>,
                   frames @ [k\<lparr>sk_deferred := True\<rparr>]));
     Some (t\<lparr>head_seq_num := seq_inc (head_seq_num t)\<rparr>, frames) }"

lemma release_frame_head:
  "ieee80211_release_reorder_frame t i fs = Some (t', fs') \<Longrightarrow> head_seq_num t' = seq_inc (head_seq_num t)"
  by (auto simp: ieee80211_release_reorder_frame_def bind_eq_Some_conv Let_def split: option.splits)

text \<open>The distance of two sequence numbers, as an integer.\<close>

lemma seq_mask_mod: "uint (a AND SEQ_MASK) = uint a mod 4096"
proof -
  have "(SEQ_MASK :: u16) = mask 12" by (simp add: SEQ_MASK_def mask_eq_exp_minus_1)
  then have "a AND SEQ_MASK = take_bit 12 a" by (simp only: take_bit_eq_mask)
  then have "uint (a AND SEQ_MASK) = take_bit 12 (uint a)" by (simp only: unsigned_take_bit_eq)
  then show ?thesis by (simp add: take_bit_eq_mod)
qed

lemma mod_65536: "(x :: int) mod 65536 mod 4096 = x mod 4096"
  by (rule mod_mod_cancel) simp

lemma uint_seq_sub: "uint (seq_sub a b) = (uint a - uint b) mod 4096"
  by (simp add: seq_sub_def seq_mask_mod uint_word_ariths mod_65536)

lemma uint_seq_inc: "uint (seq_inc a) = (uint a + 1) mod 4096"
  by (simp add: seq_inc_def seq_mask_mod uint_word_ariths mod_65536)

lemma seq_less_iff: "seq_less a b \<longleftrightarrow> 2048 < (uint a - uint b) mod 4096"
proof -
  have "seq_less a b \<longleftrightarrow> drop_bit 1 SEQ_MODULO < seq_sub a b" by (simp add: seq_less_def seq_sub_def)
  also have "\<dots> \<longleftrightarrow> 2048 < uint (seq_sub a b)" by (simp add: SEQ_MODULO_def word_less_def)
  finally show ?thesis by (simp add: uint_seq_sub)
qed

lemma seq_dist_nat: "unat (seq_sub a b) = nat ((uint a - uint b) mod 4096)"
  by (simp flip: uint_seq_sub)

text \<open>Release up to a new head; the distance to it decreases.\<close>

function ieee80211_release_reorder_frames ::
  "tid_ampdu_rx \<Rightarrow> u16 \<Rightarrow> rx_skb list \<Rightarrow> (tid_ampdu_rx \<times> rx_skb list) option" where
  "ieee80211_release_reorder_frames t head frames =
     (if seq_less (head_seq_num t) head then do {
        index \<leftarrow> slot_of t (head_seq_num t);
        (t, frames) \<leftarrow> ieee80211_release_reorder_frame t index frames;
        ieee80211_release_reorder_frames t head frames }
      else Some (t, frames))"
  by pat_completeness auto

lemma mod_4096_pred: "0 < (x :: int) mod 4096 \<Longrightarrow> (x - 1) mod 4096 = x mod 4096 - 1"
proof -
  assume "0 < x mod 4096"
  then have "(x mod 4096 - 1) mod 4096 = x mod 4096 - 1" by (intro mod_pos_pos_trivial) auto
  then show ?thesis by (simp only: mod_diff_left_eq)
qed

lemma mod_4096_opposite: "0 < (x :: int) mod 4096 \<Longrightarrow> (- x) mod 4096 = 4096 - x mod 4096"
  by (simp add: zmod_zminus1_eq_if)

lemma seq_inc_closer:
  assumes "seq_less h g"
  shows "(uint g - uint (seq_inc h)) mod 4096 = (uint g - uint h) mod 4096 - 1" "0 < (uint g - uint h) mod 4096"
proof -
  show p: "0 < (uint g - uint h) mod 4096"
    using assms mod_4096_opposite [of "uint h - uint g"] unfolding seq_less_iff by (cases "(uint h - uint g) mod 4096 = 0") simp_all
  have "(uint g - uint (seq_inc h)) mod 4096 = (uint g - (uint h + 1)) mod 4096"
    by (simp add: uint_seq_inc mod_diff_right_eq)
  also have "\<dots> = (uint g - uint h) mod 4096 - 1" using mod_4096_pred [OF p] by (simp add: algebra_simps)
  finally show "(uint g - uint (seq_inc h)) mod 4096 = (uint g - uint h) mod 4096 - 1" .
qed

termination ieee80211_release_reorder_frames
proof (relation "measure (\<lambda>(t, g, fs). nat ((uint g - uint (head_seq_num t)) mod 4096))")
  fix t g fs i x t' fs'
  assume "seq_less (head_seq_num t) g" "ieee80211_release_reorder_frame t i fs = Some x" "(t', fs') = x"
  then show "((t', g, fs'), (t, g, fs)) \<in> measure (\<lambda>(t, g, fs). nat ((uint g - uint (head_seq_num t)) mod 4096))"
    using seq_inc_closer [of "head_seq_num t" g] by (auto simp: release_frame_head)
qed simp

declare ieee80211_release_reorder_frames.simps [simp del]

text \<open>
  The scan for frames that waited too long: \<open>j\<close> runs around the ring up to \<open>index\<close>, \<open>skipped\<close>
  counts the holes since the last release. The third result is the slot whose time is not up.
\<close>

function timeout_loop :: "rx_env \<Rightarrow> nat \<Rightarrow> nat \<Rightarrow> nat \<Rightarrow> nat \<Rightarrow> tid_ampdu_rx \<Rightarrow> rx_skb list \<Rightarrow>
    (tid_ampdu_rx \<times> rx_skb list \<times> nat option) option" where
  "timeout_loop e n index j skipped t frames =
     (if \<not> (j < n \<and> index < n) then None
      else if j = index then Some (t, frames, None)
      else do {
        skb \<leftarrow> rd (reorder_buf t) j;
        time \<leftarrow> rd (reorder_time t) j;
        (case skb of
           None \<Rightarrow> timeout_loop e n index ((j + 1) mod n) (skipped + 1) t frames
         | Some k \<Rightarrow>
             if skipped \<noteq> 0 \<and> \<not> time_after (rx_jiffies e) (time + reorder_buf_timeout e) then Some (t, frames, Some j)
             else do {
               (t, frames) \<leftarrow> ieee80211_release_reorder_frame t j frames;
               timeout_loop e n index ((j + 1) mod n) 0
                 (t\<lparr>head_seq_num := (head_seq_num t + of_nat skipped) AND SEQ_MASK\<rparr>) frames }) })"
  by pat_completeness auto

lemma ring_closer:
  fixes j n i :: nat
  assumes "j < n" "i < n" "j \<noteq> i"
  shows "(i + n - (j + 1) mod n) mod n < (i + n - j) mod n"
proof (cases "j + 1 = n")
  case True
  then show ?thesis using assms by simp
next
  case False
  then have a: "(j + 1) mod n = j + 1" using assms by simp
  show ?thesis
  proof (cases "j < i")
    case True
    then have "i + n - (j + 1) = (i - (j + 1)) + n" "i + n - j = (i - j) + n" by simp_all
    then have "(i + n - (j + 1)) mod n = i - (j + 1)" "(i + n - j) mod n = i - j"
      using assms by (simp_all only: mod_add_self2) simp_all
    then show ?thesis unfolding a using True by simp
  next
    case False
    then show ?thesis using a assms by simp
  qed
qed

termination timeout_loop
proof (relation "measure (\<lambda>(e, n, index, j, skipped, t, fs). (index + n - j) mod n)")
qed (use ring_closer in \<open>auto simp del: One_nat_def\<close>)

declare timeout_loop.simps [simp del]

text \<open>Release from the head as long as there is a frame; each turn empties a slot.\<close>

function drain_loop :: "tid_ampdu_rx \<Rightarrow> rx_skb list \<Rightarrow> (tid_ampdu_rx \<times> rx_skb list) option" where
  "drain_loop t frames = do {
     index \<leftarrow> slot_of t (head_seq_num t);
     skb \<leftarrow> rd (reorder_buf t) index;
     if skb = None then Some (t, frames)
     else do {
       (t, frames) \<leftarrow> ieee80211_release_reorder_frame t index frames;
       drain_loop t frames } }"
  by pat_completeness auto

definition stored_slots :: "'a option list \<Rightarrow> nat" where
  "stored_slots b = length (filter (\<lambda>x. x \<noteq> None) b)"

lemma stored_slots_clear:
  "i < length b \<Longrightarrow> b ! i \<noteq> None \<Longrightarrow> stored_slots b = Suc (stored_slots (b[i := None]))"
proof (induction b arbitrary: i)
  case (Cons x b)
  then show ?case by (cases i) (auto simp: stored_slots_def)
qed simp

termination drain_loop
proof (relation "measure (\<lambda>(t, fs). stored_slots (reorder_buf t))")
  fix t fs i skb x t' fs'
  assume "rd (reorder_buf t) i = Some skb" "skb \<noteq> None"
    "ieee80211_release_reorder_frame t i fs = Some x" "(t', fs') = x"
  then show "((t', fs'), (t, fs)) \<in> measure (\<lambda>(t, fs). stored_slots (reorder_buf t))"
    using stored_slots_clear [of i "reorder_buf t"]
    by (auto simp: ieee80211_release_reorder_frame_def array_simps split: option.splits)
qed simp

declare drain_loop.simps [simp del]

text \<open>
  The first stored slot from \<open>j\<close> on. In C the bound \<open>(index - 1) % buf_size\<close> is a remainder of
  signed numbers: for \<open>index = 0\<close> it is -1 (or 0 for a buffer of one), which \<open>j\<close> never meets.
\<close>

partial_function (option) first_stored :: "nat \<Rightarrow> nat \<Rightarrow> nat \<Rightarrow> 'a option list \<Rightarrow> nat option" where
  "first_stored j index n b =
     (if (if index = 0 then n = 1 \<and> j = 0 else j = index - 1) then Some j
      else do {
        x \<leftarrow> rd b j;
        if x \<noteq> None then Some j else first_stored ((j + 1) mod n) index n b })"

definition set_release_timer :: "rx_env \<Rightarrow> nat \<Rightarrow> tid_ampdu_rx \<Rightarrow> tid_ampdu_rx option" where
  "set_release_timer e j t = do {
     time \<leftarrow> rd (reorder_time t) j;
     Some (t\<lparr>reorder_timer := Some (time + 1 + reorder_buf_timeout e)\<rparr>) }"

definition ieee80211_sta_reorder_release ::
  "rx_env \<Rightarrow> tid_ampdu_rx \<Rightarrow> rx_skb list \<Rightarrow> (tid_ampdu_rx \<times> rx_skb list) option" where
  "ieee80211_sta_reorder_release e t frames = do {
     index \<leftarrow> slot_of t (head_seq_num t);
     skb \<leftarrow> rd (reorder_buf t) index;
     let n = unat (buf_size t);
     (t, frames, early) \<leftarrow>
       (if skb = None \<and> stored_mpdu_num t \<noteq> 0 then timeout_loop e n index ((index + 1) mod n) 1 t frames
        else do { (t, frames) \<leftarrow> drain_loop t frames; Some (t, frames, None) });
     (case early of
        Some j \<Rightarrow> do { t \<leftarrow> set_release_timer e j t; Some (t, frames) }
      | None \<Rightarrow>
          if stored_mpdu_num t \<noteq> 0 then do {
            index \<leftarrow> slot_of t (head_seq_num t);
            j \<leftarrow> first_stored index index n (reorder_buf t);
            t \<leftarrow> set_release_timer e j t;
            Some (t, frames) }
          else Some (t\<lparr>reorder_timer := None\<rparr>, frames)) }"

section \<open>A received frame\<close>

definition ieee80211_frame_eapol :: "u8 list \<Rightarrow> bool option" where
  "ieee80211_frame_eapol d = do {
     fc \<leftarrow> le16_at d 0;
     if ieee80211_is_data fc \<and> 34 < length d then do {
       let i = (if ieee80211_is_data_qos fc then 32 else 30);
       a \<leftarrow> rd d i;
       b \<leftarrow> rd d (i + 1);
       Some (push_bit 8 (ucast a) OR ucast b = (0x888E :: u16)) }
     else Some False }"

text \<open>The duplicate mark of \<open>ieee80211_rx_h_qos_seq\<close>; \<open>sb\<close> is \<open>qos_seq_buff\<close> of the frame's queue.\<close>

definition ieee80211_rx_h_qos_seq :: "u16 list \<Rightarrow> rx_skb \<Rightarrow> (u16 list \<times> rx_skb) option" where
  "ieee80211_rx_h_qos_seq sb skb = do {
     qos_seq \<leftarrow> le16_at (sk_data skb) 22;
     let index = unat (ctrl_seq qos_seq) mod 256;
     s \<leftarrow> rd sb index;
     if s = qos_seq then Some (sb, skb\<lparr>sk_qos_dup := True\<rparr>)
     else Some (sb[index := qos_seq], skb) }"

text \<open>The timeout follows the share of short frames.\<close>

definition count_short_frames :: "nat \<Rightarrow> rx_env \<Rightarrow> rx_env" where
  "count_short_frames len e =
     (if len < 150 then
        (if 50 < short_rx_cnt e + 1 then e\<lparr>short_rx_cnt := 50, reorder_buf_timeout := rx_hz e div 4\<rparr>
         else e\<lparr>short_rx_cnt := short_rx_cnt e + 1\<rparr>)
      else
        (let cnt = (if 20 \<le> short_rx_cnt e then short_rx_cnt e - 20 else short_rx_cnt e) in
         if cnt < 20 then e\<lparr>short_rx_cnt := 0, reorder_buf_timeout := rx_hz e div 2\<rparr>
         else e\<lparr>short_rx_cnt := cnt\<rparr>))"

definition free_skb :: "rx_skb \<Rightarrow> rx_env \<Rightarrow> rx_env" where
  "free_skb skb e = e\<lparr>rx_freed := rx_freed e @ [sk_id skb]\<rparr>"

definition store_frame :: "rx_env \<Rightarrow> nat \<Rightarrow> rx_skb \<Rightarrow> tid_ampdu_rx \<Rightarrow> tid_ampdu_rx option" where
  "store_frame e index skb t = do {
     buf \<leftarrow> wr (reorder_buf t) index (Some skb);
     time \<leftarrow> wr (reorder_time t) index (rx_jiffies e);
     Some (t\<lparr>reorder_buf := buf, reorder_time := time, stored_mpdu_num := stored_mpdu_num t + 1\<rparr>) }"

text \<open>The first result is whether the frame was consumed.\<close>

definition ieee80211_sta_manage_reorder_buf ::
  "rx_env \<Rightarrow> tid_ampdu_rx \<Rightarrow> rx_skb \<Rightarrow> rx_skb list \<Rightarrow> (bool \<times> rx_env \<times> tid_ampdu_rx \<times> rx_skb list) option" where
  "ieee80211_sta_manage_reorder_buf e t skb frames = do {
     sc \<leftarrow> le16_at (sk_data skb) 22;
     let mpdu = ctrl_seq sc;
     fc \<leftarrow> le16_at (sk_data skb) 0;
     eapol \<leftarrow> (if ieee80211_is_data fc then ieee80211_frame_eapol (sk_data skb) else Some False);
     let e = count_short_frames (length (sk_data skb)) e;
     if seq_less mpdu (head_seq_num t)
     then (if \<not> sk_qos_dup skb then Some (False, e, t, frames) else Some (True, free_skb skb e, t, frames))
     else do {
       (t, frames) \<leftarrow>
         (if \<not> seq_less mpdu (head_seq_num t + buf_size t)
          then ieee80211_release_reorder_frames t (seq_inc (seq_sub mpdu (buf_size t))) frames
          else Some (t, frames));
       index \<leftarrow> slot_of t mpdu;
       old \<leftarrow> rd (reorder_buf t) index;
       if old \<noteq> None then Some (True, free_skb skb e, t, frames)
       else if mpdu = head_seq_num t \<and> stored_mpdu_num t = 0
       then Some (False, e, t\<lparr>head_seq_num := seq_inc (head_seq_num t)\<rparr>, frames)
       else if eapol \<and> unat mpdu = unat (head_seq_num t) + 1 \<and> stored_mpdu_num t = 0
       then Some (False, e, t\<lparr>head_seq_num := seq_inc (head_seq_num t)\<rparr>, frames)
       else do {
         t \<leftarrow> store_frame e index skb t;
         (t, frames) \<leftarrow> ieee80211_sta_reorder_release e t frames;
         Some (True, e, t, frames) } } }"

text \<open>
  The receive path of a station: the sessions of its sixteen TIDs, and the frames handed to the
  interface's work because they are fragments.
\<close>

record sta_rx =
  tid_rx :: "tid_ampdu_rx option list"
  sdata_queue :: "rx_skb list"

definition ieee80211_rx_reorder_ampdu ::
  "rx_env \<Rightarrow> sta_rx option \<Rightarrow> rx_skb \<Rightarrow> rx_skb list \<Rightarrow> (rx_env \<times> sta_rx option \<times> rx_skb list) option" where
  "ieee80211_rx_reorder_ampdu e sta skb frames = do {
     fc \<leftarrow> le16_at (sk_data skb) 0;
     if \<not> ieee80211_is_data_qos fc then Some (e, sta, frames @ [skb])
     else (case sta of
       None \<Rightarrow> Some (e, sta, frames @ [skb])
     | Some s \<Rightarrow> do {
         qc \<leftarrow> rd (sk_data skb) (qos_ctl_offset fc);
         let tid = unat (qc AND 0x0F);
         agg \<leftarrow> rd (tid_rx s) tid;
         (case agg of
           None \<Rightarrow> Some (e, sta, frames @ [skb])
         | Some t \<Rightarrow>
             if fc AND IEEE80211_STYPE_NULLFUNC \<noteq> 0 then Some (e, sta, frames @ [skb])
             else do {
               let t = (if ba_timeout t \<noteq> 0 then t\<lparr>session_timer := Some (rx_jiffies e, ba_timeout t)\<rparr> else t);
               let s = s\<lparr>tid_rx := (tid_rx s)[tid := Some t]\<rparr>;
               sc \<leftarrow> le16_at (sk_data skb) 22;
               if sc AND 0x000F \<noteq> 0 then Some (e, Some (s\<lparr>sdata_queue := sdata_queue s @ [skb]\<rparr>), frames)
               else do {
                 (consumed, e, t, frames) \<leftarrow> ieee80211_sta_manage_reorder_buf e t skb frames;
                 let s = s\<lparr>tid_rx := (tid_rx s)[tid := Some t]\<rparr>;
                 Some (e, Some s, if consumed then frames else frames @ [skb]) } }) }) }"

definition ieee80211_release_reorder_timeout ::
  "rx_env \<Rightarrow> sta_rx \<Rightarrow> nat \<Rightarrow> (sta_rx \<times> rx_skb list) option" where
  "ieee80211_release_reorder_timeout e s tid = do {
     agg \<leftarrow> rd (tid_rx s) tid;
     (case agg of
       None \<Rightarrow> Some (s, [])
     | Some t \<Rightarrow> do {
         (t, frames) \<leftarrow> ieee80211_sta_reorder_release e t [];
         Some (s\<lparr>tid_rx := (tid_rx s)[tid := Some t]\<rparr>, frames) }) }"

end
