(* ===== verification/Reorder_Window.thy ===== *)
theory Reorder_Window
  imports Reorder
begin

text \<open>
  The ring of a block-ack session seen from its head: entry \<open>d\<close> of the window is the slot of the
  frame numbered \<open>d\<close> above the head. Every release is a shift of the window. The slot of a number
  does not depend on the wrap-around only when the size of the buffer divides 4096.
\<close>

section \<open>The window\<close>

abbreviation ring_size :: "tid_ampdu_rx \<Rightarrow> nat" where
  "ring_size t \<equiv> unat (buf_size t)"

definition pos :: "tid_ampdu_rx \<Rightarrow> nat" where
  "pos t = nat ((uint (head_seq_num t) - uint (ba_ssn t)) mod int (ring_size t))"

definition win :: "tid_ampdu_rx \<Rightarrow> rx_skb option list" where
  "win t = rotate (pos t) (reorder_buf t)"

definition ring_ok :: "tid_ampdu_rx \<Rightarrow> bool" where
  "ring_ok t \<longleftrightarrow> 1 < ring_size t \<and> ring_size t \<le> 64 \<and> ring_size t dvd 4096 \<and>
     length (reorder_buf t) = ring_size t \<and> length (reorder_time t) = ring_size t \<and>
     uint (head_seq_num t) < 4096 \<and> stored_mpdu_num t = of_nat (stored_slots (reorder_buf t))"

definition dist :: "u16 \<Rightarrow> u16 \<Rightarrow> nat" where
  "dist g h = nat ((uint g - uint h) mod 4096)"

lemma dist_less: "dist g h < 4096"
  by (simp add: dist_def nat_less_iff)

lemma int_dist: "int (dist g h) = (uint g - uint h) mod 4096"
  by (simp add: dist_def)

lemma nat_mod_less: "0 < n \<Longrightarrow> nat (x mod int n) < n"
  by (simp add: nat_less_iff)

lemma nat_mod_add: "0 \<le> x \<Longrightarrow> nat ((x + int m) mod int n) = (nat x + m) mod n"
proof -
  assume "0 \<le> x"
  then obtain k where k: "x = int k" by (rule nonneg_int_cases)
  have "(int k + int m) mod int n = int ((k + m) mod n)" by (simp add: of_nat_mod)
  then show ?thesis by (simp only: k nat_int)
qed

lemma pos_less: "ring_ok t \<Longrightarrow> pos t < ring_size t"
  unfolding pos_def by (rule nat_mod_less) (simp add: ring_ok_def)

lemma win_length [simp]: "length (win t) = length (reorder_buf t)"
  by (simp add: win_def)

lemma win_nth: "ring_ok t \<Longrightarrow> d < ring_size t \<Longrightarrow> win t ! d = reorder_buf t ! ((pos t + d) mod ring_size t)"
  by (simp add: win_def nth_rotate ring_ok_def)

lemma pos_move:
  assumes "uint h' = (uint h + int m) mod 4096" "n dvd 4096" "0 < n"
  shows "nat ((uint h' - uint s) mod int n) = (nat ((uint h - uint s) mod int n) + m) mod n"
proof -
  have d: "int n dvd 4096" using assms(2) by presburger
  have "(uint h' - uint s) mod int n = ((uint h + int m) mod 4096 mod int n - uint s) mod int n"
    by (simp add: assms(1) mod_diff_left_eq)
  also have "\<dots> = ((uint h + int m) mod int n - uint s) mod int n" by (simp add: mod_mod_cancel [OF d])
  also have "\<dots> = (uint h - uint s + int m) mod int n" by (simp add: mod_diff_left_eq algebra_simps)
  also have "\<dots> = ((uint h - uint s) mod int n + int m) mod int n" by (simp add: mod_add_left_eq)
  finally have "(uint h' - uint s) mod int n = ((uint h - uint s) mod int n + int m) mod int n" .
  moreover have "0 \<le> (uint h - uint s) mod int n" using assms(3) by simp
  ultimately show ?thesis by (simp only: nat_mod_add)
qed

lemma mod_add_inner:
  fixes a b n :: int
  assumes "n dvd 4096"
  shows "(a + b mod 4096) mod n = (a + b) mod n"
proof -
  have "(a + b mod 4096) mod n = (a + b mod 4096 mod n) mod n" by (simp only: mod_add_right_eq)
  also have "\<dots> = (a + b mod n) mod n" by (simp only: mod_mod_cancel [OF assms])
  finally show ?thesis by (simp only: mod_add_right_eq)
qed

lemma slot_of_win:
  assumes ok: "ring_ok t"
  shows "slot_of t s = Some ((pos t + dist s (head_seq_num t)) mod ring_size t)"
proof -
  let ?n = "ring_size t"
  have n: "buf_size t \<noteq> 0" "?n dvd 4096" "0 < ?n" using ok by (auto simp: ring_ok_def)
  have d: "int ?n dvd 4096" using n(2) by presburger
  have u: "uint (buf_size t) = int ?n" by simp
  have "int (unat (seq_sub s (ba_ssn t) mod buf_size t)) = (uint s - uint (ba_ssn t)) mod 4096 mod int ?n"
    by (simp add: uint_mod_distrib uint_seq_sub)
  also have "\<dots> = (uint s - uint (ba_ssn t)) mod int ?n" by (rule mod_mod_cancel [OF d])
  finally have "nat (int (unat (seq_sub s (ba_ssn t) mod buf_size t))) = nat ((uint s - uint (ba_ssn t)) mod int ?n)"
    by (rule arg_cong)
  then have "unat (seq_sub s (ba_ssn t) mod buf_size t) = nat ((uint s - uint (ba_ssn t)) mod int ?n)"
    by (simp only: nat_int)
  moreover have "nat ((uint s - uint (ba_ssn t)) mod int ?n) = (pos t + dist s (head_seq_num t)) mod ?n"
  proof -
    let ?h = "head_seq_num t"
    have "(uint s - uint (ba_ssn t)) mod int ?n =
        (uint ?h - uint (ba_ssn t) + (uint s - uint ?h) mod 4096) mod int ?n"
      by (subst mod_add_inner [OF d]) simp
    also have "\<dots> = ((uint ?h - uint (ba_ssn t)) mod int ?n + int (dist s ?h)) mod int ?n"
      by (simp only: int_dist mod_add_left_eq)
    finally have "(uint s - uint (ba_ssn t)) mod int ?n =
        ((uint ?h - uint (ba_ssn t)) mod int ?n + int (dist s ?h)) mod int ?n" .
    moreover have "0 \<le> (uint ?h - uint (ba_ssn t)) mod int ?n"
      by (rule pos_mod_sign) (use n(3) in \<open>simp only: of_nat_0_less_iff\<close>)
    ultimately show ?thesis by (simp only: nat_mod_add pos_def)
  qed
  ultimately show ?thesis using n(1) by (simp add: slot_of_def)
qed

lemma slot_of_head [simp]: "ring_ok t \<Longrightarrow> slot_of t (head_seq_num t) = Some (pos t)"
  by (simp add: slot_of_win dist_def pos_less)

section \<open>Shifts\<close>

definition shift :: "nat \<Rightarrow> 'a option list \<Rightarrow> 'a option list" where
  "shift m w = drop m w @ replicate (min m (length w)) None"

lemma shift_length [simp]: "length (shift m w) = length w"
  by (simp add: shift_def)

lemma shift_nth: "d < length w \<Longrightarrow> shift m w ! d = (if m + d < length w then w ! (m + d) else None)"
  by (auto simp: shift_def nth_append less_diff_conv add.commute min_def)

lemma shift_0 [simp]: "shift 0 w = w"
  by (simp add: shift_def)

lemma shift_shift [simp]: "shift a (shift b w) = shift (b + a) w"
  by (rule nth_equalityI) (auto simp: shift_nth add.assoc)

text \<open>The frames of a piece of the window, marked as they are released.\<close>

fun somes :: "'a option list \<Rightarrow> 'a list" where
  "somes [] = []"
| "somes (None # w) = somes w"
| "somes (Some k # w) = k # somes w"

lemma somes_append [simp]: "somes (v @ w) = somes v @ somes w"
  by (induction v rule: somes.induct) simp_all

lemma somes_None [simp]: "somes (replicate n None) = []"
  by (induction n) simp_all

lemma length_somes: "length (somes w) = stored_slots w"
  by (induction w rule: somes.induct) (simp_all add: stored_slots_def)

definition mark :: "rx_skb \<Rightarrow> rx_skb" where
  "mark k = k\<lparr>sk_deferred := True\<rparr>"

definition outs :: "nat \<Rightarrow> rx_skb option list \<Rightarrow> rx_skb list" where
  "outs m w = map mark (somes (take m w))"

lemma outs_shift: "outs (a + b) w = outs a w @ outs b (shift a w)"
proof -
  have "take (a + b) w = take a w @ take b (drop a w)" by (rule take_add)
  moreover have "somes (take b (shift a w)) = somes (take b (drop a w))"
    by (simp add: shift_def)
  ultimately show ?thesis by (simp add: outs_def)
qed

lemma outs_0 [simp]: "outs 0 w = []"
  by (simp add: outs_def)

definition same_session :: "tid_ampdu_rx \<Rightarrow> tid_ampdu_rx \<Rightarrow> bool" where
  "same_session t t' \<longleftrightarrow> buf_size t' = buf_size t \<and> ba_ssn t' = ba_ssn t \<and> ba_timeout t' = ba_timeout t \<and>
     reorder_time t' = reorder_time t \<and> session_timer t' = session_timer t"

definition moved :: "nat \<Rightarrow> tid_ampdu_rx \<Rightarrow> tid_ampdu_rx \<Rightarrow> bool" where
  "moved m t t' \<longleftrightarrow> ring_ok t' \<and> win t' = shift m (win t) \<and> same_session t t' \<and>
     uint (head_seq_num t') = (uint (head_seq_num t) + int m) mod 4096"

lemma moved_0: "ring_ok t \<Longrightarrow> moved 0 t t"
  by (simp add: moved_def same_session_def ring_ok_def)

lemma moved_trans:
  assumes "moved a t t'" "moved b t' t''"
  shows "moved (a + b) t t''"
  using assms by (auto simp: moved_def same_session_def mod_add_left_eq mod_add_right_eq algebra_simps)

lemma win_moved:
  assumes ok: "ring_ok t" and b: "length (reorder_buf t') = ring_size t" and s: "buf_size t' = buf_size t" "ba_ssn t' = ba_ssn t"
    and h: "uint (head_seq_num t') = (uint (head_seq_num t) + int m) mod 4096" and m: "m \<le> ring_size t"
    and e: "\<And>d. d < ring_size t \<Longrightarrow> reorder_buf t' ! ((pos t + d) mod ring_size t) = (if d < m then None else win t ! d)"
  shows "win t' = shift m (win t)"
proof (rule nth_equalityI)
  let ?n = "ring_size t"
  have n: "0 < ?n" "?n dvd 4096" "length (reorder_buf t) = ?n" using ok by (auto simp: ring_ok_def)
  show l: "length (win t') = length (shift m (win t))" using b n by simp
  fix d assume "d < length (win t')"
  then have d: "d < ?n" using b by simp
  have p: "pos t' = (pos t + m) mod ?n" using pos_move [OF h n(2,1)] s by (simp add: pos_def)
  have "win t' ! d = reorder_buf t' ! ((pos t' + d) mod ?n)" using b d by (simp add: win_def nth_rotate)
  also have "(pos t' + d) mod ?n = (pos t + (m + d)) mod ?n" by (simp add: p mod_add_left_eq add.assoc)
  also have "reorder_buf t' ! ((pos t + (m + d)) mod ?n) = shift m (win t) ! d"
  proof (cases "m + d < ?n")
    case True
    then show ?thesis using e [OF True] d n by (simp add: shift_nth)
  next
    case False
    then obtain d' where d': "m + d = ?n + d'" using le_Suc_ex not_less by blast
    then have "(pos t + (m + d)) mod ?n = (pos t + d') mod ?n"
      by (metis add.assoc add.commute mod_add_self2)
    moreover have "d' < m" "d' < ?n" using d' d m by linarith+
    ultimately show ?thesis using e [of d'] False d n by (simp add: shift_nth)
  qed
  finally show "win t' ! d = shift m (win t) ! d" .
qed

section \<open>Every release is a shift\<close>

lemma stored_slots_update:
  "i < length b \<Longrightarrow> b ! i \<noteq> None \<Longrightarrow> stored_slots (b[i := None]) = stored_slots b - 1"
  using stored_slots_clear [of i b] by simp

lemma stored_slots_append: "stored_slots (v @ w) = stored_slots v + stored_slots w"
  by (simp add: stored_slots_def)

lemma stored_slots_rotate [simp]: "stored_slots (rotate k b) = stored_slots b"
proof -
  let ?k = "k mod length b"
  have "stored_slots (rotate k b) = stored_slots (take ?k b @ drop ?k b)"
    by (simp only: rotate_drop_take stored_slots_append add.commute)
  then show ?thesis by simp
qed

lemma stored_slots_win [simp]: "stored_slots (win t) = stored_slots (reorder_buf t)"
  by (simp add: win_def)

lemma mod_once: "x < 2 * n \<Longrightarrow> x mod n = (if x < n then x else x - n)" for x n :: nat
  by (simp add: mod_if)

lemma ring_inj: "(p + d) mod n = (p + s) mod n \<Longrightarrow> p < n \<Longrightarrow> d < n \<Longrightarrow> s < n \<Longrightarrow> d = s" for p :: nat
  by (simp add: mod_once split: if_splits)

lemma head_plus:
  "uint ((seq_inc h + of_nat s) AND SEQ_MASK) = (uint h + int (s + 1)) mod 4096"
proof -
  have "uint ((seq_inc h + of_nat s) AND SEQ_MASK) = ((uint h + 1) mod 4096 + int s mod 65536) mod 4096"
    by (simp add: seq_mask_mod uint_word_ariths mod_65536 uint_seq_inc unsigned_of_nat take_bit_eq_mod of_nat_mod)
  also have "\<dots> = ((uint h + 1) mod 4096 + int s mod 65536 mod 4096) mod 4096" by (simp only: mod_add_right_eq)
  also have "\<dots> = (uint h + 1 + int s) mod 4096" by (simp only: mod_65536 mod_add_eq)
  finally show ?thesis by (simp add: add.assoc)
qed

lemma somes_empty: "(\<And>x. x \<in> set w \<Longrightarrow> x = None) \<Longrightarrow> somes w = []"
  by (induction w rule: somes.induct) auto

lemma outs_after_holes:
  assumes "s < length w" "\<And>d. d < s \<Longrightarrow> w ! d = None"
  shows "outs (s + 1) w = (case w ! s of None \<Rightarrow> [] | Some k \<Rightarrow> [mark k])"
proof -
  have "take (s + 1) w = take s w @ [w ! s]" using assms(1) by (simp add: take_Suc_conv_app_nth)
  moreover have "somes (take s w) = []" using assms by (intro somes_empty) (auto simp: in_set_conv_nth)
  ultimately show ?thesis by (cases "w ! s") (simp_all add: outs_def)
qed

lemma release_at:
  assumes ok: "ring_ok t" and s: "s < ring_size t" and empty: "\<And>d. d < s \<Longrightarrow> win t ! d = None"
    and j: "j = (pos t + s) mod ring_size t" and k: "win t ! s \<noteq> None \<or> s = 0"
  shows "\<exists>t'. ieee80211_release_reorder_frame t j fs = Some (t', fs @ outs (s + 1) (win t)) \<and>
     moved (s + 1) t (t'\<lparr>head_seq_num := (head_seq_num t' + of_nat s) AND SEQ_MASK\<rparr>) \<and>
     head_seq_num t' = seq_inc (head_seq_num t)"
proof -
  let ?n = "ring_size t" and ?b = "reorder_buf t"
  have n: "0 < ?n" "length ?b = ?n" "length (reorder_time t) = ?n" using ok by (auto simp: ring_ok_def)
  have jn: "j < ?n" using n j by simp
  have bj: "?b ! j = win t ! s" using win_nth [OF ok s] j by simp
  have o: "outs (s + 1) (win t) = (case win t ! s of None \<Rightarrow> [] | Some k \<Rightarrow> [mark k])"
    using s n empty by (intro outs_after_holes) simp_all
  let ?b' = "if win t ! s = None then ?b else ?b[j := None]"
  let ?t1 = "if win t ! s = None then t else t\<lparr>stored_mpdu_num := stored_mpdu_num t - 1, reorder_buf := ?b'\<rparr>"
  let ?t' = "?t1\<lparr>head_seq_num := seq_inc (head_seq_num t)\<rparr>"
  let ?t'' = "?t'\<lparr>head_seq_num := (head_seq_num ?t' + of_nat s) AND SEQ_MASK\<rparr>"
  have r: "ieee80211_release_reorder_frame t j fs = Some (?t', fs @ outs (s + 1) (win t))"
    using jn n bj o by (cases "win t ! s") (simp_all add: ieee80211_release_reorder_frame_def mark_def)
  have e: "?b' ! ((pos t + d) mod ?n) = (if d < s + 1 then None else win t ! d)" if d: "d < ?n" for d
  proof (cases "d = s")
    case True
    then show ?thesis using bj j n jn by simp
  next
    case False
    then have "(pos t + d) mod ?n \<noteq> j" using ring_inj [of "pos t" d ?n s] pos_less [OF ok] d s j by blast
    then have "?b' ! ((pos t + d) mod ?n) = win t ! d" using win_nth [OF ok d] by simp
    then show ?thesis using empty [of d] False by auto
  qed
  have f: "reorder_buf ?t'' = ?b'" "buf_size ?t'' = buf_size t" "ba_ssn ?t'' = ba_ssn t"
      "reorder_time ?t'' = reorder_time t" "same_session t ?t''"
      "stored_mpdu_num ?t'' = stored_mpdu_num t - (if win t ! s = None then 0 else 1)"
    by (simp_all add: same_session_def)
  have h: "uint (head_seq_num ?t'') = (uint (head_seq_num t) + int (s + 1)) mod 4096"
    using head_plus [of "head_seq_num t" s] by simp
  have w: "win ?t'' = shift (s + 1) (win t)"
    by (rule win_moved [OF ok _ f(2,3) h]) (use s n e f(1) in \<open>simp_all del: Suc_eq_plus1\<close>)
  have st: "stored_mpdu_num ?t'' = of_nat (stored_slots ?b')"
  proof (cases "win t ! s = None")
    case True
    then show ?thesis using ok f(6) by (simp add: ring_ok_def)
  next
    case False
    then have "stored_slots ?b = Suc (stored_slots ?b')" using stored_slots_clear [of j ?b] jn n bj by simp
    then show ?thesis using False ok f(6) by (simp add: ring_ok_def)
  qed
  have "ring_ok ?t''"
    using ok f(1-4) h st n unfolding ring_ok_def by simp
  with r w f(5) h show ?thesis
    by (intro exI [of _ ?t']) (simp add: moved_def)
qed

lemma mask_head: "uint h < 4096 \<Longrightarrow> (h :: u16) AND SEQ_MASK = h"
  by (simp add: word_uint_eq_iff seq_mask_mod)

lemma release_head:
  assumes ok: "ring_ok t"
  shows "\<exists>t'. ieee80211_release_reorder_frame t (pos t) fs = Some (t', fs @ outs 1 (win t)) \<and> moved 1 t t'"
proof -
  have n: "0 < ring_size t" using ok by (auto simp: ring_ok_def)
  obtain t' where t': "ieee80211_release_reorder_frame t (pos t) fs = Some (t', fs @ outs 1 (win t))"
    "moved 1 t (t'\<lparr>head_seq_num := (head_seq_num t' + of_nat 0) AND SEQ_MASK\<rparr>)"
    "head_seq_num t' = seq_inc (head_seq_num t)"
    using release_at [OF ok n, of "pos t" fs] pos_less [OF ok] by auto
  have "uint (head_seq_num t') < 4096" using t'(3) by (simp add: uint_seq_inc)
  then have "t'\<lparr>head_seq_num := (head_seq_num t' + of_nat 0) AND SEQ_MASK\<rparr> = t'" by (simp add: mask_head)
  with t'(1,2) show ?thesis by auto
qed

end
