(* ===== verification/Reorder_Release.thy ===== *)
theory Reorder_Release
  imports Reorder_Window
begin

text \<open>
  The release loops of the reorder buffer as shifts of the window: up to a new head, from the head
  on, and after a timeout; and what the release timer is set to.
\<close>

section \<open>Release up to a new head\<close>

lemma release_frames_win:
  "ring_ok t \<Longrightarrow> dist g (head_seq_num t) = k \<Longrightarrow> k < 2048 \<Longrightarrow>
     \<exists>t'. ieee80211_release_reorder_frames t g fs = Some (t', fs @ outs k (win t)) \<and> moved k t t'"
proof (induction k arbitrary: t fs)
  case 0
  have "(uint g - uint (head_seq_num t)) mod 4096 = 0" using 0(2) int_dist [of g "head_seq_num t"] by simp
  then have "\<not> seq_less (head_seq_num t) g"
    using mod_4096_opposite [of "uint (head_seq_num t) - uint g"] unfolding seq_less_iff by fastforce
  then show ?case using moved_0 [OF 0(1)] by (simp add: ieee80211_release_reorder_frames.simps)
next
  case (Suc k)
  have d: "(uint g - uint (head_seq_num t)) mod 4096 = int (Suc k)" using Suc.prems(2) int_dist [of g "head_seq_num t"] by simp
  then have "(uint (head_seq_num t) - uint g) mod 4096 = 4096 - int (Suc k)"
    using mod_4096_opposite [of "uint g - uint (head_seq_num t)"] by simp
  then have lt: "seq_less (head_seq_num t) g" using Suc.prems(3) unfolding seq_less_iff by simp
  obtain t1 where t1: "ieee80211_release_reorder_frame t (pos t) fs = Some (t1, fs @ outs 1 (win t))" "moved 1 t t1"
    using release_head [OF Suc.prems(1)] by blast
  have "head_seq_num t1 = seq_inc (head_seq_num t)" by (rule release_frame_head [OF t1(1)])
  then have "dist g (head_seq_num t1) = k"
    using seq_inc_closer(1) [OF lt] d by (simp add: dist_def)
  moreover have "ring_ok t1" "k < 2048" using t1(2) Suc.prems(3) by (simp_all add: moved_def)
  ultimately obtain t' where t':
    "ieee80211_release_reorder_frames t1 g (fs @ outs 1 (win t)) = Some (t', (fs @ outs 1 (win t)) @ outs k (win t1))"
    "moved k t1 t'" using Suc.IH [of t1 "fs @ outs 1 (win t)"] by blast
  have "outs 1 (win t) @ outs k (win t1) = outs (Suc k) (win t)"
    using t1(2) outs_shift [of 1 k "win t"] by (simp add: moved_def)
  moreover have "moved (Suc k) t t'" using moved_trans [OF t1(2) t'(2)] by simp
  moreover have "ieee80211_release_reorder_frames t g fs = ieee80211_release_reorder_frames t1 g (fs @ outs 1 (win t))"
    using lt t1(1) Suc.prems(1) by (subst ieee80211_release_reorder_frames.simps) simp
  ultimately show ?case using t'(1) by auto
qed

section \<open>Release from the head\<close>

lemma win_0: "ring_ok t \<Longrightarrow> win t ! 0 = reorder_buf t ! pos t"
  using pos_less [of t] by (subst win_nth) (auto simp: ring_ok_def)

lemma drain_loop_empty: "ring_ok t \<Longrightarrow> reorder_buf t ! pos t = None \<Longrightarrow> drain_loop t fs = Some (t, fs)"
  using pos_less [of t] by (subst drain_loop.simps) (simp add: ring_ok_def)

lemma drain_loop_win:
  "ring_ok t \<Longrightarrow> \<exists>m t'. drain_loop t fs = Some (t', fs @ outs m (win t)) \<and> moved m t t' \<and> win t' ! 0 = None \<and>
     (\<forall>d < m. d < ring_size t \<longrightarrow> win t ! d \<noteq> None) \<and> m \<le> ring_size t"
proof (induction "stored_slots (reorder_buf t)" arbitrary: t fs)
  case 0
  have "reorder_buf t ! pos t = None"
  proof (rule ccontr)
    assume "reorder_buf t ! pos t \<noteq> None"
    moreover have "pos t < length (reorder_buf t)" using 0(2) pos_less by (simp add: ring_ok_def)
    ultimately show False using stored_slots_clear [of "pos t" "reorder_buf t"] 0(1) by simp
  qed
  then have "drain_loop t fs = Some (t, fs)" "win t ! 0 = None"
    using drain_loop_empty 0(2) by (simp_all add: win_0)
  then show ?case using moved_0 [OF 0(2)] by (intro exI [of _ 0] exI [of _ t]) simp
next
  case (Suc c)
  show ?case
  proof (cases "reorder_buf t ! pos t")
    case None
    then have "drain_loop t fs = Some (t, fs)" "win t ! 0 = None"
      using drain_loop_empty Suc.prems by (simp_all add: win_0)
    then show ?thesis using moved_0 [OF Suc.prems] by (intro exI [of _ 0] exI [of _ t]) simp
  next
    case (Some k)
    obtain t1 where t1: "ieee80211_release_reorder_frame t (pos t) fs = Some (t1, fs @ outs 1 (win t))" "moved 1 t t1"
      using release_head [OF Suc.prems] by blast
    have pl: "pos t < length (reorder_buf t)" using Suc.prems pos_less by (simp add: ring_ok_def)
    have w1: "win t1 = shift 1 (win t)" "ring_ok t1" "ring_size t1 = ring_size t"
      using t1(2) by (simp_all add: moved_def same_session_def)
    have b1: "reorder_buf t1 = (reorder_buf t)[pos t := None]"
      using t1(1) Some pl by (auto simp: ieee80211_release_reorder_frame_def)
    have "c = stored_slots (reorder_buf t1)"
      using Suc(2) stored_slots_clear [of "pos t" "reorder_buf t"] pl Some b1 by simp
    from Suc(1) [OF this w1(2)] obtain m t' where m: "drain_loop t1 (fs @ outs 1 (win t)) =
         Some (t', (fs @ outs 1 (win t)) @ outs m (win t1))" "moved m t1 t'" "win t' ! 0 = None"
      "\<forall>d < m. d < ring_size t1 \<longrightarrow> win t1 ! d \<noteq> None" "m \<le> ring_size t1" by blast
    have "drain_loop t fs = Some (t', fs @ outs (1 + m) (win t))"
      using m(1) t1(1) Some pl Suc.prems w1(1) by (subst drain_loop.simps) (simp add: outs_shift [of 1 m, simplified])
    moreover have full: "\<forall>d < 1 + m. d < ring_size t \<longrightarrow> win t ! d \<noteq> None"
    proof (intro allI impI)
      fix d assume d: "d < 1 + m" "d < ring_size t"
      show "win t ! d \<noteq> None"
      proof (cases d)
        case 0
        then show ?thesis using Some win_0 [OF Suc.prems] by simp
      next
        case (Suc d')
        then have "win t1 ! d' \<noteq> None" using m(4) d w1(3) by simp
        then show ?thesis using w1(1) Suc d \<open>ring_ok t\<close> by (simp add: shift_nth ring_ok_def)
      qed
    qed
    moreover have "1 + m \<le> ring_size t"
    proof (rule ccontr)
      assume "\<not> 1 + m \<le> ring_size t"
      then have m1: "m = ring_size t1" using m(5) w1(3) by simp
      have n: "0 < ring_size t" using Suc.prems by (simp add: ring_ok_def)
      then have "win t1 ! (ring_size t - 1) \<noteq> None" using m(4) m1 w1(3) by simp
      moreover have "win t1 ! (ring_size t - 1) = None"
        using w1(1) n Suc.prems by (simp add: shift_nth ring_ok_def)
      ultimately show False by simp
    qed
    ultimately show ?thesis
      using moved_trans [OF t1(2) m(2)] m(3) by (intro exI [of _ "1 + m"] exI [of _ t']) simp
  qed
qed

section \<open>Release after a timeout\<close>

lemma ring_next: "j = (i + p) mod n \<Longrightarrow> (j + 1) mod n = (i + (p + 1)) mod n" for j :: nat
  by (simp add: mod_Suc_eq)

definition timed_out :: "rx_env \<Rightarrow> tid_ampdu_rx \<Rightarrow> nat \<Rightarrow> bool" where
  "timed_out e t j \<longleftrightarrow> time_after (rx_jiffies e) (reorder_time t ! j + reorder_buf_timeout e)"

text \<open>Where the scan stops: at the first stored frame, which still has time, or with an empty ring.\<close>

definition scan_stop :: "rx_env \<Rightarrow> tid_ampdu_rx \<Rightarrow> nat option \<Rightarrow> bool" where
  "scan_stop e t r \<longleftrightarrow> (case r of
     None \<Rightarrow> \<forall>d < ring_size t. win t ! d = None
   | Some j \<Rightarrow> \<exists>d < ring_size t. j = (pos t + d) mod ring_size t \<and> 0 < d \<and> win t ! d \<noteq> None \<and>
       (\<forall>d' < d. win t ! d' = None) \<and> \<not> timed_out e t j)"

lemma timeout_loop_win:
  assumes "ring_ok t" "n = ring_size t" "1 \<le> p" "p \<le> n" "index < n" "j = (index + p) mod n" "s \<le> p"
    "(pos t + s) mod n = (index + p) mod n"
    "\<And>d. d < n \<Longrightarrow> win t ! d \<noteq> None \<Longrightarrow> s \<le> d \<and> d < s + (n - p)"
  shows "\<exists>m t' r. timeout_loop e n index j s t fs = Some (t', fs @ outs m (win t), r) \<and> moved m t t' \<and>
     m \<le> s + (n - p) \<and> scan_stop e t' r"
  using assms
proof (induction "n - p" arbitrary: p j s t fs)
  case 0
  then have "j = index" "j < n" by simp_all
  then have "timeout_loop e n index j s t fs = Some (t, fs @ outs 0 (win t), None)"
    by (subst timeout_loop.simps) simp
  moreover have "\<forall>d < ring_size t. win t ! d = None" using 0 by fastforce
  ultimately show ?case using moved_0 [OF \<open>ring_ok t\<close>] by (fastforce simp: scan_stop_def)
next
  case (Suc c)
  note ok = \<open>ring_ok t\<close>
  have pn: "p < n" "s < n" using Suc.hyps(2) Suc.prems(7) by linarith+
  have n: "length (reorder_buf t) = n" "length (reorder_time t) = n" "0 < n" using ok Suc.prems(2) pn by (simp_all add: ring_ok_def)
  have j: "j < n" "j = (pos t + s) mod n" using Suc.prems(6,8) n by simp_all
  have ne: "j \<noteq> index" using Suc.prems(3,5,6) pn by (simp add: mod_once split: if_splits)
  have bj: "reorder_buf t ! j = win t ! s" using win_nth [OF ok, of s] Suc.prems(2) pn j by simp
  have nx: "(j + 1) mod n = (index + (p + 1)) mod n" by (rule ring_next [OF Suc.prems(6)])
  have nx': "(j + 1) mod n = (pos t + (s + 1)) mod n" by (rule ring_next [OF j(2)])
  have c: "c = n - (p + 1)" using Suc.hyps(2) by simp
  show ?case
  proof (cases "win t ! s")
    case None
    have "\<exists>m t' r. timeout_loop e n index ((j + 1) mod n) (s + 1) t fs = Some (t', fs @ outs m (win t), r) \<and> moved m t t' \<and>
        m \<le> s + 1 + (n - (p + 1)) \<and> scan_stop e t' r"
    proof (rule Suc.hyps(1) [OF c ok Suc.prems(2) _ _ Suc.prems(5)])
      show "(pos t + (s + 1)) mod n = (index + (p + 1)) mod n" using nx nx' by simp
      fix d assume "d < n" "win t ! d \<noteq> None"
      then have "s \<le> d \<and> d < s + (n - p)" "d \<noteq> s" using Suc.prems(9) None by auto
      then show "s + 1 \<le> d \<and> d < s + 1 + (n - (p + 1))" using pn by linarith
    qed (use pn nx Suc.prems(7) in simp_all)
    moreover have "timeout_loop e n index j s t fs = timeout_loop e n index ((j + 1) mod n) (s + 1) t fs"
      using j(1) Suc.prems(5) ne n bj None by (subst timeout_loop.simps) simp
    moreover have "s + 1 + (n - (p + 1)) = s + (n - p)" using pn by simp
    ultimately show ?thesis by (simp only:)
  next
    case (Some k)
    have first: "win t ! d = None" if "d < s" for d using Suc.prems(9) [of d] that pn by fastforce
    show ?thesis
    proof (cases "s \<noteq> 0 \<and> \<not> timed_out e t j")
      case True
      then have "timeout_loop e n index j s t fs = Some (t, fs @ outs 0 (win t), Some j)"
        using j(1) Suc.prems(5) ne n bj Some by (subst timeout_loop.simps) (simp add: timed_out_def)
      moreover have "scan_stop e t (Some j)"
        using True first pn j(2) Some Suc.prems(2) by (auto simp: scan_stop_def)
      ultimately show ?thesis using moved_0 [OF ok] by blast
    next
      case False
      obtain t1 where t1: "ieee80211_release_reorder_frame t j fs = Some (t1, fs @ outs (s + 1) (win t))"
        "moved (s + 1) t (t1\<lparr>head_seq_num := (head_seq_num t1 + of_nat s) AND SEQ_MASK\<rparr>)"
        using release_at [OF ok _ first] Suc.prems(2) pn j(2) Some by blast
      let ?t = "t1\<lparr>head_seq_num := (head_seq_num t1 + of_nat s) AND SEQ_MASK\<rparr>"
      have w: "ring_ok ?t" "ring_size ?t = ring_size t" "win ?t = shift (s + 1) (win t)"
        using t1(2) by (simp_all add: moved_def same_session_def del: Suc_eq_plus1)
      have ps: "pos ?t = (pos t + (s + 1)) mod n"
        using t1(2) pos_move [of "head_seq_num ?t" "head_seq_num t" "s + 1" n "ba_ssn t"] ok n(3) Suc.prems(2)
        by (auto simp: moved_def same_session_def pos_def ring_ok_def simp del: Suc_eq_plus1 of_nat_Suc)
      have "\<exists>m t' r. timeout_loop e n index ((j + 1) mod n) 0 ?t (fs @ outs (s + 1) (win t)) =
          Some (t', (fs @ outs (s + 1) (win t)) @ outs m (win ?t), r) \<and> moved m ?t t' \<and>
          m \<le> 0 + (n - (p + 1)) \<and> scan_stop e t' r"
      proof (rule Suc.hyps(1) [OF c w(1) _ _ _ Suc.prems(5)])
        show "(pos ?t + 0) mod n = (index + (p + 1)) mod n" using ps nx nx' by simp
        fix d assume d: "d < n" "win ?t ! d \<noteq> None"
        then have "s + 1 + d < n" "win t ! (s + 1 + d) \<noteq> None"
          using w(3) n by (auto simp: shift_nth split: if_splits)
        then show "0 \<le> d \<and> d < 0 + (n - (p + 1))" using Suc.prems(9) [of "s + 1 + d"] by linarith
      qed (use pn nx Suc.prems(2) w(2) in simp_all)
      then obtain m t' r where m: "timeout_loop e n index ((j + 1) mod n) 0 ?t (fs @ outs (s + 1) (win t)) =
          Some (t', (fs @ outs (s + 1) (win t)) @ outs m (win ?t), r)" "moved m ?t t'"
          "m \<le> n - (p + 1)" "scan_stop e t' r" by auto
      have "timeout_loop e n index j s t fs = timeout_loop e n index ((j + 1) mod n) 0 ?t (fs @ outs (s + 1) (win t))"
        using j(1) Suc.prems(5) ne n bj Some False t1(1)
        by (subst timeout_loop.simps) (auto simp: timed_out_def)
      then have "timeout_loop e n index j s t fs = Some (t', fs @ outs (s + 1 + m) (win t), r)"
        using m(1) outs_shift [of "s + 1" m "win t"] w(3) by simp
      moreover have "moved (s + 1 + m) t t'" by (rule moved_trans [OF t1(2) m(2)])
      moreover have "s + 1 + m \<le> s + (n - p)" using m(3) pn by linarith
      ultimately show ?thesis using m(4) by blast
    qed
  qed
qed

section \<open>The release timer\<close>

definition first_some :: "'a option list \<Rightarrow> nat" where
  "first_some w = length (takeWhile (\<lambda>x. x = None) w)"

lemma first_some_hole: "d < first_some w \<Longrightarrow> w ! d = None"
proof -
  assume d: "d < first_some w"
  then have "takeWhile (\<lambda>x. x = None) w ! d \<in> set (takeWhile (\<lambda>x. x = None) w)"
    unfolding first_some_def by (rule nth_mem)
  then show ?thesis using d takeWhile_nth [of d "\<lambda>x. x = None" w] set_takeWhileD unfolding first_some_def by fastforce
qed

lemma stored_someI:
  assumes "d < length w" "w ! d \<noteq> None"
  shows "stored_slots w \<noteq> 0"
proof -
  have "w ! d \<in> set (filter (\<lambda>x. x \<noteq> None) w)" using assms by (simp only: set_filter mem_Collect_eq nth_mem simp_thms)
  then have "filter (\<lambda>x. x \<noteq> None) w \<noteq> []" by (metis empty_iff empty_set)
  then show ?thesis by (simp only: stored_slots_def length_0_conv not_False_eq_True)
qed

lemma first_some_stored: "stored_slots w \<noteq> 0 \<Longrightarrow> first_some w < length w \<and> w ! first_some w \<noteq> None"
  by (induction w) (auto simp: first_some_def stored_slots_def)

lemma first_some_eq:
  assumes "d < length w" "w ! d \<noteq> None" "\<And>d'. d' < d \<Longrightarrow> w ! d' = None"
  shows "first_some w = d"
proof (rule linorder_cases)
  assume "first_some w < d"
  moreover have "stored_slots w \<noteq> 0"
    by (rule stored_someI [OF assms(1,2)])
  ultimately show ?thesis using assms(3) first_some_stored by blast
next
  assume "d < first_some w"
  then show ?thesis using first_some_hole [of d w] assms(2) by simp
qed simp

lemma first_stored_win:
  assumes ok: "ring_ok t" and st: "stored_slots (reorder_buf t) \<noteq> 0"
  shows "d \<le> first_some (win t) \<Longrightarrow>
    first_stored ((pos t + d) mod ring_size t) (pos t) (ring_size t) (reorder_buf t) =
    Some ((pos t + first_some (win t)) mod ring_size t)"
proof (induction "first_some (win t) - d" arbitrary: d)
  case 0
  then have d: "d = first_some (win t)" by simp
  have f: "first_some (win t) < ring_size t" "win t ! first_some (win t) \<noteq> None"
    using first_some_stored [of "win t"] st ok by (simp_all add: ring_ok_def)
  have "(pos t + d) mod ring_size t < length (reorder_buf t)" using ok by (simp add: ring_ok_def)
  then show ?case using f win_nth [OF ok f(1)] unfolding d by (subst first_stored.simps) auto
next
  case (Suc k)
  let ?n = "ring_size t"
  have f: "first_some (win t) < ?n" using first_some_stored [of "win t"] st ok by (simp add: ring_ok_def)
  have d: "d < first_some (win t)" "d < ?n" using Suc.hyps(2) f by linarith+
  have n: "1 < ?n" "length (reorder_buf t) = ?n" using ok by (simp_all add: ring_ok_def)
  have "\<not> (if pos t = 0 then ?n = 1 \<and> (pos t + d) mod ?n = 0 else (pos t + d) mod ?n = pos t - 1)"
    using n d f pos_less [OF ok] by (auto simp: mod_once split: if_splits)
  moreover have "reorder_buf t ! ((pos t + d) mod ?n) = None"
    using first_some_hole [OF d(1)] win_nth [OF ok d(2)] by simp
  moreover have "(pos t + d) mod ?n < length (reorder_buf t)" using n by simp
  moreover have "((pos t + d) mod ?n + 1) mod ?n = (pos t + (d + 1)) mod ?n" by (simp add: mod_Suc_eq)
  ultimately have "first_stored ((pos t + d) mod ?n) (pos t) ?n (reorder_buf t) =
      first_stored ((pos t + (d + 1)) mod ?n) (pos t) ?n (reorder_buf t)"
    by (subst first_stored.simps) simp
  also have "\<dots> = Some ((pos t + first_some (win t)) mod ?n)"
    using Suc.hyps(1) [of "d + 1"] Suc.hyps(2) d(1) by simp
  finally show ?case .
qed

text \<open>What the timer is armed for: the first frame that waits.\<close>

definition release_deadline :: "rx_env \<Rightarrow> tid_ampdu_rx \<Rightarrow> u64 option" where
  "release_deadline e t = (if stored_slots (reorder_buf t) = 0 then None
     else Some (reorder_time t ! ((pos t + first_some (win t)) mod ring_size t) + 1 + reorder_buf_timeout e))"

lemma stored_zero_iff: "ring_ok t \<Longrightarrow> stored_mpdu_num t = 0 \<longleftrightarrow> stored_slots (reorder_buf t) = 0"
proof -
  assume ok: "ring_ok t"
  have "stored_slots (reorder_buf t) \<le> length (reorder_buf t)" by (simp add: stored_slots_def)
  then have "stored_slots (reorder_buf t) \<le> 64" using ok by (simp add: ring_ok_def)
  then show ?thesis
    using ok word_set_of_nat_inject [of "stored_slots (reorder_buf t)" 0, where 'a = 16] by (simp add: ring_ok_def)
qed

lemma stored_none: "(\<And>d. d < length w \<Longrightarrow> w ! d = None) \<Longrightarrow> stored_slots w = 0"
  by (auto simp: stored_slots_def filter_empty_conv in_set_conv_nth)

lemma win_timer [simp]:
  "win (t\<lparr>reorder_timer := x\<rparr>) = win t" "pos (t\<lparr>reorder_timer := x\<rparr>) = pos t"
  "ring_ok (t\<lparr>reorder_timer := x\<rparr>) = ring_ok t"
  "release_deadline e (t\<lparr>reorder_timer := x\<rparr>) = release_deadline e t"
  by (simp_all add: win_def pos_def ring_ok_def release_deadline_def)

lemma moved_timer [simp]: "moved m t (t'\<lparr>reorder_timer := x\<rparr>) = moved m t t'"
  by (simp add: moved_def same_session_def)

text \<open>
  The release function: a shift by \<open>m\<close>. Either the head held a frame, and it is released with all
  that follow without a hole; or it did not, and every frame is released up to the first that still
  has time after a hole.
\<close>

lemma reorder_release_win:
  assumes ok: "ring_ok t"
  shows "\<exists>m t'. ieee80211_sta_reorder_release e t fs = Some (t', fs @ outs m (win t)) \<and> moved m t t' \<and>
     m \<le> ring_size t \<and> win t' ! 0 = None \<and> reorder_timer t' = release_deadline e t' \<and>
     (win t ! 0 \<noteq> None \<longrightarrow> (\<forall>d < m. win t ! d \<noteq> None)) \<and>
     (win t ! 0 = None \<longrightarrow> stored_slots (reorder_buf t') = 0 \<or>
        0 < first_some (win t') \<and> \<not> timed_out e t' ((pos t' + first_some (win t')) mod ring_size t'))"
proof -
  let ?n = "ring_size t"
  have n: "1 < ?n" "length (reorder_buf t) = ?n" "pos t < ?n" using ok pos_less by (auto simp: ring_ok_def)
  have tail: "(if stored_mpdu_num t1 \<noteq> 0 then do {
            index \<leftarrow> slot_of t1 (head_seq_num t1);
            j \<leftarrow> first_stored index index ?n (reorder_buf t1);
            t \<leftarrow> set_release_timer e j t1;
            Some (t, frames) }
          else Some (t1\<lparr>reorder_timer := None\<rparr>, frames)) = Some (t1\<lparr>reorder_timer := release_deadline e t1\<rparr>, frames)"
    if t1: "ring_ok t1" "ring_size t1 = ?n" for t1 frames
  proof (cases "stored_slots (reorder_buf t1) = 0")
    case True
    then show ?thesis using stored_zero_iff [OF t1(1)] by (simp add: release_deadline_def)
  next
    case False
    have "first_stored (pos t1) (pos t1) ?n (reorder_buf t1) = Some ((pos t1 + first_some (win t1)) mod ?n)"
      using first_stored_win [OF t1(1) False, of 0] pos_less [OF t1(1)] t1(2) by simp
    then show ?thesis
      using False stored_zero_iff [OF t1(1)] t1 n by (simp add: release_deadline_def set_release_timer_def ring_ok_def)
  qed
  show ?thesis
  proof (cases "win t ! 0 = None \<and> stored_mpdu_num t \<noteq> 0")
    case False
    obtain m t1 where d: "drain_loop t fs = Some (t1, fs @ outs m (win t))" "moved m t t1" "win t1 ! 0 = None"
      "\<forall>d < m. d < ?n \<longrightarrow> win t ! d \<noteq> None" "m \<le> ?n" using drain_loop_win [OF ok] by blast
    have t1: "ring_ok t1" "ring_size t1 = ?n" using d(2) by (simp_all add: moved_def same_session_def)
    have "stored_slots (reorder_buf t1) = 0" if "win t ! 0 = None"
    proof -
      have m: "m = 0" using d(4) n(1) that by (metis gr0I less_trans zero_less_one)
      then have "stored_slots (win t1) = stored_slots (win t)" using d(2) by (simp add: moved_def)
      then show ?thesis using False that stored_zero_iff [OF ok] by simp
    qed
    moreover have "ieee80211_sta_reorder_release e t fs =
        Some (t1\<lparr>reorder_timer := release_deadline e t1\<rparr>, fs @ outs m (win t))"
      using False ok n win_0 [OF ok] d(1) tail [OF t1]
      by (auto simp: ieee80211_sta_reorder_release_def Let_def)
    ultimately show ?thesis
      using d by (intro exI [of _ m] exI [of _ "t1\<lparr>reorder_timer := release_deadline e t1\<rparr>"]) simp
  next
    case True
    have "\<exists>m t' r. timeout_loop e ?n (pos t) ((pos t + 1) mod ?n) 1 t fs = Some (t', fs @ outs m (win t), r) \<and>
        moved m t t' \<and> m \<le> 1 + (?n - 1) \<and> scan_stop e t' r"
    proof (rule timeout_loop_win [OF ok refl])
      fix d assume "d < ?n" "win t ! d \<noteq> None"
      then show "1 \<le> d \<and> d < 1 + (?n - 1)" using True by (cases d) auto
    qed (use n in simp_all)
    then obtain m t1 r where l: "timeout_loop e ?n (pos t) ((pos t + 1) mod ?n) 1 t fs = Some (t1, fs @ outs m (win t), r)"
        "moved m t t1" "m \<le> ?n" "scan_stop e t1 r" using n(1) by auto
    have t1: "ring_ok t1" "ring_size t1 = ?n" "length (win t1) = ?n"
      using l(2) ok by (simp_all add: moved_def same_session_def ring_ok_def)
    show ?thesis
    proof (cases r)
      case None
      have "stored_slots (reorder_buf t1) = 0"
        using stored_none [of "win t1"] l(4) None t1 by (simp add: scan_stop_def)
      moreover have "ieee80211_sta_reorder_release e t fs =
          Some (t1\<lparr>reorder_timer := release_deadline e t1\<rparr>, fs @ outs m (win t))"
        using True ok n win_0 [OF ok] l(1) None tail [OF t1(1,2)]
        by (auto simp: ieee80211_sta_reorder_release_def Let_def)
      moreover have "win t1 ! 0 = None" using l(4) None t1 n by (simp add: scan_stop_def)
      ultimately show ?thesis
        using l True by (intro exI [of _ m] exI [of _ "t1\<lparr>reorder_timer := release_deadline e t1\<rparr>"]) simp
    next
      case (Some j)
      then obtain d where d: "d < ?n" "j = (pos t1 + d) mod ?n" "0 < d" "win t1 ! d \<noteq> None"
        "\<forall>d' < d. win t1 ! d' = None" "\<not> timed_out e t1 j" using l(4) t1 by (auto simp: scan_stop_def)
      have f: "first_some (win t1) = d" using first_some_eq [of d "win t1"] d t1 by simp
      have "stored_slots (reorder_buf t1) \<noteq> 0"
        using stored_someI [of d "win t1"] d(1,4) t1(3) by simp
      then have "ieee80211_sta_reorder_release e t fs =
          Some (t1\<lparr>reorder_timer := release_deadline e t1\<rparr>, fs @ outs m (win t))"
        using True ok n win_0 [OF ok] l(1) Some d(2) f t1
        by (auto simp: ieee80211_sta_reorder_release_def Let_def set_release_timer_def release_deadline_def ring_ok_def)
      then show ?thesis
        using l(2,3) d True f t1
        by (intro exI [of _ m] exI [of _ "t1\<lparr>reorder_timer := release_deadline e t1\<rparr>"]) (simp add: timed_out_def)
    qed
  qed
qed

end
