(* ===== verification/Reorder_Runs.thy ===== *)
theory Reorder_Runs
  imports Reorder_Release Custody
begin

text \<open>
  The reorder buffer over runs of frames and timer expiries: the invariant, the order in which
  frames leave the buffer, and the interpretation of the custody contract.
\<close>

section \<open>The invariant\<close>

definition skb_seq :: "rx_skb \<Rightarrow> u16" where
  "skb_seq k = ctrl_seq (seq_ctrl (sk_data k))"

text \<open>A stored frame sits in the window entry of its distance from the head.\<close>

definition placed :: "tid_ampdu_rx \<Rightarrow> bool" where
  "placed t \<longleftrightarrow> (\<forall>d < ring_size t. \<forall>k. win t ! d = Some k \<longrightarrow> dist (skb_seq k) (head_seq_num t) = d)"

definition reorder_inv :: "tid_ampdu_rx \<Rightarrow> bool" where
  "reorder_inv t \<longleftrightarrow> ring_ok t \<and> placed t"

lemma dist_move:
  assumes "uint h' = (uint h + int m) mod 4096" "m \<le> dist g h"
  shows "dist g h' = dist g h - m"
proof -
  have "(uint g - uint h') mod 4096 = (uint g - (uint h + int m)) mod 4096"
    by (simp only: assms(1) mod_diff_right_eq)
  also have "\<dots> = ((uint g - uint h) mod 4096 - int m) mod 4096"
    by (simp only: mod_diff_left_eq diff_diff_eq)
  also have "\<dots> = int (dist g h - m) mod 4096" using assms(2) by (simp only: int_dist [symmetric] of_nat_diff)
  also have "\<dots> = int (dist g h - m)" using dist_less [of g h] by simp
  finally show ?thesis by (simp add: dist_def)
qed

lemma dist_back:
  assumes "uint h' = (uint h + int m) mod 4096" "dist g h' + m < 4096"
  shows "dist g h = dist g h' + m"
proof -
  have "(uint g - uint h') mod 4096 = (uint g - (uint h + int m)) mod 4096"
    by (simp only: assms(1) mod_diff_right_eq)
  then have "((uint g - uint h') mod 4096 + int m) mod 4096 = (uint g - (uint h + int m) + int m) mod 4096"
    by (simp only: mod_add_left_eq)
  then have "int (dist g h') + int m = int (dist g h)"
    using assms(2) by (simp add: int_dist [symmetric])
  then show ?thesis by simp
qed

lemma moved_placed:
  assumes "reorder_inv t" "moved m t t'"
  shows "reorder_inv t'"
proof -
  have ok: "ring_ok t'" "win t' = shift m (win t)" "ring_size t' = ring_size t"
    and h: "uint (head_seq_num t') = (uint (head_seq_num t) + int m) mod 4096"
    using assms(2) by (simp_all add: moved_def same_session_def)
  have l: "length (win t) = ring_size t" using assms(1) by (simp add: reorder_inv_def ring_ok_def)
  have "dist (skb_seq k) (head_seq_num t') = d" if d: "d < ring_size t'" "win t' ! d = Some k" for d k
  proof -
    have "m + d < ring_size t" "win t ! (m + d) = Some k"
      using d ok l by (auto simp: shift_nth split: if_splits)
    then have "dist (skb_seq k) (head_seq_num t) = m + d"
      using assms(1) by (simp add: reorder_inv_def placed_def)
    then show ?thesis using dist_move [OF h] by simp
  qed
  with ok(1) show ?thesis by (simp add: reorder_inv_def placed_def)
qed

section \<open>Order\<close>

text \<open>Frames above \<open>h\<close> and below \<open>h + m\<close> in strictly rising order.\<close>

definition in_order :: "u16 \<Rightarrow> nat \<Rightarrow> rx_skb list \<Rightarrow> bool" where
  "in_order h m fs \<longleftrightarrow> sorted_wrt (<) (map (\<lambda>k. dist (skb_seq k) h) fs) \<and> (\<forall>k \<in> set fs. dist (skb_seq k) h < m)"

lemma in_order_Nil [simp]: "in_order h m []"
  by (simp add: in_order_def)

lemma in_order_append:
  assumes "in_order h a xs" "in_order h' b ys" "uint h' = (uint h + int a) mod 4096" "a + b \<le> 4096"
  shows "in_order h (a + b) (xs @ ys)"
proof -
  have d: "dist (skb_seq k) h = dist (skb_seq k) h' + a" if "k \<in> set ys" for k
    using assms(2,4) that dist_back [OF assms(3), of "skb_seq k"] by (fastforce simp: in_order_def)
  then have e: "map (\<lambda>k. dist (skb_seq k) h) ys = map (\<lambda>x. x + a) (map (\<lambda>k. dist (skb_seq k) h') ys)" by simp
  have "sorted_wrt (<) (map (\<lambda>x. x + a) (map (\<lambda>k. dist (skb_seq k) h') ys))"
    using assms(2) by (simp add: in_order_def sorted_wrt_map)
  then have "sorted_wrt (<) (map (\<lambda>k. dist (skb_seq k) h) ys)" by (simp only: e)
  then show ?thesis
    using assms(1,2) d by (fastforce simp: in_order_def sorted_wrt_append)
qed

lemma somes_rising:
  "(\<And>d k. d < length w \<Longrightarrow> w ! d = Some k \<Longrightarrow> f k = c + d) \<Longrightarrow>
     sorted_wrt (<) (map f (somes w)) \<and> (\<forall>k \<in> set (somes w). c \<le> f k \<and> f k < c + length w)"
proof (induction w arbitrary: c rule: somes.induct)
  case (2 w)
  have "f k = Suc c + d" if "d < length w" "w ! d = Some k" for d k using 2(2) [of "Suc d" k] that by simp
  from 2(1) [OF this] show ?case by fastforce
next
  case (3 k w)
  have "f k = c" using 3(2) [of 0 k] by simp
  moreover have "f k' = Suc c + d" if "d < length w" "w ! d = Some k'" for d k' using 3(2) [of "Suc d" k'] that by simp
  note 3(1) [OF this]
  ultimately show ?case by fastforce
qed simp

lemma mark_seq [simp]: "skb_seq (mark k) = skb_seq k" "sk_id (mark k) = sk_id k"
  by (simp_all add: mark_def skb_seq_def)

lemma outs_in_order:
  assumes "reorder_inv t"
  shows "in_order (head_seq_num t) m (outs m (win t))"
proof -
  have l: "length (win t) = ring_size t" using assms by (simp add: reorder_inv_def ring_ok_def)
  have "dist (skb_seq k) (head_seq_num t) = 0 + d" if "d < length (take m (win t))" "take m (win t) ! d = Some k" for d k
    using assms that l by (simp add: reorder_inv_def placed_def)
  from somes_rising [OF this]
  show ?thesis by (fastforce simp: in_order_def outs_def comp_def)
qed

section \<open>Custody\<close>

definition held_ids :: "rx_skb option list \<Rightarrow> nat multiset" where
  "held_ids w = mset (map sk_id (somes w))"

lemma somes_mset: "mset (somes w) = image_mset the (filter_mset (\<lambda>x. x \<noteq> None) (mset w))"
  by (induction w rule: somes.induct) simp_all

lemma held_ids_rotate [simp]: "held_ids (win t) = held_ids (reorder_buf t)"
proof -
  have "mset (win t) = mset (reorder_buf t)"
    by (simp add: win_def rotate_drop_take) (metis add.commute append_take_drop_id mset_append)
  then have "mset (somes (win t)) = mset (somes (reorder_buf t))" by (simp only: somes_mset)
  then show ?thesis by (simp add: held_ids_def)
qed

lemma held_ids_shift: "held_ids w = mset (map sk_id (outs m w)) + held_ids (shift m w)"
proof -
  have "somes w = somes (take m w) @ somes (drop m w)" by (metis append_take_drop_id somes_append)
  then show ?thesis by (simp add: held_ids_def outs_def shift_def comp_def)
qed

lemma moved_held:
  assumes "moved m t t'"
  shows "held_ids (reorder_buf t) = mset (map sk_id (outs m (win t))) + held_ids (reorder_buf t')"
  using held_ids_shift [of "win t" m] assms by (simp add: moved_def flip: held_ids_rotate)

lemma held_ids_store:
  "d < length w \<Longrightarrow> w ! d = None \<Longrightarrow> held_ids (w[d := Some k]) = held_ids w + {# sk_id k #}"
proof (induction w arbitrary: d)
  case (Cons x w)
  show ?case
  proof (cases d)
    case 0
    then show ?thesis using Cons.prems by (simp add: held_ids_def)
  next
    case (Suc d')
    then have "held_ids (w[d' := Some k]) = held_ids w + {# sk_id k #}" using Cons by simp
    then show ?thesis using Suc by (cases x) (simp_all add: held_ids_def)
  qed
qed simp

section \<open>A received frame\<close>

definition frame_ok :: "rx_skb \<Rightarrow> bool" where
  "frame_ok k \<longleftrightarrow> 24 \<le> length (sk_data k)"

lemma frame_ok_reads:
  assumes "frame_ok k"
  shows "\<exists>fc eapol. le16_at (sk_data k) 22 = Some (seq_ctrl (sk_data k)) \<and> le16_at (sk_data k) 0 = Some fc \<and>
     (if ieee80211_is_data fc then ieee80211_frame_eapol (sk_data k) else Some False) = Some eapol"
proof -
  have l: "24 \<le> length (sk_data k)" "0 < length (sk_data k)" "1 < length (sk_data k)"
    using assms unfolding frame_ok_def by linarith+
  define fc where "fc = le16 (sk_data k ! 0) (sk_data k ! 1)"
  have fc: "le16_at (sk_data k) 0 = Some fc" using l(2,3) by (simp add: le16_at_def fc_def)
  have "\<exists>eapol. ieee80211_frame_eapol (sk_data k) = Some eapol"
    by (auto simp: ieee80211_frame_eapol_def fc Let_def)
  then show ?thesis using seq_ctrl_at [OF l(1)] fc by auto
qed

lemma count_short_frames_freed [simp]: "rx_freed (count_short_frames n e) = rx_freed e"
  "rx_jiffies (count_short_frames n e) = rx_jiffies e"
  by (simp_all add: count_short_frames_def Let_def)

lemma old_iff: "seq_less g h \<longleftrightarrow> 2048 < dist g h"
  by (simp add: seq_less_iff dist_def nat_less_iff) (simp add: zless_nat_eq_int_zless)

text \<open>The room made for a frame ahead of the window: afterwards it is in the last entry.\<close>

definition jump :: "tid_ampdu_rx \<Rightarrow> nat \<Rightarrow> nat" where
  "jump t D = (if D < ring_size t then 0 else D - ring_size t + 1)"

lemma make_room:
  assumes ok: "ring_ok t" and D: "dist g (head_seq_num t) = D" "D \<le> 2048"
  shows "\<exists>t'. (if \<not> seq_less g (head_seq_num t + buf_size t)
          then ieee80211_release_reorder_frames t (seq_inc (seq_sub g (buf_size t))) fs
          else Some (t, fs)) = Some (t', fs @ outs (jump t D) (win t)) \<and> moved (jump t D) t t' \<and>
     dist g (head_seq_num t') = D - jump t D \<and> D - jump t D < ring_size t \<and> (jump t D = 0 \<longrightarrow> t' = t)"
proof -
  let ?h = "head_seq_num t"
  obtain N where N: "ring_size t = N" by blast
  have n: "1 < N" "N \<le> 64" "uint ?h < 4096" using ok N by (simp_all add: ring_ok_def)
  have bs: "uint (buf_size t) = int N" using N by (metis int_eq_iff uint_nat unat_eq_nat_uint)
  have u: "uint (?h + buf_size t) = uint ?h + int N"
  proof -
    have "(uint ?h + int N) mod 65536 = uint ?h + int N" using n(2,3) by (intro mod_pos_pos_trivial) simp_all
    then show ?thesis by (simp add: uint_word_ariths bs)
  qed
  have less: "seq_less g (?h + buf_size t) \<longleftrightarrow> D < N"
  proof -
    have "(uint g - (uint ?h + int N)) mod 4096 = (int D - int N) mod 4096"
      using D(1) by (simp only: int_dist [symmetric] diff_diff_eq [symmetric]) (metis int_dist mod_diff_left_eq)
    also have "\<dots> = (if D < N then 4096 + int D - int N else int D - int N)"
    proof (cases "D < N")
      case True
      then have "(int D - int N + 4096) mod 4096 = int D - int N + 4096" using n by (intro mod_pos_pos_trivial) simp_all
      then have "(int D - int N) mod 4096 = int D - int N + 4096" by (simp only: mod_add_self2)
      then show ?thesis using True by simp
    next
      case False
      then show ?thesis using D(2) by (simp add: mod_pos_pos_trivial)
    qed
    finally show ?thesis using n D(2) by (auto simp: seq_less_iff u)
  qed
  show ?thesis
  proof (cases "D < N")
    case True
    then show ?thesis using less moved_0 [OF ok] D by (intro exI [of _ t]) (simp add: jump_def N)
  next
    case False
    let ?g = "seq_inc (seq_sub g (buf_size t))"
    have "(uint ?g - uint ?h) mod 4096 = ((uint g - int N) + 1 - uint ?h) mod 4096"
      by (simp add: uint_seq_inc uint_seq_sub bs mod_simps)
    also have "(uint g - int N) + 1 - uint ?h = (uint g - uint ?h) + (1 - int N)" by simp
    also have "\<dots> mod 4096 = ((uint g - uint ?h) mod 4096 + (1 - int N)) mod 4096" by (simp only: mod_add_left_eq)
    also have "\<dots> = (int D + (1 - int N)) mod 4096" using D(1) by (simp only: int_dist [symmetric])
    also have "\<dots> = int (D - N + 1)" using False D(2) n by (simp add: mod_pos_pos_trivial)
    finally have k: "dist ?g ?h = jump t D" using False by (simp add: dist_def jump_def N)
    have "jump t D < 2048" using D(2) n(1) unfolding jump_def N by presburger
    from release_frames_win [OF ok k this] obtain t' where t':
      "ieee80211_release_reorder_frames t ?g fs = Some (t', fs @ outs (jump t D) (win t))" "moved (jump t D) t t'"
      by blast
    have "dist g (head_seq_num t') = D - jump t D"
      using dist_move [of "head_seq_num t'" ?h "jump t D" g] t'(2) D(1) False n by (simp add: moved_def jump_def N)
    with t' less False n show ?thesis by (intro exI [of _ t']) (auto simp: jump_def N)
  qed
qed

lemma store_frame_win:
  assumes inv: "reorder_inv t" and d: "d < ring_size t" "win t ! d = None" "dist (skb_seq k) (head_seq_num t) = d"
  shows "\<exists>t'. store_frame e ((pos t + d) mod ring_size t) k t = Some t' \<and> reorder_inv t' \<and>
     win t' = (win t)[d := Some k] \<and> head_seq_num t' = head_seq_num t \<and> buf_size t' = buf_size t \<and>
     held_ids (reorder_buf t') = held_ids (reorder_buf t) + {# sk_id k #} \<and>
     reorder_time t' = (reorder_time t)[(pos t + d) mod ring_size t := rx_jiffies e]"
proof -
  let ?n = "ring_size t" and ?i = "(pos t + d) mod ring_size t"
  have ok: "ring_ok t" using inv by (simp add: reorder_inv_def)
  have n: "0 < ?n" "length (reorder_buf t) = ?n" "length (reorder_time t) = ?n" using ok by (auto simp: ring_ok_def)
  have i: "?i < ?n" using n by simp
  have bi: "reorder_buf t ! ?i = None" using win_nth [OF ok d(1)] d(2) by simp
  let ?t = "t\<lparr>reorder_buf := (reorder_buf t)[?i := Some k], reorder_time := (reorder_time t)[?i := rx_jiffies e],
     stored_mpdu_num := stored_mpdu_num t + 1\<rparr>"
  have p: "pos ?t = pos t" by (simp add: pos_def)
  have w: "win ?t = (win t)[d := Some k]"
  proof (rule nth_equalityI)
    fix x assume "x < length (win ?t)"
    then have x: "x < ?n" using n by simp
    have "win ?t ! x = (reorder_buf t)[?i := Some k] ! ((pos t + x) mod ?n)"
      using x n p by (simp add: win_def nth_rotate)
    also have "\<dots> = (win t)[d := Some k] ! x"
      using ring_inj [of "pos t" x ?n d] pos_less [OF ok] x d n win_nth [OF ok x] i
      by (cases "x = d") (auto simp: nth_list_update)
    finally show "win ?t ! x = (win t)[d := Some k] ! x" .
  qed (use n in simp)
  have "stored_slots (reorder_buf ?t) = Suc (stored_slots (reorder_buf t))"
    using stored_slots_clear [of ?i "(reorder_buf t)[?i := Some k]"] i n bi by (simp add: list_update_id [of "reorder_buf t" ?i, unfolded bi])
  then have ok': "ring_ok ?t" using ok by (simp add: ring_ok_def)
  have "placed ?t"
    using inv d n unfolding placed_def w reorder_inv_def by (auto simp: nth_list_update ring_ok_def placed_def)
  moreover have "held_ids (reorder_buf ?t) = held_ids (reorder_buf t) + {# sk_id k #}"
    using held_ids_store [of ?i "reorder_buf t" k] i n bi by simp
  moreover have "store_frame e ?i k t = Some ?t" using i n by (simp add: store_frame_def)
  ultimately show ?thesis using ok' w by (intro exI [of _ ?t]) (simp add: reorder_inv_def)
qed

text \<open>
  Between two frames the head of the window is a hole, so nothing that could be delivered is held
  back, and the timer runs while frames wait.
\<close>

definition settled :: "tid_ampdu_rx \<Rightarrow> bool" where
  "settled t \<longleftrightarrow> reorder_inv t \<and> win t ! 0 = None \<and>
     (stored_slots (reorder_buf t) \<noteq> 0 \<longrightarrow> reorder_timer t \<noteq> None)"

lemma release_settles:
  assumes "reorder_inv t"
  shows "\<exists>m t'. ieee80211_sta_reorder_release e t fs = Some (t', fs @ outs m (win t)) \<and> moved m t t' \<and>
     m \<le> ring_size t \<and> settled t' \<and> reorder_timer t' = release_deadline e t'"
proof -
  obtain m t' where r: "ieee80211_sta_reorder_release e t fs = Some (t', fs @ outs m (win t))" "moved m t t'"
    "m \<le> ring_size t" "win t' ! 0 = None" "reorder_timer t' = release_deadline e t'"
    using reorder_release_win [of t e fs] assms by (auto simp: reorder_inv_def)
  then have "settled t'" using moved_placed [OF assms r(2)] by (simp add: settled_def release_deadline_def)
  with r show ?thesis by blast
qed

text \<open>What becomes of one frame: where the head moves, what is delivered, what is freed.\<close>

definition frame_done ::
  "rx_env \<Rightarrow> tid_ampdu_rx \<Rightarrow> rx_skb \<Rightarrow> bool \<Rightarrow> rx_env \<Rightarrow> tid_ampdu_rx \<Rightarrow> rx_skb list \<Rightarrow> bool" where
  "frame_done e t skb ret e' t' os \<longleftrightarrow> settled t' \<and>
     held_ids (reorder_buf t') + mset (map sk_id os) + (if ret then {#} else {# sk_id skb #}) + mset (rx_freed e') =
       held_ids (reorder_buf t) + {# sk_id skb #} + mset (rx_freed e) \<and>
     (\<exists>m \<le> 2112. uint (head_seq_num t') = (uint (head_seq_num t) + int m) mod 4096 \<and>
        in_order (head_seq_num t) m os \<and>
        (\<not> ret \<and> \<not> seq_less (skb_seq skb) (head_seq_num t) \<longrightarrow> in_order (head_seq_num t) (m + 1) (os @ [skb])))"

lemma in_order_snoc:
  assumes "in_order h a xs" "a \<le> dist (skb_seq k) h" "dist (skb_seq k) h < b"
  shows "in_order h b (xs @ [k])"
  using assms by (fastforce simp: in_order_def sorted_wrt_append)

lemma empty_window: "stored_slots w = 0 \<Longrightarrow> d < length w \<Longrightarrow> w ! d = None"
  using stored_someI [of d w] by blast

lemma shift_empty: "stored_slots w = 0 \<Longrightarrow> shift m w = w"
  by (rule nth_equalityI) (simp_all add: shift_nth empty_window)

text \<open>The head advances over an empty window without changing it.\<close>

lemma advance_head:
  assumes inv: "reorder_inv t" and z: "stored_slots (reorder_buf t) = 0"
  shows "settled (t\<lparr>head_seq_num := seq_inc (head_seq_num t)\<rparr>)"
proof -
  let ?t = "t\<lparr>head_seq_num := seq_inc (head_seq_num t)\<rparr>"
  have ok: "ring_ok ?t" using inv by (simp add: reorder_inv_def ring_ok_def uint_seq_inc)
  then have l: "length (win ?t) = ring_size ?t" "0 < ring_size ?t" by (auto simp: ring_ok_def)
  have e: "win ?t ! d = None" if "d < ring_size ?t" for d
    using empty_window [of "win ?t" d] z l that by simp
  then have "placed ?t" by (simp add: placed_def)
  with ok e [of 0] l(2) z show ?thesis by (simp add: settled_def reorder_inv_def)
qed

lemma in_order_mono: "in_order h a xs \<Longrightarrow> a \<le> b \<Longrightarrow> in_order h b xs"
  by (fastforce simp: in_order_def)

lemma dist_head:
  "g = h \<Longrightarrow> dist g h = 0" "unat g = unat h + 1 \<Longrightarrow> dist g h = 1"
proof -
  show "g = h \<Longrightarrow> dist g h = 0" by (simp add: dist_def)
  assume "unat g = unat h + 1"
  then have "int (unat g) - int (unat h) = 1" by simp
  then have "uint g - uint h = 1" by simp
  then show "dist g h = 1" by (simp add: dist_def)
qed

lemma frame_done_free:
  "settled t \<Longrightarrow> rx_freed e' = rx_freed e @ [sk_id skb] \<Longrightarrow> frame_done e t skb True e' t []"
  unfolding frame_done_def
  by (intro conjI exI [of _ "0 :: nat"]) (simp_all add: settled_def reorder_inv_def ring_ok_def)

lemma frame_done_pass:
  "settled t \<Longrightarrow> rx_freed e' = rx_freed e \<Longrightarrow> seq_less (skb_seq skb) (head_seq_num t) \<Longrightarrow>
     frame_done e t skb False e' t []"
  unfolding frame_done_def
  by (intro conjI exI [of _ "0 :: nat"]) (simp_all add: settled_def reorder_inv_def ring_ok_def)

lemma manage_ok:
  assumes st: "settled t" and f: "frame_ok skb"
  shows "\<exists>ret e' t' os. ieee80211_sta_manage_reorder_buf e t skb fs = Some (ret, e', t', fs @ os) \<and>
     frame_done e t skb ret e' t' os"
proof -
  let ?h = "head_seq_num t" and ?g = "skb_seq skb" and ?e = "count_short_frames (length (sk_data skb)) e"
  let ?D = "dist ?g ?h"
  have inv: "reorder_inv t" and ok: "ring_ok t" using st by (simp_all add: settled_def reorder_inv_def)
  have n: "1 < ring_size t" "ring_size t \<le> 64" using ok by (simp_all add: ring_ok_def)
  obtain fc eapol where rd: "le16_at (sk_data skb) 22 = Some (seq_ctrl (sk_data skb))" "le16_at (sk_data skb) 0 = Some fc"
    "(if ieee80211_is_data fc then ieee80211_frame_eapol (sk_data skb) else Some False) = Some eapol"
    using frame_ok_reads [OF f] by blast
  have g: "ctrl_seq (seq_ctrl (sk_data skb)) = ?g" by (simp add: skb_seq_def)
  note entry = ieee80211_sta_manage_reorder_buf_def [of e t skb fs] rd g Let_def Option.bind.bind_lunit
  show ?thesis
  proof (cases "seq_less ?g ?h")
    case True
    have "ieee80211_sta_manage_reorder_buf e t skb fs =
        Some (if \<not> sk_qos_dup skb then (False, ?e, t, fs @ []) else (True, free_skb skb ?e, t, fs @ []))"
      using True unfolding entry by simp
    moreover have "frame_done e t skb True (free_skb skb ?e) t []" "frame_done e t skb False ?e t []"
      using frame_done_free [OF st] frame_done_pass [OF st _ True] by (simp_all add: free_skb_def)
    ultimately show ?thesis by (cases "sk_qos_dup skb") (simp_all only: if_True if_False simp_thms, blast+)
  next
    case False
    then have D: "?D \<le> 2048" by (simp add: old_iff)
    obtain t1 where t1: "(if \<not> seq_less ?g (?h + buf_size t)
          then ieee80211_release_reorder_frames t (seq_inc (seq_sub ?g (buf_size t))) fs
          else Some (t, fs)) = Some (t1, fs @ outs (jump t ?D) (win t))" "moved (jump t ?D) t t1"
      "dist ?g (head_seq_num t1) = ?D - jump t ?D" "?D - jump t ?D < ring_size t" "jump t ?D = 0 \<longrightarrow> t1 = t"
      using make_room [OF ok refl D] by blast
    define k d where "k = jump t ?D" and "d = ?D - jump t ?D"
    note t1 = t1 [folded k_def d_def]
    have kd: "?D = k + d" "k \<le> 2048" using D n by (auto simp: k_def d_def jump_def)
    have inv1: "reorder_inv t1" by (rule moved_placed [OF inv t1(2)])
    have n1: "ring_size t1 = ring_size t" "win t1 = shift k (win t)" "ring_ok t1"
      "uint (head_seq_num t1) = (uint ?h + int k) mod 4096"
      using t1(2) by (simp_all add: moved_def same_session_def)
    have held1: "held_ids (reorder_buf t) = mset (map sk_id (outs k (win t))) + held_ids (reorder_buf t1)"
      by (rule moved_held [OF t1(2)])
    have ord1: "in_order ?h k (outs k (win t))" by (rule outs_in_order [OF inv])
    have slot: "slot_of t1 ?g = Some ((pos t1 + d) mod ring_size t)"
      using slot_of_win [OF n1(3), of ?g] t1(3) n1(1) by simp
    have l1: "(pos t1 + d) mod ring_size t < length (reorder_buf t1)" "reorder_buf t1 ! ((pos t1 + d) mod ring_size t) = win t1 ! d"
      using n1(1,3) n t1(4) win_nth [OF n1(3), of d] by (simp_all add: ring_ok_def)
    have z1: "stored_mpdu_num t1 = 0 \<longleftrightarrow> stored_slots (reorder_buf t1) = 0" by (rule stored_zero_iff [OF n1(3)])
    let ?fs = "fs @ outs k (win t)" and ?next = "t1\<lparr>head_seq_num := seq_inc (head_seq_num t1)\<rparr>"
    have step: "ieee80211_sta_manage_reorder_buf e t skb fs =
        (if win t1 ! d \<noteq> None then Some (True, free_skb skb ?e, t1, ?fs)
         else if ?g = head_seq_num t1 \<and> stored_mpdu_num t1 = 0 then Some (False, ?e, ?next, ?fs)
         else if eapol \<and> unat ?g = unat (head_seq_num t1) + 1 \<and> stored_mpdu_num t1 = 0 then Some (False, ?e, ?next, ?fs)
         else do {
           t \<leftarrow> store_frame ?e ((pos t1 + d) mod ring_size t) skb t1;
           (t, frames) \<leftarrow> ieee80211_sta_reorder_release ?e t ?fs;
           Some (True, ?e, t, frames) })"
      using False t1(1) slot l1 unfolding entry by simp
    have adv: "frame_done e t skb False ?e (t1\<lparr>head_seq_num := seq_inc (head_seq_num t1)\<rparr>) (outs k (win t))"
      if z: "stored_slots (reorder_buf t1) = 0" and d1: "d \<le> 1"
    proof -
      have "uint (seq_inc (head_seq_num t1)) = (uint ?h + int (k + 1)) mod 4096"
        by (simp add: uint_seq_inc n1(4) mod_add_left_eq mod_add_right_eq ac_simps)
      moreover have "in_order ?h (k + 1) (outs k (win t))" by (rule in_order_mono [OF ord1]) simp
      moreover have "in_order ?h (k + 1 + 1) (outs k (win t) @ [skb])"
        by (rule in_order_snoc [OF ord1]) (use kd d1 in simp_all)
      moreover have "k + 1 \<le> 2112" using kd by simp
      ultimately show ?thesis
        using advance_head [OF inv1 z] held1 unfolding frame_done_def by (intro conjI exI [of _ "k + 1"]) simp_all
    qed
    consider (dup) "win t1 ! d \<noteq> None"
      | (head) "win t1 ! d = None" "?g = head_seq_num t1" "stored_mpdu_num t1 = 0"
      | (eapol) "win t1 ! d = None" "\<not> (?g = head_seq_num t1 \<and> stored_mpdu_num t1 = 0)" "eapol"
          "unat ?g = unat (head_seq_num t1) + 1" "stored_mpdu_num t1 = 0"
      | (store) "win t1 ! d = None" "\<not> (?g = head_seq_num t1 \<and> stored_mpdu_num t1 = 0)"
          "\<not> (eapol \<and> unat ?g = unat (head_seq_num t1) + 1 \<and> stored_mpdu_num t1 = 0)" by blast
    then show ?thesis
    proof cases
      case dup
      have "k = 0"
      proof (rule ccontr)
        assume "k \<noteq> 0"
        then have "d = ring_size t - 1" using n by (auto simp: k_def d_def jump_def split: if_splits)
        then have "\<not> k + d < ring_size t" "d < length (win t)" using \<open>k \<noteq> 0\<close> n ok by (simp_all add: ring_ok_def)
        then show False using dup n1(2) ok by (simp add: shift_nth ring_ok_def)
      qed
      then have e1: "t1 = t" using t1(5) by simp
      have "ieee80211_sta_manage_reorder_buf e t skb fs = Some (True, free_skb skb ?e, t1, fs @ outs k (win t))"
        using dup unfolding step by simp
      moreover have "frame_done e t skb True (free_skb skb ?e) t1 (outs k (win t))"
        using frame_done_free [OF st, of "free_skb skb ?e" e skb] \<open>k = 0\<close> e1 by (simp add: free_skb_def)
      ultimately show ?thesis by blast
    next
      case head
      have run: "ieee80211_sta_manage_reorder_buf e t skb fs =
          Some (False, ?e, t1\<lparr>head_seq_num := seq_inc (head_seq_num t1)\<rparr>, fs @ outs k (win t))"
        using head unfolding step by simp
      have "d \<le> 1" using dist_head(1) [OF head(2)] t1(3) by simp
      with z1 head(3) have "frame_done e t skb False ?e ?next (outs k (win t))" by (intro adv) simp_all
      with run show ?thesis by (intro exI conjI)
    next
      case eapol
      have run: "ieee80211_sta_manage_reorder_buf e t skb fs =
          Some (False, ?e, t1\<lparr>head_seq_num := seq_inc (head_seq_num t1)\<rparr>, fs @ outs k (win t))"
        using eapol unfolding step by simp
      have "d \<le> 1" using dist_head(2) [OF eapol(4)] t1(3) by simp
      with z1 eapol(5) have "frame_done e t skb False ?e ?next (outs k (win t))" by (intro adv) simp_all
      with run show ?thesis by (intro exI conjI)
    next
      case store
      obtain t2 where t2: "store_frame ?e ((pos t1 + d) mod ring_size t1) skb t1 = Some t2" "reorder_inv t2"
        "head_seq_num t2 = head_seq_num t1" "buf_size t2 = buf_size t1"
        "held_ids (reorder_buf t2) = held_ids (reorder_buf t1) + {# sk_id skb #}"
        using store_frame_win [OF inv1 _ store(1) t1(3)] t1(4) n1(1) by metis
      obtain m t3 where t3: "ieee80211_sta_reorder_release ?e t2 (fs @ outs k (win t)) =
          Some (t3, (fs @ outs k (win t)) @ outs m (win t2))" "moved m t2 t3" "m \<le> ring_size t2" "settled t3"
        using release_settles [OF t2(2)] by blast
      let ?os = "outs k (win t) @ outs m (win t2)"
      have "ieee80211_sta_manage_reorder_buf e t skb fs = Some (True, ?e, t3, fs @ ?os)"
        using store t2(1) t3(1) n1(1) unfolding step by simp
      moreover have "frame_done e t skb True ?e t3 ?os"
      proof -
        have h2: "uint (head_seq_num t2) = (uint ?h + int k) mod 4096" using t2(3) n1(4) by simp
        have m: "m \<le> 64" using t3(3) t2(4) n1(1) n by simp
        have "uint (head_seq_num t3) = (uint (head_seq_num t2) + int m) mod 4096" using t3(2) by (simp add: moved_def)
        then have "uint (head_seq_num t3) = (uint ?h + int (k + m)) mod 4096"
          by (simp add: h2 mod_add_left_eq add.assoc)
        moreover have "in_order ?h (k + m) ?os"
          using in_order_append [OF ord1 outs_in_order [OF t2(2)] h2] m kd(2) by simp
        moreover have "k + m \<le> 2112" using m kd(2) by simp
        ultimately show ?thesis
          using t3(4) held1 t2(5) moved_held [OF t3(2)] unfolding frame_done_def
          by (intro conjI exI [of _ "k + m"]) (simp_all add: ac_simps)
      qed
      ultimately show ?thesis by blast
    qed
  qed
qed

section \<open>Runs\<close>

text \<open>
  A frame arrives, the release timer fires, or time passes. The third component is what the upper
  layers were handed, oldest first.
\<close>

datatype reorder_op = Rx_frame rx_skb | Rx_timer | Rx_tick u64

type_synonym reorder_sys = "rx_env \<times> tid_ampdu_rx \<times> rx_skb list"

fun reorder_step :: "reorder_op \<Rightarrow> reorder_sys \<Rightarrow> reorder_sys option" where
  "reorder_step (Rx_frame skb) (e, t, up) = do {
     (consumed, e, t, frames) \<leftarrow> ieee80211_sta_manage_reorder_buf e t skb [];
     Some (e, t, up @ (if consumed then frames else frames @ [skb])) }"
| "reorder_step Rx_timer (e, t, up) = do {
     (t, frames) \<leftarrow> ieee80211_sta_reorder_release e t [];
     Some (e, t, up @ frames) }"
| "reorder_step (Rx_tick j) (e, t, up) = Some (e\<lparr>rx_jiffies := j\<rparr>, t, up)"

fun reorder_op_ok :: "reorder_op \<Rightarrow> reorder_sys \<Rightarrow> bool" where
  "reorder_op_ok (Rx_frame skb) s \<longleftrightarrow> frame_ok skb"
| "reorder_op_ok _ s \<longleftrightarrow> True"

fun reorder_sys_inv :: "reorder_sys \<Rightarrow> bool" where
  "reorder_sys_inv (e, t, up) \<longleftrightarrow> settled t"

fun reorder_held :: "reorder_sys \<Rightarrow> nat multiset" where
  "reorder_held (e, t, up) = held_ids (reorder_buf t)"

fun reorder_released :: "reorder_sys \<Rightarrow> nat multiset" where
  "reorder_released (e, t, up) = mset (map sk_id up) + mset (rx_freed e)"

fun reorder_accepted :: "reorder_op \<Rightarrow> reorder_sys \<Rightarrow> nat multiset" where
  "reorder_accepted (Rx_frame skb) s = {# sk_id skb #}"
| "reorder_accepted _ s = {#}"

lemma ledger:
  fixes a :: "'a multiset"
  assumes "a + b + c + d = h + k + f"
  shows "a + (u + (b + c) + d) = h + (u + f) + k"
proof -
  have "a + (u + (b + c) + d) = u + (a + b + c + d)" by (simp only: ac_simps)
  also have "\<dots> = u + (h + k + f)" by (simp only: assms)
  also have "\<dots> = h + (u + f) + k" by (simp only: ac_simps)
  finally show ?thesis .
qed

lemma reorder_step_ok:
  assumes "reorder_sys_inv s" "reorder_op_ok x s"
  shows "\<exists>s'. reorder_step x s = Some s' \<and> reorder_sys_inv s' \<and>
     reorder_held s' + reorder_released s' = reorder_held s + reorder_released s + reorder_accepted x s"
proof -
  obtain e t up where s: "s = (e, t, up)" by (cases s)
  have st: "settled t" using assms(1) s by simp
  show ?thesis
  proof (cases x)
    case (Rx_frame skb)
    obtain ret e' t' os where m: "ieee80211_sta_manage_reorder_buf e t skb [] = Some (ret, e', t', os)"
      "frame_done e t skb ret e' t' os"
      using manage_ok [OF st, of skb e "[]"] assms(2) Rx_frame s by auto
    have "settled t'" and h: "held_ids (reorder_buf t') + mset (map sk_id os) + (if ret then {#} else {# sk_id skb #}) +
        mset (rx_freed e') = held_ids (reorder_buf t) + {# sk_id skb #} + mset (rx_freed e)"
      using m(2) unfolding frame_done_def by blast+
    let ?up = "up @ (if ret then os else os @ [skb])"
    have "reorder_step x s = Some (e', t', ?up)" using m(1) s Rx_frame by simp
    moreover have "mset (map sk_id ?up) = mset (map sk_id up) + (mset (map sk_id os) + (if ret then {#} else {# sk_id skb #}))"
      by simp
    ultimately show ?thesis using ledger [OF h] \<open>settled t'\<close> s Rx_frame
      by (intro exI [of _ "(e', t', ?up)"]) (simp only: reorder_sys_inv.simps reorder_held.simps
        reorder_released.simps reorder_accepted.simps simp_thms)
  next
    case Rx_timer
    obtain m t' where r: "ieee80211_sta_reorder_release e t [] = Some (t', outs m (win t))" "moved m t t'" "settled t'"
      using release_settles [of t e "[]"] st by (auto simp: settled_def)
    have "reorder_step x s = Some (e, t', up @ outs m (win t))" using r(1) s Rx_timer by simp
    moreover have "mset (map sk_id (up @ outs m (win t))) = mset (map sk_id up) + mset (map sk_id (outs m (win t)))" by simp
    ultimately show ?thesis using s Rx_timer moved_held [OF r(2)] r(3)
      by (intro exI [of _ "(e, t', up @ outs m (win t))"]) (simp only: reorder_sys_inv.simps reorder_held.simps
        reorder_released.simps reorder_accepted.simps ac_simps add_0_left simp_thms)
  next
    case (Rx_tick j)
    then show ?thesis using s st by simp
  qed
qed

interpretation reorder: custody reorder_sys_inv reorder_op_ok reorder_step reorder_held reorder_released reorder_accepted
proof
  fix s x assume i: "reorder_sys_inv s" "reorder_op_ok x s"
  show "\<exists>s'. reorder_step x s = Some s' \<and> reorder_sys_inv s'" using reorder_step_ok [OF i] by blast
  fix s' assume "reorder_step x s = Some s'"
  then show "reorder_held s' + reorder_released s' = reorder_held s + reorder_released s + reorder_accepted x s"
    using reorder_step_ok [OF i] by auto
qed

end
