(* ===== verification/Agg_Rx.thy ===== *)
theory Agg_Rx
  imports Reorder_Runs
begin

text \<open>
  Receive block-ack sessions (\<open>hal_apollo/mac80211/agg-rx.c\<close>, configured with
  \<open>CONFIG_ATBM_DRIVER_PROCESS_BA\<close>): hardware tokens, and the set-up and the end of a session of one
  station. The freed session is released at once (the code frees it after an RCU grace period).

  Every allocation and the driver call take their outcome as an argument. What the code sends or
  asks of the driver is an event of \<open>ba_log\<close>.
\<close>

section \<open>State\<close>

datatype ba_event =
    Ampdu_rx_start u16 u16 int
  | Ampdu_rx_stop u16 u8
  | Send_delba u16 u16
  | Send_addba_resp u16 u8 u16 u16 u16

record ba_sys =
  setup_ba :: bool
  max_rx_aggs :: nat
  max_rx_subframes :: u16
  rx_aggr_map :: "bool list"
  block_ba :: bool
  delay_ba :: bool
  ba_sta :: sta_rx
  ba_env :: rx_env
  ba_log :: "ba_event list"

definition WLAN_STATUS_SUCCESS :: u16 where "WLAN_STATUS_SUCCESS = 0"
definition WLAN_STATUS_REQUEST_DECLINED :: u16 where "WLAN_STATUS_REQUEST_DECLINED = 37"
definition WLAN_STATUS_INVALID_QOS_PARAM :: u16 where "WLAN_STATUS_INVALID_QOS_PARAM = 38"
definition WLAN_STATUS_UNSPECIFIED_QOS :: u16 where "WLAN_STATUS_UNSPECIFIED_QOS = 32"

definition WLAN_BACK_RECIPIENT :: u16 where "WLAN_BACK_RECIPIENT = 0"
definition WLAN_BACK_INITIATOR :: u16 where "WLAN_BACK_INITIATOR = 1"

section \<open>Hardware tokens\<close>

fun find_first_zero_bit :: "bool list \<Rightarrow> nat \<Rightarrow> nat" where
  "find_first_zero_bit m 0 = 0"
| "find_first_zero_bit [] (Suc n) = 0"
| "find_first_zero_bit (b # m) (Suc n) = (if b then Suc (find_first_zero_bit m n) else 0)"

text \<open>\<open>None\<close> as the token is the code's -1.\<close>

definition ieee80211_rx_ba_alloc_hw_token :: "ba_sys \<Rightarrow> nat option \<times> ba_sys" where
  "ieee80211_rx_ba_alloc_hw_token s =
     (if setup_ba s then (Some 0, s)
      else (let token = find_first_zero_bit (rx_aggr_map s) (max_rx_aggs s) in
        if max_rx_aggs s \<le> token then (None, s)
        else (Some token, s\<lparr>rx_aggr_map := (rx_aggr_map s)[token := True]\<rparr>)))"

definition ieee80211_rx_ba_free_hw_token :: "nat \<Rightarrow> ba_sys \<Rightarrow> ba_sys" where
  "ieee80211_rx_ba_free_hw_token token s =
     (if setup_ba s then s
      else if max_rx_aggs s < token then s
      else s\<lparr>rx_aggr_map := (rx_aggr_map s)[token := False]\<rparr>)"

section \<open>End of a session\<close>

definition log_ba :: "ba_event \<Rightarrow> ba_sys \<Rightarrow> ba_sys" where
  "log_ba x s = s\<lparr>ba_log := ba_log s @ [x]\<rparr>"

definition ieee80211_free_tid_rx :: "tid_ampdu_rx \<Rightarrow> ba_sys \<Rightarrow> ba_sys" where
  "ieee80211_free_tid_rx t s =
     s\<lparr>ba_env := (ba_env s)\<lparr>rx_freed := rx_freed (ba_env s) @ map sk_id (somes (reorder_buf t))\<rparr>\<rparr>"

definition set_tid_rx :: "nat \<Rightarrow> tid_ampdu_rx option \<Rightarrow> ba_sys \<Rightarrow> ba_sys option" where
  "set_tid_rx tid v s = do {
     l \<leftarrow> wr (tid_rx (ba_sta s)) tid v;
     Some (s\<lparr>ba_sta := (ba_sta s)\<lparr>tid_rx := l\<rparr>\<rparr>) }"

definition ieee80211_stop_rx_ba_session :: "u16 \<Rightarrow> u16 \<Rightarrow> u16 \<Rightarrow> bool \<Rightarrow> ba_sys \<Rightarrow> ba_sys option" where
  "ieee80211_stop_rx_ba_session tid initiator reason tx s = do {
     agg \<leftarrow> rd (tid_rx (ba_sta s)) (unat tid);
     (case agg of
       None \<Rightarrow> Some s
     | Some t \<Rightarrow> do {
         s \<leftarrow> set_tid_rx (unat tid) None s;
         let s = log_ba (Ampdu_rx_stop tid (hw_token t)) s;
         let s = (if initiator = WLAN_BACK_RECIPIENT \<and> tx \<and> \<not> setup_ba s then log_ba (Send_delba tid reason) s else s);
         let s = ieee80211_rx_ba_free_hw_token (unat (hw_token t)) s;
         Some (ieee80211_free_tid_rx t s) }) }"

text \<open>\<open>ieee80211_process_delba\<close>, as far as it concerns receive sessions.\<close>

definition ieee80211_process_delba_rx :: "u16 \<Rightarrow> ba_sys \<Rightarrow> ba_sys option" where
  "ieee80211_process_delba_rx params s =
     (let tid = drop_bit 12 (params AND 0xF000); initiator = drop_bit 11 (params AND 0x0800) in
      if initiator = WLAN_BACK_INITIATOR then ieee80211_stop_rx_ba_session tid WLAN_BACK_INITIATOR 0 True s
      else Some s)"

section \<open>Set-up of a session\<close>

record addba_req =
  ar_dialog_token :: u8
  ar_timeout :: u16
  ar_start_seq_num :: u16
  ar_capab :: u16

text \<open>Whether the two allocations succeed, and what the driver returns.\<close>

record addba_env =
  alloc_session :: bool
  alloc_buffers :: bool
  drv_ret :: int

definition new_session :: "u8 \<Rightarrow> u16 \<Rightarrow> u16 \<Rightarrow> u16 \<Rightarrow> nat \<Rightarrow> u64 \<Rightarrow> tid_ampdu_rx" where
  "new_session dialog ssn bsize tmo token now =
     \<lparr>reorder_buf = replicate (unat bsize) None, reorder_time = replicate (unat bsize) 0,
      session_timer = (if tmo \<noteq> 0 then Some (now, tmo) else None), reorder_timer = None,
      head_seq_num = ssn, stored_mpdu_num = 0, ba_ssn = ssn, buf_size = bsize, ba_timeout = tmo,
      dialog_token = dialog, hw_token = of_nat token\<rparr>"

text \<open>The part under the mutex; the status is the one of the response.\<close>

definition addba_locked :: "addba_req \<Rightarrow> addba_env \<Rightarrow> u16 \<Rightarrow> u16 \<Rightarrow> u16 \<Rightarrow> ba_sys \<Rightarrow> (u16 \<times> ba_sys) option" where
  "addba_locked req env tid ssn bsize s = do {
     agg \<leftarrow> rd (tid_rx (ba_sta s)) (unat tid);
     s \<leftarrow> (if agg \<noteq> None
           then ieee80211_stop_rx_ba_session tid WLAN_BACK_RECIPIENT WLAN_STATUS_UNSPECIFIED_QOS False s else Some s);
     if \<not> (alloc_session env \<and> alloc_buffers env) then Some (WLAN_STATUS_REQUEST_DECLINED, s)
     else (case ieee80211_rx_ba_alloc_hw_token s of
       (None, s) \<Rightarrow> Some (WLAN_STATUS_REQUEST_DECLINED, s)
     | (Some token, s) \<Rightarrow>
         let s = log_ba (Ampdu_rx_start tid ssn (int token)) s in
         if drv_ret env \<noteq> 0 then Some (WLAN_STATUS_REQUEST_DECLINED, ieee80211_rx_ba_free_hw_token token s)
         else do {
           s \<leftarrow> set_tid_rx (unat tid)
                 (Some (new_session (ar_dialog_token req) ssn bsize (ar_timeout req) token (rx_jiffies (ba_env s)))) s;
           Some (WLAN_STATUS_SUCCESS, s) }) }"

definition ieee80211_process_addba_request :: "addba_req \<Rightarrow> addba_env \<Rightarrow> ba_sys \<Rightarrow> ba_sys option" where
  "ieee80211_process_addba_request req env s = do {
     let ssn = drop_bit 4 (ar_start_seq_num req);
     let policy = drop_bit 1 (ar_capab req AND 0x0002);
     let tid = drop_bit 2 (ar_capab req AND 0x003C);
     let bsize = drop_bit 6 (ar_capab req AND 0xFFC0);
     let respond = (\<lambda>status bsize s. if \<not> setup_ba s
       then log_ba (Send_addba_resp tid (ar_dialog_token req) status bsize (ar_timeout req)) s else s);
     if block_ba s then Some (respond WLAN_STATUS_REQUEST_DECLINED bsize s)
     else if (policy \<noteq> 1 \<and> \<not> delay_ba s) \<or> 64 < bsize then Some (respond WLAN_STATUS_INVALID_QOS_PARAM bsize s)
     else do {
       let bsize = (if bsize = 0 then 64 else bsize);
       let bsize = (if max_rx_subframes s < bsize then max_rx_subframes s else bsize);
       (status, s) \<leftarrow> addba_locked req env tid ssn bsize s;
       Some (respond status bsize s) } }"

section \<open>Tokens are not shared\<close>

text \<open>Every live session owns its token, and a token that is marked belongs to a session.\<close>

definition session_token :: "ba_sys \<Rightarrow> nat \<Rightarrow> nat option" where
  "session_token s i = map_option (\<lambda>t. unat (hw_token t)) (tid_rx (ba_sta s) ! i)"

definition tokens_ok :: "ba_sys \<Rightarrow> bool" where
  "tokens_ok s \<longleftrightarrow> \<not> setup_ba s \<and> max_rx_aggs s \<le> 128 \<and> length (rx_aggr_map s) = 128 \<and>
     length (tid_rx (ba_sta s)) = 16 \<and>
     (\<forall>i < 16. \<forall>k. session_token s i = Some k \<longrightarrow> k < max_rx_aggs s \<and>
        (\<forall>j < 16. session_token s j = Some k \<longrightarrow> j = i)) \<and>
     (\<forall>k < 128. rx_aggr_map s ! k \<longleftrightarrow> (\<exists>i < 16. session_token s i = Some k))"

lemma find_first_zero_bit_free:
  "find_first_zero_bit m n < n \<Longrightarrow> n \<le> length m \<Longrightarrow> \<not> m ! find_first_zero_bit m n"
  by (induction m n rule: find_first_zero_bit.induct) auto

text \<open>A change of the sessions and of the map in step keeps the invariant.\<close>

lemma tokens_drop:
  assumes ok: "tokens_ok s" and i: "i < 16" "session_token s i = Some k"
    and f: "setup_ba s' = setup_ba s" "max_rx_aggs s' = max_rx_aggs s"
      "rx_aggr_map s' = (rx_aggr_map s)[k := False]" "tid_rx (ba_sta s') = (tid_rx (ba_sta s))[i := None]"
  shows "tokens_ok s'"
proof -
  note o = ok [unfolded tokens_ok_def]
  have len: "length (tid_rx (ba_sta s)) = 16" "length (rx_aggr_map s) = 128" "max_rx_aggs s \<le> 128" "\<not> setup_ba s" using o by blast+
  have bound: "l < max_rx_aggs s" if "a < 16" "session_token s a = Some l" for a l using o that by blast
  have same: "b = a" if "a < 16" "session_token s a = Some l" "b < 16" "session_token s b = Some l" for a b l
    using o that by blast
  have t: "session_token s' j = (if j = i then None else session_token s j)" if "j < 16" for j
    using that len i(1) by (simp add: session_token_def f(4) nth_update)
  have "k < max_rx_aggs s" using o i by blast
  then have k: "k < 128" using len by linarith
  have m: "rx_aggr_map s' ! l = (l \<noteq> k \<and> rx_aggr_map s ! l)" if "l < 128" for l
    using that len k by (simp add: f(3) nth_update)
  have uniq: "j = i" if "j < 16" "session_token s j = Some k" for j using o i that by blast
  show ?thesis
    unfolding tokens_ok_def f(1,2)
  proof (intro conjI allI impI)
    fix l assume l: "l < (128 :: nat)"
    have "(session_token s' j = Some l) = (l \<noteq> k \<and> session_token s j = Some l)" if "j < 16" for j
    proof (cases "j = i")
      case True
      then show ?thesis unfolding t [OF that] using i(2) by auto
    next
      case False
      then have "session_token s' j = session_token s j" "session_token s j \<noteq> Some k"
        using t [OF that] uniq [OF that] by (simp, blast)
      then show ?thesis by (cases "l = k") simp_all
    qed
    then have "(\<exists>j < 16. session_token s' j = Some l) = (l \<noteq> k \<and> (\<exists>j < 16. session_token s j = Some l))"
      by blast
    then show "rx_aggr_map s' ! l = (\<exists>j < 16. session_token s' j = Some l)" using m [OF l] o l by blast
  next
    fix a l assume "a < (16 :: nat)" "session_token s' a = Some l"
    then show "l < max_rx_aggs s" using t [of a] bound [of a l] by (cases "a = i") simp_all
  next
    fix a l b assume ab: "a < (16 :: nat)" "session_token s' a = Some l" "b < (16 :: nat)" "session_token s' b = Some l"
    have "(if a = i then None else session_token s a) = Some l" "(if b = i then None else session_token s b) = Some l"
      using t [OF ab(1)] t [OF ab(3)] ab(2,4) by (simp_all only:)
    then show "b = a" using same [OF ab(1) _ ab(3)] by (metis option.distinct(1))
  qed (simp_all add: f(3,4) len)
qed

lemma tokens_add:
  assumes ok: "tokens_ok s" and i: "i < 16" "session_token s i = None" and k: "k < max_rx_aggs s" "\<not> rx_aggr_map s ! k"
    and f: "setup_ba s' = setup_ba s" "max_rx_aggs s' = max_rx_aggs s"
      "rx_aggr_map s' = (rx_aggr_map s)[k := True]" "tid_rx (ba_sta s') = (tid_rx (ba_sta s))[i := Some t]"
      "unat (hw_token t) = k"
  shows "tokens_ok s'"
proof -
  note o = ok [unfolded tokens_ok_def]
  have len: "length (tid_rx (ba_sta s)) = 16" "length (rx_aggr_map s) = 128" "max_rx_aggs s \<le> 128" "\<not> setup_ba s" using o by blast+
  have bound: "l < max_rx_aggs s" if "a < 16" "session_token s a = Some l" for a l using o that by blast
  have same: "b = a" if "a < 16" "session_token s a = Some l" "b < 16" "session_token s b = Some l" for a b l
    using o that by blast
  have t: "session_token s' j = (if j = i then Some k else session_token s j)" if "j < 16" for j
    using that len i(1) by (simp add: session_token_def f(4,5) nth_update)
  have k8: "k < 128" using len k by linarith
  have m: "rx_aggr_map s' ! l = (l = k \<or> rx_aggr_map s ! l)" if "l < 128" for l
    using that len k8 by (simp add: f(3) nth_update)
  have fresh: "session_token s j \<noteq> Some k" if "j < 16" for j using o k(2) k8 that by blast
  show ?thesis
    unfolding tokens_ok_def f(1,2)
  proof (intro conjI allI impI)
    fix l assume l: "l < (128 :: nat)"
    have "(session_token s' j = Some l) = (j = i \<and> l = k \<or> session_token s j = Some l)" if "j < 16" for j
    proof (cases "j = i")
      case True
      then show ?thesis unfolding t [OF that] using i(2) by simp blast
    next
      case False
      then have "session_token s' j = session_token s j" using t [OF that] by simp
      then show ?thesis using False by simp
    qed
    then have "(\<exists>j < 16. session_token s' j = Some l) = (l = k \<or> (\<exists>j < 16. session_token s j = Some l))"
      using i(1) by blast
    then show "rx_aggr_map s' ! l = (\<exists>j < 16. session_token s' j = Some l)" using m [OF l] o l by blast
  next
    fix a l assume "a < (16 :: nat)" "session_token s' a = Some l"
    then show "l < max_rx_aggs s" using t [of a] bound [of a l] k(1) by (cases "a = i") auto
  next
    fix a l b assume ab: "a < (16 :: nat)" "session_token s' a = Some l" "b < (16 :: nat)" "session_token s' b = Some l"
    have "(if a = i then Some k else session_token s a) = Some l" "(if b = i then Some k else session_token s b) = Some l"
      using t [OF ab(1)] t [OF ab(3)] ab(2,4) by (simp_all only:)
    then show "b = a" using fresh [OF ab(1)] fresh [OF ab(3)] same [OF ab(1) _ ab(3)]
      by (metis option.inject)
  qed (simp_all add: f(3,4) len)
qed

lemma alloc_token_ok:
  assumes "tokens_ok s" "ieee80211_rx_ba_alloc_hw_token s = (Some k, s')"
  shows "k < max_rx_aggs s" "\<not> rx_aggr_map s ! k" "s' = s\<lparr>rx_aggr_map := (rx_aggr_map s)[k := True]\<rparr>"
  using assms find_first_zero_bit_free [of "rx_aggr_map s" "max_rx_aggs s"]
  by (auto simp: ieee80211_rx_ba_alloc_hw_token_def tokens_ok_def Let_def split: if_splits)

lemma stop_session_tokens:
  assumes ok: "tokens_ok s" and i: "unat tid < 16"
  shows "\<exists>s'. ieee80211_stop_rx_ba_session tid init reason tx s = Some s' \<and> tokens_ok s' \<and>
     tid_rx (ba_sta s') = (tid_rx (ba_sta s))[unat tid := None] \<and> max_rx_aggs s' = max_rx_aggs s \<and>
     rx_jiffies (ba_env s') = rx_jiffies (ba_env s)"
proof -
  have l: "unat tid < length (tid_rx (ba_sta s))" "\<not> setup_ba s" using ok i by (simp_all add: tokens_ok_def)
  show ?thesis
  proof (cases "tid_rx (ba_sta s) ! unat tid")
    case None
    then show ?thesis
      using l ok list_update_id [of "tid_rx (ba_sta s)" "unat tid"]
      by (intro exI [of _ s]) (simp add: ieee80211_stop_rx_ba_session_def)
  next
    case (Some t)
    have st: "session_token s (unat tid) = Some (unat (hw_token t))" using Some by (simp add: session_token_def)
    then have k: "unat (hw_token t) < max_rx_aggs s" using ok i by (simp add: tokens_ok_def)
    obtain s' where s': "ieee80211_stop_rx_ba_session tid init reason tx s = Some s'" "setup_ba s' = setup_ba s"
      "max_rx_aggs s' = max_rx_aggs s" "rx_aggr_map s' = (rx_aggr_map s)[unat (hw_token t) := False]"
      "tid_rx (ba_sta s') = (tid_rx (ba_sta s))[unat tid := None]" "rx_jiffies (ba_env s') = rx_jiffies (ba_env s)"
      using l Some k by (auto simp: ieee80211_stop_rx_ba_session_def set_tid_rx_def log_ba_def
        ieee80211_rx_ba_free_hw_token_def ieee80211_free_tid_rx_def Let_def)
    then show ?thesis using tokens_drop [OF ok i st s'(2-5)] by blast
  qed
qed

lemma process_delba_tokens:
  assumes "tokens_ok s"
  shows "\<exists>s'. ieee80211_process_delba_rx params s = Some s' \<and> tokens_ok s'"
proof -
  have "unat (drop_bit 12 (params AND 0xF000) :: u16) < 16"
    using unsigned_less [of "params AND 0xF000", where 'a = nat]
    by (simp add: drop_bit_eq_div unat_div_distrib)
  from stop_session_tokens [OF assms this] show ?thesis
    using assms unfolding ieee80211_process_delba_rx_def Let_def by (metis (no_types, lifting))
qed

text \<open>After the set-up the TID has an empty session that starts at the requested number, or none.\<close>

lemma tokens_ok_cong:
  assumes "tid_rx (ba_sta s') = tid_rx (ba_sta s)" "rx_aggr_map s' = rx_aggr_map s" "setup_ba s' = setup_ba s"
    "max_rx_aggs s' = max_rx_aggs s"
  shows "tokens_ok s' = tokens_ok s"
  by (simp only: tokens_ok_def session_token_def assms)

lemma log_ba_tokens [simp]: "tokens_ok (log_ba x s) = tokens_ok s"
  "tid_rx (ba_sta (log_ba x s)) = tid_rx (ba_sta s)" "ba_env (log_ba x s) = ba_env s"
  by (simp_all add: tokens_ok_def log_ba_def session_token_def)

definition addba_result :: "addba_req \<Rightarrow> nat \<Rightarrow> u16 \<Rightarrow> u16 \<Rightarrow> u16 \<Rightarrow> ba_sys \<Rightarrow> ba_sys \<Rightarrow> bool" where
  "addba_result req tid ssn bsize status s s' \<longleftrightarrow> tokens_ok s' \<and>
     (if status = WLAN_STATUS_SUCCESS
      then \<exists>k. tid_rx (ba_sta s') ! tid =
        Some (new_session (ar_dialog_token req) ssn bsize (ar_timeout req) k (rx_jiffies (ba_env s)))
      else tid_rx (ba_sta s') ! tid = None) \<and>
     (\<forall>j < 16. j \<noteq> tid \<longrightarrow> tid_rx (ba_sta s') ! j = tid_rx (ba_sta s) ! j)"

lemma addba_locked_result:
  assumes ok: "tokens_ok s" and i: "unat tid < 16"
  shows "\<exists>status s'. addba_locked req env tid ssn bsize s = Some (status, s') \<and>
     addba_result req (unat tid) ssn bsize status s s'"
proof -
  have l: "length (tid_rx (ba_sta s)) = 16" using ok by (simp add: tokens_ok_def)
  obtain s1 where s1: "(if tid_rx (ba_sta s) ! unat tid \<noteq> None
      then ieee80211_stop_rx_ba_session tid WLAN_BACK_RECIPIENT WLAN_STATUS_UNSPECIFIED_QOS False s else Some s) = Some s1"
    "tokens_ok s1" "tid_rx (ba_sta s1) = (tid_rx (ba_sta s))[unat tid := None]" "rx_jiffies (ba_env s1) = rx_jiffies (ba_env s)"
  proof (cases "tid_rx (ba_sta s) ! unat tid")
    case None
    then have "(tid_rx (ba_sta s))[unat tid := None] = tid_rx (ba_sta s)"
      using list_update_id [of "tid_rx (ba_sta s)" "unat tid"] by simp
    then show ?thesis using that [of s] None ok by simp
  next
    case (Some t)
    then show ?thesis
      using that stop_session_tokens [OF ok i, of WLAN_BACK_RECIPIENT WLAN_STATUS_UNSPECIFIED_QOS False] by auto
  qed
  have none: "tid_rx (ba_sta s1) ! unat tid = None" "\<forall>j < 16. j \<noteq> unat tid \<longrightarrow> tid_rx (ba_sta s1) ! j = tid_rx (ba_sta s) ! j"
    "length (tid_rx (ba_sta s1)) = 16" using s1(3) l i by simp_all
  have declined: "addba_result req (unat tid) ssn bsize WLAN_STATUS_REQUEST_DECLINED s s1"
    using s1(2) none by (simp add: addba_result_def WLAN_STATUS_REQUEST_DECLINED_def WLAN_STATUS_SUCCESS_def)
  have eq: "addba_locked req env tid ssn bsize s =
      (if \<not> (alloc_session env \<and> alloc_buffers env) then Some (WLAN_STATUS_REQUEST_DECLINED, s1)
     else (case ieee80211_rx_ba_alloc_hw_token s1 of
       (None, s) \<Rightarrow> Some (WLAN_STATUS_REQUEST_DECLINED, s)
     | (Some token, s) \<Rightarrow>
         let s = log_ba (Ampdu_rx_start tid ssn (int token)) s in
         if drv_ret env \<noteq> 0 then Some (WLAN_STATUS_REQUEST_DECLINED, ieee80211_rx_ba_free_hw_token token s)
         else do {
           s \<leftarrow> set_tid_rx (unat tid)
                 (Some (new_session (ar_dialog_token req) ssn bsize (ar_timeout req) token (rx_jiffies (ba_env s)))) s;
           Some (WLAN_STATUS_SUCCESS, s) }))"
    using s1(1) l i unfolding addba_locked_def by simp
  obtain tk s2 where a: "ieee80211_rx_ba_alloc_hw_token s1 = (tk, s2)" by (cases "ieee80211_rx_ba_alloc_hw_token s1")
  show ?thesis
  proof (cases "alloc_session env \<and> alloc_buffers env")
    case False
    with eq declined show ?thesis by simp
  next
    case alloc: True
    show ?thesis
    proof (cases tk)
      case None
      then have "s2 = s1" using a by (auto simp: ieee80211_rx_ba_alloc_hw_token_def Let_def split: if_splits)
      with eq alloc a None declined show ?thesis by simp
    next
      case (Some k)
      note k = alloc_token_ok [OF s1(2) a [unfolded Some]]
      have bounds: "max_rx_aggs s1 \<le> 128" "\<not> setup_ba s1" "length (rx_aggr_map s1) = 128"
        using s1(2) by (simp_all add: tokens_ok_def)
      let ?s3 = "log_ba (Ampdu_rx_start tid ssn (int k)) s2"
      show ?thesis
      proof (cases "drv_ret env = 0")
        case False
        have m: "(rx_aggr_map s1)[k := False] = rx_aggr_map s1"
          using k(2) list_update_id [of "rx_aggr_map s1" k] by simp
        let ?s4 = "ieee80211_rx_ba_free_hw_token k ?s3"
        have f: "tid_rx (ba_sta ?s4) = tid_rx (ba_sta s1)" "rx_aggr_map ?s4 = rx_aggr_map s1" "setup_ba ?s4 = setup_ba s1"
          "max_rx_aggs ?s4 = max_rx_aggs s1"
          using k bounds m by (simp_all add: ieee80211_rx_ba_free_hw_token_def log_ba_def)
        then have "tokens_ok ?s4" using tokens_ok_cong [of ?s4 s1] s1(2) by simp
        then have "addba_result req (unat tid) ssn bsize WLAN_STATUS_REQUEST_DECLINED s ?s4"
          using declined f(1) by (simp add: addba_result_def)
        with eq alloc a Some False show ?thesis by (simp add: Let_def)
      next
        case True
        let ?n = "new_session (ar_dialog_token req) ssn bsize (ar_timeout req) k (rx_jiffies (ba_env s))"
        let ?s4 = "?s3\<lparr>ba_sta := (ba_sta ?s3)\<lparr>tid_rx := (tid_rx (ba_sta s1))[unat tid := Some ?n]\<rparr>\<rparr>"
        have kk: "k < 256" using k(1) bounds(1) by linarith
        then have hw: "unat (hw_token ?n) = k" by (simp add: new_session_def unat_of_nat take_bit_nat_eq_self)
        have st: "session_token s1 (unat tid) = None" using none(1) by (simp add: session_token_def)
        have T: "tokens_ok ?s4"
          by (rule tokens_add [OF s1(2) i st k(1,2), where t = ?n]) (simp_all add: log_ba_def k(3) hw)
        have L: "tid_rx (ba_sta ?s4) = (tid_rx (ba_sta s1))[unat tid := Some ?n]" by simp
        have at: "(tid_rx (ba_sta s1))[unat tid := Some ?n] ! unat tid = Some ?n" using i none(3) by simp
        have "(tid_rx (ba_sta s1))[unat tid := Some ?n] ! j = tid_rx (ba_sta s) ! j" if "j < 16" "j \<noteq> unat tid" for j
          using none(2) that by simp
        then have "addba_result req (unat tid) ssn bsize WLAN_STATUS_SUCCESS s ?s4"
          unfolding addba_result_def L at using T by (simp only: if_True refl) blast
        moreover have "addba_locked req env tid ssn bsize s = Some (WLAN_STATUS_SUCCESS, ?s4)"
          using eq alloc a Some True i none(3) s1(4) by (simp add: Let_def set_tid_rx_def k(3))
        ultimately show ?thesis by blast
      qed
    qed
  qed
qed

text \<open>An empty session of a size that divides 4096 is settled.\<close>

lemma new_session_settled:
  assumes "uint ssn < 4096" "1 < unat bsize" "unat bsize \<le> 64" "unat bsize dvd 4096"
  shows "settled (new_session dialog ssn bsize tmo k now)"
proof -
  let ?t = "new_session dialog ssn bsize tmo k now"
  have z: "stored_slots (reorder_buf ?t) = 0" by (simp add: new_session_def stored_slots_def)
  have ok: "ring_ok ?t" using assms z by (simp add: ring_ok_def new_session_def)
  then have "win ?t ! d = None" if "d < ring_size ?t" for d
    using empty_window [of "win ?t" d] z that by (simp add: ring_ok_def)
  then show ?thesis using ok z assms(2) by (simp add: settled_def reorder_inv_def placed_def new_session_def)
qed

end
