(* ===== verification/Reorder_Props.thy ===== *)
theory Reorder_Props
  imports Agg_Rx
begin

text \<open>The properties of receive sessions and their reorder buffer, each with a concrete run.\<close>

section \<open>Example frames\<close>

text \<open>A QoS data frame of 40 bytes with a sequence number and an ethertype.\<close>

definition ex_skb :: "nat \<Rightarrow> u16 \<Rightarrow> bool \<Rightarrow> rx_skb" where
  "ex_skb i s eapol = \<lparr>sk_id = i,
     sk_data = [0x88, 1] @ replicate 20 0 @ [ucast (push_bit 4 s), ucast (drop_bit 4 s)] @ replicate 8 0 @
       (if eapol then [0x88, 0x8E] else [8, 0]) @ replicate 6 0,
     sk_qos_dup = False, sk_deferred = False\<rparr>"

definition ex_rx_env :: rx_env where
  "ex_rx_env = \<lparr>rx_jiffies = 1000, rx_hz = 100, reorder_buf_timeout = 10, short_rx_cnt = 0, rx_freed = []\<rparr>"

definition ex_session :: "u16 \<Rightarrow> u16 \<Rightarrow> tid_ampdu_rx" where
  "ex_session ssn n = new_session 1 ssn n 0 0 1000"

definition session_start :: "u16 \<Rightarrow> u16 \<Rightarrow> reorder_sys" where
  "session_start ssn n = (ex_rx_env, ex_session ssn n, [])"

definition ex_rx_ops :: "reorder_op list" where
  "ex_rx_ops = [Rx_frame (ex_skb 1 4095 False), Rx_frame (ex_skb 2 1 False), Rx_frame (ex_skb 3 1 False),
     Rx_tick 1200, Rx_timer, Rx_frame (ex_skb 4 2 False)]"

section \<open>Runs of a session\<close>

text \<open>
  Claim C22. From the set-up of a session whose buffer size divides 4096, no run of frames and
  timer expiries aborts. At every point each stored frame is in the slot of its number within the
  window, the head of the window is a hole, so that no deliverable frame is held back, and the
  release timer runs while frames wait.
\<close>

theorem reorder_run_safe:
  assumes "uint ssn < 4096" "1 < unat n" "unat n \<le> 64" "unat n dvd 4096"
    "run_ok reorder_op_ok reorder_step xs (e, new_session dialog ssn n tmo k now, up)"
  shows "\<exists>e' t' up'. run_ops reorder_step xs (e, new_session dialog ssn n tmo k now, up) = Some (e', t', up') \<and>
     settled t'"
proof -
  have "reorder_sys_inv (e, new_session dialog ssn n tmo k now, up)"
    using new_session_settled [OF assms(1-4)] by simp
  from reorder.run_total [OF this assms(5)] show ?thesis by auto
qed

theorem reorder_run_safe_witness:
  "\<exists>e' t' up'. run_ops reorder_step ex_rx_ops (ex_rx_env, new_session 1 4095 8 0 0 1000, []) = Some (e', t', up') \<and>
     settled t'"
proof (rule reorder_run_safe)
  show "run_ok reorder_op_ok reorder_step ex_rx_ops (ex_rx_env, new_session 1 4095 8 0 0 1000, [])" by code_simp
  show "unat (8 :: u16) dvd 4096" by simp
qed simp_all

text \<open>
  Claim C23. Every frame a session is handed is, after any run, in exactly one place and there
  once: stored, delivered upwards, or freed.
\<close>

theorem reorder_conserves_frames:
  assumes "settled t" "run_ok reorder_op_ok reorder_step xs (e, t, up)"
    "run_ops reorder_step xs (e, t, up) = Some (e', t', up')"
  shows "held_ids (reorder_buf t') + mset (map sk_id up') + mset (rx_freed e') =
     held_ids (reorder_buf t) + mset (map sk_id up) + mset (rx_freed e) +
     accepted_run reorder_accepted reorder_step xs (e, t, up)"
  using reorder.run_conserve [OF _ assms(2,3)] assms(1) by (simp add: add.assoc)

theorem reorder_conserves_frames_witness:
  "\<exists>e' t' up'. run_ops reorder_step ex_rx_ops (session_start 4095 8) = Some (e', t', up') \<and>
     held_ids (reorder_buf t') + mset (map sk_id up') + mset (rx_freed e') = {# 1, 2, 3, 4 #}"
proof -
  have st: "settled (ex_session 4095 8)"
    unfolding ex_session_def by (rule new_session_settled) simp_all
  have r: "run_ok reorder_op_ok reorder_step ex_rx_ops (ex_rx_env, ex_session 4095 8, [])" by code_simp
  obtain e' t' up' where s: "run_ops reorder_step ex_rx_ops (ex_rx_env, ex_session 4095 8, []) = Some (e', t', up')"
    using reorder.run_total [OF _ r] st by auto
  have "accepted_run reorder_accepted reorder_step ex_rx_ops (ex_rx_env, ex_session 4095 8, []) = {# 1, 2, 3, 4 #}"
    by code_simp
  moreover have "held_ids (reorder_buf (ex_session 4095 8)) = {#}" "rx_freed ex_rx_env = []" by code_simp+
  ultimately show ?thesis
    using reorder_conserves_frames [OF st r s] s by (simp add: session_start_def)
qed

text \<open>
  Claim C24. Frames leave the buffer in order. A frame that is not out of date moves the head
  forward by some distance; the frames released are numbered between the old and the new head and
  strictly rise, the frame itself, when it is passed on at once, comes after them, and what stays
  stored is numbered from the new head on.
\<close>

theorem reorder_delivers_in_order:
  assumes "settled t" "frame_ok skb"
    "ieee80211_sta_manage_reorder_buf e t skb [] = Some (consumed, e', t', frames)"
  shows "\<exists>m \<le> 2112. uint (head_seq_num t') = (uint (head_seq_num t) + int m) mod 4096 \<and>
     in_order (head_seq_num t) m frames \<and>
     (\<not> consumed \<and> \<not> seq_less (skb_seq skb) (head_seq_num t) \<longrightarrow>
        in_order (head_seq_num t) (m + 1) (frames @ [skb])) \<and>
     (\<forall>d < ring_size t'. \<forall>k. win t' ! d = Some k \<longrightarrow> dist (skb_seq k) (head_seq_num t') = d)"
proof -
  have "frame_done e t skb consumed e' t' frames"
    using manage_ok [OF assms(1,2), of e "[]"] assms(3) by auto
  then show ?thesis
    unfolding frame_done_def settled_def reorder_inv_def placed_def by blast
qed

theorem reorder_delivers_in_order_witness:
  "\<exists>c e' t' fs m. ieee80211_sta_manage_reorder_buf ex_rx_env (ex_session 4095 8) (ex_skb 1 7 False) [] = Some (c, e', t', fs) \<and>
     m \<le> 2112 \<and> uint (head_seq_num t') = (4095 + int m) mod 4096 \<and> in_order 4095 m fs"
proof -
  have st: "settled (ex_session 4095 8)"
    unfolding ex_session_def by (rule new_session_settled) simp_all
  have f: "frame_ok (ex_skb 1 7 False)" by code_simp
  obtain c e' t' fs where r: "ieee80211_sta_manage_reorder_buf ex_rx_env (ex_session 4095 8) (ex_skb 1 7 False) [] =
      Some (c, e', t', fs)" using manage_ok [OF st f, of ex_rx_env "[]"] by auto
  have "head_seq_num (ex_session 4095 8) = 4095" by (simp add: ex_session_def new_session_def)
  with reorder_delivers_in_order [OF st f r] r show ?thesis by auto
qed



definition ex_ba :: ba_sys where
  "ex_ba = \<lparr>setup_ba = False, max_rx_aggs = 16, max_rx_subframes = 64, rx_aggr_map = replicate 128 False,
     block_ba = False, delay_ba = False, ba_sta = \<lparr>tid_rx = replicate 16 None, sdata_queue = []\<rparr>,
     ba_env = ex_rx_env, ba_log = []\<rparr>"

definition ex_addba :: "u16 \<Rightarrow> u16 \<Rightarrow> addba_req" where
  "ex_addba ssn n = \<lparr>ar_dialog_token = 1, ar_timeout = 0, ar_start_seq_num = push_bit 4 ssn,
     ar_capab = push_bit 6 n OR 2\<rparr>"

definition ex_addba_env :: addba_env where
  "ex_addba_env = \<lparr>alloc_session = True, alloc_buffers = True, drv_ret = 0\<rparr>"

section \<open>Setting up and ending sessions\<close>





section \<open>Two defects\<close>

text \<open>
  An EAPOL frame one ahead of an empty window is passed on at once, but the head moves
  only to the EAPOL frame itself: the frames after it are held back although nothing before them is
  missing, here frames 102 and 103 after the EAPOL frame 101.
\<close>

lemma reorder_eapol_stalls:
  "map_option (\<lambda>(e, t, up). (map sk_id up, map sk_id (somes (reorder_buf t)), head_seq_num t))
     (run_ops reorder_step [Rx_frame (ex_skb 1 101 True), Rx_frame (ex_skb 2 102 False), Rx_frame (ex_skb 3 103 False)]
       (session_start 100 64)) = Some ([1], [2, 3], 101)"
  by code_simp

text \<open>Frames that arrive in order at an empty buffer only move the head.\<close>

definition long_skb :: "nat \<Rightarrow> rx_skb" where
  "long_skb i = (let s = of_nat i in \<lparr>sk_id = i,
     sk_data = [0x88, 1] @ replicate 20 0 @ [ucast (push_bit 4 s), ucast (drop_bit 4 (s :: u16))] @ replicate 130 0,
     sk_qos_dup = False, sk_deferred = False\<rparr>)"

lemma ctrl_seq_bytes: "unat s < 4096 \<Longrightarrow> ctrl_seq (le16 (ucast (push_bit 4 s)) (ucast (drop_bit 4 s))) = s"
proof -
  assume s: "unat s < 4096"
  then have "s = take_bit 12 s" by (simp add: word_unat_eq_iff unsigned_take_bit_eq take_bit_nat_eq_self)
  then have hi: "bit s n \<Longrightarrow> n < 12" for n by (metis bit_take_bit_iff)
  have m: "(0xFFF0 :: u16) = NOT (mask 4)" by (simp add: mask_eq_exp_minus_1)
  have "bit (ctrl_seq (le16 (ucast (push_bit 4 s)) (ucast (drop_bit 4 s)))) n = bit s n" for n
    using hi [of n] unfolding ctrl_seq_def m le16_def by (auto simp: bit_simps)
  then show ?thesis by (intro bit_word_eqI) simp
qed

lemma long_skb_frame:
  assumes "i < 4090"
  shows "le16_at (sk_data (long_skb i)) 22 = Some (seq_ctrl (sk_data (long_skb i)))" "skb_seq (long_skb i) = of_nat i"
    "le16_at (sk_data (long_skb i)) 0 = Some 0x188" "ieee80211_frame_eapol (sk_data (long_skb i)) = Some False"
    "length (sk_data (long_skb i)) = 154" "sk_id (long_skb i) = i"
proof -
  have u: "unat (of_nat i :: u16) < 4096" using assms by (simp add: unat_of_nat take_bit_nat_eq_self)
  show "le16_at (sk_data (long_skb i)) 22 = Some (seq_ctrl (sk_data (long_skb i)))"
    by (rule seq_ctrl_at) (simp add: long_skb_def Let_def)
  show "skb_seq (long_skb i) = of_nat i"
    using ctrl_seq_bytes [OF u] by (simp add: skb_seq_def seq_ctrl_def long_skb_def Let_def nth_append)
  show h: "le16_at (sk_data (long_skb i)) 0 = Some 0x188"
    by (simp add: le16_at_def long_skb_def Let_def rd_def le16_def push_bit_eq_mult)
  show "ieee80211_frame_eapol (sk_data (long_skb i)) = Some False"
    by (simp add: ieee80211_frame_eapol_def h ieee80211_is_data_def ieee80211_is_data_qos_def)
       (simp add: long_skb_def Let_def rd_def nth_append)
  show "length (sk_data (long_skb i)) = 154" "sk_id (long_skb i) = i" by (simp_all add: long_skb_def Let_def)
qed

definition odd_session :: "nat \<Rightarrow> tid_ampdu_rx" where
  "odd_session i = (new_session 1 0 48 0 0 1000)\<lparr>head_seq_num := of_nat i\<rparr>"

definition odd_env :: rx_env where
  "odd_env = ex_rx_env\<lparr>reorder_buf_timeout := 50\<rparr>"

lemma odd_step:
  assumes i: "i < 4090" and e: "e = ex_rx_env \<or> e = odd_env"
  shows "reorder_step (Rx_frame (long_skb i)) (e, odd_session i, up) = Some (odd_env, odd_session (i + 1), up @ [long_skb i])"
proof -
  have u: "uint (of_nat i :: u16) = int i" using i by (simp add: unsigned_of_nat take_bit_nat_eq_self)
  have h: "head_seq_num (odd_session i) = of_nat i" "buf_size (odd_session i) = 48" "ba_ssn (odd_session i) = 0"
    "stored_mpdu_num (odd_session i) = 0" "reorder_buf (odd_session i) = replicate 48 None"
    by (simp_all add: odd_session_def new_session_def)
  have inc: "seq_inc (of_nat i) = of_nat (i + 1)"
  proof -
    have "uint (of_nat (i + 1) :: u16) = int (i + 1)"
      using i by (simp add: unsigned_of_nat take_bit_nat_eq_self del: of_nat_add of_nat_Suc)
    then show ?thesis using i by (simp add: word_uint_eq_iff uint_seq_inc u del: of_nat_add of_nat_Suc)
  qed
  have "uint (of_nat i + 48 :: u16) = int i + 48" using i u by (simp add: uint_word_ariths)
  then have win: "seq_less (of_nat i) (of_nat i + 48)" "\<not> seq_less (of_nat i) (of_nat i :: u16)"
    by (simp_all add: seq_less_iff u)
  obtain j where j: "slot_of (odd_session i) (of_nat i) = Some j" "j < 48"
    using unsigned_less by (auto simp: slot_of_def h unat_mod_distrib)
  have c: "count_short_frames 154 e = odd_env"
    using e by (auto simp: count_short_frames_def odd_env_def ex_rx_env_def)
  have "ieee80211_sta_manage_reorder_buf e (odd_session i) (long_skb i) [] =
      Some (False, odd_env, (odd_session i)\<lparr>head_seq_num := of_nat (i + 1)\<rparr>, [])"
    using long_skb_frame [OF i] j
    by (simp add: ieee80211_sta_manage_reorder_buf_def skb_seq_def [symmetric] h inc [simplified] win c)
  then show ?thesis by (simp add: odd_session_def)
qed

lemma odd_run:
  "n \<le> 4090 \<Longrightarrow> e = ex_rx_env \<or> e = odd_env \<Longrightarrow>
     run_ops reorder_step (map (\<lambda>i. Rx_frame (long_skb i)) [4090 - n..<4090] @ ys) (e, odd_session (4090 - n), up) =
     run_ops reorder_step ys (if n = 0 then e else odd_env, odd_session 4090, up @ map long_skb [4090 - n..<4090])"
proof (induction n arbitrary: e up)
  case (Suc n)
  have l: "[4090 - Suc n..<4090] = (4090 - Suc n) # [4090 - n..<4090]"
  proof -
    have "4090 - Suc n < 4090" "Suc (4090 - Suc n) = 4090 - n" using Suc.prems(1) by simp_all
    then show ?thesis by (simp only: upt_conv_Cons)
  qed
  have n: "4090 - Suc n + 1 = 4090 - n" using Suc.prems(1) by simp
  have "reorder_step (Rx_frame (long_skb (4090 - Suc n))) (e, odd_session (4090 - Suc n), up) =
      Some (odd_env, odd_session (4090 - n), up @ [long_skb (4090 - Suc n)])"
    using odd_step [of "4090 - Suc n" e up] Suc.prems n by simp
  then show ?case
    using Suc.IH [of odd_env "up @ [long_skb (4090 - Suc n)]"] Suc.prems(1) unfolding l by simp
qed simp

lemma odd_last:
  "map_option (\<lambda>(e, t, up). (map sk_id up, rx_freed e))
     (run_ops reorder_step [Rx_frame (ex_skb 9000 12 False), Rx_frame (ex_skb 9001 4092 False)]
       (odd_env, odd_session 4090, [])) = Some ([], [9001])"
  by code_simp

lemma reorder_step_up:
  "reorder_step x (e, t, up @ us) = map_option (\<lambda>(e, t, vs). (e, t, up @ vs)) (reorder_step x (e, t, us))"
  by (cases x) (auto simp: map_option_case split: option.splits bind_splits)

lemma reorder_run_up:
  "run_ops reorder_step xs (e, t, up @ us) =
     map_option (\<lambda>(e, t, vs). (e, t, up @ vs)) (run_ops reorder_step xs (e, t, us))"
proof (induction xs arbitrary: e t us)
  case (Cons x xs)
  show ?case
  proof (cases "reorder_step x (e, t, us)")
    case None
    then show ?thesis using reorder_step_up [of x e t up us] by simp
  next
    case (Some s)
    then show ?thesis using reorder_step_up [of x e t up us] Cons.IH by (cases s) simp
  qed
qed simp

lemma odd_addba:
  "map_option (\<lambda>s. tid_rx (ba_sta s) ! 0) (ieee80211_process_addba_request (ex_addba 0 48) ex_addba_env ex_ba) =
     Some (Some (odd_session 0))"
  by code_simp

text \<open>
  A session with 48 buffers, which the set-up accepts, mixes up slots where the numbers
  wrap: with 4090 expected next, frame 4092 is thrown away because frame 12 sits in its slot.
\<close>

lemma reorder_48_buffers_lose_frame:
  "\<exists>s t e t' up. ieee80211_process_addba_request (ex_addba 0 48) ex_addba_env ex_ba = Some s \<and>
     tid_rx (ba_sta s) ! 0 = Some t \<and>
     run_ops reorder_step (map (\<lambda>i. Rx_frame (long_skb i)) [0..<4090] @
       [Rx_frame (ex_skb 9000 12 False), Rx_frame (ex_skb 9001 4092 False)]) (ex_rx_env, t, []) = Some (e, t', up) \<and>
     rx_freed e = [9001]"
proof -
  let ?ys = "[Rx_frame (ex_skb 9000 12 False), Rx_frame (ex_skb 9001 4092 False)]"
  obtain s where s: "ieee80211_process_addba_request (ex_addba 0 48) ex_addba_env ex_ba = Some s"
    "tid_rx (ba_sta s) ! 0 = Some (odd_session 0)" using odd_addba by auto
  obtain e t' vs where l: "run_ops reorder_step ?ys (odd_env, odd_session 4090, []) = Some (e, t', vs)" "rx_freed e = [9001]"
    using odd_last by (auto simp del: run_ops.simps)
  have "run_ops reorder_step (map (\<lambda>i. Rx_frame (long_skb i)) [4090 - 4090..<4090] @ ?ys) (ex_rx_env, odd_session (4090 - 4090), []) =
      run_ops reorder_step ?ys (if (4090 :: nat) = 0 then ex_rx_env else odd_env, odd_session 4090, [] @ map long_skb [4090 - 4090..<4090])"
    by (rule odd_run) simp_all
  then have "run_ops reorder_step (map (\<lambda>i. Rx_frame (long_skb i)) [0..<4090] @ ?ys) (ex_rx_env, odd_session 0, []) =
      run_ops reorder_step ?ys (odd_env, odd_session 4090, map long_skb [0..<4090] @ [])"
    by (simp only: diff_self_eq_0 append_Nil append_Nil2) simp
  also have "\<dots> = Some (e, t', map long_skb [0..<4090] @ vs)"
    by (simp only: reorder_run_up l(1) option.map prod.case)
  finally show ?thesis using s l(2) by blast
qed

end
