(* ===== verification/Elements.thy ===== *)
theory Elements
  imports Prelude
begin

text \<open>
  Information elements: the parser that fills \<open>struct ieee802_atbm_11_elems\<close>
  (\<open>hal_apollo/mac80211/util.c\<close>) and the searches of \<open>include/net/atbm_mac80211.h\<close>.

  A buffer is a byte list and a pointer into it an offset. The pointers of the structure are
  \<open>el_ptr\<close>, with \<open>None\<close> for NULL, its length members \<open>el_len\<close>; both are indexed by the name of the
  member. Members that have no length member keep the length 0. A read outside the buffer is \<open>None\<close>.
\<close>

section \<open>The structure\<close>

datatype elem_field =
    F_ssid | F_supp_rates | F_fh_params | F_ds_params | F_cf_params | F_tim | F_ibss_params | F_challenge
  | F_wpa | F_rsn | F_erp_info | F_ext_supp_rates | F_wmm_info | F_wmm_param | F_p2p_ie | F_wfd
  | F_ht_cap_elem | F_ht_info_elem | F_mesh_config | F_mesh_id | F_peering | F_preq | F_prep | F_perr
  | F_rann | F_ch_switch_elem | F_country_elem | F_pwr_constr_elem | F_quiet_elem | F_timeout_int
  | F_wps_ie | F_extended_ch_switch_elem | F_secondary_ch_elem | F_atbm_special

record elems =
  el_ptr :: "elem_field \<Rightarrow> nat option"
  el_len :: "elem_field \<Rightarrow> u8"
  num_of_quiet_elem :: u8

definition no_elems :: elems where
  "no_elems = \<lparr>el_ptr = (\<lambda>_. None), el_len = (\<lambda>_. 0), num_of_quiet_elem = 0\<rparr>"

definition set_ptr :: "elem_field \<Rightarrow> nat \<Rightarrow> elems \<Rightarrow> elems" where
  "set_ptr f pos e = e\<lparr>el_ptr := (el_ptr e)(f := Some pos)\<rparr>"

definition set_elem :: "elem_field \<Rightarrow> nat \<Rightarrow> u8 \<Rightarrow> elems \<Rightarrow> elems" where
  "set_elem f pos elen e = e\<lparr>el_ptr := (el_ptr e)(f := Some pos), el_len := (el_len e)(f := elen)\<rparr>"

text \<open>Element identifiers whose case only stores the pointer and the length.\<close>

definition plain_elems :: "(u8 \<times> elem_field) list" where
  "plain_elems =
     [(0, F_ssid), (1, F_supp_rates), (2, F_fh_params), (3, F_ds_params), (4, F_cf_params), (6, F_ibss_params),
      (16, F_challenge), (48, F_rsn), (42, F_erp_info), (50, F_ext_supp_rates), (114, F_mesh_id),
      (117, F_peering), (130, F_preq), (131, F_prep), (132, F_perr), (37, F_ch_switch_elem),
      (7, F_country_elem), (32, F_pwr_constr_elem), (56, F_timeout_int), (60, F_extended_ch_switch_elem),
      (62, F_secondary_ch_elem), (233, F_atbm_special)]"

definition ATBM_WLAN_EID_TIM :: u8 where "ATBM_WLAN_EID_TIM = 5"
definition ATBM_WLAN_EID_QUIET :: u8 where "ATBM_WLAN_EID_QUIET = 40"
definition ATBM_WLAN_EID_HT_CAPABILITY :: u8 where "ATBM_WLAN_EID_HT_CAPABILITY = 45"
definition ATBM_WLAN_EID_HT_INFORMATION :: u8 where "ATBM_WLAN_EID_HT_INFORMATION = 61"
definition ATBM_WLAN_EID_MESH_CONFIG :: u8 where "ATBM_WLAN_EID_MESH_CONFIG = 113"
definition ATBM_WLAN_EID_RANN :: u8 where "ATBM_WLAN_EID_RANN = 126"
definition ATBM_WLAN_EID_VENDOR_SPECIFIC :: u8 where "ATBM_WLAN_EID_VENDOR_SPECIFIC = 221"

text \<open>Sizes of the packed structures the pointers are cast to.\<close>

definition sizeof_tim_ie :: nat where "sizeof_tim_ie = 4"
definition sizeof_ht_cap :: nat where "sizeof_ht_cap = 26"
definition sizeof_ht_info :: nat where "sizeof_ht_info = 22"
definition sizeof_meshconf_ie :: nat where "sizeof_meshconf_ie = 7"
definition sizeof_rann_ie :: nat where "sizeof_rann_ie = 21"

section \<open>Vendor specific elements\<close>

definition ATBM_OUI_MICROSOFT :: u32 where "ATBM_OUI_MICROSOFT = 0x0050f2"
definition ATBM_OUI_WFA :: u32 where "ATBM_OUI_WFA = 0x506f9a"

definition ATBM_WPA_GET_BE24 :: "u8 list \<Rightarrow> nat \<Rightarrow> u32 option" where
  "ATBM_WPA_GET_BE24 buf a = do {
     x \<leftarrow> rd buf a; y \<leftarrow> rd buf (a + 1); z \<leftarrow> rd buf (a + 2);
     Some (push_bit 16 (ucast x) OR push_bit 8 (ucast y) OR ucast z) }"

definition ieee802_11_parse_vendor_specific :: "u8 list \<Rightarrow> nat \<Rightarrow> u8 \<Rightarrow> elems \<Rightarrow> (int \<times> elems) option" where
  "ieee802_11_parse_vendor_specific buf pos elen e =
     (if elen < 4 then Some (-1, e)
      else do {
        oui \<leftarrow> ATBM_WPA_GET_BE24 buf pos;
        t \<leftarrow> rd buf (pos + 3);
        if oui = ATBM_OUI_MICROSOFT then
          if t = 1 then Some (0, set_elem F_wpa pos elen e)
          else if t = 2 then
            if elen < 5 then Some (-1, e)
            else do {
              st \<leftarrow> rd buf (pos + 4);
              if st = 0 then Some (0, set_elem F_wmm_info pos elen e)
              else if st = 1 then Some (0, set_elem F_wmm_param pos elen e)
              else Some (-1, e) }
          else if t = 4 then Some (0, set_elem F_wps_ie pos elen e)
          else Some (-1, e)
        else if oui = ATBM_OUI_WFA then
          if t = 9 then Some (0, set_elem F_p2p_ie pos elen e)
          else if t = 10 then Some (0, set_elem F_wfd pos elen e)
          else Some (-1, e)
        else Some (-1, e) })"

section \<open>The parser\<close>

definition store_elem :: "u8 list \<Rightarrow> u8 \<Rightarrow> nat \<Rightarrow> u8 \<Rightarrow> elems \<Rightarrow> elems option" where
  "store_elem buf i pos elen e =
     (case map_of plain_elems i of
        Some f \<Rightarrow> Some (set_elem f pos elen e)
      | None \<Rightarrow>
          if i = ATBM_WLAN_EID_TIM then
            Some (if sizeof_tim_ie \<le> unat elen then set_elem F_tim pos elen e else e)
          else if i = ATBM_WLAN_EID_VENDOR_SPECIFIC then
            map_option snd (ieee802_11_parse_vendor_specific buf pos elen e)
          else if i = ATBM_WLAN_EID_HT_CAPABILITY then
            Some (if sizeof_ht_cap \<le> unat elen then set_ptr F_ht_cap_elem pos e else e)
          else if i = ATBM_WLAN_EID_HT_INFORMATION then
            Some (if sizeof_ht_info \<le> unat elen then set_ptr F_ht_info_elem pos e else e)
          else if i = ATBM_WLAN_EID_MESH_CONFIG then
            Some (if sizeof_meshconf_ie \<le> unat elen then set_ptr F_mesh_config pos e else e)
          else if i = ATBM_WLAN_EID_RANN then
            Some (if sizeof_rann_ie \<le> unat elen then set_ptr F_rann pos e else e)
          else if i = ATBM_WLAN_EID_QUIET then
            (let e = (if el_ptr e F_quiet_elem = None then set_elem F_quiet_elem pos elen e else e) in
             Some (e\<lparr>num_of_quiet_elem := num_of_quiet_elem e + 1\<rparr>))
          else Some e)"

text \<open>\<open>crc32_be\<close> is the kernel's function, on the old value and the bytes.\<close>

function parse_elems_loop ::
  "(u32 \<Rightarrow> u8 list \<Rightarrow> u32) \<Rightarrow> u64 \<Rightarrow> u8 list \<Rightarrow> nat \<Rightarrow> nat \<Rightarrow> elems \<Rightarrow> u32 \<Rightarrow> (elems \<times> u32) option" where
  "parse_elems_loop crc32_be filt buf pos left e crc =
     (if left < 2 then Some (e, crc)
      else do {
        i \<leftarrow> rd buf pos;
        elen \<leftarrow> rd buf (pos + 1);
        let pos = pos + 2; left = left - 2 in
        if left < unat elen then Some (e, crc)
        else do {
          let crc = (if filt \<noteq> 0 \<and> i < 64 \<and> bit filt (unat i)
                     then crc32_be crc (take (unat elen + 2) (drop (pos - 2) buf)) else crc);
          e \<leftarrow> store_elem buf i pos elen e;
          parse_elems_loop crc32_be filt buf (pos + unat elen) (left - unat elen) e crc } })"
  by pat_completeness auto

termination parse_elems_loop
  by (relation "measure (\<lambda>(_, _, _, _, left, _, _). left)") auto

declare parse_elems_loop.simps [simp del]

definition atbm_ieee802_11_parse_elems_crc ::
  "(u32 \<Rightarrow> u8 list \<Rightarrow> u32) \<Rightarrow> u8 list \<Rightarrow> nat \<Rightarrow> nat \<Rightarrow> u64 \<Rightarrow> u32 \<Rightarrow> (elems \<times> u32) option" where
  "atbm_ieee802_11_parse_elems_crc crc32_be buf start len filt crc =
     parse_elems_loop crc32_be filt buf start len no_elems crc"

definition ieee802_11_parse_elems :: "u8 list \<Rightarrow> nat \<Rightarrow> nat \<Rightarrow> elems option" where
  "ieee802_11_parse_elems buf start len =
     map_option fst (atbm_ieee802_11_parse_elems_crc (\<lambda>c _. c) buf start len 0 0)"

section \<open>Searching for an element\<close>

lemma minus_uint_less: "0 < k \<Longrightarrow> - uint a < k"
  using uint_ge_0 [of a] by linarith

function atbm_ieee80211_find_ie :: "u8 \<Rightarrow> u8 list \<Rightarrow> nat \<Rightarrow> int \<Rightarrow> nat option option" where
  "atbm_ieee80211_find_ie eid buf ies len =
     (if 2 < len then do {
        i \<leftarrow> rd buf ies;
        n \<leftarrow> rd buf (ies + 1);
        if i \<noteq> eid then atbm_ieee80211_find_ie eid buf (ies + unat n + 2) (len - (uint n + 2))
        else if len < 2 + uint n then Some None
        else Some (Some ies) }
      else if len < 2 then Some None
      else do {
        n \<leftarrow> rd buf (ies + 1);
        if len < 2 + uint n then Some None else Some (Some ies) })"
  by pat_completeness auto

termination atbm_ieee80211_find_ie
  by (relation "measure (\<lambda>(_, _, _, len). nat len)") (auto simp: minus_uint_less)

declare atbm_ieee80211_find_ie.simps [simp del]

lemma find_ie_not_before: "atbm_ieee80211_find_ie eid buf ies len = Some (Some p) \<Longrightarrow> ies \<le> p"
  by (induction eid buf ies len rule: atbm_ieee80211_find_ie.induct)
    (subst (asm) (2) atbm_ieee80211_find_ie.simps, fastforce simp: bind_eq_Some_conv split: if_splits)

definition sizeof_vendor_ie :: nat where "sizeof_vendor_ie = 6"

function atbm_ieee80211_find_vendor_ie :: "u32 \<Rightarrow> u8 \<Rightarrow> u8 list \<Rightarrow> nat \<Rightarrow> nat \<Rightarrow> nat option option" where
  "atbm_ieee80211_find_vendor_ie oui oui_type buf pos end' =
     (if pos < end' then do {
        p \<leftarrow> atbm_ieee80211_find_ie ATBM_WLAN_EID_VENDOR_SPECIFIC buf pos (int end' - int pos);
        (case p of
          None \<Rightarrow> Some None
        | Some p \<Rightarrow>
            do {
              n \<leftarrow> rd buf (p + 1);
              found \<leftarrow> (if unat n < sizeof_vendor_ie then Some False
                else do {
                  o' \<leftarrow> ATBM_WPA_GET_BE24 buf (p + 2);
                  t \<leftarrow> rd buf (p + 5);
                  Some (o' = oui \<and> t = oui_type) });
              if found then Some (Some p)
              else atbm_ieee80211_find_vendor_ie oui oui_type buf (p + 2 + unat n) end' }) }
      else Some None)"
  by pat_completeness auto

termination atbm_ieee80211_find_vendor_ie
  by (relation "measure (\<lambda>(_, _, _, pos, end'). end' - pos)") (auto dest: find_ie_not_before)

declare atbm_ieee80211_find_vendor_ie.simps [simp del]

definition atbm_ieee80211_find_p2p_ie :: "u8 list \<Rightarrow> nat option option" where
  "atbm_ieee80211_find_p2p_ie buf =
     (if buf = [] then Some None else atbm_ieee80211_find_vendor_ie ATBM_OUI_WFA 9 buf 0 (length buf))"

section \<open>Attributes of a P2P element\<close>

definition ATBM_WPA_GET_LE16 :: "u8 list \<Rightarrow> nat \<Rightarrow> u16 option" where
  "ATBM_WPA_GET_LE16 buf a = do {
     x \<leftarrow> rd buf a; y \<leftarrow> rd buf (a + 1); Some (push_bit 8 (ucast y) OR ucast x) }"

function p2p_attr_loop :: "u8 \<Rightarrow> u8 list \<Rightarrow> nat \<Rightarrow> int \<Rightarrow> nat option option" where
  "p2p_attr_loop attr_id buf start len =
     (if 2 < len then do {
        i \<leftarrow> rd buf start;
        n \<leftarrow> ATBM_WPA_GET_LE16 buf (start + 1);
        if i \<noteq> attr_id then p2p_attr_loop attr_id buf (start + unat n + 3) (len - (uint n + 3))
        else if len < 3 + uint n then Some None
        else Some (Some start) }
      else Some None)"
  by pat_completeness auto

termination p2p_attr_loop
  by (relation "measure (\<lambda>(_, _, _, len). nat len)") (auto simp: minus_uint_less)

declare p2p_attr_loop.simps [simp del]

definition atbm_ieee80211_find_p2p_attr :: "u8 list \<Rightarrow> u8 \<Rightarrow> nat option option" where
  "atbm_ieee80211_find_p2p_attr buf attr_id =
     (if buf = [] then Some None else p2p_attr_loop attr_id buf 0 (int (length buf)))"

text \<open>The check of a P2P action frame; the error is -1.\<close>

definition ieee80211_p2p_action_check :: "u8 list \<Rightarrow> int option" where
  "ieee80211_p2p_action_check data = do {
     c \<leftarrow> rd data 0;
     if c \<noteq> 9 then Some (-1)
     else if length data < 3 then Some (-1)
     else do {
       oui \<leftarrow> ATBM_WPA_GET_BE24 data 1;
       if oui \<noteq> ATBM_OUI_WFA then Some (-1)
       else if int (length data) - 4 < 1 then Some (-1)
       else do {
         t \<leftarrow> rd data 4;
         if t \<noteq> 9 then Some (-1)
         else if int (length data) - 5 < 1 then Some (-1)
         else Some 5 } } }"

section \<open>Splitting a list of elements\<close>

definition atbm_ieee80211_id_in_list :: "u8 list \<Rightarrow> u8 \<Rightarrow> bool" where
  "atbm_ieee80211_id_in_list ids i = (i \<in> set ids)"

function atbm_ieee80211_ie_split :: "u8 list \<Rightarrow> u8 list \<Rightarrow> nat \<Rightarrow> nat option" where
  "atbm_ieee80211_ie_split ies ids pos =
     (if pos < length ies then do {
        i \<leftarrow> rd ies pos;
        if atbm_ieee80211_id_in_list ids i then do {
          n \<leftarrow> rd ies (pos + 1);
          atbm_ieee80211_ie_split ies ids (pos + 2 + unat n) }
        else Some pos }
      else Some pos)"
  by pat_completeness auto

termination atbm_ieee80211_ie_split
  by (relation "measure (\<lambda>(ies, _, pos). length ies - pos)") auto

declare atbm_ieee80211_ie_split.simps [simp del]

function ieee80211_ie_split_vendor :: "u8 list \<Rightarrow> nat \<Rightarrow> nat option" where
  "ieee80211_ie_split_vendor ies pos =
     (if pos < length ies then do {
        i \<leftarrow> rd ies pos;
        if i \<noteq> ATBM_WLAN_EID_VENDOR_SPECIFIC then do {
          n \<leftarrow> rd ies (pos + 1);
          ieee80211_ie_split_vendor ies (pos + 2 + unat n) }
        else Some pos }
      else Some pos)"
  by pat_completeness auto

termination ieee80211_ie_split_vendor
  by (relation "measure (\<lambda>(ies, pos). length ies - pos)") auto

declare ieee80211_ie_split_vendor.simps [simp del]

end
