(* ===== verification/Elements_List.thy ===== *)
theory Elements_List
  imports Elements
begin

text \<open>
  The parser on a list of elements: what a list of elements looks like in a buffer, which member of
  the structure an element belongs to, and that the parser records for each member the last element
  that belongs to it (the first, for quiet elements).
\<close>

section \<open>Lists of elements\<close>

type_synonym ie = "u8 \<times> u8 list"

definition ie_bytes :: "ie \<Rightarrow> u8 list" where
  "ie_bytes x = fst x # of_nat (length (snd x)) # snd x"

definition ies_bytes :: "ie list \<Rightarrow> u8 list" where
  "ies_bytes xs = concat (map ie_bytes xs)"

definition ies_ok :: "ie list \<Rightarrow> bool" where
  "ies_ok xs \<longleftrightarrow> (\<forall>x \<in> set xs. length (snd x) < 256)"

text \<open>Bytes that do not start with a complete element.\<close>

definition tail_ok :: "u8 list \<Rightarrow> bool" where
  "tail_ok r \<longleftrightarrow> length r < 2 \<or> length r - 2 < unat (r ! 1)"

lemma ies_bytes_simps [simp]: "ies_bytes [] = []" "ies_bytes (x # xs) = ie_bytes x @ ies_bytes xs"
  by (simp_all add: ies_bytes_def)

lemma length_ie_bytes [simp]: "length (ie_bytes x) = length (snd x) + 2"
  by (simp add: ie_bytes_def)

text \<open>Every buffer is a list of elements and such a rest.\<close>

lemma every_buffer: "\<exists>xs r. buf = ies_bytes xs @ r \<and> ies_ok xs \<and> tail_ok r"
proof (induction buf rule: length_induct)
  case (1 buf)
  show ?case
  proof (cases "tail_ok buf")
    case True
    then show ?thesis by (intro exI [of _ "[]"] exI [of _ buf]) (simp add: ies_ok_def)
  next
    case False
    then obtain i n rest where b: "buf = i # n # rest" "unat n \<le> length rest"
      by (cases buf; cases "tl buf") (auto simp: tail_ok_def)
    then have len: "length (drop (unat n) rest) < length buf" by simp
    let ?x = "(i, take (unat n) rest)"
    obtain xs r where r: "drop (unat n) rest = ies_bytes xs @ r" "ies_ok xs" "tail_ok r"
      using 1 [rule_format, of "drop (unat n) rest"] len by blast
    have "length (snd ?x) < 256" using b unsigned_less [of n, where 'a = nat] by simp
    moreover have "buf = ies_bytes (?x # xs) @ r"
      using b r(1) append_take_drop_id [of "unat n" rest] by (simp add: ie_bytes_def min_def)
    ultimately show ?thesis using r(2,3)
      by (intro exI [of _ "?x # xs"] exI [of _ r]) (simp add: ies_ok_def)
  qed
qed

section \<open>The member an element belongs to\<close>

definition oui_is :: "u8 list \<Rightarrow> u8 list \<Rightarrow> bool" where
  "oui_is d o' \<longleftrightarrow> 4 \<le> length d \<and> take 3 d = o'"

definition vendor_field :: "u8 list \<Rightarrow> elem_field option" where
  "vendor_field d =
     (if oui_is d [0, 0x50, 0xf2] then
        if d ! 3 = 1 then Some F_wpa
        else if d ! 3 = 2 \<and> 5 \<le> length d \<and> d ! 4 = 0 then Some F_wmm_info
        else if d ! 3 = 2 \<and> 5 \<le> length d \<and> d ! 4 = 1 then Some F_wmm_param
        else if d ! 3 = 4 then Some F_wps_ie else None
      else if oui_is d [0x50, 0x6f, 0x9a] then
        if d ! 3 = 9 then Some F_p2p_ie else if d ! 3 = 10 then Some F_wfd else None
      else None)"

text \<open>Members with a structure type and its size.\<close>

definition sized_elems :: "(u8 \<times> elem_field \<times> nat) list" where
  "sized_elems = [(5, F_tim, 4), (45, F_ht_cap_elem, 26), (61, F_ht_info_elem, 22), (113, F_mesh_config, 7),
     (126, F_rann, 21)]"

definition field_of :: "ie \<Rightarrow> elem_field option" where
  "field_of x =
     (case map_of plain_elems (fst x) of
        Some f \<Rightarrow> Some f
      | None \<Rightarrow> (case map_of sized_elems (fst x) of
          Some (f, n) \<Rightarrow> if n \<le> length (snd x) then Some f else None
        | None \<Rightarrow>
            if fst x = 40 then Some F_quiet_elem
            else if fst x = 221 then vendor_field (snd x)
            else None))"

definition pointer_only :: "elem_field \<Rightarrow> bool" where
  "pointer_only f \<longleftrightarrow> f \<in> {F_ht_cap_elem, F_ht_info_elem, F_mesh_config, F_rann}"

text \<open>Recording the element with data at \<open>p\<close>.\<close>

definition record_ie :: "nat \<Rightarrow> ie \<Rightarrow> elems \<Rightarrow> elems" where
  "record_ie p x e =
     (case field_of x of
        None \<Rightarrow> e
      | Some f \<Rightarrow>
          if f = F_quiet_elem then
            (let e = (if el_ptr e f = None then set_elem f p (of_nat (length (snd x))) e else e) in
             e\<lparr>num_of_quiet_elem := num_of_quiet_elem e + 1\<rparr>)
          else if pointer_only f then set_ptr f p e
          else set_elem f p (of_nat (length (snd x))) e)"

lemma be24_eq:
  fixes a b c a' b' c' :: u8
  shows "(push_bit 16 (ucast a) OR push_bit 8 (ucast b) OR ucast c :: u32) =
     push_bit 16 (ucast a') OR push_bit 8 (ucast b') OR ucast c' \<longleftrightarrow> a = a' \<and> b = b' \<and> c = c'"
proof
  assume e: "(push_bit 16 (ucast a) OR push_bit 8 (ucast b) OR ucast c :: u32) =
     push_bit 16 (ucast a') OR push_bit 8 (ucast b') OR ucast c'"
  have A: "ucast (drop_bit 16 (push_bit 16 (ucast x) OR push_bit 8 (ucast y) OR ucast z :: u32)) = x" for x y z :: u8
    by (rule bit_word_eqI) (auto simp: bit_simps dest: bit_imp_le_length)
  have B: "ucast (drop_bit 8 (push_bit 16 (ucast x) OR push_bit 8 (ucast y) OR ucast z :: u32)) = y" for x y z :: u8
    by (rule bit_word_eqI) (auto simp: bit_simps dest: bit_imp_le_length)
  have C: "ucast (push_bit 16 (ucast x) OR push_bit 8 (ucast y) OR ucast z :: u32) = z" for x y z :: u8
    by (rule bit_word_eqI) (auto simp: bit_simps dest: bit_imp_le_length)
  show "a = a' \<and> b = b' \<and> c = c'" using A [of a b c] A [of a' b' c'] B [of a b c] B [of a' b' c'] C [of a b c] C [of a' b' c']
    unfolding e by simp
qed simp

lemma oui_consts:
  "ATBM_OUI_MICROSOFT = push_bit 16 (ucast (0 :: u8)) OR push_bit 8 (ucast (0x50 :: u8)) OR ucast (0xf2 :: u8)"
  "ATBM_OUI_WFA = push_bit 16 (ucast (0x50 :: u8)) OR push_bit 8 (ucast (0x6f :: u8)) OR ucast (0x9a :: u8)"
  by (simp_all add: ATBM_OUI_MICROSOFT_def ATBM_OUI_WFA_def push_bit_eq_mult)

lemma rd_append: "rd (pre @ xs) (length pre + n) = rd xs n"
  by (simp add: rd_def nth_append)

lemma parse_vendor_list:
  assumes d: "length d < 256"
  shows "map_option snd (ieee802_11_parse_vendor_specific (pre @ d @ rest) (length pre) (of_nat (length d)) e) =
     Some (case vendor_field d of None \<Rightarrow> e | Some f \<Rightarrow> set_elem f (length pre) (of_nat (length d)) e)"
proof (cases "length d < 4")
  case True
  then have "(of_nat (length d) :: u8) < 4" by (simp add: word_less_nat_alt unat_of_nat)
  with True show ?thesis by (simp add: ieee802_11_parse_vendor_specific_def vendor_field_def oui_is_def)
next
  case False
  then obtain a b c t ys where l: "d = a # b # c # t # ys"
    by (auto simp: not_less numeral_eq_Suc Suc_le_length_iff)
  have n4: "\<not> (of_nat (length d) :: u8) < 4" using False d by (simp add: word_less_nat_alt unat_of_nat take_bit_nat_eq_self)
  have n5: "((of_nat (length d) :: u8) < 5) = (ys = [])"
    using d l by (simp add: word_less_nat_alt unat_of_nat take_bit_nat_eq_self del: of_nat_Suc)
  have oui: "ATBM_WPA_GET_BE24 (pre @ d @ rest) (length pre) =
      Some (push_bit 16 (ucast a) OR push_bit 8 (ucast b) OR ucast c)"
    using rd_append [of pre "d @ rest"] by (simp add: ATBM_WPA_GET_BE24_def l rd_def nth_append)
  have t: "rd (pre @ d @ rest) (length pre + 3) = Some t" "ys \<noteq> [] \<Longrightarrow> rd (pre @ d @ rest) (length pre + 4) = Some (ys ! 0)"
    by (simp_all add: l rd_def nth_append)
  have f: "vendor_field d =
     (if a = 0 \<and> b = 0x50 \<and> c = 0xf2 then
        if t = 1 then Some F_wpa
        else if t = 2 \<and> ys \<noteq> [] \<and> ys ! 0 = 0 then Some F_wmm_info
        else if t = 2 \<and> ys \<noteq> [] \<and> ys ! 0 = 1 then Some F_wmm_param
        else if t = 4 then Some F_wps_ie else None
      else if a = 0x50 \<and> b = 0x6f \<and> c = 0x9a then
        if t = 9 then Some F_p2p_ie else if t = 10 then Some F_wfd else None
      else None)"
    by (cases ys) (simp_all add: vendor_field_def oui_is_def l)
  have m: "(push_bit 16 (ucast a) OR push_bit 8 (ucast b) OR ucast c = ATBM_OUI_MICROSOFT) = (a = 0 \<and> b = 0x50 \<and> c = 0xf2)"
    "(push_bit 16 (ucast a) OR push_bit 8 (ucast b) OR ucast c = ATBM_OUI_WFA) = (a = 0x50 \<and> b = 0x6f \<and> c = 0x9a)"
    unfolding oui_consts be24_eq by (rule refl)+
  show ?thesis
    unfolding ieee802_11_parse_vendor_specific_def f using n4 n5 oui t m by simp
qed

lemma plain_elems_special:
  "map_of plain_elems 5 = None" "map_of plain_elems 40 = None" "map_of plain_elems 45 = None"
  "map_of plain_elems 61 = None" "map_of plain_elems 113 = None" "map_of plain_elems 126 = None"
  "map_of plain_elems 221 = None"
  by (simp_all add: plain_elems_def)

lemma plain_elems_field: "map_of plain_elems i = Some f \<Longrightarrow> f \<noteq> F_quiet_elem \<and> \<not> pointer_only f"
  by (drule map_of_SomeD) (auto simp: plain_elems_def pointer_only_def)

lemma store_elem_list:
  assumes "length d < 256"
  shows "store_elem (pre @ d @ rest) i (length pre) (of_nat (length d)) e = Some (record_ie (length pre) (i, d) e)"
proof (cases "map_of plain_elems i")
  case (Some f)
  with plain_elems_field [OF Some] show ?thesis by (simp add: store_elem_def record_ie_def field_of_def)
next
  case None
  have u: "unat (of_nat (length d) :: u8) = length d" using assms by (simp add: unat_of_nat take_bit_nat_eq_self)
  have v: "f \<noteq> F_quiet_elem \<and> \<not> pointer_only f" if "vendor_field d = Some f" for f
    using that by (auto simp: vendor_field_def pointer_only_def split: if_splits)
  show ?thesis
    using None u v parse_vendor_list [OF assms, of pre rest e]
    by (cases "vendor_field d") (auto simp: Let_def store_elem_def record_ie_def field_of_def sized_elems_def pointer_only_def plain_elems_special
        ATBM_WLAN_EID_TIM_def ATBM_WLAN_EID_QUIET_def ATBM_WLAN_EID_HT_CAPABILITY_def
        ATBM_WLAN_EID_HT_INFORMATION_def ATBM_WLAN_EID_MESH_CONFIG_def ATBM_WLAN_EID_RANN_def
        ATBM_WLAN_EID_VENDOR_SPECIFIC_def sizeof_tim_ie_def sizeof_ht_cap_def sizeof_ht_info_def
        sizeof_meshconf_ie_def sizeof_rann_ie_def)
qed

section \<open>The whole list\<close>

fun located :: "nat \<Rightarrow> ie list \<Rightarrow> (nat \<times> ie) list" where
  "located n [] = []"
| "located n (x # xs) = (n + 2, x) # located (n + length (snd x) + 2) xs"

lemma parse_loop_list:
  "ies_ok xs \<Longrightarrow> tail_ok r \<Longrightarrow>
     \<exists>c'. parse_elems_loop crc flt (pre @ ies_bytes xs @ r) (length pre) (length (ies_bytes xs @ r)) e c =
       Some (fold (\<lambda>(p, x). record_ie p x) (located (length pre) xs) e, c')"
proof (induction xs arbitrary: pre e c)
  case Nil
  show ?case
  proof (cases "length r < 2")
    case True
    then show ?thesis by (simp add: parse_elems_loop.simps)
  next
    case False
    then have "length r - 2 < unat (r ! 1)" "length r \<noteq> 0" using Nil.prems by (auto simp: tail_ok_def)
    moreover have "rd (pre @ r) (length pre + 1) = Some (r ! 1)" using False by (simp add: rd_def nth_append)
    ultimately show ?thesis using False by (simp add: parse_elems_loop.simps rd_def)
  qed
next
  case (Cons x xs)
  obtain i d where x: "x = (i, d)" by (cases x)
  have d: "length d < 256" and ok: "ies_ok xs" using Cons.prems by (auto simp: ies_ok_def x)
  let ?pre = "pre @ [i, of_nat (length d)]" and ?rest = "ies_bytes xs @ r"
  have u: "unat (of_nat (length d) :: u8) = length d" using d by (simp add: unat_of_nat take_bit_nat_eq_self)
  have b: "pre @ ies_bytes (x # xs) @ r = ?pre @ d @ ?rest" by (simp add: x ie_bytes_def)
  have r: "rd (?pre @ d @ ?rest) (length pre) = Some i" "rd (?pre @ d @ ?rest) (length pre + 1) = Some (of_nat (length d))"
    by (simp_all add: rd_def nth_append)
  have s: "store_elem (?pre @ d @ ?rest) i (length pre + 2) (of_nat (length d)) e = Some (record_ie (length pre + 2) x e)"
    using store_elem_list [OF d, of ?pre ?rest i e] by (simp add: x)
  have l: "length (ies_bytes (x # xs) @ r) = length d + 2 + length ?rest" by (simp add: x)
  have ih: "\<exists>c'. parse_elems_loop crc flt ((?pre @ d) @ ?rest) (length (?pre @ d)) (length ?rest)
      (record_ie (length pre + 2) x e) k =
      Some (fold (\<lambda>(p, x). record_ie p x) (located (length (?pre @ d)) xs) (record_ie (length pre + 2) x e), c')" for k
    by (rule Cons.IH [OF ok Cons.prems(2)])
  show ?case
    unfolding b l using r s u ih
    by (subst parse_elems_loop.simps) (simp add: x Let_def ac_simps)
qed

text \<open>Which element a member holds after the list.\<close>

definition belongs :: "elem_field \<Rightarrow> nat \<times> ie \<Rightarrow> bool" where
  "belongs f px \<longleftrightarrow> field_of (snd px) = Some f"

definition hit :: "elem_field \<Rightarrow> nat \<Rightarrow> ie list \<Rightarrow> (nat \<times> ie) option" where
  "hit f n xs = (let hs = filter (belongs f) (located n xs) in
     if hs = [] then None else Some (if f = F_quiet_elem then hd hs else last hs))"

lemma record_ie_ptr:
  "el_ptr (record_ie p x e) f =
     (if field_of x = Some f \<and> (f = F_quiet_elem \<longrightarrow> el_ptr e f = None) then Some p else el_ptr e f)"
  by (auto simp: record_ie_def set_ptr_def set_elem_def Let_def split: option.split)

lemma record_ie_len:
  "\<not> pointer_only f \<Longrightarrow> el_len (record_ie p x e) f =
     (if field_of x = Some f \<and> (f = F_quiet_elem \<longrightarrow> el_ptr e f = None) then of_nat (length (snd x)) else el_len e f)"
  by (auto simp: record_ie_def set_ptr_def set_elem_def Let_def split: option.split)

lemma record_ie_len_ptr: "pointer_only f \<Longrightarrow> el_len (record_ie p x e) f = el_len e f"
  by (auto simp: record_ie_def set_ptr_def set_elem_def Let_def pointer_only_def split: option.split)

lemma record_ie_quiet:
  "num_of_quiet_elem (record_ie p x e) = num_of_quiet_elem e + (if field_of x = Some F_quiet_elem then 1 else 0)"
  by (auto simp: record_ie_def set_ptr_def set_elem_def Let_def split: option.split)

abbreviation record_all :: "(nat \<times> ie) list \<Rightarrow> elems \<Rightarrow> elems" where
  "record_all \<equiv> fold (\<lambda>(p, x). record_ie p x)"

lemma record_all_last:
  "f \<noteq> F_quiet_elem \<Longrightarrow> el_ptr (record_all L e) f =
     (if filter (belongs f) L = [] then el_ptr e f else Some (fst (last (filter (belongs f) L))))"
  "f \<noteq> F_quiet_elem \<Longrightarrow> \<not> pointer_only f \<Longrightarrow> el_len (record_all L e) f =
     (if filter (belongs f) L = [] then el_len e f else of_nat (length (snd (snd (last (filter (belongs f) L))))))"
  by (induction L arbitrary: e) (auto simp: belongs_def record_ie_ptr record_ie_len)

lemma record_all_kept:
  "el_ptr e F_quiet_elem \<noteq> None \<Longrightarrow> el_ptr (record_all L e) F_quiet_elem = el_ptr e F_quiet_elem"
  "el_ptr e F_quiet_elem \<noteq> None \<Longrightarrow> el_len (record_all L e) F_quiet_elem = el_len e F_quiet_elem"
  by (induction L arbitrary: e) (auto simp: record_ie_ptr record_ie_len pointer_only_def)

lemma record_all_first:
  "el_ptr e F_quiet_elem = None \<Longrightarrow> el_ptr (record_all L e) F_quiet_elem =
     (if filter (belongs F_quiet_elem) L = [] then None else Some (fst (hd (filter (belongs F_quiet_elem) L))))"
  "el_ptr e F_quiet_elem = None \<Longrightarrow> el_len (record_all L e) F_quiet_elem =
     (if filter (belongs F_quiet_elem) L = [] then el_len e F_quiet_elem
      else of_nat (length (snd (snd (hd (filter (belongs F_quiet_elem) L))))))"
  by (induction L arbitrary: e)
    (auto simp: belongs_def record_ie_ptr record_ie_len record_all_kept pointer_only_def)

lemma record_all_len_ptr: "pointer_only f \<Longrightarrow> el_len (record_all L e) f = el_len e f"
  by (induction L arbitrary: e) (auto simp: record_ie_len_ptr)

lemma record_all_quiet:
  "num_of_quiet_elem (record_all L e) = num_of_quiet_elem e + of_nat (length (filter (belongs F_quiet_elem) L))"
  by (induction L arbitrary: e) (auto simp: belongs_def record_ie_quiet)

end
