(* ===== verification/Elements_Props.thy ===== *)
theory Elements_Props
  imports Elements_List
begin

text \<open>The properties of the element parser and the searches.\<close>

definition elem_size :: "elem_field \<Rightarrow> nat" where
  "elem_size f = (case map_of (map snd sized_elems) f of None \<Rightarrow> 0 | Some n \<Rightarrow> n)"

lemma parse_list:
  assumes "ies_ok xs" "tail_ok r"
  shows "ieee802_11_parse_elems (pre @ ies_bytes xs @ r) (length pre) (length (ies_bytes xs @ r)) =
     Some (record_all (located (length pre) xs) no_elems)"
  using parse_loop_list [OF assms, of "\<lambda>c _. c" 0 pre no_elems 0]
  by (auto simp: ieee802_11_parse_elems_def atbm_ieee802_11_parse_elems_crc_def)

lemma parse_hits:
  assumes "ies_ok xs" "tail_ok r"
    "ieee802_11_parse_elems (pre @ ies_bytes xs @ r) (length pre) (length (ies_bytes xs @ r)) = Some e"
  shows "el_ptr e f = map_option fst (hit f (length pre) xs)"
    "\<not> pointer_only f \<Longrightarrow>
       el_len e f = (case hit f (length pre) xs of None \<Rightarrow> 0 | Some (p, x) \<Rightarrow> of_nat (length (snd x)))"
    "pointer_only f \<Longrightarrow> el_len e f = 0"
proof -
  have e: "e = record_all (located (length pre) xs) no_elems"
    using parse_list [OF assms(1,2), of pre] assms(3) by simp
  show "el_ptr e f = map_option fst (hit f (length pre) xs)"
    by (cases "f = F_quiet_elem") (simp_all add: e hit_def Let_def record_all_last record_all_first no_elems_def)
  show "\<not> pointer_only f \<Longrightarrow>
      el_len e f = (case hit f (length pre) xs of None \<Rightarrow> 0 | Some (p, x) \<Rightarrow> of_nat (length (snd x)))"
    by (cases "f = F_quiet_elem")
      (simp_all add: e hit_def Let_def record_all_last record_all_first no_elems_def case_prod_beta)
  show "pointer_only f \<Longrightarrow> el_len e f = 0" by (simp add: e record_all_len_ptr no_elems_def)
qed

text \<open>A located element lies in the buffer.\<close>

lemma located_in:
  "(p, x) \<in> set (located (length pre) xs) \<Longrightarrow>
     \<exists>a b. pre @ ies_bytes xs @ r = a @ snd x @ b \<and> length a = p \<and> length pre + 2 \<le> p \<and>
       drop (p - 2) a = [fst x, of_nat (length (snd x))] \<and> x \<in> set xs"
proof (induction xs arbitrary: pre)
  case (Cons y xs)
  then consider "p = length pre + 2" "x = y" | "(p, x) \<in> set (located (length (pre @ ie_bytes y)) xs)" by auto
  then show ?case
  proof cases
    case 1
    show ?thesis
      by (intro exI [of _ "pre @ [fst x, of_nat (length (snd x))]"] exI [of _ "ies_bytes xs @ r"])
        (simp add: 1 ie_bytes_def)
  next
    case 2
    from Cons.IH [OF this] show ?thesis by auto
  qed
qed simp

lemma hit_in: "hit f n xs = Some (p, x) \<Longrightarrow> (p, x) \<in> set (located n xs) \<and> field_of x = Some f"
proof -
  assume h: "hit f n xs = Some (p, x)"
  let ?hs = "filter (belongs f) (located n xs)"
  have ne: "?hs \<noteq> []" using h by (auto simp: hit_def Let_def)
  then have "(p, x) = hd ?hs \<or> (p, x) = last ?hs" using h by (simp add: hit_def Let_def split: if_splits)
  then have "(p, x) \<in> set ?hs" using hd_in_set [OF ne] last_in_set [OF ne] by (elim disjE) simp_all
  then show ?thesis by (simp add: belongs_def)
qed

text \<open>The elements found lie in the frame.\<close>

lemma elems_in_frame:
  assumes "start + len = length buf"
  shows "\<exists>e. ieee802_11_parse_elems buf start len = Some e \<and>
     (\<forall>f p. el_ptr e f = Some p \<longrightarrow> start + 2 \<le> p \<and> p + unat (el_len e f) \<le> length buf \<and>
        p + elem_size f \<le> length buf \<and> (\<not> pointer_only f \<longrightarrow> el_len e f = buf ! (p - 1)))"
proof -
  let ?pre = "take start buf"
  obtain xs r where x: "drop start buf = ies_bytes xs @ r" "ies_ok xs" "tail_ok r" using every_buffer by blast
  have pre: "length ?pre = start" using assms by simp
  have b: "buf = ?pre @ ies_bytes xs @ r" "len = length (ies_bytes xs @ r)"
    unfolding x(1) [symmetric] using assms by simp_all
  obtain e where e: "ieee802_11_parse_elems buf start len = Some e"
    using parse_list [OF x(2,3), of ?pre] b pre by metis
  note hits = parse_hits [OF x(2,3), of ?pre e, unfolded pre, folded b, OF e]
  have "start + 2 \<le> p \<and> p + unat (el_len e f) \<le> length buf \<and> p + elem_size f \<le> length buf \<and>
      (\<not> pointer_only f \<longrightarrow> el_len e f = buf ! (p - 1))" if p: "el_ptr e f = Some p" for f p
  proof -
    obtain x where h: "hit f start xs = Some (p, x)" using p hits(1) by auto
    from hit_in [OF h] located_in [of p x ?pre xs r] obtain y z where
      yz: "buf = y @ snd x @ z" "length y = p" "start + 2 \<le> p" "drop (p - 2) y = [fst x, of_nat (length (snd x))]"
      "x \<in> set xs" "field_of x = Some f" unfolding pre b(1) [symmetric] by auto
    have d: "unat (of_nat (length (snd x)) :: u8) = length (snd x)"
      using x(2) yz(5) by (auto simp: ies_ok_def unat_of_nat take_bit_nat_eq_self)
    have size: "elem_size f \<le> length (snd x)"
    proof (cases "map_of plain_elems (fst x)")
      case None
      then show ?thesis using yz(6) by (auto simp: field_of_def elem_size_def sized_elems_def vendor_field_def
        split: option.splits if_splits)
    next
      case (Some g)
      then have "map_of (map snd sized_elems) g = None"
        by (drule_tac map_of_SomeD) (auto simp: plain_elems_def sized_elems_def)
      then show ?thesis using Some yz(6) by (simp add: field_of_def elem_size_def)
    qed
    obtain q where q: "p = q + 2" using yz(3) by (metis add.commute add_leD2 le_Suc_ex)
    have "buf ! (p - 1) = drop q y ! 1" using yz(1,2) q by (simp add: nth_append)
    then have n: "buf ! (p - 1) = of_nat (length (snd x))" using yz(4) q by simp
    show ?thesis
      using hits(2,3) [of f] h n d size yz(1-3) by (cases "pointer_only f") simp_all
  qed
  then show ?thesis using e by blast
qed

text \<open>
  Claim C27. The parser never reads outside the frame, whatever bytes the elements, which start at
  some offset and fill the rest of the frame, consist of. What it records is in the frame: the data
  of each member, of its recorded length, lies between the two header bytes before it and the end of
  the frame, and a member with a structure type has room for the structure.
\<close>

theorem elems_stay_in_frame:
  assumes "start + len = length buf"
  shows "\<exists>e. ieee802_11_parse_elems buf start len = Some e \<and>
     (\<forall>f p. el_ptr e f = Some p \<longrightarrow> start + 2 \<le> p \<and> p + unat (el_len e f) \<le> length buf \<and>
        p + elem_size f \<le> length buf \<and> (\<not> pointer_only f \<longrightarrow> el_len e f = buf ! (p - 1)))"
  using assms by (rule elems_in_frame)

theorem elems_stay_in_frame_witness:
  "\<exists>e. ieee802_11_parse_elems [9, 9, 221, 3, 0, 0x50, 0xf2, 0, 2, 7] 2 8 = Some e"
  using elems_stay_in_frame [of 2 8 "[9, 9, 221, 3, 0, 0x50, 0xf2, 0, 2, 7]"] by auto

text \<open>
  Claim C28. On the bytes of a list of elements, followed by anything that does not start with a
  complete element, the parser agrees with a specification: each member points to the data of the
  last element of the list that belongs to it, or is NULL when there is none; only of the quiet
  elements the first one is kept, and they are counted.
\<close>

theorem elems_hold_last:
  assumes "ies_ok xs" "tail_ok r"
  shows "\<exists>e. ieee802_11_parse_elems (pre @ ies_bytes xs @ r) (length pre) (length (ies_bytes xs @ r)) = Some e \<and>
     (\<forall>f. map_option (\<lambda>p. take (unat (el_len e f)) (drop p (pre @ ies_bytes xs @ r))) (el_ptr e f) =
        map_option (\<lambda>(p, x). if pointer_only f then [] else snd x) (hit f (length pre) xs)) \<and>
     (\<forall>f. el_ptr e f = map_option fst (hit f (length pre) xs)) \<and>
     num_of_quiet_elem e = of_nat (length (filter (\<lambda>x. field_of x = Some F_quiet_elem) xs))"
proof -
  let ?e = "record_all (located (length pre) xs) no_elems" and ?b = "pre @ ies_bytes xs @ r"
  have e: "ieee802_11_parse_elems ?b (length pre) (length (ies_bytes xs @ r)) = Some ?e" by (rule parse_list [OF assms])
  note hits = parse_hits [OF assms e]
  have data: "map_option (\<lambda>p. take (unat (el_len ?e f)) (drop p ?b)) (el_ptr ?e f) =
      map_option (\<lambda>(p, x). if pointer_only f then [] else snd x) (hit f (length pre) xs)" for f
  proof (cases "hit f (length pre) xs")
    case (Some px)
    obtain p x where px: "px = (p, x)" by (cases px)
    from hit_in [OF Some [unfolded px]] located_in [of p x pre xs r] obtain y z where
      yz: "?b = y @ snd x @ z" "length y = p" "x \<in> set xs" by auto
    have "unat (of_nat (length (snd x)) :: u8) = length (snd x)"
      using assms(1) yz(3) by (auto simp: ies_ok_def unat_of_nat take_bit_nat_eq_self)
    then show ?thesis using hits [of f] Some px yz by simp
  qed (simp add: hits(1))
  have "length (filter (belongs F_quiet_elem) (located n xs)) = length (filter (\<lambda>x. field_of x = Some F_quiet_elem) xs)"
    for n by (induction xs arbitrary: n) (simp_all add: belongs_def)
  then have "num_of_quiet_elem ?e = of_nat (length (filter (\<lambda>x. field_of x = Some F_quiet_elem) xs))"
    by (simp add: record_all_quiet no_elems_def)
  with e data hits(1) show ?thesis by blast
qed

definition ex_ies :: "ie list" where
  "ex_ies = [(0, [0x61, 0x62]), (40, [1]), (113, [1, 1, 0, 1, 0, 0, 9]), (221, [0, 0x50, 0xf2, 2, 1, 7]), (40, [2]), (0, [0x63])]"

theorem elems_hold_last_witness:
  "\<exists>e. ieee802_11_parse_elems ([0xd0, 0] @ ies_bytes ex_ies @ [1, 5, 0]) 2 33 = Some e \<and>
     el_ptr e F_ssid = Some 31 \<and> el_ptr e F_quiet_elem = Some 8 \<and> el_ptr e F_wmm_param = Some 20 \<and>
     el_ptr e F_mesh_config = Some 11 \<and> el_ptr e F_rsn = None"
proof -
  have ok: "ies_ok ex_ies" "tail_ok [1, 5, 0]" by (simp_all add: ies_ok_def ex_ies_def tail_ok_def)
  have l: "length [0xd0, 0 :: u8] = 2" "length (ies_bytes ex_ies @ [1, 5, 0]) = 33" by code_simp+
  obtain e where
    e: "ieee802_11_parse_elems ([0xd0, 0] @ ies_bytes ex_ies @ [1, 5, 0]) 2 33 = Some e"
      "\<forall>f. el_ptr e f = map_option fst (hit f 2 ex_ies)"
    using elems_hold_last [OF ok, of "[0xd0, 0]", unfolded l] by blast
  have "hit F_ssid 2 ex_ies = Some (31, (0, [0x63]))" "hit F_quiet_elem 2 ex_ies = Some (8, (40, [1]))"
    "hit F_wmm_param 2 ex_ies = Some (20, (221, [0, 0x50, 0xf2, 2, 1, 7]))"
    "hit F_mesh_config 2 ex_ies = Some (11, (113, [1, 1, 0, 1, 0, 0, 9]))" "hit F_rsn 2 ex_ies = None"
    by code_simp+
  with e show ?thesis by simp
qed

section \<open>Searches\<close>

lemma find_ie_list:
  "ies_ok xs \<Longrightarrow> atbm_ieee80211_find_ie eid (pre @ ies_bytes xs) (length pre) (int (length (ies_bytes xs))) =
     Some (case find (\<lambda>(p, x). fst x = eid) (located (length pre) xs) of
       Some (p, x) \<Rightarrow> Some (p - 2)
     | None \<Rightarrow> if xs \<noteq> [] \<and> snd (last xs) = [] then Some (length (pre @ ies_bytes xs) - 2) else None)"
proof (induction xs arbitrary: pre)
  case Nil
  then show ?case by (simp add: atbm_ieee80211_find_ie.simps)
next
  case (Cons x xs)
  obtain i d where x: "x = (i, d)" by (cases x)
  have d: "length d < 256" and ok: "ies_ok xs" using Cons.prems by (auto simp: ies_ok_def x)
  have u: "unat (of_nat (length d) :: u8) = length d" "uint (of_nat (length d) :: u8) = int (length d)"
    using d by (simp_all add: unsigned_of_nat take_bit_nat_eq_self)
  have r: "rd (pre @ ies_bytes (x # xs)) (length pre) = Some i"
    "rd (pre @ ies_bytes (x # xs)) (length pre + 1) = Some (of_nat (length d))"
    by (simp_all add: rd_def nth_append x ie_bytes_def)
  have l: "length (ies_bytes (x # xs)) = length d + 2 + length (ies_bytes xs)" by (simp add: x)
  show ?case
  proof (cases "length d = 0 \<and> xs = []")
    case True
    then show ?thesis using r by (subst atbm_ieee80211_find_ie.simps) (simp add: x)
  next
    case False
    then have g: "2 < int (length (ies_bytes (x # xs)))"
      by (cases xs) (auto simp: x)
    show ?thesis
    proof (cases "i = eid")
      case True
      then show ?thesis using r g u by (subst atbm_ieee80211_find_ie.simps) (simp add: x)
    next
      case neq: False
      have m: "int (length (ies_bytes (x # xs))) - (int (length d) + 2) = int (length (ies_bytes xs))" unfolding l by simp
      have e: "atbm_ieee80211_find_ie eid (pre @ ies_bytes (x # xs)) (length pre) (int (length (ies_bytes (x # xs)))) =
          atbm_ieee80211_find_ie eid ((pre @ ie_bytes x) @ ies_bytes xs) (length (pre @ ie_bytes x)) (int (length (ies_bytes xs)))"
        using r g u neq m by (subst atbm_ieee80211_find_ie.simps) (simp add: x ac_simps)
      have len: "length ((pre @ ie_bytes x) @ ies_bytes xs) = length (pre @ ies_bytes (x # xs))" by simp
      show ?thesis
        unfolding e Cons.IH [OF ok] len using neq False by (cases xs) (simp_all add: x ac_simps)
    qed
  qed
qed

text \<open>The search on any bytes: it stays in the buffer, and so does the element it returns.\<close>

lemma find_ie_safe:
  "int ies + len = int (length buf) \<Longrightarrow>
     \<exists>q. atbm_ieee80211_find_ie eid buf ies len = Some q \<and>
       (\<forall>p. q = Some p \<longrightarrow> ies \<le> p \<and> p + 2 + unat (buf ! (p + 1)) \<le> length buf \<and>
          (buf ! p = eid \<or> buf ! (p + 1) = 0))"
proof (induction eid buf ies len rule: atbm_ieee80211_find_ie.induct)
  case (1 eid buf ies len)
  consider "len < 2" | "len = 2" | "2 < len" by linarith
  then show ?case
  proof cases
    case 1
    then show ?thesis by (subst atbm_ieee80211_find_ie.simps) simp
  next
    case 2
    then have l: "ies + 2 = length buf" using "1.prems" by linarith
    then have r: "rd buf (ies + 1) = Some (buf ! (ies + 1))" by (simp add: rd_def)
    have "\<not> 2 < 2 + uint (buf ! (ies + 1)) \<Longrightarrow> uint (buf ! (ies + 1)) = 0"
      using uint_ge_0 [of "buf ! (ies + 1)"] by linarith
    then have "\<not> 2 < 2 + uint (buf ! (ies + 1)) \<Longrightarrow> buf ! (ies + 1) = 0" by (simp add: word_uint_eq_iff)
    then show ?thesis using r l 2 by (subst atbm_ieee80211_find_ie.simps) auto
  next
    case 3
    then have l: "ies + 2 < length buf" using "1.prems" by linarith
    then have r: "rd buf ies = Some (buf ! ies)" "rd buf (ies + 1) = Some (buf ! (ies + 1))" by (simp_all add: rd_def)
    let ?n = "buf ! (ies + 1)"
    show ?thesis
    proof (cases "buf ! ies = eid")
      case True
      then have "atbm_ieee80211_find_ie eid buf ies len = Some (if len < 2 + uint ?n then None else Some ies)"
        using r 3 by (subst atbm_ieee80211_find_ie.simps) simp
      moreover have "ies + 2 + unat ?n \<le> length buf" if "\<not> len < 2 + uint ?n"
      proof -
        have "int (ies + 2 + unat ?n) \<le> int (length buf)" using that "1.prems" by simp
        then show ?thesis by (simp only: of_nat_le_iff)
      qed
      ultimately show ?thesis using True by simp
    next
      case False
      have "int (ies + unat ?n + 2) + (len - (uint ?n + 2)) = int (length buf)" using "1.prems" by simp
      from "1.IH" [OF 3 r False this] obtain q where
        q: "atbm_ieee80211_find_ie eid buf (ies + unat ?n + 2) (len - (uint ?n + 2)) = Some q"
        "\<forall>p. q = Some p \<longrightarrow> ies + unat ?n + 2 \<le> p \<and> p + 2 + unat (buf ! (p + 1)) \<le> length buf \<and>
          (buf ! p = eid \<or> buf ! (p + 1) = 0)" by blast
      have "atbm_ieee80211_find_ie eid buf ies len = Some q"
        using r 3 False q(1) by (subst atbm_ieee80211_find_ie.simps) simp
      then show ?thesis using q(2) by auto
    qed
  qed
qed

text \<open>
  On the bytes of a list of elements the search for an identifier finds the first element
  with that identifier. When there is none, it finds none, with one exception: if the last element
  of the list is empty, it is returned, whatever its identifier is.
\<close>

theorem find_ie_first:
  assumes "ies_ok xs"
  shows "atbm_ieee80211_find_ie eid (ies_bytes xs) 0 (int (length (ies_bytes xs))) =
     Some (case find (\<lambda>(p, x). fst x = eid) (located 0 xs) of
       Some (p, x) \<Rightarrow> Some (p - 2)
     | None \<Rightarrow> if xs \<noteq> [] \<and> snd (last xs) = [] then Some (length (ies_bytes xs) - 2) else None)"
  using find_ie_list [OF assms, of eid "[]", unfolded append_Nil list.size(3)] .

theorem find_ie_first_witness:
  "atbm_ieee80211_find_ie 40 (ies_bytes ex_ies) 0 30 = Some (Some 4) \<and>
     atbm_ieee80211_find_ie 3 (ies_bytes [(0, [])]) 0 2 = Some (Some 0)"
proof -
  have ok: "ies_ok ex_ies" "ies_ok [(0, [])]" by (simp_all add: ies_ok_def ex_ies_def)
  have f: "find (\<lambda>(p, x). fst x = 40) (located 0 ex_ies) = Some (6, (40, [1]))"
    "find (\<lambda>(p, x). fst x = 3) (located 0 [(0 :: u8, [])]) = None" "length (ies_bytes ex_ies) = 30"
    "length (ies_bytes [(0 :: u8, [])]) = 2"
    by code_simp+
  show ?thesis using find_ie_first [OF ok(1), of 40] find_ie_first [OF ok(2), of 3] f by simp
qed

text \<open>
  Claim C30. The search for a vendor element never reads outside its buffer, whatever the bytes are,
  and what it returns is a complete vendor element with the wanted organisation and type.
\<close>

theorem find_vendor_ie_sound:
  "\<exists>q. atbm_ieee80211_find_vendor_ie oui t buf 0 (length buf) = Some q \<and>
     (\<forall>p. q = Some p \<longrightarrow> buf ! p = ATBM_WLAN_EID_VENDOR_SPECIFIC \<and> p + 2 + unat (buf ! (p + 1)) \<le> length buf \<and>
        ATBM_WPA_GET_BE24 buf (p + 2) = Some oui \<and> buf ! (p + 5) = t)"
proof -
  have "\<exists>q. atbm_ieee80211_find_vendor_ie oui t buf pos (length buf) = Some q \<and>
     (\<forall>p. q = Some p \<longrightarrow> buf ! p = ATBM_WLAN_EID_VENDOR_SPECIFIC \<and> p + 2 + unat (buf ! (p + 1)) \<le> length buf \<and>
        ATBM_WPA_GET_BE24 buf (p + 2) = Some oui \<and> buf ! (p + 5) = t)" for pos
  proof (induction "length buf - pos" arbitrary: pos rule: less_induct)
    case less
    show ?case
    proof (cases "pos < length buf")
      case False
      then show ?thesis by (subst atbm_ieee80211_find_vendor_ie.simps) simp
    next
      case pos: True
      obtain q where q: "atbm_ieee80211_find_ie ATBM_WLAN_EID_VENDOR_SPECIFIC buf pos (int (length buf) - int pos) = Some q"
        "\<forall>p. q = Some p \<longrightarrow> pos \<le> p \<and> p + 2 + unat (buf ! (p + 1)) \<le> length buf \<and>
          (buf ! p = ATBM_WLAN_EID_VENDOR_SPECIFIC \<or> buf ! (p + 1) = 0)"
        using find_ie_safe [of pos "int (length buf) - int pos" buf ATBM_WLAN_EID_VENDOR_SPECIFIC] by auto
      show ?thesis
      proof (cases q)
        case None
        then show ?thesis using pos q(1) by (subst atbm_ieee80211_find_vendor_ie.simps) simp
      next
        case (Some p)
        then have p: "pos \<le> p" "p + 2 + unat (buf ! (p + 1)) \<le> length buf"
          "buf ! p = ATBM_WLAN_EID_VENDOR_SPECIFIC \<or> buf ! (p + 1) = 0" using q(2) by simp_all
        then have n: "rd buf (p + 1) = Some (buf ! (p + 1))" by (simp add: rd_def)
        have rest: ?thesis if "atbm_ieee80211_find_vendor_ie oui t buf pos (length buf) =
            atbm_ieee80211_find_vendor_ie oui t buf (p + 2 + unat (buf ! (p + 1))) (length buf)"
        proof -
          have "length buf - (p + 2 + unat (buf ! (p + 1))) < length buf - pos" using p(1) pos by linarith
          from less.hyps [OF this] show ?thesis unfolding that .
        qed
        show ?thesis
        proof (cases "unat (buf ! (p + 1)) < sizeof_vendor_ie")
          case True
          then show ?thesis using pos q(1) Some n by (intro rest, subst atbm_ieee80211_find_vendor_ie.simps) simp
        next
          case False
          then have len: "p + 7 < length buf" "buf ! (p + 1) \<noteq> 0" using p(2) by (auto simp: sizeof_vendor_ie_def)
          then have rd: "rd buf (p + 5) = Some (buf ! (p + 5))" by (simp add: rd_def)
          obtain o' where o': "ATBM_WPA_GET_BE24 buf (p + 2) = Some o'"
            using len by (simp add: ATBM_WPA_GET_BE24_def rd_def)
          show ?thesis
          proof (cases "o' = oui \<and> buf ! (p + 5) = t")
            case True
            then show ?thesis using pos q(1) Some n False rd o' p(2,3) len(2)
              by (subst atbm_ieee80211_find_vendor_ie.simps) simp
          next
            case no: False
            show ?thesis using pos q(1) Some n False rd o' no
              by (intro rest, subst atbm_ieee80211_find_vendor_ie.simps) auto
          qed
        qed
      qed
    qed
  qed
  then show ?thesis .
qed

theorem find_vendor_ie_sound_witness:
  "\<exists>q. atbm_ieee80211_find_vendor_ie ATBM_OUI_WFA 9 [0, 1, 97, 221, 6, 0x50, 0x6f, 0x9a, 9, 1, 2, 221] 0 12 = Some q \<and>
     q = Some 3 \<and> (9 :: u8) = [0, 1, 97, 221, 6, 0x50, 0x6f, 0x9a, 9, 1, 2, 221] ! 8"
proof -
  let ?b = "[0, 1, 97, 221, 6, 0x50, 0x6f, 0x9a, 9, 1, 2, 221] :: u8 list"
  have r: "atbm_ieee80211_find_vendor_ie ATBM_OUI_WFA 9 ?b 0 12 = Some (Some 3)" by code_simp
  have l: "length ?b = 12" by simp
  have "?b ! (3 + 5) = 9" using find_vendor_ie_sound [of ATBM_OUI_WFA 9 ?b, unfolded l] r by (metis option.inject)
  then show ?thesis using r by simp
qed

text \<open>
  The bound on the length compares the data with the structure that includes the two header bytes:
  a vendor element that consists of its organisation and type is not found.
\<close>

lemma short_vendor_ie_missed:
  "atbm_ieee80211_find_p2p_ie [221, 4, 0x50, 0x6f, 0x9a, 9] = Some None"
  by code_simp

text \<open>The check of a P2P action frame reads the fourth byte of a frame of three.\<close>

lemma p2p_check_reads_past_end: "ieee80211_p2p_action_check [9, 0x50, 0x6f] = None"
  by code_simp

text \<open>A list of elements is split before the first one that is not in the given set.\<close>

lemma ie_split_prefix:
  "ies_ok xs \<Longrightarrow> atbm_ieee80211_ie_split (pre @ ies_bytes xs) ids (length pre) =
     Some (length (pre @ ies_bytes (takeWhile (\<lambda>x. fst x \<in> set ids) xs)))"
proof (induction xs arbitrary: pre)
  case Nil
  then show ?case by (simp add: atbm_ieee80211_ie_split.simps)
next
  case (Cons x xs)
  then have d: "length (snd x) < 256" and ok: "ies_ok xs" by (auto simp: ies_ok_def)
  have r: "rd (pre @ ies_bytes (x # xs)) (length pre) = Some (fst x)"
    "rd (pre @ ies_bytes (x # xs)) (length pre + 1) = Some (of_nat (length (snd x)))"
    by (simp_all add: rd_def nth_append ie_bytes_def)
  show ?case
    using Cons.IH [OF ok, of "pre @ ie_bytes x"] d r
    by (subst atbm_ieee80211_ie_split.simps)
      (simp add: atbm_ieee80211_id_in_list_def unat_of_nat take_bit_nat_eq_self ac_simps)
qed

end
