(* ===== verification/Mesh_Plink.thy ===== *)
theory Mesh_Plink
  imports Elements_Props Frame "HOL-Library.AList"
begin

text \<open>
  Mesh peer links (\<open>hal_apollo/mac80211/mesh_plink.c\<close>, with the elements of \<open>mesh.c\<close> its frames
  contain): the state of a link, the frames of the peering protocol, their reception, the timer and
  the operations of the user.

  The stations of the interface are an association list from addresses. A timer is the value it
  expires at, \<open>None\<close> when it is not pending; a timer that has expired but whose handler has not yet
  taken the lock is in \<open>mesh_due\<close>. \<open>None\<close> as a result is a fired \<open>BUG_ON\<close> (a pending timer is
  added again), a division by zero or a read outside a buffer. Random numbers and the outcomes of
  allocations are arguments. The supported rates of a station are not modelled.
\<close>

section \<open>State\<close>

type_synonym mac = "u8 list"

datatype plink_state =
    PLINK_LISTEN | PLINK_OPN_SNT | PLINK_OPN_RCVD | PLINK_CNF_RCVD | PLINK_ESTAB | PLINK_HOLDING | PLINK_BLOCKED

datatype plink_event =
    PLINK_UNDEFINED | OPN_ACPT | OPN_RJCT | OPN_IGNR | CNF_ACPT | CNF_RJCT | CNF_IGNR | CLS_ACPT | CLS_IGNR

record plink_sta =
  sta_auth :: bool
  plink_state :: plink_state
  llid :: u16
  plid :: u16
  plink_reason :: u16
  plink_retries :: u8
  ignore_plink_timer :: bool
  plink_timer_was_running :: bool
  plink_timeout :: u32
  plink_timer :: "u64 option"

record mesh_cfg =
  mesh_addr :: mac
  mesh_id :: "u8 list"
  mesh_pp_id :: u8
  mesh_pm_id :: u8
  mesh_cc_id :: u8
  mesh_sp_id :: u8
  mesh_auth_id :: u8
  mesh_ie :: "u8 list"
  rates_ies :: "u8 list"
  mesh_security :: u8
  dot11MeshMaxRetries :: u8
  dot11MeshRetryTimeout :: u16
  dot11MeshConfirmTimeout :: u16
  dot11MeshHoldingTimeout :: u16
  dot11MeshMaxPeerLinks :: u16
  auto_open_plinks :: bool
  mesh_hz :: u32

datatype mesh_event =
    Peering_tx u8 mac u16 u16 u16 "u8 list"
  | Beacon_changed
  | Flush_paths mac
  | Housekeeping
  | New_peer_candidate mac

record mesh_sys =
  mesh_cfg :: mesh_cfg
  mesh_stas :: "(mac \<times> plink_sta) list"
  estab_plinks :: int
  num_sta :: nat
  accepting_plinks :: bool
  quiescing :: bool
  mesh_jiffies :: u64
  mesh_due :: "mac list"
  mesh_log :: "mesh_event list"

text \<open>What a call draws and whether its allocations succeed; \<open>stale\<close> are the bytes of
  fresh memory, \<open>stale_llid\<close> is the value of the local variable \<open>llid\<close> of the reception before it is set.\<close>

record plink_env =
  rnd :: u32
  skb_ok :: bool
  sta_ok :: bool
  insert_ok :: bool
  stale :: "u8 \<times> u8"
  stale_llid :: u16

definition MESH_MAX_PLINKS :: int where "MESH_MAX_PLINKS = 256"

definition WLAN_REASON_MESH_PEER_CANCELED :: u16 where "WLAN_REASON_MESH_PEER_CANCELED = 52"
definition WLAN_REASON_MESH_CONFIG :: u16 where "WLAN_REASON_MESH_CONFIG = 54"
definition WLAN_REASON_MESH_CLOSE :: u16 where "WLAN_REASON_MESH_CLOSE = 55"
definition WLAN_REASON_MESH_MAX_RETRIES :: u16 where "WLAN_REASON_MESH_MAX_RETRIES = 56"
definition WLAN_REASON_MESH_CONFIRM_TIMEOUT :: u16 where "WLAN_REASON_MESH_CONFIRM_TIMEOUT = 57"

definition MESH_OPEN :: u8 where "MESH_OPEN = 1"
definition MESH_CONFIRM :: u8 where "MESH_CONFIRM = 2"
definition MESH_CLOSE :: u8 where "MESH_CLOSE = 3"

definition log_mesh :: "mesh_event \<Rightarrow> mesh_sys \<Rightarrow> mesh_sys" where
  "log_mesh x s = s\<lparr>mesh_log := mesh_log s @ [x]\<rparr>"

definition put_sta :: "mac \<Rightarrow> plink_sta \<Rightarrow> mesh_sys \<Rightarrow> mesh_sys" where
  "put_sta a p s = s\<lparr>mesh_stas := AList.update a p (mesh_stas s)\<rparr>"

section \<open>Free links\<close>

definition mesh_plink_free_count :: "mesh_sys \<Rightarrow> int" where
  "mesh_plink_free_count s = uint (dot11MeshMaxPeerLinks (mesh_cfg s)) - estab_plinks s"

definition mesh_plink_availables :: "mesh_sys \<Rightarrow> bool" where
  "mesh_plink_availables s \<longleftrightarrow> 0 < min (mesh_plink_free_count s) (MESH_MAX_PLINKS - int (num_sta s))"

definition mesh_accept_plinks_update :: "mesh_sys \<Rightarrow> mesh_sys" where
  "mesh_accept_plinks_update s =
     (if mesh_plink_availables s \<noteq> accepting_plinks s then log_mesh Housekeeping s else s)"

definition mesh_plink_inc_estab_count :: "mesh_sys \<Rightarrow> mesh_sys" where
  "mesh_plink_inc_estab_count s = mesh_accept_plinks_update (s\<lparr>estab_plinks := estab_plinks s + 1\<rparr>)"

definition mesh_plink_dec_estab_count :: "mesh_sys \<Rightarrow> mesh_sys" where
  "mesh_plink_dec_estab_count s = mesh_accept_plinks_update (s\<lparr>estab_plinks := estab_plinks s - 1\<rparr>)"

section \<open>Frames\<close>

text \<open>The scan for the RSN element goes byte by byte; copying past the end of the buffer is \<open>None\<close>.\<close>

fun mesh_find_rsn :: "u8 list \<Rightarrow> u8 list option" where
  "mesh_find_rsn [] = Some []"
| "mesh_find_rsn (b # bs) =
     (if b = 48 then (case bs of
          [] \<Rightarrow> None
        | n # _ \<Rightarrow> if unat (n + 2) \<le> length bs + 1 then Some (take (unat (n + 2)) (b # bs)) else None)
      else mesh_find_rsn bs)"

definition mesh_add_rsn_ie :: "mesh_cfg \<Rightarrow> u8 list option" where
  "mesh_add_rsn_ie c = mesh_find_rsn (mesh_ie c)"

definition mesh_add_vendor_ies :: "mesh_cfg \<Rightarrow> u8 list option" where
  "mesh_add_vendor_ies c =
     (if mesh_ie c = [] then Some []
      else do {
        offset \<leftarrow> ieee80211_ie_split_vendor (mesh_ie c) 0;
        let offset = (of_nat offset :: u8);
        let len = of_nat (length (mesh_ie c)) - offset;
        if offset \<noteq> 0 then
          if unat offset + unat len \<le> length (mesh_ie c) then Some (take (unat len) (drop (unat offset) (mesh_ie c)))
          else None
        else Some [] })"

definition mesh_add_meshid_ie :: "mesh_cfg \<Rightarrow> u8 list" where
  "mesh_add_meshid_ie c = ie_bytes (114, mesh_id c)"

definition mesh_add_meshconf_ie :: "mesh_sys \<Rightarrow> u8 list \<times> mesh_sys" where
  "mesh_add_meshconf_ie s =
     (let c = mesh_cfg s;
          neighbors = (of_int (estab_plinks s) :: u8);
          neighbors = (if 15 < neighbors then 15 else neighbors);
          acc = mesh_plink_availables s in
      (ie_bytes (113, [mesh_pp_id c, mesh_pm_id c, mesh_cc_id c, mesh_sp_id c, mesh_auth_id c,
         push_bit 1 neighbors, 8 OR (if acc then 1 else 0)]),
       s\<lparr>accepting_plinks := acc\<rparr>))"

definition peer_mgmt_ie :: "u8 \<Rightarrow> u16 \<Rightarrow> u16 \<Rightarrow> u16 \<Rightarrow> u8 list" where
  "peer_mgmt_ie action ll pl reason =
     ie_bytes (117, [0, 0] @ put_le16 ll @
       (if action = MESH_CONFIRM \<or> action = MESH_CLOSE \<and> pl \<noteq> 0 then put_le16 pl else []) @
       (if action = MESH_CLOSE then put_le16 reason else []))"

text \<open>
  The frame; the association identifier of a CONFIRM is not written (the code writes the two bytes
  behind it, which the next element overwrites).
\<close>

definition mesh_plink_frame_tx ::
  "plink_env \<Rightarrow> u8 \<Rightarrow> mac \<Rightarrow> u16 \<Rightarrow> u16 \<Rightarrow> u16 \<Rightarrow> mesh_sys \<Rightarrow> mesh_sys option" where
  "mesh_plink_frame_tx env action da ll pl reason s =
     (if \<not> skb_ok env then Some s
      else do {
        let c = mesh_cfg s;
        rsn \<leftarrow> mesh_add_rsn_ie c;
        vendor \<leftarrow> mesh_add_vendor_ies c;
        let hdr = [0xD0, 0, 0, 0] @ da @ mesh_addr c @ mesh_addr c @ [0, 0, 15, action];
        let (body, s) =
          (if action \<noteq> MESH_CLOSE then
             let (conf, s) = mesh_add_meshconf_ie s in
             ([0, 0] @ (if action = MESH_CONFIRM then [fst (stale env), snd (stale env)] else []) @
               rates_ies c @ rsn @ mesh_add_meshid_ie c @ conf, s)
           else (mesh_add_meshid_ie c, s));
        Some (log_mesh (Peering_tx action da ll pl reason
          (hdr @ body @ peer_mgmt_ie action ll pl reason @ vendor)) s) })"

section \<open>Operations on a link\<close>

definition mesh_plink_fsm_restart :: "plink_sta \<Rightarrow> plink_sta" where
  "mesh_plink_fsm_restart p =
     p\<lparr>plink_state := PLINK_LISTEN, llid := 0, plid := 0, plink_reason := 0, plink_retries := 0\<rparr>"

text \<open>Timers: arming tells whether the timer was pending, adding a pending timer is a \<open>BUG_ON\<close>.\<close>

definition timer_after :: "mesh_sys \<Rightarrow> u32 \<Rightarrow> u64" where
  "timer_after s t = mesh_jiffies s + ucast ((mesh_hz (mesh_cfg s) * t) div 1000)"

definition mod_plink_timer :: "mesh_sys \<Rightarrow> u32 \<Rightarrow> plink_sta \<Rightarrow> bool \<times> plink_sta" where
  "mod_plink_timer s t p = (plink_timer p \<noteq> None, p\<lparr>plink_timer := Some (timer_after s t)\<rparr>)"

definition del_plink_timer :: "plink_sta \<Rightarrow> bool \<times> plink_sta" where
  "del_plink_timer p = (plink_timer p \<noteq> None, p\<lparr>plink_timer := None\<rparr>)"

definition mesh_plink_timer_set :: "mesh_sys \<Rightarrow> u16 \<Rightarrow> plink_sta \<Rightarrow> plink_sta option" where
  "mesh_plink_timer_set s timeout p =
     (if plink_timer p \<noteq> None then None
      else Some (p\<lparr>plink_timeout := ucast timeout, plink_timer := Some (timer_after s (ucast timeout))\<rparr>))"

definition new_sta :: plink_sta where
  "new_sta = \<lparr>sta_auth = False, plink_state = PLINK_LISTEN, llid = 0, plid = 0, plink_reason = 0, plink_retries = 0,
     ignore_plink_timer = False, plink_timer_was_running = False, plink_timeout = 0, plink_timer = None\<rparr>"

definition mesh_plink_alloc :: "plink_env \<Rightarrow> mesh_sys \<Rightarrow> plink_sta option" where
  "mesh_plink_alloc env s =
     (if MESH_MAX_PLINKS \<le> int (num_sta s) then None
      else if \<not> sta_ok env then None
      else Some (new_sta\<lparr>sta_auth := True\<rparr>))"

definition sta_info_insert :: "plink_env \<Rightarrow> mac \<Rightarrow> plink_sta \<Rightarrow> mesh_sys \<Rightarrow> mesh_sys option" where
  "sta_info_insert env a p s =
     (if \<not> insert_ok env then None
      else Some (mesh_accept_plinks_update ((put_sta a p s)\<lparr>num_sta := num_sta s + 1\<rparr>)))"

text \<open>The result tells whether an established link was given up.\<close>

definition mesh_plink_deactivate_locked :: "mac \<Rightarrow> plink_sta \<Rightarrow> mesh_sys \<Rightarrow> bool \<times> plink_sta \<times> mesh_sys" where
  "mesh_plink_deactivate_locked a p s =
     (let deactivated = (plink_state p = PLINK_ESTAB);
          s = (if deactivated then mesh_plink_dec_estab_count s else s) in
      (deactivated, p\<lparr>plink_state := PLINK_BLOCKED\<rparr>, log_mesh (Flush_paths a) s))"

definition mesh_plink_deactivate :: "plink_env \<Rightarrow> mac \<Rightarrow> plink_sta \<Rightarrow> mesh_sys \<Rightarrow> mesh_sys option" where
  "mesh_plink_deactivate env a p s = do {
     let (deactivated, p, s) = mesh_plink_deactivate_locked a p s;
     let p = p\<lparr>plink_reason := WLAN_REASON_MESH_PEER_CANCELED\<rparr>;
     s \<leftarrow> mesh_plink_frame_tx env MESH_CLOSE a (llid p) (plid p) (plink_reason p) (put_sta a p s);
     Some (if deactivated then log_mesh Beacon_changed s else s) }"

definition mesh_plink_block :: "mac \<Rightarrow> plink_sta \<Rightarrow> mesh_sys \<Rightarrow> mesh_sys" where
  "mesh_plink_block a p s =
     (let (deactivated, p, s) = mesh_plink_deactivate_locked a p s;
          s = put_sta a (p\<lparr>plink_state := PLINK_BLOCKED\<rparr>) s in
      if deactivated then log_mesh Beacon_changed s else s)"

definition mesh_plink_open :: "plink_env \<Rightarrow> mac \<Rightarrow> plink_sta \<Rightarrow> mesh_sys \<Rightarrow> ((errno + unit) \<times> mesh_sys) option" where
  "mesh_plink_open env a p s =
     (if \<not> sta_auth p then Some (Inl EPERM, s)
      else (let p = p\<lparr>llid := ucast (rnd env)\<rparr> in
        if plink_state p \<noteq> PLINK_LISTEN then Some (Inl EBUSY, put_sta a p s)
        else do {
          p \<leftarrow> mesh_plink_timer_set s (dot11MeshRetryTimeout (mesh_cfg s)) (p\<lparr>plink_state := PLINK_OPN_SNT\<rparr>);
          s \<leftarrow> mesh_plink_frame_tx env MESH_OPEN a (llid p) 0 0 (put_sta a p s);
          Some (Inr (), s) }))"

section \<open>The state machine\<close>

text \<open>Three states give a link up in the same way.\<close>

definition plink_give_up ::
  "plink_env \<Rightarrow> mac \<Rightarrow> plink_event \<Rightarrow> u16 \<Rightarrow> mesh_sys \<Rightarrow> plink_sta \<Rightarrow> mesh_sys option" where
  "plink_give_up env a event pl s p = do {
     let reason = (if event = CLS_ACPT then WLAN_REASON_MESH_CLOSE else WLAN_REASON_MESH_CONFIG);
     let p = p\<lparr>plink_reason := reason, plink_state := PLINK_HOLDING\<rparr>;
     let (pending, p) = mod_plink_timer s (ucast (dot11MeshHoldingTimeout (mesh_cfg s))) p;
     let p = (if \<not> pending then p\<lparr>ignore_plink_timer := True\<rparr> else p);
     mesh_plink_frame_tx env MESH_CLOSE a (llid p) pl reason (put_sta a p s) }"

definition plink_establish :: "mac \<Rightarrow> mesh_sys \<Rightarrow> plink_sta \<Rightarrow> mesh_sys" where
  "plink_establish a s p =
     (let (_, p) = del_plink_timer p;
          p = p\<lparr>plink_state := PLINK_ESTAB\<rparr> in
      log_mesh Beacon_changed (mesh_plink_inc_estab_count (put_sta a p s)))"

definition mesh_plink_fsm ::
  "plink_env \<Rightarrow> mac \<Rightarrow> plink_event \<Rightarrow> u16 \<Rightarrow> mesh_sys \<Rightarrow> plink_sta \<Rightarrow> mesh_sys option" where
  "mesh_plink_fsm env a event pl s p =
     (case plink_state p of
        PLINK_LISTEN \<Rightarrow>
          if event = CLS_ACPT then Some (put_sta a (mesh_plink_fsm_restart p) s)
          else if event = OPN_ACPT then do {
            let p = p\<lparr>plink_state := PLINK_OPN_RCVD, plid := pl, llid := ucast (rnd env)\<rparr>;
            p \<leftarrow> mesh_plink_timer_set s (dot11MeshRetryTimeout (mesh_cfg s)) p;
            s \<leftarrow> mesh_plink_frame_tx env MESH_OPEN a (llid p) 0 0 (put_sta a p s);
            mesh_plink_frame_tx env MESH_CONFIRM a (llid p) pl 0 s }
          else Some s
      | PLINK_OPN_SNT \<Rightarrow>
          if event = OPN_RJCT \<or> event = CNF_RJCT \<or> event = CLS_ACPT then plink_give_up env a event pl s p
          else if event = OPN_ACPT then
            (let p = p\<lparr>plink_state := PLINK_OPN_RCVD, plid := pl\<rparr> in
             mesh_plink_frame_tx env MESH_CONFIRM a (llid p) pl 0 (put_sta a p s))
          else if event = CNF_ACPT then
            (let p = p\<lparr>plink_state := PLINK_CNF_RCVD\<rparr>;
                 (pending, p) = mod_plink_timer s (ucast (dot11MeshConfirmTimeout (mesh_cfg s))) p;
                 p = (if \<not> pending then p\<lparr>ignore_plink_timer := True\<rparr> else p) in
             Some (put_sta a p s))
          else Some s
      | PLINK_OPN_RCVD \<Rightarrow>
          if event = OPN_RJCT \<or> event = CNF_RJCT \<or> event = CLS_ACPT then plink_give_up env a event pl s p
          else if event = OPN_ACPT then mesh_plink_frame_tx env MESH_CONFIRM a (llid p) pl 0 s
          else if event = CNF_ACPT then Some (plink_establish a s p)
          else Some s
      | PLINK_CNF_RCVD \<Rightarrow>
          if event = OPN_RJCT \<or> event = CNF_RJCT \<or> event = CLS_ACPT then plink_give_up env a event pl s p
          else if event = OPN_ACPT then
            mesh_plink_frame_tx env MESH_CONFIRM a (stale_llid env) pl 0 (plink_establish a s p)
          else Some s
      | PLINK_ESTAB \<Rightarrow>
          if event = CLS_ACPT then do {
            let p = p\<lparr>plink_reason := WLAN_REASON_MESH_CLOSE\<rparr>;
            let (deactivated, p, s) = mesh_plink_deactivate_locked a p s;
            let p = p\<lparr>plink_state := PLINK_HOLDING\<rparr>;
            let (_, p) = mod_plink_timer s (ucast (dot11MeshHoldingTimeout (mesh_cfg s))) p;
            let s = put_sta a p s;
            let s = (if deactivated then log_mesh Beacon_changed s else s);
            mesh_plink_frame_tx env MESH_CLOSE a (llid p) pl WLAN_REASON_MESH_CLOSE s }
          else if event = OPN_ACPT then mesh_plink_frame_tx env MESH_CONFIRM a (llid p) pl 0 s
          else Some s
      | PLINK_HOLDING \<Rightarrow>
          if event = CLS_ACPT then
            (let (pending, p) = del_plink_timer p;
                 p = (if pending then p\<lparr>ignore_plink_timer := True\<rparr> else p) in
             Some (put_sta a (mesh_plink_fsm_restart p) s))
          else if event = OPN_ACPT \<or> event = CNF_ACPT \<or> event = OPN_RJCT \<or> event = CNF_RJCT then
            mesh_plink_frame_tx env MESH_CLOSE a (llid p) pl (plink_reason p) s
          else Some s
      | PLINK_BLOCKED \<Rightarrow> Some s)"

section \<open>Reception\<close>

text \<open>
  What the first part of the reception reads from a frame: the kind, the length of the peering
  element, the identifiers (the second one is not read for every kind), the elements, the sender.
  The length of the elements is a \<open>size_t\<close>.
\<close>

record plink_msg =
  pm_ftype :: u8
  pm_ie_len :: u8
  pm_plid :: u16
  pm_llid :: "u16 option"
  pm_elems :: elems
  pm_sa :: mac

definition mesh_plink_parse :: "mesh_cfg \<Rightarrow> u8 list \<Rightarrow> plink_msg option option" where
  "mesh_plink_parse c frame =
     (if length frame < 25 + 3 then Some None
      else do {
        da0 \<leftarrow> rd frame 4;
        if da0 AND 1 \<noteq> 0 then Some None
        else do {
          ftype \<leftarrow> rd frame 25;
          let baselen = (if ftype = MESH_CONFIRM then 30 else 26);
          e \<leftarrow> ieee802_11_parse_elems frame baselen (unat (of_int (int (length frame) - int baselen) :: u64));
          (case el_ptr e F_peering of
            None \<Rightarrow> Some None
          | Some p \<Rightarrow>
              let ie_len = el_len e F_peering in
              if el_len e F_rsn \<noteq> 0 \<and> mesh_security c = 0 then Some None
              else if ftype = MESH_OPEN \<and> ie_len \<noteq> 4 \<or> ftype = MESH_CONFIRM \<and> ie_len \<noteq> 6 \<or>
                ftype = MESH_CLOSE \<and> ie_len \<noteq> 6 \<and> ie_len \<noteq> 8 then Some None
              else if ftype \<noteq> MESH_CLOSE \<and> (el_ptr e F_mesh_id = None \<or> el_ptr e F_mesh_config = None) then Some None
              else do {
                pl \<leftarrow> le16_at frame (p + 2);
                ll \<leftarrow> (if ftype = MESH_CONFIRM \<or> ftype = MESH_CLOSE \<and> ie_len = 8
                          then map_option Some (le16_at frame (p + 4)) else Some None);
                Some (Some \<lparr>pm_ftype = ftype, pm_ie_len = ie_len, pm_plid = pl, pm_llid = ll, pm_elems = e,
                  pm_sa = take 6 (drop 10 frame)\<rparr>) }) } })"

definition mesh_matches_local :: "mesh_cfg \<Rightarrow> u8 list \<Rightarrow> elems \<Rightarrow> bool option" where
  "mesh_matches_local c frame e =
     (if length (mesh_id c) \<noteq> unat (el_len e F_mesh_id) then Some False
      else do {
        let i = (case el_ptr e F_mesh_id of Some i \<Rightarrow> i | None \<Rightarrow> length frame);
        if length frame < i + length (mesh_id c) then None
        else if take (length (mesh_id c)) (drop i frame) \<noteq> mesh_id c then Some False
        else do {
          k \<leftarrow> el_ptr e F_mesh_config;
          pp \<leftarrow> rd frame k; pm \<leftarrow> rd frame (k + 1); cc \<leftarrow> rd frame (k + 2); sp \<leftarrow> rd frame (k + 3); au \<leftarrow> rd frame (k + 4);
          Some (mesh_pp_id c = pp \<and> mesh_pm_id c = pm \<and> mesh_cc_id c = cc \<and> mesh_sp_id c = sp \<and> mesh_auth_id c = au) } })"

definition mesh_peer_accepts_plinks :: "u8 list \<Rightarrow> elems \<Rightarrow> bool option" where
  "mesh_peer_accepts_plinks frame e = do {
     k \<leftarrow> el_ptr e F_mesh_config;
     cap \<leftarrow> rd frame (k + 6);
     Some (cap AND 1 \<noteq> 0) }"

text \<open>The event a frame of a known station is, \<open>None\<close> for an unknown kind of frame.\<close>

definition plink_event_of :: "mesh_sys \<Rightarrow> plink_sta \<Rightarrow> plink_msg \<Rightarrow> bool \<Rightarrow> plink_event option" where
  "plink_event_of s p m matches =
     (if \<not> matches then
        Some (if pm_ftype m = MESH_OPEN then OPN_RJCT else if pm_ftype m = MESH_CONFIRM then CNF_RJCT else PLINK_UNDEFINED)
      else if pm_ftype m = MESH_OPEN then
        Some (if mesh_plink_free_count s = 0 \<or> plid p \<noteq> 0 \<and> plid p \<noteq> pm_plid m then OPN_IGNR else OPN_ACPT)
      else if pm_ftype m = MESH_CONFIRM then
        Some (if mesh_plink_free_count s = 0 \<or> Some (llid p) \<noteq> pm_llid m \<or> plid p \<noteq> pm_plid m then CNF_IGNR else CNF_ACPT)
      else if pm_ftype m = MESH_CLOSE then
        Some (if plink_state p = PLINK_ESTAB then CLS_ACPT
              else if plid p \<noteq> pm_plid m then CLS_IGNR
              else if pm_ie_len m = 7 \<and> Some (llid p) \<noteq> pm_llid m then CLS_IGNR
              else CLS_ACPT)
      else None)"

definition mesh_rx_plink_frame :: "plink_env \<Rightarrow> u8 list \<Rightarrow> mesh_sys \<Rightarrow> mesh_sys option" where
  "mesh_rx_plink_frame env frame s = do {
     let c = mesh_cfg s;
     msg \<leftarrow> mesh_plink_parse c frame;
     (case msg of
       None \<Rightarrow> Some s
     | Some m \<Rightarrow> do {
         let sta = map_of (mesh_stas s) (pm_sa m);
         if sta = None \<and> pm_ftype m \<noteq> MESH_OPEN then Some s
         else if (case sta of Some p \<Rightarrow> \<not> sta_auth p \<or> plink_state p = PLINK_BLOCKED | None \<Rightarrow> False) then Some s
         else do {
           matches \<leftarrow> (if pm_ftype m \<noteq> MESH_CLOSE then mesh_matches_local c frame (pm_elems m) else Some True);
           (case sta of
             None \<Rightarrow>
               if \<not> matches then
                 mesh_plink_frame_tx env MESH_CLOSE (pm_sa m) 0 (pm_plid m) WLAN_REASON_MESH_CONFIG s
               else if mesh_plink_free_count s = 0 then Some s
               else (case mesh_plink_alloc env s of
                   None \<Rightarrow> Some s
                 | Some p \<Rightarrow> (case sta_info_insert env (pm_sa m) p s of
                     None \<Rightarrow> Some s
                   | Some s \<Rightarrow> mesh_plink_fsm env (pm_sa m) OPN_ACPT (pm_plid m) s p))
           | Some p \<Rightarrow> (case plink_event_of s p m matches of
                 None \<Rightarrow> Some s
               | Some event \<Rightarrow> mesh_plink_fsm env (pm_sa m) event (pm_plid m) s p)) } }) }"

section \<open>Neighbours and the timer\<close>

text \<open>A beacon or probe response of a neighbour.\<close>

definition mesh_neighbour_update :: "plink_env \<Rightarrow> mac \<Rightarrow> u8 list \<Rightarrow> elems \<Rightarrow> mesh_sys \<Rightarrow> mesh_sys option" where
  "mesh_neighbour_update env a frame e s = do {
     (found, s) \<leftarrow> (case map_of (mesh_stas s) a of
         Some p \<Rightarrow> Some (Some p, s)
       | None \<Rightarrow>
           if mesh_security (mesh_cfg s) AND 1 \<noteq> 0 then Some (None, log_mesh (New_peer_candidate a) s)
           else (case mesh_plink_alloc env s of
               None \<Rightarrow> Some (None, s)
             | Some p \<Rightarrow> (case sta_info_insert env a p s of
                 None \<Rightarrow> Some (None, s)
               | Some s \<Rightarrow> Some (Some p, s))));
     (case found of
       None \<Rightarrow> Some s
     | Some p \<Rightarrow> do {
         acc \<leftarrow> mesh_peer_accepts_plinks frame e;
         if acc \<and> plink_state p = PLINK_LISTEN \<and> accepting_plinks s \<and> auto_open_plinks (mesh_cfg s)
         then map_option snd (mesh_plink_open env a p s)
         else Some s }) }"

definition mesh_plink_timer :: "plink_env \<Rightarrow> mac \<Rightarrow> plink_sta \<Rightarrow> mesh_sys \<Rightarrow> mesh_sys option" where
  "mesh_plink_timer env a p s =
     (if quiescing s then Some (put_sta a (p\<lparr>plink_timer_was_running := True\<rparr>) s)
      else if ignore_plink_timer p then Some (put_sta a (p\<lparr>ignore_plink_timer := False\<rparr>) s)
      else if (plink_state p = PLINK_OPN_RCVD \<or> plink_state p = PLINK_OPN_SNT) \<and>
          plink_retries p < dot11MeshMaxRetries (mesh_cfg s) then
        if plink_timeout p = 0 then None
        else (let p = p\<lparr>plink_timeout := plink_timeout p + rnd env mod plink_timeout p,
                        plink_retries := plink_retries p + 1\<rparr>;
                  (_, p) = mod_plink_timer s (plink_timeout p) p in
              mesh_plink_frame_tx env MESH_OPEN a (llid p) 0 0 (put_sta a p s))
      else if plink_state p = PLINK_OPN_RCVD \<or> plink_state p = PLINK_OPN_SNT \<or> plink_state p = PLINK_CNF_RCVD then
        (let reason = (if plink_state p = PLINK_CNF_RCVD then WLAN_REASON_MESH_CONFIRM_TIMEOUT
                       else WLAN_REASON_MESH_MAX_RETRIES);
             p = p\<lparr>plink_state := PLINK_HOLDING\<rparr>;
             (_, p) = mod_plink_timer s (ucast (dot11MeshHoldingTimeout (mesh_cfg s))) p in
         mesh_plink_frame_tx env MESH_CLOSE a (llid p) (plid p) reason (put_sta a p s))
      else if plink_state p = PLINK_HOLDING then
        (let (_, p) = del_plink_timer p in Some (put_sta a (mesh_plink_fsm_restart p) s))
      else Some s)"

text \<open>Suspend and resume.\<close>

definition mesh_plink_quiesce :: "plink_sta \<Rightarrow> plink_sta" where
  "mesh_plink_quiesce p =
     (let (pending, p) = del_plink_timer p in if pending then p\<lparr>plink_timer_was_running := True\<rparr> else p)"

definition mesh_plink_restart :: "u64 \<Rightarrow> plink_sta \<Rightarrow> plink_sta option" where
  "mesh_plink_restart expires p =
     (if \<not> plink_timer_was_running p then Some p
      else if plink_timer p \<noteq> None then None
      else Some (p\<lparr>plink_timer := Some expires, plink_timer_was_running := False\<rparr>))"

section \<open>Runs\<close>

datatype mesh_op =
    Mesh_rx plink_env "u8 list"
  | Mesh_neighbour plink_env mac "u8 list" elems
  | Mesh_open plink_env mac
  | Mesh_block mac
  | Mesh_deactivate plink_env mac
  | Mesh_expire mac
  | Mesh_timer plink_env mac
  | Mesh_tick u64

text \<open>An operation on a station that does not exist does nothing.\<close>

definition on_sta :: "mac \<Rightarrow> mesh_sys \<Rightarrow> (plink_sta \<Rightarrow> mesh_sys option) \<Rightarrow> mesh_sys option" where
  "on_sta a s f = (case map_of (mesh_stas s) a of None \<Rightarrow> Some s | Some p \<Rightarrow> f p)"

fun mesh_step :: "mesh_op \<Rightarrow> mesh_sys \<Rightarrow> mesh_sys option" where
  "mesh_step (Mesh_rx env frame) s = mesh_rx_plink_frame env frame s"
| "mesh_step (Mesh_neighbour env a frame e) s = mesh_neighbour_update env a frame e s"
| "mesh_step (Mesh_open env a) s = on_sta a s (\<lambda>p. map_option snd (mesh_plink_open env a p s))"
| "mesh_step (Mesh_block a) s = on_sta a s (\<lambda>p. Some (mesh_plink_block a p s))"
| "mesh_step (Mesh_deactivate env a) s = on_sta a s (\<lambda>p. mesh_plink_deactivate env a p s)"
| "mesh_step (Mesh_expire a) s = on_sta a s (\<lambda>p.
     Some (if plink_timer p \<noteq> None \<and> a \<notin> set (mesh_due s)
           then (put_sta a (p\<lparr>plink_timer := None\<rparr>) s)\<lparr>mesh_due := a # mesh_due s\<rparr> else s))"
| "mesh_step (Mesh_timer env a) s = on_sta a s (\<lambda>p.
     if a \<in> set (mesh_due s) then mesh_plink_timer env a p (s\<lparr>mesh_due := remove1 a (mesh_due s)\<rparr>) else Some s)"
| "mesh_step (Mesh_tick n) s = Some (s\<lparr>mesh_jiffies := mesh_jiffies s + n\<rparr>)"

end
