(* ===== verification/Mesh_Inv.thy ===== *)
theory Mesh_Inv
  imports Mesh_Plink
begin

text \<open>
  The invariant of mesh peer links and its preservation: the number of established links is the
  counter and at most the configured maximum, and a link that listens has no timer.
\<close>

section \<open>Stations\<close>

definition estab_count :: "(mac \<times> plink_sta) list \<Rightarrow> nat" where
  "estab_count xs = length (filter (\<lambda>(a, p). plink_state p = PLINK_ESTAB) xs)"

lemma estab_count_update:
  "distinct (map fst xs) \<Longrightarrow> map_of xs a = Some p \<Longrightarrow>
     estab_count (AList.update a p' xs) + (if plink_state p = PLINK_ESTAB then 1 else 0) =
     estab_count xs + (if plink_state p' = PLINK_ESTAB then 1 else 0)"
  by (induction xs) (auto simp: estab_count_def split: if_splits)

lemma estab_count_insert:
  "map_of xs a = None \<Longrightarrow>
     estab_count (AList.update a p' xs) = estab_count xs + (if plink_state p' = PLINK_ESTAB then 1 else 0)"
  by (induction xs) (auto simp: estab_count_def)

section \<open>The invariant\<close>

definition cfg_ok :: "mesh_cfg \<Rightarrow> bool" where
  "cfg_ok c \<longleftrightarrow> mesh_add_rsn_ie c \<noteq> None \<and> mesh_add_vendor_ies c \<noteq> None \<and>
     dot11MeshRetryTimeout c \<noteq> 0 \<and> unat (dot11MeshMaxRetries c) \<le> 15"

definition plink_ok :: "mesh_cfg \<Rightarrow> plink_sta \<Rightarrow> bool" where
  "plink_ok c p \<longleftrightarrow>
     (plink_state p = PLINK_LISTEN \<longrightarrow> plink_timer p = None \<and> plink_retries p = 0) \<and>
     (plink_state p = PLINK_OPN_SNT \<or> plink_state p = PLINK_OPN_RCVD \<longrightarrow>
        plink_timeout p \<noteq> 0 \<and> unat (plink_timeout p) < 2 ^ (16 + unat (plink_retries p)) \<and>
        plink_retries p \<le> dot11MeshMaxRetries c)"

definition mesh_inv :: "mesh_sys \<Rightarrow> bool" where
  "mesh_inv s \<longleftrightarrow> cfg_ok (mesh_cfg s) \<and> distinct (map fst (mesh_stas s)) \<and>
     (\<forall>a p. map_of (mesh_stas s) a = Some p \<longrightarrow> plink_ok (mesh_cfg s) p) \<and>
     estab_plinks s = int (estab_count (mesh_stas s)) \<and>
     estab_plinks s \<le> uint (dot11MeshMaxPeerLinks (mesh_cfg s))"

text \<open>What sending frames and other bookkeeping leaves alone.\<close>

definition mesh_same :: "mesh_sys \<Rightarrow> mesh_sys \<Rightarrow> bool" where
  "mesh_same s s' \<longleftrightarrow> mesh_cfg s' = mesh_cfg s \<and> mesh_stas s' = mesh_stas s \<and> estab_plinks s' = estab_plinks s \<and>
     num_sta s' = num_sta s \<and> mesh_due s' = mesh_due s \<and> quiescing s' = quiescing s \<and> mesh_jiffies s' = mesh_jiffies s"

text \<open>The kinds of frames sent to a station, in order.\<close>

fun sent_to :: "mac \<Rightarrow> mesh_event list \<Rightarrow> u8 list" where
  "sent_to a [] = []"
| "sent_to a (x # xs) =
     (case x of Peering_tx k b _ _ _ _ \<Rightarrow> if b = a then k # sent_to a xs else sent_to a xs | _ \<Rightarrow> sent_to a xs)"

lemma sent_to_append [simp]: "sent_to a (xs @ ys) = sent_to a xs @ sent_to a ys"
  by (induction xs) (auto split: mesh_event.split)

lemma mesh_same_refl [simp]: "mesh_same s s"
  by (simp add: mesh_same_def)

lemma mesh_same_trans: "mesh_same s t \<Longrightarrow> mesh_same t u \<Longrightarrow> mesh_same s u"
  by (simp add: mesh_same_def)

lemma mesh_same_inv: "mesh_same s s' \<Longrightarrow> mesh_inv s \<Longrightarrow> mesh_inv s'"
  by (simp add: mesh_same_def mesh_inv_def)

lemma log_mesh_same [simp]: "mesh_same t (log_mesh x s) = mesh_same t s"
  by (simp add: mesh_same_def log_mesh_def)

lemma log_mesh_sel [simp]: "mesh_cfg (log_mesh x s) = mesh_cfg s" "mesh_stas (log_mesh x s) = mesh_stas s"
  "estab_plinks (log_mesh x s) = estab_plinks s" "mesh_log (log_mesh x s) = mesh_log s @ [x]"
  by (simp_all add: log_mesh_def)

lemma accept_update_sel [simp]: "mesh_cfg (mesh_accept_plinks_update s) = mesh_cfg s"
  "mesh_stas (mesh_accept_plinks_update s) = mesh_stas s"
  "estab_plinks (mesh_accept_plinks_update s) = estab_plinks s"
  "sent_to a (mesh_log (mesh_accept_plinks_update s)) = sent_to a (mesh_log s)"
  by (simp_all add: mesh_accept_plinks_update_def)

lemma estab_count_sel [simp]: "mesh_cfg (mesh_plink_inc_estab_count s) = mesh_cfg s"
  "mesh_stas (mesh_plink_inc_estab_count s) = mesh_stas s"
  "estab_plinks (mesh_plink_inc_estab_count s) = estab_plinks s + 1"
  "sent_to a (mesh_log (mesh_plink_inc_estab_count s)) = sent_to a (mesh_log s)"
  "mesh_cfg (mesh_plink_dec_estab_count s) = mesh_cfg s"
  "mesh_stas (mesh_plink_dec_estab_count s) = mesh_stas s"
  "estab_plinks (mesh_plink_dec_estab_count s) = estab_plinks s - 1"
  "sent_to a (mesh_log (mesh_plink_dec_estab_count s)) = sent_to a (mesh_log s)"
  by (simp_all add: mesh_plink_inc_estab_count_def mesh_plink_dec_estab_count_def)

lemma put_sta_sel [simp]: "mesh_cfg (put_sta a p s) = mesh_cfg s"
  "mesh_stas (put_sta a p s) = AList.update a p (mesh_stas s)" "estab_plinks (put_sta a p s) = estab_plinks s"
  "mesh_log (put_sta a p s) = mesh_log s"
  by (simp_all add: put_sta_def)

lemma frame_tx_ok:
  assumes "cfg_ok (mesh_cfg s)"
  obtains s' where "mesh_plink_frame_tx env k a l q r s = Some s'" "mesh_same s s'"
    "sent_to a (mesh_log s') = sent_to a (mesh_log s) @ (if skb_ok env then [k] else [])"
proof -
  obtain rsn vendor where ies: "mesh_add_rsn_ie (mesh_cfg s) = Some rsn" "mesh_add_vendor_ies (mesh_cfg s) = Some vendor"
    using assms by (auto simp: cfg_ok_def)
  have "\<exists>s'. mesh_plink_frame_tx env k a l q r s = Some s' \<and> mesh_same s s' \<and>
      sent_to a (mesh_log s') = sent_to a (mesh_log s) @ (if skb_ok env then [k] else [])"
    by (simp add: mesh_plink_frame_tx_def ies Let_def mesh_add_meshconf_ie_def mesh_same_def log_mesh_def)
  then show ?thesis using that by blast
qed

section \<open>Changing one station\<close>

lemma put_sta_inv:
  assumes "mesh_inv s" "map_of (mesh_stas s) a = Some p" "plink_ok (mesh_cfg s) p'"
    "(plink_state p' = PLINK_ESTAB) = (plink_state p = PLINK_ESTAB)"
  shows "mesh_inv (put_sta a p' s)"
  using assms estab_count_update [of "mesh_stas s" a p p']
  by (auto simp: mesh_inv_def update_conv' distinct_update split: if_splits)

lemma establish_inv:
  assumes "mesh_inv s" "map_of (mesh_stas s) a = Some p" "plink_state p \<noteq> PLINK_ESTAB"
    "mesh_plink_free_count s \<noteq> 0"
  shows "mesh_inv (plink_establish a s p)" 
    "mesh_stas (plink_establish a s p) = AList.update a (p\<lparr>plink_timer := None, plink_state := PLINK_ESTAB\<rparr>) (mesh_stas s)"
    "mesh_cfg (plink_establish a s p) = mesh_cfg s"
    "sent_to b (mesh_log (plink_establish a s p)) = sent_to b (mesh_log s)"
proof -
  let ?p = "p\<lparr>plink_timer := None, plink_state := PLINK_ESTAB\<rparr>"
  have "estab_count (AList.update a ?p (mesh_stas s)) = estab_count (mesh_stas s) + 1"
    using estab_count_update [of "mesh_stas s" a p ?p] assms by (simp add: mesh_inv_def)
  then show "mesh_inv (plink_establish a s p)"
    using assms
    by (auto simp: mesh_inv_def plink_establish_def del_plink_timer_def update_conv' distinct_update
        plink_ok_def mesh_plink_free_count_def split: if_splits)
qed (simp_all add: plink_establish_def del_plink_timer_def)

lemma deactivate_locked:
  assumes "mesh_inv s" "map_of (mesh_stas s) a = Some p"
    "mesh_plink_deactivate_locked a p s = (d, p', s')"
  shows "p' = p\<lparr>plink_state := PLINK_BLOCKED\<rparr>" "mesh_stas s' = mesh_stas s" "mesh_cfg s' = mesh_cfg s"
    "sent_to b (mesh_log s') = sent_to b (mesh_log s)"
    "plink_ok (mesh_cfg s) q \<Longrightarrow> plink_state q \<noteq> PLINK_ESTAB \<Longrightarrow> mesh_inv (put_sta a q s')"
proof -
  show "plink_ok (mesh_cfg s) q \<Longrightarrow> plink_state q \<noteq> PLINK_ESTAB \<Longrightarrow> mesh_inv (put_sta a q s')"
    using assms estab_count_update [of "mesh_stas s" a p q]
    by (auto simp: mesh_inv_def mesh_plink_deactivate_locked_def Let_def update_conv' distinct_update split: if_splits)
qed (use assms in \<open>auto simp: mesh_plink_deactivate_locked_def Let_def split: if_splits\<close>)

lemma insert_inv:
  assumes "mesh_inv s" "map_of (mesh_stas s) a = None" "sta_info_insert env a p s = Some s'"
    "plink_state p = PLINK_LISTEN" "plink_ok (mesh_cfg s) p"
  shows "mesh_inv s'" "map_of (mesh_stas s') = (map_of (mesh_stas s))(a \<mapsto> p)" "mesh_cfg s' = mesh_cfg s"
    "estab_plinks s' = estab_plinks s"
  using assms estab_count_insert [of "mesh_stas s" a p]
  by (auto simp: mesh_inv_def sta_info_insert_def update_conv' distinct_update split: if_splits)

section \<open>The protocol\<close>

text \<open>The mesh peering protocol: a state, an accepted event, the next state and the frames sent.\<close>

definition mpm_ignores :: "plink_state \<Rightarrow> plink_event \<Rightarrow> bool" where
  "mpm_ignores q e \<longleftrightarrow> e \<in> {PLINK_UNDEFINED, OPN_IGNR, CNF_IGNR, CLS_IGNR} \<or> q = PLINK_BLOCKED \<or>
     q = PLINK_LISTEN \<and> e \<in> {OPN_RJCT, CNF_ACPT, CNF_RJCT} \<or> q = PLINK_CNF_RCVD \<and> e = CNF_ACPT \<or>
     q = PLINK_ESTAB \<and> e \<in> {CNF_ACPT, OPN_RJCT, CNF_RJCT}"

inductive mpm :: "plink_state \<Rightarrow> plink_event \<Rightarrow> plink_state \<Rightarrow> u8 list \<Rightarrow> bool" where
  mpm_ignore: "mpm_ignores q e \<Longrightarrow> mpm q e q []"
| mpm_restart: "mpm PLINK_LISTEN CLS_ACPT PLINK_LISTEN []"
| mpm_answer: "mpm PLINK_LISTEN OPN_ACPT PLINK_OPN_RCVD [MESH_OPEN, MESH_CONFIRM]"
| mpm_opened: "mpm PLINK_OPN_SNT OPN_ACPT PLINK_OPN_RCVD [MESH_CONFIRM]"
| mpm_confirmed: "mpm PLINK_OPN_SNT CNF_ACPT PLINK_CNF_RCVD []"
| mpm_confirm_last: "mpm PLINK_OPN_RCVD CNF_ACPT PLINK_ESTAB []"
| mpm_open_last: "mpm PLINK_CNF_RCVD OPN_ACPT PLINK_ESTAB [MESH_CONFIRM]"
| mpm_again: "q \<in> {PLINK_OPN_RCVD, PLINK_ESTAB} \<Longrightarrow> mpm q OPN_ACPT q [MESH_CONFIRM]"
| mpm_give_up: "q \<in> {PLINK_OPN_SNT, PLINK_OPN_RCVD, PLINK_CNF_RCVD} \<Longrightarrow> e \<in> {OPN_RJCT, CNF_RJCT, CLS_ACPT} \<Longrightarrow>
    mpm q e PLINK_HOLDING [MESH_CLOSE]"
| mpm_closed: "mpm PLINK_ESTAB CLS_ACPT PLINK_HOLDING [MESH_CLOSE]"
| mpm_released: "mpm PLINK_HOLDING CLS_ACPT PLINK_LISTEN []"
| mpm_refuse: "e \<in> {OPN_ACPT, CNF_ACPT, OPN_RJCT, CNF_RJCT} \<Longrightarrow> mpm PLINK_HOLDING e PLINK_HOLDING [MESH_CLOSE]"

inductive_cases mpm_elims: "mpm q e q' fs"

lemma mpm_deterministic: "mpm q e q' fs \<Longrightarrow> mpm q e r gs \<Longrightarrow> q' = r \<and> fs = gs"
  by (elim mpm_elims) (auto simp: mpm_ignores_def)

lemma mpm_total: "\<exists>q' fs. mpm q e q' fs"
  by (cases q; cases e) (fastforce intro: mpm.intros simp: mpm_ignores_def)+

text \<open>The state machine of the code follows the protocol.\<close>

definition fsm_result :: "plink_env \<Rightarrow> mac \<Rightarrow> plink_event \<Rightarrow> mesh_sys \<Rightarrow> plink_sta \<Rightarrow> mesh_sys option \<Rightarrow> bool" where
  "fsm_result env a event s p res \<longleftrightarrow> (\<exists>s' p' fs. res = Some s' \<and> mesh_inv s' \<and> mesh_cfg s' = mesh_cfg s \<and>
     map_of (mesh_stas s') = (map_of (mesh_stas s))(a \<mapsto> p') \<and> mpm (plink_state p) event (plink_state p') fs \<and>
     sent_to a (mesh_log s') = sent_to a (mesh_log s) @ (if skb_ok env then fs else []))"

lemma fsm_resultI:
  assumes "mesh_inv s'" "mesh_cfg s' = mesh_cfg s"
    "map_of (mesh_stas s') = (map_of (mesh_stas s))(a \<mapsto> p')" "mpm (plink_state p) event (plink_state p') fs"
    "sent_to a (mesh_log s') = sent_to a (mesh_log s) @ (if skb_ok env then fs else [])"
  shows "fsm_result env a event s p (Some s')"
  using assms unfolding fsm_result_def by blast

text \<open>A change of the station, with frames sent afterwards.\<close>

lemma fsm_no_frame:
  assumes "mesh_inv s'" "mesh_cfg s' = mesh_cfg s" "map_of (mesh_stas s') = (map_of (mesh_stas s))(a \<mapsto> p')"
    "sent_to a (mesh_log s') = sent_to a (mesh_log s)" "mpm (plink_state p) event (plink_state p') []"
  shows "fsm_result env a event s p (Some s')"
  by (rule fsm_resultI [where fs = "[]" and p' = p']) (use assms in simp_all)

lemma fsm_one_frame:
  assumes "mesh_inv s'" "mesh_cfg s' = mesh_cfg s" "map_of (mesh_stas s') = (map_of (mesh_stas s))(a \<mapsto> p')"
    "sent_to a (mesh_log s') = sent_to a (mesh_log s)" "mpm (plink_state p) event (plink_state p') [k]"
  shows "fsm_result env a event s p (mesh_plink_frame_tx env k a l q r s')"
proof -
  have "cfg_ok (mesh_cfg s')" using assms(1) by (simp add: mesh_inv_def)
  from frame_tx_ok [OF this, of env k a l q r] obtain t where
    t: "mesh_plink_frame_tx env k a l q r s' = Some t" "mesh_same s' t"
    "sent_to a (mesh_log t) = sent_to a (mesh_log s') @ (if skb_ok env then [k] else [])" .
  have same: "mesh_cfg t = mesh_cfg s'" "mesh_stas t = mesh_stas s'" using t(2) by (simp_all only: mesh_same_def)
  show ?thesis
    unfolding t(1) by (rule fsm_resultI [OF mesh_same_inv [OF t(2) assms(1)] _ _ assms(5)]) (simp_all add: same t(3) assms(2-4))
qed

lemma plink_ok_simple:
  "plink_state p \<notin> {PLINK_LISTEN, PLINK_OPN_SNT, PLINK_OPN_RCVD} \<Longrightarrow> plink_ok c p"
  by (simp add: plink_ok_def)

lemma give_up_ok:
  assumes "mesh_inv s" "map_of (mesh_stas s) a = Some p"
    "plink_state p \<in> {PLINK_OPN_SNT, PLINK_OPN_RCVD, PLINK_CNF_RCVD}" "event \<in> {OPN_RJCT, CNF_RJCT, CLS_ACPT}"
  shows "fsm_result env a event s p (plink_give_up env a event pl s p)"
proof -
  define p' where "p' = (let p' = p\<lparr>plink_reason := (if event = CLS_ACPT then WLAN_REASON_MESH_CLOSE
      else WLAN_REASON_MESH_CONFIG), plink_state := PLINK_HOLDING,
      plink_timer := Some (timer_after s (ucast (dot11MeshHoldingTimeout (mesh_cfg s))))\<rparr> in
    if plink_timer p = None then p'\<lparr>ignore_plink_timer := True\<rparr> else p')"
  have st: "plink_state p' = PLINK_HOLDING" by (simp add: p'_def Let_def)
  then have "plink_ok (mesh_cfg s) p'" by (simp add: plink_ok_simple)
  then have i: "mesh_inv (put_sta a p' s)" using put_sta_inv [OF assms(1,2)] assms(3) st by auto
  have eq: "plink_give_up env a event pl s p = mesh_plink_frame_tx env MESH_CLOSE a (llid p') pl
      (if event = CLS_ACPT then WLAN_REASON_MESH_CLOSE else WLAN_REASON_MESH_CONFIG) (put_sta a p' s)"
    by (simp add: plink_give_up_def p'_def Let_def mod_plink_timer_def)
  have "mpm (plink_state p) event (plink_state p') [MESH_CLOSE]"
    unfolding st using assms(3,4) by (rule mpm_give_up)
  then show ?thesis unfolding eq by (intro fsm_one_frame [OF i, where p' = p']) (simp_all add: update_conv')
qed

lemma put_sta_map: "map_of (mesh_stas (put_sta a p' s)) = (map_of (mesh_stas s))(a \<mapsto> p')"
  by (simp add: update_conv')

lemma mesh_invD:
  assumes "mesh_inv s"
  shows "cfg_ok (mesh_cfg s)" "map_of (mesh_stas s) a = Some p \<Longrightarrow> plink_ok (mesh_cfg s) p"
  using assms by (simp_all add: mesh_inv_def)

lemma timer_set_ok:
  assumes "mesh_inv s" "plink_timer p = None" "plink_retries p = 0" "plink_state p \<in> {PLINK_OPN_SNT, PLINK_OPN_RCVD}"
  obtains p' where "mesh_plink_timer_set s (dot11MeshRetryTimeout (mesh_cfg s)) p = Some p'" "plink_ok (mesh_cfg s) p'"
    "plink_state p' = plink_state p" "llid p' = llid p"
proof
  let ?p = "p\<lparr>plink_timeout := ucast (dot11MeshRetryTimeout (mesh_cfg s)),
    plink_timer := Some (timer_after s (ucast (dot11MeshRetryTimeout (mesh_cfg s))))\<rparr>"
  show "mesh_plink_timer_set s (dot11MeshRetryTimeout (mesh_cfg s)) p = Some ?p"
    using assms(2) by (simp add: mesh_plink_timer_set_def)
  let ?t = "dot11MeshRetryTimeout (mesh_cfg s)"
  have "?t \<noteq> 0" using mesh_invD [OF assms(1)] by (simp add: cfg_ok_def)
  then have "0 < unat ?t" by (simp add: word_greater_zero_iff [symmetric] word_less_nat_alt)
  moreover have "unat (ucast ?t :: u32) = unat ?t" by (simp add: unsigned_ucast_eq take_bit_nat_eq_self less_trans [OF unsigned_less])
  ultimately show "plink_ok (mesh_cfg s) ?p"
    using assms(3,4) unsigned_less [of ?t, where 'a = nat] by (auto simp: plink_ok_def)
qed simp_all

lemma fsm_listen:
  assumes "mesh_inv s" "map_of (mesh_stas s) a = Some p" "plink_state p = PLINK_LISTEN"
  shows "fsm_result env a event s p (mesh_plink_fsm env a event pl s p)"
proof -
  have p: "plink_timer p = None" "plink_retries p = 0"
    using mesh_invD(2) [OF assms(1,2)] assms(3) by (simp_all add: plink_ok_def)
  consider "event = CLS_ACPT" | "event = OPN_ACPT" | "mpm_ignores PLINK_LISTEN event"
    by (cases event) (simp_all add: mpm_ignores_def)
  then show ?thesis
  proof cases
    case 1
    let ?p = "mesh_plink_fsm_restart p"
    have "plink_ok (mesh_cfg s) ?p" "plink_state ?p = PLINK_LISTEN"
      using p by (simp_all add: plink_ok_def mesh_plink_fsm_restart_def)
    then have "mesh_inv (put_sta a ?p s)" using put_sta_inv [OF assms(1,2)] assms(3) by simp
    then show ?thesis
      using 1 assms(3) \<open>plink_state ?p = PLINK_LISTEN\<close>
      by (auto simp: mesh_plink_fsm_def update_conv' mpm_restart intro!: fsm_no_frame [where p' = ?p])
  next
    case 2
    let ?q = "p\<lparr>plink_state := PLINK_OPN_RCVD, plid := pl, llid := ucast (rnd env)\<rparr>"
    obtain p' where p': "mesh_plink_timer_set s (dot11MeshRetryTimeout (mesh_cfg s)) ?q = Some p'" "plink_ok (mesh_cfg s) p'"
      "plink_state p' = PLINK_OPN_RCVD" "llid p' = ucast (rnd env)"
      using timer_set_ok [OF assms(1), of ?q] p by auto
    then have i: "mesh_inv (put_sta a p' s)" using put_sta_inv [OF assms(1,2)] assms(3) by simp
    obtain t where t: "mesh_plink_frame_tx env MESH_OPEN a (llid p') 0 0 (put_sta a p' s) = Some t" "mesh_same (put_sta a p' s) t"
      "sent_to a (mesh_log t) = sent_to a (mesh_log s) @ (if skb_ok env then [MESH_OPEN] else [])"
      using frame_tx_ok [OF mesh_invD(1) [OF i], of env MESH_OPEN a "llid p'" 0 0] by auto
    have it: "mesh_inv t" by (rule mesh_same_inv [OF t(2) i])
    obtain u where u: "mesh_plink_frame_tx env MESH_CONFIRM a (llid p') pl 0 t = Some u" "mesh_same t u"
      "sent_to a (mesh_log u) = sent_to a (mesh_log t) @ (if skb_ok env then [MESH_CONFIRM] else [])"
      using frame_tx_ok [OF mesh_invD(1) [OF it], of env MESH_CONFIRM a "llid p'" pl 0] by auto
    have "mesh_plink_fsm env a event pl s p = Some u"
      using 2 assms(3) p'(1,4) t(1) u(1) by (simp add: mesh_plink_fsm_def)
    moreover have "mesh_inv u" by (rule mesh_same_inv [OF u(2) it])
    moreover have "mesh_cfg u = mesh_cfg s" "map_of (mesh_stas u) = (map_of (mesh_stas s))(a \<mapsto> p')"
      using t(2) u(2) by (simp_all add: mesh_same_def update_conv')
    moreover have "mpm (plink_state p) event (plink_state p') [MESH_OPEN, MESH_CONFIRM]"
      unfolding 2 assms(3) p'(3) by (rule mpm_answer)
    moreover have "sent_to a (mesh_log u) = sent_to a (mesh_log s) @ (if skb_ok env then [MESH_OPEN, MESH_CONFIRM] else [])"
      using t(3) u(3) by simp
    ultimately show ?thesis by (simp only: fsm_resultI)
  next
    case 3
    then show ?thesis
      using assms mpm_ignore [OF 3]
      by (auto simp: mesh_plink_fsm_def mpm_ignores_def map_upd_triv intro!: fsm_no_frame [where p' = p])
  qed
qed

lemma fsm_unchanged:
  assumes "mesh_inv s" "map_of (mesh_stas s) a = Some p"
  shows "mpm (plink_state p) event (plink_state p) [] \<Longrightarrow> fsm_result env a event s p (Some s)"
    "mpm (plink_state p) event (plink_state p) [k] \<Longrightarrow> fsm_result env a event s p (mesh_plink_frame_tx env k a l q r s)"
  using assms by (auto simp: map_upd_triv intro!: fsm_no_frame [where p' = p] fsm_one_frame [where p' = p])

text \<open>Setting a station to a state that has no obligations.\<close>

lemma fsm_put:
  assumes "mesh_inv s" "map_of (mesh_stas s) a = Some p" "plink_state p \<noteq> PLINK_ESTAB"
    "plink_ok (mesh_cfg s) p'" "plink_state p' \<noteq> PLINK_ESTAB"
  shows "mpm (plink_state p) event (plink_state p') [] \<Longrightarrow> fsm_result env a event s p (Some (put_sta a p' s))"
    "mpm (plink_state p) event (plink_state p') [k] \<Longrightarrow>
       fsm_result env a event s p (mesh_plink_frame_tx env k a l q r (put_sta a p' s))"
  using put_sta_inv [OF assms(1,2,4)] assms(3,5)
  by (auto simp: update_conv' intro!: fsm_no_frame [where p' = p'] fsm_one_frame [where p' = p'])

lemma fsm_active:
  assumes "mesh_inv s" "map_of (mesh_stas s) a = Some p"
    "event \<in> {OPN_ACPT, CNF_ACPT} \<Longrightarrow> mesh_plink_free_count s \<noteq> 0"
    "plink_state p \<in> {PLINK_OPN_SNT, PLINK_OPN_RCVD, PLINK_CNF_RCVD}"
  shows "fsm_result env a event s p (mesh_plink_fsm env a event pl s p)"
proof -
  note ok = mesh_invD(2) [OF assms(1,2)]
  note est = establish_inv [OF assms(1,2)]
  consider "event \<in> {OPN_RJCT, CNF_RJCT, CLS_ACPT}" | "event = OPN_ACPT" | "event = CNF_ACPT"
    | "event \<in> {PLINK_UNDEFINED, OPN_IGNR, CNF_IGNR, CLS_IGNR}" by (cases event) simp_all
  then show ?thesis
  proof cases
    case 1
    then have "mesh_plink_fsm env a event pl s p = plink_give_up env a event pl s p"
      using assms(4) by (auto simp: mesh_plink_fsm_def)
    then show ?thesis using give_up_ok [OF assms(1,2,4) 1] by simp
  next
    case 4
    then have "mesh_plink_fsm env a event pl s p = Some s" using assms(4) by (auto simp: mesh_plink_fsm_def)
    moreover have "mpm (plink_state p) event (plink_state p) []"
      using 4 by (intro mpm_ignore) (simp add: mpm_ignores_def)
    ultimately show ?thesis using fsm_unchanged(1) [OF assms(1,2)] by simp
  next
    case 2
    then have free: "mesh_plink_free_count s \<noteq> 0" using assms(3) by simp
    consider "plink_state p = PLINK_OPN_SNT" | "plink_state p = PLINK_OPN_RCVD" | "plink_state p = PLINK_CNF_RCVD"
      using assms(4) by blast
    then show ?thesis
    proof cases
      case 1
      let ?p = "p\<lparr>plink_state := PLINK_OPN_RCVD, plid := pl\<rparr>"
      have "plink_ok (mesh_cfg s) ?p" using ok 1 by (simp add: plink_ok_def)
      moreover have "mpm (plink_state p) event (plink_state ?p) [MESH_CONFIRM]" using 1 2 mpm_opened by simp
      ultimately show ?thesis
        using fsm_put(2) [OF assms(1,2), of ?p event MESH_CONFIRM env "llid p" pl 0] 1 2 by (simp add: mesh_plink_fsm_def)
    next
      case a: 2
      have "mpm (plink_state p) event (plink_state p) [MESH_CONFIRM]" unfolding a 2 by (rule mpm_again) simp
      then show ?thesis
        using fsm_unchanged(2) [OF assms(1,2)] a 2 by (simp add: mesh_plink_fsm_def)
    next
      case 3
      let ?p = "p\<lparr>plink_timer := None, plink_state := PLINK_ESTAB\<rparr>"
      have "mpm (plink_state p) event (plink_state ?p) [MESH_CONFIRM]" using 3 2 mpm_open_last by simp
      moreover have "mesh_plink_fsm env a event pl s p =
          mesh_plink_frame_tx env MESH_CONFIRM a (stale_llid env) pl 0 (plink_establish a s p)"
        using 2 3 by (simp add: mesh_plink_fsm_def)
      ultimately show ?thesis
        using est 3 free by (auto simp: update_conv' intro!: fsm_one_frame [where p' = ?p])
    qed
  next
    case 3
    then have free: "mesh_plink_free_count s \<noteq> 0" using assms(3) by simp
    consider "plink_state p = PLINK_OPN_SNT" | "plink_state p = PLINK_OPN_RCVD" | "plink_state p = PLINK_CNF_RCVD"
      using assms(4) by blast
    then show ?thesis
    proof cases
      case 1
      define p' where "p' = (let p' = p\<lparr>plink_state := PLINK_CNF_RCVD,
          plink_timer := Some (timer_after s (ucast (dot11MeshConfirmTimeout (mesh_cfg s))))\<rparr> in
        if plink_timer p = None then p'\<lparr>ignore_plink_timer := True\<rparr> else p')"
      have st: "plink_state p' = PLINK_CNF_RCVD" by (simp add: p'_def Let_def)
      then have "plink_ok (mesh_cfg s) p'" by (simp add: plink_ok_simple)
      moreover have "mpm (plink_state p) event (plink_state p') []" unfolding st 1 3 by (rule mpm_confirmed)
      moreover have "mesh_plink_fsm env a event pl s p = Some (put_sta a p' s)"
        using 1 3 by (simp add: mesh_plink_fsm_def p'_def Let_def mod_plink_timer_def)
      ultimately show ?thesis using fsm_put(1) [OF assms(1,2), of p' event env] 1 st by simp
    next
      case a: 2
      let ?p = "p\<lparr>plink_timer := None, plink_state := PLINK_ESTAB\<rparr>"
      have "mpm (plink_state p) event (plink_state ?p) []" using 3 a mpm_confirm_last by simp
      moreover have "mesh_plink_fsm env a event pl s p = Some (plink_establish a s p)"
        using 3 a by (simp add: mesh_plink_fsm_def)
      ultimately show ?thesis
        using est a free by (auto simp: update_conv' intro!: fsm_no_frame [where p' = ?p])
    next
      case a: 3
      have "mpm (plink_state p) event (plink_state p) []" by (intro mpm_ignore) (simp add: a 3 mpm_ignores_def)
      then show ?thesis
        using fsm_unchanged(1) [OF assms(1,2)] a 3 by (simp add: mesh_plink_fsm_def)
    qed
  qed
qed

lemma fsm_estab:
  assumes "mesh_inv s" "map_of (mesh_stas s) a = Some p" "plink_state p = PLINK_ESTAB"
  shows "fsm_result env a event s p (mesh_plink_fsm env a event pl s p)"
proof -
  consider "event = CLS_ACPT" | "event = OPN_ACPT" | "mpm_ignores PLINK_ESTAB event"
    by (cases event) (simp_all add: mpm_ignores_def)
  then show ?thesis
  proof cases
    case 1
    let ?q = "p\<lparr>plink_reason := WLAN_REASON_MESH_CLOSE\<rparr>"
    obtain d p1 s1 where d: "mesh_plink_deactivate_locked a ?q s = (d, p1, s1)"
      by (cases "mesh_plink_deactivate_locked a ?q s")
    have d': "mesh_plink_deactivate_locked a p s = (d, p\<lparr>plink_state := PLINK_BLOCKED\<rparr>, s1)" "p1 = ?q\<lparr>plink_state := PLINK_BLOCKED\<rparr>"
      using d by (auto simp: mesh_plink_deactivate_locked_def Let_def)
    note D = deactivate_locked [OF assms(1,2) d'(1)]
    let ?p = "p1\<lparr>plink_state := PLINK_HOLDING,
      plink_timer := Some (timer_after s1 (ucast (dot11MeshHoldingTimeout (mesh_cfg s1))))\<rparr>"
    let ?s = "if d then log_mesh Beacon_changed (put_sta a ?p s1) else put_sta a ?p s1"
    have "mesh_inv (put_sta a ?p s1)" by (rule D(5)) (simp_all add: plink_ok_simple)
    then have i: "mesh_inv ?s" using mesh_same_inv [of "put_sta a ?p s1" "log_mesh Beacon_changed (put_sta a ?p s1)"] by simp
    have f: "mesh_plink_fsm env a event pl s p = mesh_plink_frame_tx env MESH_CLOSE a (llid p1) pl WLAN_REASON_MESH_CLOSE ?s"
      using 1 assms(3) d by (simp add: mesh_plink_fsm_def Let_def mod_plink_timer_def)
    have m: "mpm (plink_state p) event (plink_state ?p) [MESH_CLOSE]" using 1 assms(3) mpm_closed by simp
    have "mesh_cfg ?s = mesh_cfg s" "map_of (mesh_stas ?s) = (map_of (mesh_stas s))(a \<mapsto> ?p)"
      "sent_to a (mesh_log ?s) = sent_to a (mesh_log s)"
      using D(2-4) by (simp_all add: update_conv')
    then show ?thesis unfolding f by (rule fsm_one_frame [OF i _ _ _ m])
  next
    case 2
    have "mpm (plink_state p) event (plink_state p) [MESH_CONFIRM]" unfolding 2 assms(3) by (rule mpm_again) simp
    then show ?thesis
      using fsm_unchanged(2) [OF assms(1,2)] 2 assms(3) by (simp add: mesh_plink_fsm_def)
  next
    case 3
    then have "mesh_plink_fsm env a event pl s p = Some s" using assms(3) by (auto simp: mesh_plink_fsm_def mpm_ignores_def)
    then show ?thesis using fsm_unchanged(1) [OF assms(1,2)] mpm_ignore [OF 3] assms(3) by simp
  qed
qed

lemma fsm_holding:
  assumes "mesh_inv s" "map_of (mesh_stas s) a = Some p" "plink_state p = PLINK_HOLDING"
  shows "fsm_result env a event s p (mesh_plink_fsm env a event pl s p)"
proof -
  consider "event = CLS_ACPT" | "event \<in> {OPN_ACPT, CNF_ACPT, OPN_RJCT, CNF_RJCT}" | "mpm_ignores PLINK_HOLDING event"
    by (cases event) (simp_all add: mpm_ignores_def)
  then show ?thesis
  proof cases
    case 1
    define p' where "p' = mesh_plink_fsm_restart (let p' = p\<lparr>plink_timer := None\<rparr> in
      if plink_timer p \<noteq> None then p'\<lparr>ignore_plink_timer := True\<rparr> else p')"
    have st: "plink_state p' = PLINK_LISTEN" by (simp add: p'_def mesh_plink_fsm_restart_def)
    have "plink_ok (mesh_cfg s) p'" by (simp add: plink_ok_def p'_def mesh_plink_fsm_restart_def Let_def)
    moreover have "mpm (plink_state p) event (plink_state p') []" unfolding st 1 assms(3) by (rule mpm_released)
    moreover have "mesh_plink_fsm env a event pl s p = Some (put_sta a p' s)"
      using 1 assms(3) by (simp add: mesh_plink_fsm_def p'_def Let_def del_plink_timer_def)
    ultimately show ?thesis using fsm_put(1) [OF assms(1,2), of p' event env] assms(3) st by simp
  next
    case 2
    have "mpm (plink_state p) event (plink_state p) [MESH_CLOSE]" unfolding assms(3) using 2 by (rule mpm_refuse)
    then show ?thesis
      using fsm_unchanged(2) [OF assms(1,2)] 2 assms(3) by (auto simp: mesh_plink_fsm_def)
  next
    case 3
    then have "mesh_plink_fsm env a event pl s p = Some s" using assms(3) by (auto simp: mesh_plink_fsm_def mpm_ignores_def)
    then show ?thesis using fsm_unchanged(1) [OF assms(1,2)] mpm_ignore [OF 3] assms(3) by simp
  qed
qed

text \<open>Every state.\<close>

lemma mesh_plink_fsm_ok:
  assumes "mesh_inv s" "map_of (mesh_stas s) a = Some p"
    "event \<in> {OPN_ACPT, CNF_ACPT} \<Longrightarrow> mesh_plink_free_count s \<noteq> 0"
  shows "fsm_result env a event s p (mesh_plink_fsm env a event pl s p)"
proof (cases "plink_state p")
  case PLINK_BLOCKED
  then have "mesh_plink_fsm env a event pl s p = Some s" by (simp add: mesh_plink_fsm_def)
  moreover have "mpm (plink_state p) event (plink_state p) []"
    by (rule mpm_ignore) (simp add: PLINK_BLOCKED mpm_ignores_def)
  ultimately show ?thesis using fsm_unchanged(1) [OF assms(1,2)] by simp
qed (use assms fsm_listen fsm_active fsm_estab fsm_holding in simp_all)

section \<open>The other operations\<close>

definition mesh_ok :: "mesh_sys \<Rightarrow> mesh_sys option \<Rightarrow> bool" where
  "mesh_ok s res \<longleftrightarrow> (\<exists>s'. res = Some s' \<and> mesh_inv s' \<and> mesh_cfg s' = mesh_cfg s)"

lemma mesh_okI: "mesh_inv s' \<Longrightarrow> mesh_cfg s' = mesh_cfg s \<Longrightarrow> mesh_ok s (Some s')"
  by (simp add: mesh_ok_def)

lemma fsm_mesh_ok: "fsm_result env a event s p res \<Longrightarrow> mesh_ok s res"
  by (auto simp: fsm_result_def mesh_ok_def)

lemma tx_mesh_ok: "mesh_inv s' \<Longrightarrow> mesh_cfg s' = mesh_cfg s \<Longrightarrow> mesh_ok s (mesh_plink_frame_tx env k a l q r s')"
  by (rule frame_tx_ok [of s' env k a l q r]) (auto simp: mesh_inv_def mesh_ok_def mesh_same_def)

lemma log_inv [simp]: "mesh_inv (log_mesh x s) = mesh_inv s"
  by (simp add: mesh_inv_def)

lemma open_ok:
  assumes "mesh_inv s" "map_of (mesh_stas s) a = Some p"
  shows "mesh_ok s (map_option snd (mesh_plink_open env a p s))"
proof -
  let ?p = "p\<lparr>llid := ucast (rnd env)\<rparr>"
  have ok: "plink_ok (mesh_cfg s) p" using mesh_invD(2) [OF assms] .
  consider "\<not> sta_auth p" | "sta_auth p" "plink_state p \<noteq> PLINK_LISTEN" | "sta_auth p" "plink_state p = PLINK_LISTEN" by blast
  then show ?thesis
  proof cases
    case 1
    then show ?thesis using assms by (simp add: mesh_plink_open_def mesh_ok_def)
  next
    case 2
    have "plink_ok (mesh_cfg s) ?p" using ok by (simp add: plink_ok_def)
    then have "mesh_inv (put_sta a ?p s)" using put_sta_inv [OF assms] by simp
    then show ?thesis using 2 by (simp add: mesh_plink_open_def mesh_ok_def Let_def)
  next
    case 3
    let ?q = "?p\<lparr>plink_state := PLINK_OPN_SNT\<rparr>"
    obtain p' where p': "mesh_plink_timer_set s (dot11MeshRetryTimeout (mesh_cfg s)) ?q = Some p'" "plink_ok (mesh_cfg s) p'"
      "plink_state p' = PLINK_OPN_SNT" "llid p' = ucast (rnd env)"
      using timer_set_ok [OF assms(1), of ?q] ok 3 by (auto simp: plink_ok_def)
    then have i: "mesh_inv (put_sta a p' s)" using put_sta_inv [OF assms] 3 by simp
    then have "mesh_ok s (mesh_plink_frame_tx env MESH_OPEN a (llid p') 0 0 (put_sta a p' s))" by (simp add: tx_mesh_ok)
    then show ?thesis using 3 p' by (auto simp: mesh_plink_open_def mesh_ok_def)
  qed
qed

lemma block_ok:
  assumes "mesh_inv s" "map_of (mesh_stas s) a = Some p"
  shows "mesh_ok s (Some (mesh_plink_block a p s))" "mesh_ok s (mesh_plink_deactivate env a p s)"
proof -
  obtain d p1 s1 where d: "mesh_plink_deactivate_locked a p s = (d, p1, s1)"
    by (cases "mesh_plink_deactivate_locked a p s")
  note D = deactivate_locked [OF assms d]
  have i: "mesh_inv (put_sta a q s1)" if "plink_state q = PLINK_BLOCKED" for q
    by (rule D(5)) (simp_all add: that plink_ok_simple)
  show "mesh_ok s (Some (mesh_plink_block a p s))"
    using d D(3) i by (simp add: mesh_plink_block_def mesh_ok_def Let_def)
  let ?p = "p1\<lparr>plink_reason := WLAN_REASON_MESH_PEER_CANCELED\<rparr>"
  have "mesh_ok s (mesh_plink_frame_tx env MESH_CLOSE a (llid ?p) (plid ?p) (plink_reason ?p) (put_sta a ?p s1))"
    using i D(1,3) by (intro tx_mesh_ok) simp_all
  then show "mesh_ok s (mesh_plink_deactivate env a p s)"
    using d by (auto simp: mesh_plink_deactivate_def mesh_ok_def Let_def)
qed

text \<open>The retry interval stays below $2^{32}$ and above 0.\<close>

lemma retry_timeout:
  fixes t r :: u32 and n :: u8
  assumes "t \<noteq> 0" "unat t < 2 ^ (16 + unat n)" "unat n < 15"
  shows "t + r mod t \<noteq> 0" "unat (t + r mod t) < 2 ^ (16 + unat (n + 1))"
proof -
  have p: "0 < unat t" using assms(1) by (simp add: word_greater_zero_iff [symmetric] word_less_nat_alt)
  then have r: "unat (r mod t) < unat t" by (simp add: unat_mod_distrib)
  have "(2 :: nat) ^ (16 + unat n) \<le> 2 ^ 31" using assms(3) by (intro power_increasing) simp_all
  then have "unat t + unat (r mod t) < 2 ^ 32" using r assms(2) by simp
  then have sum: "unat (t + r mod t) = unat t + unat (r mod t)" by (simp add: unat_word_ariths)
  then show "t + r mod t \<noteq> 0" using p by auto
  have n: "unat (n + 1) = unat n + 1" using assms(3) by (simp add: unat_word_ariths)
  show "unat (t + r mod t) < 2 ^ (16 + unat (n + 1))" 
  proof -
    have "(2 :: nat) ^ (16 + (unat n + 1)) = 2 * 2 ^ (16 + unat n)" by (simp flip: power_Suc)
    then show ?thesis unfolding n sum using r assms(2) by linarith
  qed
qed

lemma timer_ok:
  assumes "mesh_inv s" "map_of (mesh_stas s) a = Some p"
  shows "mesh_ok s (mesh_plink_timer env a p s)"
proof -
  have ok: "plink_ok (mesh_cfg s) p" and c: "unat (dot11MeshMaxRetries (mesh_cfg s)) \<le> 15"
    using mesh_invD [OF assms(1)] assms(2) by (simp_all add: cfg_ok_def)
  have put: "mesh_inv (put_sta a q s)" if "plink_ok (mesh_cfg s) q" "(plink_state q = PLINK_ESTAB) = (plink_state p = PLINK_ESTAB)" for q
    by (rule put_sta_inv [OF assms that])
  have flags: "plink_ok (mesh_cfg s) (p\<lparr>plink_timer_was_running := True\<rparr>)" "plink_ok (mesh_cfg s) (p\<lparr>ignore_plink_timer := False\<rparr>)"
    using ok by (simp_all add: plink_ok_def)
  let ?act = "plink_state p = PLINK_OPN_RCVD \<or> plink_state p = PLINK_OPN_SNT"
  consider (off) "quiescing s \<or> ignore_plink_timer p"
    | (retry) "\<not> (quiescing s \<or> ignore_plink_timer p)" ?act "plink_retries p < dot11MeshMaxRetries (mesh_cfg s)"
    | (give_up) "\<not> (quiescing s \<or> ignore_plink_timer p)" "?act \<and> \<not> plink_retries p < dot11MeshMaxRetries (mesh_cfg s) \<or> plink_state p = PLINK_CNF_RCVD"
    | (release) "\<not> (quiescing s \<or> ignore_plink_timer p)" "plink_state p = PLINK_HOLDING"
    | (none) "\<not> (quiescing s \<or> ignore_plink_timer p)" "plink_state p \<in> {PLINK_LISTEN, PLINK_ESTAB, PLINK_BLOCKED}"
    by (cases "plink_state p") auto
  then show ?thesis
  proof cases
    case off
    then show ?thesis using put flags by (auto simp: mesh_plink_timer_def mesh_ok_def)
  next
    case retry
    let ?p = "p\<lparr>plink_timeout := plink_timeout p + rnd env mod plink_timeout p, plink_retries := plink_retries p + 1,
      plink_timer := Some (timer_after s (plink_timeout p + rnd env mod plink_timeout p))\<rparr>"
    have t: "plink_timeout p \<noteq> 0" "unat (plink_timeout p) < 2 ^ (16 + unat (plink_retries p))"
      using ok retry(2) by (auto simp: plink_ok_def)
    have n: "unat (plink_retries p) < 15" using retry(3) c by (simp add: word_less_nat_alt)
    have "plink_retries p + 1 \<le> dot11MeshMaxRetries (mesh_cfg s)" using retry(3) by (rule inc_le)
    then have "plink_ok (mesh_cfg s) ?p" using retry_timeout [OF t n] retry(2) by (auto simp: plink_ok_def)
    then have i: "mesh_inv (put_sta a ?p s)" using put by simp
    have "mesh_plink_timer env a p s = mesh_plink_frame_tx env MESH_OPEN a (llid ?p) 0 0 (put_sta a ?p s)"
      using retry t(1) by (simp add: mesh_plink_timer_def Let_def mod_plink_timer_def)
    then show ?thesis using tx_mesh_ok [OF i, of s env MESH_OPEN a "llid ?p" 0 0] by simp
  next
    case give_up
    let ?p = "p\<lparr>plink_state := PLINK_HOLDING, plink_timer := Some (timer_after s (ucast (dot11MeshHoldingTimeout (mesh_cfg s))))\<rparr>"
    let ?r = "if plink_state p = PLINK_CNF_RCVD then WLAN_REASON_MESH_CONFIRM_TIMEOUT else WLAN_REASON_MESH_MAX_RETRIES"
    have "mesh_inv (put_sta a ?p s)" using give_up(2) by (intro put) (auto simp: plink_ok_simple)
    then have "mesh_ok s (mesh_plink_frame_tx env MESH_CLOSE a (llid ?p) (plid ?p) ?r (put_sta a ?p s))"
      by (simp add: tx_mesh_ok)
    then show ?thesis using give_up by (auto simp: mesh_plink_timer_def Let_def mod_plink_timer_def)
  next
    case release
    let ?p = "mesh_plink_fsm_restart (p\<lparr>plink_timer := None\<rparr>)"
    have "mesh_inv (put_sta a ?p s)"
      using release(2) by (intro put) (simp_all add: plink_ok_def mesh_plink_fsm_restart_def)
    then show ?thesis using release by (simp add: mesh_plink_timer_def Let_def del_plink_timer_def mesh_ok_def)
  next
    case none
    then show ?thesis using assms by (auto simp: mesh_plink_timer_def mesh_ok_def)
  qed
qed

end
