(* ===== verification/Mesh_Runs.thy ===== *)
theory Mesh_Runs
  imports Mesh_Inv Custody
begin

text \<open>
  Reception of peering frames: it reads only inside the frame and hands the protocol an event that
  respects the number of free links; and the contract of the interface for all its operations.
\<close>

section \<open>Reading a frame\<close>

text \<open>Frames as the dispatcher hands them on; a CONFIRM must be long enough for its fixed part.\<close>

definition plink_frame_ok :: "u8 list \<Rightarrow> bool" where
  "plink_frame_ok frame \<longleftrightarrow> length frame < 4096 \<and>
     (28 \<le> length frame \<longrightarrow> frame ! 25 \<in> {MESH_OPEN, MESH_CONFIRM, MESH_CLOSE}) \<and>
     (30 \<le> length frame \<or> frame ! 25 \<noteq> MESH_CONFIRM \<or> length frame < 28)"

definition elems_in :: "u8 list \<Rightarrow> elems \<Rightarrow> bool" where
  "elems_in frame e \<longleftrightarrow> (\<forall>f p. el_ptr e f = Some p \<longrightarrow>
     p + unat (el_len e f) \<le> length frame \<and> p + elem_size f \<le> length frame)"

lemma elems_inD:
  assumes "elems_in frame e" "el_ptr e f = Some p"
  shows "p + unat (el_len e f) \<le> length frame" "p + elem_size f \<le> length frame"
  using assms by (auto simp: elems_in_def)

lemma le16_at_in: "p + 2 \<le> length b \<Longrightarrow> \<exists>w. le16_at b p = Some w"
  by (simp add: le16_at_def)

lemma mesh_plink_parse_ok:
  assumes "plink_frame_ok frame"
  shows "\<exists>r. mesh_plink_parse c frame = Some r \<and> (\<forall>m. r = Some m \<longrightarrow> elems_in frame (pm_elems m) \<and>
     pm_ftype m \<in> {MESH_OPEN, MESH_CONFIRM, MESH_CLOSE} \<and>
     (pm_ftype m \<noteq> MESH_CLOSE \<longrightarrow> el_ptr (pm_elems m) F_mesh_id \<noteq> None \<and> el_ptr (pm_elems m) F_mesh_config \<noteq> None))"
proof (cases "length frame < 28 \<or> frame ! 4 AND 1 \<noteq> 0")
  case True
  then show ?thesis by (cases "length frame < 28") (simp_all add: mesh_plink_parse_def)
next
  case False
  then have len: "28 \<le> length frame" "length frame < 4096" and da: "frame ! 4 AND 1 = 0"
    using assms by (simp_all add: plink_frame_ok_def)
  let ?ft = "frame ! 25" and ?base = "if frame ! 25 = MESH_CONFIRM then 30 else 26 :: nat"
  have ft: "?ft \<in> {MESH_OPEN, MESH_CONFIRM, MESH_CLOSE}" and b: "?base \<le> length frame"
    using assms len by (auto simp: plink_frame_ok_def)
  have sz: "unat (of_int (int (length frame) - int ?base) :: u64) = length frame - ?base"
  proof -
    have "(of_int (int (length frame) - int ?base) :: u64) = of_nat (length frame - ?base)"
      using b by (simp only: of_nat_diff [symmetric] of_int_of_nat_eq)
    then show ?thesis using len by (simp add: unat_of_nat take_bit_nat_eq_self)
  qed
  obtain e where e: "ieee802_11_parse_elems frame ?base (length frame - ?base) = Some e" "elems_in frame e"
    using elems_in_frame [of ?base "length frame - ?base" frame] b by (auto simp: elems_in_def)
  have rd': "rd frame 4 = Some (frame ! 4)" "rd frame 25 = Some (frame ! 25)" "(length frame < 25 + 3) = False"
    "(frame ! 4 AND 1 \<noteq> 0) = False"
    using len da by simp_all
  note steps = rd' if_False Option.bind.simps sz e(1)
  show ?thesis
  proof (cases "el_ptr e F_peering")
    case None
    then have "mesh_plink_parse c frame = Some None"
      unfolding mesh_plink_parse_def Let_def by (simp only: steps None option.case)
    then show ?thesis by simp
  next
    case (Some p)
    let ?n = "el_len e F_peering"
    let ?a = "el_len e F_rsn \<noteq> 0 \<and> mesh_security c = 0"
    let ?b = "?ft = MESH_OPEN \<and> ?n \<noteq> 4 \<or> ?ft = MESH_CONFIRM \<and> ?n \<noteq> 6 \<or> ?ft = MESH_CLOSE \<and> ?n \<noteq> 6 \<and> ?n \<noteq> 8"
    let ?c = "?ft \<noteq> MESH_CLOSE \<and> (el_ptr e F_mesh_id = None \<or> el_ptr e F_mesh_config = None)"
    have eq: "mesh_plink_parse c frame = (if ?a then Some None else if ?b then Some None else if ?c then Some None
      else do {
        pl \<leftarrow> le16_at frame (p + 2);
        ll \<leftarrow> (if ?ft = MESH_CONFIRM \<or> ?ft = MESH_CLOSE \<and> ?n = 8 then map_option Some (le16_at frame (p + 4)) else Some None);
        Some (Some \<lparr>pm_ftype = ?ft, pm_ie_len = ?n, pm_plid = pl, pm_llid = ll, pm_elems = e, pm_sa = take 6 (drop 10 frame)\<rparr>) })"
      unfolding mesh_plink_parse_def Let_def by (simp only: steps Some option.case)
    show ?thesis
    proof (cases "?a \<or> ?b \<or> ?c")
      case True
      then have "mesh_plink_parse c frame = Some None" unfolding eq by (metis (no_types, lifting))
      then show ?thesis by simp
    next
      case False
      then have ok: "\<not> ?a" "\<not> ?b" "\<not> ?c" by blast+
      have n: "?n = 4 \<or> ?n = 6 \<or> ?n = 8" "?ft \<noteq> MESH_OPEN \<Longrightarrow> ?n = 6 \<or> ?n = 8" using ok(2) ft by auto
      then have "4 \<le> unat ?n" "?ft \<noteq> MESH_OPEN \<Longrightarrow> 6 \<le> unat ?n" by auto
      then have in': "p + 4 \<le> length frame" "?ft \<noteq> MESH_OPEN \<Longrightarrow> p + 6 \<le> length frame"
        using elems_inD(1) [OF e(2) Some] by fastforce+
      obtain pl where pl: "le16_at frame (p + 2) = Some pl" using le16_at_in [of "p + 2" frame] in'(1) by auto
      have "\<exists>ll. (if ?ft = MESH_CONFIRM \<or> ?ft = MESH_CLOSE \<and> ?n = 8 then map_option Some (le16_at frame (p + 4)) else Some None) = Some ll"
        using le16_at_in [of "p + 4" frame] in'(2) by (auto simp: MESH_OPEN_def MESH_CONFIRM_def MESH_CLOSE_def)
      then obtain ll where ll: "(if ?ft = MESH_CONFIRM \<or> ?ft = MESH_CLOSE \<and> ?n = 8
          then map_option Some (le16_at frame (p + 4)) else Some None) = Some ll" by blast
      have "mesh_plink_parse c frame = Some (Some \<lparr>pm_ftype = ?ft, pm_ie_len = ?n, pm_plid = pl, pm_llid = ll, pm_elems = e,
          pm_sa = take 6 (drop 10 frame)\<rparr>)"
        unfolding eq if_not_P [OF ok(1)] if_not_P [OF ok(2)] if_not_P [OF ok(3)] by (simp only: pl ll Option.bind.simps)
      then show ?thesis using e(2) ft ok(3) by auto
    qed
  qed
qed

lemma mesh_matches_local_ok:
  assumes "elems_in frame e" "el_ptr e F_mesh_id \<noteq> None" "el_ptr e F_mesh_config \<noteq> None"
  shows "\<exists>b. mesh_matches_local c frame e = Some b"
proof -
  obtain i k where ik: "el_ptr e F_mesh_id = Some i" "el_ptr e F_mesh_config = Some k" using assms by auto
  have "i + unat (el_len e F_mesh_id) \<le> length frame" "k + 7 \<le> length frame"
    using elems_inD [OF assms(1) ik(1)] elems_inD [OF assms(1) ik(2)] by (simp_all add: elem_size_def sized_elems_def)
  then show ?thesis by (auto simp: mesh_matches_local_def ik Let_def intro: exI [of _ False])
qed

section \<open>Reception\<close>

lemma event_of_free:
  "plink_event_of s p m matches = Some event \<Longrightarrow> event \<in> {OPN_ACPT, CNF_ACPT} \<Longrightarrow> mesh_plink_free_count s \<noteq> 0"
  by (auto simp: plink_event_of_def split: if_splits)

text \<open>A known station whose frames are not ignored: reception is a step of the protocol.\<close>

lemma rx_known:
  assumes "mesh_inv s" "mesh_plink_parse (mesh_cfg s) frame = Some (Some m)"
    "map_of (mesh_stas s) (pm_sa m) = Some p" "sta_auth p" "plink_state p \<noteq> PLINK_BLOCKED"
    "(if pm_ftype m \<noteq> MESH_CLOSE then mesh_matches_local (mesh_cfg s) frame (pm_elems m) else Some True) = Some matches"
    "plink_event_of s p m matches = Some event"
  shows "fsm_result env (pm_sa m) event s p (mesh_rx_plink_frame env frame s)"
proof -
  have "mesh_rx_plink_frame env frame s = mesh_plink_fsm env (pm_sa m) event (pm_plid m) s p"
    unfolding mesh_rx_plink_frame_def Let_def using assms(2-7) by simp
  then show ?thesis using mesh_plink_fsm_ok [OF assms(1,3)] event_of_free [OF assms(7)] by simp
qed

lemma rx_ok:
  assumes "mesh_inv s" "plink_frame_ok frame"
  shows "mesh_ok s (mesh_rx_plink_frame env frame s)"
proof -
  have stay: "mesh_ok s (Some s)" using assms(1) by (simp add: mesh_okI)
  obtain r where r: "mesh_plink_parse (mesh_cfg s) frame = Some r" "\<And>m. r = Some m \<Longrightarrow> elems_in frame (pm_elems m) \<and>
     pm_ftype m \<in> {MESH_OPEN, MESH_CONFIRM, MESH_CLOSE} \<and>
     (pm_ftype m \<noteq> MESH_CLOSE \<longrightarrow> el_ptr (pm_elems m) F_mesh_id \<noteq> None \<and> el_ptr (pm_elems m) F_mesh_config \<noteq> None)"
    using mesh_plink_parse_ok [OF assms(2), of "mesh_cfg s"] by blast
  show ?thesis
  proof (cases r)
    case None
    then show ?thesis using r(1) stay by (simp add: mesh_rx_plink_frame_def)
  next
    case (Some m)
    have m: "mesh_plink_parse (mesh_cfg s) frame = Some (Some m)" using r(1) Some by simp
    obtain matches where ma: "(if pm_ftype m \<noteq> MESH_CLOSE then mesh_matches_local (mesh_cfg s) frame (pm_elems m) else Some True) = Some matches"
    proof (cases "pm_ftype m = MESH_CLOSE")
      case False
      then show ?thesis
        using that r(2) [OF Some] mesh_matches_local_ok [of frame "pm_elems m" "mesh_cfg s"] by (metis (no_types, lifting))
    qed simp
    show ?thesis
    proof (cases "map_of (mesh_stas s) (pm_sa m)")
      case sta: (Some p)
      show ?thesis
      proof (cases "\<not> sta_auth p \<or> plink_state p = PLINK_BLOCKED")
        case True
        then show ?thesis using m sta stay by (simp add: mesh_rx_plink_frame_def)
      next
        case False
        show ?thesis
        proof (cases "plink_event_of s p m matches")
          case None
          then show ?thesis using m sta False ma stay by (simp add: mesh_rx_plink_frame_def)
        next
          case (Some event)
          then show ?thesis using rx_known [OF assms(1) m sta _ _ ma] False by (intro fsm_mesh_ok) blast
        qed
      qed
    next
      case none: None
      show ?thesis
      proof (cases "pm_ftype m = MESH_OPEN")
        case False
        then show ?thesis using m none stay by (simp add: mesh_rx_plink_frame_def)
      next
        case True
        then have ma': "mesh_matches_local (mesh_cfg s) frame (pm_elems m) = Some matches"
          using ma by (simp add: MESH_OPEN_def MESH_CLOSE_def)
        have rx: "mesh_rx_plink_frame env frame s =
           (if \<not> matches then mesh_plink_frame_tx env MESH_CLOSE (pm_sa m) 0 (pm_plid m) WLAN_REASON_MESH_CONFIG s
            else if mesh_plink_free_count s = 0 then Some s
            else (case mesh_plink_alloc env s of
                None \<Rightarrow> Some s
              | Some p \<Rightarrow> (case sta_info_insert env (pm_sa m) p s of
                  None \<Rightarrow> Some s
                | Some s \<Rightarrow> mesh_plink_fsm env (pm_sa m) OPN_ACPT (pm_plid m) s p)))"
          using m none True ma' by (simp add: mesh_rx_plink_frame_def MESH_OPEN_def MESH_CLOSE_def)
        show ?thesis
        proof (cases "matches \<and> mesh_plink_free_count s \<noteq> 0")
          case False
          then show ?thesis using rx stay tx_mesh_ok [OF assms(1)] by auto
        next
          case free: True
          show ?thesis
          proof (cases "mesh_plink_alloc env s")
            case None
            then show ?thesis using rx free stay by simp
          next
            case (Some p)
            then have p: "plink_state p = PLINK_LISTEN" "plink_ok (mesh_cfg s) p"
              by (auto simp: mesh_plink_alloc_def new_sta_def plink_ok_def split: if_splits)
            show ?thesis
            proof (cases "sta_info_insert env (pm_sa m) p s")
              case None
              then show ?thesis using rx free Some stay by simp
            next
              case (Some s1)
              note ins = insert_inv [OF assms(1) none Some p]
              have "mesh_plink_free_count s1 \<noteq> 0" using free ins(3,4) by (simp add: mesh_plink_free_count_def)
              then have "fsm_result env (pm_sa m) OPN_ACPT s1 p (mesh_plink_fsm env (pm_sa m) OPN_ACPT (pm_plid m) s1 p)"
                using ins by (intro mesh_plink_fsm_ok) simp_all
              then have "mesh_ok s1 (mesh_plink_fsm env (pm_sa m) OPN_ACPT (pm_plid m) s1 p)" by (rule fsm_mesh_ok)
              then show ?thesis
                using rx free Some \<open>mesh_plink_alloc env s = Some p\<close> ins(3) by (auto simp: mesh_ok_def)
            qed
          qed
        qed
      qed
    qed
  qed
qed

text \<open>A beacon of a neighbour with its mesh configuration.\<close>

lemma neighbour_ok:
  assumes "mesh_inv s" "mesh_peer_accepts_plinks frame e \<noteq> None"
  shows "mesh_ok s (mesh_neighbour_update env a frame e s)"
proof -
  obtain acc where acc: "mesh_peer_accepts_plinks frame e = Some acc" using assms(2) by auto
  have found: "mesh_ok s (if acc \<and> plink_state p = PLINK_LISTEN \<and> accepting_plinks t \<and> auto_open_plinks (mesh_cfg t)
      then map_option snd (mesh_plink_open env a p t) else Some t)"
    if "mesh_inv t" "mesh_cfg t = mesh_cfg s" "map_of (mesh_stas t) a = Some p" for t p
    using open_ok [OF that(1,3), of env] that(1,2) by (auto simp: mesh_ok_def)
  have stay: "mesh_ok s (Some s)" "mesh_ok s (Some (log_mesh (New_peer_candidate a) s))"
    using assms(1) by (simp_all add: mesh_okI)
  show ?thesis
  proof (cases "map_of (mesh_stas s) a")
    case (Some p)
    then show ?thesis using found [OF assms(1) refl Some] acc by (simp add: mesh_neighbour_update_def)
  next
    case none: None
    show ?thesis
    proof (cases "mesh_security (mesh_cfg s) AND 1 \<noteq> 0")
      case True
      then show ?thesis using none stay by (simp add: mesh_neighbour_update_def)
    next
      case sec: False
      show ?thesis
      proof (cases "mesh_plink_alloc env s")
        case None
        then show ?thesis using none sec stay by (simp add: mesh_neighbour_update_def)
      next
        case (Some p)
        then have p: "plink_state p = PLINK_LISTEN" "plink_ok (mesh_cfg s) p"
          by (auto simp: mesh_plink_alloc_def new_sta_def plink_ok_def split: if_splits)
        show ?thesis
        proof (cases "sta_info_insert env a p s")
          case None
          then show ?thesis using none sec Some stay by (simp add: mesh_neighbour_update_def)
        next
          case (Some s1)
          note ins = insert_inv [OF assms(1) none Some p]
          have "mesh_neighbour_update env a frame e s =
              (if acc \<and> plink_state p = PLINK_LISTEN \<and> accepting_plinks s1 \<and> auto_open_plinks (mesh_cfg s1)
               then map_option snd (mesh_plink_open env a p s1) else Some s1)"
            using none sec Some \<open>mesh_plink_alloc env s = Some p\<close> acc by (simp add: mesh_neighbour_update_def)
          then show ?thesis using found [OF ins(1,3)] ins(2) by simp
        qed
      qed
    qed
  qed
qed

section \<open>The contract\<close>

fun mesh_op_ok :: "mesh_op \<Rightarrow> mesh_sys \<Rightarrow> bool" where
  "mesh_op_ok (Mesh_rx env frame) s = plink_frame_ok frame"
| "mesh_op_ok (Mesh_neighbour env a frame e) s = (mesh_peer_accepts_plinks frame e \<noteq> None)"
| "mesh_op_ok _ s = True"

lemma mesh_step_ok:
  assumes "mesh_inv s" "mesh_op_ok x s"
  shows "\<exists>s'. mesh_step x s = Some s' \<and> mesh_inv s'"
proof -
  have on: "mesh_ok s (on_sta a s f)" if "\<And>p. map_of (mesh_stas s) a = Some p \<Longrightarrow> mesh_ok s (f p)" for a f
    using that assms(1) by (auto simp: on_sta_def mesh_okI split: option.split)
  have due: "mesh_inv (s\<lparr>mesh_due := d\<rparr>) = mesh_inv s" "mesh_stas (s\<lparr>mesh_due := d\<rparr>) = mesh_stas s" for d
    by (simp_all add: mesh_inv_def)
  have "mesh_ok s (mesh_step x s)"
  proof (cases x)
    case (Mesh_rx env frame)
    then show ?thesis using rx_ok assms by simp
  next
    case (Mesh_neighbour env a frame e)
    then show ?thesis using neighbour_ok assms by simp
  next
    case (Mesh_open env a)
    then show ?thesis using on open_ok [OF assms(1)] by simp
  next
    case (Mesh_block a)
    then show ?thesis using on block_ok(1) [OF assms(1)] by simp
  next
    case (Mesh_deactivate env a)
    then show ?thesis using on block_ok(2) [OF assms(1)] by simp
  next
    case (Mesh_expire a)
    have "mesh_inv (put_sta a (p\<lparr>plink_timer := None\<rparr>) s)" if "map_of (mesh_stas s) a = Some p" for p
      by (rule put_sta_inv [OF assms(1) that]) (use mesh_invD(2) [OF assms(1) that] in \<open>simp_all add: plink_ok_def\<close>)
    then show ?thesis unfolding Mesh_expire mesh_step.simps using assms(1)
      by (intro on) (auto simp: mesh_ok_def mesh_inv_def)
  next
    case (Mesh_timer env a)
    have "mesh_ok s (if a \<in> set (mesh_due s) then mesh_plink_timer env a p (s\<lparr>mesh_due := remove1 a (mesh_due s)\<rparr>) else Some s)"
      if "map_of (mesh_stas s) a = Some p" for p
      using timer_ok [of "s\<lparr>mesh_due := remove1 a (mesh_due s)\<rparr>" a p env] that assms(1)
      by (simp add: due mesh_ok_def)
    then show ?thesis unfolding Mesh_timer mesh_step.simps by (rule on)
  next
    case (Mesh_tick n)
    then show ?thesis using assms(1) by (simp add: mesh_ok_def mesh_inv_def)
  qed
  then show ?thesis by (auto simp: mesh_ok_def)
qed

interpretation mesh: safe_steps mesh_inv mesh_op_ok mesh_step
  by unfold_locales (rule mesh_step_ok)

end
