(* ===== verification/Mesh_Timers.thy ===== *)
theory Mesh_Timers
  imports Mesh_Runs
begin

text \<open>
  The timer of a link while the peer does not answer: each expiry sends the OPEN again, until the
  retries are used up; then the link is held, and released by the next expiry.
\<close>

section \<open>One expiry\<close>

lemma run_ops_append: "run_ops step (xs @ ys) s = do { t \<leftarrow> run_ops step xs s; run_ops step ys t }"
proof (induction xs arbitrary: s)
  case (Cons x xs)
  then show ?case by (cases "step x s") simp_all
qed simp

lemma run_ops_last [simp]: "m \<bind> run_ops step [] = m"
  by (cases m) simp_all

text \<open>A link in state \<open>q\<close> after \<open>r\<close> retries, whose timer is pending and will be served.\<close>

definition link_waits :: "mac \<Rightarrow> plink_state \<Rightarrow> u8 \<Rightarrow> mesh_sys \<Rightarrow> bool" where
  "link_waits a q r s \<longleftrightarrow> mesh_inv s \<and> \<not> quiescing s \<and> a \<notin> set (mesh_due s) \<and>
     (\<exists>p. map_of (mesh_stas s) a = Some p \<and> plink_state p = q \<and> plink_retries p = r \<and> plink_timer p \<noteq> None \<and>
        \<not> ignore_plink_timer p)"

text \<open>The frames sent to the station, and that nothing else changed.\<close>

definition link_sent :: "mac \<Rightarrow> u8 list \<Rightarrow> mesh_sys \<Rightarrow> mesh_sys \<Rightarrow> bool" where
  "link_sent a fs s s' \<longleftrightarrow> mesh_cfg s' = mesh_cfg s \<and> estab_plinks s' = estab_plinks s \<and>
     (\<forall>b. b \<noteq> a \<longrightarrow> map_of (mesh_stas s') b = map_of (mesh_stas s) b) \<and>
     sent_to a (mesh_log s') = sent_to a (mesh_log s) @ fs"

lemma link_sent_trans: "link_sent a fs s t \<Longrightarrow> link_sent a gs t u \<Longrightarrow> link_sent a (fs @ gs) s u"
  by (simp add: link_sent_def)

abbreviation expire :: "mac \<Rightarrow> plink_env \<Rightarrow> mesh_op list" where
  "expire a env \<equiv> [Mesh_expire a, Mesh_timer env a]"

lemma put_put_sta: "map_of (mesh_stas (put_sta a q (put_sta a p s))) = (map_of (mesh_stas s))(a \<mapsto> q)"
  by (simp add: update_conv')

lemma expire_runs:
  assumes "link_waits a q r s" "map_of (mesh_stas s) a = Some p"
  shows "run_ops mesh_step (expire a env) s =
      mesh_plink_timer env a (p\<lparr>plink_timer := None\<rparr>) (put_sta a (p\<lparr>plink_timer := None\<rparr>) s)"
    "mesh_inv (put_sta a (p\<lparr>plink_timer := None\<rparr>) s)"
proof -
  have w: "a \<notin> set (mesh_due s)" "plink_timer p \<noteq> None" "mesh_inv s" using assms by (auto simp: link_waits_def)
  let ?s = "(put_sta a (p\<lparr>plink_timer := None\<rparr>) s)\<lparr>mesh_due := a # mesh_due s\<rparr>"
  have e: "mesh_step (Mesh_expire a) s = Some ?s" using w assms(2) by (simp add: on_sta_def)
  have "map_of (mesh_stas ?s) a = Some (p\<lparr>plink_timer := None\<rparr>)" by (simp add: update_conv')
  moreover have "?s\<lparr>mesh_due := remove1 a (mesh_due ?s)\<rparr> = put_sta a (p\<lparr>plink_timer := None\<rparr>) s" by (simp add: put_sta_def)
  ultimately have "mesh_step (Mesh_timer env a) ?s =
      mesh_plink_timer env a (p\<lparr>plink_timer := None\<rparr>) (put_sta a (p\<lparr>plink_timer := None\<rparr>) s)"
    by (simp add: on_sta_def)
  then show "run_ops mesh_step (expire a env) s =
      mesh_plink_timer env a (p\<lparr>plink_timer := None\<rparr>) (put_sta a (p\<lparr>plink_timer := None\<rparr>) s)"
    using e by (simp del: mesh_step.simps)
  have "plink_ok (mesh_cfg s) (p\<lparr>plink_timer := None\<rparr>)" using mesh_invD(2) [OF w(3) assms(2)] by (simp add: plink_ok_def)
  then show "mesh_inv (put_sta a (p\<lparr>plink_timer := None\<rparr>) s)" using put_sta_inv [OF w(3) assms(2)] by simp
qed

text \<open>What is left to show of a state in which a frame has been sent.\<close>

lemma link_sentI:
  assumes "link_waits a q0 r0 s" "mesh_same (put_sta a p' (put_sta a p s)) s'" "sent_to a (mesh_log s') = sent_to a (mesh_log s) @ fs"
    "mesh_inv s'" "plink_state p' = q" "plink_retries p' = r" "plink_timer p' \<noteq> None" "\<not> ignore_plink_timer p'"
  shows "link_waits a q r s' \<and> link_sent a fs s s'"
proof -
  have m: "map_of (mesh_stas s') = (map_of (mesh_stas s))(a \<mapsto> p')" using assms(2) put_put_sta [of a p' p s] by (simp add: mesh_same_def)
  have "mesh_due s' = mesh_due s" "quiescing s' = quiescing s" "mesh_cfg s' = mesh_cfg s" "estab_plinks s' = estab_plinks s"
    using assms(2) by (simp_all add: mesh_same_def put_sta_def)
  then show ?thesis using assms m by (auto simp: link_waits_def link_sent_def)
qed

lemma expire_retries:
  assumes "link_waits a PLINK_OPN_SNT r s" "r < dot11MeshMaxRetries (mesh_cfg s)" "skb_ok env"
  shows "\<exists>s'. run_ops mesh_step (expire a env) s = Some s' \<and> link_waits a PLINK_OPN_SNT (r + 1) s' \<and> link_sent a [MESH_OPEN] s s'"
proof -
  obtain p where p: "map_of (mesh_stas s) a = Some p" "plink_state p = PLINK_OPN_SNT" "plink_retries p = r"
    "\<not> ignore_plink_timer p" "\<not> quiescing s" "mesh_inv s" using assms(1) by (auto simp: link_waits_def)
  note E = expire_runs(1) [OF assms(1) p(1), of env] expire_runs(2) [OF assms(1) p(1)]
  let ?p = "p\<lparr>plink_timer := None\<rparr>" and ?s = "put_sta a (p\<lparr>plink_timer := None\<rparr>) s"
  have m: "map_of (mesh_stas ?s) a = Some ?p" by (simp add: update_conv')
  obtain s' where s': "mesh_plink_timer env a ?p ?s = Some s'" "mesh_inv s'" using timer_ok [OF E(2) m] by (auto simp: mesh_ok_def)
  have t: "plink_timeout p \<noteq> 0" using mesh_invD(2) [OF p(6,1)] p(2) by (simp add: plink_ok_def)
  let ?q = "?p\<lparr>plink_timeout := plink_timeout p + rnd env mod plink_timeout p, plink_retries := r + 1,
      plink_timer := Some (timer_after ?s (plink_timeout p + rnd env mod plink_timeout p))\<rparr>"
  have "mesh_plink_timer env a ?p ?s = mesh_plink_frame_tx env MESH_OPEN a (llid p) 0 0 (put_sta a ?q ?s)"
    using p assms(2) t by (simp add: mesh_plink_timer_def Let_def mod_plink_timer_def put_sta_def)
  moreover have "cfg_ok (mesh_cfg (put_sta a ?q ?s))" using p(6) by (simp add: mesh_inv_def)
  then obtain s2 where "mesh_plink_frame_tx env MESH_OPEN a (llid p) 0 0 (put_sta a ?q ?s) = Some s2" "mesh_same (put_sta a ?q ?s) s2"
    "sent_to a (mesh_log s2) = sent_to a (mesh_log (put_sta a ?q ?s)) @ (if skb_ok env then [MESH_OPEN] else [])" by (rule frame_tx_ok)
  ultimately have "mesh_same (put_sta a ?q ?s) s'" "sent_to a (mesh_log s') = sent_to a (mesh_log s) @ [MESH_OPEN]"
    using s'(1) assms(3) by simp_all
  from link_sentI [OF assms(1) this s'(2)] p(2,4) show ?thesis unfolding E(1) using s'(1) by simp
qed

lemma expire_gives_up:
  assumes "link_waits a PLINK_OPN_SNT r s" "\<not> r < dot11MeshMaxRetries (mesh_cfg s)" "skb_ok env"
  shows "\<exists>s'. run_ops mesh_step (expire a env) s = Some s' \<and> link_waits a PLINK_HOLDING r s' \<and> link_sent a [MESH_CLOSE] s s'"
proof -
  obtain p where p: "map_of (mesh_stas s) a = Some p" "plink_state p = PLINK_OPN_SNT" "plink_retries p = r"
    "\<not> ignore_plink_timer p" "\<not> quiescing s" "mesh_inv s" using assms(1) by (auto simp: link_waits_def)
  note E = expire_runs(1) [OF assms(1) p(1), of env] expire_runs(2) [OF assms(1) p(1)]
  let ?p = "p\<lparr>plink_timer := None\<rparr>" and ?s = "put_sta a (p\<lparr>plink_timer := None\<rparr>) s"
  have m: "map_of (mesh_stas ?s) a = Some ?p" by (simp add: update_conv')
  obtain s' where s': "mesh_plink_timer env a ?p ?s = Some s'" "mesh_inv s'" using timer_ok [OF E(2) m] by (auto simp: mesh_ok_def)
  let ?q = "?p\<lparr>plink_state := PLINK_HOLDING, plink_timer := Some (timer_after ?s (ucast (dot11MeshHoldingTimeout (mesh_cfg s))))\<rparr>"
  have "mesh_plink_timer env a ?p ?s = mesh_plink_frame_tx env MESH_CLOSE a (llid p) (plid p) WLAN_REASON_MESH_MAX_RETRIES (put_sta a ?q ?s)"
    using p assms(2) by (simp add: mesh_plink_timer_def Let_def mod_plink_timer_def put_sta_def)
  moreover have "cfg_ok (mesh_cfg (put_sta a ?q ?s))" using p(6) by (simp add: mesh_inv_def)
  then obtain s2 where "mesh_plink_frame_tx env MESH_CLOSE a (llid p) (plid p) WLAN_REASON_MESH_MAX_RETRIES (put_sta a ?q ?s) = Some s2"
    "mesh_same (put_sta a ?q ?s) s2"
    "sent_to a (mesh_log s2) = sent_to a (mesh_log (put_sta a ?q ?s)) @ (if skb_ok env then [MESH_CLOSE] else [])" by (rule frame_tx_ok)
  ultimately have "mesh_same (put_sta a ?q ?s) s'" "sent_to a (mesh_log s') = sent_to a (mesh_log s) @ [MESH_CLOSE]"
    using s'(1) assms(3) by simp_all
  from link_sentI [OF assms(1) this s'(2)] p(3,4) show ?thesis unfolding E(1) using s'(1) by simp
qed

lemma expire_releases:
  assumes "link_waits a PLINK_HOLDING r s"
  shows "\<exists>s' p'. run_ops mesh_step (expire a env) s = Some s' \<and> mesh_inv s' \<and> link_sent a [] s s' \<and>
     map_of (mesh_stas s') a = Some p' \<and> plink_state p' = PLINK_LISTEN \<and> plink_timer p' = None \<and> llid p' = 0 \<and> plid p' = 0"
proof -
  obtain p where p: "map_of (mesh_stas s) a = Some p" "plink_state p = PLINK_HOLDING" "\<not> ignore_plink_timer p" "\<not> quiescing s"
    using assms(1) by (auto simp: link_waits_def)
  note E = expire_runs(1) [OF assms(1) p(1), of env] expire_runs(2) [OF assms(1) p(1)]
  let ?p = "p\<lparr>plink_timer := None\<rparr>" and ?s = "put_sta a (p\<lparr>plink_timer := None\<rparr>) s"
  have m: "map_of (mesh_stas ?s) a = Some ?p" by (simp add: update_conv')
  obtain s' where s': "mesh_plink_timer env a ?p ?s = Some s'" "mesh_inv s'" using timer_ok [OF E(2) m] by (auto simp: mesh_ok_def)
  have "mesh_plink_timer env a ?p ?s = Some (put_sta a (mesh_plink_fsm_restart ?p) ?s)"
    using p by (simp add: mesh_plink_timer_def Let_def del_plink_timer_def put_sta_def)
  then show ?thesis using s' unfolding E(1) by (auto simp: link_sent_def update_conv' mesh_plink_fsm_restart_def)
qed

section \<open>An attempt that is not answered\<close>

definition expire_all :: "mac \<Rightarrow> plink_env list \<Rightarrow> mesh_op list" where
  "expire_all a envs = concat (map (expire a) envs)"

lemma expire_all_simps [simp]: "expire_all a [] = []" "expire_all a (e # es) = expire a e @ expire_all a es"
  by (simp_all add: expire_all_def)

lemma retries_end:
  assumes "link_waits a PLINK_OPN_SNT r s" "unat r + n = unat (dot11MeshMaxRetries (mesh_cfg s))"
    "length envs = n + 2" "\<forall>e \<in> set envs. skb_ok e"
  shows "\<exists>s' p'. run_ops mesh_step (expire_all a envs) s = Some s' \<and> mesh_inv s' \<and>
     link_sent a (replicate n MESH_OPEN @ [MESH_CLOSE]) s s' \<and>
     map_of (mesh_stas s') a = Some p' \<and> plink_state p' = PLINK_LISTEN \<and> plink_timer p' = None \<and> llid p' = 0 \<and> plid p' = 0"
  using assms
proof (induction n arbitrary: r s envs)
  case 0
  then obtain e f where envs: "envs = [e, f]" "skb_ok e" by (auto simp: numeral_eq_Suc length_Suc_conv)
  have "\<not> r < dot11MeshMaxRetries (mesh_cfg s)" using 0(2) by (simp add: word_less_nat_alt)
  from expire_gives_up [OF 0(1) this envs(2)] obtain t where
    t: "run_ops mesh_step (expire a e) s = Some t" "link_waits a PLINK_HOLDING r t" "link_sent a [MESH_CLOSE] s t" by blast
  from expire_releases [OF t(2), of f] obtain u p' where
    u: "run_ops mesh_step (expire a f) t = Some u" "mesh_inv u" "link_sent a [] t u" "map_of (mesh_stas u) a = Some p'"
    "plink_state p' = PLINK_LISTEN" "plink_timer p' = None" "llid p' = 0" "plid p' = 0" by blast
  have "run_ops mesh_step (expire_all a envs) s = Some u"
    unfolding envs(1) expire_all_simps run_ops_append t(1) by (simp only: Option.bind.simps append_Nil2 u(1) run_ops.simps(1))
  then show ?case using u link_sent_trans [OF t(3) u(3)] by auto
next
  case (Suc n)
  then obtain e es where envs: "envs = e # es" "skb_ok e" "length es = n + 2" "\<forall>e \<in> set es. skb_ok e" by (cases envs) auto
  have r: "r < dot11MeshMaxRetries (mesh_cfg s)" using Suc.prems(2) by (simp add: word_less_nat_alt)
  from expire_retries [OF Suc.prems(1) r envs(2)] obtain t where
    t: "run_ops mesh_step (expire a e) s = Some t" "link_waits a PLINK_OPN_SNT (r + 1) t" "link_sent a [MESH_OPEN] s t" by blast
  have "unat (dot11MeshMaxRetries (mesh_cfg s)) < 256" using unsigned_less [of "dot11MeshMaxRetries (mesh_cfg s)", where 'a = nat] by simp
  then have "unat (r + 1) = unat r + 1" using r by (simp add: word_less_nat_alt unat_word_ariths)
  then have n: "unat (r + 1) + n = unat (dot11MeshMaxRetries (mesh_cfg t))" using Suc.prems(2) t(3) by (simp add: link_sent_def)
  from Suc.IH [OF t(2) n envs(3,4)] obtain u p' where
    u: "run_ops mesh_step (expire_all a es) t = Some u" "mesh_inv u" "link_sent a (replicate n MESH_OPEN @ [MESH_CLOSE]) t u"
    "map_of (mesh_stas u) a = Some p'" "plink_state p' = PLINK_LISTEN" "plink_timer p' = None" "llid p' = 0" "plid p' = 0" by blast
  have "run_ops mesh_step (expire_all a envs) s = Some u"
    unfolding envs(1) expire_all_simps run_ops_append t(1) by (simp only: Option.bind.simps u(1))
  then show ?case using u link_sent_trans [OF t(3) u(3)] by auto
qed

lemma open_waits:
  assumes "mesh_inv s" "\<not> quiescing s" "a \<notin> set (mesh_due s)" "map_of (mesh_stas s) a = Some p" "sta_auth p"
    "plink_state p = PLINK_LISTEN" "\<not> ignore_plink_timer p" "skb_ok env"
  shows "\<exists>s'. mesh_step (Mesh_open env a) s = Some s' \<and> link_waits a PLINK_OPN_SNT 0 s' \<and> link_sent a [MESH_OPEN] s s'"
proof -
  have ok: "plink_ok (mesh_cfg s) p" using mesh_invD(2) [OF assms(1,4)] .
  let ?q = "p\<lparr>llid := ucast (rnd env), plink_state := PLINK_OPN_SNT, plink_timeout := ucast (dot11MeshRetryTimeout (mesh_cfg s)),
      plink_timer := Some (timer_after s (ucast (dot11MeshRetryTimeout (mesh_cfg s))))\<rparr>"
  have "cfg_ok (mesh_cfg (put_sta a ?q s))" using assms(1) by (simp add: mesh_inv_def)
  then obtain s' where s': "mesh_plink_frame_tx env MESH_OPEN a (ucast (rnd env)) 0 0 (put_sta a ?q s) = Some s'"
    "mesh_same (put_sta a ?q s) s'"
    "sent_to a (mesh_log s') = sent_to a (mesh_log (put_sta a ?q s)) @ (if skb_ok env then [MESH_OPEN] else [])" by (rule frame_tx_ok)
  have "plink_timer p = None" "plink_retries p = 0" using ok assms(6) by (simp_all add: plink_ok_def)
  then have st: "mesh_step (Mesh_open env a) s = Some s'"
    using assms(4-6) s'(1) by (simp add: on_sta_def mesh_plink_open_def mesh_plink_timer_set_def Let_def)
  have "mesh_ok s (mesh_step (Mesh_open env a) s)" using open_ok [OF assms(1,4), of env] assms(4) by (simp add: on_sta_def)
  then have "mesh_inv s'" by (simp add: st mesh_ok_def del: mesh_step.simps)
  moreover have "map_of (mesh_stas s') = (map_of (mesh_stas s))(a \<mapsto> ?q)" using s'(2) by (simp add: mesh_same_def update_conv')
  moreover have "mesh_due s' = mesh_due s" "quiescing s' = quiescing s" "mesh_cfg s' = mesh_cfg s" "estab_plinks s' = estab_plinks s"
    using s'(2) by (simp_all add: mesh_same_def put_sta_def)
  ultimately show ?thesis
    using st s'(3) assms(2,3,7,8) \<open>plink_retries p = 0\<close> by (auto simp: link_waits_def link_sent_def simp del: mesh_step.simps)
qed

end
