(* ===== verification/Mesh_Frames.thy ===== *)
theory Mesh_Frames
  imports Mesh_Runs
begin

text \<open>
  The frames of the peering protocol read back: what one mesh point builds with
  \<open>mesh_plink_frame_tx\<close>, another one understands in \<open>mesh_rx_plink_frame\<close>.
\<close>

section \<open>One element among others\<close>

lemma located_append: "located n (xs @ ys) = located n xs @ located (n + length (ies_bytes xs)) ys"
  by (induction xs arbitrary: n) (simp_all add: add.commute add.left_commute)

lemma filter_belongs_none: "\<forall>x \<in> set xs. field_of x \<noteq> Some f \<Longrightarrow> filter (belongs f) (located n xs) = []"
  by (induction xs arbitrary: n) (auto simp: belongs_def)

lemma hit_none: "\<forall>x \<in> set xs. field_of x \<noteq> Some f \<Longrightarrow> hit f n xs = None"
  by (simp add: hit_def filter_belongs_none)

lemma hit_unique:
  assumes "field_of x = Some f" "\<forall>y \<in> set us. field_of y \<noteq> Some f" "\<forall>y \<in> set vs. field_of y \<noteq> Some f"
  shows "hit f n (us @ x # vs) = Some (n + length (ies_bytes us) + 2, x)"
  using assms by (simp add: hit_def located_append filter_belongs_none belongs_def Let_def)

lemma ies_bytes_append [simp]: "ies_bytes (xs @ ys) = ies_bytes xs @ ies_bytes ys"
  by (simp add: ies_bytes_def)

lemma ies_ok_append [simp]: "ies_ok (xs @ ys) = (ies_ok xs \<and> ies_ok ys)" "ies_ok (x # xs) = (length (snd x) < 256 \<and> ies_ok xs)"
  "ies_ok []"
  by (auto simp: ies_ok_def)

section \<open>The frame as header and elements\<close>

definition peer_mgmt_data :: "u8 \<Rightarrow> u16 \<Rightarrow> u16 \<Rightarrow> u16 \<Rightarrow> u8 list" where
  "peer_mgmt_data k l q r = [0, 0] @ put_le16 l @
     (if k = MESH_CONFIRM \<or> k = MESH_CLOSE \<and> q \<noteq> 0 then put_le16 q else []) @
     (if k = MESH_CLOSE then put_le16 r else [])"

definition mesh_conf_data :: "mesh_sys \<Rightarrow> u8 list" where
  "mesh_conf_data s = drop 2 (fst (mesh_add_meshconf_ie s))"

lemma mesh_conf_data_eq:
  "\<exists>a b. mesh_conf_data s = [mesh_pp_id (mesh_cfg s), mesh_pm_id (mesh_cfg s), mesh_cc_id (mesh_cfg s),
     mesh_sp_id (mesh_cfg s), mesh_auth_id (mesh_cfg s), a, b]"
  "fst (mesh_add_meshconf_ie s) = ie_bytes (113, mesh_conf_data s)"
  by (simp_all add: mesh_conf_data_def mesh_add_meshconf_ie_def Let_def ie_bytes_def)

definition frame_pre :: "mesh_sys \<Rightarrow> plink_env \<Rightarrow> u8 \<Rightarrow> mac \<Rightarrow> u8 list" where
  "frame_pre s env k da = [0xD0, 0, 0, 0] @ da @ mesh_addr (mesh_cfg s) @ mesh_addr (mesh_cfg s) @ [0, 0, 15, k] @
     (if k = MESH_CONFIRM then [0, 0, fst (stale env), snd (stale env)] else [])"

text \<open>The elements before and after the peering element; the capability of an OPEN reads as an empty one.\<close>

definition ies_before :: "mesh_sys \<Rightarrow> u8 \<Rightarrow> ie list \<Rightarrow> ie list \<Rightarrow> ie list" where
  "ies_before s k rates rsn =
     (if k = MESH_CLOSE then [(114, mesh_id (mesh_cfg s))]
      else (if k = MESH_CONFIRM then [] else [(0, [])]) @ rates @ rsn @
        [(114, mesh_id (mesh_cfg s)), (113, mesh_conf_data s)])"

lemma frame_tx_bytes:
  assumes "skb_ok env" "rates_ies (mesh_cfg s) = ies_bytes rates" "mesh_add_rsn_ie (mesh_cfg s) = Some (ies_bytes rsn)"
    "mesh_add_vendor_ies (mesh_cfg s) = Some (ies_bytes vendor)" "k \<in> {MESH_OPEN, MESH_CONFIRM, MESH_CLOSE}"
  shows "\<exists>s'. mesh_plink_frame_tx env k da l q r s = Some s' \<and>
     mesh_log s' = mesh_log s @ [Peering_tx k da l q r (frame_pre s env k da @
       ies_bytes (ies_before s k rates rsn @ (117, peer_mgmt_data k l q r) # vendor))]"
proof -
  have c: "mesh_log (snd (mesh_add_meshconf_ie s)) = mesh_log s" by (simp add: mesh_add_meshconf_ie_def Let_def)
  have z: "[0, 0] = ie_bytes (0, [])" by (simp add: ie_bytes_def)
  have kk: "MESH_OPEN \<noteq> MESH_CONFIRM" "MESH_OPEN \<noteq> MESH_CLOSE" "MESH_CONFIRM \<noteq> MESH_CLOSE"
    by (simp_all add: MESH_OPEN_def MESH_CONFIRM_def MESH_CLOSE_def)
  have p: "peer_mgmt_ie k l q r = ie_bytes (117, peer_mgmt_data k l q r)" by (simp add: peer_mgmt_ie_def peer_mgmt_data_def)
  show ?thesis
    using assms kk c mesh_conf_data_eq(2) [of s] unfolding mesh_plink_frame_tx_def p ies_before_def frame_pre_def
    by (elim insertE) (simp_all add: Let_def case_prod_beta log_mesh_def mesh_add_meshid_ie_def z)
qed

section \<open>Reading it back\<close>

definition plain_ies :: "ie list \<Rightarrow> bool" where
  "plain_ies xs \<longleftrightarrow> (\<forall>x \<in> set xs. field_of x \<notin> {Some F_peering, Some F_mesh_id, Some F_mesh_config})"

lemma plain_ies_append [simp]: "plain_ies (xs @ ys) = (plain_ies xs \<and> plain_ies ys)"
  by (auto simp: plain_ies_def)

lemma plain_iesD: "plain_ies xs \<Longrightarrow> f \<in> {F_peering, F_mesh_id, F_mesh_config} \<Longrightarrow> \<forall>x \<in> set xs. field_of x \<noteq> Some f"
  by (auto simp: plain_ies_def)

lemma field_of_simps:
  "field_of (117, d) = Some F_peering" "field_of (114, d) = Some F_mesh_id" "field_of (0, d) = Some F_ssid"
  "field_of (113, d) = (if 7 \<le> length d then Some F_mesh_config else None)"
  by (simp_all add: field_of_def plain_elems_def sized_elems_def)

text \<open>Whether two mesh points belong to the same mesh.\<close>

definition same_mesh :: "mesh_cfg \<Rightarrow> mesh_cfg \<Rightarrow> bool" where
  "same_mesh c c' \<longleftrightarrow> mesh_id c = mesh_id c' \<and> mesh_pp_id c = mesh_pp_id c' \<and> mesh_pm_id c = mesh_pm_id c' \<and>
     mesh_cc_id c = mesh_cc_id c' \<and> mesh_sp_id c = mesh_sp_id c' \<and> mesh_auth_id c = mesh_auth_id c'"

lemma same_mesh_simps:
  "length (mesh_id c') \<noteq> length (mesh_id c) \<Longrightarrow> \<not> same_mesh c' c" "mesh_id c \<noteq> mesh_id c' \<Longrightarrow> \<not> same_mesh c' c"
  by (auto simp: same_mesh_def)

text \<open>The elements of a frame, by pointer and length, and their data in the frame.\<close>

lemma parsed_hit:
  assumes "ies_ok xs" "ieee802_11_parse_elems (pre @ ies_bytes xs) (length pre) (length (ies_bytes xs)) = Some e"
    "hit f (length pre) xs = Some (p, x)"
  shows "el_ptr e f = Some p" "\<not> pointer_only f \<Longrightarrow> unat (el_len e f) = length (snd x)"
    "\<exists>a b. pre @ ies_bytes xs = a @ snd x @ b \<and> length a = p"
proof -
  have t: "tail_ok []" by (simp add: tail_ok_def)
  note hits = parse_hits [OF assms(1) t, unfolded append_Nil2, OF assms(2)]
  from hit_in [OF assms(3)] located_in [of p x pre xs "[]"] show "\<exists>a b. pre @ ies_bytes xs = a @ snd x @ b \<and> length a = p"
    by auto
  have "x \<in> set xs" using hit_in [OF assms(3)] located_in [of p x pre xs "[]"] by auto
  then have "length (snd x) < 256" using assms(1) by (auto simp: ies_ok_def)
  then show "\<not> pointer_only f \<Longrightarrow> unat (el_len e f) = length (snd x)"
    using hits(2) [of f] assms(3) by (simp add: unat_of_nat take_bit_nat_eq_self)
  show "el_ptr e f = Some p" using hits(1) [of f] assms(3) by simp
qed

lemma matches_local_built:
  assumes ok: "ies_ok xs" and e: "ieee802_11_parse_elems (pre @ ies_bytes xs) (length pre) (length (ies_bytes xs)) = Some e"
    and id: "hit F_mesh_id (length pre) xs = Some (i, (114, mesh_id (mesh_cfg s)))"
    and cf: "hit F_mesh_config (length pre) xs = Some (j, (113, mesh_conf_data s))"
  shows "mesh_matches_local c' (pre @ ies_bytes xs) e = Some (same_mesh c' (mesh_cfg s))"
proof -
  let ?B = "pre @ ies_bytes xs" and ?c = "mesh_cfg s"
  note I = parsed_hit [OF ok e id] and J = parsed_hit [OF ok e cf]
  have "\<not> pointer_only F_mesh_id" by (simp add: pointer_only_def)
  with I have li: "unat (el_len e F_mesh_id) = length (mesh_id ?c)" by simp
  obtain a b where ab: "?B = a @ mesh_id ?c @ b" "length a = i" using I(3) by auto
  have idb: "take (length (mesh_id ?c)) (drop i ?B) = mesh_id ?c" "i + length (mesh_id ?c) \<le> length ?B"
    using ab(2) unfolding ab(1) by simp_all
  obtain a' b' u v where ab': "?B = a' @ [mesh_pp_id ?c, mesh_pm_id ?c, mesh_cc_id ?c, mesh_sp_id ?c, mesh_auth_id ?c, u, v] @ b'"
    "length a' = j" using J(3) mesh_conf_data_eq(1) [of s] by (metis snd_conv)
  have cfb: "rd ?B j = Some (mesh_pp_id ?c)" "rd ?B (j + 1) = Some (mesh_pm_id ?c)" "rd ?B (j + 2) = Some (mesh_cc_id ?c)"
    "rd ?B (j + 3) = Some (mesh_sp_id ?c)" "rd ?B (j + 4) = Some (mesh_auth_id ?c)"
    using ab'(2) unfolding ab'(1) by (simp_all add: rd_def nth_append)
  show ?thesis
  proof (cases "length (mesh_id c') = length (mesh_id ?c)")
    case False
    then show ?thesis by (simp add: mesh_matches_local_def li same_mesh_simps(1))
  next
    case True
    then have m: "mesh_matches_local c' ?B e = (if mesh_id ?c \<noteq> mesh_id c' then Some False else do {
          k \<leftarrow> el_ptr e F_mesh_config;
          pp \<leftarrow> rd ?B k; pm \<leftarrow> rd ?B (k + 1); cc \<leftarrow> rd ?B (k + 2); sp \<leftarrow> rd ?B (k + 3); au \<leftarrow> rd ?B (k + 4);
          Some (mesh_pp_id c' = pp \<and> mesh_pm_id c' = pm \<and> mesh_cc_id c' = cc \<and> mesh_sp_id c' = sp \<and> mesh_auth_id c' = au) })"
      using idb I(1) by (simp add: mesh_matches_local_def li Let_def not_less)
    show ?thesis
      unfolding m J(1) Option.bind.simps cfb by (auto simp: same_mesh_def)
  qed
qed

text \<open>The hits of a built frame.\<close>

lemma built_hits:
  assumes "plain_ies (rates @ rsn @ vendor)" "xs = ies_before s k rates rsn @ (117, d) # vendor"
  shows "\<exists>p. hit F_peering n xs = Some (p, (117, d))"
    "k \<noteq> MESH_CLOSE \<Longrightarrow> \<exists>p. hit F_mesh_id n xs = Some (p, (114, mesh_id (mesh_cfg s)))"
    "k \<noteq> MESH_CLOSE \<Longrightarrow> \<exists>p. hit F_mesh_config n xs = Some (p, (113, mesh_conf_data s))"
proof -
  have p: "plain_ies rates" "plain_ies rsn" "plain_ies vendor" using assms(1) by simp_all
  have l: "7 \<le> length (mesh_conf_data s)" using mesh_conf_data_eq(1) [of s] by auto
  have b: "\<forall>y \<in> set (ies_before s k rates rsn). field_of y \<noteq> Some F_peering"
    using p plain_iesD [of _ F_peering] by (auto simp: ies_before_def field_of_simps)
  show "\<exists>p. hit F_peering n xs = Some (p, (117, d))"
    unfolding assms(2) using hit_unique [OF field_of_simps(1) b, of vendor] plain_iesD [OF p(3), of F_peering] by auto
  let ?z = "if k = MESH_CONFIRM then [] else [(0, [])] :: ie list"
  assume k: "k \<noteq> MESH_CLOSE"
  have x1: "xs = (?z @ rates @ rsn) @ (114, mesh_id (mesh_cfg s)) # ((113, mesh_conf_data s) # (117, d) # vendor)"
    and x2: "xs = (?z @ rates @ rsn @ [(114, mesh_id (mesh_cfg s))]) @ (113, mesh_conf_data s) # ((117, d) # vendor)"
    using k by (simp_all add: assms(2) ies_before_def)
  have "hit F_mesh_id n xs = Some (n + length (ies_bytes (?z @ rates @ rsn)) + 2, (114, mesh_id (mesh_cfg s)))"
    unfolding x1 using p plain_iesD [of _ F_mesh_id] l by (intro hit_unique) (auto simp: field_of_simps)
  then show "\<exists>p. hit F_mesh_id n xs = Some (p, (114, mesh_id (mesh_cfg s)))" by blast
  have "hit F_mesh_config n xs =
      Some (n + length (ies_bytes (?z @ rates @ rsn @ [(114, mesh_id (mesh_cfg s))])) + 2, (113, mesh_conf_data s))"
    unfolding x2 using p plain_iesD [of _ F_mesh_config] l by (intro hit_unique) (auto simp: field_of_simps)
  then show "\<exists>p. hit F_mesh_config n xs = Some (p, (113, mesh_conf_data s))" by blast
qed


section \<open>The round trip\<close>

lemma frame_pre_simps:
  assumes "length da = 6" "length (mesh_addr (mesh_cfg s)) = 6" "k \<in> {MESH_OPEN, MESH_CONFIRM, MESH_CLOSE}"
  shows "length (frame_pre s env k da) = (if k = MESH_CONFIRM then 30 else 26)"
    "rd (frame_pre s env k da @ r) 4 = Some (da ! 0)" "rd (frame_pre s env k da @ r) 25 = Some k"
    "take 6 (drop 10 (frame_pre s env k da @ r)) = mesh_addr (mesh_cfg s)"
  using assms(1,2) by (simp_all add: frame_pre_def rd_def nth_append)

lemma peer_mgmt_read:
  assumes "\<exists>a b. B = a @ peer_mgmt_data k l q r @ b \<and> length a = p"
  shows "le16_at B (p + 2) = Some l"
    "k = MESH_CONFIRM \<or> k = MESH_CLOSE \<and> q \<noteq> 0 \<Longrightarrow> le16_at B (p + 4) = Some q"
proof -
  obtain a b where b: "B = a @ peer_mgmt_data k l q r @ b" "length a = p" using assms by blast
  show "le16_at B (p + 2) = Some l"
    using le16_put_le16 [of "a @ [0, 0]" l] by (simp add: b peer_mgmt_data_def flip: b(2))
  assume "k = MESH_CONFIRM \<or> k = MESH_CLOSE \<and> q \<noteq> 0"
  then show "le16_at B (p + 4) = Some q"
    using le16_put_le16 [of "a @ [0, 0] @ put_le16 l" q] b(2) by (auto simp: b(1) peer_mgmt_data_def)
qed

lemma plink_kinds:
  "MESH_OPEN \<noteq> MESH_CONFIRM" "MESH_OPEN \<noteq> MESH_CLOSE" "MESH_CONFIRM \<noteq> MESH_CLOSE"
  "MESH_CONFIRM \<noteq> MESH_OPEN" "MESH_CLOSE \<noteq> MESH_OPEN" "MESH_CLOSE \<noteq> MESH_CONFIRM"
  by (simp_all add: MESH_OPEN_def MESH_CONFIRM_def MESH_CLOSE_def)

lemma parse_built:
  assumes k: "k \<in> {MESH_OPEN, MESH_CONFIRM, MESH_CLOSE}" and ok: "ies_ok xs" and bound: "length (ies_bytes xs) < 2 ^ 32"
    and a: "length da = 6" "length (mesh_addr (mesh_cfg s)) = 6" "da ! 0 AND 1 = 0"
    and xs: "xs = ies_before s k rates rsn @ (117, peer_mgmt_data k l q r) # vendor"
    and pl: "plain_ies (rates @ rsn @ vendor)"
    and rsn: "mesh_security c' \<noteq> 0 \<or> (\<forall>x \<in> set xs. field_of x \<noteq> Some F_rsn)"
  shows "\<exists>e. ieee802_11_parse_elems (frame_pre s env k da @ ies_bytes xs) (length (frame_pre s env k da)) (length (ies_bytes xs)) = Some e \<and>
     mesh_plink_parse c' (frame_pre s env k da @ ies_bytes xs) = Some (Some
       \<lparr>pm_ftype = k, pm_ie_len = of_nat (length (peer_mgmt_data k l q r)), pm_plid = l,
        pm_llid = (if k = MESH_CONFIRM \<or> k = MESH_CLOSE \<and> q \<noteq> 0 then Some q else None),
        pm_elems = e, pm_sa = mesh_addr (mesh_cfg s)\<rparr>)"
proof -
  let ?P = "frame_pre s env k da" and ?d = "peer_mgmt_data k l q r"
  let ?B = "?P @ ies_bytes xs"
  note P = frame_pre_simps [OF a(1,2) k, of env]
  obtain e where e: "ieee802_11_parse_elems ?B (length ?P) (length (ies_bytes xs)) = Some e"
    using elems_in_frame [of "length ?P" "length (ies_bytes xs)" ?B] by auto
  note hits = built_hits [OF pl xs, of "length ?P"]
  obtain p where p: "hit F_peering (length ?P) xs = Some (p, (117, ?d))" using hits(1) by blast
  note H = parsed_hit [OF ok e p]
  have pe: "el_ptr e F_peering = Some p" by (rule H(1))
  have d: "length ?d < 256" by (simp add: peer_mgmt_data_def)
  have le: "el_len e F_peering = of_nat (length ?d)"
    using H(2) d by (simp add: pointer_only_def word_unat_eq_iff unat_of_nat take_bit_nat_eq_self)
  have rd: "le16_at ?B (p + 2) = Some l" "k = MESH_CONFIRM \<or> k = MESH_CLOSE \<and> q \<noteq> 0 \<Longrightarrow> le16_at ?B (p + 4) = Some q"
    using peer_mgmt_read [of ?B k l q r p] H(3) by simp_all
  have t: "tail_ok []" by (simp add: tail_ok_def)
  have rs: "el_len e F_rsn = 0 \<or> mesh_security c' \<noteq> 0"
    using rsn parse_hits(2) [OF ok t, unfolded append_Nil2, OF e, of F_rsn] hit_none [of xs F_rsn]
    by (auto simp: pointer_only_def)
  have m: "el_ptr e F_mesh_id \<noteq> None" "el_ptr e F_mesh_config \<noteq> None" if "k \<noteq> MESH_CLOSE"
    using hits(2,3) [OF that] parsed_hit(1) [OF ok e] by blast+
  have "length (ies_bytes xs) \<ge> 2" unfolding xs by simp
  then have L: "\<not> length ?B < 25 + 3" using P(1) by simp
  have u: "unat (of_int (int (length ?B) - int (length ?P)) :: u64) = length (ies_bytes xs)"
    using bound by (simp add: unat_of_nat take_bit_nat_eq_self)
  have bl: "(if k = MESH_CONFIRM then 30 else 26) = length ?P" using P(1) by simp
  show ?thesis
    using rs m k rd a(3)
    unfolding mesh_plink_parse_def P(2,3) Option.bind.simps Let_def bl u e pe le P(4) if_not_P [OF L]
    by (elim insertE) (auto simp: plink_kinds peer_mgmt_data_def)
qed

text \<open>The elements of a frame are well formed and hold an RSN element only where one was given.\<close>

lemma built_ies_ok:
  assumes "ies_ok (rates @ rsn @ vendor)" "length (ies_bytes (rates @ rsn @ vendor)) < 2 ^ 31" "length (mesh_id (mesh_cfg s)) \<le> 32"
  shows "ies_ok (ies_before s k rates rsn @ (117, peer_mgmt_data k l q r) # vendor)"
    "length (ies_bytes (ies_before s k rates rsn @ (117, peer_mgmt_data k l q r) # vendor)) < 2 ^ 32"
  using assms mesh_conf_data_eq(1) [of s] by (auto simp: ies_before_def peer_mgmt_data_def)

lemma built_no_rsn:
  assumes "P \<or> (\<forall>x \<in> set (rates @ rsn @ vendor). field_of x \<noteq> Some F_rsn)"
  shows "P \<or> (\<forall>x \<in> set (ies_before s k rates rsn @ (117, peer_mgmt_data k l q r) # vendor). field_of x \<noteq> Some F_rsn)"
  using assms by (auto simp: ies_before_def field_of_simps)

end
