(* ===== verification/Mesh_Props.thy ===== *)
theory Mesh_Props
  imports Mesh_Timers Mesh_Frames
begin

text \<open>The properties of mesh peer links, with runs of two mesh points that peer.\<close>

section \<open>Example interfaces\<close>

definition ex_env :: "u32 \<Rightarrow> plink_env" where
  "ex_env r = \<lparr>rnd = r, skb_ok = True, sta_ok = True, insert_ok = True, stale = (0, 0), stale_llid = 0xA5A5\<rparr>"

definition ex_cfg :: "mac \<Rightarrow> mesh_cfg" where
  "ex_cfg a = \<lparr>mesh_addr = a, mesh_id = [109, 49], mesh_pp_id = 1, mesh_pm_id = 1, mesh_cc_id = 0, mesh_sp_id = 1,
     mesh_auth_id = 0, mesh_ie = [], rates_ies = [1, 1, 0x82], mesh_security = 0, dot11MeshMaxRetries = 3,
     dot11MeshRetryTimeout = 100, dot11MeshConfirmTimeout = 100, dot11MeshHoldingTimeout = 100,
     dot11MeshMaxPeerLinks = 99, auto_open_plinks = True, mesh_hz = 100\<rparr>"

definition ex_mesh :: "mac \<Rightarrow> mesh_sys" where
  "ex_mesh a = \<lparr>mesh_cfg = ex_cfg a, mesh_stas = [], estab_plinks = 0, num_sta = 0, accepting_plinks = True,
     quiescing = False, mesh_jiffies = 5000, mesh_due = [], mesh_log = []\<rparr>"

abbreviation "mac_a \<equiv> [2, 0, 0, 0, 0, 1] :: mac"
abbreviation "mac_b \<equiv> [2, 0, 0, 0, 0, 2] :: mac"

text \<open>An interface at \<open>a\<close> that knows the station \<open>b\<close>.\<close>

definition ex_known :: "mac \<Rightarrow> mac \<Rightarrow> mesh_sys" where
  "ex_known a b = (ex_mesh a)\<lparr>mesh_stas := [(b, new_sta\<lparr>sta_auth := True\<rparr>)], num_sta := 1\<rparr>"

text \<open>The frames sent so far, and the state of the link to a station.\<close>

fun frames_of :: "mesh_event list \<Rightarrow> u8 list list" where
  "frames_of [] = []"
| "frames_of (Peering_tx _ _ _ _ _ b # xs) = b # frames_of xs"
| "frames_of (_ # xs) = frames_of xs"

definition link_state :: "mesh_sys \<Rightarrow> mac \<Rightarrow> plink_state option" where
  "link_state s a = map_option plink_state (map_of (mesh_stas s) a)"

lemma ex_known_inv: "mesh_inv (ex_known mac_a mac_b)" "mesh_inv (ex_mesh mac_a)"
  by (simp_all add: mesh_inv_def ex_known_def ex_mesh_def ex_cfg_def cfg_ok_def mesh_add_rsn_ie_def mesh_add_vendor_ies_def
      plink_ok_def new_sta_def estab_count_def)


section \<open>Runs\<close>



text \<open>
  Claim C32. The reception of a peering frame from a known station is a step of the peering
  protocol: the frame's event, the link's new state and the frames sent in answer are those of the
  protocol's transition relation, and no other link changes.
\<close>

theorem mesh_rx_follows_protocol:
  assumes "mesh_inv s" "mesh_plink_parse (mesh_cfg s) frame = Some (Some m)"
    "map_of (mesh_stas s) (pm_sa m) = Some p" "sta_auth p" "plink_state p \<noteq> PLINK_BLOCKED"
    "(if pm_ftype m \<noteq> MESH_CLOSE then mesh_matches_local (mesh_cfg s) frame (pm_elems m) else Some True) = Some matches"
    "plink_event_of s p m matches = Some event"
  shows "\<exists>s' p' fs. mesh_rx_plink_frame env frame s = Some s' \<and> mesh_inv s' \<and>
     mpm (plink_state p) event (plink_state p') fs \<and>
     map_of (mesh_stas s') = (map_of (mesh_stas s))(pm_sa m \<mapsto> p') \<and>
     sent_to (pm_sa m) (mesh_log s') = sent_to (pm_sa m) (mesh_log s) @ (if skb_ok env then fs else [])"
  using rx_known [OF assms, of env] unfolding fsm_result_def by blast

text \<open>The OPEN frame of \<open>b\<close> to \<open>a\<close>.\<close>

definition ex_open :: "u8 list" where
  "ex_open = hd (frames_of (mesh_log (the (run_ops mesh_step [Mesh_open (ex_env 9) mac_a] (ex_known mac_b mac_a)))))"

theorem mesh_rx_follows_protocol_witness:
  "\<exists>s' p' fs. mesh_rx_plink_frame (ex_env 4) ex_open (ex_known mac_a mac_b) = Some s' \<and>
     mpm PLINK_LISTEN OPN_ACPT (plink_state p') fs \<and> map_of (mesh_stas s') mac_b = Some p' \<and>
     sent_to mac_b (mesh_log s') = fs"
proof -
  let ?s = "ex_known mac_a mac_b" and ?p = "new_sta\<lparr>sta_auth := True\<rparr>"
  have cf: "mesh_cfg ?s = ex_cfg mac_a" "map_of (mesh_stas ?s) mac_b = Some ?p" "mesh_log ?s = []"
    by (simp_all add: ex_known_def ex_mesh_def)
  have "map_option (map_option (\<lambda>m. (pm_ftype m, pm_ie_len m, pm_plid m, pm_llid m, pm_sa m,
      mesh_matches_local (ex_cfg mac_a) ex_open (pm_elems m)))) (mesh_plink_parse (ex_cfg mac_a) ex_open) =
      Some (Some (1, 4, 9, None, mac_b, Some True))" by code_simp
  then obtain m where m: "mesh_plink_parse (ex_cfg mac_a) ex_open = Some (Some m)" "pm_ftype m = 1" "pm_plid m = 9"
    "pm_sa m = mac_b" "mesh_matches_local (ex_cfg mac_a) ex_open (pm_elems m) = Some True" by auto
  have ev: "plink_event_of ?s ?p m True = Some OPN_ACPT"
    using m by (simp add: plink_event_of_def MESH_OPEN_def new_sta_def mesh_plink_free_count_def ex_known_def ex_mesh_def ex_cfg_def)
  have g: "(if pm_ftype m \<noteq> MESH_CLOSE then mesh_matches_local (mesh_cfg ?s) ex_open (pm_elems m) else Some True) = Some True"
    using m cf by simp
  have b: "sta_auth ?p" "plink_state ?p \<noteq> PLINK_BLOCKED" "plink_state ?p = PLINK_LISTEN" "skb_ok (ex_env 4)"
    by (simp_all add: new_sta_def ex_env_def)
  obtain s' p' fs where r: "mesh_rx_plink_frame (ex_env 4) ex_open ?s = Some s'" "mpm PLINK_LISTEN OPN_ACPT (plink_state p') fs"
    "map_of (mesh_stas s') = (map_of (mesh_stas ?s))(mac_b \<mapsto> p')" "sent_to mac_b (mesh_log s') = fs"
    using mesh_rx_follows_protocol [OF ex_known_inv(1) _ _ b(1,2) g ev, of "ex_env 4"] m cf b(3,4) by auto
  then show ?thesis by auto
qed

text \<open>
  Claim C33. What one mesh point sends, another one understands: for each of the three kinds, the
  frame built with the local and the peer's link identifier passes the checks of the reception and
  reads back as the same kind, sender and identifiers, and its mesh identifier and configuration
  are found to match exactly when the two belong to the same mesh. The rates, RSN and vendor elements
  may be any elements that are not themselves mesh elements.
\<close>

theorem peering_frames_roundtrip:
  assumes "k \<in> {MESH_OPEN, MESH_CONFIRM, MESH_CLOSE}" "skb_ok env" "rates_ies (mesh_cfg s) = ies_bytes rates"
    "mesh_add_rsn_ie (mesh_cfg s) = Some (ies_bytes rsn)" "mesh_add_vendor_ies (mesh_cfg s) = Some (ies_bytes vendor)"
    "ies_ok (rates @ rsn @ vendor)" "plain_ies (rates @ rsn @ vendor)" "length (ies_bytes (rates @ rsn @ vendor)) < 2 ^ 31"
    "length (mesh_id (mesh_cfg s)) \<le> 32" "length (mesh_addr (mesh_cfg s)) = 6" "length da = 6" "da ! 0 AND 1 = 0"
    "mesh_security c' \<noteq> 0 \<or> (\<forall>x \<in> set (rates @ rsn @ vendor). field_of x \<noteq> Some F_rsn)"
  shows "\<exists>s' B m. mesh_plink_frame_tx env k da l q r s = Some s' \<and> mesh_log s' = mesh_log s @ [Peering_tx k da l q r B] \<and>
     mesh_plink_parse c' B = Some (Some m) \<and> pm_ftype m = k \<and> pm_sa m = mesh_addr (mesh_cfg s) \<and> pm_plid m = l \<and>
     pm_llid m = (if k = MESH_CONFIRM \<or> k = MESH_CLOSE \<and> q \<noteq> 0 then Some q else None) \<and>
     (k \<noteq> MESH_CLOSE \<longrightarrow> mesh_matches_local c' B (pm_elems m) = Some (same_mesh c' (mesh_cfg s)))"
proof -
  define xs where "xs = ies_before s k rates rsn @ (117, peer_mgmt_data k l q r) # vendor"
  note X = built_ies_ok [OF assms(6,8,9), of k l q r, folded xs_def] built_no_rsn [OF assms(13), of s k l q r, folded xs_def]
  from parse_built [OF assms(1) X(1,2) assms(11,10,12) xs_def assms(7) X(3), of env]
  obtain e where e: "ieee802_11_parse_elems (frame_pre s env k da @ ies_bytes xs) (length (frame_pre s env k da)) (length (ies_bytes xs)) = Some e"
    "mesh_plink_parse c' (frame_pre s env k da @ ies_bytes xs) = Some (Some
       \<lparr>pm_ftype = k, pm_ie_len = of_nat (length (peer_mgmt_data k l q r)), pm_plid = l,
        pm_llid = (if k = MESH_CONFIRM \<or> k = MESH_CLOSE \<and> q \<noteq> 0 then Some q else None),
        pm_elems = e, pm_sa = mesh_addr (mesh_cfg s)\<rparr>)" by blast
  have "k \<noteq> MESH_CLOSE \<Longrightarrow> mesh_matches_local c' (frame_pre s env k da @ ies_bytes xs) e = Some (same_mesh c' (mesh_cfg s))"
    using built_hits(2,3) [OF assms(7) xs_def, of "length (frame_pre s env k da)"] matches_local_built [OF X(1) e(1)] by blast
  with frame_tx_bytes [OF assms(2-5,1), of da l q r] e(2) show ?thesis unfolding xs_def [symmetric] by auto
qed

theorem peering_frames_roundtrip_witness:
  "\<exists>s' B m. mesh_plink_frame_tx (ex_env 0) MESH_CONFIRM mac_b 0x1234 0xBEEF 0 (ex_mesh mac_a) = Some s' \<and>
     mesh_log s' = [Peering_tx MESH_CONFIRM mac_b 0x1234 0xBEEF 0 B] \<and>
     mesh_plink_parse (ex_cfg mac_b) B = Some (Some m) \<and> pm_plid m = 0x1234 \<and> pm_llid m = Some 0xBEEF \<and>
     mesh_matches_local (ex_cfg mac_b) B (pm_elems m) = Some True"
proof -
  have c: "skb_ok (ex_env 0)" "rates_ies (mesh_cfg (ex_mesh mac_a)) = ies_bytes [(1, [0x82])]"
    "mesh_add_rsn_ie (mesh_cfg (ex_mesh mac_a)) = Some (ies_bytes [])"
    "mesh_add_vendor_ies (mesh_cfg (ex_mesh mac_a)) = Some (ies_bytes [])"
    "ies_ok ([(1, [0x82])] @ [] @ [])" "plain_ies ([(1, [0x82])] @ [] @ [])"
    "length (ies_bytes ([(1, [0x82])] @ [] @ [])) < 2 ^ 31" "length (mesh_id (mesh_cfg (ex_mesh mac_a))) \<le> 32"
    "length (mesh_addr (mesh_cfg (ex_mesh mac_a))) = 6" "mesh_log (ex_mesh mac_a) = []"
    "same_mesh (ex_cfg mac_b) (mesh_cfg (ex_mesh mac_a))"
    by (simp_all add: ex_env_def ex_mesh_def ex_cfg_def ie_bytes_def mesh_add_rsn_ie_def mesh_add_vendor_ies_def
        plain_ies_def field_of_def plain_elems_def same_mesh_def)
  have n: "\<forall>x \<in> set ([(1, [0x82])] @ [] @ []). field_of x \<noteq> Some F_rsn" by (simp add: field_of_def plain_elems_def)
  from peering_frames_roundtrip [OF _ c(1-9), of MESH_CONFIRM mac_b "ex_cfg mac_b" "0x1234" "0xBEEF" 0] n c(10,11)
  show ?thesis by (simp add: MESH_CONFIRM_def MESH_CLOSE_def) blast
qed

text \<open>
  A handshake. When \<open>a\<close> opens a link to \<open>b\<close>, which does not know \<open>a\<close> yet, and the
  frames each of them sends reach the other in order, both links are established after five
  frames, with the identifiers the two sides drew.
\<close>

definition deliver :: "nat \<Rightarrow> u32 \<Rightarrow> mesh_sys \<Rightarrow> mesh_sys \<Rightarrow> mesh_sys option" where
  "deliver n r from to = do {
     f \<leftarrow> rd (frames_of (mesh_log from)) n;
     mesh_rx_plink_frame (ex_env r) f to }"

definition handshake :: "u32 \<Rightarrow> u32 \<Rightarrow> (mesh_sys \<times> mesh_sys) option" where
  "handshake ra rb = do {
     a \<leftarrow> mesh_step (Mesh_open (ex_env ra) mac_b) (ex_known mac_a mac_b);
     b \<leftarrow> deliver 0 rb a (ex_mesh mac_b);
     a \<leftarrow> deliver 0 0 b a;
     a \<leftarrow> deliver 1 0 b a;
     b \<leftarrow> deliver 1 0 a b;
     Some (a, b) }"

lemma mesh_points_peer:
  "map_option (\<lambda>(a, b). (map_option (\<lambda>p. (plink_state p, llid p, plid p)) (map_of (mesh_stas a) mac_b), estab_plinks a,
       map_option (\<lambda>p. (plink_state p, llid p, plid p)) (map_of (mesh_stas b) mac_a), estab_plinks b))
     (handshake 0x1234 0xBEEF) =
   Some (Some (PLINK_ESTAB, 0x1234, 0xBEEF), 1, Some (PLINK_ESTAB, 0xBEEF, 0x1234), 1)"
  by code_simp

section \<open>Giving up\<close>



section \<open>Defects\<close>

text \<open>
  A link can lose its timer. When a held link receives the peer's CLOSE, the pending
  timer is deleted and, the wrong way round, the next expiry is told to be ignored: the retry timer
  of the next attempt is swallowed, and the attempt waits for ever without a timer.
\<close>

definition ex_close :: "u8 list" where
  "ex_close = last (frames_of (mesh_log (the (run_ops mesh_step
     [Mesh_open (ex_env 9) mac_a, Mesh_deactivate (ex_env 0) mac_a] (ex_known mac_b mac_a)))))"

lemma mesh_held_link_stalls:
  "map_option (\<lambda>s. map_option (\<lambda>p. (plink_state p, plink_timer p, ignore_plink_timer p)) (map_of (mesh_stas s) mac_b))
     (run_ops mesh_step [Mesh_open (ex_env 4) mac_b, Mesh_rx (ex_env 0) ex_open, Mesh_rx (ex_env 0) ex_close,
       Mesh_rx (ex_env 0) ex_close, Mesh_open (ex_env 5) mac_b, Mesh_tick 100, Mesh_expire mac_b,
       Mesh_timer (ex_env 0) mac_b] (ex_known mac_a mac_b)) =
   Some (Some (PLINK_OPN_SNT, None, False))"
  by code_simp

text \<open>
  A CONFIRM frame of 28 or 29 bytes passes the length check, but its elements are taken
  to start at byte 30: their length underflows and the parser reads past the end of the frame.
\<close>

lemma mesh_short_confirm_overreads:
  assumes "length frame = 28 \<or> length frame = 29" "frame ! 25 = MESH_CONFIRM" "frame ! 4 AND 1 = 0"
  shows "mesh_rx_plink_frame env frame s = None"
proof -
  let ?left = "unat (of_int (int (length frame) - 30) :: u64)"
  have "2 \<le> ?left" using assms(1) by (elim disjE) (simp_all add: unsigned_minus_1_eq_mask mask_eq_exp_minus_1)
  then have "ieee802_11_parse_elems frame 30 ?left = None"
    using assms(1) unfolding ieee802_11_parse_elems_def atbm_ieee802_11_parse_elems_crc_def
    by (subst parse_elems_loop.simps) (auto simp: rd_def)
  then have "mesh_plink_parse (mesh_cfg s) frame = None"
    using assms by (auto simp: mesh_plink_parse_def rd_def)
  then show ?thesis by (simp add: mesh_rx_plink_frame_def)
qed

text \<open>The link identifier of a CLOSE is never compared: no accepted frame has the length tested for.\<close>

lemma close_llid_not_checked:
  assumes "pm_ftype m = MESH_CLOSE" "pm_ie_len m = 8" "plid p = pm_plid m" "plink_state p \<noteq> PLINK_ESTAB"
  shows "plink_event_of s p (m\<lparr>pm_llid := Some x\<rparr>) True = Some CLS_ACPT"
  using assms by (simp add: plink_event_of_def MESH_OPEN_def MESH_CONFIRM_def MESH_CLOSE_def)

text \<open>An attempt to open a link that is under way is refused, but replaces its identifier.\<close>

lemma busy_open_replaces_llid:
  "map_option (\<lambda>s. map_option (\<lambda>p. (plink_state p, llid p)) (map_of (mesh_stas s) mac_b))
     (run_ops mesh_step [Mesh_open (ex_env 4) mac_b, Mesh_open (ex_env 5) mac_b] (ex_known mac_a mac_b)) =
   Some (Some (PLINK_OPN_SNT, 5))"
  by code_simp

text \<open>
  A CONFIRM that comes before the peer's OPEN is ignored, since the peer's identifier is not known yet: only
  a peer that drew the identifier 0 gets a link into the state \<open>CNF_RCVD\<close>.
\<close>

lemma early_confirm_ignored:
  assumes "pm_ftype m = MESH_CONFIRM" "plid p = 0" "pm_plid m \<noteq> 0"
  shows "plink_event_of s p m True = Some CNF_IGNR"
  using assms by (simp add: plink_event_of_def MESH_OPEN_def MESH_CONFIRM_def MESH_CLOSE_def)

text \<open>
  In that state the OPEN is answered with what the variable \<open>llid\<close> holds, which no statement has set,
  and not with the identifier of the link.
\<close>

definition ex_zero_peer :: "u8 \<Rightarrow> u8 list" where
  "ex_zero_peer k = last (frames_of (mesh_log (the (mesh_plink_frame_tx (ex_env 0) k mac_a 0 4 0 (ex_known mac_b mac_a)))))"

lemma late_open_sends_garbage:
  "map_option (\<lambda>s. (map_option (\<lambda>p. (plink_state p, llid p)) (map_of (mesh_stas s) mac_b),
       map_option (map_option (\<lambda>m. (pm_ftype m, pm_plid m))) (mesh_plink_parse (ex_cfg mac_b) (last (frames_of (mesh_log s))))))
     (run_ops mesh_step [Mesh_open (ex_env 4) mac_b, Mesh_rx (ex_env 0) (ex_zero_peer MESH_CONFIRM),
        Mesh_rx (ex_env 0) (ex_zero_peer MESH_OPEN)] (ex_known mac_a mac_b)) =
   Some (Some (PLINK_ESTAB, 4), Some (Some (MESH_CONFIRM, 0xA5A5)))"
  by code_simp

end
