(* ===== verification/Aes_Ccm.thy ===== *)
theory Aes_Ccm
  imports Frame
begin

text \<open>
  \<open>mac80211/aes_ccm.c\<close>: counter mode with a CBC-MAC over blocks of 16 bytes. The block cipher under
  the session key, \<open>crypto_cipher_encrypt_one\<close>, is a parameter \<open>E\<close> from blocks to blocks. The scratch
  buffer of the code holds the block \<open>b_0\<close> and the two blocks of additional data on entry; here they
  are arguments. Encryption and decryption work in place on the data.
\<close>

section \<open>Blocks\<close>

definition AES_BLOCK_SIZE :: nat where "AES_BLOCK_SIZE = 16"
definition CCMP_MIC_LEN :: nat where "CCMP_MIC_LEN = 8"

text \<open>All that is relied on of the cipher: it yields blocks.\<close>

definition block_cipher :: "(u8 list \<Rightarrow> u8 list) \<Rightarrow> bool" where
  "block_cipher E \<longleftrightarrow> (\<forall>x. length (E x) = 16)"

text \<open>\<open>a[i] ^= b[i]\<close> for the indices of \<open>b\<close>.\<close>

definition xor_into :: "u8 list \<Rightarrow> u8 list \<Rightarrow> u8 list" where
  "xor_into a b = map2 (\<lambda>x y. x XOR y) a b @ drop (length b) a"

lemma length_xor_into [simp]: "length b \<le> length a \<Longrightarrow> length (xor_into a b) = length a"
  by (simp add: xor_into_def)

lemma map2_xor_self: "length e = length b \<Longrightarrow> map2 (\<lambda>x y. x XOR y) (map2 (\<lambda>x y. x XOR y) b e) e = (b :: u8 list)"
  by (induction e b rule: list_induct2) (simp_all add: ac_simps)

lemma map2_xor_cancel:
  "length a = length s \<Longrightarrow> length b = length s \<Longrightarrow>
     (map2 (\<lambda>x y. x XOR y) a s = map2 (\<lambda>x y. x XOR y) b s) = (a = (b :: u8 list))"
  by (metis map2_xor_self)

section \<open>The code\<close>

definition aes_ccm_prepare :: "(u8 list \<Rightarrow> u8 list) \<Rightarrow> u8 list \<Rightarrow> u8 list \<Rightarrow> u8 list \<times> u8 list \<times> u8 list" where
  "aes_ccm_prepare E b_0 aad =
     (let b = E b_0;
          b = E (xor_into (take 16 aad) b);
          a = E (xor_into (drop 16 aad) b);
          b_0 = b_0[0 := b_0 ! 0 AND 7];
          b_0 = b_0[14 := 0, 15 := 0] in
      (a, E b_0, b_0))"

definition DIV_ROUND_UP :: "nat \<Rightarrow> nat \<Rightarrow> nat" where
  "DIV_ROUND_UP n d = (n + d - 1) div d"

definition ccm_blen :: "nat \<Rightarrow> nat \<Rightarrow> nat \<Rightarrow> nat" where
  "ccm_blen num_blocks last_len j = (if j = num_blocks \<and> last_len \<noteq> 0 then last_len else AES_BLOCK_SIZE)"

definition ccm_counter :: "u8 list \<Rightarrow> nat \<Rightarrow> u8 list" where
  "ccm_counter b_0 j = b_0[14 := of_nat (j div 256), 15 := of_nat j]"

text \<open>Authentication followed by encryption, from block \<open>j\<close> on; \<open>pos\<close> is the data left.\<close>

function ccm_encrypt_loop ::
  "(u8 list \<Rightarrow> u8 list) \<Rightarrow> nat \<Rightarrow> nat \<Rightarrow> nat \<Rightarrow> u8 list \<Rightarrow> u8 list \<Rightarrow> u8 list \<Rightarrow> u8 list \<times> u8 list" where
  "ccm_encrypt_loop E num_blocks last_len j b b_0 pos =
     (if j \<le> num_blocks then
        (let blen = ccm_blen num_blocks last_len j;
             b = E (xor_into b (take blen pos));
             b_0 = ccm_counter b_0 j;
             e = E b_0;
             cpos = map2 (\<lambda>x y. x XOR y) (take blen pos) e;
             (b, rest) = ccm_encrypt_loop E num_blocks last_len (j + 1) b b_0 (drop blen pos) in
         (b, cpos @ rest))
      else (b, []))"
  by pat_completeness auto

termination ccm_encrypt_loop
  by (relation "measure (\<lambda>(_, num_blocks, _, j, _). num_blocks + 1 - j)") auto

text \<open>Decryption followed by authentication.\<close>

function ccm_decrypt_loop ::
  "(u8 list \<Rightarrow> u8 list) \<Rightarrow> nat \<Rightarrow> nat \<Rightarrow> nat \<Rightarrow> u8 list \<Rightarrow> u8 list \<Rightarrow> u8 list \<Rightarrow> u8 list \<times> u8 list" where
  "ccm_decrypt_loop E num_blocks last_len j a b_0 cpos =
     (if j \<le> num_blocks then
        (let blen = ccm_blen num_blocks last_len j;
             b_0 = ccm_counter b_0 j;
             b = E b_0;
             pos = map2 (\<lambda>x y. x XOR y) (take blen cpos) b;
             a = E (xor_into a pos);
             (a, rest) = ccm_decrypt_loop E num_blocks last_len (j + 1) a b_0 (drop blen cpos) in
         (a, pos @ rest))
      else (a, []))"
  by pat_completeness auto

termination ccm_decrypt_loop
  by (relation "measure (\<lambda>(_, num_blocks, _, j, _). num_blocks + 1 - j)") auto

declare ccm_encrypt_loop.simps [simp del] ccm_decrypt_loop.simps [simp del]

text \<open>The ciphertext and the MIC.\<close>

definition ieee80211_aes_ccm_encrypt ::
  "(u8 list \<Rightarrow> u8 list) \<Rightarrow> u8 list \<Rightarrow> u8 list \<Rightarrow> u8 list \<Rightarrow> u8 list \<times> u8 list" where
  "ieee80211_aes_ccm_encrypt E b_0 aad data =
     (let num_blocks = DIV_ROUND_UP (length data) AES_BLOCK_SIZE;
          last_len = length data mod AES_BLOCK_SIZE;
          (b, s_0, b_0) = aes_ccm_prepare E b_0 aad;
          (b, cdata) = ccm_encrypt_loop E num_blocks last_len 1 b b_0 data in
      (cdata, map2 (\<lambda>x y. x XOR y) (take CCMP_MIC_LEN b) (take CCMP_MIC_LEN s_0)))"

text \<open>The plaintext, and whether the MIC is the expected one (the code returns 0 or -1).\<close>

definition ieee80211_aes_ccm_decrypt ::
  "(u8 list \<Rightarrow> u8 list) \<Rightarrow> u8 list \<Rightarrow> u8 list \<Rightarrow> u8 list \<Rightarrow> u8 list \<Rightarrow> u8 list \<times> bool" where
  "ieee80211_aes_ccm_decrypt E b_0 aad cdata mic =
     (let num_blocks = DIV_ROUND_UP (length cdata) AES_BLOCK_SIZE;
          last_len = length cdata mod AES_BLOCK_SIZE;
          (a, s_0, b_0) = aes_ccm_prepare E b_0 aad;
          (a, data) = ccm_decrypt_loop E num_blocks last_len 1 a b_0 cdata in
      (data, map2 (\<lambda>x y. x XOR y) mic (take CCMP_MIC_LEN s_0) = take CCMP_MIC_LEN a))"

section \<open>Decryption inverts encryption, and the other way round\<close>

text \<open>The number of bytes from block \<open>j\<close> on.\<close>

definition ccm_left :: "nat \<Rightarrow> nat \<Rightarrow> nat \<Rightarrow> nat" where
  "ccm_left num_blocks last_len j =
     (if num_blocks < j then 0
      else 16 * (num_blocks - j) + (if last_len = 0 then 16 else last_len))"

lemma ccm_left_step:
  assumes "j \<le> num_blocks" "last_len < 16"
  shows "ccm_left num_blocks last_len j = ccm_blen num_blocks last_len j + ccm_left num_blocks last_len (j + 1)"
    "ccm_blen num_blocks last_len j \<le> 16"
  using assms by (auto simp: ccm_left_def ccm_blen_def AES_BLOCK_SIZE_def)

lemma ccm_left_all: "ccm_left (DIV_ROUND_UP n AES_BLOCK_SIZE) (n mod AES_BLOCK_SIZE) 1 = n"
proof -
  have n: "n = 16 * (n div 16) + n mod 16" by simp
  have q: "(n + 15) div 16 = (if n mod 16 = 0 then n div 16 else n div 16 + 1)" by presburger
  show ?thesis
  proof (cases "n mod 16 = 0")
    case True
    then have "DIV_ROUND_UP n AES_BLOCK_SIZE = n div 16" using q by (simp add: DIV_ROUND_UP_def AES_BLOCK_SIZE_def)
    then show ?thesis using n True by (cases "n div 16") (simp_all add: ccm_left_def AES_BLOCK_SIZE_def)
  next
    case False
    then have "DIV_ROUND_UP n AES_BLOCK_SIZE = n div 16 + 1" using q by (simp add: DIV_ROUND_UP_def AES_BLOCK_SIZE_def)
    then show ?thesis using n False by (simp add: ccm_left_def AES_BLOCK_SIZE_def)
  qed
qed

lemma length_map2_blocks: "length x \<le> 16 \<Longrightarrow> length e = 16 \<Longrightarrow> length (map2 (\<lambda>x y. x XOR y) x (e :: u8 list)) = length x"
  by simp

lemma map2_xor_take:
  assumes "length x \<le> length e"
  shows "map2 (\<lambda>x y. x XOR y) (map2 (\<lambda>x y. x XOR y) x e) e = (x :: u8 list)"
  using assms by (induction x arbitrary: e) (auto simp: Suc_le_length_iff ac_simps)

lemma ccm_loop_length:
  assumes "block_cipher E" "last_len < 16" "length d = ccm_left num_blocks last_len j"
  shows "length (snd (ccm_encrypt_loop E num_blocks last_len j b b_0 d)) = length d \<and>
    length (snd (ccm_decrypt_loop E num_blocks last_len j b b_0 d)) = length d"
  using assms
proof (induction "num_blocks + 1 - j" arbitrary: j b b_0 d)
  case 0
  then show ?case
    by (simp add: ccm_encrypt_loop.simps [of _ _ _ j] ccm_decrypt_loop.simps [of _ _ _ j] ccm_left_def)
next
  case (Suc n)
  then have j: "j \<le> num_blocks" "n = num_blocks + 1 - (j + 1)" by simp_all
  note s = ccm_left_step [OF j(1) Suc.prems(2)] and E = Suc.prems(1) [unfolded block_cipher_def, rule_format]
  have l: "length (drop (ccm_blen num_blocks last_len j) d) = ccm_left num_blocks last_len (j + 1)"
    using s Suc.prems(3) by simp
  show ?case using Suc.hyps(1) [OF j(2) Suc.prems(1,2) l] s E Suc.prems(3) j
    by (simp add: ccm_encrypt_loop.simps [of _ _ _ j] ccm_decrypt_loop.simps [of _ _ _ j] Let_def split_beta)
qed

lemma ccm_loops_inverse:
  assumes "block_cipher E" "last_len < 16" "length d = ccm_left num_blocks last_len j"
  shows "ccm_decrypt_loop E num_blocks last_len j b b_0 (snd (ccm_encrypt_loop E num_blocks last_len j b b_0 d)) =
      (fst (ccm_encrypt_loop E num_blocks last_len j b b_0 d), d) \<and>
    ccm_encrypt_loop E num_blocks last_len j b b_0 (snd (ccm_decrypt_loop E num_blocks last_len j b b_0 d)) =
      (fst (ccm_decrypt_loop E num_blocks last_len j b b_0 d), d)"
  using assms
proof (induction "num_blocks + 1 - j" arbitrary: j b b_0 d)
  case 0
  then show ?case
    by (simp add: ccm_encrypt_loop.simps [of _ _ _ j] ccm_decrypt_loop.simps [of _ _ _ j] ccm_left_def)
next
  case (Suc n)
  then have j: "j \<le> num_blocks" "n = num_blocks + 1 - (j + 1)" by simp_all
  let ?k = "ccm_blen num_blocks last_len j" and ?e = "E (ccm_counter b_0 j)"
  let ?x = "map2 (\<lambda>x y. x XOR y) (take ?k d) ?e"
  note s = ccm_left_step [OF j(1) Suc.prems(2)] and E = Suc.prems(1) [unfolded block_cipher_def, rule_format]
  have l: "length (drop ?k d) = ccm_left num_blocks last_len (j + 1)" using s Suc.prems(3) by simp
  have k: "length (take ?k d) = ?k" using s(1) Suc.prems(3) by simp
  then have x: "length ?x = ?k" "map2 (\<lambda>x y. x XOR y) ?x ?e = take ?k d"
    using s(2) E [of "ccm_counter b_0 j"] map2_xor_take [of "take ?k d" ?e] by simp_all
  have c: "take ?k (?x @ r) = ?x" "drop ?k (?x @ r) = r" for r using x(1) by simp_all
  note IH = Suc.hyps(1) [OF j(2) Suc.prems(1,2) l]
  have "ccm_decrypt_loop E num_blocks last_len j b b_0 (snd (ccm_encrypt_loop E num_blocks last_len j b b_0 d)) =
      (fst (ccm_encrypt_loop E num_blocks last_len j b b_0 d), d)"
    using IH [of "E (xor_into b (take ?k d))" "ccm_counter b_0 j", THEN conjunct1] j(1)
    unfolding ccm_encrypt_loop.simps [of _ _ _ j] ccm_decrypt_loop.simps [of _ _ _ j] Let_def split_beta if_P [OF j(1)] fst_conv snd_conv
      c x(2) by simp
  moreover have "ccm_encrypt_loop E num_blocks last_len j b b_0 (snd (ccm_decrypt_loop E num_blocks last_len j b b_0 d)) =
      (fst (ccm_decrypt_loop E num_blocks last_len j b b_0 d), d)"
    using IH [of "E (xor_into b ?x)" "ccm_counter b_0 j", THEN conjunct2] j(1)
    unfolding ccm_encrypt_loop.simps [of _ _ _ j] ccm_decrypt_loop.simps [of _ _ _ j] Let_def split_beta if_P [OF j(1)] fst_conv snd_conv
      c x(2) by simp
  ultimately show ?case ..
qed

lemma ccm_prepare_blocks:
  assumes "block_cipher E"
  shows "length (fst (aes_ccm_prepare E b_0 aad)) = 16" "length (fst (snd (aes_ccm_prepare E b_0 aad))) = 16"
  using assms by (simp_all add: aes_ccm_prepare_def Let_def block_cipher_def)

lemma ccm_loop_block:
  assumes "block_cipher E" "length b = 16"
  shows "length (fst (ccm_decrypt_loop E num_blocks last_len j b b_0 d)) = 16"
    "length (fst (ccm_encrypt_loop E num_blocks last_len j b b_0 d)) = 16"
proof -
  have "length (fst (ccm_decrypt_loop E num_blocks last_len j b b_0 d)) = 16 \<and>
    length (fst (ccm_encrypt_loop E num_blocks last_len j b b_0 d)) = 16" if "length b = 16" for b
    using that
  proof (induction "num_blocks + 1 - j" arbitrary: j b b_0 d)
    case 0
    then show ?case by (simp add: ccm_encrypt_loop.simps [of _ _ _ j] ccm_decrypt_loop.simps [of _ _ _ j])
  next
    case (Suc n)
    then have j: "j \<le> num_blocks" "n = num_blocks + 1 - (j + 1)" by simp_all
    show ?case
      using Suc.hyps(1) [OF j(2)] assms(1) [unfolded block_cipher_def, rule_format] j(1)
      by (simp add: ccm_encrypt_loop.simps [of _ _ _ j] ccm_decrypt_loop.simps [of _ _ _ j] Let_def split_beta)
  qed
  then show "length (fst (ccm_decrypt_loop E num_blocks last_len j b b_0 d)) = 16"
    "length (fst (ccm_encrypt_loop E num_blocks last_len j b b_0 d)) = 16" using assms(2) by blast+
qed

lemma ccm_decrypt_iff:
  assumes "block_cipher E" "length mic = 8"
  shows "ieee80211_aes_ccm_decrypt E b_0 aad c mic = (d, True) \<longleftrightarrow> ieee80211_aes_ccm_encrypt E b_0 aad d = (c, mic)"
proof -
  obtain a s_0 b_0' where p: "aes_ccm_prepare E b_0 aad = (a, s_0, b_0')" by (metis prod_cases3)
  have len: "length a = 16" "length s_0 = 16" using ccm_prepare_blocks [OF assms(1), of b_0 aad] by (simp_all add: p)
  let ?enc = "\<lambda>x. ccm_encrypt_loop E (DIV_ROUND_UP (length x) AES_BLOCK_SIZE) (length x mod AES_BLOCK_SIZE) 1 a b_0' x"
  let ?dec = "\<lambda>x. ccm_decrypt_loop E (DIV_ROUND_UP (length x) AES_BLOCK_SIZE) (length x mod AES_BLOCK_SIZE) 1 a b_0' x"
  have inv: "length (snd (?enc x)) = length x" "length (snd (?dec x)) = length x"
    "?dec (snd (?enc x)) = (fst (?enc x), x)" "?enc (snd (?dec x)) = (fst (?dec x), x)" for x
    using ccm_loop_length [OF assms(1), of "length x mod AES_BLOCK_SIZE" x]
      ccm_loops_inverse [OF assms(1), of "length x mod AES_BLOCK_SIZE" x] ccm_left_all [of "length x"]
    by (simp_all add: AES_BLOCK_SIZE_def)
  have m: "map2 (\<lambda>x y. x XOR y) mic (take 8 s_0) = take 8 t \<longleftrightarrow> map2 (\<lambda>x y. x XOR y) (take 8 t) (take 8 s_0) = mic"
    if "length t = 16" for t
    using map2_xor_self [of "take 8 s_0" mic] map2_xor_self [of "take 8 s_0" "take 8 t"] len(2) assms(2) that by auto
  have t: "length (fst (?dec x)) = 16" for x using ccm_loop_block(1) [OF assms(1) len(1)] .
  have e: "?dec c = (t, d) \<longleftrightarrow> ?enc d = (t, c)" for t
    by (metis inv(3,4) fst_conv snd_conv)
  have "ieee80211_aes_ccm_decrypt E b_0 aad c mic = (d, True) \<longleftrightarrow>
      (\<exists>t. ?dec c = (t, d) \<and> map2 (\<lambda>x y. x XOR y) mic (take 8 s_0) = take 8 t)"
    by (simp add: ieee80211_aes_ccm_decrypt_def p CCMP_MIC_LEN_def split: prod.split)
  also have "\<dots> \<longleftrightarrow> (\<exists>t. ?enc d = (t, c) \<and> map2 (\<lambda>x y. x XOR y) (take 8 t) (take 8 s_0) = mic)"
    using m t [of c] unfolding e [symmetric] by (metis fst_conv)
  also have "\<dots> \<longleftrightarrow> ieee80211_aes_ccm_encrypt E b_0 aad d = (c, mic)"
    by (simp add: ieee80211_aes_ccm_encrypt_def p CCMP_MIC_LEN_def split: prod.split)
  finally show ?thesis .
qed

lemma ccm_encrypt_lengths:
  assumes "block_cipher E"
  shows "length (fst (ieee80211_aes_ccm_encrypt E b_0 aad d)) = length d" "length (snd (ieee80211_aes_ccm_encrypt E b_0 aad d)) = 8"
proof -
  obtain a s_0 b_0' where p: "aes_ccm_prepare E b_0 aad = (a, s_0, b_0')" by (metis prod_cases3)
  have len: "length a = 16" "length s_0 = 16" using ccm_prepare_blocks [OF assms(1), of b_0 aad] by (simp_all add: p)
  let ?enc = "ccm_encrypt_loop E (DIV_ROUND_UP (length d) AES_BLOCK_SIZE) (length d mod AES_BLOCK_SIZE) 1 a b_0' d"
  show "length (fst (ieee80211_aes_ccm_encrypt E b_0 aad d)) = length d"
    using ccm_loop_length [OF assms(1), of "length d mod AES_BLOCK_SIZE" d] ccm_left_all [of "length d"]
    by (simp add: ieee80211_aes_ccm_encrypt_def p Let_def split_beta AES_BLOCK_SIZE_def)
  have "length (fst ?enc) = 16" using ccm_loop_block(2) [OF assms(1) len(1)] .
  then show "length (snd (ieee80211_aes_ccm_encrypt E b_0 aad d)) = 8"
    using len by (simp add: ieee80211_aes_ccm_encrypt_def p Let_def split_beta CCMP_MIC_LEN_def)
qed

end
