(* ===== verification/Aes_Cmac.thy ===== *)
theory Aes_Cmac
  imports Aes_Ccm
begin

text \<open>
  \<open>mac80211/aes_cmac.c\<close>: the AES-CMAC of a message given in pieces, and the standard's definition of the
  CMAC of one message. The block cipher is a parameter, as in \<open>Aes_Ccm\<close>. \<open>None\<close> is a read outside a piece.
\<close>

section \<open>The code\<close>

definition CMAC_TLEN :: nat where "CMAC_TLEN = 8"

definition gf_mulx :: "u8 list \<Rightarrow> u8 list" where
  "gf_mulx pad =
     (let carry = pad ! 0 AND 0x80;
          pad = map (\<lambda>i. push_bit 1 (pad ! i) OR drop_bit 7 (pad ! (i + 1))) [0..<15] @ [push_bit 1 (pad ! 15)] in
      if carry \<noteq> 0 then pad[15 := pad ! 15 XOR 0x87] else pad)"

text \<open>A cursor is the number of the piece and the position in it; a byte is read and the cursor moved.\<close>

definition cmac_byte :: "u8 list list \<Rightarrow> nat \<times> nat \<Rightarrow> (u8 \<times> nat \<times> nat) option" where
  "cmac_byte elems cur = do {
     let (e, pos) = cur;
     x \<leftarrow> rd2 elems e pos;
     Some (x, if length (elems ! e) \<le> pos + 1 then (e + 1, 0) else (e, pos + 1)) }"

fun cmac_xor :: "u8 list list \<Rightarrow> nat \<times> nat \<Rightarrow> nat \<Rightarrow> nat \<Rightarrow> u8 list \<Rightarrow> (u8 list \<times> nat \<times> nat) option" where
  "cmac_xor elems cur i 0 cbc = Some (cbc, cur)"
| "cmac_xor elems cur i (Suc n) cbc = do {
     (x, cur) \<leftarrow> cmac_byte elems cur;
     cbc \<leftarrow> upd cbc i (\<lambda>b. b XOR x);
     cmac_xor elems cur (i + 1) n cbc }"

function cmac_blocks ::
  "(u8 list \<Rightarrow> u8 list) \<Rightarrow> u8 list list \<Rightarrow> nat \<times> nat \<Rightarrow> nat \<Rightarrow> u8 list \<Rightarrow> (u8 list \<times> (nat \<times> nat) \<times> nat) option" where
  "cmac_blocks E elems cur left cbc =
     (if AES_BLOCK_SIZE \<le> left then do {
        (cbc, cur) \<leftarrow> cmac_xor elems cur 0 AES_BLOCK_SIZE cbc;
        cmac_blocks E elems cur (left - AES_BLOCK_SIZE) (if AES_BLOCK_SIZE < left then E cbc else cbc) }
      else Some (cbc, cur, left))"
  by pat_completeness auto

termination cmac_blocks
  by (relation "measure (\<lambda>(_, _, _, left, _). left)") (auto simp: AES_BLOCK_SIZE_def)

declare cmac_blocks.simps [simp del]

definition aes_128_cmac_vector :: "(u8 list \<Rightarrow> u8 list) \<Rightarrow> u8 list list \<Rightarrow> u8 list option" where
  "aes_128_cmac_vector E elems = do {
     let total_len = sum_list (map length elems);
     (cbc, cur, left) \<leftarrow> cmac_blocks E elems (0, 0) total_len (replicate AES_BLOCK_SIZE 0);
     let pad = gf_mulx (E (replicate AES_BLOCK_SIZE 0));
     (cbc, pad) \<leftarrow> (if left \<noteq> 0 \<or> total_len = 0 then do {
          (cbc, cur) \<leftarrow> cmac_xor elems cur 0 left cbc;
          cbc \<leftarrow> upd cbc left (\<lambda>b. b XOR 0x80);
          Some (cbc, gf_mulx pad) }
        else Some (cbc, pad));
     Some (take CMAC_TLEN (E (map2 (\<lambda>x y. x XOR y) pad cbc))) }"

definition ieee80211_aes_cmac :: "(u8 list \<Rightarrow> u8 list) \<Rightarrow> u8 list \<Rightarrow> u8 list \<Rightarrow> u8 list option" where
  "ieee80211_aes_cmac E aad data =
     aes_128_cmac_vector E [aad, take (length data - CMAC_TLEN) data, replicate CMAC_TLEN 0]"

section \<open>The standard\<close>

text \<open>
  RFC 4493: the message is cut into blocks, chained through the cipher; the last one is combined with
  the first subkey when it is complete, and padded and combined with the second one when it is not.
\<close>

definition xor16 :: "u8 list \<Rightarrow> u8 list \<Rightarrow> u8 list" where
  "xor16 a b = map2 (\<lambda>x y. x XOR y) a b"

function cmac_chain :: "(u8 list \<Rightarrow> u8 list) \<Rightarrow> u8 list \<Rightarrow> u8 list \<Rightarrow> u8 list \<Rightarrow> u8 list \<Rightarrow> u8 list" where
  "cmac_chain E k1 k2 c m =
     (if 16 < length m then cmac_chain E k1 k2 (E (xor16 c (take 16 m))) (drop 16 m)
      else if length m = 16 then E (xor16 (xor16 m k1) c)
      else E (xor16 (xor16 (m @ [0x80] @ replicate (15 - length m) 0) k2) c))"
  by pat_completeness auto

termination cmac_chain
  by (relation "measure (\<lambda>(_, _, _, _, m). length m)") auto

declare cmac_chain.simps [simp del]

text \<open>
  The subkeys, as the standard writes them: the cipher of the zero block is a number of 128 bits, first
  byte most significant; it is doubled twice in the field of the polynomial \<open>x^128 + x^7 + x^2 + x + 1\<close>.
\<close>

definition block_num :: "u8 list \<Rightarrow> 128 word" where
  "block_num bs = word_rcat bs"

definition num_block :: "128 word \<Rightarrow> u8 list" where
  "num_block w = map (\<lambda>i. ucast (drop_bit (8 * (15 - i)) w)) [0..<16]"

definition cmac_double :: "128 word \<Rightarrow> 128 word" where
  "cmac_double w = (if bit w 127 then push_bit 1 w XOR 0x87 else push_bit 1 w)"

definition cmac_standard :: "(u8 list \<Rightarrow> u8 list) \<Rightarrow> u8 list \<Rightarrow> u8 list" where
  "cmac_standard E m =
     (let k1 = cmac_double (block_num (E (replicate 16 0))); k2 = cmac_double k1 in
      cmac_chain E (num_block k1) (num_block k2) (replicate 16 0) m)"

text \<open>The subkeys of the example of RFC 4493, section 4.\<close>

lemma cmac_subkeys_rfc4493:
  "cmac_double 0x7df76b0c1ab899b33e42f047b91b546f = 0xfbeed618357133667c85e08f7236a8de"
  "cmac_double 0xfbeed618357133667c85e08f7236a8de = 0xf7ddac306ae266ccf90bc11ee46d513b"
  by (simp_all add: cmac_double_def)

section \<open>The code doubles the subkeys as the standard does\<close>

lemma length_num_block [simp]: "length (num_block w) = 16"
  by (simp add: num_block_def)

lemma bit_block_num:
  "length bs = 16 \<Longrightarrow> bit (block_num bs) n \<longleftrightarrow> n < 128 \<and> bit (bs ! (15 - n div 8)) (n mod 8)"
  using bit_horner_sum_uint_exp_iff [of "rev bs" n]
  by (auto simp: block_num_def word_rcat_def bit_word_of_int_iff rev_nth)

lemma bit_num_block: "i < 16 \<Longrightarrow> bit (num_block w ! i) n \<longleftrightarrow> n < 8 \<and> bit w (8 * (15 - i) + n)"
  by (auto simp: num_block_def bit_simps)

lemma block_num_num_block [simp]: "block_num (num_block w) = w"
proof (rule bit_word_eqI)
  fix n assume "n < LENGTH(128)"
  then have n: "n < 128" "n div 8 < 16" "15 - n div 8 < 16" by auto
  have e: "8 * (n div 8) + n mod 8 = n" by (rule mult_div_mod_eq)
  have "8 * (15 - (15 - n div 8)) + n mod 8 = n" using n(2) e by (simp add: diff_diff_right)
  then show "bit (block_num (num_block w)) n \<longleftrightarrow> bit w n"
    by (simp add: bit_block_num bit_num_block n)
qed

lemma length_gf_mulx [simp]: "length (gf_mulx pad) = 16"
  by (simp add: gf_mulx_def Let_def)

text \<open>A bit of the doubled number is the bit below it, and the carry is folded into the last byte.\<close>

lemma bit_gf_mulx:
  assumes "length pad = 16" "i < 16" "n < 8"
  shows "bit (gf_mulx pad ! i) n \<longleftrightarrow>
     (if n = 0 then i < 15 \<and> bit (pad ! (i + 1)) 7 else bit (pad ! i) (n - 1)) \<noteq> (i = 15 \<and> bit (pad ! 0) 7 \<and> bit (0x87 :: u8) n)"
proof -
  have c: "(pad ! 0 AND 0x80 \<noteq> 0) = bit (pad ! 0) 7"
    using and_exp_eq_0_iff_not_bit [of "pad ! 0" 7] by simp
  show ?thesis
  proof (cases "i = 15")
    case True
    then have "gf_mulx pad ! i = (if bit (pad ! 0) 7 then push_bit 1 (pad ! 15) XOR 0x87 else push_bit 1 (pad ! 15))"
      using c by (simp add: gf_mulx_def Let_def nth_append)
    then show ?thesis using True assms by (cases n) (auto simp: bit_simps simp del: push_bit_Suc push_bit_numeral One_nat_def)
  next
    case False
    then have "i < 15" using assms(2) by simp
    then have "gf_mulx pad ! i = push_bit 1 (pad ! i) OR drop_bit 7 (pad ! (i + 1))"
      by (auto simp: gf_mulx_def Let_def nth_append)
    moreover have "\<not> bit (pad ! (i + 1)) (7 + n)" if "n \<noteq> 0" using that bit_imp_le_length [of "pad ! (i + 1)" "7 + n"] by auto
    ultimately show ?thesis using assms \<open>i < 15\<close>
      by (cases n) (auto simp: bit_simps simp del: push_bit_Suc push_bit_numeral One_nat_def)
  qed
qed

lemma bit_double:
  "bit (cmac_double w) k \<longleftrightarrow> (0 < k \<and> k < 128 \<and> bit w (k - 1)) \<noteq> (bit w 127 \<and> bit (0x87 :: 128 word) k)"
proof -
  have "bit (push_bit 1 w) k \<longleftrightarrow> 0 < k \<and> k < 128 \<and> bit w (k - 1)" for w :: "128 word"
    by (auto simp only: bit_push_bit_iff possible_bit_word) auto
  then show ?thesis by (simp only: cmac_double_def if_distrib bit_xor_iff split: if_split) blast
qed

lemma bit_cmac_double:
  assumes "i < 16" "n < 8"
  shows "bit (cmac_double w) (8 * (15 - i) + n) \<longleftrightarrow>
     (if n = 0 then i < 15 \<and> bit w (8 * (14 - i) + 7) else bit w (8 * (15 - i) + (n - 1))) \<noteq>
     (i = 15 \<and> bit w 127 \<and> bit (0x87 :: u8) n)"
proof -
  let ?k = "8 * (15 - i) + n"
  have u: "(0x87 :: 128 word) = ucast (0x87 :: u8)" by simp
  have nb: "\<not> bit (0x87 :: u8) ?k" if "i \<noteq> 15" using that assms bit_imp_le_length [of "0x87 :: u8" ?k] by auto
  have c: "bit (0x87 :: 128 word) ?k \<longleftrightarrow> i = 15 \<and> bit (0x87 :: u8) n"
    unfolding u bit_unsigned_iff possible_bit_word using nb assms(2) by (cases "i = 15") (simp, blast)
  have e: "?k - 1 = (if n = 0 then 8 * (14 - i) + 7 else 8 * (15 - i) + (n - 1))" "0 < ?k" if "i < 15" using that by auto
  have "?k < 128" using assms by auto
  then show ?thesis using assms e unfolding bit_double c
    by (cases "i = 15"; cases "n = 0") (simp_all only: if_True if_False, auto)
qed

lemma gf_mulx_double:
  assumes "length pad = 16"
  shows "gf_mulx pad = num_block (cmac_double (block_num pad))"
proof (rule nth_equalityI)
  fix i assume "i < length (gf_mulx pad)"
  then have i: "i < 16" by simp
  show "gf_mulx pad ! i = num_block (cmac_double (block_num pad)) ! i"
  proof (rule bit_word_eqI)
    fix n assume "n < LENGTH(8)"
    then have n: "n < 8" by simp
    have k: "8 * (15 - i) + (n - 1) < 128" "15 - (8 * (15 - i) + (n - 1)) div 8 = i" "(8 * (15 - i) + (n - 1)) mod 8 = n - 1"
      using i n by auto
    have k0: "8 * (14 - i) + 7 < 128" "15 - (8 * (14 - i) + 7) div 8 = i + 1" "(8 * (14 - i) + 7) mod 8 = 7" if "i < 15"
      using that by auto
    have k1: "bit (block_num pad) 127 = bit (pad ! 0) 7" by (simp add: bit_block_num [OF assms])
    have b: "bit (block_num pad) (8 * (15 - i) + (n - 1)) = bit (pad ! i) (n - 1)"
      unfolding bit_block_num [OF assms] k(2,3) using k(1) by blast
    have b0: "bit (block_num pad) (8 * (14 - i) + 7) = bit (pad ! (i + 1)) 7" if "i < 15"
      unfolding bit_block_num [OF assms] k0(2,3) [OF that] using k0(1) [OF that] by blast
    show "bit (gf_mulx pad ! i) n \<longleftrightarrow> bit (num_block (cmac_double (block_num pad)) ! i) n"
      unfolding bit_gf_mulx [OF assms i n] bit_num_block [OF i] bit_cmac_double [OF i n] k1 b
      using b0 n by (cases "i < 15") simp_all
  qed
qed simp

section \<open>The code computes the standard's CMAC\<close>

definition cmac_rest :: "u8 list list \<Rightarrow> nat \<times> nat \<Rightarrow> u8 list" where
  "cmac_rest elems cur = (if fst cur < length elems then drop (snd cur) (elems ! fst cur) @ concat (drop (fst cur + 1) elems) else [])"

definition cursor_ok :: "u8 list list \<Rightarrow> nat \<times> nat \<Rightarrow> bool" where
  "cursor_ok elems cur \<longleftrightarrow> (fst cur < length elems \<longrightarrow> snd cur < length (elems ! fst cur))"

lemma cmac_byte_rest:
  assumes "[] \<notin> set elems" "cursor_ok elems cur" "cmac_rest elems cur = x # r"
  shows "\<exists>cur'. cmac_byte elems cur = Some (x, cur') \<and> cursor_ok elems cur' \<and> cmac_rest elems cur' = r"
proof -
  obtain e pos where c: "cur = (e, pos)" by fastforce
  have e: "e < length elems" using assms(3) by (auto simp: c cmac_rest_def split: if_splits)
  then have p: "pos < length (elems ! e)" using assms(2) by (simp add: c cursor_ok_def)
  have r: "elems ! e ! pos # drop (pos + 1) (elems ! e) @ concat (drop (e + 1) elems) = x # r"
    using assms(3) e p by (simp add: c cmac_rest_def Cons_nth_drop_Suc [symmetric])
  have n: "elems ! (e + 1) \<noteq> []" if "e + 1 < length elems" using assms(1) that nth_mem by metis
  show ?thesis
  proof (cases "length (elems ! e) \<le> pos + 1")
    case True
    have "concat (drop (e + 1) elems) = cmac_rest elems (e + 1, 0)"
      by (cases "e + 1 < length elems") (simp_all add: cmac_rest_def Cons_nth_drop_Suc [symmetric])
    then show ?thesis using True r e p n
      by (intro exI [of _ "(e + 1, 0)"]) (auto simp: cmac_byte_def c cursor_ok_def)
  next
    case False
    then show ?thesis using r e p
      by (intro exI [of _ "(e, pos + 1)"]) (auto simp: cmac_byte_def c cursor_ok_def cmac_rest_def)
  qed
qed

lemma cmac_xor_rest:
  assumes "[] \<notin> set elems" "cursor_ok elems cur" "n \<le> length (cmac_rest elems cur)" "i + n \<le> length cbc"
  shows "\<exists>cur'. cmac_xor elems cur i n cbc =
      Some (take i cbc @ map2 (\<lambda>x y. x XOR y) (drop i (take (i + n) cbc)) (take n (cmac_rest elems cur)) @ drop (i + n) cbc, cur') \<and>
     cursor_ok elems cur' \<and> cmac_rest elems cur' = drop n (cmac_rest elems cur)"
  using assms
proof (induction n arbitrary: cur i cbc)
  case 0
  then show ?case by simp
next
  case (Suc n)
  then obtain x r where r: "cmac_rest elems cur = x # r" "n \<le> length r" by (auto simp: Suc_le_length_iff)
  from cmac_byte_rest [OF assms(1) Suc.prems(2) r(1)] obtain c1 where
    c1: "cmac_byte elems cur = Some (x, c1)" "cursor_ok elems c1" "cmac_rest elems c1 = r" by blast
  have i: "i < length cbc" using Suc.prems(4) by simp
  let ?cbc = "cbc[i := cbc ! i XOR x]"
  from Suc.IH [OF assms(1) c1(2), of "i + 1" ?cbc] c1(3) r(2) Suc.prems(4) obtain c2 where
    c2: "cmac_xor elems c1 (i + 1) n ?cbc = Some (take (i + 1) ?cbc @ map2 (\<lambda>x y. x XOR y) (drop (i + 1) (take (i + 1 + n) ?cbc)) (take n r) @
        drop (i + 1 + n) ?cbc, c2)" "cursor_ok elems c2" "cmac_rest elems c2 = drop n r" by auto
  have "take (i + 1) ?cbc @ map2 (\<lambda>x y. x XOR y) (drop (i + 1) (take (i + 1 + n) ?cbc)) (take n r) @ drop (i + 1 + n) ?cbc =
      take i cbc @ map2 (\<lambda>x y. x XOR y) (drop i (take (i + Suc n) cbc)) (take (Suc n) (x # r)) @ drop (i + Suc n) cbc"
  proof -
    have "take (i + 1) ?cbc = take i cbc @ [cbc ! i XOR x]" using i by (simp add: take_Suc_conv_app_nth)
    moreover have "drop (i + 1) (take (i + 1 + n) ?cbc) = drop (i + 1) (take (i + Suc n) cbc)" by (simp add: drop_take)
    moreover have "drop i (take (i + Suc n) cbc) = cbc ! i # drop (i + 1) (take (i + Suc n) cbc)"
      using i Suc.prems(4) by (subst Cons_nth_drop_Suc [symmetric]) simp_all
    ultimately show ?thesis by simp
  qed
  then show ?case using c1 c2 i r(1) by (simp del: append_assoc)
qed

lemma length_xor16 [simp]: "length (xor16 a b) = min (length a) (length b)"
  by (simp add: xor16_def)

lemma xor16_nth: "i < length a \<Longrightarrow> i < length b \<Longrightarrow> xor16 a b ! i = a ! i XOR b ! i"
  by (simp add: xor16_def)

lemma cmac_xor_block:
  assumes "[] \<notin> set elems" "cursor_ok elems cur" "16 \<le> length (cmac_rest elems cur)" "length cbc = 16"
  shows "\<exists>cur'. cmac_xor elems cur 0 16 cbc = Some (xor16 cbc (take 16 (cmac_rest elems cur)), cur') \<and>
     cursor_ok elems cur' \<and> cmac_rest elems cur' = drop 16 (cmac_rest elems cur)"
  using cmac_xor_rest [OF assms(1-3), of 0 cbc] assms(4) by (simp add: xor16_def)

lemma cmac_blocks_rest:
  assumes E: "block_cipher E" and elems: "[] \<notin> set elems"
  shows "cursor_ok elems cur \<Longrightarrow> length cbc = 16 \<Longrightarrow> length k1 = 16 \<Longrightarrow> length k2 = 16 \<Longrightarrow> m = cmac_rest elems cur \<Longrightarrow>
     \<exists>cbc' cur' m'. cmac_blocks E elems cur (length m) cbc = Some (cbc', cur', length m') \<and> length m' < 16 \<and>
       cursor_ok elems cur' \<and> cmac_rest elems cur' = m' \<and> length cbc' = 16 \<and>
       cmac_chain E k1 k2 cbc m = (if m' = [] \<and> m \<noteq> [] then E (xor16 k1 cbc')
         else E (xor16 (xor16 (m' @ [0x80] @ replicate (15 - length m') 0) k2) cbc'))"
proof (induction "length m" arbitrary: m cur cbc rule: less_induct)
  case less
  note m = less.prems(5)
  show ?case
  proof (cases "16 \<le> length m")
    case False
    then have "cmac_blocks E elems cur (length m) cbc = Some (cbc, cur, length m)"
      by (simp add: cmac_blocks.simps AES_BLOCK_SIZE_def)
    moreover have "cmac_chain E k1 k2 cbc m = E (xor16 (xor16 (m @ [0x80] @ replicate (15 - length m) 0) k2) cbc)"
      using False by (subst cmac_chain.simps) simp
    ultimately show ?thesis using False less.prems by auto
  next
    case True
    obtain c1 where c1: "cmac_xor elems cur 0 16 cbc = Some (xor16 cbc (take 16 m), c1)" "cursor_ok elems c1"
      "cmac_rest elems c1 = drop 16 m"
      using cmac_xor_block [OF elems less.prems(1) _ less.prems(2)] True m by auto
    let ?c = "xor16 cbc (take 16 m)"
    have lc: "length ?c = 16" using True less.prems(2) by simp
    have b: "cmac_blocks E elems cur (length m) cbc = cmac_blocks E elems c1 (length (drop 16 m)) (if 16 < length m then E ?c else ?c)"
      using True c1(1) by (subst cmac_blocks.simps) (simp add: AES_BLOCK_SIZE_def)
    show ?thesis
    proof (cases "16 < length m")
      case longer: True
      have e: "length (E ?c) = 16" "length (drop 16 m) < length m" using E longer by (simp_all add: block_cipher_def)
      have ch: "cmac_chain E k1 k2 cbc m = cmac_chain E k1 k2 (E ?c) (drop 16 m)"
        using longer by (subst cmac_chain.simps) simp
      have ne: "drop 16 m \<noteq> []" "m \<noteq> []" using longer by auto
      note IH = less.hyps [OF e(2) c1(2) e(1) less.prems(3,4) c1(3) [symmetric]]
      show ?thesis using IH ne unfolding b ch if_P [OF longer] by simp
    next
      case last: False
      with True have l16: "length m = 16" by simp
      have "xor16 (xor16 m k1) cbc = xor16 k1 ?c"
        using l16 less.prems by (intro nth_equalityI) (simp_all add: xor16_nth ac_simps)
      then have "cmac_chain E k1 k2 cbc m = E (xor16 k1 ?c)" using l16 by (subst cmac_chain.simps) simp
      moreover have "cmac_blocks E elems c1 0 ?c = Some (?c, c1, 0)" by (simp add: cmac_blocks.simps AES_BLOCK_SIZE_def)
      moreover have "m \<noteq> []" using l16 by auto
      ultimately show ?thesis using b c1(2,3) lc l16 by auto
    qed
  qed
qed

lemma cmac_vector_standard:
  assumes "block_cipher E" "[] \<notin> set elems"
  shows "aes_128_cmac_vector E elems = Some (take 8 (cmac_standard E (concat elems)))"
proof -
  let ?m = "concat elems" and ?z = "replicate 16 0 :: u8 list"
  have std: "cmac_standard E m = cmac_chain E (gf_mulx (E ?z)) (gf_mulx (gf_mulx (E ?z))) ?z m" for m
    using assms(1) by (simp add: cmac_standard_def Let_def gf_mulx_double block_cipher_def)
  let ?k1 = "gf_mulx (E ?z)"
  have ok: "cursor_ok elems (0, 0)" using assms(2) by (cases elems) (auto simp: cursor_ok_def)
  have m: "?m = cmac_rest elems (0, 0)" by (cases elems) (simp_all add: cmac_rest_def)
  have t: "sum_list (map length elems) = length ?m" by (simp add: length_concat)
  obtain cbc cur m' where c: "cmac_blocks E elems (0, 0) (length ?m) ?z = Some (cbc, cur, length m')" "length m' < 16"
    "cursor_ok elems cur" "cmac_rest elems cur = m'" "length cbc = 16"
    and chain: "cmac_chain E ?k1 (gf_mulx ?k1) ?z ?m = (if m' = [] \<and> ?m \<noteq> [] then E (xor16 ?k1 cbc)
         else E (xor16 (xor16 (m' @ [0x80] @ replicate (15 - length m') 0) (gf_mulx ?k1)) cbc))"
    using cmac_blocks_rest [OF assms ok _ _ _ m, of ?z ?k1 "gf_mulx ?k1"] by auto
  show ?thesis
  proof (cases "m' = [] \<and> ?m \<noteq> []")
    case True
    then show ?thesis using c chain
      by (auto simp: aes_128_cmac_vector_def t AES_BLOCK_SIZE_def CMAC_TLEN_def std xor16_def Let_def)
  next
    case False
    have n: "length m' \<noteq> 0 \<or> length ?m = 0" using False by auto
    obtain cur2 where x: "cmac_xor elems cur 0 (length m') cbc = Some (map2 (\<lambda>x y. x XOR y) (take (length m') cbc) m' @ drop (length m') cbc, cur2)"
      using cmac_xor_rest [OF assms(2) c(3), of "length m'" 0 cbc] c(2,4,5) by auto
    let ?cbc = "map2 (\<lambda>x y. x XOR y) (take (length m') cbc) m' @ drop (length m') cbc"
    have l: "length ?cbc = 16" using c(2,5) by simp
    have "map2 (\<lambda>x y. x XOR y) (gf_mulx ?k1) (?cbc[length m' := ?cbc ! length m' XOR 0x80]) =
        xor16 (xor16 (m' @ [0x80] @ replicate (15 - length m') 0) (gf_mulx ?k1)) cbc"
      using c(2,5) l by (intro nth_equalityI) (auto simp: xor16_nth nth_append nth_list_update ac_simps nth_Cons')
    then show ?thesis using c(1,2,5) n x l chain False
      by (auto simp: aes_128_cmac_vector_def t AES_BLOCK_SIZE_def CMAC_TLEN_def std Let_def)
  qed
qed

lemma cmac_chain_length:
  assumes "block_cipher E"
  shows "length (cmac_chain E k1 k2 c m) = 16"
proof (induction "length m" arbitrary: c m rule: less_induct)
  case less
  show ?case
  proof (cases "16 < length m")
    case True
    then show ?thesis using less [of "drop 16 m"] by (subst cmac_chain.simps) simp
  next
    case False
    then show ?thesis using assms by (subst cmac_chain.simps) (simp add: block_cipher_def)
  qed
qed

end
