(* ===== verification/Ccm_Standard.thy ===== *)
theory Ccm_Standard
  imports Aes_Cmac
begin

text \<open>
  CCM as the standard defines it (RFC 3610): the message is cut into blocks, padded with zeros and chained
  through the cipher behind the first block and the additional data; the key stream is the cipher of
  the counter blocks. The in-place loops of \<open>aes_ccm.c\<close> compute it.
\<close>

section \<open>The standard\<close>

function blocks16 :: "u8 list \<Rightarrow> u8 list list" where
  "blocks16 m = (if m = [] then [] else take 16 m # blocks16 (drop 16 m))"
  by pat_completeness auto

termination blocks16
  by (relation "measure length") simp_all

declare blocks16.simps [simp del]

definition ccm_pad :: "u8 list \<Rightarrow> u8 list" where
  "ccm_pad b = b @ replicate (16 - length b) 0"

definition ccm_ctr :: "u8 list \<Rightarrow> nat \<Rightarrow> u8 list" where
  "ccm_ctr b_0 j = b_0[0 := b_0 ! 0 AND 7, 14 := of_nat (j div 256), 15 := of_nat j]"

definition ccm_mac :: "(u8 list \<Rightarrow> u8 list) \<Rightarrow> u8 list \<Rightarrow> u8 list \<Rightarrow> u8 list \<Rightarrow> u8 list" where
  "ccm_mac E b_0 aad m = foldl (\<lambda>x b. E (xor16 x (ccm_pad b))) (E b_0) (take 16 aad # drop 16 aad # blocks16 m)"

definition ccm_standard :: "(u8 list \<Rightarrow> u8 list) \<Rightarrow> u8 list \<Rightarrow> u8 list \<Rightarrow> u8 list \<Rightarrow> u8 list \<times> u8 list" where
  "ccm_standard E b_0 aad m =
     (concat (map (\<lambda>(j, b). xor16 b (E (ccm_ctr b_0 j))) (enumerate 1 (blocks16 m))),
      xor16 (take 8 (ccm_mac E b_0 aad m)) (take 8 (E (ccm_ctr b_0 0))))"

section \<open>The code computes it\<close>

lemma xor_into_pad: "length b = 16 \<Longrightarrow> length x \<le> 16 \<Longrightarrow> xor_into b x = xor16 b (ccm_pad x)"
  by (intro nth_equalityI) (auto simp: xor_into_def xor16_def ccm_pad_def nth_append)

lemma xor_into_sym: "length a = 16 \<Longrightarrow> length b = 16 \<Longrightarrow> xor_into a b = xor16 b (ccm_pad a)"
  by (intro nth_equalityI) (auto simp: xor_into_def xor16_def ccm_pad_def ac_simps)

lemma nth_update_all: "xs[i := x] ! j = (if i = j \<and> i < length xs then x else xs ! j)"
  by (cases "i < length xs") (simp_all add: not_less nth_list_update list_update_beyond)

lemma ccm_counter_twice: "ccm_counter (ccm_counter b_0 i) j = ccm_counter b_0 j"
  by (rule nth_equalityI) (auto simp: ccm_counter_def nth_update_all)

lemma ccm_counter_ctr: "ccm_counter (b_0[0 := b_0 ! 0 AND 7, 14 := x, 15 := y]) j = ccm_ctr b_0 j"
  by (rule nth_equalityI) (auto simp: ccm_counter_def ccm_ctr_def nth_update_all)

lemma ccm_loop_standard:
  assumes "block_cipher E" "last_len < 16" "length d = ccm_left num_blocks last_len j" "length b = 16"
  shows "ccm_encrypt_loop E num_blocks last_len j b b_0 d =
     (foldl (\<lambda>x b. E (xor16 x (ccm_pad b))) b (blocks16 d),
      concat (map (\<lambda>(j, b). xor16 b (E (ccm_counter b_0 j))) (enumerate j (blocks16 d))))"
  using assms
proof (induction "num_blocks + 1 - j" arbitrary: j b b_0 d)
  case 0
  then show ?case by (simp add: ccm_encrypt_loop.simps [of _ _ _ j] ccm_left_def blocks16.simps)
next
  case (Suc n)
  then have j: "j \<le> num_blocks" "n = num_blocks + 1 - (j + 1)" by simp_all
  let ?k = "ccm_blen num_blocks last_len j"
  note s = ccm_left_step [OF j(1) Suc.prems(2)] and E = Suc.prems(1) [unfolded block_cipher_def, rule_format]
  have l: "length (drop ?k d) = ccm_left num_blocks last_len (j + 1)" using s Suc.prems(3) by simp
  have k: "?k = 16 \<or> ccm_left num_blocks last_len (j + 1) = 0" "0 < ?k"
    using j(1) by (auto simp: ccm_blen_def ccm_left_def AES_BLOCK_SIZE_def)
  have t: "take ?k d = take 16 d" "drop ?k d = drop 16 d" using k(1) s Suc.prems(3) by auto
  have "d \<noteq> []" using s(1) k(2) Suc.prems(3) by auto
  then have b: "blocks16 d = take 16 d # blocks16 (drop 16 d)" by (simp add: blocks16.simps [of d])
  have x: "xor_into b (take 16 d) = xor16 b (ccm_pad (take 16 d))" using Suc.prems(4) by (intro xor_into_pad) simp_all
  note IH = Suc.hyps(1) [OF j(2) Suc.prems(1,2) l E, of "xor_into b (take ?k d)" "ccm_counter b_0 j", unfolded t x ccm_counter_twice]
  show ?case
    unfolding ccm_encrypt_loop.simps [of _ _ _ j] Let_def split_beta if_P [OF j(1)] t x IH b
    by (simp add: xor16_def split_beta)
qed

lemma ccm_encrypt_standard:
  assumes "block_cipher E" "length aad = 32"
  shows "ieee80211_aes_ccm_encrypt E b_0 aad d = ccm_standard E b_0 aad d"
proof -
  note E = assms(1) [unfolded block_cipher_def, rule_format]
  let ?b = "E (xor16 (E (xor16 (E b_0) (ccm_pad (take 16 aad)))) (ccm_pad (drop 16 aad)))"
  let ?c = "b_0[0 := b_0 ! 0 AND 7, 14 := 0, 15 := 0]"
  have p: "aes_ccm_prepare E b_0 aad = (?b, E (ccm_ctr b_0 0), ?c)"
    using assms E by (simp add: aes_ccm_prepare_def xor_into_sym Let_def ccm_ctr_def)
  have "ccm_encrypt_loop E (DIV_ROUND_UP (length d) AES_BLOCK_SIZE) (length d mod AES_BLOCK_SIZE) 1 ?b ?c d =
     (foldl (\<lambda>x b. E (xor16 x (ccm_pad b))) ?b (blocks16 d),
      concat (map (\<lambda>(j, b). xor16 b (E (ccm_counter ?c j))) (enumerate 1 (blocks16 d))))"
    using ccm_left_all [of "length d"] E by (intro ccm_loop_standard [OF assms(1)]) (simp_all add: AES_BLOCK_SIZE_def)
  then show ?thesis
    unfolding ieee80211_aes_ccm_encrypt_def p Let_def prod.case ccm_counter_ctr
    by (simp add: ccm_standard_def ccm_mac_def CCMP_MIC_LEN_def xor16_def)
qed

end
