(* ===== verification/Wpa_Ccmp.thy ===== *)
theory Wpa_Ccmp
  imports Aes_Ccm
begin

text \<open>
  The CCMP part of \<open>mac80211/wpa.c\<close>. A buffer is its data with the room before and behind it. The
  kernel's \<open>ieee80211_hdrlen\<close>, from the frame control field to the length of the header, is the
  parameter \<open>hl\<close>. \<open>None\<close> is a read outside the frame or of a replay counter that does not exist.
\<close>

section \<open>Buffers\<close>

text \<open>
  \<open>sb_hw_key\<close> is \<open>info->control.hw_key\<close>: \<open>Some g\<close> when the hardware encrypts the frame, with \<open>g\<close> the
  key's \<open>GENERATE_IV\<close> flag.
\<close>

record sk_buf =
  sb_headroom :: nat
  sb_tailroom :: nat
  sb_data :: "u8 list"
  sb_hw_key :: "bool option"

datatype rx_result = RX_CONTINUE | RX_DROP_UNUSABLE
datatype tx_result = TX_CONTINUE | TX_DROP

text \<open>\<open>skb_push\<close> and the \<open>memmove\<close> of the header: a gap behind the header, with what is then written there.\<close>

definition open_gap :: "nat \<Rightarrow> u8 list \<Rightarrow> sk_buf \<Rightarrow> sk_buf" where
  "open_gap hdrlen gap skb = skb\<lparr>sb_headroom := sb_headroom skb - length gap,
     sb_data := take hdrlen (sb_data skb) @ gap @ drop hdrlen (sb_data skb)\<rparr>"

text \<open>The \<open>memmove\<close> of the header over the gap and \<open>skb_pull\<close>.\<close>

definition close_gap :: "nat \<Rightarrow> nat \<Rightarrow> sk_buf \<Rightarrow> sk_buf" where
  "close_gap hdrlen n skb = skb\<lparr>sb_headroom := sb_headroom skb + n,
     sb_data := take hdrlen (sb_data skb) @ drop (hdrlen + n) (sb_data skb)\<rparr>"

definition skb_trim_tail :: "nat \<Rightarrow> sk_buf \<Rightarrow> sk_buf" where
  "skb_trim_tail n skb = skb\<lparr>sb_tailroom := sb_tailroom skb + n,
     sb_data := take (length (sb_data skb) - n) (sb_data skb)\<rparr>"

definition put_be16 :: "u16 \<Rightarrow> u8 list" where
  "put_be16 w = [ucast (drop_bit 8 w), ucast w]"

fun memcmp :: "u8 list \<Rightarrow> u8 list \<Rightarrow> int" where
  "memcmp (x # xs) (y # ys) = (if x = y then memcmp xs ys else uint x - uint y)"
| "memcmp _ _ = 0"

section \<open>Frame tests\<close>

definition ieee80211_is_mgmt :: "u16 \<Rightarrow> bool" where
  "ieee80211_is_mgmt fc \<longleftrightarrow> fc AND 0x000c = 0"

definition ieee80211_has_protected :: "u16 \<Rightarrow> bool" where
  "ieee80211_has_protected fc \<longleftrightarrow> fc AND 0x4000 \<noteq> 0"

text \<open>Action categories that are never protected: public, HT, WNM, self protected, DMG, VHT, vendor.\<close>

definition unprotected_categories :: "u8 list" where
  "unprotected_categories = [4, 7, 11, 15, 20, 21, 127]"

definition atbm_ieee80211_is_robust_mgmt_frame :: "u8 list \<Rightarrow> bool option" where
  "atbm_ieee80211_is_robust_mgmt_frame d =
     (if length d < 25 then Some False
      else do {
        fc \<leftarrow> le16_at d 0;
        if fc AND 0x00fc = 0x00a0 \<or> fc AND 0x00fc = 0x00c0 then Some True
        else if fc AND 0x00fc = 0x00d0 then
          if ieee80211_has_protected fc then Some True
          else do {
            c \<leftarrow> rd d 24;
            Some (c AND 0x7f \<notin> set unprotected_categories) }
        else Some False })"

definition set_protected :: "u8 list \<Rightarrow> u8 list option" where
  "set_protected d = do { f \<leftarrow> rd d 1; if d = [] then None else Some (d[1 := f OR 0x40]) }"

section \<open>CCMP\<close>

definition CCMP_HDR_LEN :: nat where "CCMP_HDR_LEN = 8"

text \<open>Counters of received frames, one for each traffic identifier and one for management frames.\<close>

record ccmp_key =
  ck_keyidx :: u8
  ck_tx_pn :: u64
  ck_rx_pn :: "u8 list list"
  ck_prev_rx_pn :: "u8 list list"
  ck_replays :: u32

definition zero_pn :: "u8 list" where "zero_pn = replicate 6 0"

definition ccmp_special_blocks ::
  "(u16 \<Rightarrow> nat) \<Rightarrow> u8 list \<Rightarrow> u8 list \<Rightarrow> bool \<Rightarrow> (u8 list \<times> u8 list) option" where
  "ccmp_special_blocks hl d pn encrypted = do {
     fc \<leftarrow> le16_at d 0;
     let mgmt = ieee80211_is_mgmt fc;
     let mask_fc = fc AND NOT (0x0800 OR 0x1000 OR 0x2000);
     let mask_fc = (if mgmt then mask_fc else mask_fc AND NOT 0x0070);
     let mask_fc = mask_fc OR 0x4000;
     let hdrlen = hl fc;
     let len_a = (of_nat hdrlen - 2 :: u16);
     qos_tid \<leftarrow> (if ieee80211_is_data_qos fc then map_option (\<lambda>q. q AND 0x0f) (rd d (qos_ctl_offset fc)) else Some 0);
     let data_len = (of_nat (length d) - of_nat hdrlen - of_nat CCMP_HDR_LEN :: u16);
     let data_len = (if encrypted then data_len - of_nat CCMP_MIC_LEN else data_len);
     ensure ((if ieee80211_has_a4 fc then 30 else 24) \<le> length d);
     let b_0 = [0x59, qos_tid OR (if mgmt then 0x10 else 0)] @ take 6 (drop 10 d) @ pn @ put_be16 data_len;
     let aad = put_be16 len_a @ put_le16 mask_fc @ take 18 (drop 4 d) @ [d ! 22 AND 0x0f, 0] @
       (if ieee80211_has_a4 fc then take 6 (drop 24 d) @ [qos_tid, 0] else [qos_tid] @ replicate 7 0);
     Some (b_0, aad) }"

text \<open>The packet number, most significant byte first, and its place in the header.\<close>

definition pn_bytes :: "u64 \<Rightarrow> u8 list" where
  "pn_bytes pn64 = [ucast (drop_bit 40 pn64), ucast (drop_bit 32 pn64), ucast (drop_bit 24 pn64),
     ucast (drop_bit 16 pn64), ucast (drop_bit 8 pn64), ucast pn64]"

lemma length_pn_bytes [simp]: "length (pn_bytes w) = 6"
  by (simp add: pn_bytes_def)

definition ccmp_pn2hdr :: "u8 list \<Rightarrow> u8 \<Rightarrow> u8 list" where
  "ccmp_pn2hdr pn key_id =
     [pn ! 5, pn ! 4, 0, 0x20 OR push_bit 6 key_id, pn ! 3, pn ! 2, pn ! 1, pn ! 0]"

definition ccmp_hdr2pn :: "u8 list \<Rightarrow> nat \<Rightarrow> u8 list option" where
  "ccmp_hdr2pn d h = do {
     a \<leftarrow> rd d (h + 7); b \<leftarrow> rd d (h + 6); c \<leftarrow> rd d (h + 5); e \<leftarrow> rd d (h + 4); f \<leftarrow> rd d (h + 1); g \<leftarrow> rd d h;
     Some [a, b, c, e, f, g] }"

definition ccmp_encrypt_skb ::
  "(u8 list \<Rightarrow> u8 list) \<Rightarrow> (u16 \<Rightarrow> nat) \<Rightarrow> ccmp_key \<Rightarrow> sk_buf \<Rightarrow> (bool \<times> ccmp_key \<times> sk_buf) option" where
  "ccmp_encrypt_skb E hl key skb =
     (if sb_hw_key skb = Some False then Some (True, key, skb)
      else do {
        let d = sb_data skb;
        fc \<leftarrow> le16_at d 0;
        let hdrlen = hl fc;
        let tail = (if sb_hw_key skb \<noteq> None then 0 else CCMP_MIC_LEN);
        if sb_tailroom skb < tail \<or> sb_headroom skb < CCMP_HDR_LEN then Some (False, key, skb)
        else do {
          ensure (hdrlen \<le> length d);
          let key = key\<lparr>ck_tx_pn := ck_tx_pn key + 1\<rparr>;
          let pn = pn_bytes (ck_tx_pn key);
          let skb = open_gap hdrlen (ccmp_pn2hdr pn (ck_keyidx key)) skb;
          if sb_hw_key skb \<noteq> None then Some (True, key, skb)
          else do {
            (b_0, aad) \<leftarrow> ccmp_special_blocks hl (sb_data skb) pn False;
            let (cdata, mic) = ieee80211_aes_ccm_encrypt E b_0 aad (drop (hdrlen + CCMP_HDR_LEN) (sb_data skb));
            Some (True, key, skb\<lparr>sb_tailroom := sb_tailroom skb - CCMP_MIC_LEN,
              sb_data := take (hdrlen + CCMP_HDR_LEN) (sb_data skb) @ cdata @ mic\<rparr>) } } })"

text \<open>The fragments of a frame.\<close>

fun ccmp_encrypt_all ::
  "(u8 list \<Rightarrow> u8 list) \<Rightarrow> (u16 \<Rightarrow> nat) \<Rightarrow> ccmp_key \<Rightarrow> sk_buf list \<Rightarrow> (tx_result \<times> ccmp_key \<times> sk_buf list) option" where
  "ccmp_encrypt_all E hl key [] = Some (TX_CONTINUE, key, [])"
| "ccmp_encrypt_all E hl key (skb # skbs) = do {
     (ok, key, skb) \<leftarrow> ccmp_encrypt_skb E hl key skb;
     if \<not> ok then Some (TX_DROP, key, skb # skbs)
     else do {
       (res, key, skbs) \<leftarrow> ccmp_encrypt_all E hl key skbs;
       Some (res, key, skb # skbs) } }"

fun ieee80211_tx_set_protected :: "sk_buf list \<Rightarrow> sk_buf list option" where
  "ieee80211_tx_set_protected [] = Some []"
| "ieee80211_tx_set_protected (skb # skbs) = do {
     d \<leftarrow> set_protected (sb_data skb);
     skbs \<leftarrow> ieee80211_tx_set_protected skbs;
     Some (skb\<lparr>sb_data := d\<rparr> # skbs) }"

definition ieee80211_crypto_ccmp_encrypt ::
  "(u8 list \<Rightarrow> u8 list) \<Rightarrow> (u16 \<Rightarrow> nat) \<Rightarrow> ccmp_key \<Rightarrow> sk_buf list \<Rightarrow> (tx_result \<times> ccmp_key \<times> sk_buf list) option" where
  "ieee80211_crypto_ccmp_encrypt E hl key skbs = do {
     skbs \<leftarrow> ieee80211_tx_set_protected skbs;
     ccmp_encrypt_all E hl key skbs }"

text \<open>The replay counters after an accepted frame.\<close>

definition ccmp_new_counters :: "u8 list \<Rightarrow> u8 list \<Rightarrow> u8 list \<Rightarrow> u8 list \<times> u8 list" where
  "ccmp_new_counters pn rx prev =
     (let (rx, prev) = (if memcmp prev rx = 0 \<or> memcmp prev pn > 0 then (pn, pn) else (rx, prev)) in
      (rx, if memcmp rx zero_pn = 0 then pn else prev))"

definition ieee80211_crypto_ccmp_decrypt ::
  "(u8 list \<Rightarrow> u8 list) \<Rightarrow> (u16 \<Rightarrow> nat) \<Rightarrow> bool \<Rightarrow> bool \<Rightarrow> nat \<Rightarrow> ccmp_key \<Rightarrow> sk_buf \<Rightarrow>
     (rx_result \<times> ccmp_key \<times> sk_buf) option" where
  "ieee80211_crypto_ccmp_decrypt E hl has_sta decrypted queue key skb = do {
     let d = sb_data skb;
     fc \<leftarrow> le16_at d 0;
     let hdrlen = hl fc;
     robust \<leftarrow> atbm_ieee80211_is_robust_mgmt_frame d;
     if \<not> ieee80211_is_data fc \<and> \<not> robust then Some (RX_CONTINUE, key, skb)
     else if \<not> has_sta \<or> length d < hdrlen + CCMP_HDR_LEN + CCMP_MIC_LEN then Some (RX_DROP_UNUSABLE, key, skb)
     else do {
       let data_len = length d - hdrlen - CCMP_HDR_LEN - CCMP_MIC_LEN;
       pn \<leftarrow> ccmp_hdr2pn d hdrlen;
       rx \<leftarrow> rd (ck_rx_pn key) queue;
       prev \<leftarrow> rd (ck_prev_rx_pn key) queue;
       if memcmp pn rx < 0 \<and> memcmp pn zero_pn \<noteq> 0 then
         Some (RX_DROP_UNUSABLE, key\<lparr>ck_replays := ck_replays key + 1\<rparr>, skb)
       else do {
         (ok, d) \<leftarrow> (if decrypted then Some (True, d)
            else do {
              (b_0, aad) \<leftarrow> ccmp_special_blocks hl d pn True;
              let body = hdrlen + CCMP_HDR_LEN;
              let (data, ok) = ieee80211_aes_ccm_decrypt E b_0 aad (take data_len (drop body d)) (drop (body + data_len) d);
              Some (ok, take body d @ data @ drop (body + data_len) d) });
         if \<not> ok then Some (RX_DROP_UNUSABLE, key, skb\<lparr>sb_data := d\<rparr>)
         else
           (let (rx, prev) = ccmp_new_counters pn rx prev;
                key = key\<lparr>ck_rx_pn := (ck_rx_pn key)[queue := rx], ck_prev_rx_pn := (ck_prev_rx_pn key)[queue := prev]\<rparr> in
            Some (RX_CONTINUE, key, close_gap hdrlen CCMP_HDR_LEN (skb_trim_tail CCMP_MIC_LEN (skb\<lparr>sb_data := d\<rparr>)))) } } }"

end
