(* ===== verification/Replay.thy ===== *)
theory Replay
  imports Prelude
begin

text \<open>
  Replay protection as an interface. A receiver has a last number, of any linear order; every frame carries one. What the
  client relies on: an accepted frame is newer than the last number and becomes it, a refused frame
  changes nothing. What follows for runs: the accepted numbers increase, so no frame is accepted twice.
\<close>

fun receive_all :: "('f \<Rightarrow> 's \<Rightarrow> (bool \<times> 's) option) \<Rightarrow> 'f list \<Rightarrow> 's \<Rightarrow> ('f list \<times> 's) option" where
  "receive_all recv [] s = Some ([], s)"
| "receive_all recv (f # fs) s = do {
     (ok, s) \<leftarrow> recv f s;
     (acc, s) \<leftarrow> receive_all recv fs s;
     Some (if ok then f # acc else acc, s) }"

locale replay_guard =
  fixes recv :: "'f \<Rightarrow> 's \<Rightarrow> (bool \<times> 's) option"
    and inv :: "'s \<Rightarrow> bool"
    and last_num :: "'s \<Rightarrow> 'n :: linorder"
    and num :: "'f \<Rightarrow> 'n"
  assumes accepted_newer: "inv s \<Longrightarrow> recv f s = Some (True, s') \<Longrightarrow> inv s' \<and> last_num s < num f \<and> last_num s' = num f"
    and refused_same: "inv s \<Longrightarrow> recv f s = Some (False, s') \<Longrightarrow> inv s' \<and> last_num s' = last_num s"
begin

lemma run_increases:
  assumes "inv s" "receive_all recv fs s = Some (acc, s')"
  shows "inv s' \<and> sorted_wrt (<) (map num acc) \<and> (\<forall>f \<in> set acc. last_num s < num f) \<and>
     last_num s' = (if acc = [] then last_num s else num (last acc))"
  using assms
proof (induction fs arbitrary: s acc)
  case (Cons f fs)
  from Cons.prems(2) obtain ok s1 acc1 where
    1: "recv f s = Some (ok, s1)" "receive_all recv fs s1 = Some (acc1, s')" "acc = (if ok then f # acc1 else acc1)"
    by (auto simp: bind_eq_Some_conv)
  show ?case
  proof (cases ok)
    case True
    then have r: "recv f s = Some (True, s1)" using 1(1) by simp
    note A = accepted_newer [OF Cons.prems(1) r]
    have i: "inv s1" using A by simp
    note IH = Cons.IH [OF i 1(2)]
    show ?thesis using A IH 1(3) True by (auto intro: less_trans)
  next
    case False
    then have r: "recv f s = Some (False, s1)" using 1(1) by simp
    note A = refused_same [OF Cons.prems(1) r]
    have i: "inv s1" using A by simp
    note IH = Cons.IH [OF i 1(2)]
    show ?thesis using A IH 1(3) False by simp
  qed
qed simp

lemma run_distinct:
  assumes "inv s" "receive_all recv fs s = Some (acc, s')"
  shows "distinct acc"
proof -
  have "sorted_wrt (<) (map num acc)" using run_increases [OF assms] by simp
  then have "distinct (map num acc)" by (simp add: strict_sorted_iff)
  then show ?thesis by (simp add: distinct_map)
qed

lemma replay_refused:
  assumes "inv s" "recv f s = Some (True, s1)" "receive_all recv fs s1 = Some (acc, s2)" "num g \<le> num f"
  shows "recv g s2 \<noteq> Some (True, s3)"
proof
  assume g: "recv g s2 = Some (True, s3)"
  note A = accepted_newer [OF assms(1,2)]
  have i: "inv s1" using A by simp
  note R = run_increases [OF i assms(3)]
  have "num f \<le> last_num s2" using A R by (cases "acc = []") (auto simp: last_in_set less_imp_le)
  then show False using accepted_newer [OF _ g] R assms(4) by fastforce
qed

end

end
