(* ===== verification/Wpa_Bip.thy ===== *)
theory Wpa_Bip
  imports Wpa_Ccmp Aes_Cmac Replay
begin

text \<open>
  The protection of multicast management frames (BIP) of \<open>mac80211/wpa.c\<close>: a management MIC element of
  18 bytes (identifier, length, key number, sequence number, MIC) behind the frame.
\<close>

section \<open>The code\<close>

definition ATBM_WLAN_EID_MMIE :: u8 where "ATBM_WLAN_EID_MMIE = 76"
definition sizeof_mmie :: nat where "sizeof_mmie = 18"

record cmac_key =
  mk_keyidx :: u8
  mk_tx_pn :: u64
  mk_rx_pn :: "u8 list"
  mk_replays :: u32
  mk_icverrors :: u32

definition bip_aad :: "u8 list \<Rightarrow> u8 list" where
  "bip_aad d = [d ! 0, d ! 1 AND NOT 0x70] @ take 18 (drop 4 d)"

definition bip_ipn_set64 :: "u64 \<Rightarrow> u8 list" where
  "bip_ipn_set64 pn = [ucast pn, ucast (drop_bit 8 pn), ucast (drop_bit 16 pn), ucast (drop_bit 24 pn),
     ucast (drop_bit 32 pn), ucast (drop_bit 40 pn)]"

definition bip_ipn_swap :: "u8 list \<Rightarrow> u8 list" where
  "bip_ipn_swap s = [s ! 5, s ! 4, s ! 3, s ! 2, s ! 1, s ! 0]"

definition ieee80211_crypto_aes_cmac_encrypt ::
  "(u8 list \<Rightarrow> u8 list) \<Rightarrow> cmac_key \<Rightarrow> sk_buf \<Rightarrow> (tx_result \<times> cmac_key \<times> sk_buf) option" where
  "ieee80211_crypto_aes_cmac_encrypt E key skb =
     (if sb_hw_key skb \<noteq> None then Some (TX_CONTINUE, key, skb)
      else if sb_tailroom skb < sizeof_mmie then Some (TX_DROP, key, skb)
      else do {
        let d = sb_data skb;
        ensure (24 \<le> length d);
        let key = key\<lparr>mk_tx_pn := mk_tx_pn key + 1\<rparr>;
        let mmie = [ATBM_WLAN_EID_MMIE, of_nat (sizeof_mmie - 2)] @ put_le16 (ucast (mk_keyidx key)) @ bip_ipn_set64 (mk_tx_pn key);
        mic \<leftarrow> ieee80211_aes_cmac E (bip_aad d) (drop 24 d @ mmie @ replicate 8 0);
        Some (TX_CONTINUE, key, skb\<lparr>sb_tailroom := sb_tailroom skb - sizeof_mmie, sb_data := d @ mmie @ mic\<rparr>) })"

definition ieee80211_crypto_aes_cmac_decrypt ::
  "(u8 list \<Rightarrow> u8 list) \<Rightarrow> bool \<Rightarrow> cmac_key \<Rightarrow> sk_buf \<Rightarrow> (rx_result \<times> cmac_key \<times> sk_buf) option" where
  "ieee80211_crypto_aes_cmac_decrypt E decrypted key skb = do {
     let d = sb_data skb;
     fc \<leftarrow> le16_at d 0;
     if \<not> ieee80211_is_mgmt fc then Some (RX_CONTINUE, key, skb)
     else if length d < 24 + sizeof_mmie then Some (RX_DROP_UNUSABLE, key, skb)
     else do {
       let m = length d - sizeof_mmie;
       if d ! m \<noteq> ATBM_WLAN_EID_MMIE \<or> d ! (m + 1) \<noteq> of_nat (sizeof_mmie - 2) then Some (RX_DROP_UNUSABLE, key, skb)
       else do {
         let ipn = bip_ipn_swap (take 6 (drop (m + 4) d));
         if memcmp ipn (mk_rx_pn key) \<le> 0 then
           Some (RX_DROP_UNUSABLE, key\<lparr>mk_replays := mk_replays key + 1\<rparr>, skb)
         else do {
           good \<leftarrow> (if decrypted then Some True
              else map_option (\<lambda>mic. mic = drop (m + 10) d) (ieee80211_aes_cmac E (bip_aad d) (drop 24 d)));
           if \<not> good then Some (RX_DROP_UNUSABLE, key\<lparr>mk_icverrors := mk_icverrors key + 1\<rparr>, skb)
           else Some (RX_CONTINUE, key\<lparr>mk_rx_pn := ipn\<rparr>, skb_trim_tail sizeof_mmie skb) } } } }"

section \<open>Numbers\<close>

text \<open>Bytes, most significant first, as a number; \<open>memcmp\<close> orders them as the numbers.\<close>

definition be_num :: "u8 list \<Rightarrow> nat" where
  "be_num bs = foldl (\<lambda>n b. n * 256 + unat b) 0 bs"

lemma be_num_step: "foldl (\<lambda>n b. n * 256 + unat b) k bs = k * 256 ^ length bs + be_num bs" for bs :: "u8 list"
proof (induction bs arbitrary: k)
  case (Cons b bs)
  have "foldl (\<lambda>n b. n * 256 + unat b) k (b # bs) = (k * 256 + unat b) * 256 ^ length bs + be_num bs"
    using Cons.IH [of "k * 256 + unat b"] by simp
  also have "be_num (b # bs) = unat b * 256 ^ length bs + be_num bs"
    using Cons.IH [of "unat b"] by (simp add: be_num_def)
  ultimately show ?case by (simp add: algebra_simps)
qed (simp add: be_num_def)

lemma be_num_Cons: "be_num (b # bs) = unat b * 256 ^ length bs + be_num bs"
  using be_num_step [of "unat b" bs] by (simp add: be_num_def)

lemma be_num_less: "be_num bs < 256 ^ length bs"
proof (induction bs)
  case (Cons b bs)
  have "unat b < 256" using unsigned_less [of b, where 'a = nat] by simp
  then have "Suc (unat b) * 256 ^ length bs \<le> 256 * 256 ^ length bs" by (intro mult_le_mono1) (simp add: Suc_le_eq)
  moreover have "Suc (unat b) * 256 ^ length bs = 256 ^ length bs + unat b * 256 ^ length bs" by (rule mult_Suc)
  ultimately have "unat b * 256 ^ length bs + be_num bs < 256 * 256 ^ length bs" using Cons by linarith
  then show ?case by (simp add: be_num_Cons)
qed (simp add: be_num_def)

lemma memcmp_be_num:
  "length a = length b \<Longrightarrow> (memcmp a b < 0 \<longleftrightarrow> be_num a < be_num b) \<and> (memcmp a b = 0 \<longleftrightarrow> be_num a = be_num b)"
proof (induction a b rule: list_induct2)
  case (Cons x xs y ys)
  have l: "be_num xs < 256 ^ length ys" "be_num ys < 256 ^ length ys" using be_num_less [of xs] be_num_less [of ys] Cons(1) by simp_all
  show ?case
  proof (cases "x = y")
    case False
    have less: "u * k + p < v * k + q" if "u < v" "p < k" for u v k p q :: nat
    proof -
      have "(u + 1) * k \<le> v * k" using that(1) by (intro mult_right_mono) simp_all
      then show ?thesis using that(2) by simp
    qed
    have "unat x \<noteq> unat y" using False by (simp add: word_unat_eq_iff)
    then consider "unat x < unat y" | "unat y < unat x" by linarith
    then show ?thesis
    proof cases
      case 1
      then have "uint x - uint y < 0" by (metis diff_less_0_iff_less word_less_def word_less_nat_alt)
      then show ?thesis using less [OF 1 l(1), of "be_num ys"] False Cons(1) by (simp add: be_num_Cons)
    next
      case 2
      then have "uint x - uint y > 0" by (metis diff_gt_0_iff_gt word_less_def word_less_nat_alt)
      then show ?thesis using less [OF 2 l(2), of "be_num xs"] False Cons(1) by (simp add: be_num_Cons)
    qed
  qed (use Cons in \<open>simp add: be_num_Cons\<close>)
qed (simp add: be_num_def)

lemma memcmp_newer: "length a = length b \<Longrightarrow> \<not> memcmp a b \<le> 0 \<longleftrightarrow> be_num b < be_num a"
  using memcmp_be_num [of a b] by linarith

end
