(* ===== verification/Wpa_Bip_Proofs.thy ===== *)
theory Wpa_Bip_Proofs
  imports Wpa_Bip
begin

text \<open>BIP frames: what is accepted carries the standard's MIC and a number newer than all before.\<close>

section \<open>The parts of a frame\<close>

definition bip_num :: "sk_buf \<Rightarrow> nat" where
  "bip_num skb = be_num (bip_ipn_swap (take 6 (drop (length (sb_data skb) - 14) (sb_data skb))))"

definition bip_mic :: "sk_buf \<Rightarrow> u8 list" where
  "bip_mic skb = drop (length (sb_data skb) - 8) (sb_data skb)"

text \<open>
  What the MIC is computed over, in terms of the frame control word: the word with some bits cleared, the
  three addresses, the body and the element with a zero MIC. The code clears the bits 12, 13 and 14 (power
  management, more data, protected frame); IEEE 802.11 clears 11, 12 and 13 (retry, power management, more data).
\<close>

definition bip_message :: "nat list \<Rightarrow> u8 list \<Rightarrow> u8 list" where
  "bip_message cleared d =
     put_le16 (fold unset_bit cleared (le16 (d ! 0) (d ! 1))) @ take 18 (drop 4 d) @
     drop 24 (take (length d - 8) d) @ replicate 8 0"

lemma bip_aad_masks: "bip_aad d = put_le16 (fold unset_bit [12, 13, 14] (le16 (d ! 0) (d ! 1))) @ take 18 (drop 4 d)"
proof -
  have "ucast (fold unset_bit [12, 13, 14] (le16 (d ! 0) (d ! 1))) = d ! 0"
    by (rule bit_word_eqI) (auto simp: le16_def bit_simps)
  moreover have "ucast (drop_bit 8 (fold unset_bit [12, 13, 14] (le16 (d ! 0) (d ! 1)))) = d ! 1 AND NOT 0x70"
  proof (rule bit_word_eqI)
    fix n assume "n < LENGTH(8)"
    then have "n \<in> {0, 1, 2, 3, 4, 5, 6, 7}" by auto
    then show "bit (ucast (drop_bit 8 (fold unset_bit [12, 13, 14] (le16 (d ! 0) (d ! 1)))) :: u8) n \<longleftrightarrow> bit (d ! 1 AND NOT 0x70) n"
      by (auto simp: le16_def bit_simps dest: bit_imp_le_length)
  qed
  ultimately show ?thesis by (simp add: bip_aad_def put_le16_def)
qed

lemma bip_message_code: "bip_message [12, 13, 14] d = bip_aad d @ drop 24 (take (length d - 8) d) @ replicate 8 0"
  unfolding bip_message_def bip_aad_masks append_assoc ..

text \<open>The two masks agree on a frame control word without the retry and the protected bit.\<close>

lemma bip_message_standard:
  assumes "\<not> bit (le16 (d ! 0) (d ! 1)) 11" "\<not> bit (le16 (d ! 0) (d ! 1)) 14"
  shows "bip_message [12, 13, 14] d = bip_message [11, 12, 13] d"
proof -
  have "fold unset_bit [12, 13, 14] (le16 (d ! 0) (d ! 1)) = fold unset_bit [11, 12, 13] (le16 (d ! 0) (d ! 1))"
    using assms by (intro bit_word_eqI) (auto simp: bit_unset_bit_iff)
  then show ?thesis by (simp only: bip_message_def)
qed

lemma length_bip_ipn_swap [simp]: "length (bip_ipn_swap s) = 6"
  by (simp add: bip_ipn_swap_def)

lemma cmac_of_frame:
  assumes "block_cipher E" "42 \<le> length d"
  shows "ieee80211_aes_cmac E (bip_aad d) (drop 24 d) = Some (take 8 (cmac_standard E (bip_message [12, 13, 14] d)))"
proof -
  have t: "take (length (drop 24 d) - CMAC_TLEN) (drop 24 d) = drop 24 (take (length d - 8) d)"
    by (simp add: CMAC_TLEN_def drop_take)
  have "drop 24 (take (length d - 8) d) \<noteq> []" using assms(2) by simp
  then have "[] \<notin> set [bip_aad d, drop 24 (take (length d - 8) d), replicate CMAC_TLEN 0]"
    by (auto simp: bip_aad_def CMAC_TLEN_def)
  from cmac_vector_standard [OF assms(1) this] show ?thesis
    unfolding ieee80211_aes_cmac_def t bip_message_code by (simp add: CMAC_TLEN_def)
qed

text \<open>Only the body before the MIC counts.\<close>

lemma bip_message_mic:
  assumes "length mic = 8" "24 \<le> length d"
  shows "bip_message [12, 13, 14] (d @ mic) = bip_aad d @ drop 24 d @ replicate 8 0"
proof -
  have "d \<noteq> []" using assms(2) by auto
  with assms show ?thesis by (simp add: bip_message_code bip_aad_def nth_append)
qed

section \<open>Acceptance\<close>

lemma bip_accept:
  assumes "block_cipher E" "ieee80211_crypto_aes_cmac_decrypt E decrypted key skb = Some (RX_CONTINUE, key', skb')"
    "le16_at (sb_data skb) 0 = Some fc" "ieee80211_is_mgmt fc" "length (mk_rx_pn key) = 6"
  shows "be_num (mk_rx_pn key) < bip_num skb" "be_num (mk_rx_pn key') = bip_num skb" "length (mk_rx_pn key') = 6"
    "\<not> decrypted \<Longrightarrow> bip_mic skb = take 8 (cmac_standard E (bip_message [12, 13, 14] (sb_data skb)))"
    "sb_data skb' = take (length (sb_data skb) - 18) (sb_data skb)"
proof -
  let ?d = "sb_data skb"
  let ?ipn = "bip_ipn_swap (take 6 (drop (length ?d - 14) ?d))"
  have l: "42 \<le> length ?d" using assms(2-4)
    by (auto simp: ieee80211_crypto_aes_cmac_decrypt_def sizeof_mmie_def Let_def split: if_splits)
  then have a: "length ?d - 18 + 4 = length ?d - 14" "length ?d - 18 + 10 = length ?d - 8" by simp_all
  have c: "\<not> memcmp ?ipn (mk_rx_pn key) \<le> 0" "key' = key\<lparr>mk_rx_pn := ?ipn\<rparr>" "skb' = skb_trim_tail 18 skb"
    "\<not> decrypted \<Longrightarrow> take 8 (cmac_standard E (bip_message [12, 13, 14] ?d)) = drop (length ?d - 8) ?d"
    using assms(2-4) l
    unfolding ieee80211_crypto_aes_cmac_decrypt_def Let_def sizeof_mmie_def a cmac_of_frame [OF assms(1) l]
    by (auto split: if_splits)
  show "be_num (mk_rx_pn key) < bip_num skb"
    using c(1) memcmp_newer [of ?ipn "mk_rx_pn key"] assms(5) by (simp add: bip_num_def)
  show "be_num (mk_rx_pn key') = bip_num skb" "length (mk_rx_pn key') = 6"
    "\<not> decrypted \<Longrightarrow> bip_mic skb = take 8 (cmac_standard E (bip_message [12, 13, 14] (sb_data skb)))"
    "sb_data skb' = take (length (sb_data skb) - 18) (sb_data skb)"
    using c(2-4) by (simp_all add: bip_num_def bip_mic_def skb_trim_tail_def)
qed

lemma bip_refuse:
  assumes "ieee80211_crypto_aes_cmac_decrypt E decrypted key skb = Some (res, key', skb')"
    "res \<noteq> RX_CONTINUE \<or> le16_at (sb_data skb) 0 = Some fc \<and> \<not> ieee80211_is_mgmt fc"
  shows "mk_rx_pn key' = mk_rx_pn key"
  using assms by (auto simp: ieee80211_crypto_aes_cmac_decrypt_def Let_def bind_eq_Some_conv split: if_splits)

section \<open>Replay\<close>

text \<open>Whether a management frame is accepted.\<close>

definition bip_recv :: "(u8 list \<Rightarrow> u8 list) \<Rightarrow> sk_buf \<Rightarrow> cmac_key \<Rightarrow> (bool \<times> cmac_key) option" where
  "bip_recv E skb key = do {
     fc \<leftarrow> le16_at (sb_data skb) 0;
     (res, key, out) \<leftarrow> ieee80211_crypto_aes_cmac_decrypt E False key skb;
     Some (res = RX_CONTINUE \<and> ieee80211_is_mgmt fc, key) }"

lemma bip_recv_accept:
  assumes "bip_recv E skb key = Some (True, key')"
  obtains fc skb' where "le16_at (sb_data skb) 0 = Some fc" "ieee80211_is_mgmt fc"
    "ieee80211_crypto_aes_cmac_decrypt E False key skb = Some (RX_CONTINUE, key', skb')"
  using assms by (auto simp: bip_recv_def bind_eq_Some_conv)

lemma bip_recv_refuse: "bip_recv E skb key = Some (False, key') \<Longrightarrow> mk_rx_pn key' = mk_rx_pn key"
  by (auto simp: bip_recv_def bind_eq_Some_conv dest: bip_refuse)

text \<open>
  The cipher only has to yield blocks; a cipher that does not is replaced by a constant one, so that
  the interpretation holds for all of them.
\<close>

definition as_block_cipher :: "(u8 list \<Rightarrow> u8 list) \<Rightarrow> u8 list \<Rightarrow> u8 list" where
  "as_block_cipher E x = take 16 (E x @ replicate 16 0)"

lemma as_block_cipher: "block_cipher (as_block_cipher E)" "block_cipher E \<Longrightarrow> as_block_cipher E = E"
  by (auto simp: block_cipher_def as_block_cipher_def)

interpretation bip: replay_guard "bip_recv (as_block_cipher E)" "\<lambda>key. length (mk_rx_pn key) = 6"
  "\<lambda>key. be_num (mk_rx_pn key)" bip_num for E
proof unfold_locales
  fix key skb key'
  assume i: "length (mk_rx_pn key) = 6" and r: "bip_recv (as_block_cipher E) skb key = Some (True, key')"
  from bip_recv_accept [OF r] obtain fc skb' where
    "le16_at (sb_data skb) 0 = Some fc" "ieee80211_is_mgmt fc"
    "ieee80211_crypto_aes_cmac_decrypt (as_block_cipher E) False key skb = Some (RX_CONTINUE, key', skb')" .
  from bip_accept [OF as_block_cipher(1) this(3,1,2) i]
  show "length (mk_rx_pn key') = 6 \<and> be_num (mk_rx_pn key) < bip_num skb \<and> be_num (mk_rx_pn key') = bip_num skb" by simp
next
  fix key skb key'
  assume "length (mk_rx_pn key) = 6" "bip_recv (as_block_cipher E) skb key = Some (False, key')"
  then show "length (mk_rx_pn key') = 6 \<and> be_num (mk_rx_pn key') = be_num (mk_rx_pn key)"
    using bip_recv_refuse by metis
qed

lemma bip_accepted_mic:
  assumes "block_cipher E" "length (mk_rx_pn key) = 6" "receive_all (bip_recv E) fs key = Some (acc, key')" "f \<in> set acc"
  shows "bip_mic f = take 8 (cmac_standard E (bip_message [12, 13, 14] (sb_data f)))"
  using assms(2-4)
proof (induction fs arbitrary: key acc)
  case (Cons g fs)
  from Cons.prems(2) obtain ok k1 acc1 where
    1: "bip_recv E g key = Some (ok, k1)" "receive_all (bip_recv E) fs k1 = Some (acc1, key')" "acc = (if ok then g # acc1 else acc1)"
    by (auto simp: bind_eq_Some_conv)
  show ?case
  proof (cases ok)
    case True
    then have r: "bip_recv E g key = Some (True, k1)" using 1(1) by simp
    from bip_recv_accept [OF r] obtain fc skb' where g: "le16_at (sb_data g) 0 = Some fc" "ieee80211_is_mgmt fc"
      "ieee80211_crypto_aes_cmac_decrypt E False key g = Some (RX_CONTINUE, k1, skb')" .
    note A = bip_accept [OF assms(1) g(3,1,2) Cons.prems(1)]
    show ?thesis
    proof (cases "f = g")
      case False
      then have "f \<in> set acc1" using Cons.prems(3) 1(3) True by simp
      then show ?thesis by (rule Cons.IH [OF A(3) 1(2)])
    qed (use A(4) in simp)
  next
    case False
    then have "length (mk_rx_pn k1) = 6" using bip_recv_refuse [of E g key k1] 1(1) Cons.prems(1) by simp
    then show ?thesis using Cons.IH [OF _ 1(2)] Cons.prems(3) 1(3) False by simp
  qed
qed simp

section \<open>The round trip\<close>

lemma swap_set64: "bip_ipn_swap (bip_ipn_set64 pn) = pn_bytes pn"
  by (simp add: bip_ipn_swap_def bip_ipn_set64_def pn_bytes_def)

lemma bip_built:
  assumes "block_cipher E" "sb_hw_key skb = None" "18 \<le> sb_tailroom skb" "24 \<le> length (sb_data skb)"
    "le16_at (sb_data skb) 0 = Some fc" "ieee80211_is_mgmt fc"
    "length (mk_rx_pn rkey) = 6" "be_num (mk_rx_pn rkey) < be_num (pn_bytes (mk_tx_pn key + 1))"
  shows "\<exists>skb' out. ieee80211_crypto_aes_cmac_encrypt E key skb = Some (TX_CONTINUE, key\<lparr>mk_tx_pn := mk_tx_pn key + 1\<rparr>, skb') \<and>
     length (sb_data skb') = length (sb_data skb) + 18 \<and>
     ieee80211_crypto_aes_cmac_decrypt E False rkey skb' = Some (RX_CONTINUE, rkey\<lparr>mk_rx_pn := pn_bytes (mk_tx_pn key + 1)\<rparr>, out) \<and>
     sb_data out = sb_data skb"
proof -
  let ?d = "sb_data skb" and ?pn = "mk_tx_pn key + 1"
  let ?mmie = "[ATBM_WLAN_EID_MMIE, of_nat (sizeof_mmie - 2)] @ put_le16 (ucast (mk_keyidx key)) @ bip_ipn_set64 ?pn"
  have lm: "length ?mmie = 10" by (simp add: put_le16_def bip_ipn_set64_def)
  have ne: "?d \<noteq> []" using assms(4) by auto
  have "bip_aad (?d @ ?mmie @ x) = bip_aad ?d" for x using assms(4) ne by (simp add: bip_aad_def nth_append)
  then have aad: "bip_aad ?d = bip_aad ((?d @ ?mmie) @ replicate 8 0)" by simp
  obtain mic where mic: "ieee80211_aes_cmac E (bip_aad ?d) (drop 24 ?d @ ?mmie @ replicate 8 0) = Some mic"
    "mic = take 8 (cmac_standard E (bip_message [12, 13, 14] ((?d @ ?mmie) @ replicate 8 0)))"
    using cmac_of_frame [OF assms(1), of "(?d @ ?mmie) @ replicate 8 0"] assms(4) lm aad by simp
  have len: "length mic = 8"
    unfolding mic(2) cmac_standard_def Let_def by (simp add: cmac_chain_length [OF assms(1)])
  let ?B = "?d @ ?mmie @ mic"
  have enc: "ieee80211_crypto_aes_cmac_encrypt E key skb = Some (TX_CONTINUE, key\<lparr>mk_tx_pn := ?pn\<rparr>,
      skb\<lparr>sb_tailroom := sb_tailroom skb - 18, sb_data := ?B\<rparr>)"
    using assms(2-4) mic(1) by (simp add: ieee80211_crypto_aes_cmac_encrypt_def Let_def sizeof_mmie_def)
  have fc: "le16_at ?B 0 = Some fc" using assms(4,5) ne by (simp add: le16_at_def rd_def nth_append)
  have m: "length ?B - 18 = length ?d" "\<not> length ?B < 24 + 18" using lm len assms(4) by simp_all
  have bytes: "?B ! length ?d = ATBM_WLAN_EID_MMIE" "?B ! (length ?d + 1) = of_nat (sizeof_mmie - 2)"
    by (simp_all add: nth_append)
  have ipn: "bip_ipn_swap (take 6 (drop (length ?d + 4) ?B)) = pn_bytes ?pn"
    by (simp add: put_le16_def bip_ipn_set64_def swap_set64 [unfolded bip_ipn_set64_def])
  have newer: "\<not> memcmp (pn_bytes ?pn) (mk_rx_pn rkey) \<le> 0" using memcmp_newer [of "pn_bytes ?pn" "mk_rx_pn rkey"] assms(7,8) by simp
  have msg: "bip_message [12, 13, 14] ?B = bip_message [12, 13, 14] ((?d @ ?mmie) @ replicate 8 0)"
    using bip_message_mic [of mic "?d @ ?mmie"] bip_message_mic [of "replicate 8 0" "?d @ ?mmie"] len assms(4) by simp
  have tail: "drop (length ?d + 10) ?B = mic" using lm by simp
  have mic': "ieee80211_aes_cmac E (bip_aad ?B) (drop 24 ?B) = Some mic"
    using cmac_of_frame [OF assms(1), of ?B] m(2) unfolding msg mic(2) [symmetric] by simp
  obtain B where B: "B = ?B" by blast
  let ?skb = "skb\<lparr>sb_tailroom := sb_tailroom skb - 18, sb_data := B\<rparr>"
  have dec: "ieee80211_crypto_aes_cmac_decrypt E False rkey ?skb =
      Some (RX_CONTINUE, rkey\<lparr>mk_rx_pn := pn_bytes ?pn\<rparr>, skb_trim_tail 18 ?skb)"
    using assms(6) newer fc [folded B] m(2) [folded B] bytes [folded B] mic' [folded B] tail [folded B]
    unfolding ieee80211_crypto_aes_cmac_decrypt_def Let_def sizeof_mmie_def
    by (simp add: m(1) [folded B] ipn [folded B])
  show ?thesis unfolding enc using dec lm len unfolding B by (fastforce simp: skb_trim_tail_def)
qed

end
