(* ===== verification/Wpa_Ccmp_Proofs.thy ===== *)
theory Wpa_Ccmp_Proofs
  imports Wpa_Ccmp
begin

text \<open>CCMP frames: what the sender builds the receiver accepts, and what the replay counters do.\<close>

section \<open>Headers\<close>

text \<open>
  \<open>h\<close> is a complete header with frame control field \<open>fc\<close>. That the header reaches past the addresses and
  the QoS field it holds is what \<open>ieee80211_hdrlen\<close> documents.
\<close>

definition hdr_ok :: "(u16 \<Rightarrow> nat) \<Rightarrow> u16 \<Rightarrow> u8 list \<Rightarrow> bool" where
  "hdr_ok hl fc h \<longleftrightarrow> le16_at h 0 = Some fc \<and> length h = hl fc \<and> 24 \<le> hl fc \<and>
     (ieee80211_has_a4 fc \<longrightarrow> 30 \<le> hl fc) \<and> (ieee80211_is_data_qos fc \<longrightarrow> qos_ctl_offset fc < hl fc)"

lemma hdr_okD:
  assumes "hdr_ok hl fc h"
  shows "le16_at (h @ x) 0 = Some fc" "hl fc = length h" "24 \<le> length h"
proof -
  have h: "24 \<le> length h" "hl fc = length h" "le16_at h 0 = Some fc" using assms by (auto simp: hdr_ok_def)
  then have "h \<noteq> []" by auto
  with h show "le16_at (h @ x) 0 = Some fc" "hl fc = length h" "24 \<le> length h"
    by (simp_all add: le16_at_def rd_def nth_append)
qed

text \<open>The blocks depend on the header and the length of the data only.\<close>

definition blocks_of_header :: "u16 \<Rightarrow> u8 list \<Rightarrow> u8 list \<Rightarrow> u16 \<Rightarrow> u8 list \<times> u8 list" where
  "blocks_of_header fc h pn n =
     (let mask_fc = fc AND NOT (0x0800 OR 0x1000 OR 0x2000);
          mask_fc = (if ieee80211_is_mgmt fc then mask_fc else mask_fc AND NOT 0x0070) OR 0x4000;
          tid = (if ieee80211_is_data_qos fc then h ! qos_ctl_offset fc AND 0x0f else 0) in
      ([0x59, tid OR (if ieee80211_is_mgmt fc then 0x10 else 0)] @ take 6 (drop 10 h) @ pn @ put_be16 n,
       put_be16 (of_nat (length h) - 2) @ put_le16 mask_fc @ take 18 (drop 4 h) @ [h ! 22 AND 0x0f, 0] @
         (if ieee80211_has_a4 fc then take 6 (drop 24 h) @ [tid, 0] else [tid] @ replicate 7 0)))"

lemma special_blocks_eq:
  assumes "hdr_ok hl fc h"
  shows "ccmp_special_blocks hl (h @ z) pn encrypted = Some (blocks_of_header fc h pn
     (let n = of_nat (length (h @ z)) - of_nat (length h) - of_nat CCMP_HDR_LEN in
      if encrypted then n - of_nat CCMP_MIC_LEN else n))"
proof -
  have n: "24 \<le> length h" "ieee80211_has_a4 fc \<Longrightarrow> 30 \<le> length h"
    "ieee80211_is_data_qos fc \<Longrightarrow> qos_ctl_offset fc < length h"
    using assms(1) by (auto simp: hdr_ok_def)
  have e: "(if ieee80211_is_data_qos fc then map_option (\<lambda>q. q AND 0x0f) (rd (h @ z) (qos_ctl_offset fc)) else Some 0) =
      Some (if ieee80211_is_data_qos fc then h ! qos_ctl_offset fc AND 0x0f else 0)"
    using n(3) by (cases "ieee80211_is_data_qos fc") (simp_all add: nth_append)
  have t: "take 6 (drop 10 (h @ z)) = take 6 (drop 10 h)" "take 18 (drop 4 (h @ z)) = take 18 (drop 4 h)" "(h @ z) ! 22 = h ! 22"
    using n by (simp_all add: nth_append)
  have a: "(if ieee80211_has_a4 fc then take 6 (drop 24 (h @ z)) @ r else r') =
      (if ieee80211_has_a4 fc then take 6 (drop 24 h) @ r else r')" for r r' using n by simp
  have l: "ensure ((if ieee80211_has_a4 fc then 30 else 24) \<le> length (h @ z)) = Some ()"
    using n by (cases "ieee80211_has_a4 fc") (simp_all add: ensure_def)
  show ?thesis
    unfolding ccmp_special_blocks_def hdr_okD(1,2) [OF assms] Let_def Option.bind.simps e t a l blocks_of_header_def by (rule refl)
qed

lemma special_blocks_header:
  assumes "hdr_ok hl fc h" "length x = length y + 8"
  shows "ccmp_special_blocks hl (h @ x) pn True = ccmp_special_blocks hl (h @ y) pn False"
    "ccmp_special_blocks hl (h @ y) pn False \<noteq> None"
proof -
  have w: "(let n = of_nat (length (h @ x)) - of_nat (length h) - of_nat CCMP_HDR_LEN in
      if True then n - of_nat CCMP_MIC_LEN else n :: u16) =
      (let n = of_nat (length (h @ y)) - of_nat (length h) - of_nat CCMP_HDR_LEN in
       if False then n - of_nat CCMP_MIC_LEN else n)"
    using assms(2) by (simp add: CCMP_HDR_LEN_def CCMP_MIC_LEN_def)
  show "ccmp_special_blocks hl (h @ x) pn True = ccmp_special_blocks hl (h @ y) pn False"
    "ccmp_special_blocks hl (h @ y) pn False \<noteq> None"
    unfolding special_blocks_eq [OF assms(1)] w by simp_all
qed

lemma length_pn2hdr [simp]: "length (ccmp_pn2hdr pn k) = 8"
  by (simp add: ccmp_pn2hdr_def)

lemma hdr2pn_pn2hdr:
  assumes "length pn = 6"
  shows "ccmp_hdr2pn (h @ ccmp_pn2hdr pn k @ x) (length h) = Some pn"
proof -
  obtain a b c e f g where "pn = [a, b, c, e, f, g]"
    using assms by (auto simp: numeral_eq_Suc length_Suc_conv)
  then show ?thesis by (simp add: ccmp_hdr2pn_def ccmp_pn2hdr_def rd_def nth_append)
qed

section \<open>The round trip\<close>

lemma encrypt_skb_built:
  assumes "block_cipher E" "sb_hw_key skb = None" "sb_data skb = h @ body" "hdr_ok hl fc h"
    "8 \<le> sb_headroom skb" "8 \<le> sb_tailroom skb"
  shows "\<exists>b_0 aad c mic skb'. let pn = pn_bytes (ck_tx_pn key + 1); hd = ccmp_pn2hdr pn (ck_keyidx key) in
     ccmp_encrypt_skb E hl key skb = Some (True, key\<lparr>ck_tx_pn := ck_tx_pn key + 1\<rparr>, skb') \<and>
     sb_data skb' = h @ hd @ c @ mic \<and> sb_hw_key skb' = None \<and> length c = length body \<and> length mic = 8 \<and>
     ccmp_special_blocks hl (h @ hd @ c @ mic) pn True = Some (b_0, aad) \<and>
     ieee80211_aes_ccm_decrypt E b_0 aad c mic = (body, True)"
proof -
  let ?pn = "pn_bytes (ck_tx_pn key + 1)"
  let ?hd = "ccmp_pn2hdr ?pn (ck_keyidx key)"
  note H = hdr_okD [OF assms(4)]
  obtain b_0 aad where b: "ccmp_special_blocks hl (h @ ?hd @ body) ?pn False = Some (b_0, aad)"
    using special_blocks_header(2) [OF assms(4), of "replicate (length body + 16) 0" "?hd @ body" ?pn] by auto
  obtain c mic where c: "ieee80211_aes_ccm_encrypt E b_0 aad body = (c, mic)" by fastforce
  have l: "length c = length body" "length mic = 8"
    using ccm_encrypt_lengths [OF assms(1), of b_0 aad body] by (simp_all add: c)
  have sp: "ccmp_special_blocks hl (h @ ?hd @ c @ mic) ?pn True = Some (b_0, aad)"
    using special_blocks_header(1) [OF assms(4), of "?hd @ c @ mic" "?hd @ body" ?pn] l b by simp
  have dec: "ieee80211_aes_ccm_decrypt E b_0 aad c mic = (body, True)"
    using ccm_decrypt_iff [OF assms(1) l(2)] c by blast
  have "ccmp_encrypt_skb E hl key skb = Some (True, key\<lparr>ck_tx_pn := ck_tx_pn key + 1\<rparr>,
      (open_gap (length h) ?hd skb)\<lparr>sb_tailroom := sb_tailroom skb - 8, sb_data := h @ ?hd @ c @ mic\<rparr>)"
    using assms(2,3,5,6) H b c
    by (simp add: ccmp_encrypt_skb_def Let_def open_gap_def CCMP_MIC_LEN_def CCMP_HDR_LEN_def)
  then show ?thesis using l sp dec assms(2) unfolding Let_def by (fastforce simp: open_gap_def)
qed

lemma decrypt_built:
  assumes "hdr_ok hl fc h" "ieee80211_is_data fc" "sb_data skb = h @ ccmp_pn2hdr pn k @ c @ mic" "length pn = 6" "length mic = 8"
    "ccmp_special_blocks hl (h @ ccmp_pn2hdr pn k @ c @ mic) pn True = Some (b_0, aad)"
    "ieee80211_aes_ccm_decrypt E b_0 aad c mic = (body, True)" "length c = length body"
    "queue < length (ck_rx_pn key)" "queue < length (ck_prev_rx_pn key)" "\<not> memcmp pn (ck_rx_pn key ! queue) < 0"
  shows "\<exists>skb'. ieee80211_crypto_ccmp_decrypt E hl True False queue key skb = Some (RX_CONTINUE,
       (let (rx, prev) = ccmp_new_counters pn (ck_rx_pn key ! queue) (ck_prev_rx_pn key ! queue) in
        key\<lparr>ck_rx_pn := (ck_rx_pn key)[queue := rx], ck_prev_rx_pn := (ck_prev_rx_pn key)[queue := prev]\<rparr>), skb') \<and>
     sb_data skb' = h @ body"
proof -
  let ?d = "h @ ccmp_pn2hdr pn k @ c @ mic"
  note H = hdr_okD [OF assms(1)]
  have r: "atbm_ieee80211_is_robust_mgmt_frame ?d \<noteq> None"
    using H(1) [of "ccmp_pn2hdr pn k @ c @ mic"] H(3) by (auto simp: atbm_ieee80211_is_robust_mgmt_frame_def nth_append)
  then obtain rb where rb: "atbm_ieee80211_is_robust_mgmt_frame ?d = Some rb" by blast
  have parts: "take (length h + 8) ?d = h @ ccmp_pn2hdr pn k" "drop (length h + 8) ?d = c @ mic"
    "take (length c) (c @ mic) = c" "drop (length h + 8 + length c) ?d = mic" by simp_all
  have lens: "length ?d - length h - 8 - 8 = length c" "\<not> length ?d < length h + 8 + 8" using assms(5) by simp_all
  let ?skb = "close_gap (length h) 8 (skb_trim_tail 8 (skb\<lparr>sb_data := h @ ccmp_pn2hdr pn k @ body @ mic\<rparr>))"
  have s: "sb_data ?skb = h @ body"
    using assms(5) by (simp add: close_gap_def skb_trim_tail_def)
  show ?thesis
    using assms(2,5,7-11) H s
    unfolding ieee80211_crypto_ccmp_decrypt_def assms(3) Let_def H(1) Option.bind.simps rb H(2) CCMP_HDR_LEN_def CCMP_MIC_LEN_def
      lens(1) hdr2pn_pn2hdr [OF assms(4)] parts assms(6) split_beta
    by (simp add: lens split_beta)
qed

section \<open>Replay\<close>

text \<open>\<open>ieee80211_key_alloc\<close> for CCMP: the sequence counter given with the key, least significant byte first.\<close>

definition ccmp_key_alloc :: "u8 \<Rightarrow> u8 list option \<Rightarrow> ccmp_key" where
  "ccmp_key_alloc idx seq = \<lparr>ck_keyidx = idx, ck_tx_pn = 0,
     ck_rx_pn = replicate 17 (case seq of None \<Rightarrow> zero_pn | Some s \<Rightarrow> map (\<lambda>j. s ! (6 - j - 1)) [0..<6]),
     ck_prev_rx_pn = replicate 17 zero_pn, ck_replays = 0\<rparr>"

lemma memcmp_eq: "length a = length b \<Longrightarrow> memcmp a b = 0 \<longleftrightarrow> a = b"
  by (induction a b rule: list_induct2) (auto simp: word_uint_eq_iff)

lemma memcmp_zero: "\<not> memcmp (replicate n 0) b > 0"
proof (induction b arbitrary: n)
  case (Cons y b)
  then show ?case by (cases n) auto
qed simp

lemma counters_stuck:
  assumes "length rx = 6" "rx \<noteq> zero_pn"
  shows "ccmp_new_counters pn rx zero_pn = (rx, zero_pn)"
  using assms memcmp_eq [of zero_pn rx] memcmp_eq [of rx zero_pn] memcmp_zero [of 6 pn]
  by (auto simp: ccmp_new_counters_def zero_pn_def)

text \<open>In step, the counters follow the frames: the next one is not older, and becomes the last one.\<close>

lemma counters_in_step:
  "ccmp_new_counters pn rx rx = (pn, pn)"
  by (simp add: ccmp_new_counters_def memcmp_eq)

lemma decrypt_counters:
  assumes "ieee80211_crypto_ccmp_decrypt E hl has_sta decrypted queue key skb = Some (res, key', skb')"
    "\<forall>q < length (ck_rx_pn key). q < length (ck_prev_rx_pn key) \<longrightarrow> ck_prev_rx_pn key ! q = zero_pn"
    "\<forall>rx \<in> set (ck_rx_pn key). length rx = 6 \<and> rx \<noteq> zero_pn"
  shows "ck_rx_pn key' = ck_rx_pn key" "ck_prev_rx_pn key' = ck_prev_rx_pn key"
proof -
  have c: "ccmp_new_counters pn (ck_rx_pn key ! queue) (ck_prev_rx_pn key ! queue) = (ck_rx_pn key ! queue, ck_prev_rx_pn key ! queue)"
    if "queue < length (ck_rx_pn key)" "queue < length (ck_prev_rx_pn key)" for pn
    using counters_stuck [of "ck_rx_pn key ! queue" pn] assms(2,3) that by simp
  show "ck_rx_pn key' = ck_rx_pn key" "ck_prev_rx_pn key' = ck_prev_rx_pn key"
    using assms(1)
    by (auto simp: ieee80211_crypto_ccmp_decrypt_def Let_def bind_eq_Some_conv array_simps c split: if_splits prod.splits)
qed

text \<open>A sequence of receptions with one key, each frame with its counter.\<close>

fun ccmp_receive_all :: "(u8 list \<Rightarrow> u8 list) \<Rightarrow> (u16 \<Rightarrow> nat) \<Rightarrow> (nat \<times> sk_buf) list \<Rightarrow> ccmp_key \<Rightarrow> ccmp_key option" where
  "ccmp_receive_all E hl [] key = Some key"
| "ccmp_receive_all E hl ((queue, skb) # xs) key = do {
     (res, key, skb) \<leftarrow> ieee80211_crypto_ccmp_decrypt E hl True False queue key skb;
     ccmp_receive_all E hl xs key }"

lemma receive_all_stuck:
  assumes "ccmp_receive_all E hl xs key = Some key'"
    "\<forall>q < length (ck_rx_pn key). q < length (ck_prev_rx_pn key) \<longrightarrow> ck_prev_rx_pn key ! q = zero_pn"
    "\<forall>rx \<in> set (ck_rx_pn key). length rx = 6 \<and> rx \<noteq> zero_pn"
  shows "ck_rx_pn key' = ck_rx_pn key \<and> ck_prev_rx_pn key' = ck_prev_rx_pn key"
  using assms
proof (induction xs arbitrary: key)
  case (Cons x xs)
  obtain q skb where x: "x = (q, skb)" by fastforce
  from Cons.prems(1) obtain res key1 skb1 where
    1: "ieee80211_crypto_ccmp_decrypt E hl True False q key skb = Some (res, key1, skb1)" "ccmp_receive_all E hl xs key1 = Some key'"
    by (auto simp: x bind_eq_Some_conv)
  note D = decrypt_counters [OF 1(1) Cons.prems(2,3)]
  show ?case using Cons.IH [OF 1(2)] Cons.prems(2,3) D by simp
qed simp

lemma decrypt_cong:
  assumes "ck_rx_pn key' = ck_rx_pn key" "ck_prev_rx_pn key' = ck_prev_rx_pn key"
  shows "map_option (\<lambda>(res, k, skb). (res, skb)) (ieee80211_crypto_ccmp_decrypt E hl has_sta decrypted queue key' skb) =
     map_option (\<lambda>(res, k, skb). (res, skb)) (ieee80211_crypto_ccmp_decrypt E hl has_sta decrypted queue key skb)"
  unfolding ieee80211_crypto_ccmp_decrypt_def assms Let_def
  by (auto split: option.split prod.split bind_split)

end
