(* ===== verification/Wep.thy ===== *)
theory Wep
  imports Wpa_Ccmp_Proofs
begin

text \<open>
  \<open>mac80211/wep.c\<close>, as compiled for kernels after 5.4. The stream cipher (\<open>arc4_setkey\<close> and
  \<open>arc4_crypt\<close>, from a key and data to data) and \<open>crc32_le\<close> are parameters.
\<close>

section \<open>The parameters\<close>

text \<open>What is relied on: crypting twice with one key gives the data back.\<close>

definition stream_cipher :: "(u8 list \<Rightarrow> u8 list \<Rightarrow> u8 list) \<Rightarrow> bool" where
  "stream_cipher arc4 \<longleftrightarrow> (\<forall>k d. length (arc4 k d) = length d \<and> arc4 k (arc4 k d) = d)"

section \<open>Initialisation vectors\<close>

definition WEP_IV_LEN :: nat where "WEP_IV_LEN = 4"
definition WEP_ICV_LEN :: nat where "WEP_ICV_LEN = 4"

definition ieee80211_wep_weak_iv :: "u32 \<Rightarrow> nat \<Rightarrow> bool" where
  "ieee80211_wep_weak_iv iv keylen \<longleftrightarrow>
     iv AND 0xff00 = 0xff00 \<and> (let B = unat (ucast (drop_bit 16 iv) :: u8) in 3 \<le> B \<and> B < 3 + keylen)"

definition ieee80211_wep_is_weak_iv :: "(u16 \<Rightarrow> nat) \<Rightarrow> u8 list \<Rightarrow> nat \<Rightarrow> bool option" where
  "ieee80211_wep_is_weak_iv hl d keylen = do {
     fc \<leftarrow> le16_at d 0;
     if \<not> ieee80211_has_protected fc then Some False
     else do {
       let hdrlen = hl fc;
       a \<leftarrow> rd d hdrlen; b \<leftarrow> rd d (hdrlen + 1); c \<leftarrow> rd d (hdrlen + 2);
       Some (ieee80211_wep_weak_iv (push_bit 16 (ucast a) OR push_bit 8 (ucast b) OR ucast c) keylen) } }"

definition ieee80211_wep_get_iv :: "u32 \<Rightarrow> nat \<Rightarrow> u8 \<Rightarrow> u32 \<times> u8 list" where
  "ieee80211_wep_get_iv wep_iv keylen keyidx =
     (let wep_iv = wep_iv + 1;
          wep_iv = (if ieee80211_wep_weak_iv wep_iv keylen then wep_iv + 0x0100 else wep_iv) in
      (wep_iv, [ucast (drop_bit 16 wep_iv), ucast (drop_bit 8 wep_iv), ucast wep_iv, push_bit 6 keyidx]))"

section \<open>Encryption\<close>

record wep_key =
  wk_keyidx :: u8
  wk_key :: "u8 list"

text \<open>The position of the vector; the frame is left alone when there is no room.\<close>

definition ieee80211_wep_add_iv ::
  "(u16 \<Rightarrow> nat) \<Rightarrow> u32 \<Rightarrow> sk_buf \<Rightarrow> nat \<Rightarrow> u8 \<Rightarrow> (nat option \<times> u32 \<times> sk_buf) option" where
  "ieee80211_wep_add_iv hl wep_iv skb keylen keyidx = do {
     d \<leftarrow> set_protected (sb_data skb);
     let skb = skb\<lparr>sb_data := d\<rparr>;
     if sb_tailroom skb < WEP_ICV_LEN \<or> sb_headroom skb < WEP_IV_LEN then Some (None, wep_iv, skb)
     else do {
       fc \<leftarrow> le16_at d 0;
       let hdrlen = hl fc;
       ensure (hdrlen \<le> length d);
       let (wep_iv, iv) = ieee80211_wep_get_iv wep_iv keylen keyidx;
       Some (Some hdrlen, wep_iv, open_gap hdrlen iv skb) } }"

definition wep_icv :: "(u32 \<Rightarrow> u8 list \<Rightarrow> u32) \<Rightarrow> u8 list \<Rightarrow> u8 list" where
  "wep_icv crc32_le data = put_le32 (NOT (crc32_le (NOT 0) data))"

definition ieee80211_wep_encrypt_data ::
  "(u8 list \<Rightarrow> u8 list \<Rightarrow> u8 list) \<Rightarrow> (u32 \<Rightarrow> u8 list \<Rightarrow> u32) \<Rightarrow> u8 list \<Rightarrow> u8 list \<Rightarrow> u8 list" where
  "ieee80211_wep_encrypt_data arc4 crc32_le rc4key data = arc4 rc4key (data @ wep_icv crc32_le data)"

definition ieee80211_wep_encrypt ::
  "(u8 list \<Rightarrow> u8 list \<Rightarrow> u8 list) \<Rightarrow> (u32 \<Rightarrow> u8 list \<Rightarrow> u32) \<Rightarrow> (u16 \<Rightarrow> nat) \<Rightarrow> u32 \<Rightarrow> sk_buf \<Rightarrow> wep_key \<Rightarrow>
     (bool \<times> u32 \<times> sk_buf) option" where
  "ieee80211_wep_encrypt arc4 crc32_le hl wep_iv skb key = do {
     (pos, wep_iv, skb) \<leftarrow> ieee80211_wep_add_iv hl wep_iv skb (length (wk_key key)) (wk_keyidx key);
     (case pos of
        None \<Rightarrow> Some (False, wep_iv, skb)
      | Some iv \<Rightarrow> do {
          ensure (length (wk_key key) \<le> 13);
          let rc4key = take 3 (drop iv (sb_data skb)) @ wk_key key;
          let data = drop (iv + WEP_IV_LEN) (sb_data skb);
          Some (True, wep_iv, skb\<lparr>sb_tailroom := sb_tailroom skb - WEP_ICV_LEN,
            sb_data := take (iv + WEP_IV_LEN) (sb_data skb) @ ieee80211_wep_encrypt_data arc4 crc32_le rc4key data\<rparr>) }) }"

definition wep_encrypt_skb ::
  "(u8 list \<Rightarrow> u8 list \<Rightarrow> u8 list) \<Rightarrow> (u32 \<Rightarrow> u8 list \<Rightarrow> u32) \<Rightarrow> (u16 \<Rightarrow> nat) \<Rightarrow> u32 \<Rightarrow> wep_key \<Rightarrow> sk_buf \<Rightarrow>
     (bool \<times> u32 \<times> sk_buf) option" where
  "wep_encrypt_skb arc4 crc32_le hl wep_iv key skb =
     (case sb_hw_key skb of
        None \<Rightarrow> ieee80211_wep_encrypt arc4 crc32_le hl wep_iv skb key
      | Some generate_iv \<Rightarrow>
          if generate_iv then do {
            (pos, wep_iv, skb) \<leftarrow> ieee80211_wep_add_iv hl wep_iv skb (length (wk_key key)) (wk_keyidx key);
            Some (pos \<noteq> None, wep_iv, skb) }
          else Some (True, wep_iv, skb))"

fun wep_encrypt_all ::
  "(u8 list \<Rightarrow> u8 list \<Rightarrow> u8 list) \<Rightarrow> (u32 \<Rightarrow> u8 list \<Rightarrow> u32) \<Rightarrow> (u16 \<Rightarrow> nat) \<Rightarrow> u32 \<Rightarrow> wep_key \<Rightarrow> sk_buf list \<Rightarrow>
     (tx_result \<times> u32 \<times> sk_buf list) option" where
  "wep_encrypt_all arc4 crc32_le hl wep_iv key [] = Some (TX_CONTINUE, wep_iv, [])"
| "wep_encrypt_all arc4 crc32_le hl wep_iv key (skb # skbs) = do {
     (ok, wep_iv, skb) \<leftarrow> wep_encrypt_skb arc4 crc32_le hl wep_iv key skb;
     if \<not> ok then Some (TX_DROP, wep_iv, skb # skbs)
     else do {
       (res, wep_iv, skbs) \<leftarrow> wep_encrypt_all arc4 crc32_le hl wep_iv key skbs;
       Some (res, wep_iv, skb # skbs) } }"

definition ieee80211_crypto_wep_encrypt ::
  "(u8 list \<Rightarrow> u8 list \<Rightarrow> u8 list) \<Rightarrow> (u32 \<Rightarrow> u8 list \<Rightarrow> u32) \<Rightarrow> (u16 \<Rightarrow> nat) \<Rightarrow> u32 \<Rightarrow> wep_key \<Rightarrow> sk_buf list \<Rightarrow>
     (tx_result \<times> u32 \<times> sk_buf list) option" where
  "ieee80211_crypto_wep_encrypt arc4 crc32_le hl wep_iv key skbs = do {
     skbs \<leftarrow> ieee80211_tx_set_protected skbs;
     wep_encrypt_all arc4 crc32_le hl wep_iv key skbs }"

section \<open>Decryption\<close>

text \<open>The data, and whether the checksum is right; \<open>data\<close> includes the checksum.\<close>

definition ieee80211_wep_decrypt_data ::
  "(u8 list \<Rightarrow> u8 list \<Rightarrow> u8 list) \<Rightarrow> (u32 \<Rightarrow> u8 list \<Rightarrow> u32) \<Rightarrow> u8 list \<Rightarrow> u8 list \<Rightarrow> u8 list \<times> bool" where
  "ieee80211_wep_decrypt_data arc4 crc32_le rc4key data =
     (let data = arc4 rc4key data;
          n = length data - WEP_ICV_LEN in
      (data, wep_icv crc32_le (take n data) = drop n data))"

definition ieee80211_wep_decrypt ::
  "(u8 list \<Rightarrow> u8 list \<Rightarrow> u8 list) \<Rightarrow> (u32 \<Rightarrow> u8 list \<Rightarrow> u32) \<Rightarrow> (u16 \<Rightarrow> nat) \<Rightarrow> wep_key \<Rightarrow> sk_buf \<Rightarrow> (bool \<times> sk_buf) option" where
  "ieee80211_wep_decrypt arc4 crc32_le hl key skb = do {
     let d = sb_data skb;
     fc \<leftarrow> le16_at d 0;
     if \<not> ieee80211_has_protected fc then Some (False, skb)
     else do {
       let hdrlen = hl fc;
       if length d < hdrlen + WEP_IV_LEN + WEP_ICV_LEN then Some (False, skb)
       else if drop_bit 6 (d ! (hdrlen + 3)) \<noteq> wk_keyidx key then Some (False, skb)
       else do {
         ensure (length (wk_key key) \<le> 13);
         let rc4key = take 3 (drop hdrlen d) @ wk_key key;
         let (data, ok) = ieee80211_wep_decrypt_data arc4 crc32_le rc4key (drop (hdrlen + WEP_IV_LEN) d);
         let skb = skb\<lparr>sb_data := take (hdrlen + WEP_IV_LEN) d @ data\<rparr>;
         Some (ok, close_gap hdrlen WEP_IV_LEN (skb_trim_tail WEP_ICV_LEN skb)) } } }"

text \<open>\<open>decrypted\<close> and \<open>iv_stripped\<close> are the flags the hardware reported for the frame.\<close>

definition ieee80211_is_auth :: "u16 \<Rightarrow> bool" where
  "ieee80211_is_auth fc \<longleftrightarrow> fc AND 0x00fc = 0x00b0"

definition ieee80211_crypto_wep_decrypt ::
  "(u8 list \<Rightarrow> u8 list \<Rightarrow> u8 list) \<Rightarrow> (u32 \<Rightarrow> u8 list \<Rightarrow> u32) \<Rightarrow> (u16 \<Rightarrow> nat) \<Rightarrow> bool \<Rightarrow> bool \<Rightarrow> wep_key \<Rightarrow> sk_buf \<Rightarrow>
     (rx_result \<times> sk_buf) option" where
  "ieee80211_crypto_wep_decrypt arc4 crc32_le hl decrypted iv_stripped key skb = do {
     fc \<leftarrow> le16_at (sb_data skb) 0;
     if \<not> ieee80211_is_data fc \<and> \<not> ieee80211_is_auth fc then Some (RX_CONTINUE, skb)
     else if \<not> decrypted then do {
       (ok, skb) \<leftarrow> ieee80211_wep_decrypt arc4 crc32_le hl key skb;
       Some (if ok then RX_CONTINUE else RX_DROP_UNUSABLE, skb) }
     else if \<not> iv_stripped then do {
       ensure (hl fc + WEP_IV_LEN + WEP_ICV_LEN \<le> length (sb_data skb));
       Some (RX_CONTINUE, skb_trim_tail WEP_ICV_LEN (close_gap (hl fc) WEP_IV_LEN skb)) }
     else Some (RX_CONTINUE, skb) }"

section \<open>Lemmas\<close>

lemma length_wep_icv [simp]: "length (wep_icv crc data) = 4"
  by (simp add: wep_icv_def put_le32_def)

lemma wep_data_roundtrip:
  assumes "stream_cipher arc4"
  shows "ieee80211_wep_decrypt_data arc4 crc k (ieee80211_wep_encrypt_data arc4 crc k data) = (data @ wep_icv crc data, True)"
    "length (ieee80211_wep_encrypt_data arc4 crc k data) = length data + 4"
  using assms by (simp_all add: ieee80211_wep_decrypt_data_def ieee80211_wep_encrypt_data_def stream_cipher_def WEP_ICV_LEN_def)

text \<open>The vectors that are used are never weak.\<close>

lemma middle_byte:
  assumes "w AND 0xff00 = (0xff00 :: u32)"
  shows "unat w div 256 mod 256 = 255"
proof -
  have m: "0xff00 = push_bit 8 (mask 8 :: u32)" by (simp add: mask_eq_exp_minus_1 push_bit_eq_mult)
  have "take_bit 8 (drop_bit 8 w) = drop_bit 8 (w AND push_bit 8 (mask 8))"
    by (rule bit_word_eqI) (auto simp: bit_simps)
  also have "\<dots> = 0xff" using assms unfolding m by (simp add: drop_bit_push_bit mask_eq_exp_minus_1)
  finally have "unat (take_bit 8 (drop_bit 8 w)) = 255" by simp
  then show ?thesis by (simp add: take_bit_eq_mod drop_bit_eq_div unat_div_distrib unat_mod_distrib)
qed

lemma div_mod_256: "(m mod 4294967296) div 256 mod 256 = m div 256 mod (256 :: nat)"
proof -
  have "m mod (256 * 16777216) = 256 * (m div 256 mod 16777216) + m mod 256" by (rule mod_mult2_eq)
  then have "(m mod 4294967296) div 256 = m div 256 mod 16777216" by simp
  then show ?thesis by (simp add: mod_mod_cancel)
qed

lemma wep_iv_never_weak: "\<not> ieee80211_wep_weak_iv (fst (ieee80211_wep_get_iv wep_iv keylen keyidx)) keylen"
proof -
  have "\<not> (v + 0x100) AND 0xff00 = 0xff00" if "v AND 0xff00 = 0xff00" for v :: u32
  proof
    assume "(v + 0x100) AND 0xff00 = 0xff00"
    then have "unat (v + 0x100) div 256 mod 256 = 255" by (rule middle_byte)
    moreover have "unat (v + 0x100) = (unat v + 256) mod 4294967296" by (simp add: unat_word_ariths)
    moreover note div_mod_256 [of "unat v + 256"]
    ultimately have "(unat v + 256) div 256 mod 256 = 255" by simp
    moreover have "(unat v + 256) div 256 = Suc (unat v div 256)" by simp
    ultimately have "Suc (unat v div 256) mod 256 = 255" by metis
    then show False using middle_byte [OF that] by (simp add: mod_Suc)
  qed
  from this [of "wep_iv + 1"] show ?thesis by (auto simp: ieee80211_wep_get_iv_def ieee80211_wep_weak_iv_def Let_def)
qed

section \<open>The round trip\<close>

definition protected :: "u8 list \<Rightarrow> u8 list" where
  "protected h = h[1 := h ! 1 OR 0x40]"

lemma protected_simps [simp]: "length (protected h) = length h" "2 \<le> length h \<Longrightarrow> protected (protected h) = protected h"
  by (simp_all add: protected_def or.assoc)

lemma set_protected_header: "2 \<le> length h \<Longrightarrow> set_protected (h @ x) = Some (protected h @ x)"
  by (auto simp: set_protected_def protected_def nth_append list_update_append)

lemma protected_bit:
  assumes "hdr_ok hl fc (protected h)"
  shows "ieee80211_has_protected fc" "2 \<le> length h"
proof -
  have l: "24 \<le> length h" using assms by (simp add: hdr_ok_def)
  then show "2 \<le> length h" by simp
  have "fc = le16 (protected h ! 0) (h ! 1 OR 0x40)"
    using assms l by (auto simp: hdr_ok_def le16_at_def rd_def protected_def split: if_splits)
  then have "bit fc 14" by (simp add: le16_def bit_simps)
  then have "bit (fc AND 0x4000) 14" by (simp add: bit_simps)
  then show "ieee80211_has_protected fc" unfolding ieee80211_has_protected_def by auto
qed

lemma wep_built:
  assumes "stream_cipher arc4" "sb_hw_key skb = None" "sb_data skb = h @ body" "hdr_ok hl fc (protected h)"
    "ieee80211_is_data fc \<or> ieee80211_is_auth fc" "4 \<le> sb_headroom skb" "4 \<le> sb_tailroom skb"
    "length (wk_key key) \<le> 13" "wk_keyidx key < 4"
  shows "\<exists>skb' out. ieee80211_crypto_wep_encrypt arc4 crc hl wep_iv key [skb] =
       Some (TX_CONTINUE, fst (ieee80211_wep_get_iv wep_iv (length (wk_key key)) (wk_keyidx key)), [skb']) \<and>
     length (sb_data skb') = length (sb_data skb) + 8 \<and>
     ieee80211_crypto_wep_decrypt arc4 crc hl False stripped key skb' = Some (RX_CONTINUE, out) \<and>
     sb_data out = protected h @ body"
proof -
  note H = hdr_okD [OF assms(4)] and P = protected_bit [OF assms(4)]
  obtain iv_new iv where g: "ieee80211_wep_get_iv wep_iv (length (wk_key key)) (wk_keyidx key) = (iv_new, iv)" by fastforce
  then obtain x y z where iv: "iv = [x, y, z, push_bit 6 (wk_keyidx key)]" by (auto simp: ieee80211_wep_get_iv_def Let_def)
  have idx: "drop_bit 6 (push_bit 6 (wk_keyidx key)) = wk_keyidx key"
  proof (rule bit_word_eqI)
    fix n assume "n < LENGTH(8)"
    have "take_bit 2 (unat (wk_keyidx key)) = unat (wk_keyidx key)"
      using assms(9) by (intro take_bit_nat_eq_self) (simp add: word_less_nat_alt)
    then have "unat (take_bit 2 (wk_keyidx key)) = unat (wk_keyidx key)" by (simp only: unsigned_take_bit_eq)
    then have "take_bit 2 (wk_keyidx key) = wk_keyidx key" by (simp only: word_unat_eq_iff)
    then have "\<not> bit (wk_keyidx key) n" if "2 \<le> n" using that by (metis bit_take_bit_iff not_le)
    then show "bit (drop_bit 6 (push_bit 6 (wk_keyidx key))) n = bit (wk_keyidx key) n"
      by (cases "n < 2") (auto simp: bit_simps not_less)
  qed
  let ?k = "[x, y, z] @ wk_key key"
  let ?c = "ieee80211_wep_encrypt_data arc4 crc ?k body"
  let ?skb = "skb\<lparr>sb_headroom := sb_headroom skb - 4, sb_tailroom := sb_tailroom skb - 4, sb_data := protected h @ iv @ ?c\<rparr>"
  have enc: "ieee80211_crypto_wep_encrypt arc4 crc hl wep_iv key [skb] = Some (TX_CONTINUE, iv_new, [?skb])"
    using assms(2,6-8) H P(2) g
    by (simp add: ieee80211_crypto_wep_encrypt_def assms(3) set_protected_header wep_encrypt_skb_def ieee80211_wep_encrypt_def
        ieee80211_wep_add_iv_def WEP_ICV_LEN_def WEP_IV_LEN_def open_gap_def iv Let_def)
  note D = wep_data_roundtrip [OF assms(1), of crc ?k body]
  have "ieee80211_crypto_wep_decrypt arc4 crc hl False stripped key ?skb =
      Some (RX_CONTINUE, close_gap (length h) 4 (skb_trim_tail 4 (?skb\<lparr>sb_data := protected h @ iv @ body @ wep_icv crc body\<rparr>)))"
    using assms(5,8) H P D idx
    by (auto simp: ieee80211_crypto_wep_decrypt_def ieee80211_wep_decrypt_def WEP_ICV_LEN_def WEP_IV_LEN_def iv Let_def nth_append)
  moreover have "sb_data (close_gap (length h) 4 (skb_trim_tail 4 (?skb\<lparr>sb_data := protected h @ iv @ body @ wep_icv crc body\<rparr>))) =
      protected h @ body"
    using drop_append [of 4 iv "body"] by (simp add: close_gap_def skb_trim_tail_def iv numeral_eq_Suc)
  ultimately show ?thesis using enc g D(2) iv
    by (intro exI [of _ ?skb] exI) (auto simp: assms(3) intro!: exI)
qed

end
