(* ===== verification/Michael.thy ===== *)
theory Michael
  imports Wep
begin

text \<open>
  \<open>mac80211/michael.c\<close>: the message integrity code of TKIP. The context is the pair of words \<open>l\<close>, \<open>r\<close>.
\<close>

section \<open>The code\<close>

definition michael_block :: "u32 \<Rightarrow> u32 \<times> u32 \<Rightarrow> u32 \<times> u32" where
  "michael_block val ctx =
     (let (l, r) = ctx;
          l = l XOR val;
          r = r XOR word_rotl 17 l;
          l = l + r;
          r = r XOR (drop_bit 8 (l AND 0xff00ff00) OR push_bit 8 (l AND 0x00ff00ff));
          l = l + r;
          r = r XOR word_rotl 3 l;
          l = l + r;
          r = r XOR word_rotr 2 l;
          l = l + r in
      (l, r))"

definition michael_mic_hdr :: "u8 list \<Rightarrow> u8 list \<Rightarrow> (u32 \<times> u32) option" where
  "michael_mic_hdr key d = do {
     fc \<leftarrow> le16_at d 0;
     let da = da_offset fc;
     let sa = sa_offset fc;
     tid \<leftarrow> (if ieee80211_is_data_qos fc then map_option (\<lambda>q. q AND 0x0f) (rd d (qos_ctl_offset fc)) else Some 0);
     l \<leftarrow> le32_at key 0;
     r \<leftarrow> le32_at key 4;
     a \<leftarrow> le32_at d da;
     b \<leftarrow> le16_at d (da + 4);
     c \<leftarrow> le16_at d sa;
     e \<leftarrow> le32_at d (sa + 2);
     let ctx = michael_block a (l, r);
     let ctx = michael_block (ucast b OR push_bit 16 (ucast c)) ctx;
     let ctx = michael_block e ctx;
     Some (michael_block (ucast tid) ctx) }"

fun michael_blocks :: "u8 list \<Rightarrow> nat \<Rightarrow> nat \<Rightarrow> u32 \<times> u32 \<Rightarrow> (u32 \<times> u32) option" where
  "michael_blocks data block 0 ctx = Some ctx"
| "michael_blocks data block (Suc n) ctx = do {
     w \<leftarrow> le32_at data (block * 4);
     michael_blocks data (block + 1) n (michael_block w ctx) }"

text \<open>The bytes that are left, last one first, in front of the padding.\<close>

fun michael_tail :: "u8 list \<Rightarrow> nat \<Rightarrow> nat \<Rightarrow> u32 \<Rightarrow> u32 option" where
  "michael_tail data base 0 val = Some val"
| "michael_tail data base (Suc left) val = do {
     b \<leftarrow> rd data (base + left);
     michael_tail data base left (push_bit 8 val OR ucast b) }"

definition michael_mic :: "u8 list \<Rightarrow> u8 list \<Rightarrow> u8 list \<Rightarrow> u8 list option" where
  "michael_mic key hdr data = do {
     ctx \<leftarrow> michael_mic_hdr key hdr;
     let blocks = length data div 4;
     let left = length data mod 4;
     ctx \<leftarrow> michael_blocks data 0 blocks ctx;
     val \<leftarrow> michael_tail data (blocks * 4) left 0x5a;
     let (l, r) = michael_block 0 (michael_block val ctx);
     Some (put_le32 l @ put_le32 r) }"

section \<open>The standard\<close>

text \<open>The data is padded with 0x5a and four to seven zeros and cut into little-endian words.\<close>

fun words_of :: "u8 list \<Rightarrow> u32 list" where
  "words_of (a # b # c # d # xs) = le32 a b c d # words_of xs"
| "words_of _ = []"

definition michael_pad :: "u8 list \<Rightarrow> u8 list" where
  "michael_pad data = data @ [0x5a] @ replicate (7 - length data mod 4) 0"

text \<open>
  IEEE 802.11, the Michael block function: four rounds, each of which mixes a permutation of the left word
  into the right one and adds the right word to the left one; \<open>michael_xswap\<close> swaps the bytes of each half.
\<close>

definition michael_xswap :: "u32 \<Rightarrow> u32" where
  "michael_xswap l = le32 (ucast (drop_bit 8 l)) (ucast l) (ucast (drop_bit 24 l)) (ucast (drop_bit 16 l))"

definition michael_round :: "(u32 \<Rightarrow> u32) \<Rightarrow> u32 \<times> u32 \<Rightarrow> u32 \<times> u32" where
  "michael_round p c = (fst c + (snd c XOR p (fst c)), snd c XOR p (fst c))"

definition rotate_left :: "nat \<Rightarrow> u32 \<Rightarrow> u32" where
  "rotate_left n l = push_bit n l OR drop_bit (32 - n) l"

definition michael_b :: "u32 \<times> u32 \<Rightarrow> u32 \<times> u32" where
  "michael_b c = fold michael_round [rotate_left 17, michael_xswap, rotate_left 3, rotate_left 30] c"

definition michael_absorb :: "u32 \<Rightarrow> u32 \<times> u32 \<Rightarrow> u32 \<times> u32" where
  "michael_absorb m c = michael_b (fst c XOR m, snd c)"

definition michael_code :: "u32 \<times> u32 \<Rightarrow> u8 list" where
  "michael_code c = put_le32 (fst c) @ put_le32 (snd c)"

definition michael_standard :: "u8 list \<Rightarrow> u8 list \<Rightarrow> u8 list" where
  "michael_standard key msg =
     michael_code (fold michael_absorb (words_of (michael_pad msg)) (words_of key ! 0, words_of key ! 1))"

lemma zeros:
  "replicate 4 (0 :: u8) = [0, 0, 0, 0]" "replicate 5 (0 :: u8) = [0, 0, 0, 0, 0]"
  "replicate 6 (0 :: u8) = [0, 0, 0, 0, 0, 0]" "replicate 7 (0 :: u8) = [0, 0, 0, 0, 0, 0, 0]"
  by (simp_all add: eval_nat_numeral)

text \<open>The test vectors of IEEE 802.11; each key is the code of the vector before it.\<close>

lemma michael_vectors:
  "michael_standard [0, 0, 0, 0, 0, 0, 0, 0] [] = [0x82, 0x92, 0x5c, 0x1c, 0xa1, 0xd1, 0x30, 0xb8]"
  "michael_standard [0x82, 0x92, 0x5c, 0x1c, 0xa1, 0xd1, 0x30, 0xb8] [0x4d] = [0x43, 0x47, 0x21, 0xca, 0x40, 0x63, 0x9b, 0x3f]"
  "michael_standard [0x43, 0x47, 0x21, 0xca, 0x40, 0x63, 0x9b, 0x3f] [0x4d, 0x69] = [0xe8, 0xf9, 0xbe, 0xca, 0xe9, 0x7e, 0x5d, 0x29]"
  "michael_standard [0xe8, 0xf9, 0xbe, 0xca, 0xe9, 0x7e, 0x5d, 0x29] [0x4d, 0x69, 0x63] =
     [0x90, 0x03, 0x8f, 0xc6, 0xcf, 0x13, 0xc1, 0xdb]"
  "michael_standard [0x90, 0x03, 0x8f, 0xc6, 0xcf, 0x13, 0xc1, 0xdb] [0x4d, 0x69, 0x63, 0x68] =
     [0xd5, 0x5e, 0x10, 0x05, 0x10, 0x12, 0x89, 0x86]"
  "michael_standard [0xd5, 0x5e, 0x10, 0x05, 0x10, 0x12, 0x89, 0x86] [0x4d, 0x69, 0x63, 0x68, 0x61, 0x65, 0x6c] =
     [0x0a, 0x94, 0x2b, 0x12, 0x4e, 0xca, 0xa5, 0x46]"
  by (simp_all add: michael_standard_def michael_pad_def michael_absorb_def michael_b_def michael_round_def rotate_left_def
      michael_xswap_def le32_def put_le32_def michael_code_def zeros)

text \<open>What the code covers: the destination, the source, the priority and the payload of a data frame.\<close>

definition michael_text :: "u8 list \<Rightarrow> u8 list \<Rightarrow> u8 list" where
  "michael_text h body =
     (let fc = le16 (h ! 0) (h ! 1); to_ds = bit fc 8; from_ds = bit fc 9;
          qos = (bit fc 3 \<and> \<not> bit fc 2 \<and> bit fc 7);
          priority = (if qos then h ! (if to_ds \<and> from_ds then 30 else 24) AND 0x0f else 0) in
      take 6 (drop (if to_ds then 16 else 4) h) @
      take 6 (drop (if to_ds \<and> from_ds then 24 else if from_ds then 16 else 10) h) @
      [priority, 0, 0, 0] @ body)"

section \<open>The code computes the standard's\<close>

lemma michael_swap_masks:
  "drop_bit 8 (l AND 0xff00ff00) OR push_bit 8 (l AND 0x00ff00ff) = michael_xswap l" for l :: u32
proof (rule bit_word_eqI)
  fix n assume "n < LENGTH(32)"
  then have n: "n < 32" by simp
  have e: "(0xff00ff00 :: u32) = push_bit 8 (mask 8) OR push_bit 24 (mask 8)" "(0x00ff00ff :: u32) = mask 8 OR push_bit 16 (mask 8)"
    by (simp_all add: mask_numeral)
  have m: "bit (0xff00ff00 :: u32) k = (k < 32 \<and> (8 \<le> k \<and> k < 16 \<or> 24 \<le> k))"
    "bit (0x00ff00ff :: u32) k = (k < 8 \<or> 16 \<le> k \<and> k < 24)" for k
    unfolding e bit_or_iff bit_push_bit_iff bit_mask_iff possible_bit_word by auto
  have l: "bit (drop_bit 8 (l AND 0xff00ff00) OR push_bit 8 (l AND 0x00ff00ff)) n \<longleftrightarrow>
      (if n < 8 \<or> 16 \<le> n \<and> n < 24 then bit l (n + 8) else bit l (n - 8))"
    unfolding bit_or_iff bit_drop_bit_eq bit_push_bit_iff bit_and_iff o_apply m
    using n bit_imp_le_length [of l "8 + n"] by (auto simp: add.commute [of n])
  have r: "bit (michael_xswap l) n \<longleftrightarrow> (if n < 8 \<or> 16 \<le> n \<and> n < 24 then bit l (n + 8) else bit l (n - 8))"
    using n bit_imp_le_length [of l "8 + n"] by (auto simp: michael_xswap_def le32_def bit_simps add.commute [of n])
  show "bit (drop_bit 8 (l AND 0xff00ff00) OR push_bit 8 (l AND 0x00ff00ff)) n = bit (michael_xswap l) n"
    unfolding l r ..
qed

lemma rotate_left_words: "word_rotl 17 l = rotate_left 17 l" "word_rotl 3 l = rotate_left 3 l" "word_rotr 2 l = rotate_left 30 l" for l :: u32
proof -
  have e: "bit (word_rotl k l) n = bit (rotate_left k l) n" if "k < 32" "n < 32" for k n
    using that bit_imp_le_length [of l "32 - k + n"]
    by (auto simp: rotate_left_def bit_simps mod_if not_less le_diff_conv add.commute [of n])
  have "bit (word_rotr 2 l) n = bit (rotate_left 30 l) n" if "n < 32" for n
    using that bit_imp_le_length [of l "2 + n"] by (auto simp: rotate_left_def bit_simps mod_if add.commute [of n])
  with e show "word_rotl 17 l = rotate_left 17 l" "word_rotl 3 l = rotate_left 3 l" "word_rotr 2 l = rotate_left 30 l"
    by (auto intro!: bit_word_eqI)
qed

lemma michael_block_standard: "michael_block = michael_absorb"
  unfolding fun_eq_iff michael_block_def michael_swap_masks rotate_left_words michael_absorb_def michael_b_def michael_round_def Let_def
  by (simp add: split_beta)

lemma michael_blocks_words:
  "n * 4 \<le> length xs \<Longrightarrow> length pre = block * 4 \<Longrightarrow>
     michael_blocks (pre @ xs) block n ctx = Some (fold michael_block (words_of (take (n * 4) xs)) ctx)"
proof (induction n arbitrary: pre xs block ctx)
  case (Suc n)
  then obtain a b c d ys where xs: "xs = a # b # c # d # ys" by (auto simp: numeral_eq_Suc Suc_le_length_iff)
  have le: "le32_at (pre @ xs) (block * 4) = Some (le32 a b c d)"
    using Suc.prems(2) by (simp add: xs le32_at_def rd_def nth_append)
  have "michael_blocks ((pre @ [a, b, c, d]) @ ys) (block + 1) n (michael_block (le32 a b c d) ctx) =
      Some (fold michael_block (words_of (take (n * 4) ys)) (michael_block (le32 a b c d) ctx))"
    using Suc.prems by (intro Suc.IH) (simp_all add: xs)
  moreover have e: "Suc n * 4 = Suc (Suc (Suc (Suc (n * 4))))" by simp
  ultimately show ?case using le unfolding e xs by simp
qed simp

lemma words_of_append: "length xs mod 4 = 0 \<Longrightarrow> words_of (xs @ ys) = words_of xs @ words_of ys"
  by (induction xs rule: words_of.induct) auto

lemma le32_padded:
  fixes p :: u8
  shows "push_bit 8 (ucast p) OR ucast x = le32 x p 0 0"
    "push_bit 8 (push_bit 8 (ucast p) OR ucast y) OR ucast x = le32 x y p 0"
    "push_bit 8 (push_bit 8 (push_bit 8 (ucast p) OR ucast z) OR ucast y) OR ucast x = le32 x y z p"
  by (auto intro!: bit_word_eqI simp: le32_def bit_simps)

lemma michael_tail_word:
  assumes "length b < 4"
  shows "\<exists>v. michael_tail (a @ b) (length a) (length b) 0x5a = Some v \<and> words_of (b @ [0x5a] @ replicate (7 - length b) 0) = [v, 0]"
proof -
  consider "b = []" | x where "b = [x]" | x y where "b = [x, y]" | x y z where "b = [x, y, z]"
    using assms by (cases b rule: words_of.cases) auto
  note b = this and p = le32_padded [of "0x5a", simplified]
  have z: "le32 0x5a 0 0 0 = 0x5a" "le32 0 0 0 0 = 0" by (simp_all add: le32_def)
  from b show ?thesis
  proof cases
    case 1 then show ?thesis by (simp add: zeros z)
  next
    case 2 then show ?thesis by (simp add: zeros z p(1) rd_def nth_append)
  next
    case 3 then show ?thesis by (simp add: zeros z p(2) rd_def nth_append)
  next
    case 4 then show ?thesis by (simp add: zeros z p(3) rd_def nth_append)
  qed
qed

lemma michael_mic_padded:
  "michael_mic key hdr data = map_option
     (\<lambda>ctx. let (l, r) = fold michael_block (words_of (michael_pad data)) ctx in put_le32 l @ put_le32 r)
     (michael_mic_hdr key hdr)"
proof -
  let ?n = "length data div 4 * 4" and ?k = "length data mod 4"
  let ?a = "take ?n data" and ?b = "drop ?n data"
  have n: "?n \<le> length data" "length ?a mod 4 = 0" "length ?b = ?k" "length ?a = ?n"
    using div_mult_mod_eq [of "length data" 4] by (simp_all del: div_mult_mod_eq add: minus_div_mult_eq_mod)
  have blocks: "michael_blocks data 0 (length data div 4) ctx = Some (fold michael_block (words_of ?a) ctx)" for ctx
    using michael_blocks_words [of "length data div 4" data "[]" 0] n(1) by simp
  have pad: "words_of (michael_pad data) = words_of ?a @ words_of (?b @ [0x5a] @ replicate (7 - ?k) 0)"
    using words_of_append [OF n(2), of "?b @ [0x5a] @ replicate (7 - ?k) 0"] unfolding michael_pad_def
    by (simp only: append_assoc [symmetric] append_take_drop_id)
  obtain v where v: "michael_tail data ?n ?k 0x5a = Some v" "words_of (?b @ [0x5a] @ replicate (7 - ?k) 0) = [v, 0]"
    using michael_tail_word [of ?b ?a, unfolded n(3,4) append_take_drop_id] by auto
  show ?thesis
    unfolding michael_mic_def Let_def blocks Option.bind.simps v(1) pad v(2)
    by (cases "michael_mic_hdr key hdr") (simp_all add: split_beta)
qed

lemma u16_eq_bits: "a = b \<longleftrightarrow> (\<forall>n \<in> {0, 1, 2, 3, 4, 5, 6, 7, 8, 9, 10, 11, 12, 13, 14, 15}. bit a n = bit b n)" for a b :: u16
proof
  assume e: "\<forall>n \<in> {0, 1, 2, 3, 4, 5, 6, 7, 8, 9, 10, 11, 12, 13, 14, 15}. bit a n = bit b n"
  show "a = b"
  proof (rule bit_word_eqI)
    fix n assume "n < LENGTH(16)"
    then have "n \<in> {0, 1, 2, 3, 4, 5, 6, 7, 8, 9, 10, 11, 12, 13, 14, 15}" by (simp, presburger)
    then show "bit a n = bit b n" using e by blast
  qed
qed simp

lemma header_bits:
  "ieee80211_has_tods fc = bit fc 8" "ieee80211_has_fromds fc = bit fc 9"
  "ieee80211_has_a4 fc \<longleftrightarrow> bit fc 8 \<and> bit fc 9" "ieee80211_is_data_qos fc \<longleftrightarrow> bit fc 3 \<and> \<not> bit fc 2 \<and> bit fc 7"
  by (auto simp: ieee80211_has_tods_def ieee80211_has_fromds_def ieee80211_has_a4_def ieee80211_is_data_qos_def u16_eq_bits bit_simps)

lemma michael_mic_hdr_words:
  assumes "le16_at h 0 = Some fc" "24 \<le> length h" "ieee80211_has_a4 fc \<Longrightarrow> 30 \<le> length h"
    "ieee80211_is_data_qos fc \<Longrightarrow> qos_ctl_offset fc < length h" "bit fc 3" "\<not> bit fc 2"
  shows "\<exists>t. length t = 16 \<and> michael_text h body = t @ body \<and> michael_mic_hdr key (h @ x) = do {
      l \<leftarrow> le32_at key 0; r \<leftarrow> le32_at key 4; Some (fold michael_block (words_of t) (l, r)) }"
proof -
  let ?d = "da_offset fc" and ?s = "sa_offset fc"
  obtain a b where ab: "h = a # b # drop 2 h" using assms(2) by (cases h rule: words_of.cases) auto
  then have fc: "fc = le16 (h ! 0) (h ! 1)" using assms(1,2) by (cases h; cases "tl h") (auto simp: le16_at_def rd_def)
  have bits: "ieee80211_has_tods fc = bit fc 8" "ieee80211_has_fromds fc = bit fc 9"
    "ieee80211_has_a4 fc \<longleftrightarrow> bit fc 8 \<and> bit fc 9" "ieee80211_is_data_qos fc = bit fc 7"
    using assms(5,6) by (simp_all add: header_bits)
  define tid where "tid = (if ieee80211_is_data_qos fc then h ! qos_ctl_offset fc AND 0x0f else 0)"
  have off: "?d = (if bit fc 8 then 16 else 4)" "?s = (if bit fc 8 \<and> bit fc 9 then 24 else if bit fc 9 then 16 else 10)"
    "?d + 6 \<le> length h" "?s + 6 \<le> length h"
    using assms(2,3) by (auto simp: da_offset_def sa_offset_def bits)
  have six: "take 6 (drop i h) = [h ! i, h ! (i + 1), h ! (i + 2), h ! (i + 3), h ! (i + 4), h ! (i + 5)]" if "i + 6 \<le> length h" for i
    using that by (intro nth_equalityI) (auto simp: less_Suc_eq numeral_eq_Suc)
  let ?t = "take 6 (drop ?d h) @ take 6 (drop ?s h) @ [tid, 0, 0, 0]"
  have mt: "michael_text h body = ?t @ body"
    using assms(5,6) unfolding michael_text_def fc [symmetric] off(1,2) tid_def qos_ctl_offset_def bits Let_def by simp
  have q: "(if ieee80211_is_data_qos fc then map_option (\<lambda>q. q AND 0x0f) (rd (h @ x) (qos_ctl_offset fc)) else Some 0) = Some tid"
    using assms(4) by (auto simp: tid_def rd_def nth_append)
  have le16: "le16_at (h @ x) i = Some (le16 (h ! i) (h ! (i + 1)))" if "i + 2 \<le> length h" for i
    using that by (simp add: le16_at_def rd_def nth_append)
  have le: "le32_at (h @ x) i = Some (le32 (h ! i) (h ! (i + 1)) (h ! (i + 2)) (h ! (i + 3)))" if "i + 4 \<le> length h" for i
    using that by (simp add: le32_at_def rd_def nth_append)
  have w: "ucast (le16 a b) OR push_bit 16 (ucast (le16 c d)) = le32 a b c d" "le32 y 0 0 0 = ucast y" for a b c d y
    by (rule bit_word_eqI, auto simp: le16_def le32_def bit_simps dest: bit_imp_le_length)+
  have le16_at_fc: "le16_at (h @ x) 0 = Some fc" using le16 [of 0] assms(2) by (simp add: fc)
  have L: "le32_at (h @ x) ?d = Some (le32 (h ! ?d) (h ! (?d + 1)) (h ! (?d + 2)) (h ! (?d + 3)))"
    "le16_at (h @ x) (?d + 4) = Some (le16 (h ! (?d + 4)) (h ! (?d + 5)))"
    "le16_at (h @ x) ?s = Some (le16 (h ! ?s) (h ! (?s + 1)))"
    "le32_at (h @ x) (?s + 2) = Some (le32 (h ! (?s + 2)) (h ! (?s + 3)) (h ! (?s + 4)) (h ! (?s + 5)))"
    using le [of ?d] le16 [of "?d + 4"] le16 [of ?s] le [of "?s + 2"] off(3,4) by (simp_all add: eval_nat_numeral)
  have hdr: "michael_mic_hdr key (h @ x) = do {
      l \<leftarrow> le32_at key 0; r \<leftarrow> le32_at key 4; Some (fold michael_block (words_of ?t) (l, r)) }"
    using six [OF off(3)] six [OF off(4)]
    unfolding michael_mic_hdr_def Let_def Option.bind.simps q L le16_at_fc by (simp add: w)
  show ?thesis using hdr mt off by (intro exI [of _ ?t]) simp
qed

lemma michael_mic_standard:
  assumes "le16_at h 0 = Some fc" "24 \<le> length h" "ieee80211_has_a4 fc \<Longrightarrow> 30 \<le> length h"
    "ieee80211_is_data_qos fc \<Longrightarrow> qos_ctl_offset fc < length h" "bit fc 3" "\<not> bit fc 2" "length key = 8"
  shows "michael_mic key (h @ x) body = Some (michael_standard key (michael_text h body))"
proof -
  from michael_mic_hdr_words [OF assms(1-6)] obtain t where
    t: "length t = 16" "michael_text h body = t @ body" "michael_mic_hdr key (h @ x) = do {
      l \<leftarrow> le32_at key 0; r \<leftarrow> le32_at key 4; Some (fold michael_block (words_of t) (l, r)) }" by blast
  obtain a b c d e f g i where key: "key = [a, b, c, d, e, f, g, i]"
    using assms(7) by (auto simp: numeral_eq_Suc length_Suc_conv)
  have "words_of (michael_pad (t @ body)) = words_of t @ words_of (michael_pad body)"
  proof -
    have "length (t @ body) mod 4 = length body mod 4" unfolding length_append t(1) by presburger
    then have "michael_pad (t @ body) = t @ michael_pad body" by (simp only: michael_pad_def append_assoc)
    then show ?thesis using words_of_append [of t] t(1) by simp
  qed
  then show ?thesis
    unfolding michael_mic_padded t(2,3) michael_standard_def michael_code_def
    by (simp add: key le32_at_def rd_def split_beta Let_def michael_block_standard)
qed

end
