(* ===== verification/Tkip.thy ===== *)
theory Tkip
  imports Michael
begin

text \<open>
  \<open>mac80211/tkip.c\<close> and the TKIP part of \<open>mac80211/wpa.c\<close>: the key mixing, the frames, the replay
  counters and the Michael code. The key has 32 bytes: 16 for the mixing, 8 for the code of sent and 8
  for the code of received frames. Results are the integers of the code.
\<close>

section \<open>Key mixing\<close>

definition tkip_sbox :: "u16 list" where
  "tkip_sbox =
    [
     0xC6A5, 0xF884, 0xEE99, 0xF68D, 0xFF0D, 0xD6BD, 0xDEB1, 0x9154, 0x6050, 0x0203,
     0xCEA9, 0x567D, 0xE719, 0xB562, 0x4DE6, 0xEC9A, 0x8F45, 0x1F9D, 0x8940, 0xFA87,
     0xEF15, 0xB2EB, 0x8EC9, 0xFB0B, 0x41EC, 0xB367, 0x5FFD, 0x45EA, 0x23BF, 0x53F7,
     0xE496, 0x9B5B, 0x75C2, 0xE11C, 0x3DAE, 0x4C6A, 0x6C5A, 0x7E41, 0xF502, 0x834F,
     0x685C, 0x51F4, 0xD134, 0xF908, 0xE293, 0xAB73, 0x6253, 0x2A3F, 0x080C, 0x9552,
     0x4665, 0x9D5E, 0x3028, 0x37A1, 0x0A0F, 0x2FB5, 0x0E09, 0x2436, 0x1B9B, 0xDF3D,
     0xCD26, 0x4E69, 0x7FCD, 0xEA9F, 0x121B, 0x1D9E, 0x5874, 0x342E, 0x362D, 0xDCB2,
     0xB4EE, 0x5BFB, 0xA4F6, 0x764D, 0xB761, 0x7DCE, 0x527B, 0xDD3E, 0x5E71, 0x1397,
     0xA6F5, 0xB968, 0x0000, 0xC12C, 0x4060, 0xE31F, 0x79C8, 0xB6ED, 0xD4BE, 0x8D46,
     0x67D9, 0x724B, 0x94DE, 0x98D4, 0xB0E8, 0x854A, 0xBB6B, 0xC52A, 0x4FE5, 0xED16,
     0x86C5, 0x9AD7, 0x6655, 0x1194, 0x8ACF, 0xE910, 0x0406, 0xFE81, 0xA0F0, 0x7844,
     0x25BA, 0x4BE3, 0xA2F3, 0x5DFE, 0x80C0, 0x058A, 0x3FAD, 0x21BC, 0x7048, 0xF104,
     0x63DF, 0x77C1, 0xAF75, 0x4263, 0x2030, 0xE51A, 0xFD0E, 0xBF6D, 0x814C, 0x1814,
     0x2635, 0xC32F, 0xBEE1, 0x35A2, 0x88CC, 0x2E39, 0x9357, 0x55F2, 0xFC82, 0x7A47,
     0xC8AC, 0xBAE7, 0x322B, 0xE695, 0xC0A0, 0x1998, 0x9ED1, 0xA37F, 0x4466, 0x547E,
     0x3BAB, 0x0B83, 0x8CCA, 0xC729, 0x6BD3, 0x283C, 0xA779, 0xBCE2, 0x161D, 0xAD76,
     0xDB3B, 0x6456, 0x744E, 0x141E, 0x92DB, 0x0C0A, 0x486C, 0xB8E4, 0x9F5D, 0xBD6E,
     0x43EF, 0xC4A6, 0x39A8, 0x31A4, 0xD337, 0xF28B, 0xD532, 0x8B43, 0x6E59, 0xDAB7,
     0x018C, 0xB164, 0x9CD2, 0x49E0, 0xD8B4, 0xACFA, 0xF307, 0xCF25, 0xCAAF, 0xF48E,
     0x47E9, 0x1018, 0x6FD5, 0xF088, 0x4A6F, 0x5C72, 0x3824, 0x57F1, 0x73C7, 0x9751,
     0xCB23, 0xA17C, 0xE89C, 0x3E21, 0x96DD, 0x61DC, 0x0D86, 0x0F85, 0xE090, 0x7C42,
     0x71C4, 0xCCAA, 0x90D8, 0x0605, 0xF701, 0x1C12, 0xC2A3, 0x6A5F, 0xAEF9, 0x69D0,
     0x1791, 0x9958, 0x3A27, 0x27B9, 0xD938, 0xEB13, 0x2BB3, 0x2233, 0xD2BB, 0xA970,
     0x0789, 0x33A7, 0x2DB6, 0x3C22, 0x1592, 0xC920, 0x8749, 0xAAFF, 0x5078, 0xA57A,
     0x038F, 0x59F8, 0x0980, 0x1A17, 0x65DA, 0xD731, 0x84C6, 0xD0B8, 0x82C3, 0x29B0,
     0x5A77, 0x1E11, 0x7BCB, 0xA8FC, 0x6DD6, 0x2C3A]"

definition swab16 :: "u16 \<Rightarrow> u16" where
  "swab16 w = push_bit 8 w OR drop_bit 8 w"

definition tkipS :: "u16 \<Rightarrow> u16" where
  "tkipS val = tkip_sbox ! unat (val AND 0xff) XOR swab16 (tkip_sbox ! unat (drop_bit 8 val))"

definition write_tkip_iv :: "u16 \<Rightarrow> u8 list" where
  "write_tkip_iv iv16 = [ucast (drop_bit 8 iv16), (ucast (drop_bit 8 iv16) OR 0x20) AND 0x7f, ucast iv16]"

text \<open>\<open>get_unaligned_le16\<close> inside the key or an address.\<close>

definition word_at :: "u8 list \<Rightarrow> nat \<Rightarrow> u16" where
  "word_at tk i = le16 (tk ! i) (tk ! (i + 1))"

definition phase1_round :: "u8 list \<Rightarrow> nat \<Rightarrow> u16 list \<Rightarrow> u16 list" where
  "phase1_round tk i p1k =
     (let j = 2 * (i mod 2);
          p0 = p1k ! 0 + tkipS (p1k ! 4 XOR word_at tk (0 + j));
          p1 = p1k ! 1 + tkipS (p0 XOR word_at tk (4 + j));
          p2 = p1k ! 2 + tkipS (p1 XOR word_at tk (8 + j));
          p3 = p1k ! 3 + tkipS (p2 XOR word_at tk (12 + j));
          p4 = p1k ! 4 + tkipS (p3 XOR word_at tk (0 + j)) + of_nat i in
      [p0, p1, p2, p3, p4])"

definition phase1_key :: "u8 list \<Rightarrow> u8 list \<Rightarrow> u32 \<Rightarrow> u16 list" where
  "phase1_key tk ta tsc_IV32 = fold (phase1_round tk) [0..<8]
     [ucast tsc_IV32, ucast (drop_bit 16 tsc_IV32), word_at ta 0, word_at ta 2, word_at ta 4]"

datatype tkip_state = TKIP_STATE_NOT_INIT | TKIP_STATE_PHASE1_DONE | TKIP_STATE_PHASE1_HW_UPLOADED

record tkip_ctx =
  tc_iv32 :: u32
  tc_iv16 :: u16
  tc_p1k :: "u16 list"
  tc_p1k_iv32 :: u32
  tc_state :: tkip_state

definition tkip_mixing_phase1 :: "u8 list \<Rightarrow> u8 list \<Rightarrow> u32 \<Rightarrow> tkip_ctx \<Rightarrow> tkip_ctx" where
  "tkip_mixing_phase1 tk ta tsc_IV32 ctx =
     ctx\<lparr>tc_p1k := phase1_key tk ta tsc_IV32, tc_state := TKIP_STATE_PHASE1_DONE, tc_p1k_iv32 := tsc_IV32\<rparr>"

definition tkip_mixing_phase2 :: "u8 list \<Rightarrow> u16 list \<Rightarrow> u16 \<Rightarrow> u8 list" where
  "tkip_mixing_phase2 tk p1k tsc_IV16 =
     (let p5 = p1k ! 4 + tsc_IV16;
          p0 = p1k ! 0 + tkipS (p5 XOR word_at tk 0);
          p1 = p1k ! 1 + tkipS (p0 XOR word_at tk 2);
          p2 = p1k ! 2 + tkipS (p1 XOR word_at tk 4);
          p3 = p1k ! 3 + tkipS (p2 XOR word_at tk 6);
          p4 = p1k ! 4 + tkipS (p3 XOR word_at tk 8);
          p5 = p5 + tkipS (p4 XOR word_at tk 10);
          p0 = p0 + word_rotr 1 (p5 XOR word_at tk 12);
          p1 = p1 + word_rotr 1 (p0 XOR word_at tk 14);
          p2 = p2 + word_rotr 1 p1;
          p3 = p3 + word_rotr 1 p2;
          p4 = p4 + word_rotr 1 p3;
          p5 = p5 + word_rotr 1 p4 in
      write_tkip_iv tsc_IV16 @ [ucast (drop_bit 1 (p5 XOR word_at tk 0))] @
      concat (map put_le16 [p0, p1, p2, p3, p4, p5]))"

section \<open>Keys\<close>

text \<open>
  \<open>tk_addr\<close> is the address of the interface; \<open>tk_hw_update\<close> tells whether the driver takes keys of
  phase 1 and the key is in the hardware, \<open>tk_updates\<close> are the keys given to it.
\<close>

record tkip_key =
  tk_keyidx :: u8
  tk_key :: "u8 list"
  tk_addr :: "u8 list"
  tk_tx :: tkip_ctx
  tk_rx :: "tkip_ctx list"
  tk_hw_update :: bool
  tk_updates :: "(u32 \<times> u16 list) list"

definition ieee80211_tkip_add_iv :: "tkip_key \<Rightarrow> u8 list" where
  "ieee80211_tkip_add_iv key = write_tkip_iv (tc_iv16 (tk_tx key)) @ [push_bit 6 (tk_keyidx key) OR 0x20] @ put_le32 (tc_iv32 (tk_tx key))"

definition ieee80211_compute_tkip_p1k :: "tkip_key \<Rightarrow> u32 \<Rightarrow> tkip_key" where
  "ieee80211_compute_tkip_p1k key iv32 =
     (let ctx = tk_tx key in
      if tc_p1k_iv32 ctx \<noteq> iv32 \<or> tc_state ctx = TKIP_STATE_NOT_INIT
      then key\<lparr>tk_tx := tkip_mixing_phase1 (tk_key key) (tk_addr key) iv32 ctx\<rparr>
      else key)"

definition ieee80211_get_tkip_p1k_iv :: "tkip_key \<Rightarrow> u32 \<Rightarrow> u16 list \<times> tkip_key" where
  "ieee80211_get_tkip_p1k_iv key iv32 =
     (let key = ieee80211_compute_tkip_p1k key iv32 in (tc_p1k (tk_tx key), key))"

definition ieee80211_get_tkip_rx_p1k :: "tkip_key \<Rightarrow> u8 list \<Rightarrow> u32 \<Rightarrow> u16 list" where
  "ieee80211_get_tkip_rx_p1k key ta iv32 = phase1_key (tk_key key) ta iv32"

text \<open>The vector is read back from the frame.\<close>

definition ieee80211_get_tkip_p2k :: "(u16 \<Rightarrow> nat) \<Rightarrow> tkip_key \<Rightarrow> u8 list \<Rightarrow> (u8 list \<times> tkip_key) option" where
  "ieee80211_get_tkip_p2k hl key d = do {
     fc \<leftarrow> le16_at d 0;
     let pos = hl fc;
     iv32 \<leftarrow> le32_at d (pos + 4);
     a \<leftarrow> rd d (pos + 2); b \<leftarrow> rd d pos;
     let iv16 = (ucast a OR push_bit 8 (ucast b) :: u16);
     let key = ieee80211_compute_tkip_p1k key iv32;
     Some (tkip_mixing_phase2 (tk_key key) (tc_p1k (tk_tx key)) iv16, key) }"

section \<open>Sending\<close>

definition TKIP_IV_LEN :: nat where "TKIP_IV_LEN = 8"
definition TKIP_ICV_LEN :: nat where "TKIP_ICV_LEN = 4"
definition MICHAEL_MIC_LEN :: nat where "MICHAEL_MIC_LEN = 8"

text \<open>
  The Michael code is added unless the hardware does it (\<open>hw_mmic\<close>: the frame is not to be fragmented or
  the hardware fragments, and the key does not ask for it); \<open>mic_failure\<close> is a test that breaks it.
\<close>

definition ieee80211_is_data_present :: "u16 \<Rightarrow> bool" where
  "ieee80211_is_data_present fc \<longleftrightarrow> fc AND 0x004c = 0x0008"

definition ieee80211_tx_h_michael_mic_add ::
  "(u16 \<Rightarrow> nat) \<Rightarrow> bool \<Rightarrow> bool \<Rightarrow> tkip_key \<Rightarrow> sk_buf \<Rightarrow> (tx_result \<times> sk_buf) option" where
  "ieee80211_tx_h_michael_mic_add hl mic_failure hw_mmic key skb = do {
     let d = sb_data skb;
     if length d < 24 then Some (TX_CONTINUE, skb)
     else do {
       fc \<leftarrow> le16_at d 0;
       if \<not> ieee80211_is_data_present fc then Some (TX_CONTINUE, skb)
       else if length d < hl fc then Some (TX_DROP, skb)
       else do {
         let skb = (if mic_failure then skb\<lparr>sb_hw_key := None\<rparr> else skb);
         if sb_hw_key skb \<noteq> None \<and> hw_mmic then Some (TX_CONTINUE, skb)
         else do {
           let tail = MICHAEL_MIC_LEN + (if sb_hw_key skb = None then TKIP_ICV_LEN else 0);
           if sb_tailroom skb < tail \<or> sb_headroom skb < TKIP_IV_LEN then Some (TX_DROP, skb)
           else do {
             mic \<leftarrow> michael_mic (take 8 (drop 16 (tk_key key))) d (drop (hl fc) d);
             let mic = (if mic_failure then mic[0 := mic ! 0 + 1] else mic);
             Some (TX_CONTINUE, skb\<lparr>sb_tailroom := sb_tailroom skb - MICHAEL_MIC_LEN, sb_data := d @ mic\<rparr>) } } } } }"

text \<open>The counter of sent frames.\<close>

definition tkip_next_tx :: "tkip_key \<Rightarrow> tkip_key" where
  "tkip_next_tx key =
     (let tx = tk_tx key; tx = tx\<lparr>tc_iv16 := tc_iv16 tx + 1\<rparr> in
      key\<lparr>tk_tx := (if tc_iv16 tx = 0 then tx\<lparr>tc_iv32 := tc_iv32 tx + 1\<rparr> else tx)\<rparr>)"

definition tkip_encrypt_skb ::
  "(u8 list \<Rightarrow> u8 list \<Rightarrow> u8 list) \<Rightarrow> (u32 \<Rightarrow> u8 list \<Rightarrow> u32) \<Rightarrow> (u16 \<Rightarrow> nat) \<Rightarrow> tkip_key \<Rightarrow> sk_buf \<Rightarrow>
     (bool \<times> tkip_key \<times> sk_buf) option" where
  "tkip_encrypt_skb arc4 crc32_le hl key skb =
     (if sb_hw_key skb = Some False then Some (True, key, skb)
      else do {
        let d = sb_data skb;
        fc \<leftarrow> le16_at d 0;
        let hdrlen = hl fc;
        let tail = (if sb_hw_key skb \<noteq> None then 0 else TKIP_ICV_LEN);
        if sb_tailroom skb < tail \<or> sb_headroom skb < TKIP_IV_LEN then Some (False, key, skb)
        else do {
          ensure (hdrlen \<le> length d);
          let key = tkip_next_tx key;
          let skb = open_gap hdrlen (ieee80211_tkip_add_iv key) skb;
          if sb_hw_key skb \<noteq> None then Some (True, key, skb)
          else do {
            (rc4key, key) \<leftarrow> ieee80211_get_tkip_p2k hl key (sb_data skb);
            let pos = hdrlen + TKIP_IV_LEN;
            Some (True, key, skb\<lparr>sb_tailroom := sb_tailroom skb - TKIP_ICV_LEN,
              sb_data := take pos (sb_data skb) @
                ieee80211_wep_encrypt_data arc4 crc32_le rc4key (drop pos (sb_data skb))\<rparr>) } } })"

fun tkip_encrypt_all ::
  "(u8 list \<Rightarrow> u8 list \<Rightarrow> u8 list) \<Rightarrow> (u32 \<Rightarrow> u8 list \<Rightarrow> u32) \<Rightarrow> (u16 \<Rightarrow> nat) \<Rightarrow> tkip_key \<Rightarrow> sk_buf list \<Rightarrow>
     (tx_result \<times> tkip_key \<times> sk_buf list) option" where
  "tkip_encrypt_all arc4 crc32_le hl key [] = Some (TX_CONTINUE, key, [])"
| "tkip_encrypt_all arc4 crc32_le hl key (skb # skbs) = do {
     (ok, key, skb) \<leftarrow> tkip_encrypt_skb arc4 crc32_le hl key skb;
     if \<not> ok then Some (TX_DROP, key, skb # skbs)
     else do {
       (res, key, skbs) \<leftarrow> tkip_encrypt_all arc4 crc32_le hl key skbs;
       Some (res, key, skb # skbs) } }"

definition ieee80211_crypto_tkip_encrypt ::
  "(u8 list \<Rightarrow> u8 list \<Rightarrow> u8 list) \<Rightarrow> (u32 \<Rightarrow> u8 list \<Rightarrow> u32) \<Rightarrow> (u16 \<Rightarrow> nat) \<Rightarrow> tkip_key \<Rightarrow> sk_buf list \<Rightarrow>
     (tx_result \<times> tkip_key \<times> sk_buf list) option" where
  "ieee80211_crypto_tkip_encrypt arc4 crc32_le hl key skbs = do {
     skbs \<leftarrow> ieee80211_tx_set_protected skbs;
     tkip_encrypt_all arc4 crc32_le hl key skbs }"

section \<open>Receiving\<close>

definition TKIP_DECRYPT_OK :: int where "TKIP_DECRYPT_OK = 0"
definition TKIP_DECRYPT_NO_EXT_IV :: int where "TKIP_DECRYPT_NO_EXT_IV = -1"
definition TKIP_DECRYPT_INVALID_KEYIDX :: int where "TKIP_DECRYPT_INVALID_KEYIDX = -2"
definition TKIP_DECRYPT_REPLAY :: int where "TKIP_DECRYPT_REPLAY = -3"

text \<open>The result, the key, the payload and the vector of an accepted frame.\<close>

definition ieee80211_tkip_decrypt_data ::
  "(u8 list \<Rightarrow> u8 list \<Rightarrow> u8 list) \<Rightarrow> (u32 \<Rightarrow> u8 list \<Rightarrow> u32) \<Rightarrow> tkip_key \<Rightarrow> u8 list \<Rightarrow> u8 list \<Rightarrow> bool \<Rightarrow> nat \<Rightarrow>
     (int \<times> tkip_key \<times> u8 list \<times> (u32 \<times> u16) option) option" where
  "ieee80211_tkip_decrypt_data arc4 crc32_le key payload ta only_iv queue =
     (if length payload < 12 then Some (-1, key, payload, None)
      else do {
        let iv16 = (push_bit 8 (ucast (payload ! 0)) OR ucast (payload ! 2) :: u16);
        let keyid = payload ! 3;
        iv32 \<leftarrow> le32_at payload 4;
        if keyid AND 0x20 = 0 then Some (TKIP_DECRYPT_NO_EXT_IV, key, payload, None)
        else if drop_bit 6 keyid \<noteq> tk_keyidx key then Some (TKIP_DECRYPT_INVALID_KEYIDX, key, payload, None)
        else do {
          ctx \<leftarrow> rd (tk_rx key) queue;
          if tc_state ctx \<noteq> TKIP_STATE_NOT_INIT \<and>
            (iv32 < tc_iv32 ctx \<or> iv32 = tc_iv32 ctx \<and> iv16 \<le> tc_iv16 ctx) then
            Some (TKIP_DECRYPT_REPLAY, key, payload, None)
          else if only_iv then
            Some (TKIP_DECRYPT_OK, key\<lparr>tk_rx := (tk_rx key)[queue := ctx\<lparr>tc_state := TKIP_STATE_PHASE1_HW_UPLOADED\<rparr>]\<rparr>,
              payload, Some (iv32, iv16))
          else do {
            let ctx = (if tc_state ctx = TKIP_STATE_NOT_INIT \<or> tc_iv32 ctx \<noteq> iv32
              then tkip_mixing_phase1 (tk_key key) ta iv32 ctx else ctx);
            let (ctx, updates) = (if tk_hw_update key \<and> tc_state ctx \<noteq> TKIP_STATE_PHASE1_HW_UPLOADED
              then (ctx\<lparr>tc_state := TKIP_STATE_PHASE1_HW_UPLOADED\<rparr>, tk_updates key @ [(iv32, tc_p1k ctx)])
              else (ctx, tk_updates key));
            let key = key\<lparr>tk_rx := (tk_rx key)[queue := ctx], tk_updates := updates\<rparr>;
            let rc4key = tkip_mixing_phase2 (tk_key key) (tc_p1k ctx) iv16;
            let (data, ok) = ieee80211_wep_decrypt_data arc4 crc32_le rc4key (drop 8 payload);
            Some (if ok then TKIP_DECRYPT_OK else -1, key, take 8 payload @ data, if ok then Some (iv32, iv16) else None) } } })"

definition ieee80211_crypto_tkip_decrypt ::
  "(u8 list \<Rightarrow> u8 list \<Rightarrow> u8 list) \<Rightarrow> (u32 \<Rightarrow> u8 list \<Rightarrow> u32) \<Rightarrow> (u16 \<Rightarrow> nat) \<Rightarrow> u8 list option \<Rightarrow> bool \<Rightarrow> nat \<Rightarrow>
     tkip_key \<Rightarrow> sk_buf \<Rightarrow> (rx_result \<times> tkip_key \<times> sk_buf \<times> (u32 \<times> u16) option) option" where
  "ieee80211_crypto_tkip_decrypt arc4 crc32_le hl sta_addr decrypted queue key skb = do {
     let d = sb_data skb;
     fc \<leftarrow> le16_at d 0;
     let hdrlen = hl fc;
     if \<not> ieee80211_is_data fc then Some (RX_CONTINUE, key, skb, None)
     else (case sta_addr of
        None \<Rightarrow> Some (RX_DROP_UNUSABLE, key, skb, None)
      | Some ta \<Rightarrow> do {
          ensure (hdrlen \<le> length d);
          if length d - hdrlen < 12 then Some (RX_DROP_UNUSABLE, key, skb, None)
          else do {
            (res, key, payload, iv) \<leftarrow> ieee80211_tkip_decrypt_data arc4 crc32_le key (drop hdrlen d) ta decrypted queue;
            let skb = skb\<lparr>sb_data := take hdrlen d @ payload\<rparr>;
            if res \<noteq> TKIP_DECRYPT_OK then Some (RX_DROP_UNUSABLE, key, skb, None)
            else Some (RX_CONTINUE, key, close_gap hdrlen TKIP_IV_LEN (skb_trim_tail TKIP_ICV_LEN skb), iv) } }) }"

text \<open>What the hardware reported.\<close>

record rx_flags =
  rf_skip_key :: bool
  rf_mmic_stripped :: bool
  rf_iv_stripped :: bool
  rf_mmic_error :: bool
  rf_decrypted :: bool

definition tkip_update_iv :: "nat \<Rightarrow> u32 \<times> u16 \<Rightarrow> tkip_key \<Rightarrow> tkip_key option" where
  "tkip_update_iv queue iv key = do {
     rx \<leftarrow> upd (tk_rx key) queue (\<lambda>ctx. ctx\<lparr>tc_iv32 := fst iv, tc_iv16 := snd iv\<rparr>);
     Some (key\<lparr>tk_rx := rx\<rparr>) }"

text \<open>
  The handler of received frames after decryption, for a frame with a TKIP key; \<open>iv\<close> is what the
  decryption left in the frame's context. The comparison of the code itself is disabled in the source.
\<close>

definition ieee80211_rx_h_michael_mic_verify ::
  "(u16 \<Rightarrow> nat) \<Rightarrow> rx_flags \<Rightarrow> bool \<Rightarrow> nat \<Rightarrow> u32 \<times> u16 \<Rightarrow> tkip_key \<Rightarrow> sk_buf \<Rightarrow>
     (rx_result \<times> tkip_key \<times> sk_buf) option" where
  "ieee80211_rx_h_michael_mic_verify hl flags is_ap queue iv key skb =
     (if rf_skip_key flags then Some (RX_CONTINUE, key, skb)
      else do {
        let d = sb_data skb;
        fc \<leftarrow> le16_at d 0;
        if \<not> ieee80211_is_data_present fc then Some (RX_CONTINUE, key, skb)
        else if rf_mmic_stripped flags \<or> rf_iv_stripped flags then
          if rf_mmic_error flags then Some (RX_DROP_UNUSABLE, key, skb)
          else if \<not> rf_iv_stripped flags then do {
            key \<leftarrow> tkip_update_iv queue iv key;
            Some (RX_CONTINUE, key, skb) }
          else Some (RX_CONTINUE, key, skb)
        else if \<not> rf_decrypted flags then Some (RX_CONTINUE, key, skb)
        else if is_ap \<and> tk_keyidx key \<noteq> 0 then Some (RX_DROP_UNUSABLE, key, skb)
        else if rf_mmic_error flags then Some (RX_DROP_UNUSABLE, key, skb)
        else if length d < hl fc + MICHAEL_MIC_LEN then Some (RX_DROP_UNUSABLE, key, skb)
        else do {
          key \<leftarrow> tkip_update_iv queue iv key;
          Some (RX_CONTINUE, key, skb_trim_tail MICHAEL_MIC_LEN skb) } })"

end
