(* ===== verification/Tkip_Proofs.thy ===== *)
theory Tkip_Proofs
  imports Tkip
begin

text \<open>TKIP frames: what is sent is received, what the replay counters do, and what the Michael code is not used for.\<close>

section \<open>The key mixing\<close>

text \<open>The first test vector of the standard.\<close>

lemma tkip_mixing_vector:
  "tkip_mixing_phase2 [0, 1, 2, 3, 4, 5, 6, 7, 8, 9, 10, 11, 12, 13, 14, 15]
     (phase1_key [0, 1, 2, 3, 4, 5, 6, 7, 8, 9, 10, 11, 12, 13, 14, 15] [0x10, 0x22, 0x33, 0x44, 0x55, 0x66] 0) 0 =
   [0x00, 0x20, 0x00, 0x33, 0xEA, 0x8D, 0x2F, 0x60, 0xCA, 0x6D, 0x13, 0x74, 0x23, 0x4A, 0x66, 0x0B]"
  by code_simp

section \<open>Reading back\<close>

lemma le32_at_put_le32: "le32_at (xs @ put_le32 w @ ys) (length xs) = Some w"
  using le32_put_le32 [of w] by (simp add: le32_at_def put_le32_def rd_def nth_append)

lemma iv16_bytes: "push_bit 8 (ucast (ucast (drop_bit 8 w) :: u8)) OR ucast (ucast w :: u8) = (w :: u16)"
  "ucast (ucast w :: u8) OR push_bit 8 (ucast (ucast (drop_bit 8 w) :: u8)) = (w :: u16)"
  by (auto intro!: bit_word_eqI simp: bit_simps)

lemma length_write_tkip_iv [simp]: "length (write_tkip_iv w) = 3"
  by (simp add: write_tkip_iv_def)

lemma length_put_le32 [simp]: "length (put_le32 w) = 4"
  by (simp add: put_le32_def)

lemma length_add_iv [simp]: "length (ieee80211_tkip_add_iv key) = 8"
  by (simp add: ieee80211_tkip_add_iv_def)

lemma add_iv_reads:
  assumes "tk_keyidx key < 4"
  defines "iv \<equiv> ieee80211_tkip_add_iv key"
  shows "push_bit 8 (ucast (iv ! 0)) OR ucast (iv ! 2) = tc_iv16 (tk_tx key)"
    "ucast (iv ! 2) OR push_bit 8 (ucast (iv ! 0)) = tc_iv16 (tk_tx key)"
    "le32_at (xs @ iv @ ys) (length xs + 4) = Some (tc_iv32 (tk_tx key))"
    "iv ! 3 AND 0x20 \<noteq> 0" "drop_bit 6 (iv ! 3) = tk_keyidx key"
proof -
  have n: "iv ! 0 = ucast (drop_bit 8 (tc_iv16 (tk_tx key)))" "iv ! 2 = ucast (tc_iv16 (tk_tx key))"
    "iv ! 3 = push_bit 6 (tk_keyidx key) OR 0x20"
    by (simp_all add: iv_def ieee80211_tkip_add_iv_def write_tkip_iv_def)
  show "push_bit 8 (ucast (iv ! 0)) OR ucast (iv ! 2) = tc_iv16 (tk_tx key)"
    "ucast (iv ! 2) OR push_bit 8 (ucast (iv ! 0)) = tc_iv16 (tk_tx key)" unfolding n by (rule iv16_bytes)+
  show "le32_at (xs @ iv @ ys) (length xs + 4) = Some (tc_iv32 (tk_tx key))"
    using le32_at_put_le32 [of "xs @ take 4 iv" "tc_iv32 (tk_tx key)" ys]
    by (simp add: iv_def ieee80211_tkip_add_iv_def write_tkip_iv_def numeral_eq_Suc)
  have "bit (iv ! 3 AND 0x20) 5" unfolding n by (simp add: bit_simps)
  then show "iv ! 3 AND 0x20 \<noteq> 0" by auto
  have k: "\<not> bit (tk_keyidx key) m" if "2 \<le> m" for m
  proof -
    have "take_bit 2 (unat (tk_keyidx key)) = unat (tk_keyidx key)"
      using assms(1) by (intro take_bit_nat_eq_self) (simp add: word_less_nat_alt)
    then have "unat (take_bit 2 (tk_keyidx key)) = unat (tk_keyidx key)" by (simp only: unsigned_take_bit_eq)
    then have "take_bit 2 (tk_keyidx key) = tk_keyidx key" by (simp only: word_unat_eq_iff)
    then show ?thesis using that by (metis bit_take_bit_iff not_le)
  qed
  show "drop_bit 6 (iv ! 3) = tk_keyidx key"
  proof (rule bit_word_eqI)
    fix m assume "m < LENGTH(8)"
    have "(0x20 :: u8) = push_bit 5 1" by (simp add: push_bit_eq_mult)
    then show "bit (drop_bit 6 (iv ! 3)) m = bit (tk_keyidx key) m"
      unfolding n using k [of m] by (cases "m < 2") (auto simp: bit_simps not_less)
  qed
qed

section \<open>Headers\<close>

lemma protected_fc:
  assumes "hdr_ok hl fc0 h" "hdr_ok hl fc (protected h)"
  shows "fc = fc0 OR 0x4000"
proof -
  have l: "24 \<le> length h" using assms(1) by (simp add: hdr_ok_def)
  have "fc = le16 (h ! 0) (h ! 1 OR 0x40)" "fc0 = le16 (h ! 0) (h ! 1)"
    using assms l by (auto simp: hdr_ok_def le16_at_def rd_def protected_def split: if_splits)
  moreover have "push_bit 8 (ucast (h ! 1 OR 0x40)) = push_bit 8 (ucast (h ! 1)) OR (0x4000 :: u16)"
    by (simp add: unsigned_or_eq push_bit_or)
  ultimately show ?thesis by (simp add: le16_def or.assoc)
qed

lemma protected_data_present:
  assumes "hdr_ok hl fc0 h" "hdr_ok hl fc (protected h)" "ieee80211_is_data_present fc0"
  shows "ieee80211_is_data_present fc" "ieee80211_is_data fc"
proof -
  have "(fc0 OR 0x4000) AND 0x004c = fc0 AND 0x004c" by (simp add: and.commute [of _ "0x4c"] bit.conj_disj_distrib)
  then have a: "fc AND 0x004c = 0x0008" using assms(3) protected_fc [OF assms(1,2)] by (simp add: ieee80211_is_data_present_def)
  then show "ieee80211_is_data_present fc" by (simp add: ieee80211_is_data_present_def)
  have "fc AND 0x000c = (fc AND 0x004c) AND 0x000c" by (simp add: and.assoc)
  then show "ieee80211_is_data fc" unfolding a by (simp add: ieee80211_is_data_def)
qed

section \<open>Caches of the first phase\<close>

text \<open>The cached key belongs to the vector it is said to belong to.\<close>

definition tx_ctx_ok :: "tkip_key \<Rightarrow> bool" where
  "tx_ctx_ok key \<longleftrightarrow> tc_state (tk_tx key) \<noteq> TKIP_STATE_NOT_INIT \<longrightarrow>
     tc_p1k (tk_tx key) = phase1_key (tk_key key) (tk_addr key) (tc_p1k_iv32 (tk_tx key))"

definition rx_ctx_ok :: "u8 list \<Rightarrow> tkip_key \<Rightarrow> nat \<Rightarrow> bool" where
  "rx_ctx_ok ta key queue \<longleftrightarrow> tc_state (tk_rx key ! queue) \<noteq> TKIP_STATE_NOT_INIT \<longrightarrow>
     tc_p1k (tk_rx key ! queue) = phase1_key (tk_key key) ta (tc_iv32 (tk_rx key ! queue))"

lemma compute_p1k:
  assumes "tx_ctx_ok key"
  shows "tc_p1k (tk_tx (ieee80211_compute_tkip_p1k key iv32)) = phase1_key (tk_key key) (tk_addr key) iv32"
    "tx_ctx_ok (ieee80211_compute_tkip_p1k key iv32)"
    "tc_iv16 (tk_tx (ieee80211_compute_tkip_p1k key iv32)) = tc_iv16 (tk_tx key)"
    "tc_iv32 (tk_tx (ieee80211_compute_tkip_p1k key iv32)) = tc_iv32 (tk_tx key)"
    "tk_key (ieee80211_compute_tkip_p1k key iv32) = tk_key key"
  using assms by (auto simp: tx_ctx_ok_def ieee80211_compute_tkip_p1k_def tkip_mixing_phase1_def Let_def)

section \<open>Sending\<close>

lemma next_tx_simps [simp]:
  "tk_key (tkip_next_tx key) = tk_key key" "tk_addr (tkip_next_tx key) = tk_addr key" "tk_keyidx (tkip_next_tx key) = tk_keyidx key"
  "tx_ctx_ok (tkip_next_tx key) = tx_ctx_ok key"
  by (simp_all add: tkip_next_tx_def tx_ctx_ok_def Let_def)

definition tkip_rc4key :: "u8 list \<Rightarrow> u8 list \<Rightarrow> u32 \<Rightarrow> u16 \<Rightarrow> u8 list" where
  "tkip_rc4key tk ta iv32 iv16 = tkip_mixing_phase2 tk (phase1_key tk ta iv32) iv16"

lemma tkip_encrypt_built:
  assumes "sb_hw_key skb = None" "sb_data skb = h @ data" "hdr_ok hl fc (protected h)" "8 \<le> sb_headroom skb" "4 \<le> sb_tailroom skb"
    "tx_ctx_ok key" "tk_keyidx key < 4"
  shows "\<exists>key' skb'. let k = tkip_next_tx key; iv32 = tc_iv32 (tk_tx k); iv16 = tc_iv16 (tk_tx k) in
     ieee80211_crypto_tkip_encrypt arc4 crc hl key [skb] = Some (TX_CONTINUE, key', [skb']) \<and>
     tx_ctx_ok key' \<and> tk_key key' = tk_key key \<and> tc_iv32 (tk_tx key') = iv32 \<and> tc_iv16 (tk_tx key') = iv16 \<and>
     sb_data skb' = protected h @ ieee80211_tkip_add_iv k @
       ieee80211_wep_encrypt_data arc4 crc (tkip_rc4key (tk_key key) (tk_addr key) iv32 iv16) data"
proof -
  let ?k = "tkip_next_tx key"
  let ?iv = "ieee80211_tkip_add_iv ?k" and ?iv32 = "tc_iv32 (tk_tx ?k)" and ?iv16 = "tc_iv16 (tk_tx ?k)"
  note H = hdr_okD [OF assms(3)] and P = protected_bit(2) [OF assms(3)]
  have idx: "tk_keyidx ?k < 4" using assms(7) by simp
  note R = add_iv_reads [OF idx]
  have rd: "rd (protected h @ ?iv @ data) (length h + 2) = Some (?iv ! 2)" "rd (protected h @ ?iv @ data) (length h) = Some (?iv ! 0)"
    by (simp_all add: nth_append)
  have p: "ieee80211_get_tkip_p2k hl ?k (protected h @ ?iv @ data) =
      Some (tkip_rc4key (tk_key key) (tk_addr key) ?iv32 ?iv16, ieee80211_compute_tkip_p1k ?k ?iv32)"
    using H R(3) [of "protected h" data] rd compute_p1k [of ?k ?iv32] assms(6)
    by (simp add: ieee80211_get_tkip_p2k_def R(2) tkip_rc4key_def)
  let ?skb = "skb\<lparr>sb_headroom := sb_headroom skb - 8, sb_tailroom := sb_tailroom skb - 4,
      sb_data := protected h @ ?iv @ ieee80211_wep_encrypt_data arc4 crc (tkip_rc4key (tk_key key) (tk_addr key) ?iv32 ?iv16) data\<rparr>"
  have "ieee80211_crypto_tkip_encrypt arc4 crc hl key [skb] = Some (TX_CONTINUE, ieee80211_compute_tkip_p1k ?k ?iv32, [?skb])"
    using assms(1,4,5) H P p
    by (simp add: ieee80211_crypto_tkip_encrypt_def assms(2) set_protected_header tkip_encrypt_skb_def Let_def open_gap_def
        TKIP_ICV_LEN_def TKIP_IV_LEN_def)
  then show ?thesis using compute_p1k [of ?k ?iv32] assms(6) unfolding Let_def by fastforce
qed

section \<open>Receiving\<close>

definition newer_iv :: "u32 \<Rightarrow> u16 \<Rightarrow> tkip_ctx \<Rightarrow> bool" where
  "newer_iv iv32 iv16 ctx \<longleftrightarrow> tc_state ctx = TKIP_STATE_NOT_INIT \<or> tc_iv32 ctx < iv32 \<or> tc_iv32 ctx = iv32 \<and> tc_iv16 ctx < iv16"

lemma tkip_decrypt_data_built:
  assumes "stream_cipher arc4" "tk_keyidx k < 4" "tk_keyidx key = tk_keyidx k" "tk_key key = tk_key k" "queue < length (tk_rx key)"
    "rx_ctx_ok ta key queue" "newer_iv (tc_iv32 (tk_tx k)) (tc_iv16 (tk_tx k)) (tk_rx key ! queue)"
    "c = ieee80211_wep_encrypt_data arc4 crc (tkip_rc4key (tk_key k) ta (tc_iv32 (tk_tx k)) (tc_iv16 (tk_tx k))) data"
  shows "\<exists>key'. ieee80211_tkip_decrypt_data arc4 crc key (ieee80211_tkip_add_iv k @ c) ta False queue =
       Some (TKIP_DECRYPT_OK, key', ieee80211_tkip_add_iv k @ data @ wep_icv crc data, Some (tc_iv32 (tk_tx k), tc_iv16 (tk_tx k))) \<and>
     tk_keyidx key' = tk_keyidx key \<and> length (tk_rx key') = length (tk_rx key) \<and> tk_key key' = tk_key key \<and>
     tc_p1k (tk_rx key' ! queue) = phase1_key (tk_key key) ta (tc_iv32 (tk_tx k)) \<and> tc_state (tk_rx key' ! queue) \<noteq> TKIP_STATE_NOT_INIT"
proof -
  let ?iv = "ieee80211_tkip_add_iv k" and ?iv32 = "tc_iv32 (tk_tx k)" and ?iv16 = "tc_iv16 (tk_tx k)" and ?ctx = "tk_rx key ! queue"
  note R = add_iv_reads [OF assms(2)]
  note D = wep_data_roundtrip [OF assms(1), of crc "tkip_rc4key (tk_key k) ta ?iv32 ?iv16" data, folded assms(8)]
  have l: "\<not> length (?iv @ c) < 12" using D(2) by simp
  have b: "(?iv @ c) ! 0 = ?iv ! 0" "(?iv @ c) ! 2 = ?iv ! 2" "(?iv @ c) ! 3 = ?iv ! 3" "le32_at (?iv @ c) 4 = Some ?iv32"
    using R(3) [of "[]" c] by (simp_all add: nth_append)
  have new: "\<not> (tc_state ?ctx \<noteq> TKIP_STATE_NOT_INIT \<and> (?iv32 < tc_iv32 ?ctx \<or> ?iv32 = tc_iv32 ?ctx \<and> ?iv16 \<le> tc_iv16 ?ctx))"
    using assms(7) by (auto simp: newer_iv_def)
  let ?c1 = "if tc_state ?ctx = TKIP_STATE_NOT_INIT \<or> tc_iv32 ?ctx \<noteq> ?iv32 then tkip_mixing_phase1 (tk_key key) ta ?iv32 ?ctx else ?ctx"
  have p1k: "tc_p1k ?c1 = phase1_key (tk_key key) ta ?iv32" "tc_state ?c1 \<noteq> TKIP_STATE_NOT_INIT"
    using assms(6) by (auto simp: tkip_mixing_phase1_def rx_ctx_ok_def)
  have k: "tkip_mixing_phase2 (tk_key key) (phase1_key (tk_key key) ta ?iv32) ?iv16 = tkip_rc4key (tk_key k) ta ?iv32 ?iv16"
    by (simp add: tkip_rc4key_def assms(4))
  show ?thesis
    unfolding ieee80211_tkip_decrypt_data_def if_not_P [OF l] b R(1) Let_def Option.bind.simps assms(3) R(5) if_not_P [OF new]
    using R(4) assms(3,5) new p1k k D(1) by (cases "tk_hw_update key"; cases "tc_state ?c1") (auto simp: case_prod_beta)
qed

lemma tkip_decrypt_built:
  assumes "stream_cipher arc4" "hdr_ok hl fc h" "ieee80211_is_data fc"
    "sb_data skb = h @ ieee80211_tkip_add_iv k @ ieee80211_wep_encrypt_data arc4 crc (tkip_rc4key (tk_key k) ta (tc_iv32 (tk_tx k)) (tc_iv16 (tk_tx k))) data"
    "tk_keyidx k < 4" "tk_keyidx key = tk_keyidx k" "tk_key key = tk_key k" "queue < length (tk_rx key)"
    "rx_ctx_ok ta key queue" "newer_iv (tc_iv32 (tk_tx k)) (tc_iv16 (tk_tx k)) (tk_rx key ! queue)"
  shows "\<exists>key' out. ieee80211_crypto_tkip_decrypt arc4 crc hl (Some ta) False queue key skb =
       Some (RX_CONTINUE, key', out, Some (tc_iv32 (tk_tx k), tc_iv16 (tk_tx k))) \<and>
     sb_data out = h @ data \<and> tk_keyidx key' = tk_keyidx key \<and> length (tk_rx key') = length (tk_rx key) \<and> tk_key key' = tk_key key \<and>
     tc_p1k (tk_rx key' ! queue) = phase1_key (tk_key key) ta (tc_iv32 (tk_tx k)) \<and> tc_state (tk_rx key' ! queue) \<noteq> TKIP_STATE_NOT_INIT"
proof -
  note H = hdr_okD [OF assms(2)]
  let ?c = "ieee80211_wep_encrypt_data arc4 crc (tkip_rc4key (tk_key k) ta (tc_iv32 (tk_tx k)) (tc_iv16 (tk_tx k))) data"
  obtain key' where k: "ieee80211_tkip_decrypt_data arc4 crc key (ieee80211_tkip_add_iv k @ ?c) ta False queue =
       Some (TKIP_DECRYPT_OK, key', ieee80211_tkip_add_iv k @ data @ wep_icv crc data, Some (tc_iv32 (tk_tx k), tc_iv16 (tk_tx k)))"
     "tk_keyidx key' = tk_keyidx key" "length (tk_rx key') = length (tk_rx key)" "tk_key key' = tk_key key"
     "tc_p1k (tk_rx key' ! queue) = phase1_key (tk_key key) ta (tc_iv32 (tk_tx k))" "tc_state (tk_rx key' ! queue) \<noteq> TKIP_STATE_NOT_INIT"
    using tkip_decrypt_data_built [OF assms(1,5-10) refl] by blast
  have d: "drop (length h) (sb_data skb) = ieee80211_tkip_add_iv k @ ?c" "take (length h) (sb_data skb) = h"
    "\<not> length (sb_data skb) - length h < 12" "length h \<le> length (sb_data skb)"
    using wep_data_roundtrip(2) [OF assms(1)] by (simp_all add: assms(4))
  have fc: "le16_at (sb_data skb) 0 = Some fc" unfolding assms(4) by (rule H(1))
  have "ieee80211_crypto_tkip_decrypt arc4 crc hl (Some ta) False queue key skb =
      Some (RX_CONTINUE, key', close_gap (length h) 8 (skb_trim_tail 4 (skb\<lparr>sb_data := h @ ieee80211_tkip_add_iv k @ data @ wep_icv crc data\<rparr>)),
        Some (tc_iv32 (tk_tx k), tc_iv16 (tk_tx k)))"
    using assms(3) d(3,4) k(1)
    by (simp add: ieee80211_crypto_tkip_decrypt_def fc H(2) d(1,2) TKIP_IV_LEN_def TKIP_ICV_LEN_def)
  then show ?thesis using k(2-6) by (simp add: close_gap_def skb_trim_tail_def)
qed

section \<open>The Michael code\<close>

lemma michael_of_frame:
  assumes "hdr_ok hl fc h" "ieee80211_is_data_present fc" "length key = 8"
  shows "michael_mic key (h @ x) body = Some (michael_standard key (michael_text h body))"
proof -
  have n: "le16_at h 0 = Some fc" "24 \<le> length h" "ieee80211_has_a4 fc \<Longrightarrow> 30 \<le> length h"
    "ieee80211_is_data_qos fc \<Longrightarrow> qos_ctl_offset fc < length h"
    using assms(1) by (auto simp: hdr_ok_def)
  have "bit fc 3" "\<not> bit fc 2"
    using assms(2) by (auto simp: ieee80211_is_data_present_def u16_eq_bits bit_simps)
  from michael_mic_standard [OF n this assms(3)] show ?thesis .
qed

lemma length_michael_standard [simp]: "length (michael_standard key msg) = 8"
  by (simp add: michael_standard_def michael_code_def put_le32_def)

section \<open>What is not checked\<close>

text \<open>The handler after decryption strips the last eight bytes, whatever they are.\<close>

lemma michael_not_compared:
  assumes "rf_decrypted flags" "\<not> rf_skip_key flags" "\<not> rf_mmic_stripped flags" "\<not> rf_iv_stripped flags" "\<not> rf_mmic_error flags"
    "is_ap \<longrightarrow> tk_keyidx key = 0" "hdr_ok hl fc h" "ieee80211_is_data_present fc" "queue < length (tk_rx key)"
    "sb_data skb = h @ body @ mic" "length mic = 8"
  shows "ieee80211_rx_h_michael_mic_verify hl flags is_ap queue iv key skb = Some (RX_CONTINUE,
     key\<lparr>tk_rx := (tk_rx key)[queue := (tk_rx key ! queue)\<lparr>tc_iv32 := fst iv, tc_iv16 := snd iv\<rparr>]\<rparr>,
     skb\<lparr>sb_tailroom := sb_tailroom skb + 8, sb_data := h @ body\<rparr>)"
proof -
  note H = hdr_okD [OF assms(7)]
  show ?thesis
    using assms(1-6,8,9,11) H(2)
    by (simp add: ieee80211_rx_h_michael_mic_verify_def H(1) Let_def MICHAEL_MIC_LEN_def tkip_update_iv_def skb_trim_tail_def assms(10))
qed

text \<open>
  A forged frame with another \<open>iv32\<close> replaces the cached key, while the counters stay: the cache no longer
  belongs to the counter, and the next frames of the genuine sender are decrypted with the wrong key.
\<close>

lemma forged_frame_spoils_cache:
  assumes "ieee80211_tkip_decrypt_data arc4 crc key payload ta False queue = Some (-1, key', out, None)" "12 \<le> length payload"
    "payload ! 3 AND 0x20 \<noteq> 0" "le32_at payload 4 = Some iv32" "queue < length (tk_rx key)" "tc_iv32 (tk_rx key ! queue) \<noteq> iv32"
  shows "tc_iv32 (tk_rx key' ! queue) = tc_iv32 (tk_rx key ! queue) \<and> tc_p1k (tk_rx key' ! queue) = phase1_key (tk_key key) ta iv32"
  using assms
  by (auto simp: ieee80211_tkip_decrypt_data_def Let_def TKIP_DECRYPT_INVALID_KEYIDX_def TKIP_DECRYPT_REPLAY_def
      TKIP_DECRYPT_NO_EXT_IV_def TKIP_DECRYPT_OK_def tkip_mixing_phase1_def split: if_splits prod.splits)

end
