(* ===== verification/Tkip_Replay.thy ===== *)
theory Tkip_Replay
  imports Tkip_Proofs Replay
begin

text \<open>The vector of a TKIP frame as a replay counter: what a receiver with an initialised key accepts.\<close>

section \<open>The order of vectors\<close>

datatype tkip_tsc = Tsc (tsc_iv32: u32) (tsc_iv16: u16)

lemma tkip_tsc_eq: "a = b \<longleftrightarrow> tsc_iv32 a = tsc_iv32 b \<and> tsc_iv16 a = tsc_iv16 b"
  by (cases a; cases b) simp

instantiation tkip_tsc :: linorder
begin

definition less_tkip_tsc :: "tkip_tsc \<Rightarrow> tkip_tsc \<Rightarrow> bool" where
  "less_tkip_tsc a b \<longleftrightarrow> tsc_iv32 a < tsc_iv32 b \<or> tsc_iv32 a = tsc_iv32 b \<and> tsc_iv16 a < tsc_iv16 b"

definition less_eq_tkip_tsc :: "tkip_tsc \<Rightarrow> tkip_tsc \<Rightarrow> bool" where
  "less_eq_tkip_tsc a b \<longleftrightarrow> a < b \<or> a = b"

instance
  by standard (auto simp: less_eq_tkip_tsc_def less_tkip_tsc_def tkip_tsc_eq)

end

text \<open>The replay test of the code is this order.\<close>

lemma tsc_newer:
  "\<not> (iv32 < iv32' \<or> iv32 = iv32' \<and> iv16 \<le> iv16') \<longleftrightarrow> Tsc iv32' iv16' < Tsc iv32 iv16"
  by (auto simp: less_tkip_tsc_def)

text \<open>The vector of a frame, and of a context.\<close>

definition tkip_frame_tsc :: "(u16 \<Rightarrow> nat) \<Rightarrow> sk_buf \<Rightarrow> tkip_tsc" where
  "tkip_frame_tsc hl skb = (case le16_at (sb_data skb) 0 of None \<Rightarrow> Tsc 0 0 | Some fc \<Rightarrow>
     let p = drop (hl fc) (sb_data skb) in
     (case le32_at p 4 of None \<Rightarrow> Tsc 0 0
      | Some iv32 \<Rightarrow> Tsc iv32 (push_bit 8 (ucast (p ! 0)) OR ucast (p ! 2))))"

definition ctx_tsc :: "tkip_ctx \<Rightarrow> tkip_tsc" where
  "ctx_tsc ctx = Tsc (tc_iv32 ctx) (tc_iv16 ctx)"

section \<open>Runs\<close>

definition tkip_ready :: "nat \<Rightarrow> tkip_key \<Rightarrow> bool" where
  "tkip_ready queue key \<longleftrightarrow> queue < length (tk_rx key) \<and> tc_state (tk_rx key ! queue) \<noteq> TKIP_STATE_NOT_INIT"

text \<open>Decryption in software, then the Michael handler. The frame is accepted when both pass it on as data.\<close>

definition sw_flags :: rx_flags where
  "sw_flags = \<lparr>rf_skip_key = False, rf_mmic_stripped = False, rf_iv_stripped = False, rf_mmic_error = False, rf_decrypted = True\<rparr>"

definition tkip_recv ::
  "(u8 list \<Rightarrow> u8 list \<Rightarrow> u8 list) \<Rightarrow> (u32 \<Rightarrow> u8 list \<Rightarrow> u32) \<Rightarrow> (u16 \<Rightarrow> nat) \<Rightarrow> u8 list \<Rightarrow> bool \<Rightarrow> nat \<Rightarrow> sk_buf \<Rightarrow> tkip_key \<Rightarrow>
     (bool \<times> tkip_key) option" where
  "tkip_recv arc4 crc hl ta is_ap queue skb key = do {
     (res, key, skb, iv) \<leftarrow> ieee80211_crypto_tkip_decrypt arc4 crc hl (Some ta) False queue key skb;
     (case iv of
       None \<Rightarrow> Some (False, key)
     | Some iv \<Rightarrow> do {
         fc \<leftarrow> le16_at (sb_data skb) 0;
         (res, key, skb) \<leftarrow> ieee80211_rx_h_michael_mic_verify hl sw_flags is_ap queue iv key skb;
         Some (res = RX_CONTINUE \<and> ieee80211_is_data_present fc, key) }) }"

lemma tkip_decrypt_data_num:
  assumes "ieee80211_tkip_decrypt_data arc4 crc key payload ta False queue = Some (res, key', out, iv)" "tkip_ready queue key"
  shows "tkip_ready queue key' \<and> tc_iv32 (tk_rx key' ! queue) = tc_iv32 (tk_rx key ! queue) \<and>
     tc_iv16 (tk_rx key' ! queue) = tc_iv16 (tk_rx key ! queue) \<and>
     (\<forall>iv32 iv16. iv = Some (iv32, iv16) \<longrightarrow> le32_at payload 4 = Some iv32 \<and>
        iv16 = push_bit 8 (ucast (payload ! 0)) OR ucast (payload ! 2) \<and> ctx_tsc (tk_rx key ! queue) < Tsc iv32 iv16)"
proof -
  let ?iv16 = "push_bit 8 (ucast (payload ! 0)) OR ucast (payload ! 2) :: u16" and ?ctx = "tk_rx key ! queue"
  have q: "queue < length (tk_rx key)" "tc_state ?ctx \<noteq> TKIP_STATE_NOT_INIT" using assms(2) by (simp_all add: tkip_ready_def)
  then have rd: "rd (tk_rx key) queue = Some ?ctx" by (simp add: rd_def)
  show ?thesis
  proof (cases "key' = key \<and> iv = None")
    case True
    then show ?thesis using assms(2) by simp
  next
    case False
    have a: "\<not> length payload < 12" using assms(1) False by (auto simp: ieee80211_tkip_decrypt_data_def)
    then have "4 + 4 \<le> length payload" by simp
    then obtain iv32 where iv32: "le32_at payload 4 = Some iv32" by (auto simp: le32_at_def)
    note steps = assms(1) [unfolded ieee80211_tkip_decrypt_data_def if_not_P [OF a] iv32 Let_def Option.bind.simps]
    have b: "\<not> payload ! 3 AND 0x20 = 0" "\<not> drop_bit 6 (payload ! 3) \<noteq> tk_keyidx key"
      using steps False by (auto split: if_splits)
    let ?old = "iv32 < tc_iv32 ?ctx \<or> iv32 = tc_iv32 ?ctx \<and> ?iv16 \<le> tc_iv16 ?ctx"
    note steps = steps [unfolded if_not_P [OF b(1)] if_not_P [OF b(2)] rd Option.bind.simps]
    have new: "\<not> ?old" using steps False q(2) by (auto split: if_splits)
    then have c: "\<not> (tc_state ?ctx \<noteq> TKIP_STATE_NOT_INIT \<and> ?old)" by blast
    note steps = steps [unfolded if_not_P [OF c] if_False]
    let ?c1 = "if tc_state ?ctx = TKIP_STATE_NOT_INIT \<or> tc_iv32 ?ctx \<noteq> iv32 then tkip_mixing_phase1 (tk_key key) ta iv32 ?ctx else ?ctx"
    define c1 where "c1 = ?c1"
    have c1: "tc_iv32 c1 = tc_iv32 ?ctx" "tc_iv16 c1 = tc_iv16 ?ctx" "tc_state c1 \<noteq> TKIP_STATE_NOT_INIT"
      using q(2) by (auto simp: c1_def tkip_mixing_phase1_def)
    obtain c2 upds where c2: "(if tk_hw_update key \<and> tc_state c1 \<noteq> TKIP_STATE_PHASE1_HW_UPLOADED
        then (c1\<lparr>tc_state := TKIP_STATE_PHASE1_HW_UPLOADED\<rparr>, tk_updates key @ [(iv32, tc_p1k c1)]) else (c1, tk_updates key)) = (c2, upds)"
      by fastforce
    then have c2': "tc_iv32 c2 = tc_iv32 ?ctx" "tc_iv16 c2 = tc_iv16 ?ctx" "tc_state c2 \<noteq> TKIP_STATE_NOT_INIT"
      using c1 by (auto split: if_splits)
    note steps = steps [folded c1_def, unfolded c2 prod.case]
    have k: "key' = key\<lparr>tk_rx := (tk_rx key)[queue := c2], tk_updates := upds\<rparr>" "iv = None \<or> iv = Some (iv32, ?iv16)"
      using steps by (auto simp: split_beta split: if_splits)
    show ?thesis using new [unfolded tsc_newer] k c2' q iv32 by (auto simp: tkip_ready_def ctx_tsc_def)
  qed
qed

lemma tkip_decrypt_num:
  assumes "ieee80211_crypto_tkip_decrypt arc4 crc hl (Some ta) False queue key skb = Some (res, key', skb', iv)" "tkip_ready queue key"
  shows "tkip_ready queue key' \<and> ctx_tsc (tk_rx key' ! queue) = ctx_tsc (tk_rx key ! queue) \<and>
     (\<forall>iv32 iv16. iv = Some (iv32, iv16) \<longrightarrow> tkip_frame_tsc hl skb = Tsc iv32 iv16 \<and> ctx_tsc (tk_rx key ! queue) < tkip_frame_tsc hl skb)"
proof -
  obtain fc where fc: "le16_at (sb_data skb) 0 = Some fc"
    using assms(1) by (cases "le16_at (sb_data skb) 0") (simp_all add: ieee80211_crypto_tkip_decrypt_def Let_def)
  let ?p = "drop (hl fc) (sb_data skb)"
  consider "key' = key" "iv = None"
    | r out iv' where "ieee80211_tkip_decrypt_data arc4 crc key ?p ta False queue = Some (r, key', out, iv')" "iv = None \<or> iv = iv'"
    using assms(1) unfolding ieee80211_crypto_tkip_decrypt_def fc Let_def
    by (auto simp: bind_eq_Some_conv split: if_splits)
  then show ?thesis
  proof cases
    case 1
    then show ?thesis using assms(2) by simp
  next
    case 2
    note D = tkip_decrypt_data_num [OF 2(1) assms(2)]
    have "tkip_frame_tsc hl skb = Tsc iv32 iv16" if "iv' = Some (iv32, iv16)" for iv32 iv16
      using D that by (auto simp: tkip_frame_tsc_def fc Let_def)
    then show ?thesis using D 2(2) by (auto simp: ctx_tsc_def)
  qed
qed

text \<open>The handler moves the counter exactly when it passes a data frame on.\<close>

lemma michael_verify_num:
  assumes "ieee80211_rx_h_michael_mic_verify hl sw_flags is_ap queue iv key skb = Some (res, key', skb')" "tkip_ready queue key"
    "le16_at (sb_data skb) 0 = Some fc"
  shows "tkip_ready queue key' \<and>
     (if res = RX_CONTINUE \<and> ieee80211_is_data_present fc then ctx_tsc (tk_rx key' ! queue) = Tsc (fst iv) (snd iv)
      else key' = key)"
  using assms
  by (auto simp: ieee80211_rx_h_michael_mic_verify_def sw_flags_def Let_def tkip_update_iv_def upd_def rd_def tkip_ready_def ctx_tsc_def
      bind_eq_Some_conv split: if_splits)

lemma tkip_recv_num:
  assumes "tkip_recv arc4 crc hl ta is_ap queue skb key = Some (ok, key')" "tkip_ready queue key"
  shows "tkip_ready queue key' \<and> (if ok then ctx_tsc (tk_rx key ! queue) < tkip_frame_tsc hl skb \<and> ctx_tsc (tk_rx key' ! queue) = tkip_frame_tsc hl skb
     else ctx_tsc (tk_rx key' ! queue) = ctx_tsc (tk_rx key ! queue))"
proof -
  obtain res k1 skb1 iv where 1: "ieee80211_crypto_tkip_decrypt arc4 crc hl (Some ta) False queue key skb = Some (res, k1, skb1, iv)"
    using assms(1) by (auto simp: tkip_recv_def bind_eq_Some_conv)
  note D = tkip_decrypt_num [OF 1 assms(2)]
  show ?thesis
  proof (cases iv)
    case None
    then show ?thesis using assms(1) 1 D by (simp add: tkip_recv_def)
  next
    case (Some v)
    obtain fc res2 skb2 where 2: "le16_at (sb_data skb1) 0 = Some fc"
      "ieee80211_rx_h_michael_mic_verify hl sw_flags is_ap queue v k1 skb1 = Some (res2, key', skb2)"
      "ok \<longleftrightarrow> res2 = RX_CONTINUE \<and> ieee80211_is_data_present fc"
      using assms(1) 1 Some by (auto simp: tkip_recv_def bind_eq_Some_conv)
    have r: "tkip_ready queue k1" using D by simp
    note V = michael_verify_num [OF 2(2) r 2(1)]
    show ?thesis using V D 2(3) Some by (cases v) (auto split: if_splits)
  qed
qed

interpretation tkip: replay_guard "tkip_recv arc4 crc hl ta is_ap queue" "tkip_ready queue"
  "\<lambda>key. ctx_tsc (tk_rx key ! queue)" "tkip_frame_tsc hl" for arc4 crc hl ta is_ap queue
  by unfold_locales (use tkip_recv_num in fastforce)+

end
