(* ===== verification/Crypto_Props.thy ===== *)
theory Crypto_Props
  imports Ccm_Standard Wpa_Bip_Proofs Tkip_Replay
begin

text \<open>
  The properties of frame protection. The witnesses use a cipher and a checksum that only shift and
  add: the properties rely on nothing else than that the cipher yields blocks and the stream cipher is its own inverse.
\<close>

section \<open>Examples\<close>

definition ex_cipher :: "u8 list \<Rightarrow> u8 list" where
  "ex_cipher x = map (\<lambda>i. (if i < length x then x ! i else 0) + of_nat (i + 3)) [0..<16]"

definition ex_arc4 :: "u8 list \<Rightarrow> u8 list \<Rightarrow> u8 list" where
  "ex_arc4 k = map (\<lambda>b. b XOR (if k = [] then 0 else hd k))"

definition ex_crc :: "u32 \<Rightarrow> u8 list \<Rightarrow> u32" where
  "ex_crc c d = fold (\<lambda>b c. c + ucast b) d c"

lemma ex_ciphers: "block_cipher ex_cipher" "stream_cipher ex_arc4"
  by (simp_all add: block_cipher_def ex_cipher_def stream_cipher_def ex_arc4_def comp_def xor.assoc)

text \<open>A data frame without QoS field: frame control, duration, three addresses, sequence control.\<close>

abbreviation "ex_hdr \<equiv> [8, 1, 0, 0] @ [2, 0, 0, 0, 0, 1] @ [2, 0, 0, 0, 0, 2] @ [2, 0, 0, 0, 0, 3] @ [0x10, 0] :: u8 list"

definition ex_sk :: "u8 list \<Rightarrow> sk_buf" where
  "ex_sk d = \<lparr>sb_headroom = 8, sb_tailroom = 18, sb_data = d, sb_hw_key = None\<rparr>"

definition ex_ccmp :: "u8 list \<Rightarrow> ccmp_key" where
  "ex_ccmp pn = \<lparr>ck_keyidx = 0, ck_tx_pn = 0, ck_rx_pn = replicate 17 pn, ck_prev_rx_pn = replicate 17 pn, ck_replays = 0\<rparr>"

lemma ex_hdr_ok: "hdr_ok (\<lambda>_. 24) 0x4108 (protected ex_hdr)" "hdr_ok (\<lambda>_. 24) 0x0108 ex_hdr"
  by (simp_all add: hdr_ok_def protected_def le16_at_def le16_def rd_def ieee80211_has_a4_def ieee80211_has_tods_def
      ieee80211_has_fromds_def ieee80211_is_data_qos_def)

section \<open>CCMP\<close>

text \<open>
  Claim C35. The in-place decryption accepts a ciphertext and a MIC as the protection of a message
  exactly when the standard's CCM maps the message to this ciphertext and this MIC: it accepts what a correct
  sender produces, returns its message, and accepts nothing else.
\<close>

theorem ccm_accepts_standard:
  assumes "block_cipher E" "length aad = 32" "length mic = 8"
  shows "ieee80211_aes_ccm_decrypt E b_0 aad c mic = (m, True) \<longleftrightarrow> ccm_standard E b_0 aad m = (c, mic)"
  by (simp add: ccm_decrypt_iff [OF assms(1,3)] ccm_encrypt_standard [OF assms(1,2)])

theorem ccm_accepts_standard_witness:
  "ieee80211_aes_ccm_decrypt ex_cipher (replicate 16 1) (replicate 32 2) [1, 3, 1] [10, 10, 26, 18, 41, 40, 47, 46] = ([5, 6, 7], True)"
proof -
  have "ccm_standard ex_cipher (replicate 16 1) (replicate 32 2) [5, 6, 7] = ([1, 3, 1], [10, 10, 26, 18, 41, 40, 47, 46])" by code_simp
  then show ?thesis using ccm_accepts_standard [OF ex_ciphers(1), of "replicate 32 2"] by simp
qed

text \<open>What the sender of a data frame hands to the device, and what a receiver makes of it that does not find it old.\<close>

lemma ccmp_sent:
  assumes "block_cipher E" "sb_hw_key skb = None" "sb_data skb = h @ body" "hdr_ok hl fc (protected h)" "ieee80211_is_data fc"
    "8 \<le> sb_headroom skb" "8 \<le> sb_tailroom skb"
  obtains skb' where
    "ieee80211_crypto_ccmp_encrypt E hl key [skb] = Some (TX_CONTINUE, key\<lparr>ck_tx_pn := ck_tx_pn key + 1\<rparr>, [skb'])"
    "length (sb_data skb') = length (sb_data skb) + 16"
    "\<And>queue rkey. queue < length (ck_rx_pn rkey) \<Longrightarrow> queue < length (ck_prev_rx_pn rkey) \<Longrightarrow>
      \<not> memcmp (pn_bytes (ck_tx_pn key + 1)) (ck_rx_pn rkey ! queue) < 0 \<Longrightarrow>
      \<exists>out. ieee80211_crypto_ccmp_decrypt E hl True False queue rkey skb' = Some (RX_CONTINUE,
         (let (rx, prev) = ccmp_new_counters (pn_bytes (ck_tx_pn key + 1)) (ck_rx_pn rkey ! queue) (ck_prev_rx_pn rkey ! queue) in
          rkey\<lparr>ck_rx_pn := (ck_rx_pn rkey)[queue := rx], ck_prev_rx_pn := (ck_prev_rx_pn rkey)[queue := prev]\<rparr>), out) \<and>
       sb_data out = protected h @ body"
proof -
  let ?skb = "skb\<lparr>sb_data := protected h @ body\<rparr>" and ?pn = "pn_bytes (ck_tx_pn key + 1)"
  have l: "2 \<le> length h" using protected_bit(2) [OF assms(4)] .
  obtain b_0 aad c mic skb' where e: "ccmp_encrypt_skb E hl key ?skb = Some (True, key\<lparr>ck_tx_pn := ck_tx_pn key + 1\<rparr>, skb')"
    "sb_data skb' = protected h @ ccmp_pn2hdr ?pn (ck_keyidx key) @ c @ mic" "length c = length body" "length mic = 8"
    "ccmp_special_blocks hl (protected h @ ccmp_pn2hdr ?pn (ck_keyidx key) @ c @ mic) ?pn True = Some (b_0, aad)"
    "ieee80211_aes_ccm_decrypt E b_0 aad c mic = (body, True)"
    using encrypt_skb_built [OF assms(1) _ _ assms(4), of ?skb body key] assms(2,6,7) by (auto simp: Let_def)
  have "ieee80211_crypto_ccmp_encrypt E hl key [skb] = Some (TX_CONTINUE, key\<lparr>ck_tx_pn := ck_tx_pn key + 1\<rparr>, [skb'])"
    using e(1) by (simp add: ieee80211_crypto_ccmp_encrypt_def assms(3) set_protected_header [OF l])
  moreover have "length (sb_data skb') = length (sb_data skb) + 16" using e(2-4) assms(3) by simp
  moreover note decrypt_built [OF assms(4,5) e(2) _ e(4-6,3)]
  ultimately show ?thesis using that [of skb'] by simp
qed

text \<open>
  Claim C36. A data frame protected by \<open>ieee80211_crypto_ccmp_encrypt\<close> is accepted by
  \<open>ieee80211_crypto_ccmp_decrypt\<close> of a receiver whose replay counters are in step and not ahead: the header comes
  back, with the protected bit set, and the body as it was, and both counters move to the packet number of the frame.
\<close>

theorem ccmp_frame_roundtrip:
  assumes "block_cipher E" "sb_hw_key skb = None" "sb_data skb = h @ body" "hdr_ok hl fc (protected h)" "ieee80211_is_data fc"
    "8 \<le> sb_headroom skb" "8 \<le> sb_tailroom skb" "queue < length (ck_rx_pn rkey)" "queue < length (ck_prev_rx_pn rkey)"
    "ck_prev_rx_pn rkey ! queue = ck_rx_pn rkey ! queue" "\<not> memcmp (pn_bytes (ck_tx_pn key + 1)) (ck_rx_pn rkey ! queue) < 0"
  shows "\<exists>skb' out. ieee80211_crypto_ccmp_encrypt E hl key [skb] = Some (TX_CONTINUE, key\<lparr>ck_tx_pn := ck_tx_pn key + 1\<rparr>, [skb']) \<and>
     length (sb_data skb') = length (sb_data skb) + 16 \<and>
     ieee80211_crypto_ccmp_decrypt E hl True False queue rkey skb' = Some (RX_CONTINUE,
       rkey\<lparr>ck_rx_pn := (ck_rx_pn rkey)[queue := pn_bytes (ck_tx_pn key + 1)],
            ck_prev_rx_pn := (ck_prev_rx_pn rkey)[queue := pn_bytes (ck_tx_pn key + 1)]\<rparr>, out) \<and>
     sb_data out = protected h @ body"
proof -
  obtain skb' where e: "ieee80211_crypto_ccmp_encrypt E hl key [skb] = Some (TX_CONTINUE, key\<lparr>ck_tx_pn := ck_tx_pn key + 1\<rparr>, [skb'])"
    "length (sb_data skb') = length (sb_data skb) + 16" and d: "\<exists>out. ieee80211_crypto_ccmp_decrypt E hl True False queue rkey skb' = Some (RX_CONTINUE,
         (let (rx, prev) = ccmp_new_counters (pn_bytes (ck_tx_pn key + 1)) (ck_rx_pn rkey ! queue) (ck_prev_rx_pn rkey ! queue) in
          rkey\<lparr>ck_rx_pn := (ck_rx_pn rkey)[queue := rx], ck_prev_rx_pn := (ck_prev_rx_pn rkey)[queue := prev]\<rparr>), out) \<and>
       sb_data out = protected h @ body"
    using ccmp_sent [OF assms(1-7), of key] assms(8,9,11) by metis
  then show ?thesis by (auto simp: assms(10) counters_in_step)
qed

theorem ccmp_frame_roundtrip_witness:
  "\<exists>skb' out. ieee80211_crypto_ccmp_encrypt ex_cipher (\<lambda>_. 24) (ex_ccmp zero_pn) [ex_sk (ex_hdr @ [1, 2, 3])] =
      Some (TX_CONTINUE, (ex_ccmp zero_pn)\<lparr>ck_tx_pn := 1\<rparr>, [skb']) \<and>
     ieee80211_crypto_ccmp_decrypt ex_cipher (\<lambda>_. 24) True False 3 (ex_ccmp zero_pn) skb' = Some (RX_CONTINUE,
       (ex_ccmp zero_pn)\<lparr>ck_rx_pn := (replicate 17 zero_pn)[3 := [0, 0, 0, 0, 0, 1]],
          ck_prev_rx_pn := (replicate 17 zero_pn)[3 := [0, 0, 0, 0, 0, 1]]\<rparr>, out) \<and>
     sb_data out = protected ex_hdr @ [1, 2, 3]"
proof -
  have c: "sb_hw_key (ex_sk (ex_hdr @ [1, 2, 3])) = None" "sb_data (ex_sk (ex_hdr @ [1, 2, 3])) = ex_hdr @ [1, 2, 3]"
    "ieee80211_is_data 0x4108" "8 \<le> sb_headroom (ex_sk (ex_hdr @ [1, 2, 3]))" "8 \<le> sb_tailroom (ex_sk (ex_hdr @ [1, 2, 3]))"
    "3 < length (ck_rx_pn (ex_ccmp zero_pn))" "3 < length (ck_prev_rx_pn (ex_ccmp zero_pn))"
    "ck_prev_rx_pn (ex_ccmp zero_pn) ! 3 = ck_rx_pn (ex_ccmp zero_pn) ! 3"
    "\<not> memcmp (pn_bytes (ck_tx_pn (ex_ccmp zero_pn) + 1)) (ck_rx_pn (ex_ccmp zero_pn) ! 3) < 0"
    by (simp_all add: ex_sk_def ex_ccmp_def ieee80211_is_data_def pn_bytes_def zero_pn_def numeral_eq_Suc)
  have k: "ck_tx_pn (ex_ccmp zero_pn) = 0" "ck_rx_pn (ex_ccmp zero_pn) = replicate 17 zero_pn"
    "ck_prev_rx_pn (ex_ccmp zero_pn) = replicate 17 zero_pn" "pn_bytes 1 = [0, 0, 0, 0, 0, 1]"
    by (simp_all add: ex_ccmp_def pn_bytes_def)
  from ccmp_frame_roundtrip [OF ex_ciphers(1) c(1,2) ex_hdr_ok(1) c(3-9)] show ?thesis unfolding k add_0 by blast
qed

text \<open>
  Claim C37. A key that is installed with a sequence counter other than zero never detects a replay
  of a newer frame. The counter goes to \<open>rx_pn\<close> only, so that it differs from \<open>prev_rx_pn\<close> and no frame
  moves either of them: a frame accepted once is accepted again, with the same result, after any run of further frames.
\<close>

theorem ccmp_group_key_replay:
  assumes "length seq = 6" "seq \<noteq> replicate 6 0"
    "ieee80211_crypto_ccmp_decrypt E hl True False queue (ccmp_key_alloc idx (Some seq)) skb = Some (RX_CONTINUE, key, out)"
    "ccmp_receive_all E hl frames key = Some key'"
  shows "\<exists>key''. ieee80211_crypto_ccmp_decrypt E hl True False queue key' skb = Some (RX_CONTINUE, key'', out)"
proof -
  let ?k = "ccmp_key_alloc idx (Some seq)"
  obtain a b c d e f where "seq = [a, b, c, d, e, f]" using assms(1) by (auto simp: numeral_eq_Suc length_Suc_conv)
  then have rx: "\<forall>rx \<in> set (ck_rx_pn ?k). length rx = 6 \<and> rx \<noteq> zero_pn"
    using assms(2) by (auto simp: ccmp_key_alloc_def zero_pn_def numeral_eq_Suc upt_rec)
  have prev: "\<forall>q < length (ck_rx_pn ?k). q < length (ck_prev_rx_pn ?k) \<longrightarrow> ck_prev_rx_pn ?k ! q = zero_pn"
    by (simp add: ccmp_key_alloc_def)
  have "ccmp_receive_all E hl ((queue, skb) # frames) ?k = Some key'" using assms(3,4) by simp
  from receive_all_stuck [OF this prev rx] have "ck_rx_pn key' = ck_rx_pn ?k" "ck_prev_rx_pn key' = ck_prev_rx_pn ?k" by simp_all
  from decrypt_cong [OF this, of E hl True False queue skb] show ?thesis unfolding assms(3) by auto
qed

theorem ccmp_group_key_replay_witness:
  "\<exists>skb key key' key'' out. let k = ccmp_key_alloc 1 (Some [5, 0, 0, 0, 0, 0]) in
     ieee80211_crypto_ccmp_encrypt ex_cipher (\<lambda>_. 24) ((ex_ccmp zero_pn)\<lparr>ck_tx_pn := 6\<rparr>) [ex_sk (ex_hdr @ [1, 2, 3])] =
       Some (TX_CONTINUE, (ex_ccmp zero_pn)\<lparr>ck_tx_pn := 7\<rparr>, [skb]) \<and>
     ieee80211_crypto_ccmp_decrypt ex_cipher (\<lambda>_. 24) True False 0 k skb = Some (RX_CONTINUE, key, out) \<and>
     ccmp_receive_all ex_cipher (\<lambda>_. 24) [(0, skb), (5, skb)] key = Some key' \<and>
     ieee80211_crypto_ccmp_decrypt ex_cipher (\<lambda>_. 24) True False 0 key' skb = Some (RX_CONTINUE, key'', out) \<and>
     sb_data out = protected ex_hdr @ [1, 2, 3]"
proof -
  let ?k = "ccmp_key_alloc 1 (Some [5, 0, 0, 0, 0, 0])" and ?rx = "[0, 0, 0, 0, 0, 5] :: u8 list"
  have c: "sb_hw_key (ex_sk (ex_hdr @ [1, 2, 3])) = None" "sb_data (ex_sk (ex_hdr @ [1, 2, 3])) = ex_hdr @ [1, 2, 3]"
    "ieee80211_is_data 0x4108" "8 \<le> sb_headroom (ex_sk (ex_hdr @ [1, 2, 3]))" "8 \<le> sb_tailroom (ex_sk (ex_hdr @ [1, 2, 3]))"
    by (simp_all add: ex_sk_def ieee80211_is_data_def)
  have k: "ck_rx_pn ?k = replicate 17 ?rx" "ck_prev_rx_pn ?k = replicate 17 zero_pn"
    by (simp_all add: ccmp_key_alloc_def upt_rec numeral_eq_Suc)
  have pn: "pn_bytes (ck_tx_pn ((ex_ccmp zero_pn)\<lparr>ck_tx_pn := 6\<rparr>) + 1) = [0, 0, 0, 0, 0, 7]" "ck_tx_pn ((ex_ccmp zero_pn)\<lparr>ck_tx_pn := 6\<rparr>) + 1 = 7"
    "(ex_ccmp zero_pn)\<lparr>ck_tx_pn := 6\<rparr>\<lparr>ck_tx_pn := 7\<rparr> = (ex_ccmp zero_pn)\<lparr>ck_tx_pn := 7\<rparr>" by (simp_all add: ex_ccmp_def pn_bytes_def)
  have newer: "\<not> memcmp [0, 0, 0, 0, 0, 7] ?rx < 0" by simp
  have stuck: "ccmp_new_counters [0, 0, 0, 0, 0, 7] ?rx zero_pn = (?rx, zero_pn)" by (rule counters_stuck) (simp, code_simp)
  obtain skb where e: "ieee80211_crypto_ccmp_encrypt ex_cipher (\<lambda>_. 24) ((ex_ccmp zero_pn)\<lparr>ck_tx_pn := 6\<rparr>) [ex_sk (ex_hdr @ [1, 2, 3])] =
       Some (TX_CONTINUE, (ex_ccmp zero_pn)\<lparr>ck_tx_pn := 7\<rparr>, [skb])"
    and d: "\<And>q rkey. q < 17 \<Longrightarrow> ck_rx_pn rkey = replicate 17 ?rx \<Longrightarrow> ck_prev_rx_pn rkey = replicate 17 zero_pn \<Longrightarrow>
      \<exists>out. ieee80211_crypto_ccmp_decrypt ex_cipher (\<lambda>_. 24) True False q rkey skb = Some (RX_CONTINUE, rkey, out) \<and>
        sb_data out = protected ex_hdr @ [1, 2, 3]"
  proof (rule ccmp_sent [OF ex_ciphers(1) c(1,2) ex_hdr_ok(1) c(3-5), of "(ex_ccmp zero_pn)\<lparr>ck_tx_pn := 6\<rparr>"], goal_cases)
    case (1 skb')
    have "\<exists>out. ieee80211_crypto_ccmp_decrypt ex_cipher (\<lambda>_. 24) True False q rkey skb' = Some (RX_CONTINUE, rkey, out) \<and>
        sb_data out = protected ex_hdr @ [1, 2, 3]"
      if "q < 17" "ck_rx_pn rkey = replicate 17 ?rx" "ck_prev_rx_pn rkey = replicate 17 zero_pn" for q rkey
    proof -
      have "rkey\<lparr>ck_rx_pn := (ck_rx_pn rkey)[q := ?rx], ck_prev_rx_pn := (ck_prev_rx_pn rkey)[q := zero_pn]\<rparr> = rkey"
        using that list_update_id [of "replicate 17 ?rx" q] list_update_id [of "replicate 17 zero_pn" q] by simp
      moreover have "pn_bytes 7 = [0, 0, 0, 0, 0, 7]" by (simp add: pn_bytes_def)
      ultimately show ?thesis using 1(4) [of q rkey] that newer unfolding pn by (simp add: stuck)
    qed
    then show ?case using 1(1,2) unfolding pn by blast
  qed
  obtain out where out: "ieee80211_crypto_ccmp_decrypt ex_cipher (\<lambda>_. 24) True False 0 ?k skb = Some (RX_CONTINUE, ?k, out)"
    "sb_data out = protected ex_hdr @ [1, 2, 3]" using d [of 0 ?k] k by auto
  have r: "ccmp_receive_all ex_cipher (\<lambda>_. 24) [(0, skb), (5, skb)] ?k = Some ?k" using out(1) d [of 5 ?k] k by auto
  have "length [5, 0, 0, 0, 0, 0 :: u8] = 6" "[5, 0, 0, 0, 0, 0 :: u8] \<noteq> replicate 6 0" by (simp, code_simp)
  from ccmp_group_key_replay [OF this out(1) r] e out r show ?thesis unfolding Let_def by blast
qed

section \<open>Replay protection of management frames and of TKIP\<close>

text \<open>
  Claim C38. Of any run of received frames, a station accepts only multicast management frames whose
  MIC is the CMAC of RFC 4493, cut to eight bytes, of the frame control word with the bits 12, 13 and 14 cleared, the
  three addresses, the body and the element with a zero MIC. These are the bits the code clears; the standard
  clears 11, 12 and 13, and the MIC is the standard's when the frame has neither the retry nor the protected bit. The
  packet numbers of accepted frames strictly increase: no frame is accepted twice, and none that is not
  newer than the counter the key was installed with. The cipher is any function that yields blocks of 16 bytes.
\<close>

theorem bip_run_safe:
  assumes "block_cipher E" "length (mk_rx_pn key) = 6" "receive_all (bip_recv E) frames key = Some (acc, key')"
  shows "distinct acc \<and> sorted_wrt (<) (map bip_num acc) \<and>
     (\<forall>f \<in> set acc. be_num (mk_rx_pn key) < bip_num f \<and>
        bip_mic f = take 8 (cmac_standard E (bip_message [12, 13, 14] (sb_data f))) \<and>
        (\<not> bit (le16 (sb_data f ! 0) (sb_data f ! 1)) 11 \<and> \<not> bit (le16 (sb_data f ! 0) (sb_data f ! 1)) 14 \<longrightarrow>
           bip_mic f = take 8 (cmac_standard E (bip_message [11, 12, 13] (sb_data f))))) \<and>
     be_num (mk_rx_pn key') = (if acc = [] then be_num (mk_rx_pn key) else bip_num (last acc))"
proof -
  have r: "receive_all (bip_recv (as_block_cipher E)) frames key = Some (acc, key')"
    using assms(3) by (simp add: as_block_cipher(2) [OF assms(1)])
  show ?thesis
    using bip.run_increases [OF assms(2) r] bip.run_distinct [OF assms(2) r] bip_accepted_mic [OF assms] bip_message_standard
    by metis
qed

definition ex_bip :: "cmac_key" where
  "ex_bip = \<lparr>mk_keyidx = 4, mk_tx_pn = 8, mk_rx_pn = replicate 6 0, mk_replays = 0, mk_icverrors = 0\<rparr>"

text \<open>A deauthentication frame to all stations, protected.\<close>

definition ex_bip_frame :: "sk_buf" where
  "ex_bip_frame = (case ieee80211_crypto_aes_cmac_encrypt ex_cipher ex_bip
     (ex_sk ([0xC0, 0, 0, 0] @ replicate 6 0xFF @ [2, 0, 0, 0, 0, 2, 2, 0, 0, 0, 0, 2, 0, 0, 7, 0])) of
     Some (_, _, skb) \<Rightarrow> skb | None \<Rightarrow> ex_sk [])"

theorem bip_run_safe_witness:
  "\<exists>key'. receive_all (bip_recv ex_cipher) [ex_bip_frame, ex_bip_frame] ex_bip = Some ([ex_bip_frame], key') \<and>
     be_num (mk_rx_pn ex_bip) < bip_num ex_bip_frame \<and> be_num (mk_rx_pn key') = bip_num ex_bip_frame"
proof -
  have "map_option fst (receive_all (bip_recv ex_cipher) [ex_bip_frame, ex_bip_frame] ex_bip) = Some [ex_bip_frame]" by code_simp
  then obtain key' where r: "receive_all (bip_recv ex_cipher) [ex_bip_frame, ex_bip_frame] ex_bip = Some ([ex_bip_frame], key')" by auto
  have "length (mk_rx_pn ex_bip) = 6" by (simp add: ex_bip_def)
  from bip_run_safe [OF ex_ciphers(1) this r] r show ?thesis by simp
qed

text \<open>
  The mask of the code is one bit off: a frame that a sender protects as the standard says, with the retry
  bit clear, and sends again with the bit set, is refused, although the standard's message is the same.
\<close>

lemma bip_retry_refused:
  "let d = sb_data ex_bip_frame; again = ex_bip_frame\<lparr>sb_data := d[1 := d ! 1 OR 8]\<rparr> in
     bip_message [11, 12, 13] (sb_data again) = bip_message [11, 12, 13] d \<and>
     map_option fst (ieee80211_crypto_aes_cmac_decrypt ex_cipher False ex_bip ex_bip_frame) = Some RX_CONTINUE \<and>
     map_option fst (ieee80211_crypto_aes_cmac_decrypt ex_cipher False ex_bip again) = Some RX_DROP_UNUSABLE"
  by code_simp

text \<open>
  Claim C39. Of any run of data frames, a receiver with an initialised TKIP key that decrypts in
  software passes on only frames whose vectors strictly increase and exceed its counter: no frame
  is accepted twice, and the counter is the vector of the last accepted frame.
\<close>

theorem tkip_run_safe:
  assumes "queue < length (tk_rx key)" "tc_state (tk_rx key ! queue) \<noteq> TKIP_STATE_NOT_INIT"
    "receive_all (tkip_recv arc4 crc hl ta is_ap queue) frames key = Some (acc, key')"
  shows "distinct acc \<and> sorted_wrt (<) (map (tkip_frame_tsc hl) acc) \<and>
     (\<forall>f \<in> set acc. ctx_tsc (tk_rx key ! queue) < tkip_frame_tsc hl f) \<and>
     ctx_tsc (tk_rx key' ! queue) = (if acc = [] then ctx_tsc (tk_rx key ! queue) else tkip_frame_tsc hl (last acc))"
proof -
  have i: "tkip_ready queue key" using assms(1,2) by (simp add: tkip_ready_def)
  show ?thesis using tkip.run_increases [OF i assms(3)] tkip.run_distinct [OF i assms(3)] by blast
qed

definition ex_tctx :: "u32 \<Rightarrow> u16 \<Rightarrow> tkip_state \<Rightarrow> tkip_ctx" where
  "ex_tctx iv32 iv16 st = \<lparr>tc_iv32 = iv32, tc_iv16 = iv16, tc_p1k = [], tc_p1k_iv32 = 0, tc_state = st\<rparr>"

definition ex_tkip :: "tkip_ctx list \<Rightarrow> tkip_key" where
  "ex_tkip rx = \<lparr>tk_keyidx = 0, tk_key = map of_nat [0..<32], tk_addr = [2, 0, 0, 0, 0, 2], tk_tx = ex_tctx 5 0xFFFF TKIP_STATE_NOT_INIT,
     tk_rx = rx, tk_hw_update = False, tk_updates = []\<rparr>"

text \<open>A frame with the vector (6, 1); the first byte of its stream cipher key is 0, the last bytes are the checksum.\<close>

definition ex_tkip_frame :: "sk_buf" where
  "ex_tkip_frame = ex_sk (protected ex_hdr @ [0, 0x20, 1, 0x20, 6, 0, 0, 0] @ replicate 8 9 @ [0xB8, 0xFF, 0xFF, 0xFF])"

definition ex_tkip_rx :: "tkip_key" where
  "ex_tkip_rx = ex_tkip [(ex_tctx 6 0 TKIP_STATE_PHASE1_DONE)\<lparr>tc_p1k := [1, 2, 3, 4, 5]\<rparr>]"

theorem tkip_run_safe_witness:
  "\<exists>key'. receive_all (tkip_recv ex_arc4 ex_crc (\<lambda>_. 24) [2, 0, 0, 0, 0, 2] False 0) [ex_tkip_frame, ex_tkip_frame] ex_tkip_rx =
      Some ([ex_tkip_frame], key') \<and> ctx_tsc (tk_rx key' ! 0) = tkip_frame_tsc (\<lambda>_. 24) ex_tkip_frame"
proof -
  have "map_option fst (receive_all (tkip_recv ex_arc4 ex_crc (\<lambda>_. 24) [2, 0, 0, 0, 0, 2] False 0) [ex_tkip_frame, ex_tkip_frame] ex_tkip_rx) =
      Some [ex_tkip_frame]" by code_simp
  then obtain key' where r: "receive_all (tkip_recv ex_arc4 ex_crc (\<lambda>_. 24) [2, 0, 0, 0, 0, 2] False 0) [ex_tkip_frame, ex_tkip_frame] ex_tkip_rx =
      Some ([ex_tkip_frame], key')" by auto
  have "0 < length (tk_rx ex_tkip_rx)" "tc_state (tk_rx ex_tkip_rx ! 0) \<noteq> TKIP_STATE_NOT_INIT"
    by (simp_all add: ex_tkip_rx_def ex_tkip_def ex_tctx_def)
  from tkip_run_safe [OF this r] r show ?thesis by simp
qed

section \<open>TKIP\<close>

text \<open>
  Claim C40. A data frame to which the sender adds the Michael code and which it encrypts with TKIP carries the
  code of IEEE 802.11 over its addresses, its priority and its body, and is decrypted by a receiver with the same key
  whose counter is behind: it comes out of the receive handler with its body as it was, and the receiver's counter moves
  to the vector the sender used. Required of both ends is that a cached key of the first phase belongs to the vector it
  stands for. The sender keeps this; at the receiver a forged frame breaks it, since the cache is replaced before the
  checksum is verified (\<open>forged_frame_spoils_cache\<close>), and then genuine frames are not decrypted.
\<close>

theorem tkip_frame_roundtrip:
  assumes "stream_cipher arc4" "sb_hw_key skb = None" "sb_data skb = h @ body" "hdr_ok hl fc0 h" "hdr_ok hl fc (protected h)"
    "ieee80211_is_data_present fc0" "8 \<le> sb_headroom skb" "12 \<le> sb_tailroom skb" "24 \<le> length (tk_key key)"
    "tc_state (tk_tx key) \<noteq> TKIP_STATE_NOT_INIT \<longrightarrow>
       tc_p1k (tk_tx key) = phase1_key (tk_key key) (tk_addr key) (tc_p1k_iv32 (tk_tx key))"
    "tk_keyidx key < 4" "tk_keyidx rkey = tk_keyidx key" "is_ap \<longrightarrow> tk_keyidx key = 0" "tk_key rkey = tk_key key"
    "queue < length (tk_rx rkey)"
    "tc_state (tk_rx rkey ! queue) \<noteq> TKIP_STATE_NOT_INIT \<longrightarrow>
       tc_p1k (tk_rx rkey ! queue) = phase1_key (tk_key rkey) (tk_addr key) (tc_iv32 (tk_rx rkey ! queue))"
    "newer_iv (tc_iv32 (tk_tx (tkip_next_tx key))) (tc_iv16 (tk_tx (tkip_next_tx key))) (tk_rx rkey ! queue)"
  shows "\<exists>skb1 key' skb2 rkey1 skb3 iv rkey2 skb4.
     ieee80211_tx_h_michael_mic_add hl False hw_mmic key skb = Some (TX_CONTINUE, skb1) \<and>
     sb_data skb1 = h @ body @ michael_standard (take 8 (drop 16 (tk_key key))) (michael_text h body) \<and>
     ieee80211_crypto_tkip_encrypt arc4 crc hl key [skb1] = Some (TX_CONTINUE, key', [skb2]) \<and>
     length (sb_data skb2) = length (sb_data skb) + 20 \<and>
     ieee80211_crypto_tkip_decrypt arc4 crc hl (Some (tk_addr key)) False queue rkey skb2 = Some (RX_CONTINUE, rkey1, skb3, Some iv) \<and>
     sb_data skb3 = protected h @ body @ michael_standard (take 8 (drop 16 (tk_key key))) (michael_text h body) \<and>
     ieee80211_rx_h_michael_mic_verify hl sw_flags is_ap queue iv rkey1 skb3 = Some (RX_CONTINUE, rkey2, skb4) \<and>
     sb_data skb4 = protected h @ body \<and> iv = (tc_iv32 (tk_tx key'), tc_iv16 (tk_tx key')) \<and>
     ctx_tsc (tk_rx rkey2 ! queue) = ctx_tsc (tk_tx key')"
proof -
  note H = hdr_okD [OF assms(4)] and D = protected_data_present [OF assms(4,5,6)]
  have tx: "tx_ctx_ok key" and rx: "rx_ctx_ok (tk_addr key) rkey queue"
    using assms(10,16) by (simp_all add: tx_ctx_ok_def rx_ctx_ok_def)
  obtain mic where mic: "michael_mic (take 8 (drop 16 (tk_key key))) (h @ body) body = Some mic" "length mic = 8"
    "mic = michael_standard (take 8 (drop 16 (tk_key key))) (michael_text h body)"
    using michael_of_frame [OF assms(4,6), of "take 8 (drop 16 (tk_key key))"] assms(9) by auto
  let ?skb1 = "skb\<lparr>sb_tailroom := sb_tailroom skb - 8, sb_data := h @ body @ mic\<rparr>" and ?k = "tkip_next_tx key"
  have 1: "ieee80211_tx_h_michael_mic_add hl False hw_mmic key skb = Some (TX_CONTINUE, ?skb1)"
    using assms(2,6-8) H mic(1)
    by (simp add: ieee80211_tx_h_michael_mic_add_def assms(3) MICHAEL_MIC_LEN_def TKIP_ICV_LEN_def TKIP_IV_LEN_def Let_def)
  obtain key' skb2 where 2: "ieee80211_crypto_tkip_encrypt arc4 crc hl key [?skb1] = Some (TX_CONTINUE, key', [skb2])"
    "tc_iv32 (tk_tx key') = tc_iv32 (tk_tx ?k)" "tc_iv16 (tk_tx key') = tc_iv16 (tk_tx ?k)"
    "sb_data skb2 = protected h @ ieee80211_tkip_add_iv ?k @ ieee80211_wep_encrypt_data arc4 crc
       (tkip_rc4key (tk_key ?k) (tk_addr key) (tc_iv32 (tk_tx ?k)) (tc_iv16 (tk_tx ?k))) (body @ mic)"
    using tkip_encrypt_built [OF _ _ assms(5) _ _ tx assms(11), of ?skb1 "body @ mic" arc4 crc] assms(2,7,8) by (fastforce simp: Let_def)
  have l: "length (sb_data skb2) = length (sb_data skb) + 20"
    using wep_data_roundtrip(2) [OF assms(1)] mic(2) unfolding 2(4) assms(3) by simp
  obtain rkey1 skb3 where 3: "ieee80211_crypto_tkip_decrypt arc4 crc hl (Some (tk_addr key)) False queue rkey skb2 =
      Some (RX_CONTINUE, rkey1, skb3, Some (tc_iv32 (tk_tx ?k), tc_iv16 (tk_tx ?k)))"
    "sb_data skb3 = protected h @ body @ mic" "tk_keyidx rkey1 = tk_keyidx rkey" "length (tk_rx rkey1) = length (tk_rx rkey)"
    using tkip_decrypt_built [OF assms(1,5) D(2) 2(4) _ _ _ assms(15) rx assms(17)] assms(11,12,14) by auto
  have q: "queue < length (tk_rx rkey1)" using assms(15) 3(4) by simp
  have f: "rf_decrypted sw_flags" "\<not> rf_skip_key sw_flags" "\<not> rf_mmic_stripped sw_flags" "\<not> rf_iv_stripped sw_flags" "\<not> rf_mmic_error sw_flags"
    by (simp_all add: sw_flags_def)
  have ap: "is_ap \<longrightarrow> tk_keyidx rkey1 = 0" using assms(12,13) 3(3) by simp
  note V = michael_not_compared [OF f ap assms(5) D(1) q 3(2) mic(2)]
  show ?thesis using 1 2(1-3) l 3(1,2) V q unfolding mic(3) [symmetric] by (fastforce simp: ctx_tsc_def)
qed

theorem tkip_frame_roundtrip_witness:
  "\<exists>skb1 key' skb2 rkey1 skb3 iv rkey2 skb4.
     ieee80211_tx_h_michael_mic_add (\<lambda>_. 24) False False (ex_tkip []) (ex_sk (ex_hdr @ [1, 2, 3])) = Some (TX_CONTINUE, skb1) \<and>
     sb_data skb1 = ex_hdr @ [1, 2, 3] @ michael_standard [16, 17, 18, 19, 20, 21, 22, 23]
       ([2, 0, 0, 0, 0, 3, 2, 0, 0, 0, 0, 2, 0, 0, 0, 0] @ [1, 2, 3]) \<and>
     ieee80211_crypto_tkip_encrypt ex_arc4 ex_crc (\<lambda>_. 24) (ex_tkip []) [skb1] = Some (TX_CONTINUE, key', [skb2]) \<and>
     ieee80211_crypto_tkip_decrypt ex_arc4 ex_crc (\<lambda>_. 24) (Some [2, 0, 0, 0, 0, 2]) False 0
       (ex_tkip [ex_tctx 0 0 TKIP_STATE_NOT_INIT]) skb2 = Some (RX_CONTINUE, rkey1, skb3, Some iv) \<and>
     ieee80211_rx_h_michael_mic_verify (\<lambda>_. 24) sw_flags False 0 iv rkey1 skb3 = Some (RX_CONTINUE, rkey2, skb4) \<and>
     sb_data skb4 = protected ex_hdr @ [1, 2, 3]"
proof -
  let ?skb = "ex_sk (ex_hdr @ [1, 2, 3])" and ?rk = "ex_tkip [ex_tctx 0 0 TKIP_STATE_NOT_INIT]"
  have c: "sb_hw_key ?skb = None" "sb_data ?skb = ex_hdr @ [1, 2, 3]" "ieee80211_is_data_present 0x0108" "8 \<le> sb_headroom ?skb"
    "12 \<le> sb_tailroom ?skb" "24 \<le> length (tk_key (ex_tkip []))" "tc_state (tk_tx (ex_tkip [])) \<noteq> TKIP_STATE_NOT_INIT \<longrightarrow>
       tc_p1k (tk_tx (ex_tkip [])) = phase1_key (tk_key (ex_tkip [])) (tk_addr (ex_tkip [])) (tc_p1k_iv32 (tk_tx (ex_tkip [])))" "tk_keyidx (ex_tkip []) < 4"
    "tk_keyidx ?rk = tk_keyidx (ex_tkip [])" "False \<longrightarrow> tk_keyidx (ex_tkip []) = 0" "tk_key ?rk = tk_key (ex_tkip [])"
    "0 < length (tk_rx ?rk)" "tc_state (tk_rx ?rk ! 0) \<noteq> TKIP_STATE_NOT_INIT \<longrightarrow>
       tc_p1k (tk_rx ?rk ! 0) = phase1_key (tk_key ?rk) (tk_addr (ex_tkip [])) (tc_iv32 (tk_rx ?rk ! 0))"
    "newer_iv (tc_iv32 (tk_tx (tkip_next_tx (ex_tkip [])))) (tc_iv16 (tk_tx (tkip_next_tx (ex_tkip [])))) (tk_rx ?rk ! 0)"
    by (simp_all add: ex_sk_def ex_tkip_def ex_tctx_def ieee80211_is_data_present_def tx_ctx_ok_def rx_ctx_ok_def newer_iv_def)
  have a: "tk_addr (ex_tkip []) = [2, 0, 0, 0, 0, 2]" by (simp add: ex_tkip_def)
  have m: "take 8 (drop 16 (tk_key (ex_tkip []))) = [16, 17, 18, 19, 20, 21, 22, 23]"
    "michael_text ex_hdr [1, 2, 3] = [2, 0, 0, 0, 0, 3, 2, 0, 0, 0, 0, 2, 0, 0, 0, 0] @ [1, 2, 3]"
    by code_simp+
  from tkip_frame_roundtrip [OF ex_ciphers(2) c(1,2) ex_hdr_ok(2,1) c(3-14), of False ex_crc] show ?thesis
    unfolding a m by blast
qed

end
