(* ===== verification/Loops.thy ===== *)
theory Loops
  imports Prelude
begin

text \<open>
  Loops whose end is not visible from their arguments: \<open>for (;;)\<close> loops that leave on a condition of the
  whole state, loops made with \<open>goto\<close>. One turn is a function that either asks for another turn
  (\<open>Inl\<close>) or leaves (\<open>Inr\<close>); \<open>None\<close> is an abort, and a loop that never leaves is \<open>None\<close> too. A
  variant that every turn decreases shows that the loop returns.
\<close>

partial_function (option) loop_until :: "('s \<Rightarrow> ('s + 'r) option) \<Rightarrow> 's \<Rightarrow> 'r option" where
  "loop_until turn s =
     Option.bind (turn s) (\<lambda>r. case r of Inl s' \<Rightarrow> loop_until turn s' | Inr x \<Rightarrow> Some x)"

declare loop_until.simps [code]

lemma loop_until_leave: "turn s = Some (Inr x) \<Longrightarrow> loop_until turn s = Some x"
  by (subst loop_until.simps) simp

lemma loop_until_again: "turn s = Some (Inl s') \<Longrightarrow> loop_until turn s = loop_until turn s'"
  by (subst loop_until.simps) simp

locale variant_loop =
  fixes turn :: "'s \<Rightarrow> ('s + 'r) option"
    and inv :: "'s \<Rightarrow> bool"
    and post :: "'s \<Rightarrow> 'r \<Rightarrow> bool"
    and variant :: "'s \<Rightarrow> nat"
  assumes turn_ok: "inv s \<Longrightarrow>
      (\<exists>s'. turn s = Some (Inl s') \<and> inv s' \<and> variant s' < variant s \<and> (\<forall>r. post s' r \<longrightarrow> post s r)) \<or>
      (\<exists>r. turn s = Some (Inr r) \<and> post s r)"
begin

lemma returns: "inv s \<Longrightarrow> \<exists>r. loop_until turn s = Some r \<and> post s r"
proof (induction "variant s" arbitrary: s rule: less_induct)
  case less
  from turn_ok [OF less.prems] show ?case
  proof (elim disjE exE conjE)
    fix s' assume s': "turn s = Some (Inl s')" "inv s'" "variant s' < variant s" "\<forall>r. post s' r \<longrightarrow> post s r"
    from less.hyps [OF s'(3,2)] s'(4) show ?case by (auto simp: loop_until_again [of turn s s'] s'(1))
  qed (auto dest: loop_until_leave)
qed

end

end
