(* ===== verification/Tx_Sched.thy ===== *)
theory Tx_Sched
  imports Queue_Bank Loops
begin

text \<open>
  The transmit scheduler (\<open>hal_apollo/wsm.c\<close>, \<open>wsm_get_tx\<close>): which frame, or command, goes to the
  firmware next. Configuration of the SDIO drivers (\<open>configs/atbm6031.config\<close>, \<open>hal_apollo/Makefile\<close>):
  \<open>SDIO_BUS\<close>, \<open>CONFIG_TX_NO_CONFIRM\<close>, \<open>CONFIG_ATBM_STA_LISTEN\<close>, \<open>ATBM_VIF_LIST_USE_RCU_LOCK\<close>;
  not \<open>USB_CMD_UES_EP0\<close>, \<open>CONFIG_WSM_CMD_XMIT_DIRECTLY\<close>, \<open>CONFIG_ATBM_SUPPORT_P2P\<close>,
  \<open>CONFIG_ATBM_SUPPORT_IBSS\<close>, \<open>CONFIG_SUPPORT_LMC_REQUEUE\<close>, \<open>EDCA_QUEUE_FIX\<close>.

  A buffer is a number. Of its contents \<open>tx_buf\<close> holds what the scheduler and its callers look at: the
  fields of \<open>struct wsm_tx\<close>, two fields of the 802.11 header behind it, the protocol and the control block.
\<close>

section \<open>State\<close>

datatype iftype = NL80211_IFTYPE_UNSPECIFIED | NL80211_IFTYPE_ADHOC | NL80211_IFTYPE_STATION |
  NL80211_IFTYPE_AP | NL80211_IFTYPE_MONITOR | NL80211_IFTYPE_MESH_POINT | Iftype_other

datatype join_status = JOIN_STATUS_PASSIVE | JOIN_STATUS_STA_LISTEN | JOIN_STATUS_MONITOR |
  JOIN_STATUS_IBSS | JOIN_STATUS_STA | JOIN_STATUS_AP | JOIN_STATUS_SIMPLE_MONITOR

record wsm_edca_queue_params =
  ep_cwMin :: u16
  ep_cwMax :: u16
  ep_aifns :: u8
  ep_txOpLimit :: u16

record tx_vif =
  vf_if_id :: nat
  vf_enabled :: bool
  vf_mode :: iftype
  vf_join_status :: join_status
  vf_link_id_map :: u32
  vf_tx_multicast :: bool
  vf_buffered_multicasts :: bool
  vf_sta_asleep_mask :: u32
  vf_pspoll_mask :: u32
  vf_edca :: "wsm_edca_queue_params list"
  vf_ssid :: "u8 list"

record tx_buf =
  tb_hdr_len :: u16
  tb_hdr_id :: u16
  tb_packetID :: u32
  tb_htTxParameters :: u32
  tb_frame_control :: u16
  tb_addr1_0 :: u8
  tb_protocol :: u16
  tb_flags :: u32
  tb_rates :: "(int \<times> int) list"

text \<open>A pointer to what is sent: the command buffer, or the data of a socket buffer.\<close>

datatype tx_ptr = Cmd_ptr nat | Skb_ptr nat

record wsm_cmd =
  cm_ptr :: "tx_ptr option"
  cm_len :: u32
  cm_cmd :: u16
  cm_last_send_cmd :: u16
  cm_done :: bool
  cm_ret :: int

record tx_hw =
  th_queues :: "atbm_queue list"
  th_stats :: atbm_queue_stats
  th_env :: tx_env
  th_bufs :: "nat \<Rightarrow> tx_buf"
  th_vifs :: "tx_vif option list"
  th_if_id_selected :: nat
  th_tx_lock :: int
  th_tx_burst_idx :: int
  th_hw_bufs_used :: int
  th_hw_bufs_used_vif :: "int list"
  th_numInpChBufs :: u16
  th_hw_noconfirm_tx :: u32
  th_save_buf :: "tx_ptr option"
  th_save_buf_len :: u32
  th_save_buf_vif_selected :: int
  th_cmd :: wsm_cmd
  th_random :: "nat \<Rightarrow> u32"
  th_random_pos :: nat
  th_multicast_stop_work :: "nat list"

definition BIT :: "nat \<Rightarrow> u32" where
  "BIT n = push_bit n 1"

definition atbm_uapsd_virtual_linkid :: nat where
  "atbm_uapsd_virtual_linkid = WLAN_LINK_ID_MAX - 1"

definition atbm_dtim_virtual_linkid :: nat where
  "atbm_dtim_virtual_linkid = WLAN_LINK_ID_MAX - 2"

definition WSM_NEED_TX_CONFIRM :: u32 where
  "WSM_NEED_TX_CONFIRM = BIT 8"

definition WSM_TX_IF_ID :: "u16 \<Rightarrow> u16" where
  "WSM_TX_IF_ID if_id = push_bit 6 (if_id AND 0x0F)"

definition IEEE80211_FCTL_MOREDATA :: u16 where
  "IEEE80211_FCTL_MOREDATA = 0x2000"

definition set_queue :: "nat \<Rightarrow> atbm_queue \<Rightarrow> tx_hw \<Rightarrow> tx_hw" where
  "set_queue i q h = h\<lparr>th_queues := (th_queues h)[i := q]\<rparr>"

definition set_vif :: "nat \<Rightarrow> tx_vif \<Rightarrow> tx_hw \<Rightarrow> tx_hw" where
  "set_vif i v h = h\<lparr>th_vifs := (th_vifs h)[i := Some v]\<rparr>"

definition set_buf :: "nat \<Rightarrow> (tx_buf \<Rightarrow> tx_buf) \<Rightarrow> tx_hw \<Rightarrow> tx_hw" where
  "set_buf skb f h = h\<lparr>th_bufs := (th_bufs h)(skb := f (th_bufs h skb))\<rparr>"

section \<open>The choice of an access category\<close>

definition prandom_u32 :: "tx_hw \<Rightarrow> u32 \<times> tx_hw" where
  "prandom_u32 h = (th_random h (th_random_pos h), h\<lparr>th_random_pos := th_random_pos h + 1\<rparr>)"

definition edca_score :: "wsm_edca_queue_params \<Rightarrow> u32 \<Rightarrow> u32" where
  "edca_score edca random = push_bit 16 (ucast (ep_aifns edca) + ucast (ep_cwMin edca)) +
     (ucast (ep_cwMax edca) - ucast (ep_cwMin edca)) * (random AND 0xFFFF)"

definition num_queued :: "tx_vif \<Rightarrow> nat \<Rightarrow> u32 \<Rightarrow> tx_hw \<Rightarrow> u32 option" where
  "num_queued v i link_id_map h = do {
     q \<leftarrow> rd (th_queues h) i;
     atbm_queue_get_num_queued q (th_stats h) (vf_if_id v) link_id_map }"

fun prio_loop :: "tx_vif \<Rightarrow> u32 \<Rightarrow> nat list \<Rightarrow> nat option \<Rightarrow> u32 \<Rightarrow> int \<Rightarrow> tx_hw \<Rightarrow>
    (nat option \<times> int \<times> tx_hw) option" where
  "prio_loop v link_id_map [] winner best tot h = Some (winner, tot, h)"
| "prio_loop v link_id_map (i # is) winner best tot h = do {
     queued \<leftarrow> num_queued v i link_id_map h;
     if queued = 0 then prio_loop v link_id_map is winner best tot h
     else do {
       edca \<leftarrow> rd (vf_edca v) i;
       let (random, h) = prandom_u32 h;
       let score = edca_score edca random;
       let tot = tot + uint queued;
       if score < best \<and> (winner = None \<or> i \<noteq> 3)
       then prio_loop v link_id_map is (Some i) score tot h
       else prio_loop v link_id_map is winner best tot h } }"

definition urgent :: u32 where
  "urgent = BIT atbm_dtim_virtual_linkid OR BIT atbm_uapsd_virtual_linkid"

definition atbm_get_prio_queue :: "tx_vif \<Rightarrow> u32 \<Rightarrow> int \<Rightarrow> tx_hw \<Rightarrow> (nat option \<times> int \<times> tx_hw) option" where
  "atbm_get_prio_queue v link_id_map tot h = do {
     (winner, tot, h) \<leftarrow> prio_loop v link_id_map [0..<4] None (- 1) tot h;
     (case winner of
        None \<Rightarrow> Some (None, tot, h)
      | Some w \<Rightarrow>
          if 0 \<le> th_tx_burst_idx h \<and> int w \<noteq> th_tx_burst_idx h then do {
            urg \<leftarrow> num_queued v w (link_id_map AND urgent) h;
            if urg \<noteq> 0 then Some (Some w, tot, h)
            else do {
              burst \<leftarrow> num_queued v (nat (th_tx_burst_idx h)) link_id_map h;
              Some (Some (if burst \<noteq> 0 then nat (th_tx_burst_idx h) else w), tot, h) } }
          else Some (Some w, tot, h)) }"

definition unicast_mask :: "tx_vif \<Rightarrow> u32" where
  "unicast_mask v =
     (let m = NOT (vf_sta_asleep_mask v) OR BIT atbm_uapsd_virtual_linkid in
      if vf_sta_asleep_mask v \<noteq> 0
      then (m OR vf_pspoll_mask v) AND NOT (BIT atbm_dtim_virtual_linkid)
      else m OR BIT atbm_dtim_virtual_linkid)"

definition unicast_queue :: "tx_vif \<Rightarrow> bool \<Rightarrow> int \<Rightarrow> tx_hw \<Rightarrow> ((errno + nat \<times> u32) \<times> bool \<times> tx_hw) option" where
  "unicast_queue v more_mc tot h = do {
     (idx, tot, h) \<leftarrow> atbm_get_prio_queue v (unicast_mask v) tot h;
     Some (case idx of None \<Rightarrow> Inl ENOENT | Some i \<Rightarrow> Inr (i, unicast_mask v), more_mc, h) }"

definition wsm_get_tx_queue_and_mask :: "tx_vif \<Rightarrow> bool \<Rightarrow> tx_hw \<Rightarrow>
    ((errno + nat \<times> u32) \<times> bool \<times> tx_hw) option" where
  "wsm_get_tx_queue_and_mask v more_mc h =
     (if vf_tx_multicast v then do {
        let allowed = BIT atbm_dtim_virtual_linkid;
        (idx, tot, h) \<leftarrow> atbm_get_prio_queue v allowed 0 h;
        (case idx of
           Some i \<Rightarrow> Some (Inr (i, allowed), 1 < tot, h)
         | None \<Rightarrow> unicast_queue v more_mc tot h) }
      else unicast_queue v more_mc 0 h)"

section \<open>Whether a frame is sent or dropped\<close>

datatype tx_action = DoDrop | DoTx

text \<open>The second component: the frame goes out over the generic interface (\<open>offchannel_if_id\<close>).\<close>

definition tx_data_action :: "tx_vif \<Rightarrow> atbm_txpriv \<Rightarrow> tx_action \<times> bool" where
  "tx_data_action v txpriv = (case vf_mode v of
     NL80211_IFTYPE_STATION \<Rightarrow>
       (case vf_join_status v of
          JOIN_STATUS_STA \<Rightarrow> (DoTx, False)
        | JOIN_STATUS_STA_LISTEN \<Rightarrow> (DoTx, True)
        | _ \<Rightarrow> (DoDrop, False))
   | NL80211_IFTYPE_AP \<Rightarrow>
       if vf_join_status v = JOIN_STATUS_PASSIVE then (DoDrop, False)
       else if BIT (unat (tp_raw_link_id txpriv)) AND (BIT 0 OR vf_link_id_map v) = 0 then (DoDrop, False)
       else (DoTx, False)
   | NL80211_IFTYPE_MESH_POINT \<Rightarrow>
       if vf_join_status v = JOIN_STATUS_SIMPLE_MONITOR then (DoTx, True) else (DoDrop, False)
   | NL80211_IFTYPE_MONITOR \<Rightarrow>
       if vf_join_status v = JOIN_STATUS_SIMPLE_MONITOR then (DoTx, True) else (DoDrop, False)
   | _ \<Rightarrow> (DoDrop, False))"

text \<open>
  \<open>txpriv\<close> points into the slot that \<open>atbm_queue_get\<close> has just put at the end of the pending list.
\<close>

definition wsm_handle_tx_data :: "tx_vif \<Rightarrow> nat \<Rightarrow> atbm_txpriv \<Rightarrow> nat \<Rightarrow> tx_hw \<Rightarrow> (bool \<times> tx_hw) option" where
  "wsm_handle_tx_data v skb txpriv qi h = do {
     q \<leftarrow> rd (th_queues h) qi;
     let (action, generic) = tx_data_action v txpriv;
     let q = (if generic then mark_offchannel False q (last (q_pending q)) else q);
     (case action of
        DoDrop \<Rightarrow> do {
          (r, q, e) \<leftarrow> atbm_queue_remove q (th_env h) (tb_packetID (th_bufs h skb));
          ensure (r = Inr ());
          Some (True, set_queue qi q (h\<lparr>th_env := e\<rparr>)) }
      | DoTx \<Rightarrow>
          Some (False, set_queue qi q
            (if tb_htTxParameters (th_bufs h skb) AND WSM_NEED_TX_CONFIRM \<noteq> 0
             then h\<lparr>th_hw_noconfirm_tx := th_hw_noconfirm_tx h + 1\<rparr> else h))) }"

section \<open>The scheduler\<close>

text \<open>A string of C: the bytes before the first zero, which must be inside the array.\<close>

definition c_string :: "u8 list \<Rightarrow> u8 list option" where
  "c_string a = do { ensure (0 \<in> set a); Some (takeWhile (\<lambda>c. c \<noteq> 0) a) }"

fun is_prefix :: "'a list \<Rightarrow> 'a list \<Rightarrow> bool" where
  "is_prefix [] ys = True"
| "is_prefix (x # xs) [] = False"
| "is_prefix (x # xs) (y # ys) \<longleftrightarrow> x = y \<and> is_prefix xs ys"

fun strstr :: "'a list \<Rightarrow> 'a list \<Rightarrow> bool" where
  "strstr [] needle = is_prefix needle []"
| "strstr (y # ys) needle \<longleftrightarrow> is_prefix needle (y # ys) \<or> strstr ys needle"

definition set_more_data :: "tx_vif \<Rightarrow> tx_buf \<Rightarrow> tx_buf option" where
  "set_more_data v b = do {
     let b' = b\<lparr>tb_frame_control := tb_frame_control b OR IEEE80211_FCTL_MOREDATA\<rparr>;
     ssid \<leftarrow> c_string (vf_ssid v);
     if strstr ssid [0x36, 0x2e, 0x31, 0x2e, 0x31, 0x32]
     then Some (if tb_addr1_0 b AND 0x01 \<noteq> 0 then b' else b)
     else Some b' }"

text \<open>
  What one turn of the loop does: \<open>Inl (if_pending, more_mc)\<close> is \<open>continue\<close>, \<open>Inr None\<close> is \<open>break\<close> with
  nothing found, otherwise the frame, its length, the burst and the interface.
\<close>

type_synonym tx_choice = "(tx_ptr \<times> u32 \<times> int \<times> int) option"

definition serve_multicasts :: "bool \<Rightarrow> bool \<Rightarrow> nat \<Rightarrow> tx_vif \<Rightarrow> tx_hw \<Rightarrow> tx_vif \<times> tx_hw" where
  "serve_multicasts failed more_mc vi v h =
     (if vf_buffered_multicasts v \<and> (failed \<or> \<not> more_mc) \<and> (vf_tx_multicast v \<or> vf_sta_asleep_mask v = 0)
      then (let v' = v\<lparr>vf_buffered_multicasts := False, vf_tx_multicast := False\<rparr> in
            (v', set_vif vi v'
              (if vf_tx_multicast v then h\<lparr>th_multicast_stop_work := th_multicast_stop_work h @ [vi]\<rparr> else h)))
      else (v, h))"

text \<open>The interface in the header, the pending poll of the station answered, the length of the burst.\<close>

definition tx_if_id :: "tx_vif \<Rightarrow> atbm_txpriv \<Rightarrow> u16" where
  "tx_if_id v txpriv =
     (if tp_offchannel_if_id txpriv \<noteq> 0 then ucast (tp_offchannel_if_id txpriv) else of_nat (vf_if_id v))"

definition label_if_id :: "u16 \<Rightarrow> tx_buf \<Rightarrow> tx_buf" where
  "label_if_id if_id b = b\<lparr>tb_hdr_id := (tb_hdr_id b AND NOT (WSM_TX_IF_ID 0x0F)) OR WSM_TX_IF_ID if_id\<rparr>"

definition answer_pspoll :: "atbm_txpriv \<Rightarrow> tx_vif \<Rightarrow> tx_vif" where
  "answer_pspoll txpriv v =
     v\<lparr>vf_pspoll_mask := vf_pspoll_mask v AND NOT (BIT (unat (tp_raw_link_id txpriv)))\<rparr>"

definition tx_burst :: "tx_vif \<Rightarrow> nat \<Rightarrow> u32 \<Rightarrow> int \<Rightarrow> tx_hw \<Rightarrow> int option" where
  "tx_burst v qi allowed burst h = do {
     edca \<leftarrow> rd (vf_edca v) qi;
     if ep_txOpLimit edca \<noteq> 0
     then do { n \<leftarrow> num_queued v qi allowed h; Some (min burst (uint n + 1)) }
     else Some 1 }"

definition hand_over :: "nat \<Rightarrow> tx_vif \<Rightarrow> nat \<Rightarrow> u32 \<Rightarrow> bool \<Rightarrow> int \<Rightarrow> nat \<Rightarrow> tx_hw \<Rightarrow>
    ((tx_ptr \<times> u32 \<times> int \<times> int) \<times> tx_hw) option" where
  "hand_over vi v qi allowed more_mc burst skb h = do {
     q \<leftarrow> rd (th_queues h) qi;
     let txpriv = i_txpriv (q_pool q ! last (q_pending q));
     let h = set_buf skb (label_if_id (tx_if_id v txpriv)) h;
     let v = answer_pspoll txpriv v;
     let h = set_vif vi v h;
     burst \<leftarrow> tx_burst v qi allowed burst h;
     let h = h\<lparr>th_tx_burst_idx := (if 1 < burst then int qi else - 1)\<rparr>;
     b \<leftarrow> (if more_mc then set_more_data v (th_bufs h skb) else Some (th_bufs h skb));
     Some ((Skb_ptr skb, ucast (tb_hdr_len b), burst, int (vf_if_id v)), set_buf skb (\<lambda>_. b) h) }"

type_synonym tx_loop_state = "bool \<times> bool \<times> int \<times> tx_hw"

definition tx_frame :: "nat \<Rightarrow> tx_vif \<Rightarrow> nat \<Rightarrow> u32 \<Rightarrow> bool \<Rightarrow> int \<Rightarrow> tx_hw \<Rightarrow>
    (tx_loop_state + (tx_choice \<times> tx_hw)) option" where
  "tx_frame vi v qi allowed more_mc burst h = do {
     q \<leftarrow> rd (th_queues h) qi;
     (got, q, s, e) \<leftarrow> atbm_queue_get q (th_stats h) (th_env h) (int (vf_if_id v)) allowed;
     let h = set_queue qi q (h\<lparr>th_stats := s, th_env := e\<rparr>);
     (case got of
        Inl _ \<Rightarrow> Some (Inl (False, more_mc, burst, h))
      | Inr (skb, packetID, txpriv) \<Rightarrow> do {
          let h = set_buf skb (\<lambda>b. b\<lparr>tb_packetID := packetID\<rparr>) h;
          (handled, h) \<leftarrow> wsm_handle_tx_data v skb txpriv qi h;
          if handled then Some (Inl (False, more_mc, burst, h))
          else do {
            (found, h) \<leftarrow> hand_over vi v qi allowed more_mc burst skb h;
            Some (Inr (Some found, h)) } }) }"

fun tx_turn :: "tx_loop_state \<Rightarrow> (tx_loop_state + (tx_choice \<times> tx_hw)) option" where
  "tx_turn (if_pending, more_mc, burst, h) =
     (if th_tx_lock h \<noteq> 0 then Some (Inr (None, h))
      else if uint (th_numInpChBufs h) \<le> th_hw_bufs_used h then Some (Inr (None, h))
      else do {
        let vi = th_if_id_selected h;
        slot \<leftarrow> rd (th_vifs h) vi;
        let h = h\<lparr>th_if_id_selected := th_if_id_selected h XOR 1\<rparr>;
        (case slot of
           None \<Rightarrow> Some (if if_pending then Inl (False, more_mc, burst, h) else Inr (None, h))
         | Some v \<Rightarrow>
             if \<not> vf_enabled v then Some (Inr (None, h))
             else do {
               (ret, more_mc, h) \<leftarrow> wsm_get_tx_queue_and_mask v more_mc h;
               let (v, h) = serve_multicasts (isl ret) more_mc vi v h;
               (case ret of
                  Inl _ \<Rightarrow> Some (if if_pending then Inl (False, more_mc, burst, h) else Inr (None, h))
                | Inr (qi, allowed) \<Rightarrow> tx_frame vi v qi allowed more_mc burst h) }) })"

text \<open>Saved buffers and commands go first; \<open>burst\<close> is what the caller's variable holds.\<close>

definition wsm_get_tx :: "int \<Rightarrow> tx_hw \<Rightarrow> (tx_choice \<times> tx_hw) option" where
  "wsm_get_tx burst h = (case th_save_buf h of
     Some p \<Rightarrow>
       Some (if th_save_buf_vif_selected h = - 1 \<or> th_tx_lock h = 0
             then (Some (p, th_save_buf_len h, 1, th_save_buf_vif_selected h),
                   h\<lparr>th_save_buf := None, th_save_buf_len := 0, th_save_buf_vif_selected := - 1\<rparr>)
             else (None, h))
   | None \<Rightarrow> (case cm_ptr (th_cmd h) of
       Some p \<Rightarrow> Some (Some (p, cm_len (th_cmd h), 1, - 1), h)
     | None \<Rightarrow> loop_until tx_turn (True, False, burst, h)))"

definition wsm_txed :: "tx_ptr \<Rightarrow> tx_hw \<Rightarrow> bool \<times> tx_hw" where
  "wsm_txed data h =
     (if cm_ptr (th_cmd h) = Some data
      then (True, h\<lparr>th_cmd := (th_cmd h)\<lparr>cm_last_send_cmd := cm_cmd (th_cmd h), cm_ptr := None\<rparr>\<rparr>)
      else (False, h))"

end
