(* ===== verification/Sdio_Tx.thy ===== *)
theory Sdio_Tx
  imports Tx_Sched
begin

text \<open>
  Transmission over SDIO (\<open>hal_apollo/bh_sdio.c\<close>, \<open>hal_apollo/util.c\<close>), configured with
  \<open>CONFIG_TX_NO_CONFIRM\<close> and \<open>CONFIG_ATBM_SDIO_TX_HOLD\<close>: frames are collected into one transfer; a frame
  for which no confirmation was asked is given back as soon as it has been copied. How many buffers the
  firmware has free comes from a register that counts the transfers it has taken.

  What the hardware answers is an argument: \<open>bs_reads\<close> gives the value of each read of the register
  (\<open>None\<close> a failed read), \<open>bs_writes\<close> whether each transfer succeeds.
\<close>

section \<open>State\<close>

record bus =
  bs_hw :: tx_hw
  bs_hw_bufs_free :: int
  bs_hw_bufs_free_init :: int
  bs_n_xmits :: u32
  bs_hw_xmits :: u32
  bs_wsm_tx_seq :: int
  bs_sizeInpChBuf :: u16
  bs_wsm_txframe_num :: u32
  bs_buf_id_offset :: nat
  bs_bh_tx :: nat
  bs_bh_halt :: nat
  bs_bh_error :: bool
  bs_plugged :: bool
  bs_reads :: "nat \<Rightarrow> u32 option"
  bs_read_pos :: nat
  bs_writes :: "nat \<Rightarrow> bool"
  bs_write_pos :: nat
  bs_xmit_buff :: "(nat \<times> tx_ptr) list"
  bs_sent :: "(tx_ptr list \<times> nat) list"

definition SDIO_TX_MAXLEN :: nat where
  "SDIO_TX_MAXLEN = 4096 * 8"

definition SDIO_BLOCK_SIZE :: nat where
  "SDIO_BLOCK_SIZE = 256"

definition WSM_TX_SEQ_MAX :: int where
  "WSM_TX_SEQ_MAX = 7"

definition WSM_TX_SEQ :: "int \<Rightarrow> u16" where
  "WSM_TX_SEQ n = push_bit 13 (word_of_int n AND 7)"

definition WSM_FIRMWARE_CHECK_ID :: u16 where
  "WSM_FIRMWARE_CHECK_ID = 0x0002"

definition WSM_TRANSMIT_REQ_MSG_ID :: u16 where
  "WSM_TRANSMIT_REQ_MSG_ID = 0x0004"

definition IEEE80211_TX_STAT_ACK :: u32 where
  "IEEE80211_TX_STAT_ACK = BIT 9"

definition on_hw :: "(tx_hw \<Rightarrow> tx_hw) \<Rightarrow> bus \<Rightarrow> bus" where
  "on_hw f b = b\<lparr>bs_hw := f (bs_hw b)\<rparr>"

section \<open>Counting the firmware's buffers\<close>

definition wsm_alloc_tx_buffer :: "tx_hw \<Rightarrow> tx_hw" where
  "wsm_alloc_tx_buffer h = h\<lparr>th_hw_bufs_used := th_hw_bufs_used h + 1\<rparr>"

text \<open>The result says whether a stalled transmission is to be started again.\<close>

definition wsm_release_tx_buffer :: "int \<Rightarrow> tx_hw \<Rightarrow> int \<times> tx_hw" where
  "wsm_release_tx_buffer n h =
     (let used = th_hw_bufs_used h - n in
      if used < 0 then (0, h\<lparr>th_hw_bufs_used := 0\<rparr>)
      else (if uint (th_numInpChBufs h) - 1 \<le> th_hw_bufs_used h then 1 else 0, h\<lparr>th_hw_bufs_used := used\<rparr>))"

definition wsm_release_vif_tx_buffer :: "nat \<Rightarrow> int \<Rightarrow> tx_hw \<Rightarrow> tx_hw option" where
  "wsm_release_vif_tx_buffer if_id n h = do {
     c \<leftarrow> rd (th_hw_bufs_used_vif h) if_id;
     cs \<leftarrow> wr (th_hw_bufs_used_vif h) if_id (if c - n < 0 then 0 else c - n);
     Some (h\<lparr>th_hw_bufs_used_vif := cs\<rparr>) }"

definition atbm_bh_is_term :: "bus \<Rightarrow> bool" where
  "atbm_bh_is_term b \<longleftrightarrow> bs_bh_error b \<or> \<not> bs_plugged b"

definition atbm_bh_halt :: "bus \<Rightarrow> bus" where
  "atbm_bh_halt b =
     (let b' = b\<lparr>bs_bh_halt := bs_bh_halt b + 1\<rparr> in
      if bs_bh_halt b = 0 then b'\<lparr>bs_plugged := False\<rparr> else b')"

text \<open>
  The register is compared with the number of transfers made; \<open>n_xmits\<close> and the register are 32 bits
  wide and compared as signed numbers. \<open>hw_bufs_free\<close> is compared with an unsigned number.
\<close>

definition enough_free :: "bus \<Rightarrow> u32 \<Rightarrow> bool" where
  "enough_free b n \<longleftrightarrow> n \<le> word_of_int (bs_hw_bufs_free b)"

definition update_free :: "u32 \<Rightarrow> u32 \<Rightarrow> bus \<Rightarrow> bool \<times> bus" where
  "update_free n hw_xmited b =
     (let d = bs_n_xmits b - hw_xmited in
      if sint (bs_n_xmits b) < sint hw_xmited \<or> uint (th_numInpChBufs (bs_hw b)) < sint d \<or> sint d < 0
      then (False, b)
      else (let free = sint (ucast (th_numInpChBufs (bs_hw b)) - d);
                b = b\<lparr>bs_hw_xmits := hw_xmited, bs_hw_bufs_free := free, bs_hw_bufs_free_init := free\<rparr> in
            (enough_free b n, b)))"

definition atbm_direct_read :: "bus \<Rightarrow> u32 option \<times> bus" where
  "atbm_direct_read b = (bs_reads b (bs_read_pos b), b\<lparr>bs_read_pos := bs_read_pos b + 1\<rparr>)"

definition MAX_LOOP_POLL_CNT :: nat where
  "MAX_LOOP_POLL_CNT = 2 * 3000"

primrec wait_loop :: "nat \<Rightarrow> u32 \<Rightarrow> bus \<Rightarrow> bool \<times> bus" where
  "wait_loop 0 n b = (False, b)"
| "wait_loop (Suc k) n b =
     (if atbm_bh_is_term b then (False, b)
      else (case atbm_direct_read b of
          (None, b) \<Rightarrow> (False, b)
        | (Some hw_xmited, b) \<Rightarrow>
            (case update_free n hw_xmited b of
               (True, b) \<Rightarrow> (True, b)
             | (False, b) \<Rightarrow> wait_loop k n b)))"

definition atbm_sdio_wait_enough_space :: "u32 \<Rightarrow> bus \<Rightarrow> bool \<times> bus" where
  "atbm_sdio_wait_enough_space n b =
     (if enough_free b n then (True, b) else wait_loop MAX_LOOP_POLL_CNT n b)"

definition MAX_POOL_BUFF_NUM :: nat where
  "MAX_POOL_BUFF_NUM = 4"

primrec pool_loop :: "nat \<Rightarrow> u32 \<Rightarrow> bus \<Rightarrow> bool \<times> bus" where
  "pool_loop 0 n b = (False, b)"
| "pool_loop (Suc k) n b =
     (case atbm_direct_read b of
        (None, b) \<Rightarrow> (False, b)
      | (Some hw_xmited, b) \<Rightarrow>
          (case update_free n hw_xmited b of
             (True, b) \<Rightarrow> (True, b)
           | (False, b) \<Rightarrow> pool_loop k n b))"

definition atbm_sdio_have_enough_space :: "u32 \<Rightarrow> bus \<Rightarrow> bool \<times> bus" where
  "atbm_sdio_have_enough_space n b =
     (if enough_free b n then (True, b)
      else if atbm_bh_is_term b then (True, b\<lparr>bs_hw_bufs_free := sint n\<rparr>)
      else pool_loop MAX_POOL_BUFF_NUM n b)"

section \<open>Giving a frame back\<close>

text \<open>The frame counts as acknowledged at its first rate.\<close>

definition report_acked :: "tx_buf \<Rightarrow> tx_buf option" where
  "report_acked b = do {
     ensure (length (tb_rates b) = 5);
     Some (b\<lparr>tb_flags := tb_flags b OR IEEE80211_TX_STAT_ACK,
             tb_rates := (fst (tb_rates b ! 0), 1) # replicate 4 (- 1, 0)\<rparr>) }"

definition queue_by_packet :: "tx_hw \<Rightarrow> u32 \<Rightarrow> (nat \<times> atbm_queue) option" where
  "queue_by_packet h packetID = do {
     let queue_id = unat (atbm_queue_get_queue_id packetID);
     ensure (queue_id < 4);
     q \<leftarrow> rd (th_queues h) queue_id;
     Some (queue_id, q) }"

definition give_back :: "u32 \<Rightarrow> tx_hw \<Rightarrow> tx_hw option" where
  "give_back packetID h = do {
     (qi, q) \<leftarrow> queue_by_packet h packetID;
     r \<leftarrow> atbm_queue_get_skb q packetID;
     (case r of
        Inr (Some skb, txpriv) \<Rightarrow> do {
          h \<leftarrow> wsm_release_vif_tx_buffer (unat (tp_if_id txpriv)) 1 h;
          let h = snd (wsm_release_tx_buffer 1 h);
          b \<leftarrow> report_acked (th_bufs h skb);
          let h = set_buf skb (\<lambda>_. b) h;
          (r, q, e) \<leftarrow> atbm_queue_remove q (th_env h) packetID;
          Some (set_queue qi q (h\<lparr>th_env := e\<rparr>)) }
      | Inr (None, txpriv) \<Rightarrow> None
      | Inl _ \<Rightarrow> do {
          h \<leftarrow> wsm_release_vif_tx_buffer (unat (atbm_queue_get_if_id packetID)) 1 h;
          Some (snd (wsm_release_tx_buffer 1 h)) }) }"

text \<open>The result is 1 when the frame has been given back.\<close>

definition atbm_sdio_free_tx_wsm :: "tx_ptr \<Rightarrow> tx_hw \<Rightarrow> (int \<times> tx_hw) option" where
  "atbm_sdio_free_tx_wsm p h = (case p of
     Skb_ptr skb \<Rightarrow>
       if tb_htTxParameters (th_bufs h skb) AND WSM_NEED_TX_CONFIRM = 0
       then do { h \<leftarrow> give_back (tb_packetID (th_bufs h skb)) h; Some (1, h) }
       else Some (0, h)
   | Cmd_ptr _ \<Rightarrow> None)"

definition cmd_failed :: "tx_hw \<Rightarrow> tx_hw" where
  "cmd_failed h =
     (if cm_cmd (th_cmd h) \<noteq> 0xFFFF
      then h\<lparr>th_cmd := (th_cmd h)\<lparr>cm_ret := - 1, cm_done := True, cm_cmd := 0xFFFF, cm_ptr := None\<rparr>\<rparr>
      else h)"

definition wsm_id_of :: "tx_ptr \<Rightarrow> tx_hw \<Rightarrow> u16" where
  "wsm_id_of p h = (case p of Skb_ptr skb \<Rightarrow> tb_hdr_id (th_bufs h skb) | Cmd_ptr _ \<Rightarrow> cm_last_send_cmd (th_cmd h)) AND 0x3F"

definition atbm_sdio_force_free_wsm :: "tx_ptr option \<Rightarrow> tx_hw \<Rightarrow> tx_hw option" where
  "atbm_sdio_force_free_wsm need_confirm h = (case need_confirm of
     None \<Rightarrow> Some h
   | Some p \<Rightarrow>
       if wsm_id_of p h = WSM_FIRMWARE_CHECK_ID then Some (snd (wsm_release_tx_buffer 1 h))
       else if wsm_id_of p h = WSM_TRANSMIT_REQ_MSG_ID then
         (case p of Skb_ptr skb \<Rightarrow> give_back (tb_packetID (th_bufs h skb)) h | Cmd_ptr _ \<Rightarrow> None)
       else Some (cmd_failed (snd (wsm_release_tx_buffer 1 h))))"

section \<open>Collecting a transfer\<close>

definition aligned_len :: "nat \<Rightarrow> nat" where
  "aligned_len len =
     (let len = (if len \<le> 8 then 16 else len) in
      if len mod SDIO_BLOCK_SIZE \<noteq> 0 then len - len mod SDIO_BLOCK_SIZE + SDIO_BLOCK_SIZE else len)"

text \<open>The length in the header of what is sent: a command's is stored in 16 bits.\<close>

definition header_len :: "tx_ptr \<Rightarrow> tx_hw \<Rightarrow> u32" where
  "header_len p h = (case p of
     Skb_ptr skb \<Rightarrow> ucast (tb_hdr_len (th_bufs h skb))
   | Cmd_ptr _ \<Rightarrow> ucast (ucast (cm_len (th_cmd h)) :: u16))"

definition set_seq :: "tx_ptr \<Rightarrow> int \<Rightarrow> tx_hw \<Rightarrow> tx_hw" where
  "set_seq p n h = (case p of
     Skb_ptr skb \<Rightarrow> set_buf skb (\<lambda>b. b\<lparr>tb_hdr_id := (tb_hdr_id b AND NOT (WSM_TX_SEQ WSM_TX_SEQ_MAX)) OR WSM_TX_SEQ n\<rparr>) h
   | Cmd_ptr _ \<Rightarrow> h)"

text \<open>One buffer of the firmware is taken.\<close>

definition take_credit :: "int \<Rightarrow> bus \<Rightarrow> bus option" where
  "take_credit vif_selected b = do {
     let b = on_hw wsm_alloc_tx_buffer b;
     ensure (0 < bs_hw_bufs_free b);
     let b = b\<lparr>bs_n_xmits := bs_n_xmits b + 1, bs_hw_bufs_free := bs_hw_bufs_free b - 1\<rparr>;
     ensure (0 \<le> bs_hw_bufs_free b);
     if vif_selected \<noteq> - 1 then do {
       ensure (0 \<le> vif_selected);
       cs \<leftarrow> upd (th_hw_bufs_used_vif (bs_hw b)) (nat vif_selected) (\<lambda>c. c + 1);
       Some (on_hw (\<lambda>h. h\<lparr>th_hw_bufs_used_vif := cs\<rparr>) b) }
     else Some b }"

text \<open>\<open>xmit_buff\<close> keeps what was copied to which place; the copy must fit.\<close>

definition copy_frame :: "tx_ptr \<Rightarrow> nat \<Rightarrow> nat \<Rightarrow> bus \<Rightarrow> bus option" where
  "copy_frame p len putLen b = do {
     ensure (putLen + len \<le> SDIO_TX_MAXLEN);
     Some (b\<lparr>bs_xmit_buff := bs_xmit_buff b @ [(putLen, p)]\<rparr>) }"

text \<open>
  The \<open>do\<close> loop. State: the number of frames collected, the length collected, the burst variable of
  the caller. It leaves with the state, the last answer about space, and what still needs a confirmation.
\<close>

type_synonym collect_state = "nat \<times> nat \<times> int \<times> bus"
datatype collect_end = Xmit_wait | Xmit_finished | Xmit_data bool "tx_ptr option"

fun collect_turn :: "collect_state \<Rightarrow> (collect_state + (collect_end \<times> collect_state)) option" where
  "collect_turn (cnt, putLen, burst, b) = (case atbm_sdio_have_enough_space 1 b of
     (False, b) \<Rightarrow> Some (Inr (if 0 < cnt then Xmit_data False None else Xmit_wait, cnt, putLen, burst, b))
   | (True, b) \<Rightarrow> do {
       (c, h) \<leftarrow> wsm_get_tx burst (bs_hw b);
       let b = b\<lparr>bs_hw := h\<rparr>;
       (case c of
          None \<Rightarrow> Some (Inr (if 0 < cnt then Xmit_data True None else Xmit_finished, cnt, putLen, burst, b))
        | Some (p, len, burst, vif_selected) \<Rightarrow> do {
            let cnt = cnt + 1;
            ensure (8 \<le> unat len);
            ensure (header_len p h = len);
            let tx_len = aligned_len (unat len);
            let b = on_hw (set_seq p (bs_wsm_tx_seq b)) b;
            b \<leftarrow> take_credit vif_selected b;
            b \<leftarrow> copy_frame p (unat len) putLen b;
            let putLen = putLen + tx_len;
            let b = b\<lparr>bs_wsm_tx_seq := (bs_wsm_tx_seq b + 1) AND WSM_TX_SEQ_MAX\<rparr>;
            let (txed, h) = wsm_txed p (bs_hw b);
            if txed then Some (Inr (Xmit_data True (Some p), cnt, putLen, burst, b\<lparr>bs_hw := h\<rparr>))
            else do {
              (freed, h) \<leftarrow> atbm_sdio_free_tx_wsm p h;
              let b = b\<lparr>bs_hw := h, bs_wsm_txframe_num := bs_wsm_txframe_num b + 1\<rparr>;
              if freed = 0 then Some (Inr (Xmit_data True (Some p), cnt, putLen, burst, b))
              else if SDIO_TX_MAXLEN < putLen + unat (bs_sizeInpChBuf b)
              then Some (Inr (Xmit_data True None, cnt, putLen, burst, b))
              else Some (Inl (cnt, putLen, burst, b)) } }) })"

section \<open>The transmit half of the bottom half\<close>

definition atbm_data_write :: "nat \<Rightarrow> bus \<Rightarrow> bool \<times> bus" where
  "atbm_data_write putLen b =
     (bs_writes b (bs_write_pos b),
      b\<lparr>bs_write_pos := bs_write_pos b + 1,
        bs_sent := (if bs_writes b (bs_write_pos b) then bs_sent b @ [(map snd (bs_xmit_buff b), putLen)] else bs_sent b)\<rparr>)"

definition xmit_err :: "tx_ptr option \<Rightarrow> bus \<Rightarrow> bus option" where
  "xmit_err need_confirm b = do {
     h \<leftarrow> atbm_sdio_force_free_wsm need_confirm (bs_hw b);
     Some (atbm_bh_halt (b\<lparr>bs_hw := h\<rparr>)) }"

text \<open>What follows \<open>xmit_wait\<close>; afterwards the next transfer is collected.\<close>

definition xmit_wait :: "bool \<Rightarrow> tx_ptr option \<Rightarrow> bus \<Rightarrow> bus option" where
  "xmit_wait enough need_confirm b =
     (if enough then Some b
      else (case atbm_sdio_wait_enough_space 1 b of
          (True, b) \<Rightarrow> Some b
        | (False, b) \<Rightarrow> xmit_err need_confirm b))"

fun bh_turn :: "int \<times> bus \<Rightarrow> ((int \<times> bus) + bus) option" where
  "bh_turn (burst, b) = do {
     (r, cnt, putLen, burst, b) \<leftarrow> loop_until collect_turn (0, 0, burst, b\<lparr>bs_xmit_buff := []\<rparr>);
     (case r of
        Xmit_finished \<Rightarrow> Some (Inr b)
      | Xmit_wait \<Rightarrow> do { b \<leftarrow> xmit_wait False None b; Some (Inl (burst, b)) }
      | Xmit_data enough need_confirm \<Rightarrow> do {
          ensure (putLen \<noteq> 0);
          let b = b\<lparr>bs_buf_id_offset := cnt, bs_bh_tx := bs_bh_tx b + 1\<rparr>;
          if atbm_bh_is_term b then do {
            h \<leftarrow> atbm_sdio_force_free_wsm need_confirm (bs_hw b);
            Some (Inl (burst, b\<lparr>bs_hw := h\<rparr>)) }
          else (case atbm_data_write putLen b of
              (True, b) \<Rightarrow> do { b \<leftarrow> xmit_wait enough need_confirm b; Some (Inl (burst, b)) }
            | (False, b) \<Rightarrow> do { b \<leftarrow> xmit_err need_confirm b; Some (Inl (burst, b)) }) }) }"

text \<open>\<open>burst\<close> is the value that the uninitialised variable \<open>tx_burst\<close> happens to have.\<close>

definition atbm_sdio_tx_bh :: "int \<Rightarrow> bus \<Rightarrow> bus option" where
  "atbm_sdio_tx_bh burst b = loop_until bh_turn (burst, b)"

end
