(* ===== verification/Tx_Confirm.thy ===== *)
theory Tx_Confirm
  imports Sdio_Tx Frame
begin

text \<open>
  What the firmware reports about frames for which a confirmation was asked (\<open>hal_apollo/wsm.c\<close>,
  \<open>wsm_tx_confirm\<close> and \<open>wsm_multi_tx_confirm\<close>; \<open>hal_apollo/txrx.c\<close>, \<open>atbm_tx_confirm_cb\<close>), in the configuration of
  \<open>Tx_Sched\<close>. A failed EAPOL frame is queued again, twice at most; any other frame is given back. Counters
  for statistics and the wake-up of the bottom half are left out.
\<close>

section \<open>Reading a message\<close>

text \<open>\<open>None\<close>: the bytes end too early (\<open>goto underflow\<close>).\<close>

fun WSM_GET8 :: "u8 list \<Rightarrow> (u8 \<times> u8 list) option" where
  "WSM_GET8 (a # buf) = Some (a, buf)"
| "WSM_GET8 buf = None"

fun WSM_GET16 :: "u8 list \<Rightarrow> (u16 \<times> u8 list) option" where
  "WSM_GET16 (a # b # buf) = Some (le16 a b, buf)"
| "WSM_GET16 buf = None"

fun WSM_GET32 :: "u8 list \<Rightarrow> (u32 \<times> u8 list) option" where
  "WSM_GET32 (a # b # c # d # buf) = Some (le32 a b c d, buf)"
| "WSM_GET32 buf = None"

record tx_confirm =
  tc_packetID :: u32
  tc_status :: u32
  tc_txedRate :: u8
  tc_ackFailures :: u8
  tc_flags :: u16
  tc_mediaDelay :: u32
  tc_txQueueDelay :: u32
  tc_if_id :: u8
  tc_link_id :: u8

definition get_tx_confirm :: "u8 list \<Rightarrow> (tx_confirm \<times> u8 list) option" where
  "get_tx_confirm buf = do {
     (packetID, buf) \<leftarrow> WSM_GET32 buf;
     (status, buf) \<leftarrow> WSM_GET32 buf;
     (txedRate, buf) \<leftarrow> WSM_GET8 buf;
     (ackFailures, buf) \<leftarrow> WSM_GET8 buf;
     (flags, buf) \<leftarrow> WSM_GET16 buf;
     (mediaDelay, buf) \<leftarrow> WSM_GET32 buf;
     (txQueueDelay, buf) \<leftarrow> WSM_GET32 buf;
     Some (\<lparr>tc_packetID = packetID, tc_status = status, tc_txedRate = txedRate, tc_ackFailures = ackFailures,
            tc_flags = flags, tc_mediaDelay = mediaDelay, tc_txQueueDelay = txQueueDelay,
            tc_if_id = atbm_queue_get_if_id packetID, tc_link_id = atbm_queue_get_link_id packetID\<rparr>, buf) }"

section \<open>One confirmation\<close>

definition ETH_P_PAE :: u16 where
  "ETH_P_PAE = 0x888E"

text \<open>The interface that a confirmation names, unless it is stopped; the array has three slots.\<close>

definition confirm_vif :: "u8 \<Rightarrow> tx_hw \<Rightarrow> tx_vif option option" where
  "confirm_vif if_id h =
     (if ATBM_WIFI_MAX_VIFS < unat if_id then Some None
      else do {
        slot \<leftarrow> rd (th_vifs h) (unat if_id);
        Some (case slot of
            None \<Rightarrow> None
          | Some v \<Rightarrow> if vf_mode v = NL80211_IFTYPE_UNSPECIFIED then None else Some v) })"

text \<open>A failed EAPOL frame is tried again; \<open>None\<close> is a missing buffer.\<close>

definition retry_eapol :: "tx_confirm \<Rightarrow> nat option \<Rightarrow> tx_hw \<Rightarrow> bool option" where
  "retry_eapol c skb h =
     (if tc_status c = 0 \<or> 2 \<le> unat (atbm_queue_get_generation (tc_packetID c)) then Some False
      else do { s \<leftarrow> skb; Some (tb_protocol (th_bufs h s) = ETH_P_PAE) })"

definition mark_acked :: "tx_confirm \<Rightarrow> nat option \<Rightarrow> tx_hw \<Rightarrow> tx_hw option" where
  "mark_acked c skb h =
     (if tc_status c \<noteq> 0 then Some h
      else do { s \<leftarrow> skb; Some (set_buf s (\<lambda>b. b\<lparr>tb_flags := tb_flags b OR IEEE80211_TX_STAT_ACK\<rparr>) h) })"

definition atbm_tx_confirm_cb :: "tx_confirm \<Rightarrow> tx_hw \<Rightarrow> tx_hw option" where
  "atbm_tx_confirm_cb c h = do {
     vif \<leftarrow> confirm_vif (tc_if_id c) h;
     let qi = unat (atbm_queue_get_queue_id (tc_packetID c));
     if vif = None \<or> 4 \<le> qi then Some h
     else do {
       q \<leftarrow> rd (th_queues h) qi;
       r \<leftarrow> atbm_queue_get_skb q (tc_packetID c);
       (case r of
          Inl _ \<Rightarrow> Some h
        | Inr (skb, txpriv) \<Rightarrow> do {
            again \<leftarrow> retry_eapol c skb h;
            if again then do {
              (_, q, s, e) \<leftarrow> atbm_queue_requeue q (th_stats h) (th_env h) (tc_packetID c) True;
              Some (set_queue qi q (h\<lparr>th_stats := s, th_env := e\<rparr>)) }
            else do {
              h \<leftarrow> mark_acked c skb h;
              (_, q, e) \<leftarrow> atbm_queue_remove q (th_env h) (tc_packetID c);
              Some (set_queue qi q (h\<lparr>th_env := e\<rparr>)) } }) } }"

definition wsm_tx_confirm :: "u8 list \<Rightarrow> tx_hw \<Rightarrow> ((errno + u8 list) \<times> tx_hw) option" where
  "wsm_tx_confirm buf h = (case get_tx_confirm buf of
     None \<Rightarrow> Some (Inl EINVAL, h)
   | Some (c, buf) \<Rightarrow> do {
       h \<leftarrow> wsm_release_vif_tx_buffer (unat (tc_if_id c)) 1 h;
       h \<leftarrow> atbm_tx_confirm_cb c h;
       Some (Inr buf, h) })"

section \<open>Several in one message\<close>

primrec confirm_loop :: "nat \<Rightarrow> u8 list \<Rightarrow> tx_hw \<Rightarrow> ((errno + u8 list) \<times> tx_hw) option" where
  "confirm_loop 0 buf h = Some (Inr buf, h)"
| "confirm_loop (Suc n) buf h = do {
     (r, h) \<leftarrow> wsm_tx_confirm buf h;
     (case r of Inl err \<Rightarrow> Some (Inl err, h) | Inr buf \<Rightarrow> confirm_loop n buf h) }"

definition wsm_multi_tx_confirm :: "u8 list \<Rightarrow> tx_hw \<Rightarrow> ((errno + u8 list) \<times> tx_hw) option" where
  "wsm_multi_tx_confirm buf h = (case WSM_GET32 buf of
     None \<Rightarrow> Some (Inl EINVAL, h)
   | Some (n, buf) \<Rightarrow>
       if sint n \<le> 0 then Some (Inl EINVAL, h)
       else confirm_loop (nat (sint n)) buf
         (if 1 < sint n then snd (wsm_release_tx_buffer (sint n - 1) h) else h))"

text \<open>
  A message of the firmware that answers a request frees one buffer (\<open>atbm_rx_directly\<close>), whatever it holds;
  then \<open>wsm_handle_rx\<close> reads it. Here for the two messages that confirm frames.
\<close>

definition WSM_TX_REQ_ID :: u16 where
  "WSM_TX_REQ_ID = 0x0404"

definition WSM_LEGACY_MULTI_TX_CNF_ID :: u16 where
  "WSM_LEGACY_MULTI_TX_CNF_ID = 0x041E"

definition rx_credit :: "u16 \<Rightarrow> tx_hw \<Rightarrow> tx_hw" where
  "rx_credit wsm_id h = (if wsm_id AND 0x0400 \<noteq> 0 then snd (wsm_release_tx_buffer 1 h) else h)"

definition rx_tx_confirm :: "bool \<Rightarrow> u8 list \<Rightarrow> tx_hw \<Rightarrow> ((errno + u8 list) \<times> tx_hw) option" where
  "rx_tx_confirm multi buf h =
     (if multi then wsm_multi_tx_confirm buf (rx_credit WSM_LEGACY_MULTI_TX_CNF_ID h)
      else wsm_tx_confirm buf (rx_credit WSM_TX_REQ_ID h))"

end
