(* ===== verification/Tx_Sched_Inv.thy ===== *)
theory Tx_Sched_Inv
  imports Tx_Sched Queue_Runs
begin

text \<open>
  The scheduler returns, keeps the invariant of the queues and hands out only what it may.
\<close>

section \<open>Frames that wait\<close>

definition sendable :: "atbm_queue \<Rightarrow> nat \<Rightarrow> u32 \<Rightarrow> nat" where
  "sendable q v m = length (filter (get_matches q (int v) m) (q_queue q))"

lemma sum_indicator: "l < n \<Longrightarrow> sum_list (map (\<lambda>i. if i = l then c else 0) [0..<n]) = (c :: 'a :: comm_monoid_add)"
proof (induction n)
  case (Suc n)
  have "sum_list (map (\<lambda>i. if i = n then c else 0) [0..<n]) = 0"
    by (subst map_cong [OF refl, where g = "\<lambda>_. 0"]) auto
  with Suc show ?case by (cases "l = n") (auto simp: less_Suc_eq)
qed simp

lemma link_sum:
  assumes "\<forall>i \<in> set xs. link_of (pool ! i) < n"
  shows "sum_list (map (\<lambda>l. if P l then of_nat (icount (in_link v l) pool xs) else 0) [0..<n]) =
     (of_nat (length (filter (\<lambda>i. vif_of (pool ! i) = v \<and> P (link_of (pool ! i))) xs)) :: u32)"
  using assms
proof (induction xs)
  case (Cons i xs)
  let ?c = "if vif_of (pool ! i) = v \<and> P (link_of (pool ! i)) then 1 else 0 :: u32"
  have "sum_list (map (\<lambda>l. if P l then of_nat (icount (in_link v l) pool (i # xs)) else 0) [0..<n]) =
      sum_list (map (\<lambda>l. (if l = link_of (pool ! i) then ?c else 0) +
        (if P l then of_nat (icount (in_link v l) pool xs) else 0)) [0..<n])"
    by (rule arg_cong [where f = sum_list], rule map_cong) (auto simp: icount_Cons in_link_def)
  also have "\<dots> = ?c + of_nat (length (filter (\<lambda>i. vif_of (pool ! i) = v \<and> P (link_of (pool ! i))) xs))"
    using Cons by (simp add: sum_list_addf sum_indicator)
  finally show ?case by simp
qed (simp cong: if_cong)

lemma BIT_nz: "k < 32 \<Longrightarrow> push_bit k 1 \<noteq> (0 :: u32)"
proof
  assume "k < 32" "push_bit k 1 = (0 :: u32)"
  moreover from \<open>k < 32\<close> have "bit (push_bit k 1 :: u32) k" by (simp add: bit_simps)
  ultimately show False by simp
qed

lemma sendable_le: "slots_ok q \<Longrightarrow> sendable q v m \<le> 256"
  using slots_lengths [of q] length_filter_le [of "get_matches q (int v) m" "q_queue q"]
  unfolding sendable_def slots_ok_def by linarith

lemma get_num_queued_sendable:
  assumes inv: "queue_inv q" and st: "stats_ok s" and v: "v < 2"
  shows "atbm_queue_get_num_queued q s v m = Some (of_nat (sendable q v m))"
proof -
  have ci: "core_inv q" using inv by (simp add: queue_inv_def)
  have tp: "txpriv_ok (i_txpriv (q_pool q ! i))" if "i \<in> set (q_queue q)" for i
    using items_okD(1) [OF core_invD(6) [OF ci] that] by (simp add: item_ok_def)
  have l: "link_of (q_pool q ! i) < 17" if "i \<in> set (q_queue q)" for i
    using tp [OF that] by (simp add: txpriv_ok_def WLAN_LINK_ID_MAX_def)
  note nq = core_invD(3) [OF ci] and np = core_invD(4) [OF ci] and lm = core_invD(5) [OF ci]
  have gm: "get_matches q (int v) m i \<longleftrightarrow> vif_of (q_pool q ! i) = v \<and> m AND push_bit (link_of (q_pool q ! i)) 1 \<noteq> 0" for i
    unfolding get_matches_def by (simp only: of_nat_eq_iff)
  consider "m = 0" | "m \<noteq> 0" "m = - 1" | "m \<noteq> 0" "m \<noteq> - 1" by blast
  then show ?thesis
  proof cases
    case 1
    then have "filter (get_matches q (int v) m) (q_queue q) = []"
      unfolding filter_empty_conv gm by simp
    then have "sendable q v m = 0" by (simp add: sendable_def)
    with 1 show ?thesis by (simp add: atbm_queue_get_num_queued_def)
  next
    case 2
    then have g: "get_matches q (int v) m i \<longleftrightarrow> in_vif v (q_pool q ! i)" if "i \<in> set (q_queue q)" for i
      unfolding gm in_vif_def using l [OF that] BIT_nz [of "link_of (q_pool q ! i)"] 2 by simp
    have "sendable q v m = icount (in_vif v) (q_pool q) (q_queue q)"
      unfolding sendable_def icount_def by (rule arg_cong [where f = length], rule filter_cong) (use g in auto)
    then show ?thesis
      using 2 nq np v by (simp add: atbm_queue_get_num_queued_def vif_counts_def icount_append)
  next
    case 3
    have b: "v < length (q_link_map_cache q)" "length (q_link_map_cache q ! v) = 50"
      "\<And>k. k < 50 \<Longrightarrow> q_link_map_cache q ! v ! k = of_nat (icount (in_link v k) (q_pool q) (q_queue q))"
      using lm v by (simp_all add: link_counts_def)
    have "link_map_sum m (q_link_map_cache q ! v) [0..<17] =
        sum_list (map (\<lambda>k. if m AND push_bit k 1 \<noteq> 0 then of_nat (icount (in_link v k) (q_pool q) (q_queue q)) else 0) [0..<17])"
      unfolding link_map_sum_def by (rule arg_cong [where f = sum_list], rule map_cong) (auto simp: b(3))
    also have "\<dots> = of_nat (sendable q v m)"
      unfolding sendable_def gm [abs_def] by (rule link_sum) (use l in blast)
    finally show ?thesis
      using 3 b st by (simp add: atbm_queue_get_num_queued_def stats_ok_def WLAN_LINK_ID_MAX_def)
  qed
qed

section \<open>The invariant\<close>

definition vif_ok :: "nat \<Rightarrow> tx_vif \<Rightarrow> bool" where
  "vif_ok i v \<longleftrightarrow> vf_if_id v = i \<and> i < 2 \<and> length (vf_edca v) = 4 \<and> 0 \<in> set (vf_ssid v)"

definition vifs_ok :: "tx_vif option list \<Rightarrow> bool" where
  "vifs_ok vs \<longleftrightarrow> length vs = 3 \<and> (\<forall>i < 2. \<forall>v. vs ! i = Some v \<longrightarrow> vif_ok i v)"

definition sched_inv :: "tx_hw \<Rightarrow> bool" where
  "sched_inv h \<longleftrightarrow> queues_ok (th_queues h) (th_env h) \<and> stats_ok (th_stats h) \<and> vifs_ok (th_vifs h) \<and>
     th_if_id_selected h < 2 \<and> - 1 \<le> th_tx_burst_idx h \<and> th_tx_burst_idx h < 4"

lemma sched_invD:
  assumes "sched_inv h"
  shows "queues_ok (th_queues h) (th_env h)" "stats_ok (th_stats h)" "vifs_ok (th_vifs h)"
    "th_if_id_selected h < 2" "- 1 \<le> th_tx_burst_idx h" "th_tx_burst_idx h < 4"
    "length (th_queues h) = 4" "length (th_vifs h) = 3"
  using assms by (simp_all add: sched_inv_def queues_ok_def vifs_ok_def)

lemma queue_of:
  assumes "queues_ok qs e" "i < 4"
  shows "queue_inv (qs ! i)" "gate_ok (qs ! i) e" "unat (q_queue_id (qs ! i)) = i" "slots_ok (qs ! i)"
  using assms by (auto simp: queues_ok_def queue_inv_def core_inv_def)

lemma vif_of_slot:
  "sched_inv h \<Longrightarrow> i < 2 \<Longrightarrow> th_vifs h ! i = Some v \<Longrightarrow> vif_ok i v"
  by (simp add: sched_inv_def vifs_ok_def)

lemma sched_inv_random [simp]: "sched_inv (h\<lparr>th_random_pos := n\<rparr>) = sched_inv h"
  by (simp add: sched_inv_def)

section \<open>The choice of a queue\<close>

abbreviation waits :: "tx_hw \<Rightarrow> tx_vif \<Rightarrow> nat \<Rightarrow> u32 \<Rightarrow> nat" where
  "waits h v i m \<equiv> sendable (th_queues h ! i) (vf_if_id v) m"

lemma num_queued_waits:
  assumes "sched_inv h" "vif_ok j v" "i < 4"
  shows "num_queued v i m h = Some (of_nat (waits h v i m))"
  using assms queue_of [OF sched_invD(1) [OF assms(1)] assms(3)]
  by (simp add: num_queued_def sched_invD get_num_queued_sendable vif_ok_def)

lemma waits_zero:
  assumes "sched_inv h" "i < 4"
  shows "(of_nat (waits h v i m) = (0 :: u32)) = (waits h v i m = 0)"
  using sendable_le [OF queue_of(4) [OF sched_invD(1) [OF assms(1)] assms(2)], of "vf_if_id v" m]
    word_set_of_nat_inject [of "waits h v i m" 0, where 'a = 32] by simp

text \<open>Scores stay below the initial \<open>best\<close> when the contention windows are those of the standard.\<close>

definition edca_ok :: "wsm_edca_queue_params \<Rightarrow> bool" where
  "edca_ok p \<longleftrightarrow> ep_cwMin p \<le> ep_cwMax p \<and> ep_cwMax p \<le> 0x0FFF"

lemma prio_loop_ok:
  assumes "sched_inv h" "vif_ok j v" "set is \<subseteq> {..<4}"
    "\<And>w. winner = Some w \<Longrightarrow> w < 4 \<and> 0 < waits h v w m"
  shows "\<exists>r t n. prio_loop v m is winner best tot h = Some (r, t, h\<lparr>th_random_pos := n\<rparr>) \<and>
     (\<forall>w. r = Some w \<longrightarrow> w < 4 \<and> 0 < waits h v w m)"
  using assms
proof (induction "is" arbitrary: winner best tot h)
  case Nil
  then show ?case
    by (intro exI [of _ winner] exI [of _ tot] exI [of _ "th_random_pos h"]) simp
next
  case (Cons i js)
  have i: "i < 4" and js: "set js \<subseteq> {..<4}" using Cons.prems by auto
  note nq = num_queued_waits [OF Cons.prems(1,2) i, of m] and z = waits_zero [OF Cons.prems(1) i, of v m]
  show ?case
  proof (cases "waits h v i m = 0")
    case True
    then show ?thesis using Cons.IH [OF Cons.prems(1,2) js Cons.prems(4), where best = best and tot = tot] nq by simp
  next
    case False
    let ?h = "h\<lparr>th_random_pos := th_random_pos h + 1\<rparr>"
    have e: "rd (vf_edca v) i = Some (vf_edca v ! i)" using Cons.prems(2) i by (simp add: vif_ok_def)
    have "\<exists>r t n. prio_loop v m js w' b t' ?h = Some (r, t, ?h\<lparr>th_random_pos := n\<rparr>) \<and>
       (\<forall>w. r = Some w \<longrightarrow> w < 4 \<and> 0 < waits ?h v w m)"
      if "\<And>w. w' = Some w \<Longrightarrow> w < 4 \<and> 0 < waits h v w m" for w' b t'
      by (rule Cons.IH) (use Cons.prems js that in auto)
    then have IH: "\<exists>r t n. prio_loop v m js w' b t' ?h = Some (r, t, h\<lparr>th_random_pos := n\<rparr>) \<and>
       (\<forall>w. r = Some w \<longrightarrow> w < 4 \<and> 0 < waits h v w m)"
      if "\<And>w. w' = Some w \<Longrightarrow> w < 4 \<and> 0 < waits h v w m" for w' b t'
      using that by simp
    let ?s = "edca_score (vf_edca v ! i) (th_random h (th_random_pos h))"
    let ?t = "tot + uint (of_nat (waits h v i m) :: u32)"
    have "prio_loop v m (i # js) winner best tot h =
        (if ?s < best \<and> (winner = None \<or> i \<noteq> 3) then prio_loop v m js (Some i) ?s ?t ?h
         else prio_loop v m js winner best ?t ?h)"
      using False by (simp add: nq z e prandom_u32_def Let_def split del: if_split cong: if_cong)
    moreover have "\<And>w. Some i = Some w \<Longrightarrow> w < 4 \<and> 0 < waits h v w m" using False i by simp
    note IH [of "Some i" ?s ?t, OF this]
    moreover note IH [of winner best ?t, OF Cons.prems(4)]
    ultimately show ?thesis by presburger
  qed
qed

lemma atbm_get_prio_queue_ok:
  assumes "sched_inv h" "vif_ok j v"
  shows "\<exists>r t n. atbm_get_prio_queue v m tot h = Some (r, t, h\<lparr>th_random_pos := n\<rparr>) \<and>
     (\<forall>w. r = Some w \<longrightarrow> w < 4 \<and> 0 < waits h v w m)"
proof -
  obtain r t n where p: "prio_loop v m [0..<4] None (- 1) tot h = Some (r, t, h\<lparr>th_random_pos := n\<rparr>)"
    "\<forall>w. r = Some w \<longrightarrow> w < 4 \<and> 0 < waits h v w m"
    using prio_loop_ok [OF assms, of "[0..<4]" None m "- 1" tot] by force
  let ?h = "h\<lparr>th_random_pos := n\<rparr>"
  have h: "sched_inv ?h" using assms(1) by simp
  show ?thesis
  proof (cases r)
    case None
    then have "atbm_get_prio_queue v m tot h = Some (None, t, ?h)" using p(1) by (simp add: atbm_get_prio_queue_def)
    then show ?thesis by blast
  next
    case (Some w)
    have w: "w < 4" "0 < waits h v w m" using p(2) Some by auto
    show ?thesis
    proof (cases "0 \<le> th_tx_burst_idx h \<and> int w \<noteq> th_tx_burst_idx h")
      case True
      have b: "nat (th_tx_burst_idx h) < 4" using True sched_invD(6) [OF assms(1)] by linarith
      let ?u = "of_nat (waits h v w (m AND urgent)) :: u32" and ?b = "nat (th_tx_burst_idx h)"
      have "atbm_get_prio_queue v m tot h = Some (Some (if ?u = 0 \<and> waits h v ?b m \<noteq> 0 then ?b else w), t, ?h)"
        using True Some p(1) num_queued_waits [OF h assms(2) w(1), of "m AND urgent"]
          num_queued_waits [OF h assms(2) b, of m] waits_zero [OF h b, of v m]
        by (simp add: atbm_get_prio_queue_def)
      then show ?thesis using w b by fastforce
    next
      case False
      then have "atbm_get_prio_queue v m tot h = Some (Some w, t, ?h)"
        using p(1) Some by (auto simp: atbm_get_prio_queue_def)
      then show ?thesis using w by blast
    qed
  qed
qed

text \<open>The links a frame may be sent to: buffered multicasts, or stations that are awake or asked for it.\<close>

definition allowed_links :: "tx_vif \<Rightarrow> u32 \<Rightarrow> bool" where
  "allowed_links v m \<longleftrightarrow> m = unicast_mask v \<or> vf_tx_multicast v \<and> m = BIT atbm_dtim_virtual_linkid"

lemma wsm_get_tx_queue_and_mask_ok:
  assumes "sched_inv h" "vif_ok j v"
  shows "\<exists>r b n. wsm_get_tx_queue_and_mask v mc h = Some (r, b, h\<lparr>th_random_pos := n\<rparr>) \<and>
     (\<forall>i m. r = Inr (i, m) \<longrightarrow> i < 4 \<and> 0 < waits h v i m \<and> allowed_links v m)"
proof -
  have uni: "\<exists>r b n. unicast_queue v mc tot (h\<lparr>th_random_pos := k\<rparr>) = Some (r, b, h\<lparr>th_random_pos := n\<rparr>) \<and>
     (\<forall>i m. r = Inr (i, m) \<longrightarrow> i < 4 \<and> 0 < waits h v i m \<and> allowed_links v m)" for tot k
  proof -
    have "sched_inv (h\<lparr>th_random_pos := k\<rparr>)" using assms(1) by simp
    from atbm_get_prio_queue_ok [OF this assms(2), of "unicast_mask v" tot]
    have "\<exists>r t n. atbm_get_prio_queue v (unicast_mask v) tot (h\<lparr>th_random_pos := k\<rparr>) =
        Some (r, t, h\<lparr>th_random_pos := n\<rparr>) \<and> (\<forall>w. r = Some w \<longrightarrow> w < 4 \<and> 0 < waits h v w (unicast_mask v))"
      by simp
    then obtain r t n where p: "atbm_get_prio_queue v (unicast_mask v) tot (h\<lparr>th_random_pos := k\<rparr>) =
        Some (r, t, h\<lparr>th_random_pos := n\<rparr>)" "\<forall>w. r = Some w \<longrightarrow> w < 4 \<and> 0 < waits h v w (unicast_mask v)"
      by blast
    then have "unicast_queue v mc tot (h\<lparr>th_random_pos := k\<rparr>) =
        Some (case r of None \<Rightarrow> Inl ENOENT | Some i \<Rightarrow> Inr (i, unicast_mask v), mc, h\<lparr>th_random_pos := n\<rparr>)"
      by (simp add: unicast_queue_def)
    moreover have "i < 4 \<and> 0 < waits h v i m \<and> allowed_links v m"
      if "(case r of None \<Rightarrow> Inl ENOENT | Some i \<Rightarrow> Inr (i, unicast_mask v)) = Inr (i, m)" for i m
      using that p(2) by (simp add: allowed_links_def split: option.splits)
    ultimately show ?thesis by blast
  qed
  show ?thesis
  proof (cases "vf_tx_multicast v")
    case True
    obtain r t n where p: "atbm_get_prio_queue v (BIT atbm_dtim_virtual_linkid) 0 h = Some (r, t, h\<lparr>th_random_pos := n\<rparr>)"
      "\<forall>w. r = Some w \<longrightarrow> w < 4 \<and> 0 < waits h v w (BIT atbm_dtim_virtual_linkid)"
      using atbm_get_prio_queue_ok [OF assms] by blast
    show ?thesis
    proof (cases r)
      case None
      with True p(1) have "wsm_get_tx_queue_and_mask v mc h = unicast_queue v mc t (h\<lparr>th_random_pos := n\<rparr>)"
        by (simp add: wsm_get_tx_queue_and_mask_def)
      then show ?thesis using uni [of t n] by simp
    next
      case (Some i)
      with True p have "wsm_get_tx_queue_and_mask v mc h =
          Some (Inr (i, BIT atbm_dtim_virtual_linkid), 1 < t, h\<lparr>th_random_pos := n\<rparr>)"
        by (simp add: wsm_get_tx_queue_and_mask_def)
      with Some True p(2) show ?thesis by (auto simp: allowed_links_def)
    qed
  next
    case False
    then show ?thesis using uni [of 0 "th_random_pos h"] by (simp add: wsm_get_tx_queue_and_mask_def)
  qed
qed

section \<open>Taking a frame\<close>

definition bank_frames :: "atbm_queue list \<Rightarrow> nat option multiset" where
  "bank_frames qs = sum_list (map queue_frames qs)"

text \<open>All frames, those that wait or are under way and those that were given back.\<close>

definition all_frames :: "tx_hw \<Rightarrow> nat option multiset" where
  "all_frames h = bank_frames (th_queues h) + mset (dtor_skbs (tx_log (th_env h)))"

definition waiting_frames :: "tx_hw \<Rightarrow> nat" where
  "waiting_frames h = sum_list (map (\<lambda>q. length (q_queue q)) (th_queues h))"

lemma sum_list_map_update:
  "i < length xs \<Longrightarrow> sum_list (map f (xs[i := x])) + f (xs ! i) = sum_list (map f xs) + (f x :: 'b :: comm_monoid_add)"
proof (induction xs arbitrary: i)
  case (Cons y ys)
  show ?case
  proof (cases i)
    case 0
    then show ?thesis by (simp add: ac_simps)
  next
    case (Suc n)
    with Cons show ?thesis by (simp add: add.assoc)
  qed
qed simp

lemmas bank_frames_update = sum_list_map_update [of _ _ queue_frames, folded bank_frames_def]
lemmas waiting_update = sum_list_map_update [of _ _ "\<lambda>q. length (q_queue q)"]

lemma queues_ok_update:
  assumes "queues_ok qs e" "i < 4" "queue_inv q" "gate_ok q e'" "q_queue_id q = q_queue_id (qs ! i)"
    "\<And>j. j < 4 \<Longrightarrow> j \<noteq> i \<Longrightarrow> gate_ok (qs ! j) e'"
  shows "queues_ok (qs[i := q]) e'"
  using assms by (auto simp: queues_ok_def nth_update)

lemma get_queue_id [simp]: "q_queue_id (get_queue q e pos) = q_queue_id q"
  by (simp add: get_queue_def Let_def)

lemma remove_queue_id [simp]: "q_queue_id (remove_queue q pos) = q_queue_id q"
  by (simp add: remove_queue_def Let_def)

lemma mark_queue_id [simp]: "q_queue_id (mark_offchannel check q pos) = q_queue_id q"
  by (simp add: mark_offchannel_def)

text \<open>The frames of an interface that are under way.\<close>

definition pend :: "tx_hw \<Rightarrow> nat \<Rightarrow> nat" where
  "pend h v = sum_list (map (\<lambda>q. icount (in_vif v) (q_pool q) (q_pending q)) (th_queues h))"

lemmas pend_update = sum_list_map_update [of _ _ "\<lambda>q. icount (in_vif v) (q_pool q) (q_pending q)" for v]

lemma pend_same: "th_queues h' = th_queues h \<Longrightarrow> pend h' = pend h"
  by (simp add: pend_def fun_eq_iff)

text \<open>What the scheduler changes in a buffer: identifiers, the interface and the more-data bit.\<close>

definition buf_like :: "tx_buf \<Rightarrow> tx_buf \<Rightarrow> bool" where
  "buf_like b b' \<longleftrightarrow> tb_hdr_len b' = tb_hdr_len b \<and> tb_hdr_id b' AND 0x3F = tb_hdr_id b AND 0x3F \<and>
     tb_htTxParameters b' = tb_htTxParameters b \<and> tb_protocol b' = tb_protocol b \<and> tb_flags b' = tb_flags b \<and>
     tb_rates b' = tb_rates b"

lemma buf_like_refl [simp]: "buf_like b b"
  by (simp add: buf_like_def)

lemma buf_like_trans: "buf_like a b \<Longrightarrow> buf_like b c \<Longrightarrow> buf_like a c"
  by (simp add: buf_like_def)

lemma buf_like_update [simp]:
  "buf_like b (c\<lparr>tb_packetID := x\<rparr>) = buf_like b c" "buf_like b (c\<lparr>tb_frame_control := y\<rparr>) = buf_like b c"
  by (simp_all add: buf_like_def)

lemma six_bits: "x AND 0x3F = take_bit 6 (x :: u16)"
proof -
  have "(0x3F :: u16) = mask 6" by (simp add: mask_eq_exp_minus_1)
  then show ?thesis by (simp only: take_bit_eq_mask)
qed

lemma low_bits_kept: "take_bit 6 ((a AND NOT (push_bit 6 m)) OR push_bit 6 k) = take_bit 6 (a :: u16)"
  by (rule bit_word_eqI) (auto simp: bit_take_bit_iff bit_or_iff bit_and_iff bit_not_iff bit_push_bit_iff)

lemma buf_like_label [simp]: "buf_like b (label_if_id n b)"
proof -
  have "((tb_hdr_id b AND NOT (WSM_TX_IF_ID 0x0F)) OR WSM_TX_IF_ID n) AND 0x3F = tb_hdr_id b AND 0x3F"
    unfolding six_bits WSM_TX_IF_ID_def by (rule low_bits_kept)
  then show ?thesis by (simp add: buf_like_def label_if_id_def)
qed

text \<open>What stays the same while the scheduler looks for a frame.\<close>

definition same_bus :: "tx_hw \<Rightarrow> tx_hw \<Rightarrow> bool" where
  "same_bus h h' \<longleftrightarrow> th_tx_lock h' = th_tx_lock h \<and> th_hw_bufs_used h' = th_hw_bufs_used h \<and>
     th_hw_bufs_used_vif h' = th_hw_bufs_used_vif h \<and> th_numInpChBufs h' = th_numInpChBufs h \<and>
     th_cmd h' = th_cmd h \<and> th_save_buf h' = th_save_buf h \<and>
     (\<forall>s. buf_like (th_bufs h s) (th_bufs h' s))"

definition vif_later :: "tx_vif \<Rightarrow> tx_vif \<Rightarrow> bool" where
  "vif_later v v' \<longleftrightarrow>
     (\<exists>mc bm. v' = v\<lparr>vf_tx_multicast := mc, vf_buffered_multicasts := bm\<rparr> \<and> (mc \<longrightarrow> vf_tx_multicast v))"

definition vifs_later :: "tx_vif option list \<Rightarrow> tx_vif option list \<Rightarrow> bool" where
  "vifs_later vs vs' \<longleftrightarrow> (\<forall>i < 2. \<forall>v'. vs' ! i = Some v' \<longrightarrow> (\<exists>v. vs ! i = Some v \<and> vif_later v v'))"

lemma vif_later_refl [simp]: "vif_later v v"
  unfolding vif_later_def by (intro exI [of _ "vf_tx_multicast v"] exI [of _ "vf_buffered_multicasts v"]) simp

lemma vif_later_trans: "vif_later a b \<Longrightarrow> vif_later b c \<Longrightarrow> vif_later a c"
  unfolding vif_later_def by fastforce

lemma vifs_later_refl [simp]: "vifs_later vs vs"
  by (simp add: vifs_later_def)

lemma vifs_later_trans: "vifs_later a b \<Longrightarrow> vifs_later b c \<Longrightarrow> vifs_later a c"
  unfolding vifs_later_def by (meson vif_later_trans)

lemma vifs_later_update:
  "vif_later v v' \<Longrightarrow> vs ! i = Some v \<Longrightarrow> vifs_later vs (vs[i := Some v'])"
  by (auto simp: vifs_later_def nth_update)

lemma same_bus_refl [simp]: "same_bus h h"
  by (simp add: same_bus_def)

lemma same_bus_trans: "same_bus a b \<Longrightarrow> same_bus b c \<Longrightarrow> same_bus a c"
  unfolding same_bus_def by (auto intro: buf_like_trans)

definition link_sendable :: "u32 \<Rightarrow> atbm_queue_item \<Rightarrow> bool" where
  "link_sendable m it \<longleftrightarrow> m AND BIT (link_of it) \<noteq> 0"

lemma queue_get_step:
  assumes h: "sched_inv h" and v: "vif_ok vi v" and qi: "qi < 4" and w: "0 < waits h v qi m"
  obtains pos skb s e where
    "pos \<in> set (q_queue (th_queues h ! qi))" "i_skb (q_pool (th_queues h ! qi) ! pos) = Some skb"
    "vif_of (q_pool (th_queues h ! qi) ! pos) = vi" "link_sendable m (q_pool (th_queues h ! qi) ! pos)"
    "atbm_queue_get (th_queues h ! qi) (th_stats h) (th_env h) (int (vf_if_id v)) m =
       Some (Inr (skb, i_packetID (get_item (th_queues h ! qi) (th_env h) (q_pool (th_queues h ! qi) ! pos)),
                  i_txpriv (q_pool (th_queues h ! qi) ! pos)),
             get_queue (th_queues h ! qi) (th_env h) pos, s, e)"
    "stats_ok s" "queues_ok ((th_queues h)[qi := get_queue (th_queues h ! qi) (th_env h) pos]) e"
    "dtor_skbs (tx_log e) = dtor_skbs (tx_log (th_env h))"
proof -
  let ?q = "th_queues h ! qi"
  note q = queue_of [OF sched_invD(1) [OF h] qi]
  have "filter (get_matches ?q (int (vf_if_id v)) m) (q_queue ?q) \<noteq> []" using w by (auto simp: sendable_def)
  then have "\<exists>x\<in>set (q_queue ?q). get_matches ?q (int (vf_if_id v)) m x" by (auto simp: filter_empty_conv)
  then obtain pos where f: "List.find (get_matches ?q (int (vf_if_id v)) m) (q_queue ?q) = Some pos"
    by (cases "List.find (get_matches ?q (int (vf_if_id v)) m) (q_queue ?q)") (auto simp: find_None_iff)
  then have "get_matches ?q (int (vf_if_id v)) m pos" by (auto simp: find_Some_iff)
  then have "vif_of (q_pool ?q ! pos) = vf_if_id v \<and> m AND push_bit (link_of (q_pool ?q ! pos)) 1 \<noteq> 0"
    unfolding get_matches_def by (simp only: of_nat_eq_iff simp_thms)
  note gm = conjunct1 [OF this] conjunct2 [OF this]
  note g = atbm_queue_get_found(1) [OF q(1) sched_invD(2) [OF h] f, of "th_env h"]
    atbm_queue_get_found(2) [OF q(1) sched_invD(2) [OF h] f]
  obtain skb where skb: "i_skb (q_pool ?q ! pos) = Some skb"
    using live_item(3) [OF q(1), of pos] g(2) by (auto simp: item_ok_def)
  let ?v = "vif_of (q_pool ?q ! pos)" and ?l = "link_of (q_pool ?q ! pos)"
  let ?e = "if link_drained (th_stats h) ?v ?l then log_ev Wake_link_id_empty (th_env h) else th_env h"
  have "queue_inv (get_queue ?q (th_env h) pos)" using q(1) g(2) by (simp add: queue_inv_def core_inv_get get_queue_shape)
  moreover have "gate_ok p ?e = gate_ok p (th_env h)" for p by simp
  ultimately have ok: "queues_ok ((th_queues h)[qi := get_queue ?q (th_env h) pos]) ?e"
    using sched_invD(1) [OF h] qi q(2) by (intro queues_ok_update) (auto simp: queues_ok_def get_queue_shape)
  show ?thesis
    by (rule that [of pos skb "stats_dec ?v ?l (th_stats h)" ?e])
       (use g skb gm v sched_invD(2) [OF h] ok in \<open>simp_all add: vif_ok_def link_sendable_def BIT_def\<close>)
qed

section \<open>Sending or dropping it\<close>

lemma remove_keeps_others:
  assumes "atbm_queue_remove q e pid = Some (r, q', e')" "gate_ok p e" "unat (q_queue_id p) < 4"
    "unat (q_queue_id q) < 4" "unat (q_queue_id p) \<noteq> unat (q_queue_id q)"
  shows "gate_ok p e'"
proof -
  have u: "gate_ok p e1" if "remove_unthrottle v q0 e = Some (q1, e1)" "q_queue_id q0 = q_queue_id q" for v q0 q1 e1
    using that assms(2-5) unlock_keeps_others [of "q0\<lparr>q_overfull := ov\<rparr>" v e q1 e1 p for ov]
    by (auto simp: remove_unthrottle_def bind_eq_Some_conv wr_Some split: if_splits)
  show ?thesis
  proof (cases "check_packet q (atbm_queue_parse_id pid)")
    case None
    with assms(1) show ?thesis by (simp add: atbm_queue_remove_def Let_def)
  next
    case (Some y)
    show ?thesis
    proof (cases y)
      case (Inl err)
      with Some assms(1,2) show ?thesis by (simp add: atbm_queue_remove_def Let_def)
    next
      case (Inr it)
      with Some assms(1) show ?thesis
        by (auto simp: atbm_queue_remove_def Let_def bind_eq_Some_conv move_free_def list_del_def
            split: if_splits dest!: u)
    qed
  qed
qed

text \<open>The slot at the end of the pending list, its buffer labelled with its identifier.\<close>

definition taken :: "nat \<Rightarrow> nat \<Rightarrow> nat \<Rightarrow> nat \<Rightarrow> tx_hw \<Rightarrow> bool" where
  "taken qi vi skb pos h \<longleftrightarrow> (let q = th_queues h ! qi; it = q_pool q ! pos in
     qi < 4 \<and> pos \<in> set (q_pending q) \<and> last (q_pending q) = pos \<and> i_skb it = Some skb \<and> vif_of it = vi \<and>
     tb_packetID (th_bufs h skb) = i_packetID it \<and> current q (i_packetID it))"

abbreviation taken_item :: "nat \<Rightarrow> nat \<Rightarrow> tx_hw \<Rightarrow> atbm_queue_item" where
  "taken_item qi pos h \<equiv> q_pool (th_queues h ! qi) ! pos"

lemma vif_later_fields:
  assumes "vif_later w v"
  shows "vf_if_id v = vf_if_id w" "vf_enabled v = vf_enabled w" "vf_mode v = vf_mode w"
    "vf_join_status v = vf_join_status w" "vf_link_id_map v = vf_link_id_map w"
    "vf_sta_asleep_mask v = vf_sta_asleep_mask w" "vf_pspoll_mask v = vf_pspoll_mask w"
    "vf_edca v = vf_edca w" "vf_ssid v = vf_ssid w" "vf_tx_multicast v \<longrightarrow> vf_tx_multicast w"
  using assms by (auto simp: vif_later_def)

lemma tx_data_action_cong:
  assumes "vif_later w v" "tp_raw_link_id tp' = tp_raw_link_id tp"
  shows "tx_data_action v tp' = tx_data_action w tp"
  unfolding tx_data_action_def by (simp only: assms(2) vif_later_fields [OF assms(1)])

lemma allowed_links_cong:
  assumes "vif_later w v" "allowed_links v m"
  shows "allowed_links w m"
proof -
  have "unicast_mask v = unicast_mask w"
    unfolding unicast_mask_def by (simp only: vif_later_fields [OF assms(1)])
  then show ?thesis using assms(2) vif_later_fields(10) [OF assms(1)] by (auto simp: allowed_links_def)
qed

lemma mark_raw_link [simp]:
  "tp_raw_link_id (i_txpriv (q_pool (mark_offchannel check q pos) ! i)) = tp_raw_link_id (i_txpriv (q_pool q ! i))"
  by (auto simp: mark_offchannel_def nth_update)

text \<open>
  A pending slot is settled: it leaves the pending list, other slots and the generation stay. This happens
  when its frame is given back, after its confirmation or when it is dropped, and when it is queued again.
\<close>

definition settled :: "nat \<Rightarrow> atbm_queue \<Rightarrow> atbm_queue \<Rightarrow> bool" where
  "settled pos q q' \<longleftrightarrow> q_pending q' = remove1 pos (q_pending q) \<and> (\<forall>j. j \<noteq> pos \<longrightarrow> q_pool q' ! j = q_pool q ! j) \<and>
     q_generation q' = q_generation q"

lemma remove_pending_step:
  assumes h: "sched_inv h" and t: "qi < 4" "pos \<in> set (q_pending (th_queues h ! qi))"
    "current (th_queues h ! qi) (i_packetID (taken_item qi pos h))" "vif_of (taken_item qi pos h) = vi"
  obtains q' e' where
    "atbm_queue_remove (th_queues h ! qi) (th_env h) (i_packetID (taken_item qi pos h)) = Some (Inr (), q', e')"
    "sched_inv (set_queue qi q' (h\<lparr>th_env := e'\<rparr>))"
    "all_frames (set_queue qi q' (h\<lparr>th_env := e'\<rparr>)) = all_frames h"
    "waiting_frames (set_queue qi q' (h\<lparr>th_env := e'\<rparr>)) = waiting_frames h"
    "\<And>w. pend h w = pend (set_queue qi q' (h\<lparr>th_env := e'\<rparr>)) w + (if w = vi then 1 else 0)"
    "settled pos (th_queues h ! qi) q'"
    "dtor_skbs (tx_log e') = dtor_skbs (tx_log (th_env h)) @ [i_skb (taken_item qi pos h)]"
    "atomic_alloc e' = atomic_alloc (th_env h)"
proof -
  let ?q = "th_queues h ! qi" and ?it = "taken_item qi pos h"
  note q = queue_of [OF sched_invD(1) [OF h] t(1)]
  obtain ov lc m where r: "atbm_queue_remove ?q (th_env h) (i_packetID ?it) = Some (Inr (),
       (remove_queue ?q pos)\<lparr>q_overfull := ov, q_tx_locked_cnt := lc\<rparr>,
       log_ev (Skb_dtor (i_skb ?it) (i_txpriv ?it)) ((th_env h)\<lparr>mac := m\<rparr>))"
    and i: "queue_inv ((remove_queue ?q pos)\<lparr>q_overfull := ov, q_tx_locked_cnt := lc\<rparr>)"
    and g: "gate_ok ((remove_queue ?q pos)\<lparr>q_overfull := ov, q_tx_locked_cnt := lc\<rparr>)
       (log_ev (Skb_dtor (i_skb ?it) (i_txpriv ?it)) ((th_env h)\<lparr>mac := m\<rparr>))"
    using atbm_queue_remove_pending [OF q(1,2) t(2,3)] by blast
  let ?r = "(remove_queue ?q pos)\<lparr>q_overfull := ov, q_tx_locked_cnt := lc\<rparr>"
  let ?e = "log_ev (Skb_dtor (i_skb ?it) (i_txpriv ?it)) ((th_env h)\<lparr>mac := m\<rparr>)"
  let ?h = "set_queue qi ?r (h\<lparr>th_env := ?e\<rparr>)"
  have others: "gate_ok (th_queues h ! j) ?e" if "j < 4" "j \<noteq> qi" for j
    by (rule remove_keeps_others [OF r]) (use that q(3) queue_of [OF sched_invD(1) [OF h] that(1)] t(1) in auto)
  have "queues_ok ((th_queues h)[qi := ?r]) ?e"
    by (rule queues_ok_update [OF sched_invD(1) [OF h] t(1) i g]) (use others in simp_all)
  then have inv: "sched_inv ?h" using h by (simp add: sched_inv_def set_queue_def)
  have f: "queue_frames ?q = add_mset (i_skb ?it) (queue_frames ?r)"
    using remove_frames [OF q(1) t(2)] by simp
  have l: "qi < length (th_queues h)" using t(1) sched_invD(7) [OF h] by simp
  have "bank_frames ((th_queues h)[qi := ?r]) + {#i_skb ?it#} = bank_frames (th_queues h)"
    using bank_frames_update [OF l, of ?r] f by simp
  then have fr: "all_frames ?h = all_frames h" by (simp add: all_frames_def set_queue_def)
  have "q_queue ?r = q_queue ?q" by (simp add: remove_queue_def Let_def)
  then have wf: "waiting_frames ?h = waiting_frames h"
    using waiting_update [OF l, of ?r] by (simp add: waiting_frames_def set_queue_def)
  have ic: "icount (in_vif w) (q_pool ?r) (q_pending ?r) + (if w = vi then 1 else 0) =
      icount (in_vif w) (q_pool ?q) (q_pending ?q)" for w
    using slots_pending [OF q(4) t(2)] slots_distinct [OF q(4)] t
    by (auto simp: remove_queue_def Let_def icount_update_other icount_remove1 [OF t(2)] in_vif_def)
  have pd: "pend h w = pend ?h w + (if w = vi then 1 else 0)" for w
    using pend_update [OF l, of w ?r] ic [of w] unfolding pend_def set_queue_def by simp
  have st: "settled pos ?q ?r" by (auto simp: settled_def remove_queue_def Let_def nth_update)
  show ?thesis by (rule that [OF r inv fr wf pd st]) simp_all
qed

lemma remove_step:
  assumes h: "sched_inv h" and t: "taken qi vi skb pos h"
  obtains q' e' where
    "atbm_queue_remove (th_queues h ! qi) (th_env h) (tb_packetID (th_bufs h skb)) = Some (Inr (), q', e')"
    "sched_inv (set_queue qi q' (h\<lparr>th_env := e'\<rparr>))"
    "all_frames (set_queue qi q' (h\<lparr>th_env := e'\<rparr>)) = all_frames h"
    "waiting_frames (set_queue qi q' (h\<lparr>th_env := e'\<rparr>)) = waiting_frames h"
    "\<And>w. pend h w = pend (set_queue qi q' (h\<lparr>th_env := e'\<rparr>)) w + (if w = vi then 1 else 0)"
proof -
  have t': "qi < 4" "pos \<in> set (q_pending (th_queues h ! qi))" "current (th_queues h ! qi) (i_packetID (taken_item qi pos h))"
    "vif_of (taken_item qi pos h) = vi" "tb_packetID (th_bufs h skb) = i_packetID (taken_item qi pos h)"
    using t by (simp_all add: taken_def Let_def)
  show ?thesis by (rule remove_pending_step [OF h t'(1-4)]) (rule that, simp_all add: t'(5))
qed

lemma drop_step:
  assumes h: "sched_inv h" and t: "taken qi vi skb pos h" and d: "fst (tx_data_action v tp) = DoDrop"
  shows "\<exists>h'. wsm_handle_tx_data v skb tp qi h = Some (True, h') \<and> sched_inv h' \<and> all_frames h' = all_frames h \<and>
     waiting_frames h' = waiting_frames h \<and> same_bus h h' \<and> th_vifs h' = th_vifs h \<and>
     (\<forall>w. pend h w = pend h' w + (if w = vi then 1 else 0))"
proof -
  obtain q e where r:
    "atbm_queue_remove (th_queues h ! qi) (th_env h) (tb_packetID (th_bufs h skb)) = Some (Inr (), q, e)"
    "sched_inv (set_queue qi q (h\<lparr>th_env := e\<rparr>))"
    "all_frames (set_queue qi q (h\<lparr>th_env := e\<rparr>)) = all_frames h"
    "waiting_frames (set_queue qi q (h\<lparr>th_env := e\<rparr>)) = waiting_frames h"
    "\<And>w. pend h w = pend (set_queue qi q (h\<lparr>th_env := e\<rparr>)) w + (if w = vi then 1 else 0)"
    by (rule remove_step [OF h t]) (rule that)
  have "\<not> snd (tx_data_action v tp)"
    using d by (auto simp: tx_data_action_def split: iftype.splits join_status.splits if_splits)
  then have w: "wsm_handle_tx_data v skb tp qi h = Some (True, set_queue qi q (h\<lparr>th_env := e\<rparr>))"
    using d t r(1) sched_invD(7) [OF h] by (cases "tx_data_action v tp") (simp add: wsm_handle_tx_data_def taken_def Let_def)
  show ?thesis using w r(2-5) by (auto simp: same_bus_def set_queue_def)
qed

lemma send_step:
  assumes h: "sched_inv h" and t: "taken qi vi skb pos h" and d: "fst (tx_data_action v tp) = DoTx"
  shows "\<exists>h'. wsm_handle_tx_data v skb tp qi h = Some (False, h') \<and> sched_inv h' \<and> all_frames h' = all_frames h \<and>
     waiting_frames h' = waiting_frames h \<and> same_bus h h' \<and> th_vifs h' = th_vifs h \<and> taken qi vi skb pos h' \<and>
     pend h' = pend h \<and> (\<exists>b. i_txpriv (taken_item qi pos h') = (i_txpriv (taken_item qi pos h))\<lparr>tp_offchannel_if_id := b\<rparr>)"
proof -
  let ?q = "th_queues h ! qi" and ?it = "taken_item qi pos h"
  have t': "qi < 4" "pos \<in> set (q_pending ?q)" "last (q_pending ?q) = pos" using t by (simp_all add: taken_def Let_def)
  note q = queue_of [OF sched_invD(1) [OF h] t'(1)]
  have l: "qi < length (th_queues h)" using t'(1) sched_invD(7) [OF h] by simp
  let ?r = "if snd (tx_data_action v tp) then mark_offchannel False ?q pos else ?q"
  let ?g = "if tb_htTxParameters (th_bufs h skb) AND WSM_NEED_TX_CONFIRM \<noteq> 0
             then h\<lparr>th_hw_noconfirm_tx := th_hw_noconfirm_tx h + 1\<rparr> else h"
  let ?h = "set_queue qi ?r ?g"
  have g: "th_queues ?g = th_queues h" "th_env ?g = th_env h" "th_stats ?g = th_stats h" "th_vifs ?g = th_vifs h"
    "th_if_id_selected ?g = th_if_id_selected h" "th_tx_burst_idx ?g = th_tx_burst_idx h" "th_bufs ?g = th_bufs h"
    "same_bus h ?g" by (simp_all add: same_bus_def)
  have w: "wsm_handle_tx_data v skb tp qi h = Some (False, ?h)"
    using d t' l by (cases "tx_data_action v tp") (simp add: wsm_handle_tx_data_def)
  have r: "queue_inv ?r" "gate_ok ?r (th_env h)" "q_queue_id ?r = q_queue_id ?q" "queue_frames ?r = queue_frames ?q"
    "q_queue ?r = q_queue ?q" "q_pending ?r = q_pending ?q" "i_packetID (q_pool ?r ! pos) = i_packetID ?it"
    "i_skb (q_pool ?r ! pos) = i_skb ?it" "tp_if_id (i_txpriv (q_pool ?r ! pos)) = tp_if_id (i_txpriv ?it)"
    "current ?r pid = current ?q pid" for pid
    using q by simp_all
  have "queues_ok ((th_queues h)[qi := ?r]) (th_env h)"
    by (rule queues_ok_update [OF sched_invD(1) [OF h] t'(1) r(1,2,3)]) (use queue_of(2) [OF sched_invD(1) [OF h]] in auto)
  then have inv: "sched_inv ?h" using h by (simp add: sched_inv_def set_queue_def g split del: if_split)
  have fr: "all_frames ?h = all_frames h"
    using bank_frames_update [OF l, of ?r] r(4) by (simp add: all_frames_def set_queue_def g split del: if_split)
  have wf: "waiting_frames ?h = waiting_frames h"
    using waiting_update [OF l, of ?r] r(5) by (simp add: waiting_frames_def set_queue_def g split del: if_split)
  have nth: "th_queues ?h ! qi = ?r" using l by (simp add: set_queue_def g split del: if_split)
  have tk: "taken qi vi skb pos ?h"
    using t unfolding taken_def Let_def nth by (simp add: r set_queue_def g split del: if_split)
  have "pos < length (q_pool ?q)" using live_item(1) [OF q(1), of pos] t'(2) by simp
  then have tp: "\<exists>b. i_txpriv (taken_item qi pos ?h) = (i_txpriv ?it)\<lparr>tp_offchannel_if_id := b\<rparr>"
    unfolding nth by (auto simp: mark_offchannel_def intro: exI [of _ "tp_offchannel_if_id (i_txpriv ?it)"])
  have sb: "same_bus h ?h" "th_vifs ?h = th_vifs h" by (simp_all add: same_bus_def set_queue_def)
  have "icount (in_vif w) (q_pool ?r) (q_pending ?r) = icount (in_vif w) (q_pool ?q) (q_pending ?q)" for w
    unfolding r(6) by (rule icount_cong) (auto simp: in_vif_def)
  then have pd: "pend ?h = pend h"
    using pend_update [OF l, of _ ?r] by (simp add: pend_def set_queue_def g fun_eq_iff split del: if_split)
  show ?thesis
    by (rule exI [of _ ?h], intro conjI, rule w, rule inv, rule fr, rule wf, rule sb, rule sb, rule tk, rule pd, rule tp)
qed

lemma c_string_ok: "0 \<in> set a \<Longrightarrow> \<exists>s. c_string a = Some s"
  by (simp add: c_string_def)

lemma set_more_data_ok:
  assumes "0 \<in> set (vf_ssid v)"
  shows "\<exists>fc. set_more_data v b = Some (b\<lparr>tb_frame_control := fc\<rparr>)"
proof -
  obtain s where s: "c_string (vf_ssid v) = Some s" using c_string_ok [OF assms] by blast
  have "b = b\<lparr>tb_frame_control := tb_frame_control b\<rparr>" by simp
  then show ?thesis unfolding set_more_data_def Let_def s by (auto intro: exI [of _ "tb_frame_control b"])
qed

lemma hand_over_step:
  assumes h: "sched_inv h" and v: "vif_ok vi v" "th_vifs h ! vi = Some v" and t: "taken qi vi skb pos h"
  shows "\<exists>len burst' h'. hand_over vi v qi m mc burst skb h = Some ((Skb_ptr skb, len, burst', int vi), h') \<and>
     sched_inv h' \<and> th_queues h' = th_queues h \<and> th_env h' = th_env h \<and> same_bus h h' \<and>
     len = ucast (tb_hdr_len (th_bufs h skb)) \<and>
     taken qi vi skb pos h'"
proof -
  let ?tp = "i_txpriv (taken_item qi pos h)"
  have t': "qi < 4" "last (q_pending (th_queues h ! qi)) = pos" using t by (simp_all add: taken_def Let_def)
  have vi: "vi < 2" "vf_if_id v = vi" "qi < length (vf_edca v)" "0 \<in> set (vf_ssid v)" using v(1) t'(1) by (simp_all add: vif_ok_def)
  define g where "g = set_buf skb (label_if_id (tx_if_id v ?tp)) h"
  define w where "w = answer_pspoll ?tp v"
  have w: "vif_ok vi w" "vf_ssid w = vf_ssid v" "vf_if_id w = vi"
    using v(1) by (simp_all add: w_def answer_pspoll_def vif_ok_def)
  have g: "sched_inv (set_vif vi w g)"
    using h w(1) vi(1) by (auto simp: sched_inv_def g_def set_vif_def set_buf_def vifs_ok_def nth_update)
  have gb: "tb_packetID (th_bufs g s) = tb_packetID (th_bufs h s) \<and> tb_hdr_len (th_bufs g s) = tb_hdr_len (th_bufs h s)" for s
    by (simp add: g_def set_buf_def label_if_id_def)
  obtain b where b: "tx_burst w qi m burst (set_vif vi w g) = Some b"
    using num_queued_waits [OF g w(1) t'(1), of m] w(1) t'(1)
    by (cases "ep_txOpLimit (vf_edca w ! qi) = 0") (simp_all add: tx_burst_def vif_ok_def)
  define k where "k = (set_vif vi w g)\<lparr>th_tx_burst_idx := (if 1 < b then int qi else - 1)\<rparr>"
  obtain fc where fc: "(if mc then set_more_data w (th_bufs k skb) else Some (th_bufs k skb)) =
      Some ((th_bufs k skb)\<lparr>tb_frame_control := fc\<rparr>)"
  proof (cases mc)
    case True
    with set_more_data_ok [of w "th_bufs k skb"] w(2) vi(4) that show ?thesis by auto
  next
    case False
    with that [of "tb_frame_control (th_bufs k skb)"] show ?thesis by simp
  qed
  let ?h = "set_buf skb (\<lambda>_. (th_bufs k skb)\<lparr>tb_frame_control := fc\<rparr>) k"
  have k: "th_queues k = th_queues h" "th_env k = th_env h" "th_stats k = th_stats h"
    by (simp_all add: k_def g_def set_vif_def set_buf_def)
  have hd: "hand_over vi v qi m mc burst skb h =
      Option.bind (tx_burst w qi m burst (set_vif vi w g)) (\<lambda>b.
        let k = (set_vif vi w g)\<lparr>th_tx_burst_idx := (if 1 < b then int qi else - 1)\<rparr> in
        Option.bind (if mc then set_more_data w (th_bufs k skb) else Some (th_bufs k skb)) (\<lambda>buf.
          Some ((Skb_ptr skb, ucast (tb_hdr_len buf), b, int (vf_if_id w)), set_buf skb (\<lambda>_. buf) k)))"
    using t' sched_invD(7) [OF h] by (simp add: hand_over_def w_def g_def Let_def cong: if_cong)
  have e: "hand_over vi v qi m mc burst skb h = Some ((Skb_ptr skb, ucast (tb_hdr_len (th_bufs k skb)), b, int vi), ?h)"
    unfolding hd b bind.bind_lunit Let_def k_def [symmetric] fc by (simp add: w(3))
  have "sched_inv ?h" using g t'(1) by (auto simp: sched_inv_def k_def set_buf_def)
  moreover have "taken qi vi skb pos ?h"
    using t gb unfolding taken_def Let_def by (simp add: k set_buf_def) (simp add: k_def set_vif_def)
  moreover have "same_bus h ?h" by (simp add: same_bus_def k_def g_def set_buf_def set_vif_def)
  moreover have "th_queues ?h = th_queues h" "th_env ?h = th_env h" by (simp_all add: set_buf_def k)
  moreover have "tb_hdr_len (th_bufs k skb) = tb_hdr_len (th_bufs h skb)"
    using gb by (simp add: k_def set_vif_def)
  ultimately show ?thesis using e by auto
qed

section \<open>One turn of the loop\<close>

lemma taken_by_get:
  assumes h: "sched_inv h" and v: "vif_ok vi v" and qi: "qi < 4" and w: "0 < waits h v qi m"
  obtains pos skb pid tp q s e h' where
    "atbm_queue_get (th_queues h ! qi) (th_stats h) (th_env h) (int (vf_if_id v)) m = Some (Inr (skb, pid, tp), q, s, e)"
    "h' = set_buf skb (\<lambda>b. b\<lparr>tb_packetID := pid\<rparr>) (set_queue qi q (h\<lparr>th_stats := s, th_env := e\<rparr>))"
    "sched_inv h'" "taken qi vi skb pos h'" "tp = i_txpriv (taken_item qi pos h')"
    "link_sendable m (taken_item qi pos h')" "all_frames h' = all_frames h"
    "Suc (waiting_frames h') = waiting_frames h" "same_bus h h'" "th_vifs h' = th_vifs h"
    "\<And>w. pend h' w = pend h w + (if w = vi then 1 else 0)"
proof -
  let ?q = "th_queues h ! qi"
  obtain pos skb s e where g:
    "pos \<in> set (q_queue ?q)" "i_skb (q_pool ?q ! pos) = Some skb" "vif_of (q_pool ?q ! pos) = vi"
    "link_sendable m (q_pool ?q ! pos)"
    "atbm_queue_get ?q (th_stats h) (th_env h) (int (vf_if_id v)) m =
       Some (Inr (skb, i_packetID (get_item ?q (th_env h) (q_pool ?q ! pos)), i_txpriv (q_pool ?q ! pos)),
             get_queue ?q (th_env h) pos, s, e)"
    "stats_ok s" "queues_ok ((th_queues h)[qi := get_queue ?q (th_env h) pos]) e"
    "dtor_skbs (tx_log e) = dtor_skbs (tx_log (th_env h))"
    using queue_get_step [OF h v qi w] by blast
  let ?r = "get_queue ?q (th_env h) pos" and ?pid = "i_packetID (get_item ?q (th_env h) (q_pool ?q ! pos))"
  let ?h = "set_buf skb (\<lambda>b. b\<lparr>tb_packetID := ?pid\<rparr>) (set_queue qi ?r (h\<lparr>th_stats := s, th_env := e\<rparr>))"
  note q = queue_of [OF sched_invD(1) [OF h] qi]
  have l: "qi < length (th_queues h)" using qi sched_invD(7) [OF h] by simp
  note live = live_item [OF q(1), of pos]
  have p: "pos < length (q_pool ?q)" using live(1) g(1) by simp
  have nth: "th_queues ?h ! qi = ?r" using l by (simp add: set_buf_def set_queue_def)
  have it: "q_pool ?r ! pos = get_item ?q (th_env h) (q_pool ?q ! pos)" using p by (simp add: get_queue_def Let_def)
  have cur: "current ?r ?pid"
  proof -
    have "shape_ok ?q" using q(1) by (simp add: queue_inv_def)
    then have "p_queue_generation (atbm_queue_parse_id ?pid) = q_generation ?q"
      using get_packet [OF live(3), of ?q "th_env h"] live(4,5) g(1) parse_make_packet_id
      by (auto simp: shape_ok_def txpriv_ok_def)
    then show ?thesis by (simp add: current_def get_queue_def Let_def)
  qed
  have inv: "sched_inv ?h" using h g(6,7) by (simp add: sched_inv_def set_buf_def set_queue_def)
  have tk: "taken qi vi skb pos ?h"
    unfolding taken_def Let_def nth it using qi g(2,3) cur
    by (simp add: set_buf_def) (simp add: get_queue_def Let_def)
  have ls: "link_sendable m (taken_item qi pos ?h)" unfolding nth it using g(4) by (simp add: link_sendable_def)
  have fr: "all_frames ?h = all_frames h"
    using bank_frames_update [OF l, of ?r] get_frames [OF q(1) g(1)] g(8)
    by (simp add: all_frames_def set_buf_def set_queue_def)
  have "Suc (length (q_queue ?r)) = length (q_queue ?q)"
    using length_remove1_in [OF g(1)] by (simp add: get_queue_def Let_def)
  then have wf: "Suc (waiting_frames ?h) = waiting_frames h"
    using waiting_update [OF l, of ?r] by (simp add: waiting_frames_def set_buf_def set_queue_def)
  have sb: "same_bus h ?h" "th_vifs ?h = th_vifs h" by (simp_all add: same_bus_def set_buf_def set_queue_def)
  have "icount (in_vif w) (q_pool ?r) (q_pending ?r) =
      icount (in_vif w) (q_pool ?q) (q_pending ?q) + (if w = vi then 1 else 0)" for w
    using slots_queue [OF q(4) g(1)] g(3)
    by (auto simp: get_queue_def Let_def icount_append icount_update_other icount_Cons in_vif_def)
  then have pd: "pend ?h w = pend h w + (if w = vi then 1 else 0)" for w
    using pend_update [OF l, of w ?r] unfolding pend_def set_queue_def set_buf_def by simp
  show ?thesis
    by (rule that [OF g(5) refl inv tk _ ls fr wf sb pd]) (simp only: nth it get_item_sel)
qed

lemma serve_multicasts_ok:
  assumes h: "sched_inv h" and v: "vif_ok vi v" "th_vifs h ! vi = Some v"
  obtains v' h' where "serve_multicasts f mc vi v h = (v', h')" "sched_inv h'" "vif_later v v'" "vif_ok vi v'"
    "th_vifs h' ! vi = Some v'" "th_queues h' = th_queues h" "all_frames h' = all_frames h"
    "waiting_frames h' = waiting_frames h" "same_bus h h'" "vifs_later (th_vifs h) (th_vifs h')"
proof (cases "vf_buffered_multicasts v \<and> (f \<or> \<not> mc) \<and> (vf_tx_multicast v \<or> vf_sta_asleep_mask v = 0)")
  case False
  then have "serve_multicasts f mc vi v h = (v, h)" by (simp only: serve_multicasts_def if_False)
  then show ?thesis by (rule that) (use assms in simp_all)
next
  case True
  let ?v = "v\<lparr>vf_buffered_multicasts := False, vf_tx_multicast := False\<rparr>"
  let ?g = "if vf_tx_multicast v then h\<lparr>th_multicast_stop_work := th_multicast_stop_work h @ [vi]\<rparr> else h"
  have l: "vif_later v ?v"
    unfolding vif_later_def by (intro exI [of _ False]) simp
  have vi: "vi < length (th_vifs h)" using v(1) sched_invD(8) [OF h] by (simp add: vif_ok_def)
  have ok: "vif_ok vi ?v" using v(1) by (simp add: vif_ok_def)
  have inv: "sched_inv (set_vif vi ?v ?g)"
    using h ok by (auto simp: sched_inv_def set_vif_def vifs_ok_def nth_update)
  show ?thesis
  proof (rule that [of ?v "set_vif vi ?v ?g"])
    show "serve_multicasts f mc vi v h = (?v, set_vif vi ?v ?g)" using True by (simp add: serve_multicasts_def Let_def)
    show "vifs_later (th_vifs h) (th_vifs (set_vif vi ?v ?g))"
      using vifs_later_update [OF l v(2)] by (simp add: set_vif_def)
  qed (use l ok inv vi in \<open>simp_all add: set_vif_def all_frames_def waiting_frames_def same_bus_def\<close>)
qed

text \<open>
  What the scheduler hands out, seen from the state \<open>h\<close> in which it was called: a frame of an enabled
  interface, for a link that may be served, that the state of the interface lets pass. The frame is now
  pending and its header carries the identifier of its slot.
\<close>

definition handed :: "tx_hw \<Rightarrow> tx_ptr \<Rightarrow> u32 \<Rightarrow> int \<Rightarrow> tx_hw \<Rightarrow> bool" where
  "handed h p len vsel h' \<longleftrightarrow>
     (\<exists>skb vi v qi pos m. p = Skb_ptr skb \<and> vsel = int vi \<and> vi < 2 \<and> th_vifs h ! vi = Some v \<and> vf_enabled v \<and>
        taken qi vi skb pos h' \<and> allowed_links v m \<and> link_sendable m (taken_item qi pos h') \<and>
        fst (tx_data_action v (i_txpriv (taken_item qi pos h'))) = DoTx \<and> len = ucast (tb_hdr_len (th_bufs h' skb)))"

lemma handed_later: "vifs_later (th_vifs h) (th_vifs g) \<Longrightarrow> handed g p len vsel h' \<Longrightarrow> handed h p len vsel h'"
proof -
  assume l: "vifs_later (th_vifs h) (th_vifs g)" and "handed g p len vsel h'"
  then obtain skb vi v qi pos m where d: "p = Skb_ptr skb" "vsel = int vi" "vi < 2" "th_vifs g ! vi = Some v"
    "vf_enabled v" "taken qi vi skb pos h'" "allowed_links v m" "link_sendable m (taken_item qi pos h')"
    "fst (tx_data_action v (i_txpriv (taken_item qi pos h'))) = DoTx" "len = ucast (tb_hdr_len (th_bufs h' skb))"
    unfolding handed_def by blast
  obtain w where w: "th_vifs h ! vi = Some w" "vif_later w v" using l d(3,4) by (auto simp: vifs_later_def)
  have "vf_enabled w" "allowed_links w m" "fst (tx_data_action w (i_txpriv (taken_item qi pos h'))) = DoTx"
    using vif_later_fields(2) [OF w(2)] allowed_links_cong [OF w(2)] tx_data_action_cong [OF w(2) refl] d(5,7,9) by auto
  with d w(1) show ?thesis unfolding handed_def by blast
qed

definition tx_outcome :: "tx_hw \<Rightarrow> tx_choice \<Rightarrow> tx_hw \<Rightarrow> bool" where
  "tx_outcome h c h' \<longleftrightarrow> sched_inv h' \<and> same_bus h h' \<and> all_frames h' = all_frames h \<and>
     (case c of None \<Rightarrow> waiting_frames h' \<le> waiting_frames h \<and> pend h' = pend h
      | Some (p, len, burst, vsel) \<Rightarrow> waiting_frames h' < waiting_frames h \<and> th_tx_lock h = 0 \<and>
          (\<forall>w. pend h' w = pend h w + (if int w = vsel then 1 else 0)) \<and>
          th_hw_bufs_used h < uint (th_numInpChBufs h) \<and> handed h p len vsel h')"

text \<open>The state has moved on, without handing out a frame.\<close>

definition moved_on :: "tx_hw \<Rightarrow> tx_hw \<Rightarrow> bool" where
  "moved_on h g \<longleftrightarrow> same_bus h g \<and> all_frames g = all_frames h \<and> waiting_frames g \<le> waiting_frames h \<and> pend g = pend h \<and>
     vifs_later (th_vifs h) (th_vifs g)"

lemma moved_on_refl [simp]: "moved_on h h"
  by (simp add: moved_on_def)

lemma moved_on_trans: "moved_on a b \<Longrightarrow> moved_on b c \<Longrightarrow> moved_on a c"
  unfolding moved_on_def by (auto intro: same_bus_trans vifs_later_trans)

lemma tx_outcome_later:
  assumes "moved_on h g" "tx_outcome g c h'"
  shows "tx_outcome h c h'"
  using assms same_bus_trans [of h g h'] handed_later [of h g]
  by (auto simp: moved_on_def tx_outcome_def same_bus_def split: option.splits)

lemma tx_outcome_stop: "sched_inv g \<Longrightarrow> moved_on h g \<Longrightarrow> tx_outcome h None g"
  by (simp add: tx_outcome_def moved_on_def)

fun tx_loop_inv :: "bool \<times> bool \<times> int \<times> tx_hw \<Rightarrow> bool" where
  "tx_loop_inv (if_pending, more_mc, burst, h) = sched_inv h"

fun tx_loop_post :: "bool \<times> bool \<times> int \<times> tx_hw \<Rightarrow> tx_choice \<times> tx_hw \<Rightarrow> bool" where
  "tx_loop_post (if_pending, more_mc, burst, h) (c, h') = tx_outcome h c h'"

fun tx_loop_variant :: "bool \<times> bool \<times> int \<times> tx_hw \<Rightarrow> nat" where
  "tx_loop_variant (if_pending, more_mc, burst, h) = 2 * waiting_frames h + (if if_pending then 1 else 0)"

text \<open>The two ways a turn may go.\<close>

definition turn_good :: "bool \<Rightarrow> tx_hw \<Rightarrow> ((bool \<times> bool \<times> int \<times> tx_hw) + (tx_choice \<times> tx_hw)) option \<Rightarrow> bool" where
  "turn_good if_pending h r \<longleftrightarrow>
     (\<exists>mc b g. r = Some (Inl (False, mc, b, g)) \<and> sched_inv g \<and> moved_on h g \<and>
        (if_pending \<or> waiting_frames g < waiting_frames h)) \<or>
     (\<exists>c g. r = Some (Inr (c, g)) \<and> tx_outcome h c g)"

lemma moved_on_waiting: "moved_on h g \<Longrightarrow> waiting_frames g \<le> waiting_frames h"
  by (simp add: moved_on_def)

lemma turn_good_later:
  assumes m: "moved_on h g" and r: "turn_good p g r"
  shows "turn_good p h r"
proof -
  from r consider (again) mc b k where "r = Some (Inl (False, mc, b, k))" "sched_inv k" "moved_on g k"
      "p \<or> waiting_frames k < waiting_frames g"
    | (left) c k where "r = Some (Inr (c, k))" "tx_outcome g c k"
    unfolding turn_good_def by blast
  then show ?thesis
  proof cases
    case again
    have "moved_on h k" "p \<or> waiting_frames k < waiting_frames h"
      using moved_on_trans [OF m again(3)] again(4) moved_on_waiting [OF m] by auto
    with again(1,2) show ?thesis by (simp add: turn_good_def)
  next
    case left
    with tx_outcome_later [OF m] show ?thesis by (simp add: turn_good_def)
  qed
qed

lemma turn_next: "sched_inv g \<Longrightarrow> turn_good p g (Some (if p then Inl (False, mc, b, g) else Inr (None, g)))"
  by (simp add: turn_good_def tx_outcome_stop)

lemma frame_turn:
  assumes h: "sched_inv h" and v: "vif_ok vi v" "th_vifs h ! vi = Some v" and m0: "moved_on h0 h"
    and v0: "th_vifs h0 ! vi = Some v0" "vif_later v0 v" "vf_enabled v0" "allowed_links v0 m"
    and q: "qi < 4" "0 < waits h v qi m"
    and free: "th_tx_lock h0 = 0" "th_hw_bufs_used h0 < uint (th_numInpChBufs h0)"
  shows "turn_good p h0 (tx_frame vi v qi m mc burst h)"
proof -
  obtain pos skb pid tp q s e g where
    g: "atbm_queue_get (th_queues h ! qi) (th_stats h) (th_env h) (int (vf_if_id v)) m = Some (Inr (skb, pid, tp), q, s, e)"
    "g = set_buf skb (\<lambda>b. b\<lparr>tb_packetID := pid\<rparr>) (set_queue qi q (h\<lparr>th_stats := s, th_env := e\<rparr>))"
    "sched_inv g" "taken qi vi skb pos g" "tp = i_txpriv (taken_item qi pos g)"
    "link_sendable m (taken_item qi pos g)" "all_frames g = all_frames h"
    "Suc (waiting_frames g) = waiting_frames h" "same_bus h g" "th_vifs g = th_vifs h"
    "\<And>w. pend g w = pend h w + (if w = vi then 1 else 0)"
    by (rule taken_by_get [OF h v(1) q]) (rule that)
  have l: "qi < length (th_queues h)" using q(1) sched_invD(7) [OF h] by simp
  have less: "waiting_frames g < waiting_frames h0" using g(8) moved_on_waiting [OF m0] by simp
  have pg: "pend g w = pend h0 w + (if w = vi then 1 else 0)" for w using g(11) m0 by (simp add: moved_on_def)
  have sg: "same_bus h0 g" using same_bus_trans [of h0 h g] m0 g(9) by (simp add: moved_on_def)
  show ?thesis
  proof (cases "fst (tx_data_action v tp)")
    case DoDrop
    obtain k where k: "wsm_handle_tx_data v skb tp qi g = Some (True, k)" "sched_inv k" "all_frames k = all_frames g"
      "waiting_frames k = waiting_frames g" "same_bus g k" "th_vifs k = th_vifs g"
      "\<forall>w. pend g w = pend k w + (if w = vi then 1 else 0)"
      using drop_step [OF g(3,4) DoDrop] by blast
    have pk: "pend k w = pend h0 w" for w using k(7) pg [of w] by simp
    have "tx_frame vi v qi m mc burst h = Some (Inl (False, mc, burst, k))"
      using l g(1) k(1) by (simp add: tx_frame_def g(2) [symmetric])
    moreover have "moved_on h0 k"
      using same_bus_trans [OF sg k(5)] less m0 g(7,10) k(3,4,6) pk by (simp add: moved_on_def fun_eq_iff)
    ultimately show ?thesis using k(2,4) less by (simp add: turn_good_def)
  next
    case DoTx
    obtain k where k: "wsm_handle_tx_data v skb tp qi g = Some (False, k)" "sched_inv k" "all_frames k = all_frames g"
      "waiting_frames k = waiting_frames g" "same_bus g k" "th_vifs k = th_vifs g" "taken qi vi skb pos k"
      "pend k = pend g" "\<exists>b. i_txpriv (taken_item qi pos k) = (i_txpriv (taken_item qi pos g))\<lparr>tp_offchannel_if_id := b\<rparr>"
      using send_step [OF g(3,4) DoTx] by blast
    have vk: "th_vifs k ! vi = Some v" using k(6) g(10) v(2) by simp
    obtain len b f where f: "hand_over vi v qi m mc burst skb k = Some ((Skb_ptr skb, len, b, int vi), f)"
      "sched_inv f" "th_queues f = th_queues k" "th_env f = th_env k" "same_bus k f"
      "len = ucast (tb_hdr_len (th_bufs k skb))" "taken qi vi skb pos f"
      using hand_over_step [OF k(2) v(1) vk k(7), of m mc burst] by blast
    have it: "taken_item qi pos f = taken_item qi pos k" by (simp add: f(3))
    obtain x where x: "i_txpriv (taken_item qi pos k) = tp\<lparr>tp_offchannel_if_id := x\<rparr>" using k(9) g(5) by auto
    have ls: "link_sendable m (taken_item qi pos f)" using g(5,6) x unfolding it by (simp add: link_sendable_def)
    have act: "fst (tx_data_action v0 (i_txpriv (taken_item qi pos f))) = DoTx"
      using DoTx tx_data_action_cong [OF v0(2), of tp "tp\<lparr>tp_offchannel_if_id := x\<rparr>"] unfolding it x by simp
    have len: "len = ucast (tb_hdr_len (th_bufs f skb))" using f(5,6) by (simp add: same_bus_def buf_like_def)
    have vi: "vi < 2" using v(1) by (simp add: vif_ok_def)
    have "handed h0 (Skb_ptr skb) len (int vi) f"
      unfolding handed_def using vi v0(1,3,4) f(7) ls act len by blast
    moreover have "same_bus h0 f" "all_frames f = all_frames h0"
      using same_bus_trans [OF same_bus_trans [OF sg k(5)] f(5)] m0 g(7) f(3,4) k(3)
      by (simp_all add: moved_on_def all_frames_def)
    moreover have "waiting_frames f < waiting_frames h0" using f(3) k(4) less by (simp add: waiting_frames_def)
    moreover have "pend f w = pend h0 w + (if int w = int vi then 1 else 0)" for w
      using pend_same [OF f(3)] k(8) pg [of w] by simp
    ultimately have "tx_outcome h0 (Some (Skb_ptr skb, len, b, int vi)) f"
      using f(2) free by (simp add: tx_outcome_def)
    moreover have "tx_frame vi v qi m mc burst h = Some (Inr (Some (Skb_ptr skb, len, b, int vi), f))"
      using l g(1) k(1) f(1) by (simp add: tx_frame_def g(2) [symmetric])
    ultimately show ?thesis by (simp add: turn_good_def)
  qed
qed

lemma tx_turn_good:
  assumes h: "sched_inv h"
  shows "turn_good p h (tx_turn (p, mc, burst, h))"
proof -
  have stop: "turn_good p h (Some (Inr (None, h)))" using h by (simp add: turn_good_def tx_outcome_stop)
  show ?thesis
  proof (cases "th_tx_lock h \<noteq> 0 \<or> uint (th_numInpChBufs h) \<le> th_hw_bufs_used h")
    case True
    with stop show ?thesis by auto
  next
    case False
    let ?vi = "th_if_id_selected h" and ?g = "h\<lparr>th_if_id_selected := th_if_id_selected h XOR 1\<rparr>"
    have vi: "?vi < 2" by (rule sched_invD(4) [OF h])
    then have "?vi = 0 \<or> ?vi = 1" by auto
    then have "?vi XOR 1 < 2" by auto
    then have g: "sched_inv ?g" using h by (simp add: sched_inv_def)
    have mg: "moved_on h ?g"
      using pend_same [of ?g h] by (simp add: moved_on_def same_bus_def all_frames_def waiting_frames_def)
    have rd: "rd (th_vifs h) ?vi = Some (th_vifs h ! ?vi)" using vi sched_invD(8) [OF h] by simp
    show ?thesis
    proof (cases "th_vifs h ! ?vi")
      case None
      have "tx_turn (p, mc, burst, h) = Some (if p then Inl (False, mc, burst, ?g) else Inr (None, ?g))"
        using False None rd by simp
      then show ?thesis using turn_good_later [OF mg turn_next [OF g]] by simp
    next
      case (Some v)
      have v: "vif_ok ?vi v" by (rule vif_of_slot [OF h vi Some])
      show ?thesis
      proof (cases "vf_enabled v")
        case False': False
        then have "tx_turn (p, mc, burst, h) = Some (Inr (None, ?g))" using False Some rd by simp
        then show ?thesis using tx_outcome_stop [OF g mg] by (simp add: turn_good_def)
      next
        case True
        obtain r mc' n where r: "wsm_get_tx_queue_and_mask v mc ?g = Some (r, mc', ?g\<lparr>th_random_pos := n\<rparr>)"
          "\<forall>i m. r = Inr (i, m) \<longrightarrow> i < 4 \<and> 0 < waits ?g v i m \<and> allowed_links v m"
          using wsm_get_tx_queue_and_mask_ok [OF g v] by blast
        let ?k = "?g\<lparr>th_random_pos := n\<rparr>"
        have k: "sched_inv ?k" using g by simp
        have vk: "th_vifs ?k ! ?vi = Some v" using Some by simp
        obtain v' f where f: "serve_multicasts (isl r) mc' ?vi v ?k = (v', f)" "sched_inv f" "vif_later v v'"
          "vif_ok ?vi v'" "th_vifs f ! ?vi = Some v'" "th_queues f = th_queues ?k" "all_frames f = all_frames ?k"
          "waiting_frames f = waiting_frames ?k" "same_bus ?k f" "vifs_later (th_vifs ?k) (th_vifs f)"
          using serve_multicasts_ok [OF k v vk] by blast
        have mf: "moved_on h f"
          using f(7-10) pend_same [of f h] f(6) by (simp add: moved_on_def same_bus_def all_frames_def waiting_frames_def)
        show ?thesis
        proof (cases r)
          case (Inl err)
          have "tx_turn (p, mc, burst, h) = Some (if p then Inl (False, mc', burst, f) else Inr (None, f))"
            using False True Some rd r(1) f(1) Inl by simp
          then show ?thesis using turn_good_later [OF mf turn_next [OF f(2)]] by simp
        next
          case (Inr im)
          then obtain qi m where im: "r = Inr (qi, m)" by (cases im) simp
          have e: "vf_enabled v'" "vf_if_id v' = vf_if_id v" using vif_later_fields [OF f(3)] True by simp_all
          have w: "0 < waits f v' qi m" "qi < 4" using r(2) im f(6) e(2) by auto
          have "turn_good p h (tx_frame ?vi v' qi m mc' burst f)"
            by (rule frame_turn [OF f(2,4,5) mf Some f(3) True _ w(2,1)]) (use r(2) im False in auto)
          moreover have "tx_turn (p, mc, burst, h) = tx_frame ?vi v' qi m mc' burst f"
            using False True Some rd r(1) f(1) im by simp
          ultimately show ?thesis by simp
        qed
      qed
    qed
  qed
qed

section \<open>The loop\<close>

declare tx_turn.simps [simp del]

interpretation tx_loop: variant_loop tx_turn tx_loop_inv tx_loop_post tx_loop_variant
proof unfold_locales
  fix s assume "tx_loop_inv s"
  then obtain p mc burst h where s: "s = (p, mc, burst, h)" and h: "sched_inv h" by (cases s) simp
  from tx_turn_good [OF h, of p mc burst]
  consider mc' b g where "tx_turn (p, mc, burst, h) = Some (Inl (False, mc', b, g))" "sched_inv g" "moved_on h g"
      "p \<or> waiting_frames g < waiting_frames h"
    | c g where "tx_turn (p, mc, burst, h) = Some (Inr (c, g))" "tx_outcome h c g"
    unfolding turn_good_def by blast
  then show "(\<exists>s'. tx_turn s = Some (Inl s') \<and> tx_loop_inv s' \<and> tx_loop_variant s' < tx_loop_variant s \<and>
        (\<forall>r. tx_loop_post s' r \<longrightarrow> tx_loop_post s r)) \<or>
      (\<exists>r. tx_turn s = Some (Inr r) \<and> tx_loop_post s r)"
  proof cases
    case 1
    have "\<forall>r. tx_loop_post (False, mc', b, g) r \<longrightarrow> tx_loop_post (p, mc, burst, h) r"
      using tx_outcome_later [OF 1(3)] by auto
    moreover have "tx_loop_variant (False, mc', b, g) < tx_loop_variant (p, mc, burst, h)"
      using 1(4) moved_on_waiting [OF 1(3)] by auto
    ultimately show ?thesis using 1(1,2) by (intro disjI1 exI [of _ "(False, mc', b, g)"]) (simp add: s)
  next
    case 2
    then show ?thesis by (intro disjI2 exI [of _ "(c, g)"]) (simp add: s)
  qed
qed

lemma tx_loop_returns:
  "sched_inv h \<Longrightarrow> \<exists>c h'. loop_until tx_turn (p, mc, burst, h) = Some (c, h') \<and> tx_outcome h c h'"
  using tx_loop.returns [of "(p, mc, burst, h)"] by auto

end
