(* ===== verification/Sdio_Tx_Inv.thy ===== *)
theory Sdio_Tx_Inv
  imports Sdio_Tx Tx_Sched_Inv
begin

text \<open>
  Invariant of the SDIO transmission: the counters of the firmware's buffers agree with the pending
  frames, no more buffers are taken than the firmware has, and the transfer buffer is large enough. Every
  step keeps it, and both loops of \<open>atbm_sdio_tx_bh\<close> return.
\<close>

section \<open>Invariants\<close>

text \<open>
  \<open>L v\<close> counts the buffers the firmware holds for interface \<open>v\<close> of frames that no queue holds any more (a
  queue may be cleared while the firmware still sends). Transmission leaves this number alone.
\<close>

definition counts_ok :: "(nat \<Rightarrow> int) \<Rightarrow> tx_hw \<Rightarrow> bool" where
  "counts_ok L h \<longleftrightarrow> length (th_hw_bufs_used_vif h) = 2 \<and>
     (\<forall>v < 2. 0 \<le> L v \<and> th_hw_bufs_used_vif h ! v = int (pend h v) + L v) \<and>
     int (pend h 0 + pend h 1) \<le> th_hw_bufs_used h"

text \<open>
  What the scheduler's callers rely on: a frame carries the identifier of the transmit request and fits
  into a buffer of the firmware, and so does a command, which is no transmit request.
\<close>

definition buf_ok :: "nat \<Rightarrow> tx_buf \<Rightarrow> bool" where
  "buf_ok sz b \<longleftrightarrow> 8 \<le> unat (tb_hdr_len b) \<and> aligned_len (unat (tb_hdr_len b)) \<le> sz \<and>
     tb_hdr_id b AND 0x3F = WSM_TRANSMIT_REQ_MSG_ID \<and> length (tb_rates b) = 5"

definition bufs_ok :: "nat \<Rightarrow> tx_hw \<Rightarrow> bool" where
  "bufs_ok sz h \<longleftrightarrow> (\<forall>s. Some s \<in># all_frames h \<longrightarrow> buf_ok sz (th_bufs h s))"

definition cmd_ok :: "nat \<Rightarrow> wsm_cmd \<Rightarrow> bool" where
  "cmd_ok sz c \<longleftrightarrow> (\<forall>p. cm_ptr c = Some p \<longrightarrow> (\<exists>n. p = Cmd_ptr n) \<and> 8 \<le> unat (cm_len c) \<and>
     unat (cm_len c) < 2 ^ 16 \<and> aligned_len (unat (cm_len c)) \<le> sz \<and> cm_cmd c AND 0x3F \<noteq> WSM_TRANSMIT_REQ_MSG_ID)"

definition tx_ok :: "(nat \<Rightarrow> int) \<Rightarrow> nat \<Rightarrow> tx_hw \<Rightarrow> bool" where
  "tx_ok L sz h \<longleftrightarrow> sched_inv h \<and> th_save_buf h = None \<and> counts_ok L h \<and> bufs_ok sz h \<and> cmd_ok sz (th_cmd h)"

lemma tx_okD:
  assumes "tx_ok L sz h"
  shows "sched_inv h" "th_save_buf h = None" "counts_ok L h" "bufs_ok sz h" "cmd_ok sz (th_cmd h)"
  using assms by (simp_all add: tx_ok_def)

lemma pend_total:
  assumes "\<And>w. pend h' w = pend h w + (if w = vi then 1 else 0)" "vi < 2"
  shows "pend h' 0 + pend h' 1 = pend h 0 + pend h 1 + 1"
  using assms(2) by (auto simp: assms(1) less_2_cases_iff)

lemma frames_in_bank: "q \<in> set qs \<Longrightarrow> queue_frames q \<subseteq># sum_list (map queue_frames qs)"
  by (induction qs) (auto intro: subset_mset.order_trans)

lemma taken_frame:
  assumes "taken qi vi skb pos h" "sched_inv h"
  shows "Some skb \<in># all_frames h"
proof -
  have t: "qi < length (th_queues h)" "pos \<in> set (q_pending (th_queues h ! qi))" "i_skb (taken_item qi pos h) = Some skb"
    using assms sched_invD(7) [OF assms(2)] by (simp_all add: taken_def Let_def)
  then have q: "Some skb \<in># queue_frames (th_queues h ! qi)"
    unfolding queue_frames_def by (auto simp: image_iff intro!: bexI [of _ pos])
  have "queue_frames (th_queues h ! qi) \<subseteq># bank_frames (th_queues h)"
    unfolding bank_frames_def by (rule frames_in_bank) (use t(1) in simp)
  from mset_subset_eqD [OF this q] show ?thesis by (simp add: all_frames_def)
qed

lemma taken_pend:
  assumes "taken qi vi skb pos h" "sched_inv h"
  shows "0 < pend h vi"
proof -
  have "pend h vi = pend h' vi + 1" if "\<And>w. pend h w = pend h' w + (if w = vi then 1 else 0)" for h'
    using that by simp
  then show ?thesis by (metis remove_step [OF assms(2,1)] add_gr_0 zero_less_one)
qed

section \<open>Giving a frame back\<close>

lemma queue_id_parse: "atbm_queue_get_queue_id pid = p_queue_id (atbm_queue_parse_id pid)"
  by (simp add: atbm_queue_get_queue_id_def atbm_queue_parse_id_def Let_def)

text \<open>A slot that has been taken is the one that the identifier in the header names.\<close>

lemma taken_lookup:
  assumes t: "taken qi vi skb pos h" and h: "sched_inv h"
  shows "queue_by_packet h (tb_packetID (th_bufs h skb)) = Some (qi, th_queues h ! qi)"
    "atbm_queue_get_skb (th_queues h ! qi) (tb_packetID (th_bufs h skb)) =
       Some (Inr (Some skb, i_txpriv (taken_item qi pos h)))"
proof -
  have t': "qi < 4" "pos \<in> set (q_queue (th_queues h ! qi)) \<union> set (q_pending (th_queues h ! qi))"
    "tb_packetID (th_bufs h skb) = i_packetID (taken_item qi pos h)" "i_skb (taken_item qi pos h) = Some skb"
    "current (th_queues h ! qi) (i_packetID (taken_item qi pos h))"
    using t by (simp_all add: taken_def Let_def)
  note q = queue_of [OF sched_invD(1) [OF h] t'(1)]
  show "queue_by_packet h (tb_packetID (th_bufs h skb)) = Some (qi, th_queues h ! qi)"
    unfolding t'(3) using t'(1) q(3) live_parse(1) [OF q(1) t'(2)] sched_invD(7) [OF h]
    by (simp add: queue_by_packet_def queue_id_parse Let_def)
  show "atbm_queue_get_skb (th_queues h ! qi) (tb_packetID (th_bufs h skb)) =
       Some (Inr (Some skb, i_txpriv (taken_item qi pos h)))"
    unfolding t'(3) using t'(4,5) check_packet_live [OF q(1) t'(2)] by (simp add: atbm_queue_get_skb_def)
qed

lemma give_back_ok:
  assumes h: "tx_ok L sz h" and t: "taken qi vi skb pos h" and vi: "vi < 2"
  shows "\<exists>h'. give_back (tb_packetID (th_bufs h skb)) h = Some h' \<and> tx_ok L sz h' \<and> all_frames h' = all_frames h \<and>
     waiting_frames h' = waiting_frames h \<and> th_cmd h' = th_cmd h \<and> th_numInpChBufs h' = th_numInpChBufs h"
proof -
  note i = tx_okD [OF h]
  note l = taken_lookup [OF t i(1)]
  have b: "buf_ok sz (th_bufs h skb)" using i(4) taken_frame [OF t i(1)] by (simp add: bufs_ok_def)
  have v: "unat (tp_if_id (i_txpriv (taken_item qi pos h))) = vi" using t by (simp add: taken_def Let_def)
  have c: "length (th_hw_bufs_used_vif h) = 2" "th_hw_bufs_used_vif h ! vi = int (pend h vi) + L vi" "0 \<le> L vi"
    "int (pend h 0 + pend h 1) \<le> th_hw_bufs_used h" "0 < pend h vi"
    using i(3) vi taken_pend [OF t i(1)] by (simp_all add: counts_ok_def)
  have pos: "1 \<le> th_hw_bufs_used h" using c(4,5) vi by (auto simp: less_2_cases_iff)
  define b' where "b' = (th_bufs h skb)\<lparr>tb_flags := tb_flags (th_bufs h skb) OR IEEE80211_TX_STAT_ACK,
             tb_rates := (fst (tb_rates (th_bufs h skb) ! 0), 1) # replicate 4 (- 1, 0)\<rparr>"
  have bo: "report_acked (th_bufs h skb) = Some b'" "buf_ok sz b'" "tb_packetID b' = tb_packetID (th_bufs h skb)"
    using b by (simp_all add: report_acked_def b'_def buf_ok_def)
  define g where "g = set_buf skb (\<lambda>_. b') (h\<lparr>th_hw_bufs_used_vif := (th_hw_bufs_used_vif h)[vi := int (pend h vi) + L vi - 1],
     th_hw_bufs_used := th_hw_bufs_used h - 1\<rparr>)"
  have g: "sched_inv g" "th_queues g = th_queues h" "th_env g = th_env h" "all_frames g = all_frames h"
    "waiting_frames g = waiting_frames h" "pend g = pend h"
    using i(1) by (simp_all add: g_def set_buf_def sched_inv_def all_frames_def waiting_frames_def pend_def fun_eq_iff)
  have tg: "taken qi vi skb pos g" using t bo(3) by (simp add: taken_def Let_def g_def set_buf_def)
  obtain q e where r: "atbm_queue_remove (th_queues g ! qi) (th_env g) (tb_packetID (th_bufs g skb)) = Some (Inr (), q, e)"
    "sched_inv (set_queue qi q (g\<lparr>th_env := e\<rparr>))"
    "all_frames (set_queue qi q (g\<lparr>th_env := e\<rparr>)) = all_frames g"
    "waiting_frames (set_queue qi q (g\<lparr>th_env := e\<rparr>)) = waiting_frames g"
    "\<And>w. pend g w = pend (set_queue qi q (g\<lparr>th_env := e\<rparr>)) w + (if w = vi then 1 else 0)"
    by (rule remove_step [OF g(1) tg]) (rule that)
  let ?h = "set_queue qi q (g\<lparr>th_env := e\<rparr>)"
  have pk: "tb_packetID (th_bufs g skb) = tb_packetID (th_bufs h skb)" using bo(3) by (simp add: g_def set_buf_def)
  have gb: "give_back (tb_packetID (th_bufs h skb)) h = Some ?h"
  proof -
    define k where "k = h\<lparr>th_hw_bufs_used_vif := (th_hw_bufs_used_vif h)[vi := int (pend h vi) + L vi - 1]\<rparr>"
    have 1: "wsm_release_vif_tx_buffer vi 1 h = Some k"
      using c(1,2,3,5) vi by (simp add: wsm_release_vif_tx_buffer_def k_def)
    have 2: "snd (wsm_release_tx_buffer 1 k) = k\<lparr>th_hw_bufs_used := th_hw_bufs_used h - 1\<rparr>"
      using pos by (simp add: wsm_release_tx_buffer_def k_def Let_def)
    have 3: "set_buf skb (\<lambda>_. b') (k\<lparr>th_hw_bufs_used := th_hw_bufs_used h - 1\<rparr>) = g" by (simp add: k_def g_def)
    have 4: "atbm_queue_remove (th_queues h ! qi) (th_env g) (tb_packetID (th_bufs h skb)) = Some (Inr (), q, e)"
      using r(1) unfolding pk g(2) .
    have 5: "th_bufs (k\<lparr>th_hw_bufs_used := th_hw_bufs_used h - 1\<rparr>) = th_bufs h" by (simp add: k_def)
    show ?thesis
      unfolding give_back_def l bind.bind_lunit prod.case sum.case option.case v 1 2 Let_def
      by (simp only: 3 4 5 bo(1) bind.bind_lunit prod.case)
  qed
  have "counts_ok L ?h"
    unfolding counts_ok_def
  proof (intro conjI allI impI)
    show "length (th_hw_bufs_used_vif ?h) = 2" using c(1) by (simp add: g_def set_buf_def set_queue_def)
    fix v :: nat assume "v < 2"
    then have w: "th_hw_bufs_used_vif h ! v = int (pend h v) + L v" "0 \<le> L v" using i(3) by (simp_all add: counts_ok_def)
    have u: "th_hw_bufs_used_vif ?h = (th_hw_bufs_used_vif h)[vi := int (pend h vi) + L vi - 1]"
      by (simp add: g_def set_buf_def set_queue_def)
    have "int (pend ?h v) = int (pend h v) - (if v = vi then 1 else 0)" using r(5) [of v] g(6) by simp
    then show "0 \<le> L v" "th_hw_bufs_used_vif ?h ! v = int (pend ?h v) + L v"
      unfolding u using w c(1) vi by (cases "v = vi"; simp)+
  next
    have "pend ?h 0 + pend ?h 1 + 1 = pend h 0 + pend h 1"
      using pend_total [of g ?h vi, OF r(5) vi] g(6) by simp
    then show "int (pend ?h 0 + pend ?h 1) \<le> th_hw_bufs_used ?h"
      using c(4) by (simp add: g_def set_buf_def set_queue_def)
  qed
  moreover have "bufs_ok sz ?h"
    using i(4) bo(2) r(3) g(4) by (simp add: bufs_ok_def g_def set_buf_def set_queue_def)
  ultimately have "tx_ok L sz ?h"
    using r(2) i(2,5) by (simp add: tx_ok_def) (simp add: g_def set_buf_def set_queue_def)
  then show ?thesis
    using gb r(3,4) g(4,5) by (intro exI [of _ ?h]) (simp add: set_queue_def g_def set_buf_def)
qed

text \<open>What waits for transmission: frames, and at most one command.\<close>

definition work :: "tx_hw \<Rightarrow> nat" where
  "work h = waiting_frames h + (if cm_ptr (th_cmd h) = None then 0 else 1)"

text \<open>What was copied last and is not given back yet: a pending frame, or a command.\<close>

definition confirmable :: "tx_ptr option \<Rightarrow> tx_hw \<Rightarrow> bool" where
  "confirmable nc h \<longleftrightarrow> (case nc of None \<Rightarrow> True
     | Some (Skb_ptr skb) \<Rightarrow> (\<exists>qi vi pos. vi < 2 \<and> taken qi vi skb pos h)
     | Some (Cmd_ptr n) \<Rightarrow> cm_last_send_cmd (th_cmd h) AND 0x3F \<noteq> WSM_TRANSMIT_REQ_MSG_ID \<and>
         int (pend h 0 + pend h 1) < th_hw_bufs_used h)"

lemma sched_inv_fields:
  assumes "th_queues h' = th_queues h" "th_env h' = th_env h" "th_stats h' = th_stats h" "th_vifs h' = th_vifs h"
    "th_if_id_selected h' = th_if_id_selected h" "th_tx_burst_idx h' = th_tx_burst_idx h"
  shows "sched_inv h' = sched_inv h" "all_frames h' = all_frames h" "waiting_frames h' = waiting_frames h" "pend h' = pend h"
  using assms by (simp_all add: sched_inv_def all_frames_def waiting_frames_def pend_def fun_eq_iff)

lemma release_command_ok:
  assumes h: "tx_ok L sz h" and u: "int (pend h 0 + pend h 1) < th_hw_bufs_used h"
  shows "tx_ok L sz (snd (wsm_release_tx_buffer 1 h))" "all_frames (snd (wsm_release_tx_buffer 1 h)) = all_frames h"
    "work (snd (wsm_release_tx_buffer 1 h)) = work h"
    "th_numInpChBufs (snd (wsm_release_tx_buffer 1 h)) = th_numInpChBufs h"
    "th_cmd (snd (wsm_release_tx_buffer 1 h)) = th_cmd h"
proof -
  let ?h = "h\<lparr>th_hw_bufs_used := th_hw_bufs_used h - 1\<rparr>"
  have e: "snd (wsm_release_tx_buffer 1 h) = ?h" using u by (simp add: wsm_release_tx_buffer_def Let_def)
  note f = sched_inv_fields [of ?h h, simplified]
  show "tx_ok L sz (snd (wsm_release_tx_buffer 1 h))"
    unfolding e using h u by (simp add: tx_ok_def f counts_ok_def bufs_ok_def)
  show "all_frames (snd (wsm_release_tx_buffer 1 h)) = all_frames h"
    "work (snd (wsm_release_tx_buffer 1 h)) = work h"
    "th_numInpChBufs (snd (wsm_release_tx_buffer 1 h)) = th_numInpChBufs h"
    "th_cmd (snd (wsm_release_tx_buffer 1 h)) = th_cmd h"
    unfolding e work_def by (simp_all add: f)
qed

lemma cmd_failed_ok:
  assumes h: "tx_ok L sz h"
  shows "tx_ok L sz (cmd_failed h)" "all_frames (cmd_failed h) = all_frames h" "work (cmd_failed h) \<le> work h"
    "th_numInpChBufs (cmd_failed h) = th_numInpChBufs h"
    "cm_ptr (th_cmd h) = None \<Longrightarrow> cm_ptr (th_cmd (cmd_failed h)) = None"
proof -
  have f: "sched_inv (cmd_failed h) = sched_inv h" "all_frames (cmd_failed h) = all_frames h"
    "waiting_frames (cmd_failed h) = waiting_frames h" "pend (cmd_failed h) = pend h"
    by (rule sched_inv_fields; simp add: cmd_failed_def)+
  have g: "th_hw_bufs_used (cmd_failed h) = th_hw_bufs_used h" "th_save_buf (cmd_failed h) = th_save_buf h"
    "th_hw_bufs_used_vif (cmd_failed h) = th_hw_bufs_used_vif h" "th_bufs (cmd_failed h) = th_bufs h"
    by (simp_all add: cmd_failed_def)
  have "cmd_ok sz (th_cmd (cmd_failed h))" using h by (simp add: cmd_failed_def tx_ok_def cmd_ok_def WSM_TRANSMIT_REQ_MSG_ID_def)
  then show "tx_ok L sz (cmd_failed h)" using h by (simp add: tx_ok_def f g counts_ok_def bufs_ok_def)
  show "all_frames (cmd_failed h) = all_frames h" "work (cmd_failed h) \<le> work h"
    "th_numInpChBufs (cmd_failed h) = th_numInpChBufs h"
    "cm_ptr (th_cmd h) = None \<Longrightarrow> cm_ptr (th_cmd (cmd_failed h)) = None"
    by (simp_all add: f work_def) (simp_all add: cmd_failed_def)
qed

lemma force_free_ok:
  assumes h: "tx_ok L sz h" and c: "confirmable nc h"
  obtains h' where "atbm_sdio_force_free_wsm nc h = Some h'" "tx_ok L sz h'" "all_frames h' = all_frames h"
    "work h' \<le> work h" "th_numInpChBufs h' = th_numInpChBufs h"
proof (cases nc)
  case None
  then have "atbm_sdio_force_free_wsm nc h = Some h" by (simp add: atbm_sdio_force_free_wsm_def)
  then show ?thesis by (rule that) (use h in simp_all)
next
  case (Some p)
  show ?thesis
  proof (cases p)
    case (Skb_ptr skb)
    then obtain qi vi pos where t: "vi < 2" "taken qi vi skb pos h" using c Some by (auto simp: confirmable_def)
    have "buf_ok sz (th_bufs h skb)"
      using tx_okD(4) [OF h] taken_frame [OF t(2) tx_okD(1) [OF h]] by (simp add: bufs_ok_def)
    then have "wsm_id_of p h = WSM_TRANSMIT_REQ_MSG_ID" by (simp add: wsm_id_of_def Skb_ptr buf_ok_def)
    then have "atbm_sdio_force_free_wsm nc h = give_back (tb_packetID (th_bufs h skb)) h"
      by (simp add: atbm_sdio_force_free_wsm_def Some Skb_ptr WSM_FIRMWARE_CHECK_ID_def WSM_TRANSMIT_REQ_MSG_ID_def)
    with give_back_ok [OF h t(2,1)] that show ?thesis by (auto simp: work_def)
  next
    case (Cmd_ptr n)
    have u: "int (pend h 0 + pend h 1) < th_hw_bufs_used h" "wsm_id_of p h \<noteq> WSM_TRANSMIT_REQ_MSG_ID"
      using c by (simp_all add: Some Cmd_ptr confirmable_def wsm_id_of_def)
    note r = release_command_ok [OF h u(1)]
    note f = cmd_failed_ok [OF r(1)]
    show ?thesis
    proof (cases "wsm_id_of p h = WSM_FIRMWARE_CHECK_ID")
      case True
      then have "atbm_sdio_force_free_wsm nc h = Some (snd (wsm_release_tx_buffer 1 h))"
        by (simp add: atbm_sdio_force_free_wsm_def Some)
      then show ?thesis by (rule that) (use r in simp_all)
    next
      case False
      then have "atbm_sdio_force_free_wsm nc h = Some (cmd_failed (snd (wsm_release_tx_buffer 1 h)))"
        using u(2) by (simp add: atbm_sdio_force_free_wsm_def Some)
      then show ?thesis by (rule that) (use f r in simp_all)
    qed
  qed
qed

section \<open>Waiting for space\<close>

definition flow_ok :: "bus \<Rightarrow> bool" where
  "flow_ok b \<longleftrightarrow> (\<not> atbm_bh_is_term b \<longrightarrow>
     uint (bs_n_xmits b - bs_hw_xmits b) + bs_hw_bufs_free b \<le> uint (th_numInpChBufs (bs_hw b)))"

definition bus_ok :: "(nat \<Rightarrow> int) \<Rightarrow> bus \<Rightarrow> bool" where
  "bus_ok L b \<longleftrightarrow> tx_ok L (unat (bs_sizeInpChBuf b)) (bs_hw b) \<and> 0 \<le> bs_hw_bufs_free b \<and> bs_hw_bufs_free b < 2 ^ 16 \<and>
     flow_ok b \<and> (bs_bh_halt b \<noteq> 0 \<longrightarrow> \<not> bs_plugged b) \<and> unat (bs_sizeInpChBuf b) \<le> SDIO_TX_MAXLEN"

text \<open>Reading the register changes only what is known about the free buffers.\<close>

definition polled :: "bus \<Rightarrow> bus \<Rightarrow> bool" where
  "polled b b' \<longleftrightarrow> b' = b\<lparr>bs_hw_xmits := bs_hw_xmits b', bs_hw_bufs_free := bs_hw_bufs_free b',
     bs_hw_bufs_free_init := bs_hw_bufs_free_init b', bs_read_pos := bs_read_pos b'\<rparr>"

lemma polled_refl [simp]: "polled b b"
  by (simp add: polled_def)

lemma polled_trans: "polled a b \<Longrightarrow> polled b c \<Longrightarrow> polled a c"
  unfolding polled_def by (cases a, cases b, cases c) simp

lemma polled_fields:
  assumes "polled b b'"
  shows "bs_hw b' = bs_hw b" "bs_n_xmits b' = bs_n_xmits b" "bs_sizeInpChBuf b' = bs_sizeInpChBuf b"
    "bs_bh_halt b' = bs_bh_halt b" "bs_xmit_buff b' = bs_xmit_buff b" "bs_sent b' = bs_sent b"
    "atbm_bh_is_term b' = atbm_bh_is_term b" "bs_plugged b' = bs_plugged b" "bs_wsm_tx_seq b' = bs_wsm_tx_seq b"
  using assms unfolding polled_def by (cases b, cases b', simp add: atbm_bh_is_term_def)+

lemma bus_ok_free:
  assumes "bus_ok L b"
  shows "enough_free b 1 \<longleftrightarrow> 0 < bs_hw_bufs_free b"
proof -
  have "0 \<le> bs_hw_bufs_free b" "bs_hw_bufs_free b < 2 ^ 32" using assms by (simp_all add: bus_ok_def)
  then show ?thesis by (simp add: enough_free_def word_le_def uint_word_of_int take_bit_int_eq_self) linarith
qed

lemma bus_ok_polled:
  assumes "bus_ok L b" "polled b b'" "0 \<le> bs_hw_bufs_free b'" "bs_hw_bufs_free b' < 2 ^ 16" "flow_ok b'"
  shows "bus_ok L b'"
  using assms polled_fields [OF assms(2)] by (simp add: bus_ok_def)

lemma direct_read_ok:
  assumes "bus_ok L b" "atbm_direct_read b = (x, b')"
  shows "bus_ok L b'" "polled b b'"
proof -
  have e: "b' = b\<lparr>bs_read_pos := bs_read_pos b + 1\<rparr>" using assms(2) by (simp add: atbm_direct_read_def)
  show "polled b b'"
    by (simp add: polled_def e)
  then show "bus_ok L b'" by (rule bus_ok_polled [OF assms(1)])
      (use assms(1) in \<open>simp_all add: bus_ok_def flow_ok_def e atbm_bh_is_term_def\<close>)
qed

lemma sint_nonneg: "0 \<le> sint (w :: u32) \<Longrightarrow> sint w = uint w"
  using sint_lt [of w] by (simp add: uint_sint take_bit_int_eq_self)

lemma sint_small_diff:
  assumes "uint (d :: u32) \<le> uint (n :: u16)"
  shows "sint (ucast n - d) = uint n - uint d"
proof -
  have "uint (ucast n :: u32) = uint n" by (simp add: uint_up_ucast is_up)
  then have "uint (ucast n - d) = uint n - uint d" using assms by (simp add: uint_sub_lem [THEN iffD1])
  moreover have "uint n < 65536" using uint_lt2p [of n] by simp
  then have "uint n - uint d < 2147483648" "0 \<le> uint n - uint d" using assms uint_ge_0 [of d] by linarith+
  ultimately show ?thesis by (simp add: sint_uint signed_take_bit_int_eq_self)
qed

lemma update_free_ok:
  assumes b: "bus_ok L b" and u: "update_free 1 x b = (ok, b')"
  shows "bus_ok L b'" "polled b b'" "ok \<Longrightarrow> 0 < bs_hw_bufs_free b'"
proof -
  let ?n = "th_numInpChBufs (bs_hw b)" and ?d = "bs_n_xmits b - x"
  have *: "bus_ok L b' \<and> polled b b' \<and> (ok \<longrightarrow> 0 < bs_hw_bufs_free b')"
  proof (cases "sint (bs_n_xmits b) < sint x \<or> uint ?n < sint ?d \<or> sint ?d < 0")
    case True
    then have "ok = False" "b' = b" using u by (auto simp: update_free_def Let_def)
    with b show ?thesis by simp
  next
    case False
    let ?f = "sint (ucast ?n - ?d :: u32)"
    let ?b = "b\<lparr>bs_hw_xmits := x, bs_hw_bufs_free := ?f, bs_hw_bufs_free_init := ?f\<rparr>"
    have e: "b' = ?b" "ok = enough_free ?b 1" using u False by (auto simp: update_free_def Let_def)
    have n: "uint ?n < 65536" using uint_lt2p [of ?n] by simp 
    have d: "uint ?d \<le> uint ?n" using False using sint_nonneg [of ?d] by simp
    have f: "?f = uint ?n - uint ?d" "uint ?n - uint ?d < 65536"
      using sint_small_diff [OF d] n uint_ge_0 [of ?d] by linarith+
    have pl: "polled b ?b"
      by (simp add: polled_def)
    have "bus_ok L ?b" 
      by (rule bus_ok_polled [OF b pl]) (use f n d in \<open>simp_all add: flow_ok_def\<close>)
    with pl bus_ok_free [OF this] show ?thesis by (simp add: e)
  qed
  then show "bus_ok L b'" "polled b b'" "ok \<Longrightarrow> 0 < bs_hw_bufs_free b'" by simp_all
qed

end
