(* ===== verification/Tx_Confirm_Inv.thy ===== *)
theory Tx_Confirm_Inv
  imports Tx_Confirm Sdio_Tx_Inv
begin

text \<open>
  A confirmation settles exactly the frame it names: the frame is given back or queued again, the counters
  of the firmware's buffers follow, and every other pending frame can still be confirmed.
\<close>

section \<open>Live identifiers\<close>

definition live_at :: "nat \<Rightarrow> nat \<Rightarrow> u32 \<Rightarrow> tx_hw \<Rightarrow> bool" where
  "live_at qi pos pid h \<longleftrightarrow> qi < 4 \<and> pos \<in> set (q_pending (th_queues h ! qi)) \<and>
     i_packetID (taken_item qi pos h) = pid \<and> current (th_queues h ! qi) pid"

definition live :: "u32 \<Rightarrow> tx_hw \<Rightarrow> bool" where
  "live pid h \<longleftrightarrow> (\<exists>qi pos. live_at qi pos pid h)"

definition running :: "nat \<Rightarrow> tx_hw \<Rightarrow> bool" where
  "running vi h \<longleftrightarrow> (\<exists>v. th_vifs h ! vi = Some v \<and> vf_mode v \<noteq> NL80211_IFTYPE_UNSPECIFIED)"

text \<open>The fields of an identifier of a pending frame.\<close>

lemma live_fields:
  assumes h: "sched_inv h" and l: "live_at qi pos pid h"
  shows "unat (atbm_queue_get_queue_id pid) = qi" "unat (p_item_id (atbm_queue_parse_id pid)) = pos"
    "unat (atbm_queue_get_if_id pid) = vif_of (taken_item qi pos h)" "unat (atbm_queue_get_if_id pid) < 2"
proof -
  have t: "qi < 4" "pos \<in> set (q_queue (th_queues h ! qi)) \<union> set (q_pending (th_queues h ! qi))"
    "pid = i_packetID (taken_item qi pos h)" using l by (auto simp: live_at_def)
  note q = queue_of [OF sched_invD(1) [OF h] t(1)]
  note p = live_parse [OF q(1) t(2)]
  have i: "atbm_queue_get_if_id pid = p_if_id (atbm_queue_parse_id pid)"
    by (simp add: atbm_queue_get_if_id_def atbm_queue_parse_id_def Let_def)
  show "unat (atbm_queue_get_queue_id pid) = qi" using p(1) q(3) t(3) by (simp add: queue_id_parse)
  show "unat (p_item_id (atbm_queue_parse_id pid)) = pos" using p(2) t(3) by simp
  show v: "unat (atbm_queue_get_if_id pid) = vif_of (taken_item qi pos h)" using p(4) t(3) i by simp
  show "unat (atbm_queue_get_if_id pid) < 2"
    unfolding v using live_item(4) [OF q(1) t(2)] txpriv_ok_bounds(1) by blast
qed

lemma settled_live:
  assumes h: "sched_inv h" and l: "live_at qi pos pid h" and s: "settled pos (th_queues h ! qi) q'"
    and e: "th_queues h' = (th_queues h)[qi := q']"
  shows "live x h' \<longleftrightarrow> live x h \<and> x \<noteq> pid"
proof -
  have qi: "qi < 4" "pos \<in> set (q_pending (th_queues h ! qi))" using l by (simp_all add: live_at_def)
  have len: "length (th_queues h) = 4" by (rule sched_invD(7) [OF h])
  have d: "distinct (q_pending (th_queues h ! qi))"
    using slots_distinct [OF queue_of(4) [OF sched_invD(1) [OF h] qi(1)]] by simp
  have here: "live_at qi j x h' \<longleftrightarrow> live_at qi j x h \<and> j \<noteq> pos" for j x
    using s d len qi by (auto simp: live_at_def e settled_def current_def)
  have there: "live_at k j x h' \<longleftrightarrow> live_at k j x h" if "k \<noteq> qi" for k j x
    using that by (simp add: live_at_def e)
  have same: "k = qi \<and> j = pos" if "live_at k j pid h" for k j
    using live_fields(1,2) [OF h that] live_fields(1,2) [OF h l] by simp
  show ?thesis
  proof
    assume "live x h'"
    then obtain k j where kj: "live_at k j x h'" by (auto simp: live_def)
    then have "live_at k j x h" "k = qi \<longrightarrow> j \<noteq> pos" using here there by (cases "k = qi"; blast)+
    then show "live x h \<and> x \<noteq> pid" using same by (auto simp: live_def)
  next
    assume x: "live x h \<and> x \<noteq> pid"
    then obtain k j where kj: "live_at k j x h" by (auto simp: live_def)
    have "\<not> (k = qi \<and> j = pos)" using x kj l by (auto simp: live_at_def)
    then have "live_at k j x h'" using kj here there by (cases "k = qi") blast+
    then show "live x h'" by (auto simp: live_def)
  qed
qed

section \<open>Queueing a frame again\<close>

lemma remove_frees:
  assumes "remove_unthrottle v q e = Some (q', e')" "gate_ok p e" "unat (q_queue_id p) < 4"
    "unat (q_queue_id q) < 4" "unat (q_queue_id p) \<noteq> unat (q_queue_id q)"
  shows "gate_ok p e'"
  using assms(1,2) unlock_keeps_others [of "q\<lparr>q_overfull := ov\<rparr>" v e q' e' p for ov] assms(3-5)
  by (auto simp: remove_unthrottle_def bind_eq_Some_conv wr_Some split: if_splits)

lemma requeue_pending_step:
  assumes h: "sched_inv h" and l: "live_at qi pos pid h"
  obtains r q' s' e' where
    "atbm_queue_requeue (th_queues h ! qi) (th_stats h) (th_env h) pid True = Some (r, q', s', e')"
    "sched_inv (set_queue qi q' (h\<lparr>th_stats := s', th_env := e'\<rparr>))"
    "all_frames (set_queue qi q' (h\<lparr>th_stats := s', th_env := e'\<rparr>)) = all_frames h"
    "\<And>w. pend h w = pend (set_queue qi q' (h\<lparr>th_stats := s', th_env := e'\<rparr>)) w +
       (if w = vif_of (taken_item qi pos h) then 1 else 0)"
    "settled pos (th_queues h ! qi) q'" "atomic_alloc e' = atomic_alloc (th_env h)"
proof -
  let ?q = "th_queues h ! qi" and ?it = "taken_item qi pos h"
  have t: "qi < 4" "pos \<in> set (q_pending ?q)" "pid = i_packetID ?it" "current ?q (i_packetID ?it)"
    using l by (auto simp: live_at_def)
  note q = queue_of [OF sched_invD(1) [OF h] t(1)]
  have len: "qi < length (th_queues h)" using t(1) sched_invD(7) [OF h] by simp
  show ?thesis
  proof (cases "True \<and> unat (tp_offchannel_if_id (i_txpriv ?it)) = ATBM_WIFI_GENERIC_IF_ID")
    case True
    obtain q' e' where r:
      "atbm_queue_remove ?q (th_env h) (i_packetID ?it) = Some (Inr (), q', e')"
      "sched_inv (set_queue qi q' (h\<lparr>th_env := e'\<rparr>))"
      "all_frames (set_queue qi q' (h\<lparr>th_env := e'\<rparr>)) = all_frames h"
      "waiting_frames (set_queue qi q' (h\<lparr>th_env := e'\<rparr>)) = waiting_frames h"
      "\<And>w. pend h w = pend (set_queue qi q' (h\<lparr>th_env := e'\<rparr>)) w + (if w = vif_of ?it then 1 else 0)"
      "settled pos ?q q'" "dtor_skbs (tx_log e') = dtor_skbs (tx_log (th_env h)) @ [i_skb ?it]"
      "atomic_alloc e' = atomic_alloc (th_env h)"
      by (rule remove_pending_step [OF h t(1,2,4) refl]) (rule that)
    note rq = atbm_queue_requeue_offchannel [OF q(1) t(2) True r(1), of "th_stats h"]
    have e: "h\<lparr>th_stats := th_stats h, th_env := e'\<rparr> = h\<lparr>th_env := e'\<rparr>" by simp
    show ?thesis
      by (rule that [of "Inr ()" q' "th_stats h" e']) (use rq r t(3) in \<open>simp_all only: e\<close>)
  next
    case False
    let ?m = "mark_offchannel True ?q pos"
    let ?r = "requeue_queue ?m pos" and ?s = "stats_inc (vif_of ?it) (link_of ?it) (th_stats h)"
    have rq: "atbm_queue_requeue ?q (th_stats h) (th_env h) pid True = Some (Inr (), ?r, ?s, th_env h)"
      using atbm_queue_requeue_pending [OF q(1) sched_invD(2) [OF h] t(2) False, of "th_env h"] t(3,4) by simp
    have mi: "queue_inv ?m" using q(1) by simp
    have "core_inv ?r" using mi t(2) by (intro core_inv_requeue) (simp_all add: queue_inv_def)
    then have ri: "queue_inv ?r" using mi by (simp add: queue_inv_def requeue_queue_shape)
    have st: "stats_ok ?s" using sched_invD(2) [OF h] by simp
    have id: "q_queue_id ?r = q_queue_id ?q" by (simp add: requeue_queue_def Let_def)
    have g: "gate_ok ?r (th_env h)" using q(2) by (simp add: requeue_queue_shape)
    let ?h = "set_queue qi ?r (h\<lparr>th_stats := ?s, th_env := th_env h\<rparr>)"
    have "queues_ok ((th_queues h)[qi := ?r]) (th_env h)"
      by (rule queues_ok_update [OF sched_invD(1) [OF h] t(1) ri g id])
        (use queue_of(2) [OF sched_invD(1) [OF h]] in auto)
    then have inv: "sched_inv ?h" using h st by (simp add: sched_inv_def set_queue_def)
    have fr: "all_frames ?h = all_frames h"
      using bank_frames_update [OF len, of ?r] requeue_frames [OF mi] t(2)
      by (simp add: all_frames_def set_queue_def)
    have ic: "icount (in_vif w) (q_pool ?r) (q_pending ?r) + (if w = vif_of ?it then 1 else 0) =
        icount (in_vif w) (q_pool ?q) (q_pending ?q)" for w
    proof -
      have "icount (in_vif w) (q_pool ?r) (q_pending ?r) = icount (in_vif w) (q_pool ?q) (remove1 pos (q_pending ?q))"
        using slots_distinct [OF q(4)] unfolding requeue_queue_def Let_def
        by (simp add: icount_update_other)
      then show ?thesis using t(2) by (simp add: icount_remove1 [OF t(2)] in_vif_def)
    qed
    have pd: "pend h w = pend ?h w + (if w = vif_of ?it then 1 else 0)" for w
      using pend_update [OF len, of w ?r] ic [of w] unfolding pend_def set_queue_def by simp
    have stl: "settled pos ?q ?r" by (auto simp: settled_def requeue_queue_def Let_def nth_update mark_offchannel_def)
    show ?thesis by (rule that [OF rq inv fr pd stl refl])
  qed
qed

section \<open>One confirmation\<close>

text \<open>
  The buffers of the firmware are counted by the caller: \<open>u\<close> is what the total will be when all
  confirmations of the message have been read.
\<close>

abbreviation counted :: "int \<Rightarrow> tx_hw \<Rightarrow> tx_hw" where
  "counted u h \<equiv> h\<lparr>th_hw_bufs_used := u\<rparr>"

lemma counted_same: "th_hw_bufs_used k = th_hw_bufs_used (counted u h) \<Longrightarrow> counted u k = k"
  by auto

lemma tx_ok_settled:
  assumes h: "tx_ok L sz (counted u h)" and v: "vi < 2" and k: "sched_inv k" "all_frames k = all_frames h"
    and p: "\<And>w. pend h w = pend k w + (if w = vi then 1 else 0)"
    and c: "th_hw_bufs_used_vif k = (th_hw_bufs_used_vif h)[vi := th_hw_bufs_used_vif h ! vi - 1]"
      "th_cmd k = th_cmd h" "th_save_buf k = th_save_buf h"
    and b: "\<And>s. buf_ok sz (th_bufs h s) \<Longrightarrow> buf_ok sz (th_bufs k s)"
  shows "tx_ok L sz (counted (u - 1) k)"
proof -
  have f: "sched_inv (counted x m) = sched_inv m" "all_frames (counted x m) = all_frames m" "pend (counted x m) = pend m"
    for x m using sched_inv_fields [of "counted x m" m] by simp_all
  have hc: "length (th_hw_bufs_used_vif h) = 2" "\<And>w. w < 2 \<Longrightarrow> 0 \<le> L w \<and> th_hw_bufs_used_vif h ! w = int (pend h w) + L w"
    "int (pend h 0 + pend h 1) \<le> u"
    using tx_okD(3) [OF h] by (simp_all add: counts_ok_def f)
  have pt: "pend h 0 + pend h 1 = pend k 0 + pend k 1 + 1" by (rule pend_total [OF p v])
  have "counts_ok L (counted (u - 1) k)"
    using hc v pt p by (auto simp: counts_ok_def f c(1) nth_update)
  moreover have "bufs_ok sz (counted (u - 1) k)" using tx_okD(4) [OF h] b by (simp add: bufs_ok_def f k(2))
  ultimately show ?thesis using h k(1) by (simp add: tx_ok_def f c(2,3))
qed

lemma mark_acked_ok:
  obtains g where "mark_acked c (Some s) h = Some g" "sched_inv g = sched_inv h" "all_frames g = all_frames h"
    "pend g = pend h" "th_queues g = th_queues h" "th_env g = th_env h"
    "th_vifs g = th_vifs h \<and> th_numInpChBufs g = th_numInpChBufs h"
    "th_hw_bufs_used_vif g = th_hw_bufs_used_vif h" "th_cmd g = th_cmd h" "th_save_buf g = th_save_buf h"
    "th_hw_bufs_used g = th_hw_bufs_used h"
    "\<And>x sz. buf_ok sz (th_bufs h x) \<Longrightarrow> buf_ok sz (th_bufs g x)"
proof -
  let ?g = "if tc_status c \<noteq> 0 then h
     else set_buf s (\<lambda>b. b\<lparr>tb_flags := tb_flags b OR IEEE80211_TX_STAT_ACK\<rparr>) h"
  have e: "mark_acked c (Some s) h = Some ?g" by (simp add: mark_acked_def)
  have q: "th_queues ?g = th_queues h" "th_env ?g = th_env h" "th_stats ?g = th_stats h" "th_vifs ?g = th_vifs h"
    "th_if_id_selected ?g = th_if_id_selected h" "th_tx_burst_idx ?g = th_tx_burst_idx h"
    by (simp_all add: set_buf_def)
  note f = sched_inv_fields [OF q]
  show ?thesis
    by (rule that [OF e f(1,2,4) q(1,2)]) (auto simp: set_buf_def buf_ok_def)
qed

lemma confirm_cb_live:
  assumes h: "sched_inv h" and l: "live_at qi pos (tc_packetID c) h" and r: "running (vif_of (taken_item qi pos h)) h"
    and c: "tc_if_id c = atbm_queue_get_if_id (tc_packetID c)"
  obtains q' k where "atbm_tx_confirm_cb c h = Some k" "sched_inv k" "all_frames k = all_frames h"
    "\<And>w. pend h w = pend k w + (if w = vif_of (taken_item qi pos h) then 1 else 0)"
    "settled pos (th_queues h ! qi) q'" "th_queues k = (th_queues h)[qi := q']" "th_vifs k = th_vifs h \<and> th_numInpChBufs k = th_numInpChBufs h"
    "th_hw_bufs_used_vif k = th_hw_bufs_used_vif h" "th_cmd k = th_cmd h" "th_save_buf k = th_save_buf h"
    "th_hw_bufs_used k = th_hw_bufs_used h" "atomic_alloc (th_env k) = atomic_alloc (th_env h)"
    "\<And>x sz. buf_ok sz (th_bufs h x) \<Longrightarrow> buf_ok sz (th_bufs k x)"
proof -
  let ?q = "th_queues h ! qi" and ?it = "taken_item qi pos h" and ?pid = "tc_packetID c"
  have t: "qi < 4" "pos \<in> set (q_pending ?q)" "i_packetID ?it = ?pid" "current ?q ?pid"
    using l by (simp_all add: live_at_def)
  have t': "pos \<in> set (q_queue ?q) \<union> set (q_pending ?q)" using t(2) by simp
  note q = queue_of [OF sched_invD(1) [OF h] t(1)]
  note lf = live_fields [OF h l]
  obtain skb where skb: "i_skb ?it = Some skb" using live_item(3) [OF q(1) t'] by (auto simp: item_ok_def)
  have gs: "atbm_queue_get_skb ?q ?pid = Some (Inr (Some skb, i_txpriv ?it))"
    using check_packet_live [OF q(1) t'] t(3,4) skb by (simp add: atbm_queue_get_skb_def)
  obtain v where v: "th_vifs h ! vif_of ?it = Some v" "vf_mode v \<noteq> NL80211_IFTYPE_UNSPECIFIED"
    using r by (auto simp: running_def)
  have vif: "confirm_vif (tc_if_id c) h = Some (Some v)"
    using v lf(3,4) c sched_invD(8) [OF h] by (simp add: confirm_vif_def ATBM_WIFI_MAX_VIFS_def)
  obtain ag where ag: "retry_eapol c (Some skb) h = Some ag"
    by (cases "retry_eapol c (Some skb) h") (auto simp: retry_eapol_def split: if_splits)
  have rq: "rd (th_queues h) qi = Some ?q" using t(1) sched_invD(7) [OF h] by simp
  have e: "atbm_tx_confirm_cb c h =
      (if ag then do {
              (_, q, s, e) \<leftarrow> atbm_queue_requeue ?q (th_stats h) (th_env h) ?pid True;
              Some (set_queue qi q (h\<lparr>th_stats := s, th_env := e\<rparr>)) }
            else do {
              h \<leftarrow> mark_acked c (Some skb) h;
              (_, q, e) \<leftarrow> atbm_queue_remove ?q (th_env h) ?pid;
              Some (set_queue qi q (h\<lparr>th_env := e\<rparr>)) })"
    unfolding atbm_tx_confirm_cb_def vif using lf(1) t(1) rq gs ag by simp
  show ?thesis
  proof (cases ag)
    case True
    obtain x q' s' e' where p:
      "atbm_queue_requeue ?q (th_stats h) (th_env h) ?pid True = Some (x, q', s', e')"
      "sched_inv (set_queue qi q' (h\<lparr>th_stats := s', th_env := e'\<rparr>))"
      "all_frames (set_queue qi q' (h\<lparr>th_stats := s', th_env := e'\<rparr>)) = all_frames h"
      "\<And>w. pend h w = pend (set_queue qi q' (h\<lparr>th_stats := s', th_env := e'\<rparr>)) w + (if w = vif_of ?it then 1 else 0)"
      "settled pos ?q q'" "atomic_alloc e' = atomic_alloc (th_env h)"
      by (rule requeue_pending_step [OF h l]) (rule that)
    have "atbm_tx_confirm_cb c h = Some (set_queue qi q' (h\<lparr>th_stats := s', th_env := e'\<rparr>))"
      using e True p(1) by simp
    then show ?thesis by (rule that [OF _ p(2-5)]) (use p(6) in \<open>simp_all add: set_queue_def\<close>)
  next
    case False
    obtain g where g: "mark_acked c (Some skb) h = Some g" "sched_inv g = sched_inv h" "all_frames g = all_frames h"
      "pend g = pend h" "th_queues g = th_queues h" "th_env g = th_env h"
    "th_vifs g = th_vifs h \<and> th_numInpChBufs g = th_numInpChBufs h"
      "th_hw_bufs_used_vif g = th_hw_bufs_used_vif h" "th_cmd g = th_cmd h" "th_save_buf g = th_save_buf h"
      "th_hw_bufs_used g = th_hw_bufs_used h"
      "\<And>x sz. buf_ok sz (th_bufs h x) \<Longrightarrow> buf_ok sz (th_bufs g x)"
      by (rule mark_acked_ok) (rule that)
    have gi: "sched_inv g" using g(2) h by simp
    have tg: "pos \<in> set (q_pending (th_queues g ! qi))" "current (th_queues g ! qi) (i_packetID (taken_item qi pos g))"
      using t(2-4) by (simp_all add: g(5))
    obtain q' e' where p:
      "atbm_queue_remove (th_queues g ! qi) (th_env g) (i_packetID (taken_item qi pos g)) = Some (Inr (), q', e')"
      "sched_inv (set_queue qi q' (g\<lparr>th_env := e'\<rparr>))"
      "all_frames (set_queue qi q' (g\<lparr>th_env := e'\<rparr>)) = all_frames g"
      "waiting_frames (set_queue qi q' (g\<lparr>th_env := e'\<rparr>)) = waiting_frames g"
      "\<And>w. pend g w = pend (set_queue qi q' (g\<lparr>th_env := e'\<rparr>)) w + (if w = vif_of (taken_item qi pos g) then 1 else 0)"
      "settled pos (th_queues g ! qi) q'" "dtor_skbs (tx_log e') = dtor_skbs (tx_log (th_env g)) @ [i_skb (taken_item qi pos g)]"
      "atomic_alloc e' = atomic_alloc (th_env g)"
      by (rule remove_pending_step [OF gi t(1) tg refl]) (rule that)
    have "atbm_tx_confirm_cb c h = Some (set_queue qi q' (g\<lparr>th_env := e'\<rparr>))"
      using e False g(1) p(1) t(3) by (simp add: g(5,6))
    then show ?thesis
      by (rule that [OF _ p(2)]) (use p(3,5,6,8) g in \<open>simp_all add: set_queue_def\<close>)
  qed
qed

lemma tx_confirm_live:
  assumes h: "tx_ok L sz (counted u h)" and l: "live (tc_packetID c) h"
    and r: "running (unat (atbm_queue_get_if_id (tc_packetID c))) h"
    and m: "get_tx_confirm buf = Some (c, rest)"
  obtains k where "wsm_tx_confirm buf h = Some (Inr rest, k)" "tx_ok L sz (counted (u - 1) k)"
    "all_frames k = all_frames h" "th_vifs k = th_vifs h \<and> th_numInpChBufs k = th_numInpChBufs h" "th_hw_bufs_used k = th_hw_bufs_used h"
    "\<And>x. live x k \<longleftrightarrow> live x h \<and> x \<noteq> tc_packetID c"
proof -
  obtain qi pos where l': "live_at qi pos (tc_packetID c) h" using l by (auto simp: live_def)
  have si: "sched_inv h" using tx_okD(1) [OF h] sched_inv_fields(1) [of "counted u h" h] by simp
  have c: "tc_if_id c = atbm_queue_get_if_id (tc_packetID c)"
    using m by (auto simp: get_tx_confirm_def bind_eq_Some_conv)
  note lf = live_fields [OF si l']
  let ?v = "vif_of (taken_item qi pos h)"
  have v: "?v < 2" using lf(3,4) by simp
  have hc: "length (th_hw_bufs_used_vif h) = 2" "0 \<le> L ?v" "th_hw_bufs_used_vif h ! ?v = int (pend h ?v) + L ?v"
    using tx_okD(3) [OF h] v sched_inv_fields(4) [of "counted u h" h] by (simp_all add: counts_ok_def)
  define g where "g = h\<lparr>th_hw_bufs_used_vif := (th_hw_bufs_used_vif h)[?v := th_hw_bufs_used_vif h ! ?v - 1]\<rparr>"
  have gf: "sched_inv g = sched_inv h" "all_frames g = all_frames h" "pend g = pend h"
    using sched_inv_fields [of g h] by (simp_all add: g_def)
  have gq: "th_queues g = th_queues h" "th_vifs g = th_vifs h \<and> th_numInpChBufs g = th_numInpChBufs h" by (simp_all add: g_def)
  have lg: "live_at qi pos (tc_packetID c) g" using l' by (simp add: live_at_def gq)
  have rg: "running (vif_of (taken_item qi pos g)) g" using r lf(3) by (simp add: running_def gq)
  have sg: "sched_inv g" using gf(1) si by simp
  obtain q' k where k: "atbm_tx_confirm_cb c g = Some k" "sched_inv k" "all_frames k = all_frames g"
    "\<And>w. pend g w = pend k w + (if w = vif_of (taken_item qi pos g) then 1 else 0)"
    "settled pos (th_queues g ! qi) q'" "th_queues k = (th_queues g)[qi := q']" "th_vifs k = th_vifs g \<and> th_numInpChBufs k = th_numInpChBufs g"
    "th_hw_bufs_used_vif k = th_hw_bufs_used_vif g" "th_cmd k = th_cmd g" "th_save_buf k = th_save_buf g"
    "th_hw_bufs_used k = th_hw_bufs_used g" "atomic_alloc (th_env k) = atomic_alloc (th_env g)"
    "\<And>x sz. buf_ok sz (th_bufs g x) \<Longrightarrow> buf_ok sz (th_bufs k x)"
    by (rule confirm_cb_live [OF sg lg rg c]) (rule that)
  have "pend h ?v = pend k ?v + 1" using k(4) [of ?v] gf(3) by (simp add: gq)
  then have "wsm_release_vif_tx_buffer (unat (tc_if_id c)) 1 h = Some g"
    using hc v lf(3) c by (simp add: wsm_release_vif_tx_buffer_def g_def)
  then have e: "wsm_tx_confirm buf h = Some (Inr rest, k)" using m k(1) by (simp add: wsm_tx_confirm_def)
  have pk: "\<And>w. pend h w = pend k w + (if w = ?v then 1 else 0)" using k(4) gf(3) by (simp add: gq)
  have "tx_ok L sz (counted (u - 1) k)"
    by (rule tx_ok_settled [OF h v k(2) _ pk]) (use k gf in \<open>simp_all add: g_def\<close>)
  moreover have "live x k \<longleftrightarrow> live x h \<and> x \<noteq> tc_packetID c" for x
    by (rule settled_live [OF si l']) (use k(5,6) in \<open>simp_all add: gq\<close>)
  ultimately show ?thesis
    by (intro that [OF e]) (use k(3,7,11) gf in \<open>simp_all add: g_def\<close>)
qed

section \<open>Messages\<close>

text \<open>How the firmware writes a confirmation.\<close>

definition put_tx_confirm :: "tx_confirm \<Rightarrow> u8 list" where
  "put_tx_confirm c = put_le32 (tc_packetID c) @ put_le32 (tc_status c) @ [tc_txedRate c, tc_ackFailures c] @
     put_le16 (tc_flags c) @ put_le32 (tc_mediaDelay c) @ put_le32 (tc_txQueueDelay c)"

definition confirm_ids :: "tx_confirm \<Rightarrow> tx_confirm" where
  "confirm_ids c = c\<lparr>tc_if_id := atbm_queue_get_if_id (tc_packetID c),
     tc_link_id := atbm_queue_get_link_id (tc_packetID c)\<rparr>"

lemma GET_put [simp]:
  "WSM_GET32 (put_le32 w @ buf) = Some (w, buf)" "WSM_GET16 (put_le16 x @ buf) = Some (x, buf)"
  using le16_put_le16 [of "[]" x "[]"]
  by (simp_all add: put_le32_def le32_put_le32) (simp add: put_le16_def le16_at_def)

lemma get_put_tx_confirm: "get_tx_confirm (put_tx_confirm c @ buf) = Some (confirm_ids c, buf)"
  by (simp add: get_tx_confirm_def put_tx_confirm_def confirm_ids_def)

lemma confirm_ids_sel [simp]: "tc_packetID (confirm_ids c) = tc_packetID c"
  by (simp add: confirm_ids_def)

definition confirmable_all :: "tx_confirm list \<Rightarrow> tx_hw \<Rightarrow> bool" where
  "confirmable_all cs h \<longleftrightarrow> distinct (map tc_packetID cs) \<and>
     list_all (\<lambda>c. live (tc_packetID c) h \<and> running (unat (atbm_queue_get_if_id (tc_packetID c))) h) cs"

lemma confirm_loop_live:
  assumes "tx_ok L sz (counted u h)" "confirmable_all cs h"
  shows "\<exists>k. confirm_loop (length cs) (concat (map put_tx_confirm cs) @ rest) h = Some (Inr rest, k) \<and>
     tx_ok L sz (counted (u - int (length cs)) k) \<and> all_frames k = all_frames h \<and>
     th_vifs k = th_vifs h \<and> th_numInpChBufs k = th_numInpChBufs h \<and>
     th_hw_bufs_used k = th_hw_bufs_used h \<and> (\<forall>x. live x k \<longleftrightarrow> live x h \<and> x \<notin> tc_packetID ` set cs)"
  using assms
proof (induction cs arbitrary: u h)
  case (Cons c cs)
  have c: "live (tc_packetID c) h" "running (unat (atbm_queue_get_if_id (tc_packetID c))) h"
    "tc_packetID c \<notin> tc_packetID ` set cs" "confirmable_all cs h"
    using Cons.prems(2) by (simp_all add: confirmable_all_def)
  let ?rest = "concat (map put_tx_confirm cs) @ rest"
  obtain k where k: "wsm_tx_confirm (put_tx_confirm c @ ?rest) h = Some (Inr ?rest, k)" "tx_ok L sz (counted (u - 1) k)"
    "all_frames k = all_frames h" "th_vifs k = th_vifs h \<and> th_numInpChBufs k = th_numInpChBufs h" "th_hw_bufs_used k = th_hw_bufs_used h"
    "\<And>x. live x k \<longleftrightarrow> live x h \<and> x \<noteq> tc_packetID (confirm_ids c)"
    by (rule tx_confirm_live [OF Cons.prems(1) _ _ get_put_tx_confirm [of c ?rest]]) (use c in simp_all)
  have "confirmable_all cs k"
    using c(3,4) k(4,6) by (auto simp: confirmable_all_def running_def list_all_iff dest: rev_image_eqI [OF _ sym])
  from Cons.IH [OF k(2) this] obtain m where
    m: "confirm_loop (length cs) ?rest k = Some (Inr rest, m)"
      "tx_ok L sz (counted (u - 1 - int (length cs)) m)" "all_frames m = all_frames k" "th_vifs m = th_vifs k \<and> th_numInpChBufs m = th_numInpChBufs k"
      "th_hw_bufs_used m = th_hw_bufs_used k" "\<forall>x. live x m \<longleftrightarrow> live x k \<and> x \<notin> tc_packetID ` set cs"
    by blast
  have e: "u - 1 - int (length cs) = u - int (length (c # cs))" by simp
  show ?case
    using k m(1,3-6) m(2) [unfolded e] by (intro exI [of _ m]) auto
qed simp

text \<open>One message that confirms several frames; the firmware's buffers come back with it.\<close>

lemma rx_multi_live:
  assumes h: "tx_ok L sz h" and c: "confirmable_all cs h" and n: "0 < length cs" "length cs < 2 ^ 31"
  shows "\<exists>k. rx_tx_confirm True (put_le32 (of_nat (length cs)) @ concat (map put_tx_confirm cs) @ rest) h =
       Some (Inr rest, k) \<and> tx_ok L sz k \<and> all_frames k = all_frames h \<and>
     th_vifs k = th_vifs h \<and> th_numInpChBufs k = th_numInpChBufs h \<and>
     th_hw_bufs_used k = th_hw_bufs_used h - int (length cs) \<and>
     (\<forall>x. live x k \<longleftrightarrow> live x h \<and> x \<notin> tc_packetID ` set cs)"
proof -
  let ?n = "length cs" and ?u = "th_hw_bufs_used h"
  have h': "tx_ok L sz (counted ?u h)" using h by simp
  obtain k0 where k0: "tx_ok L sz (counted (?u - int ?n) k0)"
    using confirm_loop_live [OF h' c, of "[]"] by auto
  have le: "int ?n \<le> ?u" using tx_okD(3) [OF k0] by (simp add: counts_ok_def)
  let ?g = "counted (?u - int ?n) h"
  have s: "sint (of_nat ?n :: u32) = int ?n"
    using n(2) by (simp add: sint_uint unsigned_of_nat take_bit_nat_eq_self take_bit_int_eq_self signed_take_bit_int_eq_self)
  have "1 \<le> int ?n" using n(1) by linarith
  with le have le1: "1 \<le> ?u" by linarith
  have r1: "rx_credit WSM_LEGACY_MULTI_TX_CNF_ID h = counted (?u - 1) h"
    using le1 by (simp add: rx_credit_def WSM_LEGACY_MULTI_TX_CNF_ID_def wsm_release_tx_buffer_def Let_def)
  have r2: "(if 1 < int ?n then snd (wsm_release_tx_buffer (int ?n - 1) (counted (?u - 1) h)) else counted (?u - 1) h) = ?g"
  proof (cases "1 < int ?n")
    case True
    then show ?thesis using le by (simp add: wsm_release_tx_buffer_def Let_def)
  next
    case False
    with \<open>1 \<le> int ?n\<close> have "int ?n = 1" by linarith
    then show ?thesis by simp
  qed
  have e: "rx_tx_confirm True (put_le32 (of_nat ?n) @ concat (map put_tx_confirm cs) @ rest) h =
      confirm_loop ?n (concat (map put_tx_confirm cs) @ rest) ?g"
    unfolding rx_tx_confirm_def if_True r1 wsm_multi_tx_confirm_def GET_put(1) option.case prod.case s r2
    using n(1) by simp
  have g: "live x ?g = live x h" "running v ?g = running v h" "all_frames ?g = all_frames h" for x v
    by (simp_all add: live_def live_at_def running_def sched_inv_fields(2) [of ?g h])
  have "confirmable_all cs ?g" using c by (simp add: confirmable_all_def g)
  from confirm_loop_live [OF _ this, of L sz ?u rest] h'
  obtain k where k: "confirm_loop ?n (concat (map put_tx_confirm cs) @ rest) ?g = Some (Inr rest, k)"
    "tx_ok L sz (counted (?u - int ?n) k)" "all_frames k = all_frames ?g" "th_vifs k = th_vifs ?g \<and> th_numInpChBufs k = th_numInpChBufs ?g"
    "th_hw_bufs_used k = th_hw_bufs_used ?g" "\<forall>x. live x k \<longleftrightarrow> live x ?g \<and> x \<notin> tc_packetID ` set cs"
    by auto
  have "tx_ok L sz k" using k(2) by (simp only: counted_same [OF k(5)])
  with k e g show ?thesis by auto
qed

lemma rx_single_live:
  assumes h: "tx_ok L sz h" and c: "confirmable_all [c] h"
  shows "\<exists>k. rx_tx_confirm False (put_tx_confirm c @ rest) h = Some (Inr rest, k) \<and> tx_ok L sz k \<and>
     all_frames k = all_frames h \<and> th_vifs k = th_vifs h \<and> th_numInpChBufs k = th_numInpChBufs h \<and>
     th_hw_bufs_used k = th_hw_bufs_used h - 1 \<and>
     (\<forall>x. live x k \<longleftrightarrow> live x h \<and> x \<noteq> tc_packetID c)"
proof -
  let ?u = "th_hw_bufs_used h"
  have h': "tx_ok L sz (counted ?u h)" using h by simp
  obtain k0 where k0: "tx_ok L sz (counted (?u - 1) k0)"
    using confirm_loop_live [OF h' c, of "[]"] by auto
  have le: "1 \<le> ?u" using tx_okD(3) [OF k0] by (simp add: counts_ok_def)
  let ?g = "counted (?u - 1) h"
  have e: "rx_tx_confirm False (put_tx_confirm c @ rest) h = wsm_tx_confirm (put_tx_confirm c @ rest) ?g"
    using le by (simp add: rx_tx_confirm_def rx_credit_def WSM_TX_REQ_ID_def wsm_release_tx_buffer_def Let_def)
  have g: "live x ?g = live x h" "running v ?g = running v h" "all_frames ?g = all_frames h" for x v
    by (simp_all add: live_def live_at_def running_def sched_inv_fields(2) [of ?g h])
  obtain k where k: "wsm_tx_confirm (put_tx_confirm c @ rest) ?g = Some (Inr rest, k)" "tx_ok L sz (counted (?u - 1) k)"
    "all_frames k = all_frames ?g" "th_vifs k = th_vifs ?g \<and> th_numInpChBufs k = th_numInpChBufs ?g" "th_hw_bufs_used k = th_hw_bufs_used ?g"
    "\<And>x. live x k \<longleftrightarrow> live x ?g \<and> x \<noteq> tc_packetID (confirm_ids c)"
    by (rule tx_confirm_live [OF _ _ _ get_put_tx_confirm [of c rest], where h = ?g and L = L and sz = sz and u = ?u])
      (use h c g in \<open>simp_all add: confirmable_all_def\<close>)
  have "tx_ok L sz k" using k(2) by (simp only: counted_same [OF k(5)])
  with k e g show ?thesis by auto
qed

text \<open>
  The interface number in an identifier is not compared with the number of interfaces before the counter of the
  interface is decremented.
\<close>

lemma confirm_wild_interface:
  assumes "length (th_hw_bufs_used_vif h) = 2" "2 \<le> unat (atbm_queue_get_if_id (tc_packetID c))"
  shows "wsm_tx_confirm (put_tx_confirm c @ rest) h = None"
  using assms by (simp add: wsm_tx_confirm_def get_put_tx_confirm wsm_release_vif_tx_buffer_def rd_def) (simp add: confirm_ids_def)

end
