(* ===== verification/Sdio_Tx_Loops.thy ===== *)
theory Sdio_Tx_Loops
  imports Sdio_Tx_Inv
begin

text \<open>
  The two loops of \<open>atbm_sdio_tx_bh\<close>, which collects frames into a transfer and sends transfers until nothing
  may be sent, return: what waits gets less with every frame, and a turn that sends nothing ends with
  free buffers or with the bus given up.
\<close>

section \<open>Polling for space\<close>

lemma pool_loop_ok:
  assumes "bus_ok L b"
  obtains ok b' where "pool_loop k 1 b = (ok, b')" "bus_ok L b'" "polled b b'" "ok \<longrightarrow> 0 < bs_hw_bufs_free b'"
proof -
  have "\<exists>ok b'. pool_loop k 1 b = (ok, b') \<and> bus_ok L b' \<and> polled b b' \<and> (ok \<longrightarrow> 0 < bs_hw_bufs_free b')"
    using assms
  proof (induction k arbitrary: b)
    case (Suc k)
    obtain x c where c: "atbm_direct_read b = (x, c)" by fastforce
    note rc = direct_read_ok [OF Suc.prems c]
    show ?case
    proof (cases x)
      case (Some y)
      obtain ok d where d: "update_free 1 y c = (ok, d)" by fastforce
      note ud = update_free_ok [OF rc(1) d]
      show ?thesis
      proof (cases ok)
        case True
        with c Some d ud polled_trans [OF rc(2) ud(2)] show ?thesis by auto
      next
        case False
        from Suc.IH [OF ud(1)] obtain ok' e where "pool_loop k 1 d = (ok', e)" "bus_ok L e" "polled d e"
          "ok' \<longrightarrow> 0 < bs_hw_bufs_free e" by blast
        with c Some d False polled_trans [OF polled_trans [OF rc(2) ud(2)]] show ?thesis by simp
      qed
    qed (use c rc in auto)
  qed auto
  with that show ?thesis by blast
qed

lemma wait_loop_ok:
  assumes "bus_ok L b"
  obtains ok b' where "wait_loop k 1 b = (ok, b')" "bus_ok L b'" "polled b b'" "ok \<longrightarrow> 0 < bs_hw_bufs_free b'"
proof -
  have "\<exists>ok b'. wait_loop k 1 b = (ok, b') \<and> bus_ok L b' \<and> polled b b' \<and> (ok \<longrightarrow> 0 < bs_hw_bufs_free b')"
    using assms
  proof (induction k arbitrary: b)
    case (Suc k)
    obtain x c where c: "atbm_direct_read b = (x, c)" by fastforce
    note rc = direct_read_ok [OF Suc.prems c]
    show ?case
    proof (cases "atbm_bh_is_term b")
      case False
      show ?thesis
      proof (cases x)
        case (Some y)
        obtain ok d where d: "update_free 1 y c = (ok, d)" by fastforce
        note ud = update_free_ok [OF rc(1) d]
        show ?thesis
        proof (cases ok)
          case True
          with c Some d ud polled_trans [OF rc(2) ud(2)] False show ?thesis by auto
        next
          case F: False
          from Suc.IH [OF ud(1)] obtain ok' e where "wait_loop k 1 d = (ok', e)" "bus_ok L e" "polled d e"
            "ok' \<longrightarrow> 0 < bs_hw_bufs_free e" by blast
          with c Some d F False polled_trans [OF polled_trans [OF rc(2) ud(2)]] show ?thesis by simp
        qed
      qed (use c rc False in auto)
    qed (use Suc.prems in auto)
  qed auto
  with that show ?thesis by blast
qed

lemma have_enough_ok:
  assumes "bus_ok L b"
  obtains ok b' where "atbm_sdio_have_enough_space 1 b = (ok, b')" "bus_ok L b'" "polled b b'"
    "ok \<longrightarrow> 0 < bs_hw_bufs_free b'" "\<not> ok \<longrightarrow> \<not> enough_free b 1 \<and> \<not> atbm_bh_is_term b"
proof (cases "enough_free b 1")
  case True
  then have "atbm_sdio_have_enough_space 1 b = (True, b)" by (simp add: atbm_sdio_have_enough_space_def)
  then show ?thesis by (rule that) (use assms True bus_ok_free [OF assms] in simp_all)
next
  case False
  show ?thesis
  proof (cases "atbm_bh_is_term b")
    case True
    let ?b = "b\<lparr>bs_hw_bufs_free := sint (1 :: u32)\<rparr>"
    have "polled b ?b" by (simp add: polled_def)
    moreover from this have "bus_ok L ?b"
      by (rule bus_ok_polled [OF assms]) (use True in \<open>simp_all add: flow_ok_def atbm_bh_is_term_def\<close>)
    moreover have "atbm_sdio_have_enough_space 1 b = (True, ?b)"
      using True False by (simp add: atbm_sdio_have_enough_space_def)
    ultimately show ?thesis by (intro that [of True ?b]) simp_all
  next
    case F: False
    obtain ok b' where "pool_loop MAX_POOL_BUFF_NUM 1 b = (ok, b')" "bus_ok L b'" "polled b b'" "ok \<longrightarrow> 0 < bs_hw_bufs_free b'"
      by (rule pool_loop_ok [OF assms])
    then show ?thesis by (intro that) (use F False in \<open>simp_all add: atbm_sdio_have_enough_space_def\<close>)
  qed
qed

lemma wait_enough_ok:
  assumes "bus_ok L b"
  obtains ok b' where "atbm_sdio_wait_enough_space 1 b = (ok, b')" "bus_ok L b'" "polled b b'"
    "ok \<longrightarrow> 0 < bs_hw_bufs_free b'"
proof (cases "enough_free b 1")
  case True
  then have "atbm_sdio_wait_enough_space 1 b = (True, b)" by (simp add: atbm_sdio_wait_enough_space_def)
  then show ?thesis by (rule that) (use assms True bus_ok_free [OF assms] in simp_all)
next
  case False
  obtain ok b' where "wait_loop MAX_LOOP_POLL_CNT 1 b = (ok, b')" "bus_ok L b'" "polled b b'" "ok \<longrightarrow> 0 < bs_hw_bufs_free b'"
    by (rule wait_loop_ok [OF assms])
  then show ?thesis by (intro that) (use False in \<open>simp_all add: atbm_sdio_wait_enough_space_def\<close>)
qed

section \<open>What the scheduler gives\<close>

lemma wsm_get_tx_ok:
  assumes h: "sched_inv h" and s: "th_save_buf h = None"
  obtains p where "cm_ptr (th_cmd h) = Some p" "wsm_get_tx burst h = Some (Some (p, cm_len (th_cmd h), 1, - 1), h)"
    | c h' where "cm_ptr (th_cmd h) = None" "wsm_get_tx burst h = Some (c, h')" "tx_outcome h c h'"
proof (cases "cm_ptr (th_cmd h)")
  case None
  with tx_loop_returns [OF h, of True False burst] that(2) s show ?thesis by (auto simp: wsm_get_tx_def)
next
  case (Some p)
  with that(1) s show ?thesis by (simp add: wsm_get_tx_def)
qed

text \<open>The buffers of the firmware that a frame or a command takes.\<close>

definition credited :: "int \<Rightarrow> tx_hw \<Rightarrow> tx_hw" where
  "credited vsel h = h\<lparr>th_hw_bufs_used := th_hw_bufs_used h + 1,
     th_hw_bufs_used_vif := (if vsel = - 1 then th_hw_bufs_used_vif h
       else (th_hw_bufs_used_vif h)[nat vsel := th_hw_bufs_used_vif h ! nat vsel + 1])\<rparr>"

lemma take_credit_ok:
  assumes "0 < bs_hw_bufs_free b" "vsel = - 1 \<or> 0 \<le> vsel \<and> nat vsel < length (th_hw_bufs_used_vif (bs_hw b))"
  shows "take_credit vsel b = Some (b\<lparr>bs_hw := credited vsel (bs_hw b), bs_n_xmits := bs_n_xmits b + 1,
     bs_hw_bufs_free := bs_hw_bufs_free b - 1\<rparr>)"
  using assms by (auto simp: take_credit_def on_hw_def wsm_alloc_tx_buffer_def credited_def upd_def Let_def)

lemma buf_ok_like: "buf_ok sz b \<Longrightarrow> buf_like b b' \<Longrightarrow> buf_ok sz b'"
  by (simp add: buf_ok_def buf_like_def)

lemma low_bits_seq: "take_bit 6 ((a AND NOT (push_bit 13 m)) OR push_bit 13 k) = take_bit 6 (a :: u16)"
  by (rule bit_word_eqI) (auto simp: bit_take_bit_iff bit_or_iff bit_and_iff bit_not_iff bit_push_bit_iff)

lemma buf_like_seq [simp]:
  "buf_like b (c\<lparr>tb_hdr_id := (tb_hdr_id c AND NOT (WSM_TX_SEQ m)) OR WSM_TX_SEQ n\<rparr>) = buf_like b c"
proof -
  have "((tb_hdr_id c AND NOT (WSM_TX_SEQ m)) OR WSM_TX_SEQ n) AND 0x3F = tb_hdr_id c AND 0x3F"
    unfolding six_bits WSM_TX_SEQ_def by (rule low_bits_seq)
  then show ?thesis by (simp add: buf_like_def)
qed

text \<open>A frame just handed out, labelled with its sequence number and counted.\<close>

lemma frame_credited:
  assumes h: "tx_ok L sz h" and o: "tx_outcome h (Some (p, len, burst', vsel)) h'"
  obtains skb qi vi pos where "p = Skb_ptr skb" "vsel = int vi" "vi < 2"
    "len = ucast (tb_hdr_len (th_bufs h' skb))" "buf_ok sz (th_bufs h' skb)"
    "length (th_hw_bufs_used_vif h') = 2" "th_numInpChBufs h' = th_numInpChBufs h"
    "tx_ok L sz (credited vsel (set_seq p n h'))" "taken qi vi skb pos (credited vsel (set_seq p n h'))"
    "all_frames (credited vsel (set_seq p n h')) = all_frames h"
    "waiting_frames (credited vsel (set_seq p n h')) < waiting_frames h"
    "th_cmd (credited vsel (set_seq p n h')) = th_cmd h"
proof -
  have f: "sched_inv h'" "same_bus h h'" "all_frames h' = all_frames h" "waiting_frames h' < waiting_frames h"
    "\<And>w. pend h' w = pend h w + (if int w = vsel then 1 else 0)" "handed h p len vsel h'"
    using o by (simp_all add: tx_outcome_def)
  obtain skb vi qi pos where hd: "p = Skb_ptr skb" "vsel = int vi" "vi < 2" "taken qi vi skb pos h'"
    "len = ucast (tb_hdr_len (th_bufs h' skb))"
    using f(6) unfolding handed_def by blast
  let ?h = "credited vsel (set_seq p n h')"
  have b: "th_queues ?h = th_queues h'" "th_env ?h = th_env h'" "th_stats ?h = th_stats h'" "th_vifs ?h = th_vifs h'"
    "th_if_id_selected ?h = th_if_id_selected h'" "th_tx_burst_idx ?h = th_tx_burst_idx h'" "th_cmd ?h = th_cmd h'"
    "th_save_buf ?h = th_save_buf h'" "th_hw_bufs_used ?h = th_hw_bufs_used h' + 1"
    "th_hw_bufs_used_vif ?h = (th_hw_bufs_used_vif h')[vi := th_hw_bufs_used_vif h' ! vi + 1]"
    by (simp_all add: credited_def set_seq_def hd(1,2) set_buf_def)
  have bl: "buf_like (th_bufs h s) (th_bufs ?h s)" "buf_like (th_bufs h s) (th_bufs h' s)" for s
    using f(2) by (simp_all add: credited_def set_seq_def hd(1) set_buf_def same_bus_def)
  note e = sched_inv_fields [OF b(1-6)]
  have bo: "bufs_ok sz ?h"
    using tx_okD(4) [OF h] buf_ok_like [OF _ bl(1)] by (simp add: bufs_ok_def e f(3))
  have tk: "taken qi vi skb pos ?h"
    using hd(4) unfolding taken_def Let_def b(1) by (simp add: credited_def set_seq_def hd(1) set_buf_def)
  have c: "length (th_hw_bufs_used_vif h') = 2" "\<And>v. v < 2 \<Longrightarrow> 0 \<le> L v \<and> th_hw_bufs_used_vif h' ! v = int (pend h v) + L v"
    "int (pend h 0 + pend h 1) \<le> th_hw_bufs_used h'"
    using tx_okD(3) [OF h] f(2) by (simp_all add: counts_ok_def same_bus_def)
  have p': "pend ?h w = pend h w + (if w = vi then 1 else 0)" for w unfolding e(4) using f(5) [of w] hd(2) by simp
  have co: "counts_ok L ?h"
    unfolding counts_ok_def b(9,10)
  proof (intro conjI allI impI)
    fix v :: nat assume "v < 2"
    with c(1,2) hd(3) show "0 \<le> L v" "(th_hw_bufs_used_vif h')[vi := th_hw_bufs_used_vif h' ! vi + 1] ! v = int (pend ?h v) + L v"
      by (auto simp: p' nth_update)
  next
    show "int (pend ?h 0 + pend ?h 1) \<le> th_hw_bufs_used h' + 1"
      using c(3) pend_total [OF p' hd(3)] by simp
  qed (use c(1) in simp)
  have ok: "tx_ok L sz ?h"
    using bo co f(1,2) tx_okD(2,5) [OF h] by (simp add: tx_ok_def e b same_bus_def)
  have fb: "buf_ok sz (th_bufs h' skb)"
    using tx_okD(4) [OF h] taken_frame [OF hd(4) f(1)] f(3) buf_ok_like [OF _ bl(2)] by (auto simp: bufs_ok_def)
  show ?thesis
    by (rule that [OF hd(1,2,3,5) fb c(1) _ ok tk]) (use f(2,3,4) in \<open>simp_all add: e b same_bus_def\<close>)
qed

section \<open>Collecting a transfer\<close>

text \<open>How the transfer buffer is laid out: whole blocks, every frame in blocks of its own.\<close>

definition laid_out :: "nat \<Rightarrow> nat \<Rightarrow> bus \<Rightarrow> bool" where
  "laid_out cnt putLen b \<longleftrightarrow> length (bs_xmit_buff b) = cnt \<and> 256 * cnt \<le> putLen \<and> putLen \<le> SDIO_TX_MAXLEN \<and>
     putLen mod 256 = 0"

definition same_link :: "bus \<Rightarrow> bus \<Rightarrow> bool" where
  "same_link b b' \<longleftrightarrow> bs_sizeInpChBuf b' = bs_sizeInpChBuf b \<and> bs_bh_halt b' = bs_bh_halt b \<and>
     bs_plugged b' = bs_plugged b \<and> bs_bh_error b' = bs_bh_error b \<and> bs_sent b' = bs_sent b \<and>
     all_frames (bs_hw b') = all_frames (bs_hw b)"

lemma same_link_refl [simp]: "same_link b b"
  by (simp add: same_link_def)

lemma same_link_trans: "same_link a b \<Longrightarrow> same_link b c \<Longrightarrow> same_link a c"
  by (simp add: same_link_def)

lemma same_link_term: "same_link a b \<Longrightarrow> atbm_bh_is_term b = atbm_bh_is_term a"
  by (simp add: same_link_def atbm_bh_is_term_def)

lemma polled_link: "polled a b \<Longrightarrow> same_link a b"
  unfolding polled_def by (cases a, cases b) (simp add: same_link_def)

fun collect_inv :: "(nat \<Rightarrow> int) \<Rightarrow> collect_state \<Rightarrow> bool" where
  "collect_inv L (cnt, putLen, burst, b) \<longleftrightarrow>
     bus_ok L b \<and> laid_out cnt putLen b \<and> putLen + unat (bs_sizeInpChBuf b) \<le> SDIO_TX_MAXLEN"

fun collect_post :: "(nat \<Rightarrow> int) \<Rightarrow> collect_state \<Rightarrow> collect_end \<times> collect_state \<Rightarrow> bool" where
  "collect_post L (cnt, putLen, burst, b) (r, cnt', putLen', burst', b') \<longleftrightarrow>
     bus_ok L b' \<and> same_link b b' \<and> work (bs_hw b') + cnt' \<le> work (bs_hw b) + cnt \<and>
     (case r of
        Xmit_wait \<Rightarrow> cnt = 0 \<and> cnt' = 0 \<and> \<not> enough_free b 1 \<and> \<not> atbm_bh_is_term b
      | Xmit_finished \<Rightarrow> cm_ptr (th_cmd (bs_hw b')) = None
      | Xmit_data enough nc \<Rightarrow> 0 < cnt' \<and> laid_out cnt' putLen' b' \<and> confirmable nc (bs_hw b'))"

fun collect_variant :: "collect_state \<Rightarrow> nat" where
  "collect_variant (cnt, putLen, burst, b) = work (bs_hw b)"

lemma aligned_len_props: "aligned_len n mod 256 = 0" "n \<le> aligned_len n" "256 \<le> aligned_len n"
proof -
  define m where "m = (if n \<le> 8 then 16 else n)"
  have m: "n \<le> m" "0 < m" by (auto simp: m_def)
  have e: "aligned_len n = (if m mod 256 \<noteq> 0 then m - m mod 256 + 256 else m)"
    by (simp add: aligned_len_def m_def SDIO_BLOCK_SIZE_def Let_def)
  have "m = 256 * (m div 256) + m mod 256" by simp
  then show "aligned_len n mod 256 = 0" "n \<le> aligned_len n" "256 \<le> aligned_len n"
    using m mod_less_divisor [of 256 m] unfolding e by (auto simp: minus_mod_eq_mult_div)
qed

text \<open>One frame or command more in the transfer.\<close>

definition pushed :: "tx_ptr \<Rightarrow> nat \<Rightarrow> tx_hw \<Rightarrow> bus \<Rightarrow> bus" where
  "pushed p putLen h b = b\<lparr>bs_hw := h, bs_n_xmits := bs_n_xmits b + 1, bs_hw_bufs_free := bs_hw_bufs_free b - 1,
     bs_xmit_buff := bs_xmit_buff b @ [(putLen, p)], bs_wsm_tx_seq := (bs_wsm_tx_seq b + 1) AND WSM_TX_SEQ_MAX\<rparr>"

lemma pushed_fields [simp]:
  "bs_hw (pushed p n h b) = h" "bs_sizeInpChBuf (pushed p n h b) = bs_sizeInpChBuf b"
  "bs_bh_halt (pushed p n h b) = bs_bh_halt b" "bs_plugged (pushed p n h b) = bs_plugged b"
  "bs_bh_error (pushed p n h b) = bs_bh_error b" "bs_sent (pushed p n h b) = bs_sent b"
  "bs_xmit_buff (pushed p n h b) = bs_xmit_buff b @ [(n, p)]" "bs_n_xmits (pushed p n h b) = bs_n_xmits b + 1"
  "bs_hw_bufs_free (pushed p n h b) = bs_hw_bufs_free b - 1" "bs_hw_xmits (pushed p n h b) = bs_hw_xmits b"
  by (simp_all add: pushed_def)

lemma pushed_ok:
  assumes b: "bus_ok L b" "0 < bs_hw_bufs_free b" and h: "tx_ok L (unat (bs_sizeInpChBuf b)) h"
    "th_numInpChBufs h = th_numInpChBufs (bs_hw b)"
  shows "bus_ok L (pushed p n h b)"
proof -
  have "bs_n_xmits b + 1 - bs_hw_xmits b = (bs_n_xmits b - bs_hw_xmits b) + 1" by simp
  then have "uint (bs_n_xmits b + 1 - bs_hw_xmits b) \<le> uint (bs_n_xmits b - bs_hw_xmits b) + 1"
    using uint_add_le [of "bs_n_xmits b - bs_hw_xmits b" 1] by (simp only: uint_1)
  then show ?thesis using assms by (auto simp: bus_ok_def flow_ok_def atbm_bh_is_term_def)
qed

lemma bus_ok_hw:
  assumes "bus_ok L b" "tx_ok L (unat (bs_sizeInpChBuf b)) h" "th_numInpChBufs h = th_numInpChBufs (bs_hw b)"
  shows "bus_ok L (b\<lparr>bs_hw := h\<rparr>)"
  using assms by (simp add: bus_ok_def flow_ok_def atbm_bh_is_term_def)

lemma laid_out_pushed:
  assumes "laid_out cnt putLen b" "putLen + sz \<le> SDIO_TX_MAXLEN" "aligned_len n \<le> sz"
  shows "laid_out (cnt + 1) (putLen + aligned_len n) (pushed p putLen h b)"
  using assms aligned_len_props [of n] by (auto simp: laid_out_def mod_add_eq [symmetric])

text \<open>What the code does with what the scheduler gave it, up to the count of buffers.\<close>

lemma collect_counted:
  assumes e: "atbm_sdio_have_enough_space 1 b = (True, c)"
    and g: "wsm_get_tx burst (bs_hw c) = Some (Some (p, len, burst', vsel), h)"
    and l: "8 \<le> unat len" "header_len p h = len" "putLen + unat len \<le> SDIO_TX_MAXLEN"
    and t: "0 < bs_hw_bufs_free c" "vsel = - 1 \<or> 0 \<le> vsel \<and> nat vsel < length (th_hw_bufs_used_vif h)"
  shows "collect_turn (cnt, putLen, burst, b) =
     (let k = credited vsel (set_seq p (bs_wsm_tx_seq c) h); putLen' = putLen + aligned_len (unat len);
          (txed, k) = wsm_txed p k; d = pushed p putLen k c in
      if txed then Some (Inr (Xmit_data True (Some p), cnt + 1, putLen', burst', d))
      else do {
        (freed, k) \<leftarrow> atbm_sdio_free_tx_wsm p k;
        let d = d\<lparr>bs_hw := k, bs_wsm_txframe_num := bs_wsm_txframe_num d + 1\<rparr>;
        if freed = 0 then Some (Inr (Xmit_data True (Some p), cnt + 1, putLen', burst', d))
        else if SDIO_TX_MAXLEN < putLen' + unat (bs_sizeInpChBuf d)
        then Some (Inr (Xmit_data True None, cnt + 1, putLen', burst', d))
        else Some (Inl (cnt + 1, putLen', burst', d)) })"
proof -
  have v: "th_hw_bufs_used_vif (set_seq p n h) = th_hw_bufs_used_vif h" for n
    by (simp add: set_seq_def set_buf_def split: tx_ptr.splits)
  have tc: "take_credit vsel (on_hw (set_seq p (bs_wsm_tx_seq c)) (c\<lparr>bs_hw := h\<rparr>)) =
      Some (c\<lparr>bs_hw := credited vsel (set_seq p (bs_wsm_tx_seq c) h), bs_n_xmits := bs_n_xmits c + 1,
        bs_hw_bufs_free := bs_hw_bufs_free c - 1\<rparr>)"
    by (subst take_credit_ok) (use t v in \<open>simp_all add: on_hw_def\<close>)
  show ?thesis
    using l by (simp add: e g tc Let_def copy_frame_def pushed_def cong: if_cong split: prod.split)
qed

text \<open>One turn: it leaves with what \<open>collect_post\<close> says, or with one frame more and less left to do.\<close>

definition collect_good :: "(nat \<Rightarrow> int) \<Rightarrow> collect_state \<Rightarrow> (collect_state + (collect_end \<times> collect_state)) option \<Rightarrow> bool" where
  "collect_good L s x \<longleftrightarrow>
     (\<exists>s'. x = Some (Inl s') \<and> collect_inv L s' \<and> collect_variant s' < collect_variant s \<and>
        (\<forall>r. collect_post L s' r \<longrightarrow> collect_post L s r)) \<or>
     (\<exists>r. x = Some (Inr r) \<and> collect_post L s r)"

lemma low_half_same: "unat (l :: u32) < 2 ^ 16 \<Longrightarrow> ucast (ucast l :: u16) = l"
  by (simp add: word_unat_eq_iff unsigned_ucast_eq unsigned_take_bit_eq take_bit_nat_eq_self)

lemma unat_lt: "unat (w :: u16) < 65536"
  using unsigned_less [of w] by simp

lemma collect_command:
  assumes i: "collect_inv L (cnt, putLen, burst, b)" and e: "atbm_sdio_have_enough_space 1 b = (True, c)"
    and c: "bus_ok L c" "polled b c" "0 < bs_hw_bufs_free c"
    and p: "cm_ptr (th_cmd (bs_hw c)) = Some p"
      "wsm_get_tx burst (bs_hw c) = Some (Some (p, cm_len (th_cmd (bs_hw c)), 1, - 1), bs_hw c)"
  shows "collect_good L (cnt, putLen, burst, b) (collect_turn (cnt, putLen, burst, b))"
proof -
  let ?h = "bs_hw c" and ?sz = "unat (bs_sizeInpChBuf b)"
  note pf = polled_fields [OF c(2)]
  have sz: "bs_sizeInpChBuf c = bs_sizeInpChBuf b" by (rule pf)
  have h: "tx_ok L ?sz ?h" using c(1) sz by (simp add: bus_ok_def)
  have cm: "(\<exists>n. p = Cmd_ptr n) \<and> 8 \<le> unat (cm_len (th_cmd ?h)) \<and> unat (cm_len (th_cmd ?h)) < 2 ^ 16 \<and>
      aligned_len (unat (cm_len (th_cmd ?h))) \<le> ?sz \<and> cm_cmd (th_cmd ?h) AND 0x3F \<noteq> WSM_TRANSMIT_REQ_MSG_ID"
    using tx_okD(5) [OF h] p(1) by (simp add: cmd_ok_def)
  then obtain n where n: "p = Cmd_ptr n" by blast
  let ?len = "cm_len (th_cmd ?h)"
  have ln: "8 \<le> unat ?len" "unat ?len < 2 ^ 16" "aligned_len (unat ?len) \<le> ?sz" using cm by blast+
  have hl: "header_len p ?h = ?len"
    using ln(2) unfolding header_len_def n by (simp add: low_half_same)
  have fit: "putLen + ?sz \<le> SDIO_TX_MAXLEN" using i by simp
  define k where "k = credited (- 1) ?h"
  define g where "g = k\<lparr>th_cmd := (th_cmd ?h)\<lparr>cm_last_send_cmd := cm_cmd (th_cmd ?h), cm_ptr := None\<rparr>\<rparr>"
  have tx: "wsm_txed p (credited (- 1) (set_seq p (bs_wsm_tx_seq c) ?h)) = (True, g)"
    using p(1) by (simp add: wsm_txed_def n set_seq_def k_def g_def credited_def)
  have "sched_inv g = sched_inv ?h" "all_frames g = all_frames ?h" "waiting_frames g = waiting_frames ?h" "pend g = pend ?h"
    by (rule sched_inv_fields; simp add: g_def k_def credited_def)+
  note f = this
  have u: "int (pend ?h 0 + pend ?h 1) \<le> th_hw_bufs_used ?h" using h by (simp add: tx_ok_def counts_ok_def)
  have gok: "tx_ok L ?sz g"
    using h u unfolding tx_ok_def f(1) by (simp add: counts_ok_def bufs_ok_def cmd_ok_def f) (simp add: g_def k_def credited_def)
  have cf: "confirmable (Some p) g"
    using cm u by (simp add: confirmable_def n f) (simp add: g_def k_def credited_def)
  have wk: "work g + 1 = work ?h" using p(1) by (simp add: work_def f) (simp add: g_def)
  have nm: "th_numInpChBufs g = th_numInpChBufs ?h" by (simp add: g_def k_def credited_def)
  let ?d = "pushed p putLen g c"
  have "putLen + unat ?len \<le> SDIO_TX_MAXLEN" using fit ln(3) aligned_len_props(2) [of "unat ?len"] by simp
  then have "collect_turn (cnt, putLen, burst, b) =
      Some (Inr (Xmit_data True (Some p), cnt + 1, putLen + aligned_len (unat ?len), 1, ?d))"
    by (subst collect_counted [OF e p(2) ln(1) hl _ c(3)]) (simp_all add: tx Let_def)
  moreover have "bus_ok L ?d" by (rule pushed_ok [OF c(1,3) _ nm]) (use gok sz in simp)
  moreover have "same_link b ?d" using polled_link [OF c(2)] f(2) by (simp add: same_link_def)
  moreover have "laid_out (cnt + 1) (putLen + aligned_len (unat ?len)) ?d"
    by (rule laid_out_pushed [OF _ fit ln(3)]) (use i pf in \<open>simp add: laid_out_def\<close>)
  ultimately show ?thesis using cf wk pf(1) by (simp add: collect_good_def)
qed

lemma collect_frame:
  assumes i: "collect_inv L (cnt, putLen, burst, b)" and e: "atbm_sdio_have_enough_space 1 b = (True, c)"
    and c: "bus_ok L c" "polled b c" "0 < bs_hw_bufs_free c"
    and g: "wsm_get_tx burst (bs_hw c) = Some (Some (p, len, burst', vsel), h)"
      "cm_ptr (th_cmd (bs_hw c)) = None" "tx_outcome (bs_hw c) (Some (p, len, burst', vsel)) h"
  shows "collect_good L (cnt, putLen, burst, b) (collect_turn (cnt, putLen, burst, b))"
proof -
  let ?sz = "unat (bs_sizeInpChBuf b)"
  note pf = polled_fields [OF c(2)]
  have h: "tx_ok L ?sz (bs_hw c)" using c(1) pf(3) by (simp add: bus_ok_def)
  define k where "k = credited vsel (set_seq p (bs_wsm_tx_seq c) h)"
  obtain skb qi vi pos where f: "p = Skb_ptr skb" "vsel = int vi" "vi < 2"
    "len = ucast (tb_hdr_len (th_bufs h skb))" "buf_ok ?sz (th_bufs h skb)"
    "length (th_hw_bufs_used_vif h) = 2" "th_numInpChBufs h = th_numInpChBufs (bs_hw c)"
    "tx_ok L ?sz k" "taken qi vi skb pos k" "all_frames k = all_frames (bs_hw c)"
    "waiting_frames k < waiting_frames (bs_hw c)" "th_cmd k = th_cmd (bs_hw c)"
    by (rule frame_credited [OF h g(3), of "bs_wsm_tx_seq c", folded k_def]) (rule that)
  have nm: "th_numInpChBufs k = th_numInpChBufs (bs_hw c)"
    using f(7) by (simp add: k_def credited_def set_seq_def f(1) set_buf_def)
  have ul: "unat len = unat (tb_hdr_len (th_bufs h skb))" unfolding f(4)
    using unat_lt [of "tb_hdr_len (th_bufs h skb)"] by (simp add: unsigned_ucast_eq take_bit_nat_eq_self)
  have ln: "8 \<le> unat len" "aligned_len (unat len) \<le> ?sz" using f(5) by (simp_all add: ul buf_ok_def)
  have hl: "header_len p h = len" by (simp add: header_len_def f(1,4))
  have fit: "putLen + ?sz \<le> SDIO_TX_MAXLEN" using i by simp
  have "putLen + unat len \<le> SDIO_TX_MAXLEN" using fit ln(2) aligned_len_props(2) [of "unat len"] by simp
  note ct = collect_counted [OF e g(1) ln(1) hl this c(3), of cnt]
  let ?put = "putLen + aligned_len (unat len)"
  have tx: "wsm_txed p k = (False, k)" by (simp add: wsm_txed_def f(12) g(2))
  have step: "bus_ok L (d\<lparr>bs_hw := m, bs_wsm_txframe_num := x\<rparr>) \<and> same_link b (d\<lparr>bs_hw := m, bs_wsm_txframe_num := x\<rparr>) \<and>
      laid_out (cnt + 1) ?put (d\<lparr>bs_hw := m, bs_wsm_txframe_num := x\<rparr>) \<and> work m + 1 \<le> work (bs_hw b)"
    if d: "d = pushed p putLen k c" and m: "tx_ok L ?sz m" "all_frames m = all_frames k" "waiting_frames m = waiting_frames k"
      "th_cmd m = th_cmd k" "th_numInpChBufs m = th_numInpChBufs k" for d m x
  proof -
    have "bus_ok L (pushed p putLen m c)" by (rule pushed_ok [OF c(1,3)]) (use m nm pf(3) in simp_all)
    moreover have "laid_out (cnt + 1) ?put (pushed p putLen m c)"
      by (rule laid_out_pushed [OF _ fit ln(2)]) (use i pf in \<open>simp add: laid_out_def\<close>)
    moreover have "work m + 1 \<le> work (bs_hw b)" using f(11,12) m(3,4) g(2) pf(1) by (simp add: work_def)
    ultimately show ?thesis
      using polled_link [OF c(2)] m(2) f(10)
      by (simp add: d bus_ok_def flow_ok_def atbm_bh_is_term_def same_link_def laid_out_def)
  qed
  let ?d = "pushed p putLen k c"
  have v: "vsel = - 1 \<or> 0 \<le> vsel \<and> nat vsel < length (th_hw_bufs_used_vif h)" using f(2,3,6) by simp
  have ct': "collect_turn (cnt, putLen, burst, b) = do {
        (freed, m) \<leftarrow> atbm_sdio_free_tx_wsm p k;
        let d = ?d\<lparr>bs_hw := m, bs_wsm_txframe_num := bs_wsm_txframe_num ?d + 1\<rparr>;
        if freed = 0 then Some (Inr (Xmit_data True (Some p), cnt + 1, ?put, burst', d))
        else if SDIO_TX_MAXLEN < ?put + unat (bs_sizeInpChBuf d)
        then Some (Inr (Xmit_data True None, cnt + 1, ?put, burst', d))
        else Some (Inl (cnt + 1, ?put, burst', d)) }"
    using ct [OF v] unfolding k_def [symmetric] Let_def tx by simp
  show ?thesis
  proof (cases "tb_htTxParameters (th_bufs k skb) AND WSM_NEED_TX_CONFIRM = 0")
    case False
    then have fr: "atbm_sdio_free_tx_wsm p k = Some (0, k)" by (simp add: atbm_sdio_free_tx_wsm_def f(1))
    let ?e = "?d\<lparr>bs_hw := k, bs_wsm_txframe_num := bs_wsm_txframe_num ?d + 1\<rparr>"
    have "collect_turn (cnt, putLen, burst, b) = Some (Inr (Xmit_data True (Some p), cnt + 1, ?put, burst', ?e))"
      unfolding ct' fr by simp
    moreover have "confirmable (Some p) k" using f(3,9) by (auto simp: confirmable_def f(1))
    moreover note step [OF refl f(8) refl refl refl refl, of "bs_wsm_txframe_num ?d + 1"]
    ultimately show ?thesis by (simp add: collect_good_def)
  next
    case True
    obtain m where m: "give_back (tb_packetID (th_bufs k skb)) k = Some m" "tx_ok L ?sz m" "all_frames m = all_frames k"
      "waiting_frames m = waiting_frames k" "th_cmd m = th_cmd k" "th_numInpChBufs m = th_numInpChBufs k"
      using give_back_ok [OF f(8,9,3)] by blast
    then have fr: "atbm_sdio_free_tx_wsm p k = Some (1, m)" using True by (simp add: atbm_sdio_free_tx_wsm_def f(1))
    define d' where "d' = ?d\<lparr>bs_hw := m, bs_wsm_txframe_num := bs_wsm_txframe_num ?d + 1\<rparr>"
    have st: "bus_ok L d'" "same_link b d'" "laid_out (cnt + 1) ?put d'" "work (bs_hw d') + 1 \<le> work (bs_hw b)"
      using step [OF refl m(2-6), of "bs_wsm_txframe_num ?d + 1"] unfolding d'_def by simp_all
    have ct'': "collect_turn (cnt, putLen, burst, b) =
        (if SDIO_TX_MAXLEN < ?put + unat (bs_sizeInpChBuf d')
        then Some (Inr (Xmit_data True None, cnt + 1, ?put, burst', d')) else Some (Inl (cnt + 1, ?put, burst', d')))"
      unfolding ct' fr by (simp add: d'_def)
    show ?thesis
    proof (cases "SDIO_TX_MAXLEN < ?put + unat (bs_sizeInpChBuf d')")
      case True
      with ct'' st show ?thesis by (simp add: collect_good_def confirmable_def)
    next
      case False
      have "collect_post L (cnt, putLen, burst, b) r" if "collect_post L (cnt + 1, ?put, burst', d') r" for r
        using that st same_link_trans [OF st(2)] by (cases r) (auto split: collect_end.splits)
      then show ?thesis using ct'' st False by (auto simp: collect_good_def intro!: exI [of _ "cnt + 1"])
    qed
  qed
qed

lemma outcome_none_ok:
  assumes h: "tx_ok L sz h" and o: "tx_outcome h None h'"
  shows "tx_ok L sz h'" "all_frames h' = all_frames h" "work h' \<le> work h" "th_numInpChBufs h' = th_numInpChBufs h"
    "th_cmd h' = th_cmd h"
proof -
  have f: "sched_inv h'" "same_bus h h'" "all_frames h' = all_frames h" "waiting_frames h' \<le> waiting_frames h"
    "pend h' = pend h" using o by (simp_all add: tx_outcome_def)
  have bl: "buf_like (th_bufs h s) (th_bufs h' s)" for s using f(2) by (simp add: same_bus_def)
  have "bufs_ok sz h'" using tx_okD(4) [OF h] buf_ok_like [OF _ bl] by (simp add: bufs_ok_def f(3))
  then show "tx_ok L sz h'" using h f(1,2,5) by (simp add: tx_ok_def counts_ok_def same_bus_def)
  show "all_frames h' = all_frames h" "work h' \<le> work h" "th_numInpChBufs h' = th_numInpChBufs h" "th_cmd h' = th_cmd h"
    using f by (simp_all add: work_def same_bus_def)
qed

lemma collect_turn_good:
  assumes "collect_inv L s"
  shows "collect_good L s (collect_turn s)"
proof -
  obtain cnt putLen burst b where s: "s = (cnt, putLen, burst, b)" by (cases s)
  have i: "collect_inv L (cnt, putLen, burst, b)" using assms s by simp
  then have b: "bus_ok L b" "laid_out cnt putLen b" by simp_all
  obtain ok c where c: "atbm_sdio_have_enough_space 1 b = (ok, c)" "bus_ok L c" "polled b c"
    "ok \<longrightarrow> 0 < bs_hw_bufs_free c" "\<not> ok \<longrightarrow> \<not> enough_free b 1 \<and> \<not> atbm_bh_is_term b"
    by (rule have_enough_ok [OF b(1)])
  note pf = polled_fields [OF c(3)]
  show ?thesis
  proof (cases ok)
    case False
    let ?r = "if 0 < cnt then Xmit_data False None else Xmit_wait"
    have "collect_turn (cnt, putLen, burst, b) = Some (Inr (?r, cnt, putLen, burst, c))"
      using c(1) False by simp
    moreover have "collect_post L (cnt, putLen, burst, b) (?r, cnt, putLen, burst, c)"
      using c False polled_link [OF c(3)] b(2) pf by (auto simp: laid_out_def confirmable_def)
    ultimately show ?thesis unfolding s collect_good_def by blast
  next
    case True
    with c have e: "atbm_sdio_have_enough_space 1 b = (True, c)" and fr: "0 < bs_hw_bufs_free c" by simp_all
    have h: "tx_ok L (unat (bs_sizeInpChBuf c)) (bs_hw c)" using c(2) by (simp add: bus_ok_def)
    show ?thesis
    proof (rule wsm_get_tx_ok [OF tx_okD(1,2) [OF h], of burst])
      fix p
      assume "cm_ptr (th_cmd (bs_hw c)) = Some p"
        "wsm_get_tx burst (bs_hw c) = Some (Some (p, cm_len (th_cmd (bs_hw c)), 1, - 1), bs_hw c)"
      then show ?thesis unfolding s by (rule collect_command [OF i e c(2,3) fr])
    next
      fix x h' assume g: "cm_ptr (th_cmd (bs_hw c)) = None" "wsm_get_tx burst (bs_hw c) = Some (x, h')" "tx_outcome (bs_hw c) x h'"
      show ?thesis
      proof (cases x)
        case (Some y)
        obtain p len burst' vsel where y: "y = (p, len, burst', vsel)" by (cases y)
        show ?thesis unfolding s by (rule collect_frame [OF i e c(2,3) fr]) (use g Some y in simp_all)
      next
        case None
        let ?r = "if 0 < cnt then Xmit_data True None else Xmit_finished"
        have o: "tx_outcome (bs_hw c) None h'" using g(3) None by simp
        note n = outcome_none_ok [OF h o]
        have "collect_turn (cnt, putLen, burst, b) = Some (Inr (?r, cnt, putLen, burst, c\<lparr>bs_hw := h'\<rparr>))"
          using e g(2) None by simp
        moreover have "bus_ok L (c\<lparr>bs_hw := h'\<rparr>)" by (rule bus_ok_hw [OF c(2) n(1,4)])
        moreover have "same_link b (c\<lparr>bs_hw := h'\<rparr>)" using polled_link [OF c(3)] n(2) by (simp add: same_link_def)
        ultimately have "collect_post L (cnt, putLen, burst, b) (?r, cnt, putLen, burst, c\<lparr>bs_hw := h'\<rparr>)"
          using n(3,5) b(2) pf g(1) by (auto simp: laid_out_def confirmable_def)
        then show ?thesis
          using \<open>collect_turn (cnt, putLen, burst, b) = _\<close> unfolding s collect_good_def by blast
      qed
    qed
  qed
qed

declare collect_turn.simps [simp del] collect_inv.simps [simp del]

interpretation collect: variant_loop collect_turn "collect_inv L" "collect_post L" collect_variant for L
  by unfold_locales (use collect_turn_good in \<open>simp add: collect_good_def\<close>)

lemma collect_returns:
  assumes "bus_ok L b"
  obtains r cnt putLen burst' b' where
    "loop_until collect_turn (0, 0, burst, b\<lparr>bs_xmit_buff := []\<rparr>) = Some (r, cnt, putLen, burst', b')"
    "collect_post L (0, 0, burst, b\<lparr>bs_xmit_buff := []\<rparr>) (r, cnt, putLen, burst', b')"
proof -
  have "bus_ok L (b\<lparr>bs_xmit_buff := []\<rparr>)" using assms by (simp add: bus_ok_def flow_ok_def atbm_bh_is_term_def)
  then have "collect_inv L (0, 0, burst, b\<lparr>bs_xmit_buff := []\<rparr>)"
    using assms by (simp add: collect_inv.simps laid_out_def bus_ok_def)
  from collect.returns [OF this] that show ?thesis by (metis prod_cases5)
qed

section \<open>Sending transfers\<close>

definition transfer_ok :: "tx_ptr list \<times> nat \<Rightarrow> bool" where
  "transfer_ok t \<longleftrightarrow> fst t \<noteq> [] \<and> 256 * length (fst t) \<le> snd t \<and> snd t \<le> SDIO_TX_MAXLEN \<and> snd t mod 256 = 0"

definition sent_more :: "bus \<Rightarrow> bus \<Rightarrow> bool" where
  "sent_more b b' \<longleftrightarrow> (\<exists>ts. bs_sent b' = bs_sent b @ ts \<and> list_all transfer_ok ts)"

lemma sent_more_refl [simp]: "bs_sent b' = bs_sent b \<Longrightarrow> sent_more b b'"
  by (simp add: sent_more_def)

lemma sent_more_trans: "sent_more a b \<Longrightarrow> sent_more b c \<Longrightarrow> sent_more a c"
  by (auto simp: sent_more_def)

text \<open>What a step of the bottom half keeps.\<close>

definition bh_step :: "(nat \<Rightarrow> int) \<Rightarrow> bus \<Rightarrow> bus \<Rightarrow> bool" where
  "bh_step L b b' \<longleftrightarrow> bus_ok L b' \<and> all_frames (bs_hw b') = all_frames (bs_hw b) \<and> work (bs_hw b') \<le> work (bs_hw b) \<and>
     sent_more b b'"

lemma bh_step_trans: "bh_step L a b \<Longrightarrow> bh_step L b c \<Longrightarrow> bh_step L a c"
  unfolding bh_step_def using sent_more_trans by (metis order_trans)

lemma polled_step: "bus_ok L c \<Longrightarrow> polled b c \<Longrightarrow> bh_step L b c"
  using polled_fields [of b c] by (simp add: bh_step_def)

definition ready :: "bus \<Rightarrow> bool" where
  "ready b \<longleftrightarrow> enough_free b 1 \<or> atbm_bh_is_term b"

lemma xmit_err_ok:
  assumes b: "bus_ok L b" and c: "confirmable nc (bs_hw b)"
  obtains b' where "xmit_err nc b = Some b'" "bh_step L b b'" "ready b'"
proof -
  have h: "tx_ok L (unat (bs_sizeInpChBuf b)) (bs_hw b)" using b by (simp add: bus_ok_def)
  obtain h' where f: "atbm_sdio_force_free_wsm nc (bs_hw b) = Some h'" "tx_ok L (unat (bs_sizeInpChBuf b)) h'"
    "all_frames h' = all_frames (bs_hw b)" "work h' \<le> work (bs_hw b)" "th_numInpChBufs h' = th_numInpChBufs (bs_hw b)"
    by (rule force_free_ok [OF h c])
  let ?b = "atbm_bh_halt (b\<lparr>bs_hw := h'\<rparr>)"
  have p: "\<not> bs_plugged ?b" using b by (auto simp: atbm_bh_halt_def Let_def bus_ok_def)
  have e: "bs_hw ?b = h'" "bs_sent ?b = bs_sent b" "bs_sizeInpChBuf ?b = bs_sizeInpChBuf b"
    "bs_hw_bufs_free ?b = bs_hw_bufs_free b"
    by (simp_all add: atbm_bh_halt_def Let_def)
  have t: "atbm_bh_is_term ?b" using p by (simp add: atbm_bh_is_term_def)
  have "bus_ok L ?b" using b f(2) p t by (simp add: bus_ok_def flow_ok_def e)
  then show ?thesis
    using that [of ?b] f(1,3,4) t by (simp add: xmit_err_def bh_step_def ready_def e)
qed

lemma xmit_wait_ok:
  assumes b: "bus_ok L b" and c: "confirmable nc (bs_hw b)"
  obtains b' where "xmit_wait enough nc b = Some b'" "bh_step L b b'" "\<not> enough \<longrightarrow> ready b'"
proof (cases enough)
  case True
  then show ?thesis by (intro that [of b]) (use b in \<open>simp_all add: xmit_wait_def bh_step_def\<close>)
next
  case False
  obtain ok d where d: "atbm_sdio_wait_enough_space 1 b = (ok, d)" "bus_ok L d" "polled b d" "ok \<longrightarrow> 0 < bs_hw_bufs_free d"
    by (rule wait_enough_ok [OF b])
  show ?thesis
  proof (cases ok)
    case True
    then show ?thesis
      by (intro that [of d])
        (use d False bus_ok_free [OF d(2)] polled_step [OF d(2,3)] in \<open>simp_all add: xmit_wait_def ready_def\<close>)
  next
    case F: False
    have "confirmable nc (bs_hw d)" using c polled_fields(1) [OF d(3)] by simp
    then obtain b' where "xmit_err nc d = Some b'" "bh_step L d b'" "ready b'"
      by (rule xmit_err_ok [OF d(2)])
    then show ?thesis
      by (intro that [of b']) (use F False d(1) bh_step_trans [OF polled_step [OF d(2,3)]] in \<open>simp_all add: xmit_wait_def\<close>)
  qed
qed

fun bh_inv :: "(nat \<Rightarrow> int) \<Rightarrow> int \<times> bus \<Rightarrow> bool" where
  "bh_inv L (burst, b) = bus_ok L b"

fun bh_post :: "(nat \<Rightarrow> int) \<Rightarrow> int \<times> bus \<Rightarrow> bus \<Rightarrow> bool" where
  "bh_post L (burst, b) b' \<longleftrightarrow> bh_step L b b' \<and> cm_ptr (th_cmd (bs_hw b')) = None"

fun bh_variant :: "int \<times> bus \<Rightarrow> nat" where
  "bh_variant (burst, b) = 2 * work (bs_hw b) + (if ready b then 0 else 1)"

text \<open>A turn goes on with less work, or with the same work and a bus that is ready.\<close>

definition bh_good :: "(nat \<Rightarrow> int) \<Rightarrow> bus \<Rightarrow> ((int \<times> bus) + bus) option \<Rightarrow> bool" where
  "bh_good L b x \<longleftrightarrow>
     (\<exists>burst' c. x = Some (Inl (burst', c)) \<and> bh_step L b c \<and>
        (work (bs_hw c) < work (bs_hw b) \<or> \<not> ready b \<and> ready c)) \<or>
     (\<exists>c. x = Some (Inr c) \<and> bh_step L b c \<and> cm_ptr (th_cmd (bs_hw c)) = None)"

lemma bh_goodI:
  assumes "bh_step L b d" "work (bs_hw d) < work (bs_hw b)" "bh_step L d c"
  shows "bh_good L b (Some (Inl (burst', c)))"
  using bh_step_trans [OF assms(1,3)] assms(2,3) by (auto simp: bh_good_def bh_step_def)

lemma bh_turn_good:
  assumes b: "bus_ok L b"
  shows "bh_good L b (bh_turn (burst, b))"
proof -
  let ?b = "b\<lparr>bs_xmit_buff := []\<rparr>"
  obtain r cnt putLen burst' c where
    l: "loop_until collect_turn (0, 0, burst, ?b) = Some (r, cnt, putLen, burst', c)" and
    p: "collect_post L (0, 0, burst, ?b) (r, cnt, putLen, burst', c)"
    by (rule collect_returns [OF b])
  have f: "bus_ok L c" "same_link ?b c" "work (bs_hw c) + cnt \<le> work (bs_hw b)" using p by simp_all
  have st: "bh_step L b c" using f by (simp add: bh_step_def same_link_def)
  show ?thesis
  proof (cases r)
    case Xmit_finished
    then show ?thesis using p l st by (simp add: bh_good_def)
  next
    case Xmit_wait
    have nr: "\<not> ready b" using p Xmit_wait by (simp add: ready_def enough_free_def atbm_bh_is_term_def)
    obtain d where d: "xmit_wait False None c = Some d" "bh_step L c d" "\<not> False \<longrightarrow> ready d"
      by (rule xmit_wait_ok [OF f(1), of None False]) (simp_all add: confirmable_def)
    then show ?thesis using l Xmit_wait bh_step_trans [OF st d(2)] nr by (simp add: bh_good_def)
  next
    case (Xmit_data enough nc)
    have q: "0 < cnt" "laid_out cnt putLen c" "confirmable nc (bs_hw c)" using p Xmit_data by simp_all
    have w: "work (bs_hw c) < work (bs_hw b)" using f(3) q(1) by simp
    have pl: "putLen \<noteq> 0" using q(1,2) by (auto simp: laid_out_def)
    define d where "d = c\<lparr>bs_buf_id_offset := cnt, bs_bh_tx := bs_bh_tx c + 1\<rparr>"
    have d: "bus_ok L d" "bs_hw d = bs_hw c" "bs_sent d = bs_sent c" "bs_xmit_buff d = bs_xmit_buff c"
      using f(1) by (simp_all add: d_def bus_ok_def flow_ok_def atbm_bh_is_term_def)
    then have sd: "bh_step L b d" "work (bs_hw d) < work (bs_hw b)" "confirmable nc (bs_hw d)"
      using st w q(3) by (simp_all add: bh_step_def sent_more_def)
    have t: "bh_turn (burst, b) =
        (if atbm_bh_is_term d then do {
            h \<leftarrow> atbm_sdio_force_free_wsm nc (bs_hw d);
            Some (Inl (burst', d\<lparr>bs_hw := h\<rparr>)) }
          else (case atbm_data_write putLen d of
              (True, b) \<Rightarrow> do { b \<leftarrow> xmit_wait enough nc b; Some (Inl (burst', b)) }
            | (False, b) \<Rightarrow> do { b \<leftarrow> xmit_err nc b; Some (Inl (burst', b)) }))"
      using l Xmit_data pl by (simp add: d_def Let_def)
    show ?thesis
    proof (cases "atbm_bh_is_term d")
      case True
      have h: "tx_ok L (unat (bs_sizeInpChBuf d)) (bs_hw d)" using d(1) by (simp add: bus_ok_def)
      obtain h' where h': "atbm_sdio_force_free_wsm nc (bs_hw d) = Some h'" "tx_ok L (unat (bs_sizeInpChBuf d)) h'"
        "all_frames h' = all_frames (bs_hw d)" "work h' \<le> work (bs_hw d)" "th_numInpChBufs h' = th_numInpChBufs (bs_hw d)"
        by (rule force_free_ok [OF h sd(3)])
      have "bh_step L d (d\<lparr>bs_hw := h'\<rparr>)" using bus_ok_hw [OF d(1) h'(2,5)] h'(3,4) by (simp add: bh_step_def)
      from bh_goodI [OF sd(1,2) this] t True h'(1) show ?thesis by simp
    next
      case False
      obtain ok e where e: "atbm_data_write putLen d = (ok, e)" by fastforce
      have ee: "bus_ok L e" "bs_hw e = bs_hw d" "bs_sent e = (if ok then bs_sent d @ [(map snd (bs_xmit_buff d), putLen)] else bs_sent d)"
        using e d(1) by (auto simp: atbm_data_write_def bus_ok_def flow_ok_def atbm_bh_is_term_def)
      have "transfer_ok (map snd (bs_xmit_buff d), putLen)"
        using q(1,2) d(4) by (auto simp: transfer_ok_def laid_out_def)
      then have "bh_step L d e" using ee by (auto simp: bh_step_def sent_more_def)
      note se = bh_step_trans [OF sd(1) this]
      have w': "work (bs_hw e) < work (bs_hw b)" "confirmable nc (bs_hw e)" using sd(2,3) ee(2) by simp_all
      obtain k where k: "xmit_wait enough nc e = Some k" "bh_step L e k"
        by (rule xmit_wait_ok [OF ee(1) w'(2)])
      obtain m where m: "xmit_err nc e = Some m" "bh_step L e m"
        by (rule xmit_err_ok [OF ee(1) w'(2)])
      show ?thesis
        using t False e k(1) m(1) bh_goodI [OF se w'(1) k(2)] bh_goodI [OF se w'(1) m(2)] by (cases ok) simp_all
    qed
  qed
qed

declare bh_turn.simps [simp del]

interpretation bh: variant_loop bh_turn "bh_inv L" "bh_post L" bh_variant for L
proof unfold_locales
  fix s assume "bh_inv L s"
  then obtain burst b where s: "s = (burst, b)" and b: "bus_ok L b" by (cases s) simp
  from bh_turn_good [OF b, of burst]
  consider burst' c where "bh_turn s = Some (Inl (burst', c))" "bh_step L b c"
      "work (bs_hw c) < work (bs_hw b) \<or> \<not> ready b \<and> ready c"
    | c where "bh_turn s = Some (Inr c)" "bh_step L b c" "cm_ptr (th_cmd (bs_hw c)) = None"
    unfolding bh_good_def s by blast
  then show "(\<exists>s'. bh_turn s = Some (Inl s') \<and> bh_inv L s' \<and> bh_variant s' < bh_variant s \<and>
        (\<forall>r. bh_post L s' r \<longrightarrow> bh_post L s r)) \<or> (\<exists>r. bh_turn s = Some (Inr r) \<and> bh_post L s r)"
  proof cases
    case 1
    have "bus_ok L c" "work (bs_hw c) \<le> work (bs_hw b)" using 1(2) by (simp_all add: bh_step_def)
    moreover have "\<forall>r. bh_post L (burst', c) r \<longrightarrow> bh_post L s r" using bh_step_trans [OF 1(2)] by (simp add: s)
    moreover have "bh_variant (burst', c) < bh_variant s" using 1(3) \<open>work (bs_hw c) \<le> _\<close> by (auto simp: s)
    ultimately show ?thesis using 1(1) by (intro disjI1 exI [of _ "(burst', c)"]) simp
  next
    case 2
    then show ?thesis by (simp add: s)
  qed
qed

lemma atbm_sdio_tx_bh_returns:
  "bus_ok L b \<Longrightarrow> \<exists>b'. atbm_sdio_tx_bh burst b = Some b' \<and> bh_step L b b' \<and> cm_ptr (th_cmd (bs_hw b')) = None"
  using bh.returns [of L "(burst, b)"] by (simp add: atbm_sdio_tx_bh_def)

end
