(* ===== verification/Tx_Path.thy ===== *)
theory Tx_Path
  imports Tx_Confirm_Inv Sdio_Tx_Loops
begin

text \<open>
  The transmit path as a whole: frames enter a queue, the bottom half sends what the scheduler gives it, and
  the firmware confirms what it was asked to confirm. Between them these steps share the queues, the buffers
  and the counters of the firmware's buffers; the path is a custodian of frames.
\<close>

section \<open>Queueing a frame\<close>

lemma put_keeps_others:
  assumes r: "atbm_queue_put q s e skb tp = Some (r, q', s', e')" and p: "gate_ok p e" "unat (q_queue_id p) < 4"
    "unat (q_queue_id q) < 4" "unat (q_queue_id p) \<noteq> unat (q_queue_id q)"
  shows "gate_ok p e'"
proof -
  have t: "gate_ok p e1" if "put_throttle v q0 e = Some (q1, e1)" "q_queue_id q0 = q_queue_id q" for v q0 q1 e1
    using that p lock_keeps_others [of "q0\<lparr>q_overfull := ov\<rparr>" v e _ e1 p for ov]
    by (auto simp: put_throttle_def bind_eq_Some_conv wr_Some split: if_splits)
  from r p(1) show ?thesis
    by (auto simp: atbm_queue_put_def Let_def bind_eq_Some_conv move_tail_queue_def list_del_def
        split: if_splits list.splits dest!: t)
qed

lemma queue_put_step:
  assumes h: "sched_inv h" and qi: "qi < 4" and pre: "put_pre (Some skb) tp (th_queues h ! qi)"
  obtains r q' s' e' where
    "atbm_queue_put (th_queues h ! qi) (th_stats h) (th_env h) (Some skb) tp = Some (r, q', s', e')"
    "sched_inv (set_queue qi q' (h\<lparr>th_stats := s', th_env := e'\<rparr>))"
    "bank_frames (th_queues (set_queue qi q' (h\<lparr>th_stats := s', th_env := e'\<rparr>))) = bank_frames (th_queues h) +
       (if unat (tp_link_id tp) < st_map_capacity (th_stats h) \<and> q_free_pool (th_queues h ! qi) \<noteq> [] then {#Some skb#} else {#})"
    "dtor_skbs (tx_log e') = dtor_skbs (tx_log (th_env h))"
    "pend (set_queue qi q' (h\<lparr>th_stats := s', th_env := e'\<rparr>)) = pend h"
proof -
  let ?q = "th_queues h ! qi"
  note q = queue_of [OF sched_invD(1) [OF h] qi]
  have len: "qi < length (th_queues h)" using qi sched_invD(7) [OF h] by simp
  show ?thesis
  proof (cases "unat (tp_link_id tp) < st_map_capacity (th_stats h) \<and> q_free_pool ?q \<noteq> []")
    case False
    then obtain err where e: "atbm_queue_put ?q (th_stats h) (th_env h) (Some skb) tp = Some (Inl err, ?q, th_stats h, th_env h)"
      using atbm_queue_put_full [of tp "th_stats h" ?q "th_env h" "Some skb"]
        atbm_queue_put_bad_link [of "th_stats h" tp ?q "th_env h" "Some skb"] by (metis not_le)
    have s: "set_queue qi ?q (h\<lparr>th_stats := th_stats h, th_env := th_env h\<rparr>) = h" by (simp add: set_queue_def)
    show ?thesis by (rule that [OF e]) (unfold s, use h False in auto)
  next
    case True
    then obtain pos free where f: "q_free_pool ?q = pos # free" by (cases "q_free_pool ?q") auto
    obtain ov lc gc m where r: "atbm_queue_put ?q (th_stats h) (th_env h) (Some skb) tp = Some (Inr (),
        (put_queue ?q (th_env h) (Some skb) tp pos free)\<lparr>q_overfull := ov, q_tx_locked_cnt := lc, q_gc := gc\<rparr>,
        stats_inc (unat (tp_if_id tp)) (unat (tp_link_id tp)) (th_stats h), (th_env h)\<lparr>mac := m\<rparr>)"
      and i: "queue_inv ((put_queue ?q (th_env h) (Some skb) tp pos free)\<lparr>q_overfull := ov, q_tx_locked_cnt := lc, q_gc := gc\<rparr>)"
      and g: "gate_ok ((put_queue ?q (th_env h) (Some skb) tp pos free)\<lparr>q_overfull := ov, q_tx_locked_cnt := lc, q_gc := gc\<rparr>)
          ((th_env h)\<lparr>mac := m\<rparr>)"
      using atbm_queue_put_free [OF q(1) sched_invD(2) [OF h] q(2) pre _ f] True by blast
    let ?p = "put_queue ?q (th_env h) (Some skb) tp pos free"
    let ?r = "?p\<lparr>q_overfull := ov, q_tx_locked_cnt := lc, q_gc := gc\<rparr>"
    let ?s = "stats_inc (unat (tp_if_id tp)) (unat (tp_link_id tp)) (th_stats h)" and ?e = "(th_env h)\<lparr>mac := m\<rparr>"
    let ?h = "set_queue qi ?r (h\<lparr>th_stats := ?s, th_env := ?e\<rparr>)"
    have id: "q_queue_id ?r = q_queue_id ?q" by (simp add: put_queue_def Let_def)
    have others: "gate_ok (th_queues h ! j) ?e" if "j < 4" "j \<noteq> qi" for j
      by (rule put_keeps_others [OF r]) (use that q(3) queue_of [OF sched_invD(1) [OF h] that(1)] qi in auto)
    have "queues_ok ((th_queues h)[qi := ?r]) ?e"
      by (rule queues_ok_update [OF sched_invD(1) [OF h] qi i g id]) (use others in simp_all)
    then have inv: "sched_inv ?h" using h by (simp add: sched_inv_def set_queue_def)
    have fr: "bank_frames (th_queues ?h) = bank_frames (th_queues h) + {#Some skb#}"
      using bank_frames_update [OF len, of ?r] put_frames [OF q(1) f, of "th_env h" "Some skb" tp]
      by (simp add: set_queue_def)
    have so: "slots_ok ?q" by (rule q(4))
    have np: "pos \<notin> set (q_pending ?q)" using slots_free [OF so, of pos] f by auto
    have "icount (in_vif w) (q_pool ?r) (q_pending ?r) = icount (in_vif w) (q_pool ?q) (q_pending ?q)" for w
      using np by (simp add: put_queue_def Let_def icount_update_other)
    then have pd: "pend ?h = pend h"
      using pend_update [OF len, of _ ?r] by (simp add: pend_def set_queue_def fun_eq_iff)
    show ?thesis by (rule that [OF r inv]) (use fr pd True in simp_all)
  qed
qed

section \<open>Steps of the path\<close>

datatype tx_op =
    Tx_queue nat nat atbm_txpriv tx_buf
  | Tx_bh int
  | Tx_confirmed bool "tx_confirm list"
  | Tx_command wsm_cmd
  | Tx_answered u16
  | Tx_setup "tx_vif option list" int

text \<open>
  A frame comes with its contents; \<open>atbm_tx\<close> has filled in the header. A message of the firmware with several
  confirmations starts with their number. Commands come from \<open>wsm_cmd_send\<close>; other parts of the driver change
  the interfaces and the lock.
\<close>

definition confirm_message :: "bool \<Rightarrow> tx_confirm list \<Rightarrow> u8 list" where
  "confirm_message multi cs = (if multi then put_le32 (of_nat (length cs)) else []) @ concat (map put_tx_confirm cs)"

fun tx_step :: "tx_op \<Rightarrow> bus \<Rightarrow> bus option" where
  "tx_step (Tx_queue qi skb tp buf) b = do {
     let h = set_buf skb (\<lambda>_. buf) (bs_hw b);
     q \<leftarrow> rd (th_queues h) qi;
     (_, q, s, e) \<leftarrow> atbm_queue_put q (th_stats h) (th_env h) (Some skb) tp;
     Some (b\<lparr>bs_hw := set_queue qi q (h\<lparr>th_stats := s, th_env := e\<rparr>)\<rparr>) }"
| "tx_step (Tx_bh burst) b = atbm_sdio_tx_bh burst b"
| "tx_step (Tx_confirmed multi cs) b = do {
     (_, h) \<leftarrow> rx_tx_confirm multi (confirm_message multi cs) (bs_hw b);
     Some (b\<lparr>bs_hw := h\<rparr>) }"
| "tx_step (Tx_command c) b = Some (on_hw (\<lambda>h. h\<lparr>th_cmd := c\<rparr>) b)"
| "tx_step (Tx_answered wsm_id) b = Some (on_hw (rx_credit wsm_id) b)"
| "tx_step (Tx_setup vs lock) b = Some (on_hw (\<lambda>h. h\<lparr>th_vifs := vs, th_tx_lock := lock\<rparr>) b)"

text \<open>
  A frame fits into a buffer of the firmware; a message confirms frames that the firmware holds, each of them
  once, on interfaces that are running. A command is given when none waits, and answered when the firmware
  holds more than frames.
\<close>

fun tx_op_ok :: "tx_op \<Rightarrow> bus \<Rightarrow> bool" where
  "tx_op_ok (Tx_queue qi skb tp buf) b \<longleftrightarrow> qi < 4 \<and> put_pre (Some skb) tp (th_queues (bs_hw b) ! qi) \<and>
     buf_ok (unat (bs_sizeInpChBuf b)) buf"
| "tx_op_ok (Tx_bh burst) b = True"
| "tx_op_ok (Tx_confirmed multi cs) b \<longleftrightarrow> confirmable_all cs (bs_hw b) \<and> cs \<noteq> [] \<and> length cs < 2 ^ 31 \<and>
     (\<not> multi \<longrightarrow> length cs = 1)"
| "tx_op_ok (Tx_command c) b \<longleftrightarrow> cm_ptr (th_cmd (bs_hw b)) = None \<and> cmd_ok (unat (bs_sizeInpChBuf b)) c"
| "tx_op_ok (Tx_answered wsm_id) b \<longleftrightarrow> int (pend (bs_hw b) 0 + pend (bs_hw b) 1) < th_hw_bufs_used (bs_hw b)"
| "tx_op_ok (Tx_setup vs lock) b \<longleftrightarrow> vifs_ok vs"

definition tx_held :: "bus \<Rightarrow> nat option multiset" where
  "tx_held b = bank_frames (th_queues (bs_hw b))"

definition tx_released :: "bus \<Rightarrow> nat option multiset" where
  "tx_released b = mset (dtor_skbs (tx_log (th_env (bs_hw b))))"

fun tx_accepted :: "tx_op \<Rightarrow> bus \<Rightarrow> nat option multiset" where
  "tx_accepted (Tx_queue qi skb tp buf) b =
     (if unat (tp_link_id tp) < st_map_capacity (th_stats (bs_hw b)) \<and> q_free_pool (th_queues (bs_hw b) ! qi) \<noteq> []
      then {#Some skb#} else {#})"
| "tx_accepted x b = {#}"

lemma held_released: "tx_held b + tx_released b = all_frames (bs_hw b)"
  by (simp add: tx_held_def tx_released_def all_frames_def)

lemma set_buf_ok:
  assumes "tx_ok L sz h" "buf_ok sz buf"
  shows "tx_ok L sz (set_buf s (\<lambda>_. buf) h)" "all_frames (set_buf s (\<lambda>_. buf) h) = all_frames h"
proof -
  have f: "sched_inv (set_buf s (\<lambda>_. buf) h) = sched_inv h" "all_frames (set_buf s (\<lambda>_. buf) h) = all_frames h"
    "pend (set_buf s (\<lambda>_. buf) h) = pend h"
    by (rule sched_inv_fields; simp add: set_buf_def)+
  show "all_frames (set_buf s (\<lambda>_. buf) h) = all_frames h" by (rule f)
  have "bufs_ok sz (set_buf s (\<lambda>_. buf) h)" using tx_okD(4) [OF assms(1)] assms(2) by (simp add: bufs_ok_def f(2)) (simp add: set_buf_def)
  then show "tx_ok L sz (set_buf s (\<lambda>_. buf) h)"
    using assms(1) by (simp add: tx_ok_def counts_ok_def f) (simp add: set_buf_def)
qed

lemma tx_queue_step:
  assumes b: "bus_ok L b" and o: "tx_op_ok (Tx_queue qi skb tp buf) b"
  shows "\<exists>b'. tx_step (Tx_queue qi skb tp buf) b = Some b' \<and> bus_ok L b' \<and>
     tx_held b' + tx_released b' = tx_held b + tx_released b + tx_accepted (Tx_queue qi skb tp buf) b"
proof -
  let ?sz = "unat (bs_sizeInpChBuf b)" and ?g = "set_buf skb (\<lambda>_. buf) (bs_hw b)"
  have h: "tx_ok L ?sz (bs_hw b)" using b by (simp add: bus_ok_def)
  have bo: "buf_ok ?sz buf" "qi < 4" "put_pre (Some skb) tp (th_queues (bs_hw b) ! qi)" using o by simp_all
  note g = set_buf_ok [OF h bo(1), of skb]
  have ge: "th_queues ?g = th_queues (bs_hw b)" "th_stats ?g = th_stats (bs_hw b)" "th_env ?g = th_env (bs_hw b)"
    by (simp_all add: set_buf_def)
  obtain r q' s' e' where p:
    "atbm_queue_put (th_queues ?g ! qi) (th_stats ?g) (th_env ?g) (Some skb) tp = Some (r, q', s', e')"
    "sched_inv (set_queue qi q' (?g\<lparr>th_stats := s', th_env := e'\<rparr>))"
    "bank_frames (th_queues (set_queue qi q' (?g\<lparr>th_stats := s', th_env := e'\<rparr>))) = bank_frames (th_queues ?g) +
       (if unat (tp_link_id tp) < st_map_capacity (th_stats ?g) \<and> q_free_pool (th_queues ?g ! qi) \<noteq> [] then {#Some skb#} else {#})"
    "dtor_skbs (tx_log e') = dtor_skbs (tx_log (th_env ?g))"
    "pend (set_queue qi q' (?g\<lparr>th_stats := s', th_env := e'\<rparr>)) = pend ?g"
    by (rule queue_put_step [OF tx_okD(1) [OF g(1)] bo(2)]) (use bo(3) ge in simp, rule that)
  let ?h = "set_queue qi q' (?g\<lparr>th_stats := s', th_env := e'\<rparr>)"
  have ac: "(if unat (tp_link_id tp) < st_map_capacity (th_stats ?g) \<and> q_free_pool (th_queues ?g ! qi) \<noteq> [] then {#Some skb#} else {#}) =
      tx_accepted (Tx_queue qi skb tp buf) b" by (simp add: ge)
  have fr: "all_frames ?h = all_frames (bs_hw b) + tx_accepted (Tx_queue qi skb tp buf) b"
    using p(3,4) unfolding ac all_frames_def ge by (simp add: set_queue_def ac_simps)
  have ub: "th_bufs ?h = (th_bufs (bs_hw b))(skb := buf)" by (simp add: set_queue_def set_buf_def)
  have "bufs_ok ?sz ?h"
    using tx_okD(4) [OF h] bo(1) unfolding bufs_ok_def fr ub by (auto split: if_splits)
  then have "tx_ok L ?sz ?h"
    using p(2,5) g(1) by (simp add: tx_ok_def counts_ok_def) (simp add: set_queue_def set_buf_def)
  then have "bus_ok L (b\<lparr>bs_hw := ?h\<rparr>)" by (rule bus_ok_hw [OF b]) (simp add: set_queue_def set_buf_def)
  moreover have "tx_step (Tx_queue qi skb tp buf) b = Some (b\<lparr>bs_hw := ?h\<rparr>)"
    using p(1) bo(2) sched_invD(7) [OF tx_okD(1) [OF g(1)]] by (simp add: Let_def)
  ultimately show ?thesis using fr by (simp add: held_released)
qed

lemma tx_confirmed_step:
  assumes b: "bus_ok L b" and o: "tx_op_ok (Tx_confirmed multi cs) b"
  shows "\<exists>h. rx_tx_confirm multi (confirm_message multi cs) (bs_hw b) = Some (Inr [], h) \<and> bus_ok L (b\<lparr>bs_hw := h\<rparr>) \<and>
     all_frames h = all_frames (bs_hw b) \<and> (\<forall>x. live x h \<longleftrightarrow> live x (bs_hw b) \<and> x \<notin> tc_packetID ` set cs) \<and>
     th_hw_bufs_used h = th_hw_bufs_used (bs_hw b) - int (length cs)"
proof -
  have h: "tx_ok L (unat (bs_sizeInpChBuf b)) (bs_hw b)" using b by (simp add: bus_ok_def)
  have "\<exists>k. rx_tx_confirm multi (confirm_message multi cs) (bs_hw b) = Some (Inr [], k) \<and>
     tx_ok L (unat (bs_sizeInpChBuf b)) k \<and> all_frames k = all_frames (bs_hw b) \<and> th_numInpChBufs k = th_numInpChBufs (bs_hw b) \<and>
     th_hw_bufs_used k = th_hw_bufs_used (bs_hw b) - int (length cs) \<and>
     (\<forall>x. live x k \<longleftrightarrow> live x (bs_hw b) \<and> x \<notin> tc_packetID ` set cs)"
  proof (cases multi)
    case True
    with rx_multi_live [OF h, of cs "[]"] o show ?thesis by (auto simp: confirm_message_def)
  next
    case False
    then obtain c where "cs = [c]" using o by (cases cs) auto
    with False rx_single_live [OF h, of c "[]"] o show ?thesis by (auto simp: confirm_message_def)
  qed
  then show ?thesis using bus_ok_hw [OF b] by blast
qed

lemma tx_other_step:
  assumes b: "bus_ok L b" and f: "tx_ok L (unat (bs_sizeInpChBuf b)) (f (bs_hw b))"
    "all_frames (f (bs_hw b)) = all_frames (bs_hw b)" "th_numInpChBufs (f (bs_hw b)) = th_numInpChBufs (bs_hw b)"
  shows "bus_ok L (on_hw f b) \<and> tx_held (on_hw f b) + tx_released (on_hw f b) = tx_held b + tx_released b"
  using bus_ok_hw [OF b f(1,3)] f(2) by (simp add: on_hw_def held_released)

lemma command_ok: "tx_ok L sz h \<Longrightarrow> cmd_ok sz c \<Longrightarrow> tx_ok L sz (h\<lparr>th_cmd := c\<rparr>)"
  using sched_inv_fields [of "h\<lparr>th_cmd := c\<rparr>" h] by (simp add: tx_ok_def counts_ok_def bufs_ok_def)

lemma setup_ok: "tx_ok L sz h \<Longrightarrow> vifs_ok vs \<Longrightarrow> tx_ok L sz (h\<lparr>th_vifs := vs, th_tx_lock := n\<rparr>)"
  by (simp add: tx_ok_def counts_ok_def bufs_ok_def sched_inv_def all_frames_def pend_def)

section \<open>Runs\<close>

lemma tx_good_step:
  assumes b: "bus_ok L b" and o: "tx_op_ok x b"
  shows "\<exists>b'. tx_step x b = Some b' \<and> bus_ok L b' \<and>
     tx_held b' + tx_released b' = tx_held b + tx_released b + tx_accepted x b"
proof (cases x)
  case (Tx_queue qi skb tp buf)
  with tx_queue_step [OF b] o show ?thesis by blast
next
  case (Tx_bh burst)
  with atbm_sdio_tx_bh_returns [OF b, of burst] show ?thesis by (auto simp: bh_step_def held_released)
next
  case (Tx_confirmed multi cs)
  with tx_confirmed_step [OF b, of multi cs] o show ?thesis by (auto simp: held_released)
next
  case (Tx_command c)
  then have "tx_ok L (unat (bs_sizeInpChBuf b)) ((bs_hw b)\<lparr>th_cmd := c\<rparr>)" using b o by (simp add: bus_ok_def command_ok)
  from tx_other_step [OF b, of "\<lambda>h. h\<lparr>th_cmd := c\<rparr>", OF this] show ?thesis
    by (simp add: Tx_command sched_inv_fields(2) [of "(bs_hw b)\<lparr>th_cmd := c\<rparr>" "bs_hw b"])
next
  case (Tx_answered wsm_id)
  have h: "tx_ok L (unat (bs_sizeInpChBuf b)) (bs_hw b)" using b by (simp add: bus_ok_def)
  have u: "int (pend (bs_hw b) 0 + pend (bs_hw b) 1) < th_hw_bufs_used (bs_hw b)" using o Tx_answered by simp
  note r = release_command_ok [OF h u]
  have "tx_ok L (unat (bs_sizeInpChBuf b)) (rx_credit wsm_id (bs_hw b))"
    "all_frames (rx_credit wsm_id (bs_hw b)) = all_frames (bs_hw b)"
    "th_numInpChBufs (rx_credit wsm_id (bs_hw b)) = th_numInpChBufs (bs_hw b)"
    using h r by (simp_all add: rx_credit_def)
  from tx_other_step [OF b, of "rx_credit wsm_id", OF this] show ?thesis by (simp add: Tx_answered)
next
  case (Tx_setup vs n)
  let ?f = "\<lambda>h. h\<lparr>th_vifs := vs, th_tx_lock := n\<rparr>"
  have "tx_ok L (unat (bs_sizeInpChBuf b)) (?f (bs_hw b))" using b o Tx_setup by (simp add: bus_ok_def setup_ok)
  from tx_other_step [OF b, of ?f, OF this] show ?thesis by (simp add: Tx_setup all_frames_def)
qed

interpretation txpath: custody "bus_ok L" tx_op_ok tx_step tx_held tx_released tx_accepted for L
  by unfold_locales (use tx_good_step in fastforce)+

end
