(* ===== verification/Tx_Path_Props.thy ===== *)
theory Tx_Path_Props
  imports Tx_Policy_Props Tx_Path "HOL-Library.Code_Target_Nat"
begin

text \<open>
  The properties of the transmit path, with a small device: queues of two frames, two interfaces, a firmware
  with four buffers.
\<close>

section \<open>The start\<close>

text \<open>The driver after its start: empty queues, nothing sent; the bus may be plugged or not.\<close>

definition fresh_bus :: "u32 \<Rightarrow> bus \<Rightarrow> bool" where
  "fresh_bus cap b \<longleftrightarrow> (let h = bs_hw b in
     fresh_queues cap (th_queues h) (th_env h) \<and> tx_log (th_env h) = [] \<and>
     atbm_queue_stats_init WLAN_LINK_ID_MAX [True, True] = Inr (th_stats h) \<and> vifs_ok (th_vifs h) \<and>
     th_if_id_selected h < 2 \<and> th_tx_burst_idx h = - 1 \<and> th_hw_bufs_used h = 0 \<and> th_hw_bufs_used_vif h = [0, 0] \<and>
     th_save_buf h = None \<and> cm_ptr (th_cmd h) = None \<and> bs_n_xmits b = bs_hw_xmits b \<and> 0 \<le> bs_hw_bufs_free b \<and>
     bs_hw_bufs_free b \<le> uint (th_numInpChBufs h) \<and> bs_bh_halt b = 0 \<and> unat (bs_sizeInpChBuf b) \<le> SDIO_TX_MAXLEN)"

lemma init_lists:
  "atbm_queue_init qid cap ttl qa = Inr q \<Longrightarrow> q_queue q = [] \<and> q_pending q = []"
  by (auto simp: atbm_queue_init_def split: if_splits)

lemma no_frames: "(\<And>x. x \<in> set qs \<Longrightarrow> q_queue x = [] \<and> q_pending x = []) \<Longrightarrow> sum_list (map queue_frames qs) = {#}"
  by (induction qs) (auto simp: queue_frames_def)

lemma fresh_bus_start:
  assumes "fresh_bus cap b"
  shows "bus_ok (\<lambda>_. 0) b" "all_frames (bs_hw b) = {#}"
proof -
  let ?h = "bs_hw b"
  have f: "fresh_queues cap (th_queues ?h) (th_env ?h)" using assms by (simp add: fresh_bus_def Let_def)
  note q = fresh_queues_ok(1) [OF f]
  have e: "q_queue (th_queues ?h ! i) = [] \<and> q_pending (th_queues ?h ! i) = []" if "i < 4" for i
    using f that init_lists by (fastforce simp: fresh_queues_def list_all_iff)
  have qe: "q_queue x = [] \<and> q_pending x = []" if "x \<in> set (th_queues ?h)" for x
    using e q that by (auto simp: in_set_conv_nth queues_ok_def)
  have st: "stats_ok (th_stats ?h)" using assms ex_init(2)
    queue_start_inv [OF _ ex_init(1), of "[True, True]" "th_stats ?h" ex_env] ex_start_inv
    by (simp add: fresh_bus_def Let_def ex_start_def)
  have si: "sched_inv ?h" using assms q st by (simp add: fresh_bus_def Let_def sched_inv_def)
  have "bank_frames (th_queues ?h) = {#}" unfolding bank_frames_def by (rule no_frames) (use qe in blast)
  then show fr: "all_frames ?h = {#}" using assms by (simp add: all_frames_def fresh_bus_def Let_def)
  have pd: "pend ?h v = 0" for v using qe by (simp add: pend_def icount_def)
  have n: "uint (th_numInpChBufs ?h) < 65536" using uint_lt2p [of "th_numInpChBufs ?h"] by simp
  have "tx_ok (\<lambda>_. 0) (unat (bs_sizeInpChBuf b)) ?h"
    using assms si by (auto simp: tx_ok_def counts_ok_def bufs_ok_def cmd_ok_def fresh_bus_def Let_def fr pd less_2_cases_iff)
  then show "bus_ok (\<lambda>_. 0) b" using assms n by (simp add: bus_ok_def flow_ok_def fresh_bus_def Let_def)
qed

lemmas fresh_bus_ok = fresh_bus_start(1)
lemmas fresh_bus_frames = fresh_bus_start(2)

section \<open>A small device\<close>

lemma live_code [code]:
  "live pid h \<longleftrightarrow> list_ex (\<lambda>qi. list_ex (\<lambda>pos. live_at qi pos pid h) (q_pending (th_queues h ! qi))) [0..<4]"
  by (auto simp: live_def live_at_def list_ex_iff)

lemma running_code [code]:
  "running vi h \<longleftrightarrow> (case th_vifs h ! vi of None \<Rightarrow> False | Some v \<Rightarrow> vf_mode v \<noteq> NL80211_IFTYPE_UNSPECIFIED)"
  by (auto simp: running_def split: option.splits)

lemma vifs_ok_code [code]:
  "vifs_ok vs \<longleftrightarrow> length vs = 3 \<and> list_all (\<lambda>i. case vs ! i of None \<Rightarrow> True | Some v \<Rightarrow> vif_ok i v) [0..<2]"
  by (auto simp: vifs_ok_def list_all_iff split: option.splits)

lemma cmd_ok_code [code]:
  "cmd_ok sz c \<longleftrightarrow> (case cm_ptr c of None \<Rightarrow> True | Some (Skb_ptr s) \<Rightarrow> False
     | Some (Cmd_ptr n) \<Rightarrow> 8 \<le> unat (cm_len c) \<and> unat (cm_len c) < 2 ^ 16 \<and> aligned_len (unat (cm_len c)) \<le> sz \<and>
         cm_cmd c AND 0x3F \<noteq> WSM_TRANSMIT_REQ_MSG_ID)"
  by (auto simp: cmd_ok_def split: option.splits tx_ptr.splits)

definition ex_edca :: wsm_edca_queue_params where
  "ex_edca = \<lparr>ep_cwMin = 15, ep_cwMax = 1023, ep_aifns = 3, ep_txOpLimit = 0\<rparr>"

definition ex_vif :: "nat \<Rightarrow> iftype \<Rightarrow> join_status \<Rightarrow> tx_vif" where
  "ex_vif i mode js = \<lparr>vf_if_id = i, vf_enabled = True, vf_mode = mode, vf_join_status = js, vf_link_id_map = 4,
     vf_tx_multicast = False, vf_buffered_multicasts = False, vf_sta_asleep_mask = 0, vf_pspoll_mask = 0,
     vf_edca = replicate 4 ex_edca, vf_ssid = [0x61, 0]\<rparr>"

text \<open>A frame of 600 bytes, with or without a request for a confirmation.\<close>

definition ex_buf :: "bool \<Rightarrow> tx_buf" where
  "ex_buf confirm = \<lparr>tb_hdr_len = 600, tb_hdr_id = 4, tb_packetID = 0, tb_htTxParameters = (if confirm then 0x100 else 0),
     tb_frame_control = 8, tb_addr1_0 = 2, tb_protocol = 0x0800, tb_flags = 0, tb_rates = replicate 5 (4, 1)\<rparr>"

definition ex_hw :: "tx_vif \<Rightarrow> tx_hw" where
  "ex_hw v = \<lparr>th_queues = ex_qs, th_stats = ex_stats, th_env = ex_env, th_bufs = (\<lambda>_. ex_buf False),
     th_vifs = [Some v, None, None], th_if_id_selected = 0, th_tx_lock = 0, th_tx_burst_idx = - 1, th_hw_bufs_used = 0,
     th_hw_bufs_used_vif = [0, 0], th_numInpChBufs = 4, th_hw_noconfirm_tx = 0, th_save_buf = None, th_save_buf_len = 0,
     th_save_buf_vif_selected = - 1,
     th_cmd = \<lparr>cm_ptr = None, cm_len = 0, cm_cmd = 0xFFFF, cm_last_send_cmd = 0xFFFF, cm_done = False, cm_ret = 0\<rparr>,
     th_random = (\<lambda>_. 0), th_random_pos = 0, th_multicast_stop_work = []\<rparr>"

definition ex_bus :: "tx_vif \<Rightarrow> bus" where
  "ex_bus v = \<lparr>bs_hw = ex_hw v, bs_hw_bufs_free = 4, bs_hw_bufs_free_init = 4, bs_n_xmits = 0, bs_hw_xmits = 0,
     bs_wsm_tx_seq = 0, bs_sizeInpChBuf = 2048, bs_wsm_txframe_num = 0, bs_buf_id_offset = 0, bs_bh_tx = 0, bs_bh_halt = 0,
     bs_bh_error = False, bs_plugged = True, bs_reads = (\<lambda>_. Some 0), bs_read_pos = 0, bs_writes = (\<lambda>_. True),
     bs_write_pos = 0, bs_xmit_buff = [], bs_sent = []\<rparr>"

abbreviation "ex_sta \<equiv> ex_vif 0 NL80211_IFTYPE_STATION JOIN_STATUS_STA"

lemma ex_bus_fresh: "fresh_bus 2 (ex_bus ex_sta)" "fresh_bus 2 (ex_bus (ex_vif 0 NL80211_IFTYPE_AP JOIN_STATUS_AP))"
  by code_simp+

definition ex_confirm :: "nat \<Rightarrow> tx_confirm" where
  "ex_confirm pos = \<lparr>tc_packetID = atbm_queue_make_packet_id 0 0 0 (of_nat pos) 0 1, tc_status = 0, tc_txedRate = 4,
     tc_ackFailures = 0, tc_flags = 0, tc_mediaDelay = 0, tc_txQueueDelay = 0, tc_if_id = 0, tc_link_id = 1\<rparr>"


text \<open>A frame that is to be confirmed is queued, sent and confirmed.\<close>

abbreviation "ex_put \<equiv> Tx_queue 0 7 (ex_tp 0) (ex_buf True)"

lemma ex_put_ok: "tx_op_ok ex_put (ex_bus ex_sta)" "tx_accepted ex_put (ex_bus ex_sta) = {#Some 7#}"
  by code_simp+

lemma ex_sent_live:
  "confirmable_all [ex_confirm 0] (bs_hw (the (run_ops tx_step [ex_put, Tx_bh 0] (ex_bus ex_sta))))"
  by code_simp

lemma ex_sent:
  obtains b where "run_ops tx_step [ex_put, Tx_bh 0] (ex_bus ex_sta) = Some b" "bus_ok (\<lambda>_. 0) b"
    "confirmable_all [ex_confirm 0] (bs_hw b)" "run_ok tx_op_ok tx_step [ex_put, Tx_bh 0] (ex_bus ex_sta)"
proof -
  note i = fresh_bus_ok [OF ex_bus_fresh(1)]
  have ok: "run_ok tx_op_ok tx_step [ex_put, Tx_bh 0] (ex_bus ex_sta)"
    using ex_put_ok(1) by (simp del: tx_step.simps tx_op_ok.simps(1) split: option.split)
  obtain b where b: "run_ops tx_step [ex_put, Tx_bh 0] (ex_bus ex_sta) = Some b" "bus_ok (\<lambda>_. 0) b"
    using txpath.run_total [OF i ok] by blast
  have "confirmable_all [ex_confirm 0] (bs_hw b)" using ex_sent_live by (simp only: b(1) option.sel)
  with that b ok show ?thesis by blast
qed

section \<open>The path in use\<close>

lemma accepted_none:
  "(\<And>x b. x \<in> set xs \<Longrightarrow> tx_accepted x b = {#}) \<Longrightarrow> accepted_run tx_accepted tx_step xs b = {#}"
  by (induction xs arbitrary: b) (auto split: option.split)



text \<open>
  Claim C10. No frame is lost on the transmit path and none is given back twice: after any run the frames
  in the queues and those given back are the frames that were there before and those that were accepted.
\<close>

theorem tx_path_conserves_frames:
  assumes "bus_ok L b" "run_ok tx_op_ok tx_step xs b" "run_ops tx_step xs b = Some b'"
  shows "bank_frames (th_queues (bs_hw b')) + mset (dtor_skbs (tx_log (th_env (bs_hw b')))) =
     bank_frames (th_queues (bs_hw b)) + mset (dtor_skbs (tx_log (th_env (bs_hw b)))) +
       accepted_run tx_accepted tx_step xs b"
  using txpath.run_conserve [OF assms] by (simp add: tx_held_def tx_released_def)

theorem tx_path_conserves_frames_witness:
  "\<exists>b'. run_ops tx_step [ex_put, Tx_bh 0] (ex_bus ex_sta) = Some b' \<and>
     bank_frames (th_queues (bs_hw b')) + mset (dtor_skbs (tx_log (th_env (bs_hw b')))) = {#Some 7#}"
proof -
  obtain b where b: "run_ops tx_step [ex_put, Tx_bh 0] (ex_bus ex_sta) = Some b"
    "run_ok tx_op_ok tx_step [ex_put, Tx_bh 0] (ex_bus ex_sta)" by (rule ex_sent)
  note i = fresh_bus_ok [OF ex_bus_fresh(1)]
  have z: "bank_frames (th_queues (bs_hw (ex_bus ex_sta))) + mset (dtor_skbs (tx_log (th_env (bs_hw (ex_bus ex_sta))))) = {#}"
    using fresh_bus_frames [OF ex_bus_fresh(1)] by (simp add: all_frames_def)
  have "accepted_run tx_accepted tx_step [Tx_bh 0] c = {#}" for c by (rule accepted_none) simp
  then have "accepted_run tx_accepted tx_step [ex_put, Tx_bh 0] (ex_bus ex_sta) = {#Some 7#}"
    using ex_put_ok(2) by (simp del: tx_step.simps tx_accepted.simps accepted_run.simps(1) split: option.split)
  with tx_path_conserves_frames [OF i b(2,1)] z b(1) show ?thesis by simp
qed

text \<open>
  Claim C16. The transmit half of the bottom half returns, for any answers of the bus: it keeps the
  invariant, loses no frame, leaves no command waiting, and every transfer it makes carries at least one frame, is
  made of whole blocks, gives every frame blocks of its own and fits into the transfer buffer.
\<close>

theorem tx_bh_returns:
  assumes "bus_ok L b"
  shows "\<exists>b' ts. atbm_sdio_tx_bh burst b = Some b' \<and> bus_ok L b' \<and> all_frames (bs_hw b') = all_frames (bs_hw b) \<and>
     cm_ptr (th_cmd (bs_hw b')) = None \<and> bs_sent b' = bs_sent b @ ts \<and>
     list_all (\<lambda>(ps, n). ps \<noteq> [] \<and> 256 * length ps \<le> n \<and> n \<le> SDIO_TX_MAXLEN \<and> n mod 256 = 0) ts"
proof -
  have t: "transfer_ok = (\<lambda>(ps, n). ps \<noteq> [] \<and> 256 * length ps \<le> n \<and> n \<le> SDIO_TX_MAXLEN \<and> n mod 256 = 0)"
    by (auto simp: transfer_ok_def fun_eq_iff)
  from atbm_sdio_tx_bh_returns [OF assms, of burst] show ?thesis
    unfolding bh_step_def sent_more_def t by blast
qed

theorem tx_bh_returns_witness:
  "\<exists>b b'. run_ops tx_step [ex_put, Tx_bh 0] (ex_bus ex_sta) = Some b \<and> atbm_sdio_tx_bh 5 b = Some b' \<and>
     all_frames (bs_hw b') = all_frames (bs_hw b)"
proof -
  obtain b where b: "run_ops tx_step [ex_put, Tx_bh 0] (ex_bus ex_sta) = Some b" "bus_ok (\<lambda>_. 0) b" by (rule ex_sent)
  from tx_bh_returns [OF b(2), of 5] b(1) show ?thesis by blast
qed



section \<open>What the scheduler hands out\<close>

text \<open>The links that may be served: a station that is awake or asked for a frame, the buffered multicasts, U-APSD.\<close>

definition link_awake :: "tx_vif \<Rightarrow> nat \<Rightarrow> bool" where
  "link_awake v l \<longleftrightarrow>
     (if l = atbm_dtim_virtual_linkid then vf_sta_asleep_mask v = 0 \<or> vf_tx_multicast v
      else l = atbm_uapsd_virtual_linkid \<or> \<not> bit (vf_sta_asleep_mask v) l \<or> bit (vf_pspoll_mask v) l)"

lemma link_bit: "m AND BIT l \<noteq> 0 \<longleftrightarrow> l < 32 \<and> bit m l"
proof -
  have "m AND BIT l = (if bit m l then BIT l else 0)"
    by (rule bit_word_eqI) (auto simp: BIT_def bit_simps)
  moreover have "BIT l \<noteq> 0 \<longleftrightarrow> l < 32" using push_bit_eq_0_iff by (auto simp: BIT_def)
  ultimately show ?thesis by (auto simp: bit_imp_le_length)
qed

lemma allowed_awake:
  assumes "allowed_links v m" "m AND BIT l \<noteq> 0"
  shows "link_awake v l"
proof -
  have l: "l < 32" "bit m l" using assms(2) by (simp_all add: link_bit)
  from assms(1) consider "m = unicast_mask v" | "vf_tx_multicast v" "m = BIT atbm_dtim_virtual_linkid"
    unfolding allowed_links_def by blast
  then show ?thesis
  proof cases
    case 1
    with l show ?thesis
      by (auto simp: link_awake_def unicast_mask_def Let_def BIT_def bit_simps split: if_splits)
  next
    case 2
    with l have "l = atbm_dtim_virtual_linkid" by (auto simp: BIT_def bit_simps)
    with 2 show ?thesis by (simp add: link_awake_def)
  qed
qed

text \<open>
  Claim C11. The scheduler returns and never aborts. What it hands out is a frame of an enabled interface whose state
  lets it pass, for a station that is awake or asked for it (or a multicast that is due), while
  transmission is not locked and the firmware has a buffer; the frame is now under way, its header names its
  slot, and no frame is lost on the way to it.
\<close>

theorem wsm_get_tx_sound:
  assumes "sched_inv h" "th_save_buf h = None" "cm_ptr (th_cmd h) = None"
  shows "\<exists>c h'. wsm_get_tx burst h = Some (c, h') \<and> sched_inv h' \<and> all_frames h' = all_frames h \<and>
     (case c of None \<Rightarrow> True
      | Some (p, len, n, vsel) \<Rightarrow> th_tx_lock h = 0 \<and> th_hw_bufs_used h < uint (th_numInpChBufs h) \<and>
          waiting_frames h' < waiting_frames h \<and>
          (\<exists>skb vi v qi pos. p = Skb_ptr skb \<and> vsel = int vi \<and> th_vifs h ! vi = Some v \<and> vf_enabled v \<and>
             taken qi vi skb pos h' \<and> link_awake v (link_of (taken_item qi pos h')) \<and>
             fst (tx_data_action v (i_txpriv (taken_item qi pos h'))) = DoTx \<and> len = ucast (tb_hdr_len (th_bufs h' skb))))"
proof -
  obtain c h' where g: "wsm_get_tx burst h = Some (c, h')" "tx_outcome h c h'"
    by (rule wsm_get_tx_ok [OF assms(1,2), of burst]) (use assms(3) in auto)
  show ?thesis
  proof (cases c)
    case None
    with g show ?thesis by (auto simp: tx_outcome_def)
  next
    case (Some y)
    obtain p len n vsel where y: "y = (p, len, n, vsel)" by (cases y)
    have o: "sched_inv h'" "all_frames h' = all_frames h" "waiting_frames h' < waiting_frames h" "th_tx_lock h = 0"
      "th_hw_bufs_used h < uint (th_numInpChBufs h)" "handed h p len vsel h'"
      using g(2) by (simp_all add: Some y tx_outcome_def)
    obtain skb vi v qi pos m where d: "p = Skb_ptr skb" "vsel = int vi" "th_vifs h ! vi = Some v" "vf_enabled v"
      "taken qi vi skb pos h'" "allowed_links v m" "link_sendable m (taken_item qi pos h')"
      "fst (tx_data_action v (i_txpriv (taken_item qi pos h'))) = DoTx" "len = ucast (tb_hdr_len (th_bufs h' skb))"
      using o(6) unfolding handed_def by blast
    have "link_awake v (link_of (taken_item qi pos h'))"
      using allowed_awake [OF d(6)] d(7) by (simp add: link_sendable_def)
    with g(1) o(1-5) d show ?thesis by (intro exI [of _ c] exI [of _ h']) (auto simp: Some y)
  qed
qed

theorem wsm_get_tx_sound_witness:
  "\<exists>b c h'. tx_step ex_put (ex_bus ex_sta) = Some b \<and> wsm_get_tx 0 (bs_hw b) = Some (c, h') \<and> c \<noteq> None \<and>
     all_frames h' = {#Some 7#}"
proof -
  note i = fresh_bus_ok [OF ex_bus_fresh(1)]
  obtain b where b: "tx_step ex_put (ex_bus ex_sta) = Some b" "bus_ok (\<lambda>_. 0) b"
    "tx_held b + tx_released b = tx_held (ex_bus ex_sta) + tx_released (ex_bus ex_sta) + tx_accepted ex_put (ex_bus ex_sta)"
    using tx_good_step [OF i ex_put_ok(1)] by blast
  have fr: "all_frames (bs_hw b) = {#Some 7#}"
    using b(3) fresh_bus_frames [OF ex_bus_fresh(1)] unfolding held_released ex_put_ok(2) by simp
  have e: "map_option (\<lambda>x. fst x \<noteq> None) (wsm_get_tx 0 (bs_hw (the (tx_step ex_put (ex_bus ex_sta))))) = Some True"
    "cm_ptr (th_cmd (bs_hw (the (tx_step ex_put (ex_bus ex_sta))))) = None" by code_simp+
  have h: "tx_ok (\<lambda>_. 0) (unat (bs_sizeInpChBuf b)) (bs_hw b)" using b(2) by (simp add: bus_ok_def)
  have cm: "cm_ptr (th_cmd (bs_hw b)) = None" using e(2) by (simp only: b(1) option.sel)
  have "map_option (\<lambda>x. fst x \<noteq> None) (wsm_get_tx 0 (bs_hw b)) = Some True" using e(1) by (simp only: b(1) option.sel)
  with wsm_get_tx_sound [OF tx_okD(1,2) [OF h] cm, of 0] b(1) fr show ?thesis by auto
qed



end
