(* ===== verification/Spec2Isabelle.thy ===== *)
theory Spec2Isabelle
  imports Queue_Props Tx_Policy_Props Reorder_Props Elements_Props Mesh_Props Crypto_Props Tx_Path_Props
begin

text \<open>
  A verification of core parts of the AltoBeam WiFi driver (\<open>src/hal_apollo/\<close>): the device driver proper
  and its private copy of mac80211 (\<open>src/hal_apollo/mac80211/\<close>).

  \<^bold>\<open>The program.\<close> A frame to be sent comes from mac80211, which has four software queues that
  several parts of the driver stop and wake for reasons of their own. The driver chooses a retry policy for it
  from a cache of sixteen that the device holds (\<open>txrx.c\<close>), puts it into one of four transmit queues
  (\<open>queue.c\<close>), from which a scheduler picks one after another (\<open>wsm_get_tx\<close> in \<open>wsm.c\<close>); the bottom half of the
  SDIO bus collects them into transfers to the firmware (\<open>bh_sdio.c\<close>), under a 32-bit packet identifier each and a count of the
  buffers the firmware has left. A frame that needs no confirmation is given back when it has been copied; otherwise
  the confirmation of the firmware names the identifier (\<open>wsm.c\<close>, \<open>txrx.c\<close>), removes the frame and gives the policy back. A queue that runs full, and a policy
  cache that is exhausted, stop mac80211's queues. Frames may be encrypted and authenticated in software before
  (\<open>wpa.c\<close>, \<open>wep.c\<close>, \<open>tkip.c\<close>). A received frame is checked and decrypted by the same
  files; data frames of a block-ack session (\<open>agg-rx.c\<close>) pass a reorder buffer (\<open>rx.c\<close>); management
  frames are taken apart into information elements (\<open>util.c\<close>, \<open>atbm_mac80211.h\<close>), on which the
  peering of mesh points (\<open>mesh_plink.c\<close>) rests.

  \<^bold>\<open>How it is modelled.\<close> Structures are records, enumerations datatypes, machine integers words of
  their width (\<open>u8\<close> to \<open>u64\<close>). A function of C is a HOL function that takes the state it reads and
  returns the state it writes. \<open>None\<close> stands for what the kernel would stop or C leaves undefined: an access
  outside an array or buffer, a fired \<open>BUG_ON\<close>, a division by zero; errors the code returns are values
  (\<open>Inl\<close> of an \<open>errno\<close>, or the code's own result type). Loops are structural, have a proved termination measure, or are an iteration in the option monad that a variant
  proves to return; no fuel is used, and a bound on the turns of a loop is the code's own (6000 polls of a register in
  \<open>wait_loop\<close>). Every definition computes, and every property with a hypothesis has a witness that
  applies it at a concrete state. What calls do to the outside (a stopped queue, a destroyed frame, a sent management frame) is
  a list of events in the state. Random numbers, clocks, allocation outcomes and what the hardware reports are arguments.

  \<^bold>\<open>The theories.\<close>

  \<open>Prelude\<close> (integers, array accesses, error codes, runs of operations), \<open>Frame\<close> (bytes of an 802.11
  frame), and three interfaces as locales. \<open>Custody\<close>: \<open>safe_steps\<close> is the contract of a component whose
  operations never abort and keep its invariant, \<open>custody\<close> extends it by the conservation of frames; the
  transmit queue, the transmit path, the reorder buffer, the policy cache and the mesh peer links are interpretations of the
  first or both.
  \<open>Replay\<close>: \<open>replay_guard\<close> is the contract of a receiver with a replay counter; management
  frames under BIP and data frames under TKIP are interpretations (CCMP is not: see C37). \<open>Loops\<close>: \<open>variant_loop\<close> is the contract of a loop
  that leaves on a condition of the whole state; the loop of the scheduler and the two loops of the bottom half are
  interpretations.

  Transmit queues. \<open>Mac_Queues\<close> models the stop reasons of mac80211 (\<open>mac80211/util.c\<close>);
  \<open>Queue\<close> and \<open>Queue_Ops\<close> all operations of \<open>queue.c\<close>: slots of a pool on three lists, counters by
  interface and link, locks, garbage collection; \<open>Packet_Id\<close> the identifiers. \<open>Queue_Inv\<close> is the
  invariant, \<open>Queue_Safe\<close>, \<open>Queue_Confirm\<close>, \<open>Queue_Gc\<close> and \<open>Queue_Clear\<close> show that each operation
  keeps it, \<open>Queue_Spec\<close> is the abstract queue (a list of waiting frames and a map of those the firmware holds) with the
  refinement of each operation, \<open>Queue_Runs\<close> the runs. Properties C1 to C6, C8, C9, C12, C13 in \<open>Queue_Props\<close>.

  The transmit path. \<open>Queue_Bank\<close> sees the four queues together. \<open>Tx_Sched\<close> models the scheduler: the choice of an
  access category, the links that may be served, the frames that are dropped, saved buffers and commands.
  \<open>Sdio_Tx\<close> models the transmit half of \<open>bh_sdio.c\<close>: the register that says how many buffers are free, the collection of
  frames into a transfer, frames given back, failed transfers. \<open>Tx_Confirm\<close> models the confirmations of the firmware, from
  their bytes to the queue. \<open>Tx_Sched_Inv\<close>, \<open>Sdio_Tx_Inv\<close>, \<open>Sdio_Tx_Loops\<close> and
  \<open>Tx_Confirm_Inv\<close> show what each keeps: the queues' invariant, the frames, and the counters of the firmware's buffers,
  by interface exactly the frames under way. \<open>Tx_Path\<close> composes them with the queues to runs of the whole path. C7, C10,
  C11, C16, C17 and C29 in \<open>Tx_Path_Props\<close>.

  Retry policies. \<open>Tx_Policy\<close> models \<open>tx_policy_build\<close>, the cache and its locking, the upload;
  \<open>Tx_Policy_Build\<close> shows what a built policy contains, \<open>Tx_Policy_Cache\<close> the invariant of cache and
  locks over runs. C14, C15 and C18 to C21 in
  \<open>Tx_Policy_Props\<close>.

  Receive sessions. \<open>Reorder\<close> models the reorder buffer with its release timer, \<open>Agg_Rx\<close> the set-up
  and end of sessions and the hardware tokens. \<open>Reorder_Window\<close> sees the ring as a window from its head,
  \<open>Reorder_Release\<close> the release loops as shifts of the window, \<open>Reorder_Runs\<close> the invariant and the order of
  delivery. C22 to C26 in \<open>Reorder_Props\<close>, with concrete runs of two defects.

  Information elements. \<open>Elements\<close> models the parser and the searches; \<open>Elements_List\<close> a
  reference specification of the parser on lists of elements. C27, C28 and C30 in \<open>Elements_Props\<close>.

  Mesh peer links. \<open>Mesh_Plink\<close> models every function of \<open>mesh_plink.c\<close>; \<open>Mesh_Inv\<close> the
  invariant and the peering protocol as a transition relation, \<open>Mesh_Runs\<close> reception for arbitrary frames,
  \<open>Mesh_Frames\<close> the frames read back, \<open>Mesh_Timers\<close> an attempt that is not answered. C31 to C34 in
  \<open>Mesh_Props\<close>.

  Frame protection, as configured with encryption in software. \<open>Aes_Ccm\<close>, \<open>Aes_Cmac\<close>, \<open>Michael\<close>
  model the files of those names and \<open>Ccm_Standard\<close> the CCM of RFC 3610; \<open>Wpa_Ccmp\<close>,
  \<open>Wpa_Bip\<close>, \<open>Wep\<close> and \<open>Tkip\<close> the handlers of frames and their counters, with their proofs in
  \<open>Wpa_Ccmp_Proofs\<close>, \<open>Wpa_Bip_Proofs\<close>, \<open>Tkip_Proofs\<close> and \<open>Tkip_Replay\<close>. The ciphers and
  the checksum of the kernel are parameters: of the block cipher only that it yields sixteen bytes is relied on, of the
  stream cipher that it is its own inverse, of the checksum nothing. C35 to C40 in \<open>Crypto_Props\<close>.

  \<^bold>\<open>What the lemmas show.\<close> For each component an invariant that every operation keeps, so that no run of
  operations aborts (C1, C7, C18, C22, C31); conservation of frames (C2, C10, C23); refinement of an abstract specification or
  of a protocol (C3 to C6, C32); agreement with a reference definition (C28, C35); functional behaviour of the operations,
  among them what the scheduler hands out (C11) and what a confirmation settles (C17); round trips of identifiers and
  frames (C13, C33, C36, C40); bounds of what is read or counted (C14, C27); termination and progress (C16, C25, C34);
  and where the code does not do what it means to, a theorem that says what it does instead (C9, C21, C29, C37).

  \<^bold>\<open>Not modelled.\<close> Locks are the order of the operations: each operation is one step, as under the queue's
  spin lock or the station lock. Reference counts, memory exhaustion inside the kernel and statistics are left out. Of the bus
  transports the transmit half of SDIO is modelled, as configured with \<open>CONFIG_TX_NO_CONFIRM\<close> and
  \<open>CONFIG_ATBM_SDIO_TX_HOLD\<close>; its receive half, USB and SPI are not. Nor are the marshalling of firmware commands, the
  preparation of frame descriptors in \<open>atbm_tx\<close>, the configuration interfaces, station management, rate control
  and mesh path selection: they are callbacks, register sequences or tables around the parts above, or, for the last two,
  candidates for a further extension. The firmware images, the BLE host stack and the configuration tool are third-party code.
\<close>

end
